(* ===== verification/Workflow_Dag.thy ===== *)
theory Workflow_Dag
  imports Prelude
begin

text \<open>
  The graph routines of the workflow engine: three-colour depth-first search for a cycle
  (\<open>_find_cycle\<close>), memoised ancestors (\<open>_workflow_ancestors\<close>) of
  \<open>app/domain/workflow.py\<close>, and the deterministic topological order of
  \<open>app/domain/workflow_execution.py\<close>, each with its correctness against the edge relation.

  A missing dictionary key is the branch \<open>Key_error\<close>; the recursion of the ancestors and the
  walk along parent links take a bound, and \<open>Recursion_error\<close> is running out of it.
\<close>

section \<open>Data\<close>

datatype color = White | Gray | Black

datatype dag_error = Key_error | Recursion_error

type_synonym adjacency = "(string, string list) dict"

definition edge_rel :: "adjacency \<Rightarrow> (string \<times> string) set" where
  "edge_rel adj = {(u, v). \<exists>vs. dict_get adj u = Some vs \<and> v \<in> set vs}"

definition closed_graph :: "string set \<Rightarrow> adjacency \<Rightarrow> bool" where
  "closed_graph ids adj \<longleftrightarrow>
     (\<forall>u \<in> ids. case dict_get adj u of None \<Rightarrow> False | Some vs \<Rightarrow> set vs \<subseteq> ids)"

lemma closed_graphE:
  assumes "closed_graph ids adj" and "u \<in> ids"
  obtains vs where "dict_get adj u = Some vs" and "set vs \<subseteq> ids"
  using assms by (auto simp: closed_graph_def split: option.splits)

section \<open>Cycle search\<close>

text \<open>
  The walk back from the current node to the grey neighbour. The accumulator is the reverse of
  the source's \<open>cycle_reversed\<close>, which the source reverses at the end.
\<close>

fun walk_parents ::
    "nat \<Rightarrow> (string, string) dict \<Rightarrow> string \<Rightarrow> string \<Rightarrow> string list \<Rightarrow> (dag_error, string list) result" where
  "walk_parents 0 parents walker target acc = Inl Recursion_error"
| "walk_parents (Suc n) parents walker target acc =
     (if walker = target then Inr acc
      else case dict_get parents walker of
             None \<Rightarrow> Inl Key_error
           | Some p \<Rightarrow> walk_parents n parents p target (p # acc))"

datatype dfs_outcome = Finished "(string, color) dict" "(string, string) dict" | Cycle "string list"

function dfs_loop ::
    "adjacency \<Rightarrow> (string, color) dict \<Rightarrow> (string, string) dict \<Rightarrow> (string \<times> nat) list
     \<Rightarrow> (dag_error, dfs_outcome) result" where
  "dfs_loop adj colors parents [] = Inr (Finished colors parents)"
| "dfs_loop adj colors parents ((current, next_index) # stack) =
     (case dict_get adj current of
        None \<Rightarrow> Inl Key_error
      | Some neighbors \<Rightarrow>
          if next_index \<ge> length neighbors then
            dfs_loop adj (dict_set colors current Black) parents stack
          else (let neighbor = neighbors ! next_index in
            case dict_get colors neighbor of
              None \<Rightarrow> Inl Key_error
            | Some White \<Rightarrow>
                dfs_loop adj (dict_set colors neighbor Gray) (dict_set parents neighbor current)
                  ((neighbor, 0) # (current, next_index + 1) # stack)
            | Some Gray \<Rightarrow>
                rbind (walk_parents (Suc (length colors)) parents current neighbor [current])
                  (\<lambda>cycle. Inr (Cycle cycle))
            | Some Black \<Rightarrow> dfs_loop adj colors parents ((current, next_index + 1) # stack)))"
  by pat_completeness auto

definition stack_work :: "adjacency \<Rightarrow> (string \<times> nat) list \<Rightarrow> nat" where
  "stack_work adj stack = sum_list (map (\<lambda>(c, i).
     Suc (case dict_get adj c of None \<Rightarrow> 0 | Some vs \<Rightarrow> length vs - i)) stack)"

abbreviation white_count :: "(string, color) dict \<Rightarrow> nat" where
  "white_count \<equiv> dict_count (\<lambda>c. c = White)"

lemma dict_count_le: "\<not> P w \<Longrightarrow> dict_count P (dict_set d k w) \<le> dict_count P d"
  by (induction d) (auto simp: dict_count_def)

lemma white_count_black: "white_count (dict_set d k Black) < white_count d \<or>
    white_count (dict_set d k Black) = white_count d"
  using dict_count_le [of "\<lambda>c. c = White" Black k d] by auto

lemma white_count_gray: "dict_get d k = Some White \<Longrightarrow> white_count (dict_set d k Gray) < white_count d"
  using dict_count_drop [of d k White "\<lambda>c. c = White" Gray] by auto

termination dfs_loop
  by (relation "measures [\<lambda>(adj, colors, parents, stack). white_count colors,
        \<lambda>(adj, colors, parents, stack). stack_work adj stack]")
     (use white_count_black in \<open>auto simp: stack_work_def white_count_gray\<close>)

text \<open>The outer loop over the start nodes.\<close>

fun cycle_from_starts ::
    "adjacency \<Rightarrow> (string, color) dict \<Rightarrow> (string, string) dict \<Rightarrow> string list
     \<Rightarrow> (dag_error, string list option) result" where
  "cycle_from_starts adj colors parents [] = Inr None"
| "cycle_from_starts adj colors parents (start # starts) =
     (case dict_get colors start of
        None \<Rightarrow> Inl Key_error
      | Some c \<Rightarrow>
          if c \<noteq> White then cycle_from_starts adj colors parents starts
          else rbind (dfs_loop adj (dict_set colors start Gray) parents [(start, 0)]) (\<lambda>out.
            case out of
              Finished colors' parents' \<Rightarrow> cycle_from_starts adj colors' parents' starts
            | Cycle cycle \<Rightarrow> Inr (Some cycle)))"

definition find_cycle :: "string list \<Rightarrow> adjacency \<Rightarrow> (dag_error, string list option) result" where
  "find_cycle ids adj = cycle_from_starts adj (map (\<lambda>n. (n, White)) ids) [] ids"

section \<open>Correctness of the cycle search\<close>

definition is_cycle :: "(string \<times> string) set \<Rightarrow> string list \<Rightarrow> bool" where
  "is_cycle E xs \<longleftrightarrow> xs \<noteq> [] \<and> successively (\<lambda>u v. (u, v) \<in> E) xs \<and> (last xs, hd xs) \<in> E"

lemma successively_trancl:
  "successively (\<lambda>u v. (u, v) \<in> E) xs \<Longrightarrow> xs \<noteq> [] \<Longrightarrow> (hd xs, last xs) \<in> E\<^sup>*"
proof (induction xs rule: induct_list012)
  case (3 x y zs)
  then have "(x, y) \<in> E" and "(y, last (y # zs)) \<in> E\<^sup>*" by auto
  then show ?case by (simp add: converse_rtrancl_into_rtrancl)
qed auto

lemma is_cycle_not_acyclic:
  assumes "is_cycle E xs"
  shows "\<not> acyclic E"
proof -
  from assms have "(hd xs, last xs) \<in> E\<^sup>*" and "(last xs, hd xs) \<in> E"
    by (auto simp: is_cycle_def successively_trancl)
  then have "(hd xs, hd xs) \<in> E\<^sup>+" by (rule rtrancl_into_trancl1)
  then show ?thesis by (auto simp: acyclic_def)
qed

text \<open>
  A stack entry holds the next neighbour to look at; the neighbours before it are black or are
  the node right above in the stack, whose parent link leads back.
\<close>

fun chain ::
    "adjacency \<Rightarrow> (string, color) dict \<Rightarrow> (string, string) dict \<Rightarrow> string option \<Rightarrow> (string \<times> nat) list \<Rightarrow> bool" where
  "chain adj colors parents up [] = True"
| "chain adj colors parents up ((c, i) # st) =
     ((\<exists>vs. dict_get adj c = Some vs \<and> i \<le> length vs \<and>
         (\<forall>j < i. dict_get colors (vs ! j) = Some Black \<or> up = Some (vs ! j)) \<and>
         (\<forall>u. up = Some u \<longrightarrow> dict_get parents u = Some c \<and> u \<in> set vs)) \<and>
      chain adj colors parents (Some c) st)"

definition black_edges :: "adjacency \<Rightarrow> (string, color) dict \<Rightarrow> (string \<times> string) set" where
  "black_edges adj colors = {(u, v) \<in> edge_rel adj. dict_get colors u = Some Black}"

definition dfs_inv ::
    "string set \<Rightarrow> adjacency \<Rightarrow> (string, color) dict \<Rightarrow> (string, string) dict \<Rightarrow> (string \<times> nat) list \<Rightarrow> bool" where
  "dfs_inv ids adj colors parents stack \<longleftrightarrow>
     fst ` set colors = ids \<and> closed_graph ids adj \<and>
     distinct (map fst stack) \<and>
     fst ` set stack = {u. dict_get colors u = Some Gray} \<and>
     (\<forall>u v. dict_get colors u = Some Black \<longrightarrow> (u, v) \<in> edge_rel adj \<longrightarrow> dict_get colors v = Some Black) \<and>
     acyclic (black_edges adj colors) \<and>
     chain adj colors parents None stack"

lemma chain_mono:
  assumes "chain adj colors parents up st"
    and "\<And>u. dict_get colors u = Some Black \<Longrightarrow> dict_get colors' u = Some Black"
    and "\<And>u. u \<in> fst ` set st \<or> up = Some u \<Longrightarrow> dict_get parents' u = dict_get parents u"
  shows "chain adj colors' parents' up st"
  using assms
proof (induction st arbitrary: up)
  case (Cons p st)
  obtain c i where p: "p = (c, i)" by (cases p)
  have "chain adj colors' parents' (Some c) st"
    by (rule Cons.IH) (use Cons.prems p in auto)
  with Cons.prems p show ?case by (fastforce)
qed simp

lemma chain_prefix_path:
  assumes "chain adj colors parents up st" and "t \<in> fst ` set st"
  shows "\<exists>xs. xs \<noteq> [] \<and> last xs = fst (hd st) \<and> hd xs = t \<and> set xs \<subseteq> fst ` set st \<and>
           successively (\<lambda>u v. (u, v) \<in> edge_rel adj) xs \<and>
           (\<forall>n acc. length st \<le> n \<longrightarrow>
              walk_parents n parents (fst (hd st)) t (fst (hd st) # acc) = Inr (xs @ acc))"
  using assms
proof (induction st arbitrary: up)
  case (Cons p st)
  obtain c i where p: "p = (c, i)" by (cases p)
  show ?case
  proof (cases "t = c")
    case True
    have "walk_parents n parents c c (c # acc) = Inr (c # acc)" if "length (p # st) \<le> n" for n acc
      using that by (cases n) auto
    then show ?thesis using True by (intro exI [of _ "[c]"]) (auto simp: p)
  next
    case False
    with Cons.prems p have t: "t \<in> fst ` set st" by auto
    from Cons.prems p have ch: "chain adj colors parents (Some c) st" by simp
    obtain d k st' where st: "st = (d, k) # st'" using t by (cases st) auto
    from ch st have par: "dict_get parents c = Some d" and e: "(d, c) \<in> edge_rel adj"
      by (auto simp: edge_rel_def)
    from Cons.IH [OF ch t] obtain xs where xs: "xs \<noteq> []" "last xs = d" "hd xs = t"
      "set xs \<subseteq> fst ` set st"
      "successively (\<lambda>u v. (u, v) \<in> edge_rel adj) xs"
      and walk: "\<And>n acc. length st \<le> n \<Longrightarrow> walk_parents n parents d t (d # acc) = Inr (xs @ acc)"
      unfolding st by auto
    have "walk_parents n parents c t (c # acc) = Inr ((xs @ [c]) @ acc)"
      if "length (p # st) \<le> n" for n acc
    proof -
      from that obtain m where "n = Suc m" "length st \<le> m" by (cases n) auto
      then show ?thesis using walk [of m "c # acc"] par False by auto
    qed
    moreover have "successively (\<lambda>u v. (u, v) \<in> edge_rel adj) (xs @ [c])"
      using xs e by (auto simp: successively_append_iff)
    ultimately show ?thesis using xs p by (intro exI [of _ "xs @ [c]"]) auto
  qed
qed simp

lemma stack_length_le:
  assumes "dfs_inv ids adj colors parents stack"
  shows "length stack \<le> length colors"
proof -
  from assms have "fst ` set stack \<subseteq> fst ` set colors"
    by (auto simp: dfs_inv_def dest: dict_get_in_keys)
  moreover have "card (fst ` set stack) = length stack"
    using assms by (metis dfs_inv_def distinct_card length_map set_map)
  moreover have "card (fst ` set colors) \<le> length colors"
    by (metis card_length length_map set_map)
  ultimately show ?thesis by (metis card_mono finite_imageI finite_set le_trans)
qed

lemma dfs_inv_pop:
  assumes inv: "dfs_inv ids adj colors parents ((c, i) # st)"
    and vs: "dict_get adj c = Some vs" and fin: "length vs \<le> i"
  shows "dfs_inv ids adj (dict_set colors c Black) parents st"
proof -
  let ?colors = "dict_set colors c Black"
  from inv have gray: "dict_get colors c = Some Gray" by (auto simp: dfs_inv_def)
  have ids: "c \<in> ids" using gray inv by (auto simp: dfs_inv_def dest: dict_get_in_keys)
  have nb: "\<forall>v \<in> set vs. dict_get colors v = Some Black"
    using inv vs fin by (auto simp: dfs_inv_def in_set_conv_nth)
  have out: "(c, v) \<in> edge_rel adj \<Longrightarrow> dict_get colors v = Some Black" for v
    using nb vs by (auto simp: edge_rel_def)
  have into: "(u, c) \<notin> black_edges adj colors" for u
    using inv gray by (auto simp: dfs_inv_def black_edges_def)
  have be: "black_edges adj ?colors \<subseteq> black_edges adj colors \<union> {c} \<times> {v. dict_get colors v = Some Black}"
    using out by (auto simp: black_edges_def split: if_splits)
  have ac: "acyclic (black_edges adj ?colors)"
  proof (rule acyclic_subset [OF _ be], unfold acyclic_def, intro allI notI)
    let ?B = "black_edges adj colors" and ?N = "{c} \<times> {v. dict_get colors v = Some Black}"
    have notc: "(x, c) \<notin> (?B \<union> ?N)\<^sup>+" for x
      using into gray by (auto elim: tranclE)
    have only: "(x, y) \<in> (?B \<union> ?N)\<^sup>+ \<Longrightarrow> x \<noteq> c \<Longrightarrow> (x, y) \<in> ?B\<^sup>+" for x y
    proof (induction rule: trancl_induct)
      case (step y z)
      with notc [of x] have "y \<noteq> c" by blast
      with step show ?case by (auto intro: trancl_into_trancl)
    qed auto
    fix x assume x: "(x, x) \<in> (?B \<union> ?N)\<^sup>+"
    then have "x \<noteq> c" using notc by blast
    with only [OF x] inv show False by (auto simp: dfs_inv_def acyclic_def)
  qed
  have "chain adj ?colors parents None st"
  proof (cases st)
    case (Cons q st')
    obtain d k where q: "q = (d, k)" by (cases q)
    from inv have ch: "chain adj colors parents (Some c) ((d, k) # st')"
      by (simp add: dfs_inv_def Cons q)
    then have "chain adj ?colors parents (Some c) ((d, k) # st')"
      by (rule chain_mono) auto
    then show ?thesis by (auto simp: Cons q) metis
  qed simp
  moreover have "fst ` set ?colors = ids"
    using inv ids by (auto simp: dfs_inv_def dict_keys_set)
  ultimately show ?thesis
    using inv ac out by (auto simp: dfs_inv_def)
qed

lemma dfs_inv_push:
  assumes inv: "dfs_inv ids adj colors parents ((c, i) # st)"
    and vs: "dict_get adj c = Some vs" and i: "i < length vs"
    and white: "dict_get colors (vs ! i) = Some White"
  shows "dfs_inv ids adj (dict_set colors (vs ! i) Gray) (dict_set parents (vs ! i) c)
           ((vs ! i, 0) # (c, Suc i) # st)"
proof -
  let ?n = "vs ! i"
  let ?colors = "dict_set colors ?n Gray" and ?parents = "dict_set parents ?n c"
  have n: "?n \<notin> fst ` set ((c, i) # st)" using inv white by (auto simp: dfs_inv_def)
  have nids: "?n \<in> ids" using inv white by (auto simp: dfs_inv_def dest: dict_get_in_keys)
  then obtain ws where ws: "dict_get adj ?n = Some ws"
    using inv by (metis closed_graphE dfs_inv_def)
  have be: "black_edges adj ?colors = black_edges adj colors"
    using white by (auto simp: black_edges_def split: if_splits)
  from inv have ch: "chain adj colors parents None ((c, i) # st)" by (simp add: dfs_inv_def)
  then have "chain adj colors parents (Some c) st" by simp
  then have "chain adj ?colors ?parents (Some c) st"
    by (rule chain_mono) (use n white in auto)
  moreover have "\<forall>j < Suc i. dict_get ?colors (vs ! j) = Some Black \<or> ?n = vs ! j"
    using ch vs white by (auto simp: less_Suc_eq)
  ultimately have "chain adj ?colors ?parents None ((?n, 0) # (c, Suc i) # st)"
    using vs ws i by auto
  then show ?thesis
    using inv n nids white be by (auto simp: dfs_inv_def dict_keys_set split: if_splits)
qed

lemma dfs_inv_skip:
  assumes inv: "dfs_inv ids adj colors parents ((c, i) # st)"
    and vs: "dict_get adj c = Some vs" and i: "i < length vs"
    and black: "dict_get colors (vs ! i) = Some Black"
  shows "dfs_inv ids adj colors parents ((c, Suc i) # st)"
  using inv vs i black by (auto simp: dfs_inv_def less_Suc_eq)

lemma dfs_found:
  assumes inv: "dfs_inv ids adj colors parents ((c, i) # st)"
    and vs: "dict_get adj c = Some vs" and i: "i < length vs"
    and gray: "dict_get colors (vs ! i) = Some Gray"
  shows "\<exists>cycle. walk_parents (Suc (length colors)) parents c (vs ! i) [c] = Inr cycle \<and>
           is_cycle (edge_rel adj) cycle \<and> set cycle \<subseteq> ids"
proof -
  from inv gray have mem: "vs ! i \<in> fst ` set ((c, i) # st)" by (auto simp: dfs_inv_def)
  from inv have "chain adj colors parents None ((c, i) # st)" by (simp add: dfs_inv_def)
  from chain_prefix_path [OF this mem] obtain xs where xs: "xs \<noteq> []" "last xs = c" "hd xs = vs ! i"
      and mem_xs: "set xs \<subseteq> fst ` set ((c, i) # st)"
    and path: "successively (\<lambda>u v. (u, v) \<in> edge_rel adj) xs"
    and walk: "\<And>n acc. length ((c, i) # st) \<le> n \<Longrightarrow> walk_parents n parents c (vs ! i) (c # acc) = Inr (xs @ acc)"
    by auto
  have "(c, vs ! i) \<in> edge_rel adj" using vs i by (auto simp: edge_rel_def)
  with xs path have "is_cycle (edge_rel adj) xs" by (simp add: is_cycle_def)
  moreover have "set xs \<subseteq> ids"
  proof -
    have "fst ` set ((c, i) # st) \<subseteq> ids"
      using inv unfolding dfs_inv_def by (metis (mono_tags, lifting) dict_get_in_keys mem_Collect_eq subsetI)
    with mem_xs show ?thesis by (rule subset_trans)
  qed
  moreover have "walk_parents (Suc (length colors)) parents c (vs ! i) [c] = Inr xs"
    using walk [of "Suc (length colors)" "[]"] stack_length_le [OF inv] by simp
  ultimately show ?thesis by blast
qed

definition whites_shrink :: "(string, color) dict \<Rightarrow> (string, color) dict \<Rightarrow> bool" where
  "whites_shrink colors colors' \<longleftrightarrow> (\<forall>u. dict_get colors' u = Some White \<longrightarrow> dict_get colors u = Some White)"

lemma dfs_loop_correct:
  assumes "dfs_inv ids adj colors parents stack"
  shows "(\<exists>colors' parents'. dfs_loop adj colors parents stack = Inr (Finished colors' parents') \<and>
            dfs_inv ids adj colors' parents' [] \<and> whites_shrink colors colors')
       \<or> (\<exists>cycle. dfs_loop adj colors parents stack = Inr (Cycle cycle) \<and>
            is_cycle (edge_rel adj) cycle \<and> set cycle \<subseteq> ids)"
  using assms
proof (induction adj colors parents stack rule: dfs_loop.induct)
  case (1 adj colors parents)
  then show ?case by (auto simp: whites_shrink_def)
next
  case (2 adj colors parents c i st)
  note inv = "2.prems"
  from inv have "c \<in> ids" by (auto simp: dfs_inv_def dest: dict_get_in_keys)
  with inv obtain vs where vs: "dict_get adj c = Some vs" and sub: "set vs \<subseteq> ids"
    by (metis closed_graphE dfs_inv_def)
  show ?case
  proof (cases "length vs \<le> i")
    case True
    have "whites_shrink colors (dict_set colors c Black)" by (auto simp: whites_shrink_def)
    with "2.IH"(1) [OF vs True dfs_inv_pop [OF inv vs True]] True show ?thesis
      by (fastforce simp: vs whites_shrink_def)
  next
    case False
    then have i: "i < length vs" by simp
    with sub inv have "vs ! i \<in> fst ` set colors" by (auto simp: dfs_inv_def)
    then obtain col where col: "dict_get colors (vs ! i) = Some col"
      by (metis (no_types, lifting) imageE map_of_eq_None_iff not_Some_eq rev_image_eqI)
    show ?thesis
    proof (cases col)
      case White
      have "whites_shrink colors (dict_set colors (vs ! i) Gray)" by (auto simp: whites_shrink_def)
      with "2.IH"(2) [OF vs False refl _ _ ] dfs_inv_push [OF inv vs i] col White False show ?thesis
        by (fastforce simp: vs whites_shrink_def)
    next
      case Gray
      with dfs_found [OF inv vs i] col i show ?thesis by (auto simp: vs)
    next
      case Black
      with "2.IH"(3) [OF vs False refl] dfs_inv_skip [OF inv vs i] col False show ?thesis
        by (simp add: vs)
    qed
  qed
qed

lemma cycle_from_starts_correct:
  assumes "dfs_inv ids adj colors parents []" and "set starts \<subseteq> ids"
    and "\<And>u. dict_get colors u = Some White \<Longrightarrow> u \<in> set starts"
  shows "(cycle_from_starts adj colors parents starts = Inr None \<and> acyclic (edge_rel adj \<inter> ids \<times> ids)) \<or>
         (\<exists>cycle. cycle_from_starts adj colors parents starts = Inr (Some cycle) \<and>
            is_cycle (edge_rel adj) cycle \<and> set cycle \<subseteq> ids)"
  using assms
proof (induction adj colors parents starts rule: cycle_from_starts.induct)
  case (1 adj colors parents)
  have "u \<in> ids \<Longrightarrow> dict_get colors u = Some Black" for u
  proof -
    assume "u \<in> ids"
    with 1 obtain c where c: "dict_get colors u = Some c"
      by (metis dfs_inv_def map_of_eq_None_iff not_Some_eq)
    with 1 show ?thesis by (cases c) (auto simp: dfs_inv_def)
  qed
  then have "edge_rel adj \<inter> ids \<times> ids \<subseteq> black_edges adj colors" by (auto simp: black_edges_def)
  with 1 have "acyclic (edge_rel adj \<inter> ids \<times> ids)" by (auto simp: dfs_inv_def intro: acyclic_subset)
  then show ?case by simp
next
  case (2 adj colors parents s starts)
  then have "s \<in> fst ` set colors" by (auto simp: dfs_inv_def)
  then obtain c where c: "dict_get colors s = Some c"
    by (metis map_of_eq_None_iff not_Some_eq)
  show ?case
  proof (cases "c = White")
    case False
    have "u \<in> set starts" if "dict_get colors u = Some White" for u
      using that "2.prems"(3) [of u] c False by auto
    with "2.IH"(1) [OF c False "2.prems"(1)] "2.prems"(2) c False show ?thesis by simp
  next
    case True
    let ?colors = "dict_set colors s Gray"
    have "s \<in> ids" using 2 by simp
    then obtain vs where vs: "dict_get adj s = Some vs"
      using "2.prems"(1) by (metis closed_graphE dfs_inv_def)
    have be: "black_edges adj ?colors = black_edges adj colors"
      using c True by (auto simp: black_edges_def split: if_splits)
    have inv: "dfs_inv ids adj ?colors parents [(s, 0)]"
      using "2.prems"(1) c True vs be \<open>s \<in> ids\<close> by (auto simp: dfs_inv_def dict_keys_set)
    from dfs_loop_correct [OF inv] show ?thesis
    proof (elim disjE exE conjE)
      fix colors' parents'
      assume run: "dfs_loop adj ?colors parents [(s, 0)] = Inr (Finished colors' parents')"
        and inv': "dfs_inv ids adj colors' parents' []" and sh: "whites_shrink ?colors colors'"
      have "u \<in> set starts" if "dict_get colors' u = Some White" for u
        using that sh "2.prems"(3) [of u] by (auto simp: whites_shrink_def split: if_splits)
      with "2.IH"(2) [OF c _ run refl inv'] "2.prems"(2) True run c show ?thesis by simp
    qed (use c True in auto)
  qed
qed

lemma is_cycle_restrict:
  assumes "is_cycle E xs" and "set xs \<subseteq> A"
  shows "is_cycle (E \<inter> A \<times> A) xs"
proof -
  have "successively (\<lambda>u v. (u, v) \<in> E \<inter> A \<times> A) xs"
    using assms by (auto simp: is_cycle_def elim!: successively_mono)
  moreover have "last xs \<in> A" "hd xs \<in> A" using assms by (auto simp: is_cycle_def)
  ultimately show ?thesis using assms by (simp add: is_cycle_def)
qed

lemma white_colors: "dict_get (map (\<lambda>n. (n, White)) ids) u = (if u \<in> set ids then Some White else None)"
  by (induction ids) auto

lemma dfs_inv_initial:
  assumes "closed_graph (set ids) adj"
  shows "dfs_inv (set ids) adj (map (\<lambda>n. (n, White)) ids) [] []"
proof -
  have "black_edges adj (map (\<lambda>n. (n, White)) ids) = {}" by (auto simp: black_edges_def white_colors)
  then show ?thesis using assms by (simp add: dfs_inv_def white_colors image_image acyclic_def)
qed

lemma find_cycle_decides:
  assumes "closed_graph (set ids) adj"
  shows "(find_cycle ids adj = Inr None \<longleftrightarrow> acyclic (edge_rel adj \<inter> set ids \<times> set ids)) \<and>
         (\<exists>r. find_cycle ids adj = Inr r) \<and>
         (\<forall>cycle. find_cycle ids adj = Inr (Some cycle) \<longrightarrow>
            set cycle \<subseteq> set ids \<and> is_cycle (edge_rel adj) cycle)"
proof -
  have "u \<in> set ids" if "dict_get (map (\<lambda>n. (n, White)) ids) u = Some White" for u
    using that by (simp add: white_colors split: if_splits)
  from cycle_from_starts_correct [OF dfs_inv_initial [OF assms] subset_refl this]
  consider "find_cycle ids adj = Inr None" "acyclic (edge_rel adj \<inter> set ids \<times> set ids)"
    | cycle where "find_cycle ids adj = Inr (Some cycle)" "is_cycle (edge_rel adj) cycle" "set cycle \<subseteq> set ids"
    unfolding find_cycle_def by blast
  then show ?thesis
  proof cases
    case (2 cycle)
    then have "\<not> acyclic (edge_rel adj \<inter> set ids \<times> set ids)"
      using is_cycle_not_acyclic [OF is_cycle_restrict] by blast
    with 2 show ?thesis by simp
  qed simp
qed

text \<open>
  The cycle search of workflow validation terminates without a missing key or a runaway
  parent walk on every graph whose edges stay inside the declared nodes; it answers "no cycle"
  exactly when the edge relation is acyclic, and the nodes it reports form a real cycle.
\<close>

theorem find_cycle_correct:
  assumes "closed_graph (set ids) adj"
  shows "(find_cycle ids adj = Inr None \<longleftrightarrow> acyclic (edge_rel adj \<inter> set ids \<times> set ids)) \<and>
         (\<exists>r. find_cycle ids adj = Inr r) \<and>
         (\<forall>cycle. find_cycle ids adj = Inr (Some cycle) \<longrightarrow>
            set cycle \<subseteq> set ids \<and> is_cycle (edge_rel adj) cycle)"
  using assms by (rule find_cycle_decides)

theorem find_cycle_correct_witness:
  "closed_graph (set [''a'', ''b'']) [(''a'', [''b'']), (''b'', [''a''])] \<and>
   find_cycle [''a'', ''b''] [(''a'', [''b'']), (''b'', [''a''])] = Inr (Some [''a'', ''b'']) \<and>
   is_cycle (edge_rel [(''a'', [''b'']), (''b'', [''a''])]) [''a'', ''b'']"
proof -
  have c: "closed_graph (set [''a'', ''b'']) [(''a'', [''b'']), (''b'', [''a''])]"
    by (simp add: closed_graph_def)
  have f: "find_cycle [''a'', ''b''] [(''a'', [''b'']), (''b'', [''a''])] = Inr (Some [''a'', ''b''])"
    by (simp add: find_cycle_def)
  from find_cycle_correct [OF c] f c show ?thesis by simp
qed

section \<open>Ancestors\<close>

text \<open>
  \<open>collect\<close> of \<open>_workflow_ancestors\<close>: the memo is the dictionary \<open>ancestors\<close> it fills. The bound
  stands for the depth of the recursion.
\<close>

type_synonym memo = "(string, string set) dict"

primrec collect :: "nat \<Rightarrow> adjacency \<Rightarrow> memo \<Rightarrow> string \<Rightarrow> (dag_error, memo \<times> string set) result" where
  "collect 0 incoming memo node_id = Inl Recursion_error"
| "collect (Suc n) incoming memo node_id =
     (case dict_get memo node_id of
        Some cached \<Rightarrow> Inr (memo, cached)
      | None \<Rightarrow>
          (case dict_get incoming node_id of
             None \<Rightarrow> Inl Key_error
           | Some ps \<Rightarrow>
               rbind (fold_r (\<lambda>(m, found) p.
                        rbind (collect n incoming m p) (\<lambda>(m', up). Inr (m', insert p found \<union> up)))
                      (memo, {}) ps)
                 (\<lambda>(m, found). Inr (dict_set m node_id found, found))))"

definition workflow_ancestors :: "string list \<Rightarrow> adjacency \<Rightarrow> (dag_error, memo) result" where
  "workflow_ancestors ids incoming =
     fold_r (\<lambda>m n. rbind (collect (Suc (length ids)) incoming m n) (\<lambda>(m', _). Inr m')) [] ids"

definition ancestors_of :: "adjacency \<Rightarrow> string \<Rightarrow> string set" where
  "ancestors_of incoming n = {m. (n, m) \<in> (edge_rel incoming)\<^sup>+}"

definition memo_sound :: "adjacency \<Rightarrow> memo \<Rightarrow> bool" where
  "memo_sound incoming memo \<longleftrightarrow> (\<forall>n s. dict_get memo n = Some s \<longrightarrow> s = ancestors_of incoming n)"

lemma closed_edge:
  assumes "closed_graph ids adj" "(u, v) \<in> edge_rel adj" "u \<in> ids"
  shows "v \<in> ids"
proof -
  from assms(1,3) obtain vs where "dict_get adj u = Some vs" "set vs \<subseteq> ids" by (rule closed_graphE)
  with assms(2) show ?thesis by (auto simp: edge_rel_def)
qed

lemma closed_reach:
  assumes "closed_graph ids adj" and "(n, m) \<in> (edge_rel adj)\<^sup>+" and "n \<in> ids"
  shows "m \<in> ids"
  using assms(2,3)
proof (induction rule: trancl_induct)
  case (base y)
  with assms(1) show ?case by (auto intro: closed_edge)
next
  case (step y z)
  with assms(1) show ?case by (auto intro: closed_edge)
qed

lemma ancestors_of_unfold:
  "dict_get incoming n = Some ps \<Longrightarrow>
   ancestors_of incoming n = set ps \<union> (\<Union>p \<in> set ps. ancestors_of incoming p)"
  by (auto simp: ancestors_of_def edge_rel_def dest: tranclD intro: trancl_into_trancl2 elim: converse_tranclE)

lemma ancestors_of_parent:
  assumes "acyclic (edge_rel incoming)" "closed_graph ids incoming" "n \<in> ids" "finite ids"
    and "dict_get incoming n = Some ps" "p \<in> set ps"
  shows "card (ancestors_of incoming p) < card (ancestors_of incoming n)"
proof (rule psubset_card_mono)
  have "ancestors_of incoming n \<subseteq> ids"
    using assms closed_reach [OF assms(2)] by (auto simp: ancestors_of_def)
  then show "finite (ancestors_of incoming n)" using assms finite_subset by blast
  have "p \<notin> ancestors_of incoming p" using assms(1) by (simp add: ancestors_of_def acyclic_def)
  with assms show "ancestors_of incoming p \<subset> ancestors_of incoming n"
    using ancestors_of_unfold [of incoming n ps] by auto
qed

lemma collect_correct:
  assumes ac: "acyclic (edge_rel incoming)" and cl: "closed_graph ids incoming" and fin: "finite ids"
  shows "\<lbrakk>n \<in> ids; memo_sound incoming memo; card (ancestors_of incoming n) < k\<rbrakk> \<Longrightarrow>
         \<exists>memo'. collect k incoming memo n = Inr (memo', ancestors_of incoming n) \<and>
           memo_sound incoming memo' \<and> fst ` set memo \<union> {n} \<subseteq> fst ` set memo'"
proof (induction k arbitrary: n memo)
  case (Suc k)
  show ?case
  proof (cases "dict_get memo n")
    case (Some s)
    with Suc.prems show ?thesis by (auto simp: memo_sound_def dest: dict_get_in_keys)
  next
    case None
    obtain ps where ps: "dict_get incoming n = Some ps" and sub: "set ps \<subseteq> ids"
      using cl Suc.prems(1) by (rule closed_graphE)
    let ?step = "\<lambda>(m, found) p. rbind (collect k incoming m p) (\<lambda>(m', up). Inr (m', insert p found \<union> up))"
    have loop: "\<exists>m'. fold_r ?step (m, found) qs =
           Inr (m', found \<union> set qs \<union> (\<Union>p \<in> set qs. ancestors_of incoming p)) \<and>
           memo_sound incoming m' \<and> fst ` set m \<subseteq> fst ` set m'"
      if "set qs \<subseteq> set ps" "memo_sound incoming m" for qs m found
      using that
    proof (induction qs arbitrary: m found)
      case (Cons q qs)
      have q: "q \<in> ids" "card (ancestors_of incoming q) < k"
        using Cons.prems(1) sub ancestors_of_parent [OF ac cl Suc.prems(1) fin ps, of q] Suc.prems(3) by auto
      from Suc.IH [OF q(1) Cons.prems(2) q(2)] obtain m1 where
        m1: "collect k incoming m q = Inr (m1, ancestors_of incoming q)"
          "memo_sound incoming m1" "fst ` set m \<subseteq> fst ` set m1" by auto
      from Cons.IH [OF _ m1(2), of "insert q found \<union> ancestors_of incoming q"] Cons.prems(1)
      obtain m2 where "fold_r ?step (m1, insert q found \<union> ancestors_of incoming q) qs =
           Inr (m2, insert q found \<union> ancestors_of incoming q \<union> set qs \<union> (\<Union>p \<in> set qs. ancestors_of incoming p))"
         "memo_sound incoming m2" "fst ` set m1 \<subseteq> fst ` set m2" by auto
      with m1 show ?case by (auto simp: Un_ac)
    qed simp
    from loop [OF subset_refl Suc.prems(2), of "{}"] obtain m where
      m: "fold_r ?step (memo, {}) ps = Inr (m, ancestors_of incoming n)"
        "memo_sound incoming m" "fst ` set memo \<subseteq> fst ` set m"
      by (auto simp: ancestors_of_unfold [OF ps])
    with None ps show ?thesis by (auto simp: memo_sound_def dict_keys_set)
  qed
qed simp

text \<open>The closure under the parent relation on an acyclic graph: every node gets exactly its ancestors.\<close>

lemma workflow_ancestors_correct:
  assumes ac: "acyclic (edge_rel incoming)" and cl: "closed_graph (set ids) incoming"
  shows "\<exists>m. workflow_ancestors ids incoming = Inr m \<and>
           (\<forall>n \<in> set ids. dict_get m n = Some (ancestors_of incoming n))"
proof -
  have small: "card (ancestors_of incoming n) < Suc (length ids)" if "n \<in> set ids" for n
  proof -
    have "ancestors_of incoming n \<subseteq> set ids"
      using closed_reach [OF cl] that by (auto simp: ancestors_of_def)
    then have "card (ancestors_of incoming n) \<le> card (set ids)" by (simp add: card_mono)
    with card_length [of ids] show ?thesis by simp
  qed
  let ?step = "\<lambda>m n. rbind (collect (Suc (length ids)) incoming m n) (\<lambda>(m', _). Inr m')"
  have "\<exists>m'. fold_r ?step m ns = Inr m' \<and> memo_sound incoming m' \<and> fst ` set m \<union> set ns \<subseteq> fst ` set m'"
    if "set ns \<subseteq> set ids" "memo_sound incoming m" for ns m
    using that
  proof (induction ns arbitrary: m)
    case (Cons n ns)
    then have n: "n \<in> set ids" by simp
    from collect_correct [OF ac cl finite_set n Cons.prems(2) small [OF n]] obtain m1 where
      m1: "collect (Suc (length ids)) incoming m n = Inr (m1, ancestors_of incoming n)"
        "memo_sound incoming m1" "fst ` set m \<union> {n} \<subseteq> fst ` set m1" by blast
    from Cons.IH [OF _ m1(2)] Cons.prems(1) obtain m2 where
      "fold_r ?step m1 ns = Inr m2" "memo_sound incoming m2" "fst ` set m1 \<union> set ns \<subseteq> fst ` set m2"
      by auto
    with m1 show ?case by (auto simp del: collect.simps)
  qed simp
  from this [OF subset_refl, of "[]"] obtain m where
    m: "workflow_ancestors ids incoming = Inr m" "memo_sound incoming m" "set ids \<subseteq> fst ` set m"
    by (auto simp: workflow_ancestors_def memo_sound_def)
  have "dict_get m n = Some (ancestors_of incoming n)" if "n \<in> set ids" for n
  proof -
    from that m(3) obtain s where "dict_get m n = Some s"
      by (metis map_of_eq_None_iff not_Some_eq subsetD)
    with m(2) show ?thesis by (simp add: memo_sound_def)
  qed
  with m(1) show ?thesis by blast
qed

end
