(* ===== verification/Workflow_Topo.thy ===== *)
theory Workflow_Topo
  imports Workflow_Dag
begin

text \<open>
  The deterministic topological order of \<open>app/domain/workflow_execution.py\<close>
  (\<open>_topological_nodes\<close>, Kahn's algorithm with ties broken by declaration order), on node ids and
  edges as pairs. Shown: the loop ends, never misses a key on a graph whose edges stay inside the
  declared nodes, succeeds exactly on acyclic graphs, and every position holds the first declared
  node among those whose predecessors have all been output.
\<close>

section \<open>Building the graph dictionaries\<close>

text \<open>\<open>d[k].append(x)\<close>.\<close>

definition dict_append :: "('k, 'v list) dict \<Rightarrow> 'k \<Rightarrow> 'v \<Rightarrow> (dag_error, ('k, 'v list) dict) result" where
  "dict_append d k x = (case dict_get d k of None \<Rightarrow> Inl Key_error | Some xs \<Rightarrow> Inr (dict_set d k (xs @ [x])))"

text \<open>\<open>d[k] += n\<close>.\<close>

definition dict_add :: "('k, int) dict \<Rightarrow> 'k \<Rightarrow> int \<Rightarrow> (dag_error, ('k, int) dict) result" where
  "dict_add d k n = (case dict_get d k of None \<Rightarrow> Inl Key_error | Some i \<Rightarrow> Inr (dict_set d k (i + n)))"

definition group_edges :: "('e \<Rightarrow> 'k) \<Rightarrow> ('e \<Rightarrow> 'v) \<Rightarrow> 'k list \<Rightarrow> 'e list \<Rightarrow> (dag_error, ('k, 'v list) dict) result" where
  "group_edges key val ids es = fold_r (\<lambda>d e. dict_append d (key e) (val e)) (map (\<lambda>n. (n, [])) ids) es"

definition count_edges :: "('e \<Rightarrow> 'k) \<Rightarrow> 'k list \<Rightarrow> 'e list \<Rightarrow> (dag_error, ('k, int) dict) result" where
  "count_edges key ids es = fold_r (\<lambda>d e. dict_add d (key e) 1) (map (\<lambda>n. (n, 0)) ids) es"

lemma dict_get_const: "dict_get (map (\<lambda>n. (n, c)) ids) k = (if k \<in> set ids then Some c else None)"
  by (induction ids) auto

lemma group_edges_fold:
  assumes "\<And>e. e \<in> set es \<Longrightarrow> key e \<in> fst ` set d"
  shows "\<exists>d'. fold_r (\<lambda>d e. dict_append d (key e) (val e)) d es = Inr d' \<and>
           dict_keys d' = dict_keys d \<and>
           (\<forall>k. dict_get d' k = map_option (\<lambda>xs. xs @ map val (filter (\<lambda>e. key e = k) es)) (dict_get d k))"
  using assms
proof (induction es arbitrary: d)
  case Nil
  show ?case by (simp add: option.map_ident)
next
  case (Cons e es)
  then obtain xs where xs: "dict_get d (key e) = Some xs"
    by (metis list.set_intros(1) map_of_eq_None_iff not_Some_eq)
  let ?d = "dict_set d (key e) (xs @ [val e])"
  have keys: "dict_keys ?d = dict_keys d" using Cons.prems by (simp add: dict_keys_set_present)
  then have sets: "fst ` set ?d = fst ` set d" by (metis set_map)
  obtain d' where d': "fold_r (\<lambda>d e. dict_append d (key e) (val e)) ?d es = Inr d'"
      "dict_keys d' = dict_keys ?d"
      "\<And>k. dict_get d' k = map_option (\<lambda>xs. xs @ map val (filter (\<lambda>e. key e = k) es)) (dict_get ?d k)"
    using Cons.IH [of ?d] Cons.prems sets by auto
  show ?case
  proof (intro exI [of _ d'] conjI allI)
    show "fold_r (\<lambda>d e. dict_append d (key e) (val e)) d (e # es) = Inr d'"
      using d'(1) xs by (simp add: dict_append_def)
    show "dict_keys d' = dict_keys d" using d'(2) keys by simp
    fix k
    show "dict_get d' k =
        map_option (\<lambda>xs. xs @ map val (filter (\<lambda>e. key e = k) (e # es))) (dict_get d k)"
      using xs by (auto simp: d'(3))
  qed
qed

lemma group_edges_ok:
  assumes "\<And>e. e \<in> set es \<Longrightarrow> key e \<in> set ids"
  shows "\<exists>d. group_edges key val ids es = Inr d \<and> dict_keys d = ids \<and>
           (\<forall>k. dict_get d k = (if k \<in> set ids then Some (map val (filter (\<lambda>e. key e = k) es)) else None))"
proof -
  let ?d0 = "map (\<lambda>n. (n, [])) ids"
  have "key e \<in> fst ` set ?d0" if "e \<in> set es" for e using assms [OF that] by (simp add: image_image)
  from group_edges_fold [of es key ?d0 val, OF this] obtain d where
    "group_edges key val ids es = Inr d" "dict_keys d = dict_keys ?d0"
    "\<And>k. dict_get d k = map_option (\<lambda>xs. xs @ map val (filter (\<lambda>e. key e = k) es)) (dict_get ?d0 k)"
    by (auto simp: group_edges_def)
  then show ?thesis by (intro exI [of _ d]) (auto simp: dict_get_const comp_def)
qed

lemma count_edges_fold:
  assumes "\<And>e. e \<in> set es \<Longrightarrow> key e \<in> fst ` set d"
  shows "\<exists>d'. fold_r (\<lambda>d e. dict_add d (key e) 1) d es = Inr d' \<and>
           (\<forall>k. dict_get d' k = map_option (\<lambda>n. n + int (length (filter (\<lambda>e. key e = k) es))) (dict_get d k))"
  using assms
proof (induction es arbitrary: d)
  case Nil
  show ?case by (simp add: option.map_ident)
next
  case (Cons e es)
  then obtain n where n: "dict_get d (key e) = Some n"
    by (metis list.set_intros(1) map_of_eq_None_iff not_Some_eq)
  let ?d = "dict_set d (key e) (n + 1)"
  have sets: "fst ` set ?d = fst ` set d" using Cons.prems by (auto simp: dict_keys_set)
  obtain d' where d': "fold_r (\<lambda>d e. dict_add d (key e) 1) ?d es = Inr d'"
      "\<And>k. dict_get d' k = map_option (\<lambda>n. n + int (length (filter (\<lambda>e. key e = k) es))) (dict_get ?d k)"
    using Cons.IH [of ?d] Cons.prems sets by auto
  have "dict_get d' k = map_option (\<lambda>n. n + int (length (filter (\<lambda>e. key e = k) (e # es)))) (dict_get d k)" for k
    using n by (auto simp: d'(2))
  with d'(1) n show ?case by (intro exI [of _ d']) (simp add: dict_add_def)
qed

lemma count_edges_ok:
  assumes "\<And>e. e \<in> set es \<Longrightarrow> key e \<in> set ids"
  shows "\<exists>d. count_edges key ids es = Inr d \<and>
           (\<forall>k. dict_get d k = (if k \<in> set ids then Some (int (length (filter (\<lambda>e. key e = k) es))) else None))"
proof -
  let ?d0 = "map (\<lambda>n. (n, 0)) ids"
  have "key e \<in> fst ` set ?d0" if "e \<in> set es" for e using assms [OF that] by (simp add: image_image)
  from count_edges_fold [of es key ?d0, OF this] obtain d where
    "count_edges key ids es = Inr d"
    "\<And>k. dict_get d k = map_option (\<lambda>n. n + int (length (filter (\<lambda>e. key e = k) es))) (dict_get ?d0 k)"
    by (auto simp: count_edges_def)
  then show ?thesis by (intro exI [of _ d]) (auto simp: dict_get_const)
qed

section \<open>The loop\<close>

text \<open>One target of the popped node: its degree drops, and it becomes ready at zero.\<close>

definition kahn_relax ::
    "(string, int) dict \<times> string list \<Rightarrow> string \<Rightarrow> (dag_error, (string, int) dict \<times> string list) result" where
  "kahn_relax s target = (case s of (in_degree, ready) \<Rightarrow>
     rbind (dict_add in_degree target (- 1)) (\<lambda>in_degree'.
       Inr (in_degree', if dict_get in_degree' target = Some 0 then ready @ [target] else ready)))"

definition index_of :: "(string, nat) dict \<Rightarrow> string \<Rightarrow> nat" where
  "index_of idx n = (case dict_get idx n of Some i \<Rightarrow> i | None \<Rightarrow> 0)"

definition sort_by_index :: "(string, nat) dict \<Rightarrow> string list \<Rightarrow> (dag_error, string list) result" where
  "sort_by_index idx xs =
     rbind (each_r (\<lambda>n. guard_r (dict_get idx n \<noteq> None) Key_error) xs) (\<lambda>_. Inr (sort_key (index_of idx) xs))"

definition kahn_work :: "(string, int) dict \<times> string list \<Rightarrow> nat" where
  "kahn_work s = dict_count (\<lambda>d. d > 0) (fst s) + length (snd s)"

lemma kahn_relax_work: "kahn_relax s t = Inr s' \<Longrightarrow> kahn_work s' \<le> kahn_work s"
proof -
  assume step: "kahn_relax s t = Inr s'"
  obtain deg ready where s: "s = (deg, ready)" by (cases s)
  from step s obtain i where i: "dict_get deg t = Some i"
    and s': "s' = (dict_set deg t (i - 1), if i - 1 = 0 then ready @ [t] else ready)"
    by (auto simp: kahn_relax_def dict_add_def split: option.splits)
  consider "i = 1" | "i > 1" | "i \<le> 0" by linarith
  then show ?thesis
  proof cases
    case 1
    with dict_count_drop [OF i, of "\<lambda>d. d > 0" "i - 1"] show ?thesis by (simp add: s s' kahn_work_def)
  next
    case 2
    with dict_count_same [OF i, of "\<lambda>d. d > 0" "i - 1"] show ?thesis by (simp add: s s' kahn_work_def)
  next
    case 3
    with dict_count_same [OF i, of "\<lambda>d. d > 0" "i - 1"] show ?thesis by (simp add: s s' kahn_work_def)
  qed
qed

lemma kahn_relax_fold_work: "fold_r kahn_relax s ts = Inr s' \<Longrightarrow> kahn_work s' \<le> kahn_work s"
proof (induction ts arbitrary: s)
  case (Cons t ts)
  then obtain s1 where "kahn_relax s t = Inr s1" "fold_r kahn_relax s1 ts = Inr s'"
    by (auto simp: rbind_eq_Inr)
  with Cons.IH [of s1] kahn_relax_work [of s t s1] show ?case by simp
qed simp

lemma sort_by_index_length: "sort_by_index idx xs = Inr ys \<Longrightarrow> length ys = length xs"
  by (auto simp: sort_by_index_def rbind_eq_Inr)

function kahn_loop ::
    "adjacency \<Rightarrow> (string, nat) dict \<Rightarrow> (string, int) dict \<Rightarrow> string list \<Rightarrow> string list
     \<Rightarrow> (dag_error, string list) result" where
  "kahn_loop downstream idx in_degree [] order = Inr order"
| "kahn_loop downstream idx in_degree (current # ready) order =
     (case dict_get downstream current of
        None \<Rightarrow> Inl Key_error
      | Some targets \<Rightarrow>
          (case fold_r kahn_relax (in_degree, ready) targets of
             Inl e \<Rightarrow> Inl e
           | Inr (in_degree', ready') \<Rightarrow>
               (case sort_by_index idx ready' of
                  Inl e \<Rightarrow> Inl e
                | Inr ready'' \<Rightarrow> kahn_loop downstream idx in_degree' ready'' (order @ [current]))))"
  by pat_completeness auto

termination kahn_loop
proof (relation "measure (\<lambda>(downstream, idx, in_degree, ready, order). kahn_work (in_degree, ready))", goal_cases)
  case (2 downstream idx in_degree current ready order targets s' deg' ready' ready'')
  then show ?case
    using kahn_relax_fold_work [of "(in_degree, ready)" targets s'] sort_by_index_length [of idx ready' ready'']
    by (cases s') (simp add: kahn_work_def)
qed simp

datatype topo_error = Graph dag_error | Cycle_detected

definition lift_graph :: "(dag_error, 'a) result \<Rightarrow> (topo_error, 'a) result" where
  "lift_graph r = (case r of Inl e \<Rightarrow> Inl (Graph e) | Inr x \<Rightarrow> Inr x)"

definition topological_ids :: "string list \<Rightarrow> (string \<times> string) list \<Rightarrow> (topo_error, string list) result" where
  "topological_ids ids es = (let index_by_id = zip ids [0..<length ids] in
     rbind (lift_graph (group_edges fst snd ids es)) (\<lambda>downstream.
     rbind (lift_graph (count_edges snd ids es)) (\<lambda>in_degree.
     rbind (lift_graph (sort_by_index index_by_id
              (filter (\<lambda>n. dict_get in_degree n = Some 0) ids))) (\<lambda>ready.
     rbind (lift_graph (kahn_loop downstream index_by_id in_degree ready [])) (\<lambda>order.
       if length order \<noteq> length ids then Inl Cycle_detected else Inr order)))))"

lemma lift_graph_simps [simp]: "lift_graph (Inr x) = Inr x" "lift_graph (Inl e) = Inl (Graph e)"
  by (simp_all add: lift_graph_def)

section \<open>Correctness\<close>

definition inner_edges :: "string list \<Rightarrow> (string \<times> string) list \<Rightarrow> bool" where
  "inner_edges ids es \<longleftrightarrow> (\<forall>(a, b) \<in> set es. a \<in> set ids \<and> b \<in> set ids)"

definition preds_done :: "(string \<times> string) list \<Rightarrow> string set \<Rightarrow> string \<Rightarrow> bool" where
  "preds_done es S v \<longleftrightarrow> (\<forall>a. (a, v) \<in> set es \<longrightarrow> a \<in> S)"

text \<open>
  The specification: at each position stands the node of least index among the nodes not output
  before whose predecessors have all been output before.
\<close>

definition first_ready :: "string list \<Rightarrow> (string \<times> string) list \<Rightarrow> (string \<Rightarrow> nat) \<Rightarrow> string list \<Rightarrow> string \<Rightarrow> bool" where
  "first_ready ids es rank before v \<longleftrightarrow>
     v \<in> set ids \<and> v \<notin> set before \<and> preds_done es (set before) v \<and>
     (\<forall>w \<in> set ids. w \<notin> set before \<longrightarrow> preds_done es (set before) w \<longrightarrow> rank v \<le> rank w)"

definition topo_order :: "string list \<Rightarrow> (string \<times> string) list \<Rightarrow> (string \<Rightarrow> nat) \<Rightarrow> string list \<Rightarrow> bool" where
  "topo_order ids es rank order \<longleftrightarrow>
     (\<forall>i < length order. first_ready ids es rank (take i order) (order ! i))"

definition open_degree :: "(string \<times> string) list \<Rightarrow> string set \<Rightarrow> string \<Rightarrow> nat" where
  "open_degree es S v = length (filter (\<lambda>(a, b). b = v \<and> a \<notin> S) es)"

lemma open_degree_zero: "open_degree es S v = 0 \<longleftrightarrow> preds_done es S v"
  by (auto simp: open_degree_def preds_done_def filter_empty_conv)

lemma open_degree_step:
  "c \<notin> S \<Longrightarrow> open_degree es S v =
     open_degree es (insert c S) v + count_list (map snd (filter (\<lambda>e. fst e = c) es)) v"
  by (induction es) (auto simp: open_degree_def)

lemma kahn_relax_fold:
  assumes "\<And>t. t \<in> set ts \<Longrightarrow> \<exists>n. dict_get deg t = Some (int n) \<and> count_list ts t \<le> n"
  shows "\<exists>deg' new. fold_r kahn_relax (deg, ready) ts = Inr (deg', ready @ new) \<and> distinct new \<and>
           (\<forall>v. dict_get deg' v = map_option (\<lambda>d. d - int (count_list ts v)) (dict_get deg v)) \<and>
           set new = {v \<in> set ts. dict_get deg v = Some (int (count_list ts v))}"
  using assms
proof (induction ts arbitrary: deg ready)
  case Nil
  show ?case by (simp add: option.map_ident)
next
  case (Cons t ts)
  then obtain n where n: "dict_get deg t = Some (int n)" and le: "Suc (count_list ts t) \<le> n"
    by (metis count_list.simps(2) list.set_intros(1) Suc_eq_plus1)
  let ?deg = "dict_set deg t (int n - 1)"
  let ?ready = "if n = 1 then ready @ [t] else ready"
  have pre: "\<exists>m. dict_get ?deg u = Some (int m) \<and> count_list ts u \<le> m" if "u \<in> set ts" for u
  proof (cases "u = t")
    case True
    with le show ?thesis by (intro exI [of _ "n - 1"]) auto
  next
    case False
    with Cons.prems [of u] that show ?thesis by auto
  qed
  from Cons.IH [of ?deg ?ready, OF pre] obtain deg' new where
    run: "fold_r kahn_relax (?deg, ?ready) ts = Inr (deg', ?ready @ new)" and dist: "distinct new"
    and deg': "\<And>v. dict_get deg' v = map_option (\<lambda>d. d - int (count_list ts v)) (dict_get ?deg v)"
    and new: "set new = {v \<in> set ts. dict_get ?deg v = Some (int (count_list ts v))}" by blast
  have step: "kahn_relax (deg, ready) t = Inr (?deg, ?ready)"
    using n by (auto simp: kahn_relax_def dict_add_def)
  have degs: "dict_get deg' v = map_option (\<lambda>d. d - int (count_list (t # ts) v)) (dict_get deg v)" for v
    using n by (simp add: deg')
  show ?case
  proof (cases "n = 1")
    case True
    with le have "t \<notin> set ts" by (simp add: count_list_0_iff)
    with True n new have "set (t # new) = {v \<in> set (t # ts). dict_get deg v = Some (int (count_list (t # ts) v))}"
      by (auto simp: count_list_0_iff)
    moreover have "distinct (t # new)" using dist new \<open>t \<notin> set ts\<close> by auto
    ultimately show ?thesis using run step degs True by (intro exI [of _ deg'] exI [of _ "t # new"]) simp
  next
    case False
    have "set new = {v \<in> set (t # ts). dict_get deg v = Some (int (count_list (t # ts) v))}"
    proof -
      have "t \<in> set ts" if "int n = int (count_list ts t) + 1"
        using that False le by (metis count_list_0_iff of_nat_0 of_nat_1 add_0 of_nat_eq_iff)
      then show ?thesis using n new by auto
    qed
    with run step degs dist False show ?thesis by (intro exI [of _ deg'] exI [of _ new]) simp
  qed
qed

definition kahn_inv ::
    "string list \<Rightarrow> (string \<times> string) list \<Rightarrow> (string, nat) dict \<Rightarrow> (string, int) dict \<Rightarrow> string list \<Rightarrow> string list \<Rightarrow> bool" where
  "kahn_inv ids es idx deg ready order \<longleftrightarrow>
     (\<forall>v \<in> set ids. dict_get deg v = Some (int (open_degree es (set order) v))) \<and>
     distinct (order @ ready) \<and>
     set order \<subseteq> set ids \<and>
     set ready = {v \<in> set ids. preds_done es (set order) v} - set order \<and>
     sorted (map (index_of idx) ready) \<and>
     (\<forall>v \<in> set order. preds_done es (set order) v) \<and>
     topo_order ids es (index_of idx) order"

lemma preds_done_mono: "preds_done es S v \<Longrightarrow> S \<subseteq> T \<Longrightarrow> preds_done es T v"
  by (auto simp: preds_done_def)

lemma topo_order_snoc:
  "topo_order ids es rank (order @ [c]) \<longleftrightarrow>
     topo_order ids es rank order \<and> first_ready ids es rank order c"
proof -
  have "(\<forall>i < length (order @ [c]). first_ready ids es rank (take i (order @ [c])) ((order @ [c]) ! i)) \<longleftrightarrow>
        (\<forall>i < length order. first_ready ids es rank (take i order) (order ! i)) \<and> first_ready ids es rank order c"
    by (auto simp: less_Suc_eq nth_append)
  then show ?thesis by (simp only: topo_order_def)
qed

lemma sort_by_index_ok:
  "(\<And>x. x \<in> set xs \<Longrightarrow> x \<in> fst ` set idx) \<Longrightarrow> sort_by_index idx xs = Inr (sort_key (index_of idx) xs)"
  using each_r_ok [of "\<lambda>n. guard_r (dict_get idx n \<noteq> None) Key_error" xs "()"]
  by (auto simp: sort_by_index_def map_of_eq_None_iff)

lemma kahn_step:
  assumes inv: "kahn_inv ids es idx deg (c # ready) order"
    and inner: "inner_edges ids es" and idx: "fst ` set idx = set ids"
  defines "ts \<equiv> map snd (filter (\<lambda>e. fst e = c) es)"
  shows "\<exists>deg' ready' ready''. fold_r kahn_relax (deg, ready) ts = Inr (deg', ready') \<and>
           sort_by_index idx ready' = Inr ready'' \<and> kahn_inv ids es idx deg' ready'' (order @ [c])"
proof -
  have c: "c \<in> set ids" "c \<notin> set order" "preds_done es (set order) c" "c \<notin> set ready"
    using inv by (auto simp: kahn_inv_def)
  have sub: "set ts \<subseteq> set ids" using inner by (auto simp: ts_def inner_edges_def)
  note step = open_degree_step [OF c(2), of es, folded ts_def]
  have pre: "\<exists>n. dict_get deg t = Some (int n) \<and> count_list ts t \<le> n" if "t \<in> set ts" for t
    using inv sub that step [of t] by (intro exI [of _ "open_degree es (set order) t"]) (auto simp: kahn_inv_def)
  from kahn_relax_fold [of ts deg ready, OF pre] obtain deg' new where
    run: "fold_r kahn_relax (deg, ready) ts = Inr (deg', ready @ new)" and dist: "distinct new"
    and deg': "\<And>v. dict_get deg' v = map_option (\<lambda>d. d - int (count_list ts v)) (dict_get deg v)"
    and new: "set new = {v \<in> set ts. dict_get deg v = Some (int (count_list ts v))}" by blast
  let ?S = "set (order @ [c])"
  have new': "v \<in> set new \<longleftrightarrow> v \<in> set ts \<and> preds_done es ?S v" for v
    using inv sub step [of v] open_degree_zero [of es ?S v] by (auto simp: new kahn_inv_def)
  have into: "v \<in> set ts \<longleftrightarrow> (c, v) \<in> set es" for v by (force simp: ts_def)
  have was: "\<not> preds_done es (set order) v" if "v \<in> set ts" for v
    using that c(2) into by (auto simp: preds_done_def)
  have ready': "set (ready @ new) = {v \<in> set ids. preds_done es ?S v} - ?S"
  proof (intro set_eqI iffI)
    fix v assume "v \<in> set (ready @ new)"
    then consider "v \<in> set ready" | "v \<in> set new" by auto
    then show "v \<in> {v \<in> set ids. preds_done es ?S v} - ?S"
    proof cases
      case 1
      with inv c(4) show ?thesis by (auto simp: kahn_inv_def intro: preds_done_mono)
    next
      case 2
      with inv was [of v] c new' [of v] sub show ?thesis by (auto simp: kahn_inv_def)
    qed
  next
    fix v assume v: "v \<in> {v \<in> set ids. preds_done es ?S v} - ?S"
    show "v \<in> set (ready @ new)"
    proof (cases "(c, v) \<in> set es")
      case True
      with v new' into show ?thesis by simp
    next
      case False
      with v have "preds_done es (set order) v" by (auto simp: preds_done_def)
      then have "v \<in> set (c # ready)" using inv v by (simp add: kahn_inv_def)
      with v show ?thesis by simp
    qed
  qed
  let ?ready = "sort_key (index_of idx) (ready @ new)"
  have sort: "sort_by_index idx (ready @ new) = Inr ?ready"
    by (rule sort_by_index_ok) (use ready' idx in blast)
  have "preds_done es (set order) v" if "v \<in> set ready" for v
  proof -
    have "v \<in> set (c # ready)" using that by simp
    then have "v \<in> {v \<in> set ids. preds_done es (set order) v} - set order"
      using inv unfolding kahn_inv_def by blast
    then show ?thesis by simp
  qed
  with was new' have "set ready \<inter> set new = {}" by blast
  then have "distinct (ready @ new)"
    using inv dist by (simp add: kahn_inv_def)
  then have "distinct ((order @ [c]) @ ?ready)"
    using inv ready' by (auto simp: kahn_inv_def)
  moreover have "\<forall>v \<in> set ids. dict_get deg' v = Some (int (open_degree es ?S v))"
    using inv step by (auto simp: deg' kahn_inv_def)
  moreover have "first_ready ids es (index_of idx) order c"
    using inv c by (auto simp: first_ready_def kahn_inv_def)
  moreover have "\<forall>v \<in> ?S. preds_done es ?S v"
    using inv c by (auto simp: kahn_inv_def intro: preds_done_mono)
  moreover have "set ?ready = {v \<in> set ids. preds_done es ?S v} - ?S" using ready' by simp
  ultimately have "kahn_inv ids es idx deg' ?ready (order @ [c])"
    using inv c(1) unfolding kahn_inv_def topo_order_snoc by simp
  with run sort show ?thesis by blast
qed

lemma kahn_loop_correct:
  assumes "kahn_inv ids es idx deg ready order" and inner: "inner_edges ids es"
    and idx: "fst ` set idx = set ids"
    and down: "\<And>c. c \<in> set ids \<Longrightarrow> dict_get downstream c = Some (map snd (filter (\<lambda>e. fst e = c) es))"
  shows "\<exists>order' deg'. kahn_loop downstream idx deg ready order = Inr order' \<and>
           kahn_inv ids es idx deg' [] order'"
  using assms(1) idx down
proof (induction downstream idx deg ready order rule: kahn_loop.induct)
  case (1 downstream idx deg order)
  then show ?case by auto
next
  case (2 downstream idx deg c ready order)
  let ?ts = "map snd (filter (\<lambda>e. fst e = c) es)"
  have "c \<in> set ids" using "2.prems"(1) by (auto simp: kahn_inv_def)
  then have ts: "dict_get downstream c = Some ?ts" by (rule "2.prems"(3))
  from kahn_step [OF "2.prems"(1) inner "2.prems"(2)] obtain deg' ready' ready'' where
    run: "fold_r kahn_relax (deg, ready) ?ts = Inr (deg', ready')"
      "sort_by_index idx ready' = Inr ready''" and inv: "kahn_inv ids es idx deg' ready'' (order @ [c])"
    by blast
  from "2.IH" [OF ts run(1) refl run(2) inv "2.prems"(2,3)] ts run show ?case by simp
qed

lemma kahn_complete:
  assumes inv: "kahn_inv ids es idx deg [] order" and inner: "inner_edges ids es"
    and ac: "acyclic (set es)"
  shows "set order = set ids"
proof (rule ccontr)
  assume "set order \<noteq> set ids"
  with inv have ne: "set ids - set order \<noteq> {}" by (auto simp: kahn_inv_def)
  have "wf (set es)" by (rule finite_acyclic_wf [OF finite_set ac])
  then obtain v where v: "v \<in> set ids - set order"
    and least: "\<And>a. (a, v) \<in> set es \<Longrightarrow> a \<notin> set ids - set order"
    using ne by (metis wf_eq_minimal ex_in_conv)
  have "preds_done es (set order) v"
    using least inner by (force simp: preds_done_def inner_edges_def)
  with v inv show False by (auto simp: kahn_inv_def)
qed

lemma topo_order_acyclic:
  assumes "topo_order ids es rank order" and "set order = set ids" and "inner_edges ids es"
  shows "acyclic (set es)"
proof -
  define pos where "pos v = (LEAST i. i < length order \<and> order ! i = v)" for v
  have pos: "pos v < length order \<and> order ! pos v = v" if "v \<in> set order" for v
    unfolding pos_def by (rule LeastI_ex) (use that in \<open>simp add: in_set_conv_nth\<close>)
  have "pos a < pos b" if e: "(a, b) \<in> set es" for a b
  proof -
    have "b \<in> set order" using assms(2,3) e by (auto simp: inner_edges_def)
    then have b: "pos b < length order" "order ! pos b = b" using pos by auto
    with assms(1) have "preds_done es (set (take (pos b) order)) b"
      by (metis topo_order_def first_ready_def)
    with e have "a \<in> set (take (pos b) order)" by (simp add: preds_done_def)
    then obtain i where "i < pos b" "i < length order" "order ! i = a" by (auto simp: in_set_conv_nth)
    moreover have "pos a \<le> i" unfolding pos_def by (rule Least_le) (use calculation in simp)
    ultimately show ?thesis by simp
  qed
  then have "set es \<subseteq> measure pos" by auto
  then show ?thesis using wf_acyclic wf_measure wf_subset by blast
qed

text \<open>
  The initial state satisfies the invariant, so the whole routine runs: either it returns the
  order or it reports a cycle.
\<close>

lemma topological_run:
  assumes dist: "distinct ids" and inner: "inner_edges ids es"
  shows "\<exists>order deg. topological_ids ids es = (if length order \<noteq> length ids then Inl Cycle_detected else Inr order) \<and>
           kahn_inv ids es (zip ids [0..<length ids]) deg [] order"
proof -
  let ?idx = "zip ids [0..<length ids]"
  have idx: "fst ` set ?idx = set ids" by (metis length_map map_fst_zip map_nth set_map)
  obtain down where down: "group_edges fst snd ids es = Inr down"
      "\<And>k. dict_get down k = (if k \<in> set ids then Some (map snd (filter (\<lambda>e. fst e = k) es)) else None)"
    using group_edges_ok [of es fst ids snd] inner by (fastforce simp: inner_edges_def)
  obtain deg where deg: "count_edges snd ids es = Inr deg"
      "\<And>k. dict_get deg k = (if k \<in> set ids then Some (int (length (filter (\<lambda>e. snd e = k) es))) else None)"
    using count_edges_ok [of es snd ids] inner by (fastforce simp: inner_edges_def)
  have od: "length (filter (\<lambda>e. snd e = k) es) = open_degree es (set []) k" for k
    by (simp add: open_degree_def case_prod_unfold)
  let ?r0 = "filter (\<lambda>n. dict_get deg n = Some 0) ids"
  let ?ready = "sort_key (index_of ?idx) ?r0"
  have sort: "sort_by_index ?idx ?r0 = Inr ?ready"
    by (rule sort_by_index_ok) (simp add: idx)
  have inv: "kahn_inv ids es ?idx deg ?ready []"
    unfolding kahn_inv_def
    using dist by (auto simp: deg(2) od open_degree_zero topo_order_def simp del: set_empty2)
  have "dict_get down c = Some (map snd (filter (\<lambda>e. fst e = c) es))" if "c \<in> set ids" for c
    using that by (simp add: down(2))
  from kahn_loop_correct [OF inv inner idx this] obtain order deg' where
    "kahn_loop down ?idx deg ?ready [] = Inr order" "kahn_inv ids es ?idx deg' [] order" by auto
  then show ?thesis
    using down(1) deg(1) sort by (intro exI [of _ order] exI [of _ deg']) (simp add: topological_ids_def Let_def)
qed

lemma topological_ids_decides:
  assumes dist: "distinct ids" and inner: "inner_edges ids es"
  shows "if acyclic (set es)
         then \<exists>order. topological_ids ids es = Inr order \<and> distinct order \<and> set order = set ids \<and>
                topo_order ids es (index_of (zip ids [0..<length ids])) order
         else topological_ids ids es = Inl Cycle_detected"
proof -
  from topological_run [OF assms] obtain order deg where
    run: "topological_ids ids es = (if length order \<noteq> length ids then Inl Cycle_detected else Inr order)"
    and inv: "kahn_inv ids es (zip ids [0..<length ids]) deg [] order" by blast
  have len: "length order = length ids \<longleftrightarrow> set order = set ids"
    using inv dist by (metis append_Nil2 card_subset_eq distinct_card finite_set kahn_inv_def)
  have "acyclic (set es) \<longleftrightarrow> set order = set ids"
    using kahn_complete [OF inv inner] topo_order_acyclic inv inner by (auto simp: kahn_inv_def)
  then show ?thesis using run len inv by (auto simp: kahn_inv_def)
qed

text \<open>
  The topological sort of the execution planner never misses a key on a graph whose edges
  join declared nodes; it succeeds exactly when the graph has no cycle; and its result is a
  permutation of the nodes in which every position holds the first declared node among the
  unplaced ones whose predecessors are all placed before it.
\<close>

theorem topological_ids_correct:
  assumes dist: "distinct ids" and inner: "inner_edges ids es"
  shows "if acyclic (set es)
         then \<exists>order. topological_ids ids es = Inr order \<and> distinct order \<and> set order = set ids \<and>
                topo_order ids es (index_of (zip ids [0..<length ids])) order
         else topological_ids ids es = Inl Cycle_detected"
  using assms by (rule topological_ids_decides)

theorem topological_ids_correct_witness:
  "distinct [''a'', ''b'', ''c''] \<and> inner_edges [''a'', ''b'', ''c''] [(''c'', ''a'')] \<and>
   \<not> acyclic (set [(''b'', ''c''), (''c'', ''b'')]) \<and>
   topological_ids [''a'', ''b'', ''c''] [(''b'', ''c''), (''c'', ''b'')] = Inl Cycle_detected \<and>
   topological_ids [''a'', ''b'', ''c''] [(''c'', ''a'')] = Inr [''b'', ''c'', ''a'']"
proof -
  have d: "distinct [''a'', ''b'', ''c'']" by simp
  have i: "inner_edges [''a'', ''b'', ''c''] [(''b'', ''c''), (''c'', ''b'')]"
    "inner_edges [''a'', ''b'', ''c''] [(''c'', ''a'')]" by (simp_all add: inner_edges_def)
  have t: "topological_ids [''a'', ''b'', ''c''] [(''b'', ''c''), (''c'', ''b'')] = Inl Cycle_detected"
    "topological_ids [''a'', ''b'', ''c''] [(''c'', ''a'')] = Inr [''b'', ''c'', ''a'']"
    by code_simp+
  have "\<not> acyclic (set [(''b'', ''c''), (''c'', ''b'')])"
    using topological_ids_correct [OF d i(1)] t(1) by (simp split: if_splits)
  with d i t show ?thesis by simp
qed

end
