(* ===== verification/Py_Value.thy ===== *)
theory Py_Value
  imports Prelude
begin

text \<open>
  The Python values the program moves through JSON payloads: scalars, lists and dictionaries
  with string keys; their truth value, their \<open>repr\<close> and \<open>str\<close> texts, and the
  comparison operators on scalars.

  A float is its exact rational value or one of the four values that have none. The shortest
  round-trip text of a finite float is an argument (\<open>float_repr\<close>) of the functions that
  print one.
\<close>

section \<open>Values\<close>

datatype pyfloat = FFinite rat | FNegZero | FInf | FNegInf | FNan

datatype scalar = SNone | SBool bool | SInt int | SFloat pyfloat | SStr string

datatype pval = PScalar scalar | PList "pval list" | PDict "(string \<times> pval) list"

abbreviation PStr :: "string \<Rightarrow> pval" where
  "PStr s \<equiv> PScalar (SStr s)"

abbreviation PInt :: "int \<Rightarrow> pval" where
  "PInt i \<equiv> PScalar (SInt i)"

abbreviation PNone :: pval where
  "PNone \<equiv> PScalar SNone"

definition is_finite_float :: "pyfloat \<Rightarrow> bool" where
  "is_finite_float f \<longleftrightarrow> (case f of FFinite _ \<Rightarrow> True | FNegZero \<Rightarrow> True | _ \<Rightarrow> False)"

definition float_is_zero :: "pyfloat \<Rightarrow> bool" where
  "float_is_zero f \<longleftrightarrow> f = FNegZero \<or> f = FFinite 0"

definition truthy :: "scalar \<Rightarrow> bool" where
  "truthy v \<longleftrightarrow> (case v of
       SNone \<Rightarrow> False
     | SBool b \<Rightarrow> b
     | SInt i \<Rightarrow> i \<noteq> 0
     | SFloat f \<Rightarrow> \<not> float_is_zero f
     | SStr s \<Rightarrow> s \<noteq> [])"

section \<open>Texts\<close>

definition hex_digit :: "nat \<Rightarrow> char" where
  "hex_digit n = (if n < 10 then char_of (48 + n) else char_of (87 + n))"

text \<open>Code points below 256 that \<open>str.isprintable\<close> rejects.\<close>

definition non_printable :: "nat \<Rightarrow> bool" where
  "non_printable n \<longleftrightarrow> n < 32 \<or> (127 \<le> n \<and> n \<le> 160) \<or> n = 173"

definition repr_char :: "char \<Rightarrow> char \<Rightarrow> string" where
  "repr_char q c =
     (let n = (of_char c :: nat) in
      if c = q \<or> n = 92 then [CHR 0x5C, c]
      else if n = 9 then [CHR 0x5C, CHR ''t'']
      else if n = 10 then [CHR 0x5C, CHR ''n'']
      else if n = 13 then [CHR 0x5C, CHR ''r'']
      else if non_printable n then [CHR 0x5C, CHR ''x'', hex_digit (n div 16), hex_digit (n mod 16)]
      else [c])"

definition repr_str :: "string \<Rightarrow> string" where
  "repr_str s =
     (let q = (if CHR 0x27 \<in> set s \<and> CHR 0x22 \<notin> set s then CHR 0x22 else CHR 0x27)
      in q # concat (map (repr_char q) s) @ [q])"

definition bool_str :: "bool \<Rightarrow> string" where
  "bool_str b = (if b then ''True'' else ''False'')"

definition scalar_str :: "(pyfloat \<Rightarrow> string) \<Rightarrow> scalar \<Rightarrow> string" where
  "scalar_str float_repr v = (case v of
       SNone \<Rightarrow> ''None''
     | SBool b \<Rightarrow> bool_str b
     | SInt i \<Rightarrow> int_str i
     | SFloat f \<Rightarrow> float_repr f
     | SStr s \<Rightarrow> s)"

definition scalar_repr :: "(pyfloat \<Rightarrow> string) \<Rightarrow> scalar \<Rightarrow> string" where
  "scalar_repr float_repr v = (case v of SStr s \<Rightarrow> repr_str s | _ \<Rightarrow> scalar_str float_repr v)"

section \<open>Comparison\<close>

text \<open>
  Numbers of all three numeric types compare by value. An extended number is a rational, an
  infinity, or the value that is unordered with everything.
\<close>

datatype xnum = XNegInf | XRat rat | XInf | XNan

definition float_num :: "pyfloat \<Rightarrow> xnum" where
  "float_num f = (case f of FFinite r \<Rightarrow> XRat r | FNegZero \<Rightarrow> XRat 0
     | FInf \<Rightarrow> XInf | FNegInf \<Rightarrow> XNegInf | FNan \<Rightarrow> XNan)"

definition scalar_num :: "scalar \<Rightarrow> xnum option" where
  "scalar_num v = (case v of
       SBool b \<Rightarrow> Some (XRat (if b then 1 else 0))
     | SInt i \<Rightarrow> Some (XRat (of_int i))
     | SFloat f \<Rightarrow> Some (float_num f)
     | _ \<Rightarrow> None)"

fun xnum_eq :: "xnum \<Rightarrow> xnum \<Rightarrow> bool" where
  "xnum_eq XNan _ = False"
| "xnum_eq _ XNan = False"
| "xnum_eq x y = (x = y)"

fun xnum_less :: "xnum \<Rightarrow> xnum \<Rightarrow> bool" where
  "xnum_less XNan _ = False"
| "xnum_less _ XNan = False"
| "xnum_less (XRat a) (XRat b) = (a < b)"
| "xnum_less XNegInf y = (y \<noteq> XNegInf)"
| "xnum_less x XInf = (x \<noteq> XInf)"
| "xnum_less _ _ = False"

fun str_less :: "string \<Rightarrow> string \<Rightarrow> bool" where
  "str_less _ [] = False"
| "str_less [] (_ # _) = True"
| "str_less (a # as) (b # bs) =
     ((of_char a :: nat) < of_char b \<or> (a = b \<and> str_less as bs))"

text \<open>\<open>==\<close> never raises; \<open><\<close> raises \<open>TypeError\<close> (here \<open>None\<close>) on types without an order.\<close>

definition scalar_eq :: "scalar \<Rightarrow> scalar \<Rightarrow> bool" where
  "scalar_eq v w = (case (scalar_num v, scalar_num w) of
       (Some x, Some y) \<Rightarrow> xnum_eq x y
     | (None, None) \<Rightarrow> v = w
     | _ \<Rightarrow> False)"

definition scalar_less :: "scalar \<Rightarrow> scalar \<Rightarrow> bool option" where
  "scalar_less v w = (case (scalar_num v, scalar_num w) of
       (Some x, Some y) \<Rightarrow> Some (xnum_less x y)
     | _ \<Rightarrow> (case (v, w) of (SStr s, SStr t) \<Rightarrow> Some (str_less s t) | _ \<Rightarrow> None))"

definition scalar_less_eq :: "scalar \<Rightarrow> scalar \<Rightarrow> bool option" where
  "scalar_less_eq v w = (case scalar_less v w of
       None \<Rightarrow> None | Some b \<Rightarrow> Some (b \<or> scalar_eq v w))"

lemma str_less_irrefl: "\<not> str_less s s"
  by (induction s) auto

lemma str_less_trans: "str_less s t \<Longrightarrow> str_less t u \<Longrightarrow> str_less s u"
proof (induction s t arbitrary: u rule: str_less.induct)
  case (2 b bs)
  then show ?case by (cases u) auto
next
  case (3 a as b bs)
  then show ?case by (cases u) auto
qed simp

lemma str_less_total: "s \<noteq> t \<Longrightarrow> str_less s t \<or> str_less t s"
proof (induction s t rule: str_less.induct)
  case (1 s)
  then show ?case by (cases s) auto
next
  case (3 a as b bs)
  have "(of_char a :: nat) < of_char b \<or> (of_char b :: nat) < of_char a \<or> a = b"
    by (metis linorder_cases of_char_eq_iff)
  with 3 show ?case by auto
qed simp

lemma xnum_less_irrefl: "\<not> xnum_less x x"
  by (cases x) auto

lemma xnum_total: "x \<noteq> XNan \<Longrightarrow> y \<noteq> XNan \<Longrightarrow> xnum_less x y \<or> xnum_eq x y \<or> xnum_less y x"
  by (cases x; cases y) auto

lemma truthy_simps [simp, py_simps]:
  "truthy SNone = False" "truthy (SBool b) = b" "truthy (SInt i) = (i \<noteq> 0)"
  "truthy (SStr s) = (s \<noteq> [])"
  by (simp_all add: truthy_def)

lemma scalar_str_simps [simp, py_simps]:
  "scalar_str fr (SStr s) = s" "scalar_str fr SNone = ''None''"
  "scalar_str fr (SInt i) = int_str i" "scalar_str fr (SBool b) = bool_str b"
  by (simp_all add: scalar_str_def)

end
