(* ===== verification/Workflow_Outputs.thy ===== *)
theory Workflow_Outputs
  imports Py_Value
begin

text \<open>
  \<open>app/domain/workflow_outputs.py\<close>: the whitelist of node outputs, the projection of a child
  job's result onto it, the placeholder scanner \<open>${...}\<close> and the resolution of
  \<open>nodes.<id>.<field>\<close> references.
\<close>

section \<open>Whitelist\<close>

definition COMMON_NODE_OUTPUT_FIELDS :: "string set" where
  "COMMON_NODE_OUTPUT_FIELDS = {''status'', ''job_id'', ''error_code''}"

definition NODE_OUTPUT_FIELDS_BY_KIND :: "(string, string set) dict" where
  "NODE_OUTPUT_FIELDS_BY_KIND =
     [(''sql_query'', COMMON_NODE_OUTPUT_FIELDS \<union> {''result_set_id'', ''loaded_rows''}),
      (''sql_explain'', COMMON_NODE_OUTPUT_FIELDS \<union> {''result_set_id'', ''loaded_rows''}),
      (''compare_run'', COMMON_NODE_OUTPUT_FIELDS \<union>
         {''run_id'', ''same_count'', ''only_source_count'', ''only_target_count'', ''diff_count''}),
      (''lineage_analyze'', COMMON_NODE_OUTPUT_FIELDS \<union>
         {''run_id'', ''cached'', ''table_edge_count'', ''column_edge_count'',
          ''parse_error_count''}),
      (''export_excel'', COMMON_NODE_OUTPUT_FIELDS),
      (''notify'', COMMON_NODE_OUTPUT_FIELDS \<union> {''sent_count''}),
      (''sleep'', COMMON_NODE_OUTPUT_FIELDS \<union> {''duration_seconds''}),
      (''branch'', COMMON_NODE_OUTPUT_FIELDS \<union> {''selected_target''})]"

definition ALL_NODE_OUTPUT_FIELDS :: "string set" where
  "ALL_NODE_OUTPUT_FIELDS = \<Union> (set (dict_values NODE_OUTPUT_FIELDS_BY_KIND))"

section \<open>Projection of a result reference\<close>

type_synonym outputs = "(string, scalar) dict"

definition copy_string :: "(string, pval) dict \<Rightarrow> string \<Rightarrow> outputs \<Rightarrow> string \<Rightarrow> outputs" where
  "copy_string source field_name outs target =
     (case dict_get source field_name of
        Some (PScalar (SStr s)) \<Rightarrow> if s \<noteq> [] then dict_set outs target (SStr s) else outs
      | _ \<Rightarrow> outs)"

definition copy_int :: "(string, pval) dict \<Rightarrow> string \<Rightarrow> outputs \<Rightarrow> string \<Rightarrow> outputs" where
  "copy_int source field_name outs target =
     (case dict_get source field_name of
        Some (PScalar (SInt i)) \<Rightarrow> dict_set outs target (SInt i)
      | _ \<Rightarrow> outs)"

definition copy_bool :: "(string, pval) dict \<Rightarrow> string \<Rightarrow> outputs \<Rightarrow> outputs" where
  "copy_bool source field_name outs =
     (case dict_get source field_name of
        Some (PScalar (SBool b)) \<Rightarrow> dict_set outs field_name (SBool b)
      | _ \<Rightarrow> outs)"

definition extract_workflow_node_outputs :: "string \<Rightarrow> (string, pval) dict option \<Rightarrow> outputs" where
  "extract_workflow_node_outputs job_kind result_ref =
     (case result_ref of
        None \<Rightarrow> []
      | Some metadata \<Rightarrow>
          if job_kind \<in> {''sql_query'', ''sql_explain''} then
            (let o1 = copy_string metadata ''result_set_id'' [] ''result_set_id''
             in copy_int metadata ''loaded_rows'' o1 ''loaded_rows'')
          else if job_kind = ''compare_run'' then
            (let o1 = copy_string metadata ''run_id'' [] ''run_id''
             in case dict_get metadata ''bucket_counts'' of
                  Some (PDict bucket_counts) \<Rightarrow>
                    foldl (\<lambda>acc bucket. copy_int bucket_counts bucket acc (bucket @ ''_count'')) o1
                      [''same'', ''only_source'', ''only_target'', ''diff'']
                | _ \<Rightarrow> o1)
          else if job_kind = ''lineage_analyze'' then
            (let o1 = copy_string metadata ''lineage_run_id'' [] ''run_id'';
                 o2 = copy_bool metadata ''cached'' o1
             in foldl (\<lambda>acc f. copy_int metadata f acc f) o2
                  [''table_edge_count'', ''column_edge_count'', ''parse_error_count''])
          else if job_kind = ''branch'' then
            copy_string metadata ''selected_target'' [] ''selected_target''
          else if job_kind = ''sleep'' then
            copy_int metadata ''duration_seconds'' [] ''duration_seconds''
          else if job_kind = ''notify'' then
            copy_int metadata ''sent_count'' [] ''sent_count''
          else [])"

section \<open>References\<close>

datatype node_output_error =
    Invalid_node_output_reference
  | Forbidden_node_output_field
  | Unresolved_node_output
  | Unsafe_node_output_value

type_synonym node_output_map = "(string, (string, pval) dict) dict"

definition parse_node_output_reference :: "string \<Rightarrow> (string \<times> string) option" where
  "parse_node_output_reference expression =
     (let candidate = strip expression in
      if \<not> starts_with ''nodes.'' candidate then None
      else (case rpartition CHR ''.'' (drop 6 candidate) of
              None \<Rightarrow> None
            | Some (node_id, fld) \<Rightarrow>
                if node_id = [] \<or> \<not> is_identifier fld then None else Some (node_id, fld)))"

definition resolve_node_output ::
    "string \<Rightarrow> node_output_map \<Rightarrow> (node_output_error, scalar) result" where
  "resolve_node_output expression outs =
     (case parse_node_output_reference expression of
        None \<Rightarrow> Inl Invalid_node_output_reference
      | Some (node_id, fld) \<Rightarrow>
          if fld \<notin> ALL_NODE_OUTPUT_FIELDS then Inl Forbidden_node_output_field
          else (case dict_get outs node_id of
                  None \<Rightarrow> Inl Unresolved_node_output
                | Some node_outputs \<Rightarrow>
                    (case dict_get node_outputs fld of
                       None \<Rightarrow> Inl Unresolved_node_output
                     | Some (PScalar v) \<Rightarrow> Inr v
                     | Some _ \<Rightarrow> Inl Unsafe_node_output_value)))"

section \<open>The placeholder scanner\<close>

text \<open>
  The pattern \<open>\$\{([^}]*)\}\<close> matches at a position that starts with \<open>${\<close> when a closing
  brace follows; the group is everything before the first closing brace. A text is scanned from
  the left into literal characters and holes.
\<close>

datatype piece = Lit char | Hole string

definition hole_at :: "string \<Rightarrow> (string \<times> string) option" where
  "hole_at s =
     (if starts_with ''${'' s
      then (let body = drop 2 s in
            case dropWhile (\<lambda>c. c \<noteq> CHR ''}'') body of
              [] \<Rightarrow> None
            | _ # rest \<Rightarrow> Some (takeWhile (\<lambda>c. c \<noteq> CHR ''}'') body, rest))
      else None)"

lemma hole_at_Some:
  "hole_at s = Some (e, rest) \<Longrightarrow> s = ''${'' @ e @ ''}'' @ rest \<and> CHR ''}'' \<notin> set e"
proof -
  assume h: "hole_at s = Some (e, rest)"
  then obtain b where s: "s = ''${'' @ b"
    by (auto simp: hole_at_def elim!: starts_withE split: if_splits)
  with h obtain x where d: "dropWhile (\<lambda>c. c \<noteq> CHR ''}'') b = x # rest"
      and e: "e = takeWhile (\<lambda>c. c \<noteq> CHR ''}'') b"
    by (auto simp: hole_at_def Let_def split: list.splits)
  then have "x = CHR ''}''" by (metis (mono_tags, lifting) dropWhile_eq_Cons_conv)
  with d e have b: "b = e @ ''}'' @ rest"
    using takeWhile_dropWhile_id [of "\<lambda>c. c \<noteq> CHR ''}''" b] by simp
  have "CHR ''}'' \<notin> set e" unfolding e by (auto dest: set_takeWhileD)
  with s b show ?thesis by simp
qed

lemma hole_at_shorter: "hole_at s = Some (e, rest) \<Longrightarrow> length rest < length s"
  by (auto dest!: hole_at_Some)

lemma hole_at_intro: "CHR ''}'' \<notin> set e \<Longrightarrow> hole_at (''${'' @ e @ ''}'' @ rest) = Some (e, rest)"
proof -
  assume e: "CHR ''}'' \<notin> set e"
  have "dropWhile (\<lambda>c. c \<noteq> CHR ''}'') (e @ ''}'' @ rest) = ''}'' @ rest"
    using e by (subst dropWhile_append2) auto
  moreover have "takeWhile (\<lambda>c. c \<noteq> CHR ''}'') (e @ ''}'' @ rest) = e"
    using e by (subst takeWhile_append2) auto
  ultimately show ?thesis by (simp add: hole_at_def)
qed

function pieces :: "string \<Rightarrow> piece list" where
  "pieces [] = []"
| "pieces (c # s) = (case hole_at (c # s) of
     Some (e, rest) \<Rightarrow> Hole e # pieces rest
   | None \<Rightarrow> Lit c # pieces s)"
  by pat_completeness auto
termination
  by (relation "measure length") (auto dest: hole_at_shorter)

fun piece_text :: "piece \<Rightarrow> string" where
  "piece_text (Lit c) = [c]"
| "piece_text (Hole e) = ''${'' @ e @ ''}''"

lemma pieces_unparse: "concat (map piece_text (pieces s)) = s"
proof (induction s rule: pieces.induct)
  case (2 c s)
  show ?case
  proof (cases "hole_at (c # s)")
    case None
    with 2 show ?thesis by simp
  next
    case (Some p)
    obtain e rest where p: "p = (e, rest)" by (cases p)
    with Some 2 hole_at_Some [of "c # s" e rest] show ?thesis by simp
  qed
qed simp

lemma pieces_no_hole:
  "CHR ''$'' \<notin> set s \<Longrightarrow> pieces s = map Lit s"
  by (induction s) (auto simp: hole_at_def)

fun iter_placeholder_expressions :: "pval \<Rightarrow> string list" where
  "iter_placeholder_expressions (PScalar (SStr s)) =
     concat (map (\<lambda>p. case p of Hole e \<Rightarrow> [strip e] | Lit _ \<Rightarrow> []) (pieces s))"
| "iter_placeholder_expressions (PScalar _) = []"
| "iter_placeholder_expressions (PDict items) =
     concat (map (\<lambda>(_, item). iter_placeholder_expressions item) items)"
| "iter_placeholder_expressions (PList items) = concat (map iter_placeholder_expressions items)"

section \<open>Facts\<close>

lemma copy_keys [py_simps]:
  "fst ` set (copy_string src f outs t) \<subseteq> insert t (fst ` set outs)"
  "fst ` set (copy_int src f outs t) \<subseteq> insert t (fst ` set outs)"
  "fst ` set (copy_bool src f outs) \<subseteq> insert f (fst ` set outs)"
  by (auto simp: copy_string_def copy_int_def copy_bool_def dict_keys_set
      split: option.splits pval.splits scalar.splits if_splits)

lemma foldl_copy_int_keys:
  "fst ` set (foldl (\<lambda>acc b. copy_int src b acc (g b)) outs bs) \<subseteq> fst ` set outs \<union> g ` set bs"
proof (induction bs arbitrary: outs)
  case (Cons b bs)
  from Cons.IH [of "copy_int src b outs (g b)"] copy_keys(2) [of src b outs "g b"]
  show ?case by auto
qed simp

definition own_fields :: "string \<Rightarrow> string set" where
  "own_fields kind = (case dict_get NODE_OUTPUT_FIELDS_BY_KIND kind of
     Some fields \<Rightarrow> fields - COMMON_NODE_OUTPUT_FIELDS | None \<Rightarrow> {})"

lemma own_fields_simps:
  "own_fields ''sql_query'' = {''result_set_id'', ''loaded_rows''}"
  "own_fields ''sql_explain'' = {''result_set_id'', ''loaded_rows''}"
  "own_fields ''compare_run'' =
     {''run_id'', ''same_count'', ''only_source_count'', ''only_target_count'', ''diff_count''}"
  "own_fields ''lineage_analyze'' =
     {''run_id'', ''cached'', ''table_edge_count'', ''column_edge_count'', ''parse_error_count''}"
  "own_fields ''notify'' = {''sent_count''}"
  "own_fields ''sleep'' = {''duration_seconds''}"
  "own_fields ''branch'' = {''selected_target''}"
  by (simp_all add: own_fields_def NODE_OUTPUT_FIELDS_BY_KIND_def COMMON_NODE_OUTPUT_FIELDS_def
      insert_Diff_if)

lemma extract_keys: "fst ` set (extract_workflow_node_outputs kind ref) \<subseteq> own_fields kind"
proof (cases ref)
  case None
  then show ?thesis by (simp add: extract_workflow_node_outputs_def)
next
  case (Some md)
  have sql: "fst ` set (copy_int md f2 (copy_string md f1 [] t1) t2) \<subseteq> {t1, t2}" for f1 t1 f2 t2
    using copy_keys(2) [of md f2 "copy_string md f1 [] t1" t2] copy_keys(1) [of md f1 "[]" t1]
    by auto
  have cmp: "fst ` set (foldl (\<lambda>acc b. copy_int src b acc (g b)) (copy_string md f [] t) bs)
      \<subseteq> insert t (g ` set bs)" for src g f t bs
    using foldl_copy_int_keys [of src g "copy_string md f [] t" bs] copy_keys(1) [of md f "[]" t]
    by auto
  have lin: "fst ` set (foldl (\<lambda>acc b. copy_int md b acc b) (copy_bool md c (copy_string md f [] t)) bs)
      \<subseteq> insert t (insert c (set bs))" for c f t bs
    using foldl_copy_int_keys [of md "\<lambda>b. b" "copy_bool md c (copy_string md f [] t)" bs]
      copy_keys(3) [of md c "copy_string md f [] t"] copy_keys(1) [of md f "[]" t]
    by auto
  have one: "fst ` set (copy_string md f [] t) \<subseteq> {t}" "fst ` set (copy_int md f [] t) \<subseteq> {t}" for f t
    using copy_keys(1) [of md f "[]" t] copy_keys(2) [of md f "[]" t] by simp_all
  let ?buckets = "[''same'', ''only_source'', ''only_target'', ''diff'']"
  have compare: ?thesis if k: "kind = ''compare_run''"
  proof -
    have "fst ` set (extract_workflow_node_outputs kind ref) \<subseteq>
        insert ''run_id'' ((\<lambda>b. b @ ''_count'') ` set ?buckets)"
    proof (cases "\<exists>bc. dict_get md ''bucket_counts'' = Some (PDict bc)")
      case True
      then obtain bc where bc: "dict_get md ''bucket_counts'' = Some (PDict bc)" by blast
      have "extract_workflow_node_outputs kind ref =
          foldl (\<lambda>acc b. copy_int bc b acc (b @ ''_count'')) (copy_string md ''run_id'' [] ''run_id'') ?buckets"
        by (simp add: k Some bc extract_workflow_node_outputs_def del: foldl_Cons)
      then show ?thesis by (simp only: cmp)
    next
      case False
      then have "extract_workflow_node_outputs kind ref = copy_string md ''run_id'' [] ''run_id''"
        by (simp add: k Some extract_workflow_node_outputs_def Let_def del: foldl_Cons
            split: option.split pval.split)
      then show ?thesis using order_trans [OF one(1) insert_mono [OF empty_subsetI]] by simp
    qed
    also have "\<dots> = own_fields kind" by (simp add: k own_fields_simps)
    finally show ?thesis .
  qed
  show ?thesis
    using Some compare sql [of "''loaded_rows''" "''result_set_id''" "''result_set_id''" "''loaded_rows''"]
      lin [of "''cached''" "''lineage_run_id''" "''run_id''"
          "[''table_edge_count'', ''column_edge_count'', ''parse_error_count'']"]
      one [of "''selected_target''" "''selected_target''"]
      one [of "''duration_seconds''" "''duration_seconds''"] one [of "''sent_count''" "''sent_count''"]
    by (cases "kind = ''compare_run''"; cases "kind = ''notify''")
       (simp_all add: extract_workflow_node_outputs_def own_fields_simps del: foldl_Cons)
qed

lemma lstrip_id: "s = [] \<or> \<not> py_is_space (hd s) \<Longrightarrow> lstrip s = s"
  by (cases s) (auto simp: lstrip_def)

lemma strip_id:
  "s \<noteq> [] \<Longrightarrow> \<not> py_is_space (hd s) \<Longrightarrow> \<not> py_is_space (last s) \<Longrightarrow> strip s = s"
  by (simp add: strip_def lstrip_id hd_rev)

lemma identifier_last: "is_identifier f \<Longrightarrow> f \<noteq> [] \<and> \<not> py_is_space (last f) \<and> CHR ''.'' \<notin> set f"
proof -
  assume id: "is_identifier f"
  have c: "\<not> py_is_space c \<and> c \<noteq> CHR ''.''" if "is_letter c \<or> is_digit c \<or> c = CHR ''_''" for c
    using that by (auto simp: is_letter_def is_digit_def py_is_space_def Let_def)
  from id have "\<forall>c \<in> set f. is_letter c \<or> is_digit c \<or> c = CHR ''_''" and "f \<noteq> []"
    by (auto simp: is_identifier_def list_all_iff split: list.splits)
  with c show ?thesis by (metis last_in_set)
qed

lemma parse_reference_roundtrip:
  assumes "node_id \<noteq> []" and "is_identifier fld"
  shows "parse_node_output_reference (''nodes.'' @ node_id @ ''.'' @ fld) = Some (node_id, fld)"
proof -
  let ?e = "''nodes.'' @ node_id @ ''.'' @ fld"
  from assms(2) have f: "fld \<noteq> []" "\<not> py_is_space (last fld)" "CHR ''.'' \<notin> set fld"
    by (simp_all add: identifier_last)
  have "last ?e = last fld" using f by simp
  moreover have "\<not> py_is_space (hd ?e)" by (simp add: py_is_space_def)
  ultimately have strip: "strip ?e = ?e" using f by (intro strip_id) auto
  have "drop 6 ?e = node_id @ CHR ''.'' # fld" by simp
  with strip f assms show ?thesis
    by (simp add: parse_node_output_reference_def rpartition_intro)
qed

lemma parse_reference_shape:
  assumes "parse_node_output_reference e = Some (node_id, fld)"
  shows "strip e = ''nodes.'' @ node_id @ ''.'' @ fld \<and> node_id \<noteq> [] \<and> is_identifier fld"
proof -
  from assms obtain t where c: "strip e = ''nodes.'' @ t"
    by (auto simp: parse_node_output_reference_def Let_def elim!: starts_withE split: if_splits)
  with assms have r: "rpartition CHR ''.'' t = Some (node_id, fld)"
    and ok: "node_id \<noteq> []" "is_identifier fld"
    by (auto simp: parse_node_output_reference_def Let_def split: if_splits option.splits)
  from rpartition_Some [OF r] c ok show ?thesis by auto
qed

end
