(* ===== verification/Workflow_Interpolate.thy ===== *)
theory Workflow_Interpolate
  imports Workflow_Outputs
begin

text \<open>
  \<open>app/domain/workflow_interpolate.py\<close>: rendering of \<open>${var}\<close>, \<open>${var | sql_in}\<close>,
  \<open>${var | csv}\<close> and \<open>${nodes.<id>.<field>}\<close> placeholders in a node payload.
\<close>

section \<open>Model\<close>

datatype var_value = VStr string | VList "string list"

type_synonym variables = "(string, var_value) dict"

datatype param_error =
    Unsupported_param_reference string
  | Unresolved_param_variable string
  | Unsupported_node_output_filter
  | Invalid_node_output_reference_in_param
  | Unsupported_param_filter string
  | List_variable_requires_filter string
  | Param_node_output node_output_error

text \<open>The pattern \<open>^-?\d+(?:\.\d+)?$\<close>.\<close>

definition is_numeric :: "string \<Rightarrow> bool" where
  "is_numeric s =
     (let t = (case s of c # r \<Rightarrow> if c = CHR ''-'' then r else s | [] \<Rightarrow> []);
          r = dropWhile is_digit t
      in takeWhile is_digit t \<noteq> [] \<and>
         (case r of [] \<Rightarrow> True
          | c # ds \<Rightarrow> c = CHR ''.'' \<and> ds \<noteq> [] \<and> list_all is_digit ds))"

definition resolve_variable ::
    "string \<Rightarrow> variables \<Rightarrow> string \<Rightarrow> (param_error, var_value) result" where
  "resolve_variable name vars expr =
     (if CHR ''.'' \<in> set name \<or> starts_with ''nodes'' name
      then Inl (Unsupported_param_reference expr)
      else case dict_get vars name of
             None \<Rightarrow> Inl (Unresolved_param_variable name)
           | Some v \<Rightarrow> Inr v)"

definition elements_of :: "var_value \<Rightarrow> string list" where
  "elements_of v = (case v of VStr s \<Rightarrow> [s] | VList xs \<Rightarrow> xs)"

definition escape_quotes :: "string \<Rightarrow> string" where
  "escape_quotes s = concat (map (\<lambda>c. if c = CHR 0x27 then [CHR 0x27, CHR 0x27] else [c]) s)"

definition sql_in_part :: "string \<Rightarrow> string" where
  "sql_in_part element =
     (if is_numeric element then element
      else CHR 0x27 # escape_quotes element @ [CHR 0x27])"

definition format_sql_in :: "var_value \<Rightarrow> string" where
  "format_sql_in v =
     (let elements = elements_of v in
      if elements = [] then ''NULL'' else join_str '', '' (map sql_in_part elements))"

definition format_csv :: "var_value \<Rightarrow> string" where
  "format_csv v = join_str '','' (elements_of v)"

definition render_hole ::
    "(pyfloat \<Rightarrow> string) \<Rightarrow> variables \<Rightarrow> node_output_map \<Rightarrow> string \<Rightarrow> (param_error, string) result" where
  "render_hole float_repr vars outs raw =
     (let expr = strip raw in
      if parse_node_output_reference expr \<noteq> None then
        (case resolve_node_output expr outs of
           Inl e \<Rightarrow> Inl (Param_node_output e)
         | Inr v \<Rightarrow> Inr (scalar_str float_repr v))
      else case rpartition CHR ''|'' expr of
        Some (raw_name, raw_filter) \<Rightarrow>
          (let name = strip raw_name; filter_name = strip raw_filter in
           if parse_node_output_reference name \<noteq> None then Inl Unsupported_node_output_filter
           else if starts_with ''nodes.'' name then Inl Invalid_node_output_reference_in_param
           else rbind (resolve_variable name vars expr) (\<lambda>v.
             if filter_name = ''sql_in'' then Inr (format_sql_in v)
             else if filter_name = ''csv'' then Inr (format_csv v)
             else Inl (Unsupported_param_filter expr)))
      | None \<Rightarrow>
          if starts_with ''nodes.'' expr then Inl Invalid_node_output_reference_in_param
          else rbind (resolve_variable expr vars expr) (\<lambda>v.
            case v of VList _ \<Rightarrow> Inl (List_variable_requires_filter expr) | VStr s \<Rightarrow> Inr s))"

definition render_piece ::
    "(pyfloat \<Rightarrow> string) \<Rightarrow> variables \<Rightarrow> node_output_map \<Rightarrow> piece \<Rightarrow> (param_error, string) result" where
  "render_piece float_repr vars outs p =
     (case p of Lit c \<Rightarrow> Inr [c] | Hole e \<Rightarrow> render_hole float_repr vars outs e)"

definition interpolate_str ::
    "(pyfloat \<Rightarrow> string) \<Rightarrow> variables \<Rightarrow> node_output_map \<Rightarrow> string \<Rightarrow> (param_error, pval) result" where
  "interpolate_str float_repr vars outs txt =
     (let substituted =
            rbind (map_r (render_piece float_repr vars outs) (pieces txt)) (\<lambda>ps. Inr (PStr (concat ps)))
      in case hole_at txt of
           Some (raw, []) \<Rightarrow>
             (let exact_expr = strip raw in
              if parse_node_output_reference exact_expr \<noteq> None then
                (case resolve_node_output exact_expr outs of
                   Inl e \<Rightarrow> Inl (Param_node_output e)
                 | Inr v \<Rightarrow> Inr (PScalar v))
              else substituted)
         | _ \<Rightarrow> substituted)"

fun interpolate_value ::
    "(pyfloat \<Rightarrow> string) \<Rightarrow> variables \<Rightarrow> node_output_map \<Rightarrow> pval \<Rightarrow> (param_error, pval) result" where
  "interpolate_value fr vars outs (PScalar (SStr s)) = interpolate_str fr vars outs s"
| "interpolate_value fr vars outs (PScalar v) = Inr (PScalar v)"
| "interpolate_value fr vars outs (PDict items) =
     rbind (map_r (\<lambda>(k, item). rbind (interpolate_value fr vars outs item) (\<lambda>v. Inr (k, v))) items)
       (\<lambda>kvs. Inr (PDict kvs))"
| "interpolate_value fr vars outs (PList items) =
     rbind (map_r (interpolate_value fr vars outs) items) (\<lambda>vs. Inr (PList vs))"

definition interpolate_payload ::
    "(pyfloat \<Rightarrow> string) \<Rightarrow> (string, pval) dict \<Rightarrow> variables \<Rightarrow> node_output_map
     \<Rightarrow> (param_error, (string, pval) dict) result" where
  "interpolate_payload fr payload vars outs =
     map_r (\<lambda>(k, v). rbind (interpolate_value fr vars outs v) (\<lambda>v'. Inr (k, v'))) payload"

section \<open>Errors carry names, never values\<close>

text \<open>
  Two environments that bind the same names to values of the same shape (both text or both
  lists) are indistinguishable to every error of the renderer.
\<close>

definition same_shape :: "variables \<Rightarrow> variables \<Rightarrow> bool" where
  "same_shape vs ws \<longleftrightarrow>
     (\<forall>k. rel_option (\<lambda>v w. (\<exists>xs. v = VList xs) \<longleftrightarrow> (\<exists>ys. w = VList ys)) (dict_get vs k) (dict_get ws k))"

abbreviation same_errors :: "('e, 'a) result \<Rightarrow> ('e, 'b) result \<Rightarrow> bool" where
  "same_errors \<equiv> rel_sum (=) (\<lambda>_ _. True)"

lemma same_errors_rbind:
  assumes "rel_sum (=) R r s" and "\<And>x y. R x y \<Longrightarrow> same_errors (f x) (g y)"
  shows "same_errors (rbind r f) (rbind s g)"
  using assms by (cases r; cases s) auto

lemma resolve_variable_shape:
  assumes "same_shape vs ws"
  shows "rel_sum (=) (\<lambda>v w. (\<exists>xs. v = VList xs) \<longleftrightarrow> (\<exists>ys. w = VList ys))
           (resolve_variable name vs expr) (resolve_variable name ws expr)"
proof -
  from assms have "rel_option (\<lambda>v w. (\<exists>xs. v = VList xs) \<longleftrightarrow> (\<exists>ys. w = VList ys))
      (dict_get vs name) (dict_get ws name)" by (simp add: same_shape_def)
  then show ?thesis
    by (cases "dict_get vs name"; cases "dict_get ws name") (auto simp: resolve_variable_def)
qed

lemma render_hole_shape:
  assumes "same_shape vs ws"
  shows "same_errors (render_hole fr vs outs raw) (render_hole fr ws outs raw)"
proof -
  note rv = resolve_variable_shape [OF assms]
  have plain: "same_errors
      (rbind (resolve_variable e vs e) (\<lambda>v. case v of VList _ \<Rightarrow> Inl (List_variable_requires_filter e) | VStr s \<Rightarrow> Inr s))
      (rbind (resolve_variable e ws e) (\<lambda>v. case v of VList _ \<Rightarrow> Inl (List_variable_requires_filter e) | VStr s \<Rightarrow> Inr s))"
    for e by (rule same_errors_rbind [OF rv]) (auto split: var_value.splits)
  have filt: "same_errors (rbind (resolve_variable n vs e) (\<lambda>v. if b then Inr (f v) else if c then Inr (g v) else Inl err))
      (rbind (resolve_variable n ws e) (\<lambda>v. if b then Inr (f v) else if c then Inr (g v) else Inl err))"
    for n e b c f g err by (rule same_errors_rbind [OF rv]) auto
  show ?thesis
    using plain filt
    by (auto simp: render_hole_def Let_def sum.rel_refl split: sum.split option.split prod.split)
qed

lemma interpolate_str_shape:
  assumes "same_shape vs ws"
  shows "same_errors (interpolate_str fr vs outs txt) (interpolate_str fr ws outs txt)"
proof -
  have "same_errors (render_piece fr vs outs p) (render_piece fr ws outs p)" for p
    using render_hole_shape [OF assms] by (auto simp: render_piece_def split: piece.split)
  then have "same_errors (map_r (render_piece fr vs outs) (pieces txt))
      (map_r (render_piece fr ws outs) (pieces txt))" by (intro map_r_rel)
  then have "same_errors
      (rbind (map_r (render_piece fr vs outs) (pieces txt)) (\<lambda>ps. Inr (PStr (concat ps))))
      (rbind (map_r (render_piece fr ws outs) (pieces txt)) (\<lambda>ps. Inr (PStr (concat ps))))"
    by (rule same_errors_rbind) simp
  then show ?thesis
    by (auto simp: interpolate_str_def Let_def sum.rel_refl
        split: option.split list.split sum.split prod.split)
qed

lemma interpolate_item_shape:
  assumes "same_errors (interpolate_value fr vs outs v) (interpolate_value fr ws outs v)"
  shows "same_errors (rbind (interpolate_value fr vs outs v) (\<lambda>v'. Inr (k, v')))
           (rbind (interpolate_value fr ws outs v) (\<lambda>v'. Inr (k, v')))"
  using assms by (rule same_errors_rbind) simp

lemma interpolate_value_shape:
  assumes "same_shape vs ws"
  shows "same_errors (interpolate_value fr vs outs v) (interpolate_value fr ws outs v)"
  using assms
proof (induction fr vs outs v rule: interpolate_value.induct)
  case (1 fr vars outs s)
  show ?case using interpolate_str_shape [OF 1] by simp
next
  case (3 fr vars outs items)
  have "same_errors (map_r (\<lambda>(k, item). rbind (interpolate_value fr vars outs item) (\<lambda>v. Inr (k, v))) items)
      (map_r (\<lambda>(k, item). rbind (interpolate_value fr ws outs item) (\<lambda>v. Inr (k, v))) items)"
  proof (rule map_r_rel)
    fix x assume "x \<in> set items"
    with 3 show "same_errors ((\<lambda>(k, item). rbind (interpolate_value fr vars outs item) (\<lambda>v. Inr (k, v))) x)
        ((\<lambda>(k, item). rbind (interpolate_value fr ws outs item) (\<lambda>v. Inr (k, v))) x)"
      by (cases x) (auto intro: interpolate_item_shape)
  qed
  then show ?case unfolding interpolate_value.simps by (rule same_errors_rbind) simp
next
  case (4 fr vars outs items)
  from 4 have "same_errors (map_r (interpolate_value fr vars outs) items)
      (map_r (interpolate_value fr ws outs) items)" by (intro map_r_rel) simp
  then show ?case unfolding interpolate_value.simps by (rule same_errors_rbind) simp
qed simp_all

text \<open>
  Payload rendering reports an error through names only: if two variable snapshots bind the
  same names to values of the same shape, then rendering any payload fails under the one exactly
  when it fails under the other, and with the same error.
\<close>

theorem interpolation_errors_independent_of_values:
  assumes "same_shape vs ws"
  shows "interpolate_payload fr payload vs outs = Inl e \<longleftrightarrow> interpolate_payload fr payload ws outs = Inl e"
proof -
  have "same_errors (interpolate_payload fr payload vs outs) (interpolate_payload fr payload ws outs)"
    unfolding interpolate_payload_def
    by (rule map_r_rel) (auto intro: interpolate_item_shape interpolate_value_shape [OF assms])
  then show ?thesis by (simp add: rel_sum_True_iff)
qed

section \<open>SQL literals are read back as the elements\<close>

text \<open>
  A reference reader of the body of \<open>IN (...)\<close>: items separated by a comma and a space, an item
  that starts with a quote extends to the first quote that is not doubled, any other item
  extends to the next comma.
\<close>

fun read_quoted :: "string \<Rightarrow> (string \<times> string) option" where
  "read_quoted [] = None"
| "read_quoted (c # s) =
     (if c \<noteq> CHR 0x27 then map_option (\<lambda>(t, r). (c # t, r)) (read_quoted s)
      else case s of
             d # s' \<Rightarrow> if d = CHR 0x27 then map_option (\<lambda>(t, r). (CHR 0x27 # t, r)) (read_quoted s')
                       else Some ([], s)
           | [] \<Rightarrow> Some ([], []))"

definition read_item :: "string \<Rightarrow> (string \<times> string) option" where
  "read_item s = (case s of
       c # r \<Rightarrow> if c = CHR 0x27 then read_quoted r
               else Some (takeWhile (\<lambda>x. x \<noteq> CHR '','') s, dropWhile (\<lambda>x. x \<noteq> CHR '','') s)
     | [] \<Rightarrow> None)"

fun read_items :: "nat \<Rightarrow> string \<Rightarrow> string list option" where
  "read_items 0 s = None"
| "read_items (Suc n) s = (case read_item s of
       None \<Rightarrow> None
     | Some (x, []) \<Rightarrow> Some [x]
     | Some (x, r) \<Rightarrow> if starts_with '', '' r then map_option (Cons x) (read_items n (drop 2 r)) else None)"

lemma read_quoted_escape:
  "(r = [] \<or> hd r \<noteq> CHR 0x27) \<Longrightarrow> read_quoted (escape_quotes e @ CHR 0x27 # r) = Some (e, r)"
proof (induction e)
  case Nil
  then show ?case by (cases r) (auto simp: escape_quotes_def)
next
  case (Cons c e)
  then show ?case by (auto simp: escape_quotes_def)
qed

lemma numeric_chars: "is_numeric e \<Longrightarrow> e \<noteq> [] \<and> CHR '','' \<notin> set e \<and> hd e \<noteq> CHR 0x27"
proof -
  assume n: "is_numeric e"
  define t where "t = (case e of c # r \<Rightarrow> if c = CHR ''-'' then r else e | [] \<Rightarrow> [])"
  from n have tw: "takeWhile is_digit t \<noteq> []"
    and dw: "case dropWhile is_digit t of [] \<Rightarrow> True
      | c # ds \<Rightarrow> c = CHR ''.'' \<and> ds \<noteq> [] \<and> list_all is_digit ds"
    by (simp_all add: is_numeric_def Let_def t_def)
  have dig: "is_digit c \<Longrightarrow> c \<noteq> CHR '','' \<and> c \<noteq> CHR 0x27" for c
    by (auto simp: is_digit_def)
  obtain d where d: "d = dropWhile is_digit t" by blast
  have "CHR '','' \<notin> set d"
    using dw dig unfolding d [symmetric] by (cases d) (auto simp: list_all_iff)
  then have "CHR '','' \<notin> set (dropWhile is_digit t)" by (simp add: d)
  moreover have "CHR '','' \<notin> set (takeWhile is_digit t)" using dig by (auto dest: set_takeWhileD)
  ultimately have t: "CHR '','' \<notin> set t" by (metis UnE set_append takeWhile_dropWhile_id)
  from tw have ht: "t \<noteq> []" "is_digit (hd t)" by (cases t; auto split: if_splits)+
  show ?thesis using t ht dig by (cases e) (auto simp: t_def split: if_splits)
qed

lemma read_item_part:
  "(r = [] \<or> hd r = CHR '','') \<Longrightarrow> read_item (sql_in_part e @ r) = Some (e, r)"
proof -
  assume r: "r = [] \<or> hd r = CHR '',''"
  show ?thesis
  proof (cases "is_numeric e")
    case True
    with numeric_chars have e: "e \<noteq> []" "CHR '','' \<notin> set e" "hd e \<noteq> CHR 0x27" by auto
    have all: "x \<noteq> CHR '',''" if "x \<in> set e" for x using e that by (metis)
    have "takeWhile (\<lambda>x. x \<noteq> CHR '','') (e @ r) = e @ takeWhile (\<lambda>x. x \<noteq> CHR '','') r"
      and "dropWhile (\<lambda>x. x \<noteq> CHR '','') (e @ r) = dropWhile (\<lambda>x. x \<noteq> CHR '','') r"
      using all by (simp_all add: takeWhile_append2 dropWhile_append2)
    with r have "takeWhile (\<lambda>x. x \<noteq> CHR '','') (e @ r) = e" "dropWhile (\<lambda>x. x \<noteq> CHR '','') (e @ r) = r"
      by (cases r; simp)+
    with e True show ?thesis by (cases e) (auto simp: read_item_def sql_in_part_def)
  next
    case False
    moreover have "r = [] \<or> hd r \<noteq> CHR 0x27" using r by auto
    ultimately show ?thesis
      using read_quoted_escape [of r e] by (simp add: read_item_def sql_in_part_def)
  qed
qed

lemma read_items_join:
  "es \<noteq> [] \<Longrightarrow> length es \<le> n \<Longrightarrow> read_items n (join_str '', '' (map sql_in_part es)) = Some es"
proof (induction es arbitrary: n)
  case (Cons e es)
  then obtain m where n: "n = Suc m" by (cases n) auto
  show ?case
  proof (cases es)
    case Nil
    with read_item_part [of "[]" e] n show ?thesis by simp
  next
    case (Cons e' es')
    let ?rest = "join_str '', '' (map sql_in_part es)"
    have j: "join_str '', '' (map sql_in_part (e # es)) = sql_in_part e @ '', '' @ ?rest"
      by (simp add: Cons)
    have "read_item (sql_in_part e @ '', '' @ ?rest) = Some (e, '', '' @ ?rest)"
      by (rule read_item_part) simp
    moreover have "read_items m ?rest = Some es" using Cons.IH [of m] Cons.prems n Cons by simp
    ultimately show ?thesis unfolding j n by (simp add: starts_with_def)
  qed
qed simp

text \<open>
  The \<open>sql_in\<close> filter cannot be escaped from: whatever the elements of a non-empty list
  variable are, reading the rendered body of \<open>IN (...)\<close> as a list of SQL literals gives back
  exactly these elements, so no element can end its literal and inject SQL.
\<close>

theorem format_sql_in_reads_back:
  assumes "es \<noteq> []"
  shows "read_items (length es) (format_sql_in (VList es)) = Some es"
  using assms by (simp add: format_sql_in_def elements_of_def read_items_join)

theorem format_sql_in_reads_back_witness:
  "read_items 2 (format_sql_in (VList [[CHR ''a'', CHR 0x27, CHR '';''], ''-12.5'']))
     = Some [[CHR ''a'', CHR 0x27, CHR '';''], ''-12.5'']"
  using format_sql_in_reads_back [of "[[CHR ''a'', CHR 0x27, CHR '';''], ''-12.5'']"]
  by (simp add: numeral_2_eq_2)

theorem interpolation_errors_independent_of_values_witness:
  "interpolate_payload (\<lambda>_. []) [(''q'', PStr ''${a}${b}'')] [(''a'', VStr ''secret'')] []
      = Inl (Unresolved_param_variable ''b'')
   \<and> interpolate_payload (\<lambda>_. []) [(''q'', PStr ''${a}${b}'')] [(''a'', VStr ''other'')] []
      = Inl (Unresolved_param_variable ''b'')"
proof -
  have shape: "same_shape [(''a'', VStr ''secret'')] [(''a'', VStr ''other'')]"
    by (simp add: same_shape_def)
  have "interpolate_payload (\<lambda>_. []) [(''q'', PStr ''${a}${b}'')] [(''a'', VStr ''secret'')] []
      = Inl (Unresolved_param_variable ''b'')"
    by code_simp
  with interpolation_errors_independent_of_values [OF shape, of "\<lambda>_. []" "[(''q'', PStr ''${a}${b}'')]" "[]"
      "Unresolved_param_variable ''b''"]
  show ?thesis by simp
qed

end
