(* ===== verification/Workflow_When.thy ===== *)
theory Workflow_When
  imports Workflow_Interpolate
begin

text \<open>
  \<open>app/domain/workflow_when.py\<close>: the evaluator of \<open>when\<close> conditions. The model follows the module:
  the built-in variables, the frozen snapshot of the run payload, the textual sugar, the
  interpolation, the AST whitelist and the interpreter. Python's expression grammar
  (\<open>ast.parse\<close>) is the argument \<open>parse\<close> of \<open>evaluate_when\<close>; the theorems hold for every such function.
\<close>

section \<open>Variables\<close>

text \<open>A point in time as \<open>datetime\<close> holds it; the offset from UTC is in minutes, if there is one.\<close>

record datetime =
  year :: nat
  month :: nat
  day :: nat
  hour :: nat
  minute :: nat
  second :: nat
  utc_offset :: "int option"

definition pad_left :: "nat \<Rightarrow> string \<Rightarrow> string" where
  "pad_left n s = replicate (n - length s) CHR ''0'' @ s"

definition date_isoformat :: "datetime \<Rightarrow> string" where
  "date_isoformat t = pad_left 4 (nat_str (year t)) @ ''-'' @ pad_left 2 (nat_str (month t)) @ ''-'' @
     pad_left 2 (nat_str (day t))"

definition offset_str :: "int option \<Rightarrow> string" where
  "offset_str off = (case off of None \<Rightarrow> []
     | Some m \<Rightarrow> (if m < 0 then ''-'' else ''+'') @ pad_left 2 (nat_str (nat (abs m) div 60)) @ '':'' @
                  pad_left 2 (nat_str (nat (abs m) mod 60)))"

definition isoformat_seconds :: "datetime \<Rightarrow> string" where
  "isoformat_seconds t = date_isoformat t @ ''T'' @ pad_left 2 (nat_str (hour t)) @ '':'' @
     pad_left 2 (nat_str (minute t)) @ '':'' @ pad_left 2 (nat_str (second t)) @ offset_str (utc_offset t)"

definition builtin_when_variables :: "datetime \<Rightarrow> variables" where
  "builtin_when_variables now =
     [(''today'', VStr (date_isoformat now)),
      (''now'', VStr (isoformat_seconds now)),
      (''year'', VStr (nat_str (year now))),
      (''month'', VStr (pad_left 2 (nat_str (month now)))),
      (''day'', VStr (pad_left 2 (nat_str (day now))))]"

text \<open>A snapshot value: a string or a list of strings. The key test holds by typing.\<close>

definition snapshot_value :: "pval \<Rightarrow> var_value option" where
  "snapshot_value v = (case v of
       PScalar (SStr s) \<Rightarrow> Some (VStr s)
     | PList xs \<Rightarrow> (if list_all (\<lambda>x. case x of PScalar (SStr _) \<Rightarrow> True | _ \<Rightarrow> False) xs
                    then Some (VList (map (\<lambda>x. case x of PScalar (SStr s) \<Rightarrow> s | _ \<Rightarrow> []) xs)) else None)
     | _ \<Rightarrow> None)"

definition when_variables_from_payload :: "(string, pval) dict \<Rightarrow> variables option" where
  "when_variables_from_payload payload = (case dict_get payload ''when_variables'' of
       Some (PDict raw) \<Rightarrow>
         (if list_all (\<lambda>(k, v). snapshot_value v \<noteq> None) raw
          then Some (map (\<lambda>(k, v). (k, the (snapshot_value v))) raw) else None)
     | _ \<Rightarrow> None)"

section \<open>Textual sugar\<close>

text \<open>\<open>s.replace(old, new)\<close> for a two-character \<open>old\<close>.\<close>

fun replace_pair :: "char \<Rightarrow> char \<Rightarrow> string \<Rightarrow> string \<Rightarrow> string" where
  "replace_pair a b new (c # d # s) =
     (if c = a \<and> d = b then new @ replace_pair a b new s else c # replace_pair a b new (d # s))"
| "replace_pair a b new s = s"

text \<open>The pattern \<open>(?<![=!<>])!(?!=)\<close>; \<open>prev\<close> is the character before, in the text searched.\<close>

fun sub_bang :: "char option \<Rightarrow> string \<Rightarrow> string" where
  "sub_bang prev [] = []"
| "sub_bang prev (c # s) =
     (if c = CHR ''!'' \<and> (case prev of None \<Rightarrow> True | Some p \<Rightarrow> p \<notin> set ''=!<>'') \<and>
         (case s of [] \<Rightarrow> True | n # _ \<Rightarrow> n \<noteq> CHR ''='')
      then '' not '' @ sub_bang (Some c) s
      else c # sub_bang (Some c) s)"

text \<open>Word characters of \<open>re\<close> below 256.\<close>

definition is_word :: "char \<Rightarrow> bool" where
  "is_word c \<longleftrightarrow> is_letter c \<or> is_digit c \<or> c = CHR ''_'' \<or>
     (let n = (of_char c :: nat) in
      n \<in> {170, 178, 179, 181, 185, 186, 188, 189, 190} \<or> (192 \<le> n \<and> n \<noteq> 215 \<and> n \<noteq> 247))"

text \<open>The pattern \<open>\bword\b\<close>.\<close>

function sub_word :: "string \<Rightarrow> string \<Rightarrow> bool \<Rightarrow> string \<Rightarrow> string" where
  "sub_word w new after_word [] = []"
| "sub_word w new after_word (c # s) =
     (if w \<noteq> [] \<and> \<not> after_word \<and> starts_with w (c # s) \<and>
         (case drop (length w) (c # s) of [] \<Rightarrow> True | n # _ \<Rightarrow> \<not> is_word n)
      then new @ sub_word w new (is_word (last w)) (drop (length w) (c # s))
      else c # sub_word w new (is_word c) s)"
  by pat_completeness auto

termination sub_word
  by (relation "measure (\<lambda>(w, new, aw, s). length s)") auto

definition sugar :: "string \<Rightarrow> string" where
  "sugar expression =
     sub_word ''false'' ''False'' False
       (sub_word ''true'' ''True'' False
         (sub_word ''null'' ''None'' False
           (sub_bang None
             (replace_pair CHR ''|'' CHR ''|'' '' or ''
               (replace_pair CHR ''&'' CHR ''&'' '' and '' expression)))))"

section \<open>Interpolation\<close>

datatype when_error =
    When_too_long
  | Invalid_when_syntax string
  | Forbidden_when_construct string
  | Unknown_when_variable string
  | List_variable_in_when string
  | Invalid_reference_in_when
  | When_node_output node_output_error
  | Invalid_when_operand string
  | Incomparable_when_operands

definition render_when_hole ::
    "(pyfloat \<Rightarrow> string) \<Rightarrow> variables \<Rightarrow> node_output_map \<Rightarrow> string \<Rightarrow> (when_error, string) result" where
  "render_when_hole float_repr vars outs body =
     (let name = strip body in
      if parse_node_output_reference name \<noteq> None
      then (case resolve_node_output name outs of
              Inl e \<Rightarrow> Inl (When_node_output e)
            | Inr v \<Rightarrow> Inr (scalar_repr float_repr v))
      else if starts_with ''nodes.'' name then Inl Invalid_reference_in_when
      else case dict_get vars name of
             None \<Rightarrow> Inl (Unknown_when_variable name)
           | Some (VList _) \<Rightarrow> Inl (List_variable_in_when name)
           | Some (VStr s) \<Rightarrow> Inr (repr_str s))"

definition render_when_piece ::
    "(pyfloat \<Rightarrow> string) \<Rightarrow> variables \<Rightarrow> node_output_map \<Rightarrow> piece \<Rightarrow> (when_error, string) result" where
  "render_when_piece float_repr vars outs p =
     (case p of Lit c \<Rightarrow> Inr [c] | Hole e \<Rightarrow> render_when_hole float_repr vars outs e)"

definition interpolate_when ::
    "(pyfloat \<Rightarrow> string) \<Rightarrow> variables \<Rightarrow> node_output_map \<Rightarrow> string \<Rightarrow> (when_error, string) result" where
  "interpolate_when float_repr vars outs expression =
     rbind (map_r (render_when_piece float_repr vars outs) (pieces expression)) (\<lambda>ps. Inr (concat ps))"

section \<open>Syntax trees and the whitelist\<close>

text \<open>
  Literals of an expression. \<open>Other\<close> is every node outside the four expression classes the
  evaluator knows, with its class name and its children in the order of \<open>ast.iter_child_nodes\<close>.
\<close>

datatype literal = Val scalar | Bytes string | Ellipsis_lit | Imag pyfloat

datatype bool_op = And_op | Or_op
datatype unary_op = Not_op | USub_op | UAdd_op | Invert_op
datatype cmp_op = Eq_op | NotEq_op | Lt_op | LtE_op | Gt_op | GtE_op | Is_op | IsNot_op | In_op | NotIn_op

datatype expr =
    Constant literal
  | BoolOp bool_op "expr list"
  | UnaryOp unary_op expr
  | Compare expr "(cmp_op \<times> expr) list"
  | Other string "expr list"

fun bool_op_name :: "bool_op \<Rightarrow> string" where
  "bool_op_name And_op = ''And''" | "bool_op_name Or_op = ''Or''"

fun unary_op_name :: "unary_op \<Rightarrow> string" where
  "unary_op_name Not_op = ''Not''" | "unary_op_name USub_op = ''USub''"
| "unary_op_name UAdd_op = ''UAdd''" | "unary_op_name Invert_op = ''Invert''"

fun cmp_op_name :: "cmp_op \<Rightarrow> string" where
  "cmp_op_name Eq_op = ''Eq''" | "cmp_op_name NotEq_op = ''NotEq''"
| "cmp_op_name Lt_op = ''Lt''" | "cmp_op_name LtE_op = ''LtE''"
| "cmp_op_name Gt_op = ''Gt''" | "cmp_op_name GtE_op = ''GtE''"
| "cmp_op_name Is_op = ''Is''" | "cmp_op_name IsNot_op = ''IsNot''"
| "cmp_op_name In_op = ''In''" | "cmp_op_name NotIn_op = ''NotIn''"

fun type_name :: "expr \<Rightarrow> string" where
  "type_name (Constant _) = ''Constant''"
| "type_name (BoolOp _ _) = ''BoolOp''"
| "type_name (UnaryOp _ _) = ''UnaryOp''"
| "type_name (Compare _ _) = ''Compare''"
| "type_name (Other n _) = n"

text \<open>The queue of \<open>ast.walk\<close> holds expressions and operator nodes (which have no children).\<close>

datatype walk_item = Expr expr | Operator string

fun child_nodes :: "walk_item \<Rightarrow> walk_item list" where
  "child_nodes (Operator _) = []"
| "child_nodes (Expr (Constant _)) = []"
| "child_nodes (Expr (BoolOp bop es)) = Operator (bool_op_name bop) # map Expr es"
| "child_nodes (Expr (UnaryOp uop e)) = [Operator (unary_op_name uop), Expr e]"
| "child_nodes (Expr (Compare l rs)) =
     Expr l # map (\<lambda>(c, _). Operator (cmp_op_name c)) rs @ map (\<lambda>(_, e). Expr e) rs"
| "child_nodes (Expr (Other _ es)) = map Expr es"

fun item_name :: "walk_item \<Rightarrow> string" where
  "item_name (Expr e) = type_name e"
| "item_name (Operator n) = n"

fun expr_weight :: "expr \<Rightarrow> nat" where
  "expr_weight (Constant _) = 1"
| "expr_weight (BoolOp _ es) = 2 + sum_list (map expr_weight es)"
| "expr_weight (UnaryOp _ e) = 2 + expr_weight e"
| "expr_weight (Compare l rs) = 1 + expr_weight l + sum_list (map (\<lambda>(_, e). 1 + expr_weight e) rs)"
| "expr_weight (Other _ es) = 1 + sum_list (map expr_weight es)"

fun item_weight :: "walk_item \<Rightarrow> nat" where
  "item_weight (Expr e) = expr_weight e"
| "item_weight (Operator _) = 1"

lemma child_weight: "sum_list (map item_weight (child_nodes i)) < item_weight i"
proof (cases i)
  case (Expr e)
  show ?thesis
  proof (cases e)
    case (Compare l rs)
    have "sum_list (map (item_weight \<circ> (\<lambda>(c, _). Operator (cmp_op_name c))) rs) +
          sum_list (map (item_weight \<circ> (\<lambda>(_, e). Expr e)) rs) =
          sum_list (map (\<lambda>(_, e). 1 + expr_weight e) rs)"
      by (induction rs) auto
    with Expr Compare show ?thesis by simp
  qed (simp_all add: Expr comp_def)
qed simp

text \<open>\<open>ast.walk\<close>: breadth first, children appended behind the queue.\<close>

function walk :: "walk_item list \<Rightarrow> walk_item list" where
  "walk [] = []"
| "walk (i # queue) = i # walk (queue @ child_nodes i)"
  by pat_completeness auto

termination walk
  by (relation "measure (\<lambda>q. sum_list (map item_weight q))") (use child_weight in auto)

definition ALLOWED_AST_NODES :: "string list" where
  "ALLOWED_AST_NODES =
     [''Expression'', ''BoolOp'', ''UnaryOp'', ''Compare'', ''Constant'', ''Load'', ''And'', ''Or'', ''Not'',
      ''Eq'', ''NotEq'', ''Lt'', ''LtE'', ''Gt'', ''GtE'', ''USub'', ''UAdd'']"

text \<open>The walk starts at the \<open>Expression\<close> node, whose only child is its body.\<close>

definition check_whitelist :: "expr \<Rightarrow> (when_error, unit) result" where
  "check_whitelist body =
     each_r (\<lambda>n. guard_r (n \<in> set ALLOWED_AST_NODES) (Forbidden_when_construct n))
       (''Expression'' # map item_name (walk [Expr body]))"

section \<open>The interpreter\<close>

definition truthy_literal :: "literal \<Rightarrow> bool" where
  "truthy_literal v = (case v of Val x \<Rightarrow> truthy x | Bytes b \<Rightarrow> b \<noteq> [] | Ellipsis_lit \<Rightarrow> True
     | Imag f \<Rightarrow> \<not> float_is_zero f)"

definition literal_eq :: "literal \<Rightarrow> literal \<Rightarrow> bool" where
  "literal_eq v w = (case (v, w) of
       (Val x, Val y) \<Rightarrow> scalar_eq x y
     | (Bytes x, Bytes y) \<Rightarrow> x = y
     | (Ellipsis_lit, Ellipsis_lit) \<Rightarrow> True
     | (Imag f, Imag g) \<Rightarrow> xnum_eq (float_num f) (float_num g)
     | (Imag f, Val y) \<Rightarrow> float_is_zero f \<and> scalar_eq y (SInt 0)
     | (Val x, Imag g) \<Rightarrow> float_is_zero g \<and> scalar_eq x (SInt 0)
     | _ \<Rightarrow> False)"

definition literal_less :: "literal \<Rightarrow> literal \<Rightarrow> bool option" where
  "literal_less v w = (case (v, w) of
       (Val x, Val y) \<Rightarrow> scalar_less x y
     | (Bytes x, Bytes y) \<Rightarrow> Some (str_less x y)
     | _ \<Rightarrow> None)"

definition literal_less_eq :: "literal \<Rightarrow> literal \<Rightarrow> bool option" where
  "literal_less_eq v w = (case (v, w) of
       (Val x, Val y) \<Rightarrow> scalar_less_eq x y
     | (Bytes x, Bytes y) \<Rightarrow> Some (str_less x y \<or> x = y)
     | _ \<Rightarrow> None)"

definition or_incomparable :: "bool option \<Rightarrow> (when_error, bool) result" where
  "or_incomparable r = (case r of None \<Rightarrow> Inl Incomparable_when_operands | Some b \<Rightarrow> Inr b)"

definition compare_values :: "cmp_op \<Rightarrow> literal \<Rightarrow> literal \<Rightarrow> (when_error, bool) result" where
  "compare_values c left right = (case c of
       Eq_op \<Rightarrow> Inr (literal_eq left right)
     | NotEq_op \<Rightarrow> Inr (\<not> literal_eq left right)
     | Lt_op \<Rightarrow> or_incomparable (literal_less left right)
     | LtE_op \<Rightarrow> or_incomparable (literal_less_eq left right)
     | Gt_op \<Rightarrow> or_incomparable (literal_less right left)
     | GtE_op \<Rightarrow> or_incomparable (literal_less_eq right left)
     | _ \<Rightarrow> Inl (Forbidden_when_construct (cmp_op_name c)))"

fun float_neg :: "pyfloat \<Rightarrow> pyfloat" where
  "float_neg (FFinite r) = (if r = 0 then FNegZero else FFinite (- r))"
| "float_neg FNegZero = FFinite 0"
| "float_neg FInf = FNegInf"
| "float_neg FNegInf = FInf"
| "float_neg FNan = FNan"

definition eval_unary :: "unary_op \<Rightarrow> literal \<Rightarrow> (when_error, literal) result" where
  "eval_unary uop operand = (case (uop, operand) of
       (Not_op, _) \<Rightarrow> Inr (Val (SBool (\<not> truthy_literal operand)))
     | (USub_op, Val (SBool b)) \<Rightarrow> Inr (Val (SInt (if b then - 1 else 0)))
     | (USub_op, Val (SInt i)) \<Rightarrow> Inr (Val (SInt (- i)))
     | (USub_op, Val (SFloat f)) \<Rightarrow> Inr (Val (SFloat (float_neg f)))
     | (UAdd_op, Val (SBool b)) \<Rightarrow> Inr (Val (SInt (if b then 1 else 0)))
     | (UAdd_op, Val (SInt i)) \<Rightarrow> Inr (Val (SInt i))
     | (UAdd_op, Val (SFloat f)) \<Rightarrow> Inr (Val (SFloat f))
     | _ \<Rightarrow> Inl (Invalid_when_operand (unary_op_name uop)))"

fun eval_node :: "expr \<Rightarrow> (when_error, literal) result"
  and eval_bool :: "bool_op \<Rightarrow> literal \<Rightarrow> expr list \<Rightarrow> (when_error, literal) result"
  and eval_compare :: "literal \<Rightarrow> (cmp_op \<times> expr) list \<Rightarrow> (when_error, literal) result" where
  "eval_node (Constant v) = Inr v"
| "eval_node (BoolOp bop es) = eval_bool bop (Val (SBool (bop = And_op))) es"
| "eval_node (UnaryOp uop e) = rbind (eval_node e) (eval_unary uop)"
| "eval_node (Compare l rs) = rbind (eval_node l) (\<lambda>left. eval_compare left rs)"
| "eval_node (Other n es) = Inl (Forbidden_when_construct n)"
| "eval_bool bop v [] = Inr v"
| "eval_bool bop v (e # es) =
     rbind (eval_node e) (\<lambda>value.
       if bop = And_op \<and> \<not> truthy_literal value then Inr value
       else if bop = Or_op \<and> truthy_literal value then Inr value
       else eval_bool bop value es)"
| "eval_compare left [] = Inr (Val (SBool True))"
| "eval_compare left ((c, e) # rs) =
     rbind (eval_node e) (\<lambda>right. rbind (compare_values c left right) (\<lambda>b.
       if \<not> b then Inr (Val (SBool False)) else eval_compare right rs))"

definition MAX_WHEN_LENGTH :: nat where
  "MAX_WHEN_LENGTH = 512"

definition evaluate_when ::
    "(pyfloat \<Rightarrow> string) \<Rightarrow> (string \<Rightarrow> string + expr) \<Rightarrow> string option \<Rightarrow> variables \<Rightarrow> node_output_map
     \<Rightarrow> (when_error, bool) result" where
  "evaluate_when float_repr parse expression vars outs = (case expression of
       None \<Rightarrow> Inr True
     | Some text \<Rightarrow>
         if strip text = [] then Inr True
         else if length text > MAX_WHEN_LENGTH then Inl When_too_long
         else rbind (interpolate_when float_repr vars outs (sugar text)) (\<lambda>rendered.
           case parse (strip rendered) of
             Inl msg \<Rightarrow> Inl (Invalid_when_syntax msg)
           | Inr body \<Rightarrow>
               rbind (check_whitelist body) (\<lambda>_.
               rbind (eval_node body) (\<lambda>v. Inr (truthy_literal v)))))"

section \<open>The whitelist and the interpreter agree\<close>

fun allowed_unary :: "unary_op \<Rightarrow> bool" where
  "allowed_unary Invert_op = False"
| "allowed_unary _ = True"

definition allowed_cmp :: "cmp_op \<Rightarrow> bool" where
  "allowed_cmp c \<longleftrightarrow> c \<in> set [Eq_op, NotEq_op, Lt_op, LtE_op, Gt_op, GtE_op]"

text \<open>Trees built from literals, \<open>and\<close>, \<open>or\<close>, \<open>not\<close>, signs and the six comparisons only.\<close>

fun literal_logic :: "expr \<Rightarrow> bool" where
  "literal_logic (Constant _) = True"
| "literal_logic (BoolOp _ es) = list_all literal_logic es"
| "literal_logic (UnaryOp u e) = (allowed_unary u \<and> literal_logic e)"
| "literal_logic (Compare l rs) =
     (literal_logic l \<and> list_all (\<lambda>(c, e). allowed_cmp c \<and> literal_logic e) rs)"
| "literal_logic (Other _ _) = False"

text \<open>
  What \<open>ast.parse\<close> guarantees of its trees: a node in expression position that is none of the
  four classes carries the name of another class.
\<close>

fun real_tree :: "expr \<Rightarrow> bool" where
  "real_tree (Constant _) = True"
| "real_tree (BoolOp _ es) = list_all real_tree es"
| "real_tree (UnaryOp u e) = real_tree e"
| "real_tree (Compare l rs) = (real_tree l \<and> list_all (\<lambda>(c, e). real_tree e) rs)"
| "real_tree (Other n _) = (n \<notin> set ALLOWED_AST_NODES)"

text \<open>Every item of the queue and all its descendants pass.\<close>

fun all_allowed :: "expr \<Rightarrow> bool" where
  "all_allowed (Constant _) = True"
| "all_allowed (BoolOp _ es) = list_all all_allowed es"
| "all_allowed (UnaryOp u e) = (allowed_unary u \<and> all_allowed e)"
| "all_allowed (Compare l rs) = (all_allowed l \<and> list_all (\<lambda>(c, e). allowed_cmp c \<and> all_allowed e) rs)"
| "all_allowed (Other n es) = (n \<in> set ALLOWED_AST_NODES \<and> list_all all_allowed es)"

fun item_allowed :: "walk_item \<Rightarrow> bool" where
  "item_allowed (Expr e) = all_allowed e"
| "item_allowed (Operator n) = (n \<in> set ALLOWED_AST_NODES)"

lemma op_names_allowed:
  shows bool_op_name_allowed: "bool_op_name b \<in> set ALLOWED_AST_NODES"
    and unary_op_name_allowed: "unary_op_name u \<in> set ALLOWED_AST_NODES \<longleftrightarrow> allowed_unary u"
    and cmp_op_name_allowed: "cmp_op_name c \<in> set ALLOWED_AST_NODES \<longleftrightarrow> allowed_cmp c"
proof -
  show "bool_op_name b \<in> set ALLOWED_AST_NODES"
    by (cases b) (simp_all add: ALLOWED_AST_NODES_def)
  show "unary_op_name u \<in> set ALLOWED_AST_NODES \<longleftrightarrow> allowed_unary u"
    by (cases u) (simp_all add: ALLOWED_AST_NODES_def)
  show "cmp_op_name c \<in> set ALLOWED_AST_NODES \<longleftrightarrow> allowed_cmp c"
    by (cases c) (simp_all add: ALLOWED_AST_NODES_def allowed_cmp_def)
qed

lemma list_all_pairs:
  "list_all (\<lambda>x. P x \<and> Q x) xs \<longleftrightarrow> list_all P xs \<and> list_all Q xs"
  by (induction xs) auto

lemma class_names_allowed:
  "''Expression'' \<in> set ALLOWED_AST_NODES" "''Constant'' \<in> set ALLOWED_AST_NODES"
  "''BoolOp'' \<in> set ALLOWED_AST_NODES" "''UnaryOp'' \<in> set ALLOWED_AST_NODES"
  "''Compare'' \<in> set ALLOWED_AST_NODES"
  by (simp_all add: ALLOWED_AST_NODES_def)

lemma item_allowed_step:
  "item_allowed i \<longleftrightarrow> item_name i \<in> set ALLOWED_AST_NODES \<and> list_all item_allowed (child_nodes i)"
proof (cases i)
  case (Expr e)
  then show ?thesis
    by (cases e) (simp_all add: class_names_allowed op_names_allowed list.pred_map comp_def
        case_prod_unfold list_all_pairs)
qed simp

lemma walk_allowed:
  "list_all (\<lambda>n. n \<in> set ALLOWED_AST_NODES) (map item_name (walk q)) \<longleftrightarrow> list_all item_allowed q"
proof (induction q rule: walk.induct)
  case (2 i queue)
  then show ?case using item_allowed_step [of i] by auto
qed simp

lemma check_whitelist_iff: "check_whitelist body = Inr u \<longleftrightarrow> all_allowed body"
  using walk_allowed [of "[Expr body]"]
  by (simp add: check_whitelist_def each_r_ok class_names_allowed list.pred_set del: walk.simps each_r.simps)

lemma all_allowed_real: "real_tree e \<Longrightarrow> all_allowed e \<longleftrightarrow> literal_logic e"
proof (induction e rule: literal_logic.induct)
  case (2 b es)
  then show ?case by (auto simp: list.pred_set)
next
  case (4 l rs)
  then show ?case by (fastforce simp: list.pred_set)
qed simp_all

lemma compare_values_allowed:
  "allowed_cmp c \<Longrightarrow> compare_values c l r \<noteq> Inl (Forbidden_when_construct n)"
  by (cases c) (simp_all add: allowed_cmp_def compare_values_def or_incomparable_def split: option.splits)

lemma eval_unary_errors: "eval_unary u v \<noteq> Inl (Forbidden_when_construct n)"
  by (cases u; cases v) (simp_all add: eval_unary_def split: scalar.splits)

lemma eval_no_forbidden:
  "literal_logic e \<Longrightarrow> eval_node e \<noteq> Inl (Forbidden_when_construct n)"
  "list_all literal_logic es \<Longrightarrow> eval_bool b v es \<noteq> Inl (Forbidden_when_construct n)"
  "list_all (\<lambda>(c, e). allowed_cmp c \<and> literal_logic e) rs \<Longrightarrow>
     eval_compare l rs \<noteq> Inl (Forbidden_when_construct n)"
  by (induction e and b v es and l rs rule: eval_node_eval_bool_eval_compare.induct)
     (auto simp: rbind_eq_Inl compare_values_allowed eval_unary_errors split: if_splits)

text \<open>
  C34. On every tree the Python parser can produce, the whitelist walk accepts exactly the trees
  built from literals, \<open>and\<close>/\<open>or\<close>/\<open>not\<close>, signs and the six comparisons, and on those the
  interpreter never meets a forbidden construct: what passes the walk is what the interpreter
  can execute, and names, calls, attributes or subscripts never reach it.
\<close>

theorem whitelist_matches_interpreter:
  assumes "real_tree body"
  shows "(check_whitelist body = Inr () \<longleftrightarrow> literal_logic body) \<and>
         (check_whitelist body = Inr () \<longrightarrow> (\<forall>n. eval_node body \<noteq> Inl (Forbidden_when_construct n)))"
  using assms eval_no_forbidden(1) by (simp add: check_whitelist_iff all_allowed_real)

theorem whitelist_matches_interpreter_witness:
  "real_tree (Other ''Call'' [Other ''Name'' [Other ''Load'' []]]) \<and>
   check_whitelist (Other ''Call'' [Other ''Name'' [Other ''Load'' []]]) \<noteq> Inr () \<and>
   check_whitelist (UnaryOp Not_op (Constant (Val (SInt 0)))) = Inr () \<and>
   eval_node (UnaryOp Not_op (Constant (Val (SInt 0)))) \<noteq> Inl (Forbidden_when_construct ''Not'')"
proof -
  have r: "real_tree (Other ''Call'' [Other ''Name'' [Other ''Load'' []]])"
    by (simp add: ALLOWED_AST_NODES_def)
  have "real_tree (UnaryOp Not_op (Constant (Val (SInt 0))))" by simp
  from whitelist_matches_interpreter [OF r] whitelist_matches_interpreter [OF this] r show ?thesis by simp
qed

section \<open>Meaning of the connectives\<close>

lemma eval_bool_and:
  "map_r eval_node es = Inr vs \<Longrightarrow>
   \<exists>r. eval_bool And_op v es = Inr r \<and> (es \<noteq> [] \<longrightarrow> truthy_literal r = list_all truthy_literal vs) \<and>
       (es = [] \<longrightarrow> r = v)"
proof (induction es arbitrary: v vs)
  case (Cons e es)
  from Cons.prems obtain x xs where x: "eval_node e = Inr x" "map_r eval_node es = Inr xs" "vs = x # xs"
    by (auto simp: rbind_eq_Inr)
  from Cons.IH [OF x(2), of x] obtain r where "eval_bool And_op x es = Inr r"
     "es \<noteq> [] \<longrightarrow> truthy_literal r = list_all truthy_literal xs" "es = [] \<longrightarrow> r = x" by blast
  moreover have "es = [] \<Longrightarrow> xs = []" using x(2) by simp
  ultimately show ?case using x by auto
qed simp

lemma eval_bool_or:
  "map_r eval_node es = Inr vs \<Longrightarrow>
   \<exists>r. eval_bool Or_op v es = Inr r \<and> (es \<noteq> [] \<longrightarrow> truthy_literal r = list_ex truthy_literal vs) \<and>
       (es = [] \<longrightarrow> r = v)"
proof (induction es arbitrary: v vs)
  case (Cons e es)
  from Cons.prems obtain x xs where x: "eval_node e = Inr x" "map_r eval_node es = Inr xs" "vs = x # xs"
    by (auto simp: rbind_eq_Inr)
  from Cons.IH [OF x(2), of x] obtain r where "eval_bool Or_op x es = Inr r"
     "es \<noteq> [] \<longrightarrow> truthy_literal r = list_ex truthy_literal xs" "es = [] \<longrightarrow> r = x" by blast
  moreover have "es = [] \<Longrightarrow> xs = []" using x(2) by simp
  ultimately show ?case using x by auto
qed simp

text \<open>Adjacent operands of a chain, each with the operator between them.\<close>

fun chain_steps :: "literal \<Rightarrow> (cmp_op \<times> literal) list \<Rightarrow> (cmp_op \<times> literal \<times> literal) list" where
  "chain_steps l [] = []"
| "chain_steps l ((c, r) # rs) = (c, l, r) # chain_steps r rs"

lemma eval_compare_chain:
  assumes "map_r (\<lambda>(c, e). eval_node e) rs = Inr vs"
    and "map_r (\<lambda>(c, l, r). compare_values c l r) (chain_steps left (zip (map fst rs) vs)) = Inr bs"
  shows "eval_compare left rs = Inr (Val (SBool (list_all id bs)))"
  using assms
proof (induction rs arbitrary: left vs bs)
  case (Cons p rs)
  obtain c e where p: "p = (c, e)" by (cases p)
  with Cons.prems(1) obtain x xs where x: "eval_node e = Inr x"
      "map_r (\<lambda>(c, e). eval_node e) rs = Inr xs" "vs = x # xs" by (auto simp: rbind_eq_Inr)
  with Cons.prems(2) p obtain b bs' where b: "compare_values c left x = Inr b" "bs = b # bs'"
     "map_r (\<lambda>(c, l, r). compare_values c l r) (chain_steps x (zip (map fst rs) xs)) = Inr bs'"
    by (auto simp: rbind_eq_Inr)
  from Cons.IH [OF x(2) b(3)] x(1) b(1,2) p show ?case by simp
qed simp

text \<open>
  The interpreter gives the connectives their meaning: when the operands evaluate, a
  conjunction is true iff all of them are, a disjunction iff one of them is, and a comparison
  chain iff every adjacent pair compares true.
\<close>

theorem when_connectives:
  assumes "map_r eval_node (e # es) = Inr vs"
    and "map_r eval_node (map snd rs) = Inr ws"
    and "map_r (\<lambda>(c, l, r). compare_values c l r) (chain_steps (hd vs) (zip (map fst rs) ws)) = Inr bs"
  shows "(\<exists>v. eval_node (BoolOp And_op (e # es)) = Inr v \<and> truthy_literal v = list_all truthy_literal vs) \<and>
         (\<exists>v. eval_node (BoolOp Or_op (e # es)) = Inr v \<and> truthy_literal v = list_ex truthy_literal vs) \<and>
         eval_node (Compare e rs) = Inr (Val (SBool (list_all id bs)))"
proof -
  have snd: "map_r eval_node (map snd rs) = map_r (\<lambda>(c, e). eval_node e) rs"
    by (induction rs) (auto split: prod.splits)
  from assms(1) obtain x xs where "eval_node e = Inr x" "vs = x # xs" by (auto simp: rbind_eq_Inr)
  with eval_compare_chain [of rs ws x bs] assms(2,3) snd
  have "eval_node (Compare e rs) = Inr (Val (SBool (list_all id bs)))" by simp
  then show ?thesis
    using eval_bool_and [OF assms(1)] eval_bool_or [OF assms(1)] by (simp del: eval_bool.simps)
qed

theorem when_connectives_witness:
  "map_r eval_node [Constant (Val (SInt 1)), Constant (Val (SInt 0))] = Inr [Val (SInt 1), Val (SInt 0)] \<and>
   (\<exists>v. eval_node (BoolOp And_op [Constant (Val (SInt 1)), Constant (Val (SInt 0))]) = Inr v \<and> \<not> truthy_literal v) \<and>
   eval_node (Compare (Constant (Val (SInt 1)))
     [(Lt_op, Constant (Val (SInt 2))), (Lt_op, Constant (Val (SInt 2)))]) = Inr (Val (SBool False))"
proof -
  have m: "map_r eval_node [Constant (Val (SInt 1)), Constant (Val (SInt 0))] = Inr [Val (SInt 1), Val (SInt 0)]"
    by simp
  have w: "map_r eval_node (map snd [(Lt_op, Constant (Val (SInt 2))), (Lt_op, Constant (Val (SInt 2)))]) =
      Inr [Val (SInt 2), Val (SInt 2)]" by simp
  have c: "map_r (\<lambda>(c, l, r). compare_values c l r) (chain_steps (hd [Val (SInt 1), Val (SInt 0)])
      (zip (map fst [(Lt_op, Constant (Val (SInt 2))), (Lt_op, Constant (Val (SInt 2)))]) [Val (SInt 2), Val (SInt 2)]))
      = Inr [True, False]"
    by (simp add: compare_values_def or_incomparable_def literal_less_def scalar_less_def scalar_num_def)
  from when_connectives [OF m w c] m show ?thesis
    by (simp add: truthy_literal_def del: eval_node.simps eval_bool.simps eval_compare.simps)
qed

section \<open>Variable values stay inside their literal\<close>

definition hex_value :: "char \<Rightarrow> nat option" where
  "hex_value c = (let n = of_char c in
     if 48 \<le> n \<and> n \<le> 57 then Some (n - 48) else if 97 \<le> n \<and> n \<le> 102 then Some (n - 87) else None)"

definition cons_char :: "char \<Rightarrow> (string \<times> string) option \<Rightarrow> (string \<times> string) option" where
  "cons_char c r = map_option (\<lambda>(s, rest). (c # s, rest)) r"

text \<open>
  Python's reading of a quoted string literal: its value and the text behind the closing quote.
  A raw line break ends the reading; escapes other than the ones below are not accepted.
\<close>

fun read_body :: "char \<Rightarrow> string \<Rightarrow> (string \<times> string) option" where
  "read_body q [] = None"
| "read_body q (c # s) =
     (if c = q then Some ([], s)
      else if c = CHR 0x0A \<or> c = CHR 0x0D then None
      else if c \<noteq> CHR 0x5C then cons_char c (read_body q s)
      else (case s of
              [] \<Rightarrow> None
            | e # r \<Rightarrow>
                if e = CHR 0x5C \<or> e = CHR 0x27 \<or> e = CHR 0x22 then cons_char e (read_body q r)
                else if e = CHR ''t'' then cons_char CHR 0x09 (read_body q r)
                else if e = CHR ''n'' then cons_char CHR 0x0A (read_body q r)
                else if e = CHR ''r'' then cons_char CHR 0x0D (read_body q r)
                else if e = CHR ''x'' then
                  (case r of
                     h # l # r' \<Rightarrow>
                       (case (hex_value h, hex_value l) of
                          (Some a, Some b) \<Rightarrow> cons_char (char_of (16 * a + b)) (read_body q r')
                        | _ \<Rightarrow> None)
                   | _ \<Rightarrow> None)
                else None))"

definition read_literal :: "string \<Rightarrow> (string \<times> string) option" where
  "read_literal s = (case s of
       [] \<Rightarrow> None
     | q # r \<Rightarrow> if q = CHR 0x27 \<or> q = CHR 0x22 then read_body q r else None)"

lemma cons_char_Some [simp]: "cons_char c (Some (s, r)) = Some (c # s, r)"
  by (simp add: cons_char_def)

lemma hex_value_digit: "n < 16 \<Longrightarrow> hex_value (hex_digit n) = Some n"
  by (auto simp: hex_value_def hex_digit_def Let_def of_char_of)

lemma read_body_plain:
  "c \<noteq> q \<Longrightarrow> of_char c \<notin> {10, 13, 92 :: nat} \<Longrightarrow> read_body q (c # s) = cons_char c (read_body q s)"
  by auto

lemma code_points:
  fixes c :: char
  shows "of_char c = (92 :: nat) \<Longrightarrow> c = CHR 0x5C" "of_char c = (9 :: nat) \<Longrightarrow> c = CHR 0x09"
    "of_char c = (10 :: nat) \<Longrightarrow> c = CHR 0x0A" "of_char c = (13 :: nat) \<Longrightarrow> c = CHR 0x0D"
  by (rule of_char_eqI [where ?'a = nat], simp)+

lemma read_body_repr_char:
  assumes "q = CHR 0x27 \<or> q = CHR 0x22"
  shows "read_body q (repr_char q c @ rest) = cons_char c (read_body q rest)"
proof -
  let ?n = "of_char c :: nat"
  have small: "?n < 256" by simp
  have inv_code: "char_of ?n = c" by simp
  consider (quoted) "c = q \<or> ?n = 92" | (tab) "c \<noteq> q" "?n = 9" | (lf) "c \<noteq> q" "?n = 10"
    | (cr) "c \<noteq> q" "?n = 13"
    | (hex) "c \<noteq> q" "?n \<notin> {92, 9, 10, 13}" "non_printable ?n"
    | (plain) "c \<noteq> q" "?n \<notin> {92, 9, 10, 13}" "\<not> non_printable ?n" by auto
  then show ?thesis
  proof cases
    case quoted
    then have "c = CHR 0x27 \<or> c = CHR 0x22 \<or> c = CHR 0x5C"
      using assms code_points by blast
    with quoted assms show ?thesis by (auto simp: repr_char_def)
  next
    case tab
    then have "c = CHR 0x09" using code_points by blast
    with assms show ?thesis by (auto simp: repr_char_def)
  next
    case lf
    then have "c = CHR 0x0A" using code_points by blast
    with assms show ?thesis by (auto simp: repr_char_def)
  next
    case cr
    then have "c = CHR 0x0D" using code_points by blast
    with assms show ?thesis by (auto simp: repr_char_def)
  next
    case hex
    have hex_pair: "hex_value (hex_digit (?n div 16)) = Some (?n div 16)"
      "hex_value (hex_digit (?n mod 16)) = Some (?n mod 16)"
      using small by (simp_all add: hex_value_digit less_mult_imp_div_less)
    have "16 * (?n div 16) + ?n mod 16 = ?n" by simp
    then have code: "char_of (16 * (?n div 16) + ?n mod 16) = c" using inv_code by metis
    have "repr_char q c = [CHR 0x5C, CHR ''x'', hex_digit (?n div 16), hex_digit (?n mod 16)]"
      using hex by (simp add: repr_char_def Let_def)
    with assms show ?thesis by (elim disjE) (simp_all only: append_Cons append_Nil read_body.simps, simp_all add: hex_pair code)
  next
    case plain
    then have "repr_char q c = [c]" by (simp add: repr_char_def Let_def)
    with plain read_body_plain [of c q rest] show ?thesis by simp
  qed
qed

lemma read_body_repr:
  assumes "q = CHR 0x27 \<or> q = CHR 0x22"
  shows "read_body q (concat (map (repr_char q) s) @ q # rest) = Some (s, rest)"
proof (induction s)
  case (Cons c s)
  then show ?case using read_body_repr_char [OF assms, of c] by simp
qed simp

lemma read_literal_repr: "read_literal (repr_str s @ rest) = Some (s, rest)"
  by (simp add: read_literal_def repr_str_def Let_def read_body_repr del: read_body.simps)

text \<open>The string a placeholder stands for, if it names a string variable or a string output.\<close>

definition hole_string :: "variables \<Rightarrow> node_output_map \<Rightarrow> string \<Rightarrow> string option" where
  "hole_string vars outs body = (let name = strip body in
     if parse_node_output_reference name \<noteq> None
     then (case resolve_node_output name outs of Inr (SStr s) \<Rightarrow> Some s | _ \<Rightarrow> None)
     else (case dict_get vars name of Some (VStr s) \<Rightarrow> Some s | _ \<Rightarrow> None))"

definition piece_reads :: "variables \<Rightarrow> node_output_map \<Rightarrow> piece \<Rightarrow> string \<Rightarrow> bool" where
  "piece_reads vars outs p text \<longleftrightarrow> (case p of
       Lit c \<Rightarrow> text = [c]
     | Hole body \<Rightarrow> (\<forall>s rest. hole_string vars outs body = Some s \<longrightarrow> read_literal (text @ rest) = Some (s, rest)))"

lemma render_when_piece_reads:
  "render_when_piece fr vars outs p = Inr text \<Longrightarrow> piece_reads vars outs p text"
proof (cases p)
  case (Hole body)
  assume "render_when_piece fr vars outs p = Inr text"
  then have "render_when_hole fr vars outs body = Inr text" by (simp add: render_when_piece_def Hole)
  then show ?thesis
    by (auto simp: piece_reads_def Hole render_when_hole_def hole_string_def Let_def scalar_repr_def
        read_literal_repr split: if_splits sum.splits option.splits var_value.splits scalar.splits)
qed (simp add: render_when_piece_def piece_reads_def)



section \<open>The sugar also rewrites placeholders\<close>

text \<open>
  The textual sugar is applied to the whole template, the placeholders included. A node
  whose id holds the word \<open>null\<close> between non-word characters can be referenced by the output
  resolver but not from a condition, whatever the parser does: the reference is rewritten to
  another id and the evaluation fails.
\<close>

theorem sugar_rewrites_node_reference:
  "resolve_node_output ''nodes.load-null.status'' [(''load-null'', [(''status'', PStr ''success'')])] = Inr (SStr ''success'') \<and>
   evaluate_when float_repr parse (Some ''${nodes.load-null.status}'') vars
     [(''load-null'', [(''status'', PStr ''success'')])] = Inl (When_node_output Unresolved_node_output)"
proof -
  have s: "sugar ''${nodes.load-null.status}'' = ''${nodes.load-None.status}''"
    by code_simp
  have h: "pieces ''${nodes.load-None.status}'' = [Hole ''nodes.load-None.status'']"
    by code_simp
  have p: "parse_node_output_reference (strip ''nodes.load-None.status'') \<noteq> None" by code_simp
  have r: "resolve_node_output (strip ''nodes.load-None.status'') [(''load-null'', [(''status'', PStr ''success'')])]
      = Inl Unresolved_node_output" by code_simp
  have q: "resolve_node_output ''nodes.load-null.status'' [(''load-null'', [(''status'', PStr ''success'')])] = Inr (SStr ''success'')"
    by code_simp
  have l: "strip ''${nodes.load-null.status}'' \<noteq> []" "\<not> length ''${nodes.load-null.status}'' > MAX_WHEN_LENGTH"
    by code_simp+
  have "interpolate_when float_repr vars [(''load-null'', [(''status'', PStr ''success'')])] ''${nodes.load-None.status}''
      = Inl (When_node_output Unresolved_node_output)"
    unfolding interpolate_when_def h render_when_piece_def render_when_hole_def Let_def map_r.simps
    by (simp only: p r if_True piece.case sum.case rbind_simps simp_thms)
  with s q l show ?thesis by (simp only: evaluate_when_def option.case if_False rbind_simps simp_thms)
qed

end
