(* ===== verification/Workflow_Spec.thy ===== *)
theory Workflow_Spec
  imports Workflow_Topo Workflow_When
begin

text \<open>
  \<open>app/domain/workflow.py\<close> and \<open>app/domain/notify.py\<close>: the workflow definition and every check made
  when one is constructed. Values are typed as the Pydantic fields declare them; the field bounds
  and the validators are the functions below, and a failed check is an error value. Where Pydantic
  would report several failed fields at once, the model reports the first. Shown: validation
  accepts exactly the declaratively well-formed definitions, and never fails for want of a key.
\<close>

section \<open>Data\<close>

datatype on_failure = Abort | Continue | Branch_route

datatype trigger = Success_edge | Failure_edge

record retry_policy =
  max_retries :: int
  backoff_seconds :: int

record workflow_node =
  node_id :: string
  job_kind :: string
  node_payload :: "(string, pval) dict"
  node_retry_policy :: "retry_policy option"
  node_timeout_seconds :: int
  node_on_failure :: on_failure
  node_when :: "string option"

record workflow_edge =
  edge_source :: string
  edge_target :: string
  edge_trigger :: trigger
  edge_when :: "string option"
  is_default :: bool

record cron_schedule =
  cron :: string
  cron_enabled :: bool

record sensor_trigger =
  sensor_sql :: string
  sensor_datasource_id :: string
  check_interval_seconds :: int
  cooldown_seconds :: int
  sensor_enabled :: bool

datatype notify_channel = Webhook | Wecom | Email

record notify_target =
  target_id :: string
  channel :: notify_channel
  url_secret_ref :: "string option"
  smtp_host :: "string option"
  smtp_port :: int
  smtp_from :: "string option"
  smtp_to :: "string list"
  smtp_user :: "string option"
  password_secret_ref :: "string option"
  events :: "string list"
  target_enabled :: bool
  target_timeout_seconds :: int

record workflow_spec =
  nodes :: "workflow_node list"
  edges :: "workflow_edge list"
  schedule :: "cron_schedule option"
  sensor :: "sensor_trigger option"
  notifications :: "notify_target list"
  spec_variables :: "(string, pval) dict"

datatype spec_error =
    Field_bounds string
  | Invalid_variable_name string
  | Variable_collides_builtin string
  | Variable_value_too_long string
  | Unsafe_variable_value string
  | Variable_list_too_long string
  | Invalid_variable_value string
  | Too_many_variables
  | Invalid_cron
  | Invalid_sensor_datasource
  | Invalid_node_id
  | Forbidden_node_kind string
  | Unsupported_node_kind string
  | Invalid_when
  | Invalid_edge_when
  | Invalid_payload string
  | Invalid_notify_target_id
  | Invalid_notify_events
  | Invalid_email_target
  | Invalid_url_secret_ref
  | Duplicate_node_id string
  | Unknown_edge_node string
  | Self_loop string
  | Duplicate_edge string string
  | Cycle_in_dag "string list"
  | Invalid_output_reference
  | Unknown_node_output
  | Forbidden_output_field
  | Non_upstream_node_output
  | Invalid_routes string
  | Conditional_edge_requires_branch string
  | Missing_failure_route string
  | Failure_edge_requires_branch string
  | Duplicate_notify_target_id string
  | Unknown_notify_target string string
  | Spec_runtime dag_error

section \<open>Constants\<close>

definition ALLOWED_WORKFLOW_NODE_KINDS :: "string list" where
  "ALLOWED_WORKFLOW_NODE_KINDS =
     [''sql_query'', ''sql_explain'', ''compare_run'', ''scenario_materialize'', ''scenario_run_all'',
      ''lineage_analyze'', ''export_excel'', ''notify'', ''sleep'', ''branch'']"

definition SUPPORTED_WORKFLOW_NODE_KINDS_V1 :: "string list" where
  "SUPPORTED_WORKFLOW_NODE_KINDS_V1 =
     [''sql_query'', ''sql_explain'', ''compare_run'', ''lineage_analyze'', ''export_excel'', ''notify'',
      ''sleep'', ''branch'']"

definition BUILTIN_VARIABLE_NAMES :: "string list" where
  "BUILTIN_VARIABLE_NAMES = [''today'', ''now'', ''year'', ''month'', ''day'']"

definition MAX_WORKFLOW_DDL_TEXT_CHARS :: nat where "MAX_WORKFLOW_DDL_TEXT_CHARS = 65536"
definition MAX_WORKFLOW_NODES :: nat where "MAX_WORKFLOW_NODES = 50"
definition MAX_RETRIES_LIMIT :: int where "MAX_RETRIES_LIMIT = 5"
definition MAX_BACKOFF_SECONDS :: int where "MAX_BACKOFF_SECONDS = 3600"
definition MIN_SENSOR_INTERVAL_SECONDS :: int where "MIN_SENSOR_INTERVAL_SECONDS = 10"
definition MAX_SENSOR_INTERVAL_SECONDS :: int where "MAX_SENSOR_INTERVAL_SECONDS = 86400"
definition MAX_SENSOR_COOLDOWN_SECONDS :: int where "MAX_SENSOR_COOLDOWN_SECONDS = 604800"
definition MAX_SENSOR_SQL_LENGTH :: nat where "MAX_SENSOR_SQL_LENGTH = 10000"
definition MAX_WORKFLOW_VARIABLES :: nat where "MAX_WORKFLOW_VARIABLES = 32"
definition MAX_VARIABLE_VALUE_LENGTH :: nat where "MAX_VARIABLE_VALUE_LENGTH = 512"
definition MAX_VARIABLE_LIST_LENGTH :: nat where "MAX_VARIABLE_LIST_LENGTH = 256"

section \<open>Workflow variables\<close>

text \<open>The pattern \<open>^[A-Za-z0-9_.:-]*$\<close>.\<close>

definition safe_char :: "char \<Rightarrow> bool" where
  "safe_char c \<longleftrightarrow> is_letter c \<or> is_digit c \<or> c \<in> set ''_.:-''"

definition validate_scalar_value :: "string \<Rightarrow> string \<Rightarrow> (spec_error, unit) result" where
  "validate_scalar_value name value =
     (if length value > MAX_VARIABLE_VALUE_LENGTH then Inl (Variable_value_too_long name)
      else if \<not> list_all safe_char value \<or> contains ''--'' value then Inl (Unsafe_variable_value name)
      else Inr ())"

definition validate_element :: "string \<Rightarrow> pval \<Rightarrow> (spec_error, string) result" where
  "validate_element name element = (case element of
       PScalar (SStr s) \<Rightarrow> rbind (validate_scalar_value name s) (\<lambda>_. Inr s)
     | _ \<Rightarrow> Inl (Invalid_variable_value name))"

definition validate_variable :: "string \<times> pval \<Rightarrow> (spec_error, string \<times> var_value) result" where
  "validate_variable item = (case item of (name, value) \<Rightarrow>
     if \<not> is_identifier name then Inl (Invalid_variable_name name)
     else if name \<in> set BUILTIN_VARIABLE_NAMES then Inl (Variable_collides_builtin name)
     else (case value of
             PScalar (SStr s) \<Rightarrow> rbind (validate_scalar_value name s) (\<lambda>_. Inr (name, VStr s))
           | PList xs \<Rightarrow>
               (if length xs > MAX_VARIABLE_LIST_LENGTH then Inl (Variable_list_too_long name)
                else rbind (map_r (validate_element name) xs) (\<lambda>ss. Inr (name, VList ss)))
           | _ \<Rightarrow> Inl (Invalid_variable_value name)))"

definition validate_workflow_variables :: "(string, pval) dict \<Rightarrow> (spec_error, variables) result" where
  "validate_workflow_variables vars =
     (if length vars > MAX_WORKFLOW_VARIABLES then Inl Too_many_variables
      else map_r validate_variable vars)"

section \<open>Field validators\<close>

definition validate_retry_policy :: "retry_policy \<Rightarrow> (spec_error, unit) result" where
  "validate_retry_policy p =
     rbind (guard_r (0 \<le> max_retries p \<and> max_retries p \<le> MAX_RETRIES_LIMIT) (Field_bounds ''max_retries'')) (\<lambda>_.
     guard_r (0 \<le> backoff_seconds p \<and> backoff_seconds p \<le> MAX_BACKOFF_SECONDS) (Field_bounds ''backoff_seconds''))"

text \<open>The pattern \<open>^[0-9*,\-/]+$\<close>; the library's own parser is the argument.\<close>

definition cron_field_ok :: "string \<Rightarrow> bool" where
  "cron_field_ok f \<longleftrightarrow> f \<noteq> [] \<and> list_all (\<lambda>c. is_digit c \<or> c \<in> set ''*,-/'') f"

definition validate_cron :: "(string \<Rightarrow> bool) \<Rightarrow> cron_schedule \<Rightarrow> (spec_error, unit) result" where
  "validate_cron croniter_is_valid s = (let fields = split_ws (cron s) in
     guard_r (length fields = 5 \<and> list_all cron_field_ok fields \<and> croniter_is_valid (cron s)) Invalid_cron)"

definition validate_sensor :: "sensor_trigger \<Rightarrow> (spec_error, unit) result" where
  "validate_sensor s =
     rbind (guard_r (1 \<le> length (sensor_sql s) \<and> length (sensor_sql s) \<le> MAX_SENSOR_SQL_LENGTH) (Field_bounds ''sql'')) (\<lambda>_.
     rbind (guard_r (1 \<le> length (sensor_datasource_id s)) (Field_bounds ''datasource_id'')) (\<lambda>_.
     rbind (guard_r (strip (sensor_datasource_id s) \<noteq> []) Invalid_sensor_datasource) (\<lambda>_.
     rbind (guard_r (MIN_SENSOR_INTERVAL_SECONDS \<le> check_interval_seconds s \<and>
                     check_interval_seconds s \<le> MAX_SENSOR_INTERVAL_SECONDS) (Field_bounds ''check_interval_seconds'')) (\<lambda>_.
     guard_r (0 \<le> cooldown_seconds s \<and> cooldown_seconds s \<le> MAX_SENSOR_COOLDOWN_SECONDS)
       (Field_bounds ''cooldown_seconds'')))))"

definition sleep_payload_ok :: "(string, pval) dict \<Rightarrow> bool" where
  "sleep_payload_ok payload \<longleftrightarrow> set (dict_keys payload) = {''duration_seconds''} \<and>
     (case dict_get payload ''duration_seconds'' of
        Some (PScalar (SInt d)) \<Rightarrow> 1 \<le> d \<and> d \<le> 86400
      | _ \<Rightarrow> False)"

definition ddl_payload_ok :: "(string, pval) dict \<Rightarrow> bool" where
  "ddl_payload_ok payload \<longleftrightarrow> (case dict_get payload ''ddl_text'' of
       None \<Rightarrow> True
     | Some (PScalar SNone) \<Rightarrow> True
     | Some (PScalar (SStr s)) \<Rightarrow> length s \<le> MAX_WORKFLOW_DDL_TEXT_CHARS
     | _ \<Rightarrow> False)"

definition string_items :: "pval list \<Rightarrow> string list" where
  "string_items xs = concat (map (\<lambda>x. case x of PScalar (SStr s) \<Rightarrow> [s] | _ \<Rightarrow> []) xs)"

definition is_nonblank_str :: "pval \<Rightarrow> bool" where
  "is_nonblank_str x \<longleftrightarrow> (case x of PScalar (SStr s) \<Rightarrow> strip s \<noteq> [] | _ \<Rightarrow> False)"

definition notify_payload_ok :: "(string, pval) dict \<Rightarrow> bool" where
  "notify_payload_ok payload \<longleftrightarrow>
     set (dict_keys payload) \<subseteq> {''target_ids'', ''message''} \<and>
     (case dict_get payload ''target_ids'' of
        Some (PList xs) \<Rightarrow> 1 \<le> length xs \<and> length xs \<le> 10 \<and> list_all is_nonblank_str xs \<and>
                           card (set (string_items xs)) = length xs
      | _ \<Rightarrow> False) \<and>
     (case dict_get payload ''message'' of
        None \<Rightarrow> True
      | Some (PScalar SNone) \<Rightarrow> True
      | Some (PScalar (SStr s)) \<Rightarrow> length s \<le> 512
      | _ \<Rightarrow> False)"

definition validate_intrinsic_payload :: "workflow_node \<Rightarrow> (spec_error, unit) result" where
  "validate_intrinsic_payload n =
     (if job_kind n = ''branch'' then guard_r (node_payload n = []) (Invalid_payload ''branch'')
      else if job_kind n = ''sleep'' then guard_r (sleep_payload_ok (node_payload n)) (Invalid_payload ''sleep'')
      else rbind (guard_r (job_kind n = ''lineage_analyze'' \<longrightarrow> ddl_payload_ok (node_payload n))
                    (Invalid_payload ''lineage_analyze'')) (\<lambda>_.
           guard_r (job_kind n = ''notify'' \<longrightarrow> notify_payload_ok (node_payload n)) (Invalid_payload ''notify'')))"

definition validate_optional_when :: "spec_error \<Rightarrow> string option \<Rightarrow> (spec_error, unit) result" where
  "validate_optional_when e w = (case w of
       None \<Rightarrow> Inr ()
     | Some s \<Rightarrow> rbind (guard_r (length s \<le> MAX_WHEN_LENGTH) (Field_bounds ''when'')) (\<lambda>_.
                 guard_r (strip s \<noteq> []) e))"

definition validate_node :: "workflow_node \<Rightarrow> (spec_error, unit) result" where
  "validate_node n =
     rbind (guard_r (strip (node_id n) \<noteq> []) Invalid_node_id) (\<lambda>_.
     rbind (guard_r (job_kind n \<in> set ALLOWED_WORKFLOW_NODE_KINDS) (Forbidden_node_kind (job_kind n))) (\<lambda>_.
     rbind (guard_r (job_kind n \<in> set SUPPORTED_WORKFLOW_NODE_KINDS_V1) (Unsupported_node_kind (job_kind n))) (\<lambda>_.
     rbind (case node_retry_policy n of None \<Rightarrow> Inr () | Some p \<Rightarrow> validate_retry_policy p) (\<lambda>_.
     rbind (guard_r (1 \<le> node_timeout_seconds n) (Field_bounds ''timeout_seconds'')) (\<lambda>_.
     rbind (validate_optional_when Invalid_when (node_when n)) (\<lambda>_.
     validate_intrinsic_payload n))))))"

definition validate_edge :: "workflow_edge \<Rightarrow> (spec_error, unit) result" where
  "validate_edge e = validate_optional_when Invalid_edge_when (edge_when e)"

definition blank :: "string option \<Rightarrow> bool" where
  "blank v \<longleftrightarrow> (case v of None \<Rightarrow> True | Some s \<Rightarrow> strip s = [])"

definition validate_notify_target :: "notify_target \<Rightarrow> (spec_error, unit) result" where
  "validate_notify_target t =
     rbind (guard_r (strip (target_id t) \<noteq> []) Invalid_notify_target_id) (\<lambda>_.
     rbind (guard_r (1 \<le> smtp_port t \<and> smtp_port t \<le> 65535) (Field_bounds ''smtp_port'')) (\<lambda>_.
     rbind (guard_r (list_all (\<lambda>e. e \<in> set [''success'', ''failed'', ''timeout'', ''cancelled'', ''all'']) (events t))
              (Field_bounds ''events'')) (\<lambda>_.
     rbind (guard_r (events t \<noteq> []) Invalid_notify_events) (\<lambda>_.
     rbind (guard_r (1 \<le> target_timeout_seconds t \<and> target_timeout_seconds t \<le> 60) (Field_bounds ''timeout_seconds'')) (\<lambda>_.
     if channel t = Email
     then guard_r (\<not> blank (smtp_host t) \<and> \<not> blank (smtp_from t) \<and> smtp_to t \<noteq> []) Invalid_email_target
     else guard_r (\<not> blank (url_secret_ref t)) Invalid_url_secret_ref)))))"

definition accepts :: "notify_target \<Rightarrow> string \<Rightarrow> bool" where
  "accepts t run_status \<longleftrightarrow> ''all'' \<in> set (events t) \<or> run_status \<in> set (events t)"

section \<open>The DAG validator\<close>

definition lift_dag :: "(dag_error, 'a) result \<Rightarrow> (spec_error, 'a) result" where
  "lift_dag r = (case r of Inl e \<Rightarrow> Inl (Spec_runtime e) | Inr x \<Rightarrow> Inr x)"

text \<open>A loop that collects ids into a set and stops at the first one already there.\<close>

definition add_unique :: "('a \<Rightarrow> spec_error) \<Rightarrow> 'a set \<Rightarrow> 'a \<Rightarrow> (spec_error, 'a set) result" where
  "add_unique e seen x = (if x \<in> seen then Inl (e x) else Inr (insert x seen))"

record graph =
  edge_keys :: "(string \<times> string \<times> trigger) set"
  adjacent :: adjacency
  incoming_ids :: adjacency
  outgoing_of :: "(string, workflow_edge list) dict"

definition add_edge :: "string set \<Rightarrow> graph \<Rightarrow> workflow_edge \<Rightarrow> (spec_error, graph) result" where
  "add_edge node_ids g e = (let key = (edge_source e, edge_target e, edge_trigger e) in
     if edge_source e \<notin> node_ids then Inl (Unknown_edge_node (edge_source e))
     else if edge_target e \<notin> node_ids then Inl (Unknown_edge_node (edge_target e))
     else if edge_source e = edge_target e then Inl (Self_loop (edge_source e))
     else if key \<in> edge_keys g then Inl (Duplicate_edge (edge_source e) (edge_target e))
     else lift_dag
       (rbind (dict_append (adjacent g) (edge_source e) (edge_target e)) (\<lambda>adj.
        rbind (dict_append (incoming_ids g) (edge_target e) (edge_source e)) (\<lambda>inc.
        rbind (dict_append (outgoing_of g) (edge_source e) e) (\<lambda>out.
          Inr \<lparr>edge_keys = insert key (edge_keys g), adjacent = adj, incoming_ids = inc, outgoing_of = out\<rparr>)))))"

definition empty_graph :: "string list \<Rightarrow> graph" where
  "empty_graph ids = \<lparr>edge_keys = {}, adjacent = map (\<lambda>n. (n, [])) ids,
     incoming_ids = map (\<lambda>n. (n, [])) ids, outgoing_of = map (\<lambda>n. (n, [])) ids\<rparr>"

definition validate_reference ::
    "string set \<Rightarrow> (string, workflow_node) dict \<Rightarrow> string \<Rightarrow> (spec_error, unit) result" where
  "validate_reference allowed_nodes nodes_by_id expression =
     (if \<not> starts_with ''nodes.'' expression then Inr ()
      else case parse_node_output_reference expression of
             None \<Rightarrow> Inl Invalid_output_reference
           | Some (n, fld) \<Rightarrow>
               (case dict_get nodes_by_id n of
                  None \<Rightarrow> Inl Unknown_node_output
                | Some referenced_node \<Rightarrow>
                    (case dict_get NODE_OUTPUT_FIELDS_BY_KIND (job_kind referenced_node) of
                       None \<Rightarrow> Inl (Spec_runtime Key_error)
                     | Some allowed_fields \<Rightarrow>
                         if fld \<notin> allowed_fields then Inl Forbidden_output_field
                         else if n \<notin> allowed_nodes then Inl Non_upstream_node_output
                         else Inr ())))"

definition validate_output_references ::
    "pval \<Rightarrow> string set \<Rightarrow> (string, workflow_node) dict \<Rightarrow> (spec_error, unit) result" where
  "validate_output_references value allowed_nodes nodes_by_id =
     each_r (validate_reference allowed_nodes nodes_by_id) (iter_placeholder_expressions value)"

definition when_value :: "string option \<Rightarrow> pval" where
  "when_value w = (case w of None \<Rightarrow> PNone | Some s \<Rightarrow> PStr s)"

definition validate_first_match_routes ::
    "string \<Rightarrow> workflow_edge list \<Rightarrow> nat \<Rightarrow> (spec_error, unit) result" where
  "validate_first_match_routes n es minimum_edges =
     (let defaults = filter is_default es;
          conditions_valid = list_all (\<lambda>e. if is_default e then edge_when e = None else edge_when e \<noteq> None) es
      in if length es < minimum_edges \<or> length defaults \<noteq> 1 \<or> \<not> conditions_valid
         then Inl (Invalid_routes n) else Inr ())"

definition validate_node_routes :: "workflow_node \<Rightarrow> workflow_edge list \<Rightarrow> (spec_error, unit) result" where
  "validate_node_routes n outgoing =
     (let success_edges = filter (\<lambda>e. edge_trigger e = Success_edge) outgoing;
          failure_edges = filter (\<lambda>e. edge_trigger e = Failure_edge) outgoing
      in rbind (if job_kind n = ''branch'' then validate_first_match_routes (node_id n) success_edges 2
                else guard_r (\<not> list_ex (\<lambda>e. edge_when e \<noteq> None \<or> is_default e) success_edges)
                       (Conditional_edge_requires_branch (node_id n))) (\<lambda>_.
         if node_on_failure n = Branch_route
         then (if failure_edges = [] then Inl (Missing_failure_route (node_id n))
               else validate_first_match_routes (node_id n) failure_edges 1)
         else guard_r (failure_edges = []) (Failure_edge_requires_branch (node_id n))))"

definition lookup :: "('k, 'v) dict \<Rightarrow> 'k \<Rightarrow> (spec_error, 'v) result" where
  "lookup d k = (case dict_get d k of None \<Rightarrow> Inl (Spec_runtime Key_error) | Some v \<Rightarrow> Inr v)"

definition validate_notify_node :: "string set \<Rightarrow> workflow_node \<Rightarrow> (spec_error, unit) result" where
  "validate_notify_node notify_ids n =
     (if job_kind n \<noteq> ''notify'' then Inr ()
      else rbind (lookup (node_payload n) ''target_ids'') (\<lambda>v.
        case v of
          PList xs \<Rightarrow> each_r (\<lambda>t. guard_r (t \<in> notify_ids) (Unknown_notify_target (node_id n) t)) (string_items xs)
        | _ \<Rightarrow> Inl (Spec_runtime Key_error)))"

definition nodes_by_id :: "workflow_node list \<Rightarrow> (string, workflow_node) dict" where
  "nodes_by_id ns = dict_merge [] (map (\<lambda>n. (node_id n, n)) ns)"

text \<open>The references, the routes and the notification targets, once the ancestors are known.\<close>

definition validate_links :: "workflow_spec \<Rightarrow> graph \<Rightarrow> memo \<Rightarrow> (spec_error, unit) result" where
  "validate_links spec g ancestors = (let by_id = nodes_by_id (nodes spec) in
     rbind (each_r (\<lambda>n. rbind (lookup ancestors (node_id n)) (\<lambda>up.
              rbind (validate_output_references (PDict (node_payload n)) up by_id) (\<lambda>_.
              validate_output_references (when_value (node_when n)) up by_id))) (nodes spec)) (\<lambda>_.
     rbind (each_r (\<lambda>e. rbind (lookup ancestors (edge_source e)) (\<lambda>up.
              validate_output_references (when_value (edge_when e)) (up \<union> {edge_source e}) by_id)) (edges spec)) (\<lambda>_.
     rbind (each_r (\<lambda>n. rbind (lookup (outgoing_of g) (node_id n)) (validate_node_routes n)) (nodes spec)) (\<lambda>_.
     rbind (fold_r (add_unique Duplicate_notify_target_id) {} (map target_id (notifications spec))) (\<lambda>notify_ids.
     each_r (validate_notify_node notify_ids) (nodes spec))))))"

definition validate_dag :: "workflow_spec \<Rightarrow> (spec_error, unit) result" where
  "validate_dag spec = (let ids = map node_id (nodes spec) in
     rbind (fold_r (add_unique Duplicate_node_id) {} ids) (\<lambda>node_ids.
     rbind (fold_r (add_edge node_ids) (empty_graph ids) (edges spec)) (\<lambda>g.
     rbind (lift_dag (find_cycle ids (adjacent g))) (\<lambda>cycle.
     rbind (case cycle of None \<Rightarrow> Inr () | Some c \<Rightarrow> Inl (Cycle_in_dag c)) (\<lambda>_.
     rbind (lift_dag (workflow_ancestors ids (incoming_ids g))) (\<lambda>ancestors.
     validate_links spec g ancestors))))))"

text \<open>The whole construction: field bounds and validators, then the DAG.\<close>

definition validate_spec :: "(string \<Rightarrow> bool) \<Rightarrow> workflow_spec \<Rightarrow> (spec_error, unit) result" where
  "validate_spec croniter_is_valid spec =
     rbind (guard_r (1 \<le> length (nodes spec) \<and> length (nodes spec) \<le> MAX_WORKFLOW_NODES) (Field_bounds ''nodes'')) (\<lambda>_.
     rbind (each_r validate_node (nodes spec)) (\<lambda>_.
     rbind (each_r validate_edge (edges spec)) (\<lambda>_.
     rbind (case schedule spec of None \<Rightarrow> Inr () | Some c \<Rightarrow> validate_cron croniter_is_valid c) (\<lambda>_.
     rbind (case sensor spec of None \<Rightarrow> Inr () | Some t \<Rightarrow> validate_sensor t) (\<lambda>_.
     rbind (each_r validate_notify_target (notifications spec)) (\<lambda>_.
     rbind (validate_workflow_variables (spec_variables spec)) (\<lambda>_.
     validate_dag spec)))))))"

section \<open>What validation means\<close>

definition edge_pairs :: "workflow_spec \<Rightarrow> (string \<times> string) list" where
  "edge_pairs spec = map (\<lambda>e. (edge_source e, edge_target e)) (edges spec)"

definition upstream :: "workflow_spec \<Rightarrow> string \<Rightarrow> string set" where
  "upstream spec n = {m. (m, n) \<in> (set (edge_pairs spec))\<^sup>+}"

text \<open>Every node reference names a field its kind publishes, of a node in the given set.\<close>

definition references_ok :: "workflow_spec \<Rightarrow> string set \<Rightarrow> pval \<Rightarrow> bool" where
  "references_ok spec allowed value \<longleftrightarrow>
     (\<forall>expression \<in> set (iter_placeholder_expressions value). starts_with ''nodes.'' expression \<longrightarrow>
        (\<exists>m \<in> set (nodes spec). \<exists>fld fields. parse_node_output_reference expression = Some (node_id m, fld) \<and>
           dict_get NODE_OUTPUT_FIELDS_BY_KIND (job_kind m) = Some fields \<and> fld \<in> fields \<and> node_id m \<in> allowed))"

text \<open>First match: exactly one default edge, and a condition on every other edge.\<close>

definition first_match_ok :: "workflow_edge list \<Rightarrow> nat \<Rightarrow> bool" where
  "first_match_ok es k \<longleftrightarrow> k \<le> length es \<and> length (filter is_default es) = 1 \<and>
     (\<forall>e \<in> set es. is_default e \<longleftrightarrow> edge_when e = None)"

definition edges_from :: "workflow_spec \<Rightarrow> trigger \<Rightarrow> string \<Rightarrow> workflow_edge list" where
  "edges_from spec t n = filter (\<lambda>e. edge_source e = n \<and> edge_trigger e = t) (edges spec)"

definition routes_ok :: "workflow_spec \<Rightarrow> workflow_node \<Rightarrow> bool" where
  "routes_ok spec n \<longleftrightarrow>
     (let ok = edges_from spec Success_edge (node_id n); ko = edges_from spec Failure_edge (node_id n) in
      (if job_kind n = ''branch'' then first_match_ok ok 2
       else (\<forall>e \<in> set ok. edge_when e = None \<and> \<not> is_default e)) \<and>
      (if node_on_failure n = Branch_route then first_match_ok ko 1 else ko = []))"

definition notify_ok :: "workflow_spec \<Rightarrow> workflow_node \<Rightarrow> bool" where
  "notify_ok spec n \<longleftrightarrow> (job_kind n = ''notify'' \<longrightarrow>
     (case dict_get (node_payload n) ''target_ids'' of
        Some (PList xs) \<Rightarrow> set (string_items xs) \<subseteq> target_id ` set (notifications spec)
      | _ \<Rightarrow> False))"

definition edges_ok :: "workflow_spec \<Rightarrow> bool" where
  "edges_ok spec \<longleftrightarrow>
     (\<forall>e \<in> set (edges spec). edge_source e \<in> node_id ` set (nodes spec) \<and> edge_target e \<in> node_id ` set (nodes spec) \<and>
        edge_source e \<noteq> edge_target e) \<and>
     distinct (map (\<lambda>e. (edge_source e, edge_target e, edge_trigger e)) (edges spec))"

definition well_formed_dag :: "workflow_spec \<Rightarrow> bool" where
  "well_formed_dag spec \<longleftrightarrow>
     distinct (map node_id (nodes spec)) \<and> edges_ok spec \<and> acyclic (set (edge_pairs spec)) \<and>
     (\<forall>n \<in> set (nodes spec). references_ok spec (upstream spec (node_id n)) (PDict (node_payload n)) \<and>
        references_ok spec (upstream spec (node_id n)) (when_value (node_when n))) \<and>
     (\<forall>e \<in> set (edges spec).
        references_ok spec (upstream spec (edge_source e) \<union> {edge_source e}) (when_value (edge_when e))) \<and>
     (\<forall>n \<in> set (nodes spec). routes_ok spec n) \<and>
     distinct (map target_id (notifications spec)) \<and>
     (\<forall>n \<in> set (nodes spec). notify_ok spec n)"

section \<open>Validation decides well-formedness\<close>

text \<open>
  A check decides a property when it succeeds exactly if the property holds and otherwise fails
  with an error of its own, never for want of a key or of recursion depth.
\<close>

definition decides :: "(spec_error, unit) result \<Rightarrow> bool \<Rightarrow> bool" where
  "decides r P \<longleftrightarrow> (r = Inr () \<longleftrightarrow> P) \<and> (\<forall>e. r \<noteq> Inl (Spec_runtime e))"

definition yields :: "(spec_error, 'a) result \<Rightarrow> bool \<Rightarrow> ('a \<Rightarrow> bool) \<Rightarrow> bool" where
  "yields r P \<Phi> \<longleftrightarrow> (case r of Inr x \<Rightarrow> P \<and> \<Phi> x | Inl err \<Rightarrow> \<not> P \<and> (\<forall>e. err \<noteq> Spec_runtime e))"

lemma decides_guard: "(\<And>x. e \<noteq> Spec_runtime x) \<Longrightarrow> P = Q \<Longrightarrow> decides (guard_r P e) Q"
  by (auto simp: decides_def)

lemma decides_rbind:
  "decides r P \<Longrightarrow> (P \<Longrightarrow> decides (f ()) Q) \<Longrightarrow> decides (rbind r f) (P \<and> Q)"
  by (cases r) (auto simp: decides_def)

lemma yields_rbind:
  "yields r P \<Phi> \<Longrightarrow> (\<And>x. P \<Longrightarrow> \<Phi> x \<Longrightarrow> decides (f x) Q) \<Longrightarrow> decides (rbind r f) (P \<and> Q)"
  by (cases r) (auto simp: decides_def yields_def)

lemma decides_each:
  assumes "\<And>x. x \<in> set xs \<Longrightarrow> decides (f x) (P x)"
  shows "decides (each_r f xs) (\<forall>x \<in> set xs. P x)"
proof -
  have "each_r f xs \<noteq> Inl (Spec_runtime e)" for e
    using each_r_error [of f xs "Spec_runtime e"] assms by (auto simp: decides_def)
  then show ?thesis using assms by (auto simp: decides_def each_r_ok)
qed

lemma decides_cong: "decides r P \<Longrightarrow> P = Q \<Longrightarrow> decides r Q"
  by simp

lemma unique_fold:
  assumes "\<And>x y. e x \<noteq> Spec_runtime y"
  shows "yields (fold_r (add_unique e) seen xs) (distinct xs \<and> set xs \<inter> seen = {}) (\<lambda>r. r = seen \<union> set xs)"
proof (induction xs arbitrary: seen)
  case (Cons x xs)
  show ?case
  proof (cases "x \<in> seen")
    case True
    then show ?thesis using assms by (simp add: yields_def add_unique_def)
  next
    case False
    with Cons.IH [of "insert x seen"] show ?thesis
      by (auto simp: yields_def add_unique_def split: sum.splits)
  qed
qed (simp add: yields_def)

section \<open>The graph the edge loop builds\<close>

abbreviation edge_key :: "workflow_edge \<Rightarrow> string \<times> string \<times> trigger" where
  "edge_key e \<equiv> (edge_source e, edge_target e, edge_trigger e)"

definition graph_of :: "string list \<Rightarrow> workflow_edge list \<Rightarrow> graph \<Rightarrow> bool" where
  "graph_of ids es g \<longleftrightarrow> edge_keys g = set (map edge_key es) \<and>
     (\<forall>k. dict_get (adjacent g) k =
        (if k \<in> set ids then Some (map edge_target (filter (\<lambda>e. edge_source e = k) es)) else None)) \<and>
     (\<forall>k. dict_get (incoming_ids g) k =
        (if k \<in> set ids then Some (map edge_source (filter (\<lambda>e. edge_target e = k) es)) else None)) \<and>
     (\<forall>k. dict_get (outgoing_of g) k =
        (if k \<in> set ids then Some (filter (\<lambda>e. edge_source e = k) es) else None))"

definition edge_joins :: "string list \<Rightarrow> workflow_edge \<Rightarrow> bool" where
  "edge_joins ids e \<longleftrightarrow> edge_source e \<in> set ids \<and> edge_target e \<in> set ids \<and> edge_source e \<noteq> edge_target e"

lemma add_edge_yields:
  assumes "graph_of ids es g"
  shows "yields (add_edge (set ids) g e) (edge_joins ids e \<and> edge_key e \<notin> set (map edge_key es))
           (graph_of ids (es @ [e]))"
proof (cases "edge_joins ids e \<and> edge_key e \<notin> set (map edge_key es)")
  case True
  with assms show ?thesis
    by (auto simp: yields_def add_edge_def Let_def edge_joins_def graph_of_def dict_append_def lift_dag_def)
next
  case False
  with assms show ?thesis
    by (auto simp: yields_def add_edge_def Let_def edge_joins_def graph_of_def)
qed

lemma edge_fold_yields:
  assumes "graph_of ids es g" and "distinct (map edge_key es)"
  shows "yields (fold_r (add_edge (set ids)) g rest)
           ((\<forall>e \<in> set rest. edge_joins ids e) \<and> distinct (map edge_key (es @ rest)))
           (graph_of ids (es @ rest))"
  using assms
proof (induction rest arbitrary: es g)
  case (Cons e rest)
  note step = add_edge_yields [OF Cons.prems(1), of e]
  show ?case
  proof (cases "add_edge (set ids) g e")
    case (Inl err)
    with step show ?thesis by (auto simp: yields_def)
  next
    case (Inr g')
    with step have ok: "edge_joins ids e" "edge_key e \<notin> set (map edge_key es)" "graph_of ids (es @ [e]) g'"
      by (auto simp: yields_def)
    from Cons.IH [OF ok(3)] ok Cons.prems(2) Inr show ?thesis by simp
  qed
qed (simp add: yields_def)

lemma empty_graph_of: "graph_of ids [] (empty_graph ids)"
  by (simp add: graph_of_def empty_graph_def dict_get_const)

lemma graph_edge_rel:
  assumes g: "graph_of ids es g" and joins: "\<forall>e \<in> set es. edge_joins ids e"
  shows "edge_rel (adjacent g) = set (map (\<lambda>e. (edge_source e, edge_target e)) es)"
    and "edge_rel (incoming_ids g) = (set (map (\<lambda>e. (edge_source e, edge_target e)) es))\<inverse>"
    and "closed_graph (set ids) (adjacent g)" "closed_graph (set ids) (incoming_ids g)"
  using assms by (auto simp: edge_rel_def graph_of_def edge_joins_def closed_graph_def split: if_splits)

section \<open>References, routes and notification targets\<close>

lemma nodes_by_id_get:
  assumes "distinct (map node_id ns)"
  shows "dict_get (nodes_by_id ns) k = Some m \<longleftrightarrow> m \<in> set ns \<and> node_id m = k"
proof -
  have "dict_keys (map (\<lambda>n. (node_id n, n)) ns) = map node_id ns" by (simp add: comp_def)
  with assms have d: "distinct (dict_keys (map (\<lambda>n. (node_id n, n)) ns))" by metis
  then have "dict_get (nodes_by_id ns) k = dict_get (map (\<lambda>n. (node_id n, n)) ns) k"
    by (simp add: nodes_by_id_def dict_get_merge split: option.splits)
  also have "\<dots> = Some m \<longleftrightarrow> (k, m) \<in> set (map (\<lambda>n. (node_id n, n)) ns)"
    using d by (rule map_of_eq_Some_iff)
  also have "\<dots> \<longleftrightarrow> m \<in> set ns \<and> node_id m = k" by auto
  finally show ?thesis .
qed

lemma supported_kind_fields:
  assumes "k \<in> set SUPPORTED_WORKFLOW_NODE_KINDS_V1"
  shows "\<exists>fields. dict_get NODE_OUTPUT_FIELDS_BY_KIND k = Some fields"
proof -
  have "list_all (\<lambda>k. dict_get NODE_OUTPUT_FIELDS_BY_KIND k \<noteq> None) SUPPORTED_WORKFLOW_NODE_KINDS_V1"
    by (simp add: SUPPORTED_WORKFLOW_NODE_KINDS_V1_def NODE_OUTPUT_FIELDS_BY_KIND_def)
  with assms show ?thesis by (auto simp: list.pred_set)
qed

definition kinds_supported :: "workflow_spec \<Rightarrow> bool" where
  "kinds_supported spec \<longleftrightarrow> (\<forall>n \<in> set (nodes spec). job_kind n \<in> set SUPPORTED_WORKFLOW_NODE_KINDS_V1)"

definition reference_ok :: "workflow_spec \<Rightarrow> string set \<Rightarrow> string \<Rightarrow> bool" where
  "reference_ok spec allowed expression \<longleftrightarrow> (starts_with ''nodes.'' expression \<longrightarrow>
        (\<exists>m \<in> set (nodes spec). \<exists>fld fields. parse_node_output_reference expression = Some (node_id m, fld) \<and>
           dict_get NODE_OUTPUT_FIELDS_BY_KIND (job_kind m) = Some fields \<and> fld \<in> fields \<and> node_id m \<in> allowed))"

lemma references_ok_all:
  "references_ok spec allowed value \<longleftrightarrow> (\<forall>x \<in> set (iter_placeholder_expressions value). reference_ok spec allowed x)"
  by (simp only: references_ok_def reference_ok_def)

lemma validate_reference_decides:
  assumes d: "distinct (map node_id (nodes spec))" and k: "kinds_supported spec"
  shows "decides (validate_reference allowed (nodes_by_id (nodes spec)) x) (reference_ok spec allowed x)"
proof (cases "starts_with ''nodes.'' x")
  case False
  then show ?thesis by (simp add: decides_def validate_reference_def reference_ok_def)
next
  case pre: True
  show ?thesis
  proof (cases "parse_node_output_reference x")
    case None
    with pre show ?thesis by (simp add: decides_def validate_reference_def reference_ok_def)
  next
    case (Some p)
    obtain n fld where p: "parse_node_output_reference x = Some (n, fld)" using Some by (cases p) simp
    show ?thesis
    proof (cases "dict_get (nodes_by_id (nodes spec)) n")
      case None
      then have "n \<notin> node_id ` set (nodes spec)" using nodes_by_id_get [OF d, of n] by auto
      with pre p None show ?thesis by (auto simp: decides_def validate_reference_def reference_ok_def)
    next
      case (Some m)
      then have m: "m \<in> set (nodes spec)" "node_id m = n" using nodes_by_id_get [OF d] by auto
      then obtain fields where f: "dict_get NODE_OUTPUT_FIELDS_BY_KIND (job_kind m) = Some fields"
        using k supported_kind_fields by (auto simp: kinds_supported_def)
      have uniq: "m' = m" if "m' \<in> set (nodes spec)" "node_id m' = n" for m'
        using that m d unfolding distinct_map by (metis inj_onD)
      have "reference_ok spec allowed x \<longleftrightarrow> fld \<in> fields \<and> n \<in> allowed"
      proof
        assume "reference_ok spec allowed x"
        then obtain m' fs where "m' \<in> set (nodes spec)" "node_id m' = n" "fld \<in> fs" "n \<in> allowed"
            "dict_get NODE_OUTPUT_FIELDS_BY_KIND (job_kind m') = Some fs"
          using pre p by (auto simp: reference_ok_def)
        with uniq [of m'] f show "fld \<in> fields \<and> n \<in> allowed" by simp
      next
        assume "fld \<in> fields \<and> n \<in> allowed"
        with m f p show "reference_ok spec allowed x" unfolding reference_ok_def by (intro impI bexI [of _ m]) simp_all
      qed
      with pre p Some f show ?thesis by (simp add: decides_def validate_reference_def)
    qed
  qed
qed

lemma validate_output_references_decides:
  assumes "distinct (map node_id (nodes spec))" and "kinds_supported spec"
  shows "decides (validate_output_references value allowed (nodes_by_id (nodes spec))) (references_ok spec allowed value)"
  unfolding validate_output_references_def references_ok_all
  by (rule decides_each) (rule validate_reference_decides [OF assms])

lemma first_match_decides:
  "decides (validate_first_match_routes n es k) (first_match_ok es k)"
proof -
  have "list_all (\<lambda>e. if is_default e then edge_when e = None else edge_when e \<noteq> None) es \<longleftrightarrow>
        (\<forall>e \<in> set es. is_default e \<longleftrightarrow> edge_when e = None)"
    by (auto simp: list.pred_set)
  then show ?thesis
    unfolding decides_def validate_first_match_routes_def first_match_ok_def Let_def
    by (simp only: not_less [symmetric]) simp
qed

lemma node_routes_decides:
  "decides (validate_node_routes n (filter (\<lambda>e. edge_source e = node_id n) (edges spec))) (routes_ok spec n)"
proof -
  have ff: "filter (\<lambda>e. edge_trigger e = t) (filter (\<lambda>e. edge_source e = node_id n) (edges spec)) =
      edges_from spec t (node_id n)" for t
    by (simp add: edges_from_def conj_commute)
  let ?ok = "edges_from spec Success_edge (node_id n)" and ?ko = "edges_from spec Failure_edge (node_id n)"
  have ok: "decides (if job_kind n = ''branch'' then validate_first_match_routes (node_id n) ?ok 2
      else guard_r (\<not> list_ex (\<lambda>e. edge_when e \<noteq> None \<or> is_default e) ?ok) (Conditional_edge_requires_branch (node_id n)))
     (if job_kind n = ''branch'' then first_match_ok ?ok 2 else (\<forall>e \<in> set ?ok. edge_when e = None \<and> \<not> is_default e))"
    by (cases "job_kind n = ''branch''") (simp_all add: first_match_decides decides_guard list_ex_iff)
  have ko: "decides (if node_on_failure n = Branch_route
         then (if ?ko = [] then Inl (Missing_failure_route (node_id n)) else validate_first_match_routes (node_id n) ?ko 1)
         else guard_r (?ko = []) (Failure_edge_requires_branch (node_id n)))
      (if node_on_failure n = Branch_route then first_match_ok ?ko 1 else ?ko = [])"
  proof (cases "node_on_failure n = Branch_route")
    case True
    show ?thesis
    proof (cases "?ko = []")
      case True
      with \<open>node_on_failure n = Branch_route\<close> show ?thesis by (simp add: decides_def first_match_ok_def)
    next
      case False
      with True first_match_decides [of "node_id n" ?ko 1] show ?thesis by simp
    qed
  qed (simp add: decides_guard)
  from decides_rbind [OF ok ko] show ?thesis
    unfolding validate_node_routes_def routes_ok_def Let_def ff .
qed

definition notify_payloads :: "workflow_spec \<Rightarrow> bool" where
  "notify_payloads spec \<longleftrightarrow> (\<forall>n \<in> set (nodes spec). job_kind n = ''notify'' \<longrightarrow>
     (\<exists>xs. dict_get (node_payload n) ''target_ids'' = Some (PList xs)))"

lemma notify_decides:
  assumes "notify_payloads spec" and "n \<in> set (nodes spec)" and "ids = target_id ` set (notifications spec)"
  shows "decides (validate_notify_node ids n) (notify_ok spec n)"
proof (cases "job_kind n = ''notify''")
  case False
  then show ?thesis by (simp add: decides_def validate_notify_node_def notify_ok_def)
next
  case True
  with assms obtain xs where xs: "dict_get (node_payload n) ''target_ids'' = Some (PList xs)"
    by (auto simp: notify_payloads_def)
  have "decides (each_r (\<lambda>t. guard_r (t \<in> ids) (Unknown_notify_target (node_id n) t)) (string_items xs))
          (\<forall>t \<in> set (string_items xs). t \<in> ids)"
    by (rule decides_each, rule decides_guard) simp_all
  then show ?thesis
    using True xs assms(3) by (simp add: validate_notify_node_def notify_ok_def lookup_def subset_eq)
qed

section \<open>The decision\<close>

lemma decides_lookup:
  "dict_get d k = Some v \<Longrightarrow> decides (f v) P \<Longrightarrow> decides (rbind (lookup d k) f) P"
  by (simp add: lookup_def)

lemma validate_links_decides:
  assumes k: "kinds_supported spec" and np: "notify_payloads spec"
    and d: "distinct (map node_id (nodes spec))"
    and g: "graph_of (map node_id (nodes spec)) (edges spec) g"
    and src: "\<forall>e \<in> set (edges spec). edge_source e \<in> node_id ` set (nodes spec)"
    and anc: "\<forall>n \<in> node_id ` set (nodes spec). dict_get ancestors n = Some (upstream spec n)"
  shows "decides (validate_links spec g ancestors)
     ((\<forall>n \<in> set (nodes spec). references_ok spec (upstream spec (node_id n)) (PDict (node_payload n)) \<and>
        references_ok spec (upstream spec (node_id n)) (when_value (node_when n))) \<and>
     (\<forall>e \<in> set (edges spec). references_ok spec (upstream spec (edge_source e) \<union> {edge_source e}) (when_value (edge_when e))) \<and>
     (\<forall>n \<in> set (nodes spec). routes_ok spec n) \<and>
     (distinct (map target_id (notifications spec)) \<and> set (map target_id (notifications spec)) \<inter> {} = {}) \<and>
     (\<forall>n \<in> set (nodes spec). notify_ok spec n))"
proof -
  note refs = validate_output_references_decides [OF d k]
  have out: "dict_get (outgoing_of g) (node_id n) = Some (filter (\<lambda>e. edge_source e = node_id n) (edges spec))"
    if "n \<in> set (nodes spec)" for n
    using g that by (simp add: graph_of_def)
  show ?thesis
    unfolding validate_links_def Let_def
  proof (intro decides_rbind yields_rbind [OF unique_fold] decides_each)
    fix n assume "n \<in> set (nodes spec)"
    then have "dict_get ancestors (node_id n) = Some (upstream spec (node_id n))" using anc by simp
    then show "decides (rbind (lookup ancestors (node_id n)) (\<lambda>up.
              rbind (validate_output_references (PDict (node_payload n)) up (nodes_by_id (nodes spec))) (\<lambda>_.
              validate_output_references (when_value (node_when n)) up (nodes_by_id (nodes spec)))))
       (references_ok spec (upstream spec (node_id n)) (PDict (node_payload n)) \<and>
        references_ok spec (upstream spec (node_id n)) (when_value (node_when n)))"
      by (rule decides_lookup) (intro decides_rbind refs)
  next
    fix e assume "e \<in> set (edges spec)"
    then have "dict_get ancestors (edge_source e) = Some (upstream spec (edge_source e))" using anc src by blast
    then show "decides (rbind (lookup ancestors (edge_source e)) (\<lambda>up.
        validate_output_references (when_value (edge_when e)) (up \<union> {edge_source e}) (nodes_by_id (nodes spec))))
       (references_ok spec (upstream spec (edge_source e) \<union> {edge_source e}) (when_value (edge_when e)))"
      by (rule decides_lookup) (rule refs)
  next
    fix n assume "n \<in> set (nodes spec)"
    from out [OF this] show "decides (rbind (lookup (outgoing_of g) (node_id n)) (validate_node_routes n)) (routes_ok spec n)"
      by (rule decides_lookup) (rule node_routes_decides)
  next
    fix ids n assume "ids = {} \<union> set (map target_id (notifications spec))" "n \<in> set (nodes spec)"
    then show "decides (validate_notify_node ids n) (notify_ok spec n)"
      by (intro notify_decides [OF np]) simp_all
  qed simp
qed

lemma cycle_yields:
  assumes "graph_of ids es g" and "\<forall>e \<in> set es. edge_joins ids e"
  shows "yields (lift_dag (find_cycle ids (adjacent g))) True
           (\<lambda>c. (c = None) \<longleftrightarrow> acyclic (set (map (\<lambda>e. (edge_source e, edge_target e)) es)))"
proof -
  note rel = graph_edge_rel [OF assms]
  have "edge_rel (adjacent g) \<inter> set ids \<times> set ids = edge_rel (adjacent g)"
    using assms(2) by (auto simp: rel(1) edge_joins_def)
  with find_cycle_decides [OF rel(3)] rel(1) show ?thesis by (auto simp: yields_def lift_dag_def)
qed

lemma ancestors_yields:
  assumes "graph_of (map node_id (nodes spec)) (edges spec) g"
    and "\<forall>e \<in> set (edges spec). edge_joins (map node_id (nodes spec)) e"
    and "acyclic (set (edge_pairs spec))"
  shows "yields (lift_dag (workflow_ancestors (map node_id (nodes spec)) (incoming_ids g))) True
           (\<lambda>m. \<forall>n \<in> node_id ` set (nodes spec). dict_get m n = Some (upstream spec n))"
proof -
  note rel = graph_edge_rel [OF assms(1,2)]
  have "ancestors_of (incoming_ids g) n = upstream spec n" for n
    by (simp add: ancestors_of_def upstream_def rel(2) edge_pairs_def trancl_converse)
  moreover have "acyclic (edge_rel (incoming_ids g))"
    using assms(3) by (simp add: rel(2) edge_pairs_def acyclic_converse)
  ultimately show ?thesis
    using workflow_ancestors_correct [OF _ rel(4)] by (auto simp: yields_def lift_dag_def)
qed

lemma validate_dag_decides:
  assumes k: "kinds_supported spec" and np: "notify_payloads spec"
  shows "decides (validate_dag spec) (well_formed_dag spec)"
proof -
  let ?ids = "map node_id (nodes spec)"
  let ?E = "(\<forall>e \<in> set (edges spec). edge_joins ?ids e) \<and> distinct (map edge_key ([] @ edges spec))"
  let ?L = "(\<forall>n \<in> set (nodes spec). references_ok spec (upstream spec (node_id n)) (PDict (node_payload n)) \<and>
        references_ok spec (upstream spec (node_id n)) (when_value (node_when n))) \<and>
     (\<forall>e \<in> set (edges spec). references_ok spec (upstream spec (edge_source e) \<union> {edge_source e}) (when_value (edge_when e))) \<and>
     (\<forall>n \<in> set (nodes spec). routes_ok spec n) \<and>
     (distinct (map target_id (notifications spec)) \<and> set (map target_id (notifications spec)) \<inter> {} = {}) \<and>
     (\<forall>n \<in> set (nodes spec). notify_ok spec n)"
  have "decides (validate_dag spec) ((distinct ?ids \<and> set ?ids \<inter> {} = {}) \<and> ?E \<and> True \<and> acyclic (set (edge_pairs spec)) \<and> True \<and> ?L)"
    unfolding validate_dag_def Let_def
  proof (rule yields_rbind [OF unique_fold])
    fix node_ids assume dist: "distinct ?ids \<and> set ?ids \<inter> {} = {}" and "node_ids = {} \<union> set ?ids"
    then have ids: "node_ids = set ?ids" by simp
    show "decides (rbind (fold_r (add_edge node_ids) (empty_graph ?ids) (edges spec)) (\<lambda>g.
        rbind (lift_dag (find_cycle ?ids (adjacent g))) (\<lambda>cycle.
        rbind (case cycle of None \<Rightarrow> Inr () | Some c \<Rightarrow> Inl (Cycle_in_dag c)) (\<lambda>_.
        rbind (lift_dag (workflow_ancestors ?ids (incoming_ids g))) (\<lambda>ancestors.
        validate_links spec g ancestors))))) (?E \<and> True \<and> acyclic (set (edge_pairs spec)) \<and> True \<and> ?L)"
      unfolding ids
    proof (rule yields_rbind [OF edge_fold_yields [OF empty_graph_of]])
      fix g assume E: ?E and "graph_of ?ids ([] @ edges spec) g"
      then have g: "graph_of ?ids (edges spec) g" by simp
      show "decides (rbind (lift_dag (find_cycle ?ids (adjacent g))) (\<lambda>cycle.
          rbind (case cycle of None \<Rightarrow> Inr () | Some c \<Rightarrow> Inl (Cycle_in_dag c)) (\<lambda>_.
          rbind (lift_dag (workflow_ancestors ?ids (incoming_ids g))) (\<lambda>ancestors.
          validate_links spec g ancestors)))) (True \<and> acyclic (set (edge_pairs spec)) \<and> True \<and> ?L)"
      proof (rule yields_rbind [OF cycle_yields [OF g]], use E in simp, rule decides_rbind)
        fix c :: "string list option" assume "(c = None) = acyclic (set (map (\<lambda>e. (edge_source e, edge_target e)) (edges spec)))"
        then show "decides (case c of None \<Rightarrow> Inr () | Some c \<Rightarrow> Inl (Cycle_in_dag c)) (acyclic (set (edge_pairs spec)))"
          by (cases c) (simp_all add: decides_def edge_pairs_def)
      next
        fix c assume ac: "acyclic (set (edge_pairs spec))"
        show "decides (rbind (lift_dag (workflow_ancestors ?ids (incoming_ids g))) (validate_links spec g)) (True \<and> ?L)"
          by (rule yields_rbind [OF ancestors_yields [OF g _ ac]], use E in simp,
              rule validate_links_decides [OF k np _ g]) (use E dist in \<open>auto simp: edge_joins_def\<close>)
      qed
    qed simp
  qed simp
  then show ?thesis
    by (rule decides_cong) (simp add: well_formed_dag_def edges_ok_def edge_joins_def)
qed

section \<open>Construction of a definition\<close>

definition fields_accepted :: "(string \<Rightarrow> bool) \<Rightarrow> workflow_spec \<Rightarrow> bool" where
  "fields_accepted croniter_is_valid spec \<longleftrightarrow>
     1 \<le> length (nodes spec) \<and> length (nodes spec) \<le> MAX_WORKFLOW_NODES \<and>
     (\<forall>n \<in> set (nodes spec). validate_node n = Inr ()) \<and>
     (\<forall>e \<in> set (edges spec). validate_edge e = Inr ()) \<and>
     (\<forall>c. schedule spec = Some c \<longrightarrow> validate_cron croniter_is_valid c = Inr ()) \<and>
     (\<forall>t. sensor spec = Some t \<longrightarrow> validate_sensor t = Inr ()) \<and>
     (\<forall>t \<in> set (notifications spec). validate_notify_target t = Inr ()) \<and>
     (\<exists>vars. validate_workflow_variables (spec_variables spec) = Inr vars)"

lemma validate_node_kind:
  "validate_node n = Inr () \<Longrightarrow> job_kind n \<in> set SUPPORTED_WORKFLOW_NODE_KINDS_V1"
  by (simp add: validate_node_def rbind_eq_Inr)

lemma validate_node_notify:
  assumes "validate_node n = Inr ()" and "job_kind n = ''notify''"
  shows "\<exists>xs. dict_get (node_payload n) ''target_ids'' = Some (PList xs)"
proof -
  from assms have "notify_payload_ok (node_payload n)"
    by (simp add: validate_node_def rbind_eq_Inr validate_intrinsic_payload_def)
  then show ?thesis by (auto simp: notify_payload_ok_def split: option.splits pval.splits)
qed

lemma field_errors:
  "validate_retry_policy p \<noteq> Inl (Spec_runtime e)"
  "validate_optional_when Invalid_when w \<noteq> Inl (Spec_runtime e)"
  "validate_optional_when Invalid_edge_when w \<noteq> Inl (Spec_runtime e)"
  "validate_intrinsic_payload n \<noteq> Inl (Spec_runtime e)"
  "validate_cron cv c \<noteq> Inl (Spec_runtime e)"
  "validate_sensor t \<noteq> Inl (Spec_runtime e)"
  "validate_notify_target tg \<noteq> Inl (Spec_runtime e)"
  by (simp_all add: validate_retry_policy_def validate_optional_when_def validate_intrinsic_payload_def
      validate_cron_def validate_sensor_def validate_notify_target_def rbind_eq_Inl Let_def split: option.split)

lemma validate_node_errors: "validate_node n \<noteq> Inl (Spec_runtime e)"
  by (simp add: validate_node_def rbind_eq_Inl field_errors split: option.split)

lemma validate_variable_errors: "validate_variable v \<noteq> Inl (Spec_runtime e)"
proof -
  have scalar: "validate_scalar_value n s \<noteq> Inl (Spec_runtime e)" for n s
    by (simp add: validate_scalar_value_def)
  have "validate_element n x \<noteq> Inl (Spec_runtime e)" for n x
    using scalar by (auto simp: validate_element_def rbind_eq_Inl split: pval.splits scalar.splits)
  then have "map_r (validate_element n) xs \<noteq> Inl (Spec_runtime e)" for n xs
    using map_r_error [of "validate_element n" xs "Spec_runtime e"] by blast
  with scalar show ?thesis
    by (cases v) (simp add: validate_variable_def rbind_eq_Inl split: pval.split scalar.split)
qed

lemma validate_variables_errors: "validate_workflow_variables vs \<noteq> Inl (Spec_runtime e)"
  using map_r_error [of validate_variable vs "Spec_runtime e"] validate_variable_errors
  by (auto simp: validate_workflow_variables_def)

lemma decides_self: "(\<And>e. r \<noteq> Inl (Spec_runtime e)) \<Longrightarrow> decides r (r = Inr ())"
  by (simp add: decides_def)

lemma validate_spec_decides:
  "decides (validate_spec cv spec) (fields_accepted cv spec \<and> well_formed_dag spec)"
proof -
  have "decides (validate_spec cv spec)
    ((1 \<le> length (nodes spec) \<and> length (nodes spec) \<le> MAX_WORKFLOW_NODES) \<and>
     (\<forall>n \<in> set (nodes spec). validate_node n = Inr ()) \<and>
     (\<forall>e \<in> set (edges spec). validate_edge e = Inr ()) \<and>
     (case schedule spec of None \<Rightarrow> True | Some c \<Rightarrow> validate_cron cv c = Inr ()) \<and>
     (case sensor spec of None \<Rightarrow> True | Some t \<Rightarrow> validate_sensor t = Inr ()) \<and>
     (\<forall>t \<in> set (notifications spec). validate_notify_target t = Inr ()) \<and>
     (\<exists>vars. validate_workflow_variables (spec_variables spec) = Inr vars) \<and> well_formed_dag spec)"
    unfolding validate_spec_def
  proof (intro decides_rbind decides_each decides_guard decides_self validate_node_errors field_errors)
    show "validate_edge e \<noteq> Inl (Spec_runtime x)" for e x by (simp add: validate_edge_def field_errors)
    show "decides (case schedule spec of None \<Rightarrow> Inr () | Some c \<Rightarrow> validate_cron cv c)
            (case schedule spec of None \<Rightarrow> True | Some c \<Rightarrow> validate_cron cv c = Inr ())"
      by (simp add: decides_def field_errors split: option.split)
    show "decides (case sensor spec of None \<Rightarrow> Inr () | Some t \<Rightarrow> validate_sensor t)
            (case sensor spec of None \<Rightarrow> True | Some t \<Rightarrow> validate_sensor t = Inr ())"
      by (simp add: decides_def field_errors split: option.split)
    assume ok: "\<forall>n \<in> set (nodes spec). validate_node n = Inr ()"
    then have "kinds_supported spec" by (simp add: kinds_supported_def validate_node_kind)
    moreover have "notify_payloads spec" using ok validate_node_notify by (simp add: notify_payloads_def)
    ultimately have "decides (validate_dag spec) (well_formed_dag spec)" by (rule validate_dag_decides)
    then show "decides (rbind (validate_workflow_variables (spec_variables spec)) (\<lambda>_. validate_dag spec))
        ((\<exists>vars. validate_workflow_variables (spec_variables spec) = Inr vars) \<and> well_formed_dag spec)"
      using validate_variables_errors [of "spec_variables spec"]
      by (cases "validate_workflow_variables (spec_variables spec)") (auto simp: decides_def)
  qed simp_all
  then show ?thesis
    by (rule decides_cong) (auto simp: fields_accepted_def split: option.splits)
qed

text \<open>
  C1. Constructing a workflow definition succeeds exactly when its fields are accepted and its
  graph is well formed: node ids are unique; edges join declared nodes, without self loops or
  repeats; the graph is acyclic; every \<open>${nodes.id.field}\<close> reference in a payload or condition
  names a published field of a node upstream of it; branch and failure routes have one default
  and conditions elsewhere; and notify nodes name declared targets. No input makes validation
  fail for a missing key or run out of recursion.
\<close>

theorem validate_spec_correct:
  "(validate_spec croniter_is_valid spec = Inr () \<longleftrightarrow> fields_accepted croniter_is_valid spec \<and> well_formed_dag spec) \<and>
   validate_spec croniter_is_valid spec \<noteq> Inl (Spec_runtime e)"
  using validate_spec_decides [of croniter_is_valid spec] by (simp add: decides_def)

section \<open>Workflow variables\<close>

definition safe_text :: "string \<Rightarrow> bool" where
  "safe_text s \<longleftrightarrow> length s \<le> MAX_VARIABLE_VALUE_LENGTH \<and> list_all safe_char s \<and> \<not> contains ''--'' s"

lemma validate_scalar_value_ok: "validate_scalar_value n s = Inr u \<longleftrightarrow> safe_text s"
  by (auto simp: validate_scalar_value_def safe_text_def)

lemma validate_element_ok: "validate_element n x = Inr s \<longleftrightarrow> x = PStr s \<and> safe_text s"
  by (auto simp: validate_element_def rbind_eq_Inr validate_scalar_value_ok split: pval.splits scalar.splits)

lemma validate_elements_ok: "map_r (validate_element n) xs = Inr ss \<longleftrightarrow> xs = map PStr ss \<and> list_all safe_text ss"
proof (induction xs arbitrary: ss)
  case (Cons x xs)
  then show ?case by (cases ss) (auto simp: rbind_eq_Inr validate_element_ok)
qed auto

definition plain_value :: "var_value \<Rightarrow> pval" where
  "plain_value v = (case v of VStr s \<Rightarrow> PStr s | VList ss \<Rightarrow> PList (map PStr ss))"

lemma validate_variable_ok:
  assumes "validate_variable (name, value) = Inr (k, v)"
  shows "k = name \<and> value = plain_value v \<and> is_identifier k \<and> k \<notin> set BUILTIN_VARIABLE_NAMES \<and>
         list_all safe_text (elements_of v)"
  using assms
  by (auto simp: validate_variable_def rbind_eq_Inr validate_scalar_value_ok validate_elements_ok plain_value_def
      elements_of_def split: if_splits pval.splits scalar.splits)

lemma safe_text_no_quote:
  assumes "safe_text s"
  shows "CHR 0x27 \<notin> set s \<and> CHR 0x22 \<notin> set s \<and> CHR 0x3B \<notin> set s \<and> CHR 0x5C \<notin> set s"
proof -
  have "\<not> safe_char CHR 0x27" "\<not> safe_char CHR 0x22" "\<not> safe_char CHR 0x3B" "\<not> safe_char CHR 0x5C"
    by (simp_all add: safe_char_def is_letter_def is_digit_def)
  with assms show ?thesis by (auto simp: safe_text_def list.pred_set)
qed

lemma validate_workflow_variables_ok:
  assumes "validate_workflow_variables raw = Inr vars"
  shows "raw = map (\<lambda>(k, v). (k, plain_value v)) vars \<and>
      (\<forall>(k, v) \<in> set vars. is_identifier k \<and> k \<notin> set BUILTIN_VARIABLE_NAMES \<and> list_all safe_text (elements_of v))"
proof -
  from assms have all: "list_all2 (\<lambda>x y. validate_variable x = Inr y) raw vars"
    by (simp add: validate_workflow_variables_def map_r_ok split: if_splits)
  show ?thesis
    using all
  proof (induction rule: list_all2_induct)
    case (Cons x xs y ys)
    obtain name w k v where "x = (name, w)" "y = (k, v)" by (cases x; cases y)
    with Cons validate_variable_ok [of name w k v] show ?case by auto
  qed simp
qed

text \<open>
  Accepted workflow variables are returned unchanged; their names are identifiers other
  than the built-in ones, so merging them over the built-in variables never changes a built-in;
  and no string in them holds a quote, a semicolon, a backslash or the comment start \<open>--\<close>.
\<close>

theorem validated_variables_safe:
  assumes "validate_workflow_variables raw = Inr vars"
  shows "raw = map (\<lambda>(k, v). (k, plain_value v)) vars \<and>
         (\<forall>b \<in> set BUILTIN_VARIABLE_NAMES. distinct (dict_keys raw) \<longrightarrow>
            dict_get (dict_merge (builtin_when_variables now) vars) b = dict_get (builtin_when_variables now) b) \<and>
         (\<forall>(k, v) \<in> set vars. is_identifier k \<and> (\<forall>s \<in> set (elements_of v).
            CHR 0x27 \<notin> set s \<and> CHR 0x22 \<notin> set s \<and> CHR 0x3B \<notin> set s \<and> CHR 0x5C \<notin> set s \<and> \<not> contains ''--'' s))"
proof -
  note each = validate_workflow_variables_ok [OF assms]
  have keys: "dict_keys raw = dict_keys vars" using each by (auto simp: case_prod_unfold)
  have merge: "dict_get (dict_merge (builtin_when_variables now) vars) b = dict_get (builtin_when_variables now) b"
    if b: "b \<in> set BUILTIN_VARIABLE_NAMES" and d: "distinct (dict_keys raw)" for b
  proof -
    have "dict_get vars b = None" using each b by (fastforce simp: map_of_eq_None_iff)
    with d keys show ?thesis by (simp add: dict_get_merge)
  qed
  show ?thesis
    using each merge safe_text_no_quote by (fastforce simp: list.pred_set safe_text_def)
qed

theorem validated_variables_safe_witness:
  "validate_workflow_variables [(''d'', PStr ''2026-07-07''), (''ids'', PList [PStr ''a'', PStr ''b''])] =
     Inr [(''d'', VStr ''2026-07-07''), (''ids'', VList [''a'', ''b''])] \<and>
   \<not> contains ''--'' ''2026-07-07''"
proof -
  have run: "validate_workflow_variables [(''d'', PStr ''2026-07-07''), (''ids'', PList [PStr ''a'', PStr ''b''])] =
     Inr [(''d'', VStr ''2026-07-07''), (''ids'', VList [''a'', ''b''])]" by code_simp
  from validated_variables_safe [OF run] run show ?thesis by simp
qed

end
