(* ===== verification/Workflow_Execution.thy ===== *)
theory Workflow_Execution
  imports Workflow_Spec
begin

text \<open>
  \<open>app/domain/workflow_execution.py\<close>: one planning step over a workflow definition and the
  snapshots of its child jobs. Times are integers in microseconds, the remaining backoff a
  rational number of seconds. Error texts are structured values: the constructor says which text
  the code builds and from what. \<open>runtime\<close> holds the two standard-library functions the conditions
  and payloads need: the text of a float and the parser of Python expressions.
\<close>

section \<open>Data\<close>

datatype job_status = Job_pending | Job_running | Job_success | Job_failed | Job_cancelled | Job_timeout

fun job_status_value :: "job_status \<Rightarrow> string" where
  "job_status_value Job_pending = ''pending''"
| "job_status_value Job_running = ''running''"
| "job_status_value Job_success = ''success''"
| "job_status_value Job_failed = ''failed''"
| "job_status_value Job_cancelled = ''cancelled''"
| "job_status_value Job_timeout = ''timeout''"

datatype node_status = WAITING | RUNNING | RETRY_WAIT | SUCCESS | FAILED | SKIPPED | CANCELLED

definition TERMINAL_NODE_STATUSES :: "node_status set" where
  "TERMINAL_NODE_STATUSES = {SUCCESS, FAILED, SKIPPED, CANCELLED}"

datatype edge_decision = Edge_waiting | Edge_inactive | Edge_satisfied | Edge_blocked

datatype node_error =
    Child_message string
  | Unsafe_output
  | When_failed when_error
  | Param_failed param_error
  | Branch_failed when_error
  | Route_failed "node_error option" when_error

record child_job =
  child_job_id :: string
  child_status :: job_status
  child_retry_count :: int
  child_finished_at :: "int option"
  child_error :: "string option"
  child_error_code :: "string option"
  child_outputs :: "(string, pval) dict"

record node_state =
  state_node_id :: string
  status :: node_status
  state_job_id :: "string option"
  attempts :: int
  state_error :: "node_error option"
  state_outputs :: outputs

datatype run_failure = Node_failure string node_status "node_error option"

record step_plan =
  node_states :: "(string, node_state) dict"
  enqueue_node_ids :: "string list"
  retry_job_ids :: "string list"
  cancel_job_ids :: "string list"
  run_status :: "job_status option"
  run_error :: "run_failure option"
  wait_seconds :: "rat option"

record runtime =
  rt_float_repr :: "pyfloat \<Rightarrow> string"
  rt_parse :: "string \<Rightarrow> string + expr"

datatype exec_error = Topo topo_error | Exec_key_error | Stop_iteration

type_synonym states = "(string, node_state) dict"
type_synonym route = "string option \<times> when_error option"
type_synonym route_cache = "(string \<times> trigger, route) dict"

definition plain_state :: "string \<Rightarrow> node_status \<Rightarrow> node_state" where
  "plain_state n s = \<lparr>state_node_id = n, status = s, state_job_id = None, attempts = 0, state_error = None,
     state_outputs = []\<rparr>"

section \<open>Outputs\<close>

definition is_safe_node_output_value :: "pval \<Rightarrow> bool" where
  "is_safe_node_output_value v = (case v of
       PScalar (SFloat f) \<Rightarrow> is_finite_float f
     | PScalar _ \<Rightarrow> True
     | _ \<Rightarrow> False)"

definition opt_str :: "string option \<Rightarrow> scalar" where
  "opt_str s = (case s of None \<Rightarrow> SNone | Some t \<Rightarrow> SStr t)"

definition failed_node_outputs :: "string option \<Rightarrow> string \<Rightarrow> outputs" where
  "failed_node_outputs job_id error_code =
     [(''status'', SStr ''failed''), (''job_id'', opt_str job_id), (''error_code'', SStr error_code)]"

fun filter_outputs :: "string set \<Rightarrow> outputs \<Rightarrow> (string, pval) dict \<Rightarrow> outputs option" where
  "filter_outputs allowed filtered [] = Some filtered"
| "filter_outputs allowed filtered ((key, v) # rest) =
     (if key \<notin> allowed \<or> key \<in> COMMON_NODE_OUTPUT_FIELDS then filter_outputs allowed filtered rest
      else if \<not> is_safe_node_output_value v then None
      else (case v of PScalar x \<Rightarrow> filter_outputs allowed (dict_set filtered key x) rest | _ \<Rightarrow> None))"

definition project_child_outputs :: "workflow_node \<Rightarrow> child_job \<Rightarrow> (exec_error, outputs option) result" where
  "project_child_outputs node child =
     (case dict_get NODE_OUTPUT_FIELDS_BY_KIND (job_kind node) of
        None \<Rightarrow> Inl Exec_key_error
      | Some allowed_fields \<Rightarrow>
          Inr (map_option (\<lambda>filtered.
             dict_set (dict_set (dict_set filtered ''status'' (SStr (job_status_value (child_status child))))
               ''job_id'' (SStr (child_job_id child))) ''error_code'' (opt_str (child_error_code child)))
            (filter_outputs allowed_fields [] (child_outputs child))))"

definition output_context :: "states \<Rightarrow> node_output_map" where
  "output_context sts = map (\<lambda>(n, st). (n, map (\<lambda>(f, v). (f, PScalar v)) (state_outputs st))) sts"

section \<open>The state of a node with a child job\<close>

text \<open>Retry budget and backoff of a node: its own policy, or the inherited one without backoff.\<close>

definition INHERITED_RETRY_BACKOFF_SECONDS :: int where
  "INHERITED_RETRY_BACKOFF_SECONDS = 0"

definition retry_budget :: "workflow_node \<Rightarrow> int \<Rightarrow> int \<times> int" where
  "retry_budget node default_max_retries = (case node_retry_policy node of
       Some p \<Rightarrow> (max_retries p, backoff_seconds p)
     | None \<Rightarrow> (default_max_retries, INHERITED_RETRY_BACKOFF_SECONDS))"

definition remaining_backoff :: "int \<Rightarrow> int \<Rightarrow> int option \<Rightarrow> rat" where
  "remaining_backoff backoff now finished =
     (let finished_at = (case finished of Some f \<Rightarrow> f | None \<Rightarrow> now)
      in of_int backoff - of_int (now - finished_at) / 1000000)"

definition child_state ::
    "workflow_node \<Rightarrow> child_job \<Rightarrow> node_status \<Rightarrow> node_error option \<Rightarrow> outputs \<Rightarrow> node_state" where
  "child_state node child s err outs = \<lparr>state_node_id = node_id node, status = s,
     state_job_id = Some (child_job_id child), attempts = child_retry_count child, state_error = err,
     state_outputs = outs\<rparr>"

text \<open>The result: the state, the retry list and the wait candidates.\<close>

definition state_from_child ::
    "workflow_node \<Rightarrow> child_job \<Rightarrow> int \<Rightarrow> int \<Rightarrow> string list \<Rightarrow> rat list
     \<Rightarrow> (exec_error, node_state \<times> string list \<times> rat list) result" where
  "state_from_child node child now default_max_retries retry waits =
     rbind (project_child_outputs node child) (\<lambda>projected.
       Inr (case projected of
         None \<Rightarrow> (child_state node child FAILED (Some Unsafe_output)
             (failed_node_outputs (Some (child_job_id child)) ''unsafe_node_output_value''), retry, waits)
       | Some outs \<Rightarrow>
           (let err = map_option Child_message (child_error child) in
            case child_status child of
              Job_success \<Rightarrow> (child_state node child SUCCESS None outs, retry, waits)
            | Job_cancelled \<Rightarrow> (child_state node child CANCELLED err outs, retry, waits)
            | Job_pending \<Rightarrow> (child_state node child RUNNING None outs, retry, waits)
            | Job_running \<Rightarrow> (child_state node child RUNNING None outs, retry, waits)
            | _ \<Rightarrow>
                (case retry_budget node default_max_retries of (max_tries, backoff) \<Rightarrow>
                  if child_retry_count child < max_tries then
                    (let remaining = remaining_backoff backoff now (child_finished_at child)
                     in if remaining \<le> 0
                        then (child_state node child RETRY_WAIT err outs, retry @ [child_job_id child], waits)
                        else (child_state node child RETRY_WAIT err outs, retry, waits @ [remaining]))
                  else (child_state node child FAILED err outs, retry, waits)))))"

section \<open>Routes\<close>

fun pick_route :: "(workflow_edge \<Rightarrow> (when_error, bool) result) \<Rightarrow> string \<Rightarrow> workflow_edge list \<Rightarrow> (when_error, string) result" where
  "pick_route test selected [] = Inr selected"
| "pick_route test selected (e # es) =
     (if is_default e then pick_route test selected es
      else rbind (test e) (\<lambda>b. if b then Inr (edge_target e) else pick_route test selected es))"

definition selected_route ::
    "runtime \<Rightarrow> variables \<Rightarrow> string \<Rightarrow> trigger \<Rightarrow> workflow_edge list \<Rightarrow> states \<Rightarrow> route_cache
     \<Rightarrow> (exec_error, route_cache \<times> route) result" where
  "selected_route rt vars n t es sts cache =
     (case dict_get cache (n, t) of
        Some cached \<Rightarrow> Inr (cache, cached)
      | None \<Rightarrow>
          (let matching = filter (\<lambda>e. edge_trigger e = t) es in
           case find is_default matching of
             None \<Rightarrow> Inl Stop_iteration
           | Some default_edge \<Rightarrow>
               (let ctx = output_context sts;
                    ctx = (if t = Success_edge \<and> dict_get ctx n = None
                           then dict_set ctx n [(''status'', PStr ''success''), (''job_id'', PNone),
                                  (''error_code'', PNone), (''selected_target'', PNone)]
                           else ctx);
                    test = (\<lambda>e. evaluate_when (rt_float_repr rt) (rt_parse rt) (edge_when e) vars ctx);
                    decision = (case pick_route test (edge_target default_edge) matching of
                        Inl err \<Rightarrow> (None, Some err)
                      | Inr target \<Rightarrow> (Some target, None))
                in Inr (dict_set cache (n, t) decision, decision))))"

definition error_truthy :: "node_error option \<Rightarrow> bool" where
  "error_truthy e \<longleftrightarrow> e \<noteq> None \<and> e \<noteq> Some (Child_message [])"

definition with_failure_route_error ::
    "runtime \<Rightarrow> variables \<Rightarrow> workflow_node \<Rightarrow> node_state \<Rightarrow> workflow_edge list \<Rightarrow> states \<Rightarrow> route_cache
     \<Rightarrow> (exec_error, route_cache \<times> node_state) result" where
  "with_failure_route_error rt vars node st es sts cache =
     (if status st \<noteq> FAILED \<or> node_on_failure node \<noteq> Branch_route then Inr (cache, st)
      else rbind (selected_route rt vars (node_id node) Failure_edge es sts cache) (\<lambda>(cache', route).
        case snd route of
          None \<Rightarrow> Inr (cache', st)
        | Some err \<Rightarrow>
            Inr (cache', st\<lparr>state_error :=
              Some (Route_failed (if error_truthy (state_error st) then state_error st else None) err)\<rparr>)))"

definition decide_edge ::
    "runtime \<Rightarrow> variables \<Rightarrow> (string, workflow_node) dict \<Rightarrow> (string, workflow_edge list) dict \<Rightarrow> states \<Rightarrow> string set
     \<Rightarrow> route_cache \<Rightarrow> workflow_edge \<Rightarrow> (exec_error, route_cache \<times> edge_decision) result" where
  "decide_edge rt vars by_id outgoing sts inactive cache e =
     (case dict_get sts (edge_source e) of
        None \<Rightarrow> Inl Exec_key_error
      | Some source_state \<Rightarrow>
          if status source_state \<notin> TERMINAL_NODE_STATUSES then Inr (cache, Edge_waiting)
          else if edge_source e \<in> inactive then Inr (cache, Edge_inactive)
          else (case dict_get by_id (edge_source e) of
             None \<Rightarrow> Inl Exec_key_error
           | Some source_node \<Rightarrow>
               if edge_trigger e = Success_edge then
                 Inr (cache,
                   if job_kind source_node = ''branch'' then
                     (if status source_state \<noteq> SUCCESS then Edge_inactive
                      else if dict_get (state_outputs source_state) ''selected_target'' = Some (SStr (edge_target e))
                      then Edge_satisfied else Edge_inactive)
                   else if status source_state = SUCCESS then Edge_satisfied
                   else if status source_state = FAILED \<and> node_on_failure source_node = Branch_route then Edge_inactive
                   else Edge_blocked)
               else if status source_state \<noteq> FAILED then Inr (cache, Edge_inactive)
               else (case dict_get outgoing (edge_source e) of
                  None \<Rightarrow> Inl Exec_key_error
                | Some es \<Rightarrow>
                    rbind (selected_route rt vars (edge_source e) Failure_edge es sts cache) (\<lambda>(cache', route).
                      Inr (cache', if snd route = None \<and> fst route = Some (edge_target e)
                                   then Edge_satisfied else Edge_inactive)))))"

fun decide_edges ::
    "(route_cache \<Rightarrow> workflow_edge \<Rightarrow> (exec_error, route_cache \<times> edge_decision) result) \<Rightarrow> route_cache
     \<Rightarrow> workflow_edge list \<Rightarrow> (exec_error, route_cache \<times> edge_decision list) result" where
  "decide_edges decide cache [] = Inr (cache, [])"
| "decide_edges decide cache (e # es) =
     rbind (decide cache e) (\<lambda>(cache', d).
     rbind (decide_edges decide cache' es) (\<lambda>(cache'', ds). Inr (cache'', d # ds)))"

section \<open>The loop over the nodes\<close>

record acc =
  acc_states :: states
  acc_routes :: route_cache
  acc_inactive :: "string set"
  acc_enqueue :: "string list"
  acc_retry :: "string list"
  acc_waits :: "rat list"

record plan_input =
  in_runtime :: runtime
  in_vars :: variables
  in_children :: "(string, child_job) dict"
  in_now :: int
  in_max_retries :: int
  in_by_id :: "(string, workflow_node) dict"
  in_incoming :: "(string, workflow_edge list) dict"
  in_outgoing :: "(string, workflow_edge list) dict"

definition dict_at :: "('k, 'v) dict \<Rightarrow> 'k \<Rightarrow> (exec_error, 'v) result" where
  "dict_at d k = (case dict_get d k of None \<Rightarrow> Inl Exec_key_error | Some v \<Rightarrow> Inr v)"

text \<open>\<open>states[node.id] = state\<close>, then the failure route of a failed node.\<close>

definition settle :: "plan_input \<Rightarrow> workflow_node \<Rightarrow> node_state \<Rightarrow> acc \<Rightarrow> (exec_error, acc) result" where
  "settle inp node st a =
     rbind (dict_at (in_outgoing inp) (node_id node)) (\<lambda>es.
       let sts = dict_set (acc_states a) (node_id node) st in
       rbind (with_failure_route_error (in_runtime inp) (in_vars inp) node st es sts (acc_routes a)) (\<lambda>(cache, st').
         Inr (a\<lparr>acc_states := dict_set sts (node_id node) st', acc_routes := cache\<rparr>)))"

definition put_state :: "node_state \<Rightarrow> acc \<Rightarrow> acc" where
  "put_state st a = a\<lparr>acc_states := dict_set (acc_states a) (state_node_id st) st\<rparr>"

definition failed_state :: "workflow_node \<Rightarrow> node_error \<Rightarrow> string \<Rightarrow> node_state" where
  "failed_state node err code =
     (plain_state (node_id node) FAILED)\<lparr>state_error := Some err, state_outputs := failed_node_outputs None code\<rparr>"

text \<open>A node whose upstream lets it run: its condition, its payload, its route, then the queue.\<close>

definition plan_ready :: "plan_input \<Rightarrow> workflow_node \<Rightarrow> acc \<Rightarrow> (exec_error, acc) result" where
  "plan_ready inp node a =
     (let rt = in_runtime inp; ctx = output_context (acc_states a) in
      case evaluate_when (rt_float_repr rt) (rt_parse rt) (node_when node) (in_vars inp) ctx of
        Inl err \<Rightarrow> settle inp node (failed_state node (When_failed err) ''when_evaluation_failed'') a
      | Inr False \<Rightarrow> Inr (put_state (plain_state (node_id node) SKIPPED) a)
      | Inr True \<Rightarrow>
          (case interpolate_payload (rt_float_repr rt) (node_payload node) (in_vars inp) ctx of
             Inl err \<Rightarrow> settle inp node (failed_state node (Param_failed err) ''param_interpolation_failed'') a
           | Inr _ \<Rightarrow>
               if job_kind node = ''branch'' then
                 rbind (dict_at (in_outgoing inp) (node_id node)) (\<lambda>es.
                 rbind (selected_route rt (in_vars inp) (node_id node) Success_edge es (acc_states a) (acc_routes a))
                   (\<lambda>(cache, route). let a' = a\<lparr>acc_routes := cache\<rparr> in
                     case snd route of
                       Some err \<Rightarrow> settle inp node (failed_state node (Branch_failed err) ''branch_evaluation_failed'') a'
                     | None \<Rightarrow>
                         Inr ((put_state ((plain_state (node_id node) WAITING)
                                 \<lparr>state_outputs := [(''selected_target'', opt_str (fst route))]\<rparr>) a')
                              \<lparr>acc_enqueue := acc_enqueue a @ [node_id node]\<rparr>)))
               else Inr ((put_state (plain_state (node_id node) WAITING) a)
                          \<lparr>acc_enqueue := acc_enqueue a @ [node_id node]\<rparr>)))"

definition plan_node :: "plan_input \<Rightarrow> acc \<Rightarrow> workflow_node \<Rightarrow> (exec_error, acc) result" where
  "plan_node inp a node =
     (case dict_get (in_children inp) (node_id node) of
        Some child \<Rightarrow>
          rbind (state_from_child node child (in_now inp) (in_max_retries inp) (acc_retry a) (acc_waits a))
            (\<lambda>(st, retry, waits). settle inp node st (a\<lparr>acc_retry := retry, acc_waits := waits\<rparr>))
      | None \<Rightarrow>
          rbind (dict_at (in_incoming inp) (node_id node)) (\<lambda>incoming.
            if incoming = [] then plan_ready inp node a
            else rbind (decide_edges (decide_edge (in_runtime inp) (in_vars inp) (in_by_id inp) (in_outgoing inp)
                          (acc_states a) (acc_inactive a)) (acc_routes a) incoming) (\<lambda>(cache, decisions).
              let a' = a\<lparr>acc_routes := cache\<rparr> in
              if Edge_waiting \<in> set decisions then Inr (put_state (plain_state (node_id node) WAITING) a')
              else if list_all (\<lambda>d. d = Edge_inactive) decisions then
                Inr ((put_state (plain_state (node_id node) SKIPPED) a')\<lparr>acc_inactive := insert (node_id node) (acc_inactive a)\<rparr>)
              else if Edge_blocked \<in> set decisions then Inr (put_state (plain_state (node_id node) SKIPPED) a')
              else plan_ready inp node a')))"

section \<open>The step\<close>

definition node_failure_message :: "node_state \<Rightarrow> run_failure" where
  "node_failure_message st = Node_failure (state_node_id st) (status st)
     (if error_truthy (state_error st) then state_error st else None)"

fun abort_error :: "(string, workflow_node) dict \<Rightarrow> states \<Rightarrow> (exec_error, run_failure option) result" where
  "abort_error by_id [] = Inr None"
| "abort_error by_id ((n, st) # rest) =
     (if status st = FAILED
      then rbind (dict_at by_id n) (\<lambda>node.
             if node_on_failure node = Abort then Inr (Some (node_failure_message st)) else abort_error by_id rest)
      else abort_error by_id rest)"

definition cancelled_state :: "string \<Rightarrow> node_state \<Rightarrow> node_state" where
  "cancelled_state n st = \<lparr>state_node_id = n, status = CANCELLED, state_job_id = state_job_id st,
     attempts = attempts st, state_error = state_error st, state_outputs = []\<rparr>"

definition topological_nodes :: "workflow_spec \<Rightarrow> (exec_error, workflow_node list) result" where
  "topological_nodes spec =
     (case topological_ids (map node_id (nodes spec)) (edge_pairs spec) of
        Inl e \<Rightarrow> Inl (Topo e)
      | Inr ids \<Rightarrow> map_r (dict_at (nodes_by_id (nodes spec))) ids)"

definition exec_graph :: "(dag_error, 'a) result \<Rightarrow> (exec_error, 'a) result" where
  "exec_graph r = (case r of Inl e \<Rightarrow> Inl Exec_key_error | Inr x \<Rightarrow> Inr x)"

definition finish_plan :: "plan_input \<Rightarrow> acc \<Rightarrow> (exec_error, step_plan) result" where
  "finish_plan inp a = (let sts = acc_states a in
     rbind (abort_error (in_by_id inp) sts) (\<lambda>abort.
       Inr (case abort of
         Some err \<Rightarrow>
           \<lparr>node_states = map (\<lambda>(n, st). (n, if status st \<in> TERMINAL_NODE_STATUSES then st else cancelled_state n st)) sts,
            enqueue_node_ids = [], retry_job_ids = [],
            cancel_job_ids = map child_job_id (filter (\<lambda>c. child_status c \<in> {Job_pending, Job_running}) (dict_values (in_children inp))),
            run_status = Some Job_failed, run_error = Some err, wait_seconds = None\<rparr>
       | None \<Rightarrow>
           if list_all (\<lambda>st. status st \<in> TERMINAL_NODE_STATUSES) (dict_values sts) then
             (case filter (\<lambda>st. status st \<in> {FAILED, CANCELLED}) (dict_values sts) of
                first # _ \<Rightarrow>
                  \<lparr>node_states = sts, enqueue_node_ids = [], retry_job_ids = [], cancel_job_ids = [],
                   run_status = Some Job_failed, run_error = Some (node_failure_message first), wait_seconds = None\<rparr>
              | [] \<Rightarrow>
                  \<lparr>node_states = sts, enqueue_node_ids = [], retry_job_ids = [], cancel_job_ids = [],
                   run_status = Some Job_success, run_error = None, wait_seconds = None\<rparr>)
           else
             \<lparr>node_states = sts, enqueue_node_ids = acc_enqueue a, retry_job_ids = acc_retry a, cancel_job_ids = [],
              run_status = None, run_error = None,
              wait_seconds = (if acc_waits a = [] then None else Some (Min (set (acc_waits a))))\<rparr>)))"

definition empty_acc :: acc where
  "empty_acc = \<lparr>acc_states = [], acc_routes = [], acc_inactive = {}, acc_enqueue = [], acc_retry = [], acc_waits = []\<rparr>"

definition plan_workflow_step ::
    "runtime \<Rightarrow> workflow_spec \<Rightarrow> (string, child_job) dict \<Rightarrow> int \<Rightarrow> int \<Rightarrow> variables
     \<Rightarrow> (exec_error, step_plan) result" where
  "plan_workflow_step rt spec children now default_max_retries vars =
     (let ids = map node_id (nodes spec) in
      rbind (exec_graph (group_edges edge_target (\<lambda>e. e) ids (edges spec))) (\<lambda>incoming.
      rbind (exec_graph (group_edges edge_source (\<lambda>e. e) ids (edges spec))) (\<lambda>outgoing.
      rbind (topological_nodes spec) (\<lambda>order.
        let inp = \<lparr>in_runtime = rt, in_vars = vars, in_children = children, in_now = now,
                   in_max_retries = default_max_retries, in_by_id = nodes_by_id (nodes spec),
                   in_incoming = incoming, in_outgoing = outgoing\<rparr>
        in rbind (fold_r (plan_node inp) empty_acc order) (finish_plan inp)))))"

section \<open>Every call returns\<close>

definition has_default :: "trigger \<Rightarrow> workflow_edge list \<Rightarrow> bool" where
  "has_default t es \<longleftrightarrow> (\<exists>e \<in> set es. edge_trigger e = t \<and> is_default e)"

lemma selected_route_total:
  assumes "has_default t es"
  shows "\<exists>cache' route. selected_route rt vars n t es sts cache = Inr (cache', route)"
proof -
  from assms obtain d where "find is_default (filter (\<lambda>e. edge_trigger e = t) es) = Some d"
    by (cases "find is_default (filter (\<lambda>e. edge_trigger e = t) es)")
       (auto simp: find_None_iff has_default_def)
  then show ?thesis by (simp add: selected_route_def Let_def split: option.split)
qed

lemma with_failure_route_error_total:
  assumes "node_on_failure node = Branch_route \<Longrightarrow> has_default Failure_edge es"
  shows "\<exists>cache' err. with_failure_route_error rt vars node st es sts cache = Inr (cache', st\<lparr>state_error := err\<rparr>)"
proof (cases "status st \<noteq> FAILED \<or> node_on_failure node \<noteq> Branch_route")
  case True
  then show ?thesis by (auto simp: with_failure_route_error_def intro!: exI [of _ "state_error st"])
next
  case False
  with assms selected_route_total [of Failure_edge es rt vars "node_id node" sts cache] obtain c r where
    "selected_route rt vars (node_id node) Failure_edge es sts cache = Inr (c, r)" by auto
  then show ?thesis
  proof (cases "snd r")
    case None
    with False \<open>selected_route _ _ _ _ _ _ _ = _\<close> show ?thesis
      by (auto simp: with_failure_route_error_def intro!: exI [of _ "state_error st"])
  next
    case (Some err)
    with False \<open>selected_route _ _ _ _ _ _ _ = _\<close> show ?thesis
      by (auto simp: with_failure_route_error_def)
  qed
qed

lemma settle_total:
  assumes "dict_get (in_outgoing inp) (node_id node) = Some es"
    and "node_on_failure node = Branch_route \<Longrightarrow> has_default Failure_edge es"
    and "node_id node \<notin> fst ` set (acc_states a)"
  shows "\<exists>cache err. settle inp node st a =
           Inr (a\<lparr>acc_states := acc_states a @ [(node_id node, st\<lparr>state_error := err\<rparr>)], acc_routes := cache\<rparr>)"
proof -
  let ?sts = "dict_set (acc_states a) (node_id node) st"
  from with_failure_route_error_total [of node es "in_runtime inp" "in_vars inp" st ?sts "acc_routes a", OF assms(2)]
  obtain c err where "with_failure_route_error (in_runtime inp) (in_vars inp) node st es ?sts (acc_routes a)
      = Inr (c, st\<lparr>state_error := err\<rparr>)" by blast
  moreover have "dict_set ?sts (node_id node) x = acc_states a @ [(node_id node, x)]" for x
    by (subst update_last) (rule dict_keys_set_new [OF assms(3)])
  ultimately have "settle inp node st a =
      Inr (a\<lparr>acc_states := acc_states a @ [(node_id node, st\<lparr>state_error := err\<rparr>)], acc_routes := c\<rparr>)"
    using assms(1) unfolding settle_def dict_at_def Let_def by (simp only: option.case rbind_simps prod.case)
  then show ?thesis by blast
qed

section \<open>What one node adds\<close>

text \<open>Facts the validated definition gives the planner.\<close>

definition input_of :: "workflow_spec \<Rightarrow> plan_input \<Rightarrow> bool" where
  "input_of spec inp \<longleftrightarrow> well_formed_dag spec \<and> kinds_supported spec \<and>
     in_by_id inp = nodes_by_id (nodes spec) \<and>
     (\<forall>k \<in> node_id ` set (nodes spec).
        dict_get (in_incoming inp) k = Some (filter (\<lambda>e. edge_target e = k) (edges spec)) \<and>
        dict_get (in_outgoing inp) k = Some (filter (\<lambda>e. edge_source e = k) (edges spec)))"

lemma first_match_default: "first_match_ok (edges_from spec t n) k \<Longrightarrow>
    has_default t (filter (\<lambda>e. edge_source e = n) (edges spec))"
proof -
  assume "first_match_ok (edges_from spec t n) k"
  then have "filter is_default (edges_from spec t n) \<noteq> []" by (auto simp: first_match_ok_def)
  then show ?thesis by (auto simp: has_default_def edges_from_def filter_empty_conv)
qed

lemma input_routes:
  assumes "input_of spec inp" and "n \<in> set (nodes spec)"
  shows "node_on_failure n = Branch_route \<Longrightarrow> has_default Failure_edge (filter (\<lambda>e. edge_source e = node_id n) (edges spec))"
    and "job_kind n = ''branch'' \<Longrightarrow> has_default Success_edge (filter (\<lambda>e. edge_source e = node_id n) (edges spec))"
proof -
  from assms have r: "routes_ok spec n" by (simp add: input_of_def well_formed_dag_def)
  show "node_on_failure n = Branch_route \<Longrightarrow> has_default Failure_edge (filter (\<lambda>e. edge_source e = node_id n) (edges spec))"
    using r by (auto simp: routes_ok_def Let_def intro: first_match_default)
  show "job_kind n = ''branch'' \<Longrightarrow> has_default Success_edge (filter (\<lambda>e. edge_source e = node_id n) (edges spec))"
    using r first_match_default [of spec Success_edge "node_id n" 2] by (simp add: routes_ok_def Let_def)
qed

lemma failure_edge_source:
  assumes "input_of spec inp" and "n \<in> set (nodes spec)" and "e \<in> set (edges spec)"
    and "edge_source e = node_id n" and "edge_trigger e = Failure_edge"
  shows "node_on_failure n = Branch_route"
proof -
  from assms have "e \<in> set (edges_from spec Failure_edge (node_id n))" by (simp add: edges_from_def)
  moreover from assms have "routes_ok spec n" by (simp add: input_of_def well_formed_dag_def)
  ultimately show ?thesis by (auto simp: routes_ok_def Let_def split: if_splits)
qed

definition terminal_at :: "states \<Rightarrow> string \<Rightarrow> bool" where
  "terminal_at sts n \<longleftrightarrow> (\<exists>st. dict_get sts n = Some st \<and> status st \<in> TERMINAL_NODE_STATUSES)"

lemma decide_edge_total:
  assumes inp: "input_of spec inp" and e: "e \<in> set (edges spec)"
    and src: "edge_source e \<in> fst ` set sts"
  shows "\<exists>cache' d. decide_edge rt vars (in_by_id inp) (in_outgoing inp) sts inactive cache e = Inr (cache', d) \<and>
           (d = Edge_waiting \<longleftrightarrow> \<not> terminal_at sts (edge_source e))"
proof -
  from src obtain st where st: "dict_get sts (edge_source e) = Some st"
    by (metis map_of_eq_None_iff not_Some_eq)
  from inp e obtain n where n: "n \<in> set (nodes spec)" "node_id n = edge_source e"
    by (auto simp: input_of_def well_formed_dag_def edges_ok_def)
  have by_id: "dict_get (in_by_id inp) (edge_source e) = Some n"
    using inp n by (simp add: input_of_def well_formed_dag_def nodes_by_id_get)
  have out: "dict_get (in_outgoing inp) (edge_source e) = Some (filter (\<lambda>e'. edge_source e' = edge_source e) (edges spec))"
    using inp n by (auto simp: input_of_def)
  have route: "\<exists>c r. selected_route rt vars (edge_source e) Failure_edge
      (filter (\<lambda>e'. edge_source e' = edge_source e) (edges spec)) sts cache = Inr (c, r)"
    if "edge_trigger e \<noteq> Success_edge"
  proof -
    from that have "edge_trigger e = Failure_edge" by (cases "edge_trigger e") auto
    with failure_edge_source [OF inp n(1) e] n have "node_on_failure n = Branch_route" by simp
    from selected_route_total [OF input_routes(1) [OF inp n(1) this]] n show ?thesis by simp
  qed
  show ?thesis
  proof (cases "edge_trigger e = Success_edge \<or> status st \<noteq> FAILED")
    case True
    then show ?thesis by (auto simp: decide_edge_def st by_id terminal_at_def)
  next
    case False
    with route obtain c r where "selected_route rt vars (edge_source e) Failure_edge
      (filter (\<lambda>e'. edge_source e' = edge_source e) (edges spec)) sts cache = Inr (c, r)" by auto
    with False show ?thesis by (auto simp: decide_edge_def st by_id out terminal_at_def)
  qed
qed

lemma decide_edges_total:
  assumes inp: "input_of spec inp" and es: "set es \<subseteq> set (edges spec)"
    and src: "\<forall>e \<in> set es. edge_source e \<in> fst ` set sts"
  shows "\<exists>cache' ds. decide_edges (decide_edge rt vars (in_by_id inp) (in_outgoing inp) sts inactive) cache es
             = Inr (cache', ds) \<and>
           list_all2 (\<lambda>e d. d = Edge_waiting \<longleftrightarrow> \<not> terminal_at sts (edge_source e)) es ds"
  using es src
proof (induction es arbitrary: cache)
  case (Cons e es)
  then have e: "e \<in> set (edges spec)" and s: "edge_source e \<in> fst ` set sts" by auto
  from decide_edge_total [OF inp e s, of rt vars inactive cache] obtain c d where
    d: "decide_edge rt vars (in_by_id inp) (in_outgoing inp) sts inactive cache e = Inr (c, d)"
      "(d = Edge_waiting) = (\<not> terminal_at sts (edge_source e))" by blast
  from Cons.IH [of c] Cons.prems obtain c' ds where
    "decide_edges (decide_edge rt vars (in_by_id inp) (in_outgoing inp) sts inactive) c es = Inr (c', ds)"
    "list_all2 (\<lambda>e d. d = Edge_waiting \<longleftrightarrow> \<not> terminal_at sts (edge_source e)) es ds" by auto
  with d show ?case by simp
qed simp

definition sources_of :: "workflow_spec \<Rightarrow> string \<Rightarrow> string set" where
  "sources_of spec n = edge_source ` {e \<in> set (edges spec). edge_target e = n}"

text \<open>How the state of a node without a child job arises, and what joins the queue.\<close>

definition fresh_step :: "workflow_spec \<Rightarrow> acc \<Rightarrow> workflow_node \<Rightarrow> node_state \<Rightarrow> acc \<Rightarrow> bool" where
  "fresh_step spec a n st a' \<longleftrightarrow>
     acc_retry a' = acc_retry a \<and> acc_waits a' = acc_waits a \<and>
     (if \<forall>m \<in> sources_of spec (node_id n). terminal_at (acc_states a) m
      then (if status st = WAITING then acc_enqueue a' = acc_enqueue a @ [node_id n]
            else status st \<in> {SKIPPED, FAILED} \<and> acc_enqueue a' = acc_enqueue a)
      else status st = WAITING \<and> acc_enqueue a' = acc_enqueue a)"

definition retry_due :: "int \<Rightarrow> int \<Rightarrow> workflow_node \<Rightarrow> child_job \<Rightarrow> bool" where
  "retry_due now default_max_retries n c \<longleftrightarrow>
     (case retry_budget n default_max_retries of (max_tries, backoff) \<Rightarrow>
        child_status c \<in> {Job_failed, Job_timeout} \<and> child_retry_count c < max_tries \<and>
        remaining_backoff backoff now (child_finished_at c) \<le> 0)"

definition child_step :: "plan_input \<Rightarrow> acc \<Rightarrow> workflow_node \<Rightarrow> child_job \<Rightarrow> node_state \<Rightarrow> acc \<Rightarrow> bool" where
  "child_step inp a n c st a' \<longleftrightarrow>
     acc_enqueue a' = acc_enqueue a \<and> state_job_id st = Some (child_job_id c) \<and>
     status st \<notin> {WAITING, SKIPPED} \<and>
     (status st = SUCCESS \<longrightarrow> child_status c = Job_success) \<and>
     (status st = RUNNING \<longrightarrow> child_status c \<in> {Job_pending, Job_running}) \<and>
     (if status st = RETRY_WAIT
      then (acc_retry a' = acc_retry a @ [child_job_id c] \<and> acc_waits a' = acc_waits a \<and>
              retry_due (in_now inp) (in_max_retries inp) n c) \<or>
           (\<exists>w > 0. acc_retry a' = acc_retry a \<and> acc_waits a' = acc_waits a @ [w])
      else acc_retry a' = acc_retry a \<and> acc_waits a' = acc_waits a)"

lemma state_from_child_step:
  assumes "job_kind n \<in> set SUPPORTED_WORKFLOW_NODE_KINDS_V1"
    and that: "in_now inp = now" "in_max_retries inp = mr"
  shows "\<exists>st retry waits. state_from_child n c now mr r w = Inr (st, retry, waits) \<and>
     state_node_id st = node_id n \<and>
     (\<forall>err sts cache. child_step inp (a\<lparr>acc_retry := r, acc_waits := w\<rparr>) n c (st\<lparr>state_error := err\<rparr>)
       (a\<lparr>acc_retry := retry, acc_waits := waits, acc_states := sts, acc_routes := cache\<rparr>))"
proof -
  from supported_kind_fields [OF assms(1)] obtain fields where
    f: "dict_get NODE_OUTPUT_FIELDS_BY_KIND (job_kind n) = Some fields" by blast
  obtain mx bo where b: "retry_budget n mr = (mx, bo)" by (cases "retry_budget n mr")
  obtain p where p: "project_child_outputs n c = Inr p" by (simp add: project_child_outputs_def f)
  show ?thesis
  proof (cases p)
    case None
    with p show ?thesis by (simp add: state_from_child_def child_step_def child_state_def)
  next
    case (Some outs)
    show ?thesis
      by (cases "child_status c")
        (simp_all add: state_from_child_def p Some child_step_def child_state_def b Let_def that retry_due_def)
  qed
qed

text \<open>One step appends the node's state, whatever happens.\<close>

definition appends :: "acc \<Rightarrow> workflow_node \<Rightarrow> node_state \<Rightarrow> acc \<Rightarrow> bool" where
  "appends a n st a' \<longleftrightarrow> acc_states a' = acc_states a @ [(node_id n, st)] \<and> state_node_id st = node_id n"

lemma put_state_appends:
  "node_id n \<notin> fst ` set (acc_states a) \<Longrightarrow> state_node_id st = node_id n \<Longrightarrow>
   put_state st a = a\<lparr>acc_states := acc_states a @ [(node_id n, st)]\<rparr>"
  by (simp add: put_state_def dict_keys_set_new)

lemma settle_failed:
  assumes inp: "input_of spec inp" and n: "n \<in> set (nodes spec)"
    and new: "node_id n \<notin> fst ` set (acc_states a)"
  shows "\<exists>a' st. settle inp n (failed_state n err code) a = Inr a' \<and> appends a n st a' \<and> status st = FAILED \<and>
           acc_enqueue a' = acc_enqueue a \<and> acc_retry a' = acc_retry a \<and> acc_waits a' = acc_waits a"
proof -
  have out: "dict_get (in_outgoing inp) (node_id n) = Some (filter (\<lambda>e. edge_source e = node_id n) (edges spec))"
    using inp n by (auto simp: input_of_def)
  from settle_total [OF out input_routes(1) [OF inp n] new, of "failed_state n err code"] show ?thesis
    by (auto simp: appends_def failed_state_def plain_state_def)
qed

lemma plan_ready_step:
  assumes inp: "input_of spec inp" and n: "n \<in> set (nodes spec)"
    and new: "node_id n \<notin> fst ` set (acc_states a)"
  shows "\<exists>a' st. plan_ready inp n a = Inr a' \<and> appends a n st a' \<and>
           acc_retry a' = acc_retry a \<and> acc_waits a' = acc_waits a \<and>
           (if status st = WAITING then acc_enqueue a' = acc_enqueue a @ [node_id n]
            else status st \<in> {SKIPPED, FAILED} \<and> acc_enqueue a' = acc_enqueue a)"
proof -
  let ?rt = "in_runtime inp" and ?ctx = "output_context (acc_states a)"
  note failed = settle_failed [OF inp n]
  note defs = plan_ready_def Let_def
  note put = put_state_appends [OF new] appends_def plain_state_def
  have out: "dict_get (in_outgoing inp) (node_id n) = Some (filter (\<lambda>e. edge_source e = node_id n) (edges spec))"
    using inp n by (auto simp: input_of_def)
  show ?thesis
  proof (cases "evaluate_when (rt_float_repr ?rt) (rt_parse ?rt) (node_when n) (in_vars inp) ?ctx")
    case (Inl err)
    from failed [OF new, of "When_failed err" "''when_evaluation_failed''"] obtain a' st where
      "settle inp n (failed_state n (When_failed err) ''when_evaluation_failed'') a = Inr a'"
      "appends a n st a'" "status st = FAILED" "acc_enqueue a' = acc_enqueue a"
      "acc_retry a' = acc_retry a" "acc_waits a' = acc_waits a" by auto
    with Inl show ?thesis by (intro exI [of _ a'] exI [of _ st]) (simp add: defs)
  next
    case w: (Inr b)
    show ?thesis
    proof (cases b)
      case False
      with w show ?thesis by (simp add: defs put)
    next
      case True
      show ?thesis
      proof (cases "interpolate_payload (rt_float_repr ?rt) (node_payload n) (in_vars inp) ?ctx")
        case (Inl err)
        from failed [OF new, of "Param_failed err" "''param_interpolation_failed''"] obtain a' st where
          "settle inp n (failed_state n (Param_failed err) ''param_interpolation_failed'') a = Inr a'"
          "appends a n st a'" "status st = FAILED" "acc_enqueue a' = acc_enqueue a"
          "acc_retry a' = acc_retry a" "acc_waits a' = acc_waits a" by auto
        with w True Inl show ?thesis by (intro exI [of _ a'] exI [of _ st]) (simp add: defs)
      next
        case p: (Inr x)
        show ?thesis
        proof (cases "job_kind n = ''branch''")
          case False
          with w True p show ?thesis by (simp add: defs put)
        next
          case branch: True
          obtain c r where r: "selected_route ?rt (in_vars inp) (node_id n) Success_edge
              (filter (\<lambda>e. edge_source e = node_id n) (edges spec)) (acc_states a) (acc_routes a) = Inr (c, r)"
            using selected_route_total [OF input_routes(2) [OF inp n branch]] by blast
          have new': "node_id n \<notin> fst ` set (acc_states (a\<lparr>acc_routes := c\<rparr>))" using new by simp
          show ?thesis
          proof (cases "snd r")
            case None
            with w True p branch out r show ?thesis by (simp add: defs put_state_appends [OF new'] put(2,3) dict_at_def)
          next
            case (Some err)
            from failed [OF new', of "Branch_failed err" "''branch_evaluation_failed''"] obtain a' st where
              "settle inp n (failed_state n (Branch_failed err) ''branch_evaluation_failed'') (a\<lparr>acc_routes := c\<rparr>) = Inr a'"
              "appends (a\<lparr>acc_routes := c\<rparr>) n st a'" "status st = FAILED" "acc_enqueue a' = acc_enqueue a"
              "acc_retry a' = acc_retry a" "acc_waits a' = acc_waits a" by auto
            with w True p branch out r Some show ?thesis by (intro exI [of _ a'] exI [of _ st]) (simp add: defs dict_at_def appends_def)
          qed
        qed
      qed
    qed
  qed
qed

lemma decisions_waiting:
  "list_all2 (\<lambda>e d. d = x \<longleftrightarrow> \<not> P (f e)) es ds \<Longrightarrow> (\<forall>m \<in> f ` set es. P m) \<longleftrightarrow> x \<notin> set ds"
  by (induction rule: list_all2_induct) auto

lemma plan_node_step:
  assumes inp: "input_of spec inp" and n: "n \<in> set (nodes spec)"
    and new: "node_id n \<notin> fst ` set (acc_states a)"
    and src: "sources_of spec (node_id n) \<subseteq> fst ` set (acc_states a)"
  shows "\<exists>a' st. plan_node inp a n = Inr a' \<and> appends a n st a' \<and>
           (case dict_get (in_children inp) (node_id n) of
              Some c \<Rightarrow> child_step inp a n c st a'
            | None \<Rightarrow> fresh_step spec a n st a')"
proof (cases "dict_get (in_children inp) (node_id n)")
  case (Some c)
  have k: "job_kind n \<in> set SUPPORTED_WORKFLOW_NODE_KINDS_V1"
    using inp n by (simp add: input_of_def kinds_supported_def)
  from state_from_child_step [OF k refl refl, where c = c and r = "acc_retry a" and w = "acc_waits a" and a = a and inp = inp] obtain st retry waits where
    st: "state_from_child n c (in_now inp) (in_max_retries inp) (acc_retry a) (acc_waits a) = Inr (st, retry, waits)"
      "state_node_id st = node_id n"
    and step: "\<And>err sts cache. child_step inp a n c (st\<lparr>state_error := err\<rparr>)
       (a\<lparr>acc_retry := retry, acc_waits := waits, acc_states := sts, acc_routes := cache\<rparr>)" by auto
  let ?a = "a\<lparr>acc_retry := retry, acc_waits := waits\<rparr>"
  have out: "dict_get (in_outgoing inp) (node_id n) = Some (filter (\<lambda>e. edge_source e = node_id n) (edges spec))"
    using inp n by (auto simp: input_of_def)
  have new': "node_id n \<notin> fst ` set (acc_states ?a)" using new by simp
  from settle_total [OF out input_routes(1) [OF inp n] new', of st] obtain cache err where
    "settle inp n st ?a = Inr (?a\<lparr>acc_states := acc_states a @ [(node_id n, st\<lparr>state_error := err\<rparr>)], acc_routes := cache\<rparr>)"
    by auto
  with Some st step [of err cache "acc_states a @ [(node_id n, st\<lparr>state_error := err\<rparr>)]"] show ?thesis
    by (auto simp: plan_node_def appends_def)
next
  case None
  let ?in = "filter (\<lambda>e. edge_target e = node_id n) (edges spec)"
  have inc: "dict_get (in_incoming inp) (node_id n) = Some ?in" using inp n by (auto simp: input_of_def)
  have srcs: "sources_of spec (node_id n) = edge_source ` set ?in" by (auto simp: sources_of_def)
  show ?thesis
  proof (cases "?in = []")
    case True
    with plan_ready_step [OF inp n new] None inc srcs show ?thesis
      by (fastforce simp: plan_node_def dict_at_def fresh_step_def)
  next
    case False
    have "set ?in \<subseteq> set (edges spec)" "\<forall>e \<in> set ?in. edge_source e \<in> fst ` set (acc_states a)"
      using src unfolding srcs by auto
    from decide_edges_total [OF inp this, of "in_runtime inp" "in_vars inp" "acc_inactive a" "acc_routes a"]
    obtain cache ds where
      ds: "decide_edges (decide_edge (in_runtime inp) (in_vars inp) (in_by_id inp) (in_outgoing inp) (acc_states a)
             (acc_inactive a)) (acc_routes a) ?in = Inr (cache, ds)"
      and w: "list_all2 (\<lambda>e d. d = Edge_waiting \<longleftrightarrow> \<not> terminal_at (acc_states a) (edge_source e)) ?in ds" by blast
    let ?a = "a\<lparr>acc_routes := cache\<rparr>"
    have new': "node_id n \<notin> fst ` set (acc_states ?a)" using new by simp
    have run: "plan_node inp a n = (
              if Edge_waiting \<in> set ds then Inr (put_state (plain_state (node_id n) WAITING) ?a)
              else if list_all (\<lambda>d. d = Edge_inactive) ds then
                Inr ((put_state (plain_state (node_id n) SKIPPED) ?a)\<lparr>acc_inactive := insert (node_id n) (acc_inactive a)\<rparr>)
              else if Edge_blocked \<in> set ds then Inr (put_state (plain_state (node_id n) SKIPPED) ?a)
              else plan_ready inp n ?a)"
      by (simp only: plan_node_def dict_at_def None inc option.case rbind_simps False if_False ds prod.case Let_def)
    have waiting: "(\<forall>m \<in> sources_of spec (node_id n). terminal_at (acc_states a) m) \<longleftrightarrow> Edge_waiting \<notin> set ds"
      unfolding srcs using w by (rule decisions_waiting)
    note put = put_state_appends [OF new'] appends_def plain_state_def
    show ?thesis
    proof (cases "Edge_waiting \<in> set ds \<or> list_all (\<lambda>d. d = Edge_inactive) ds \<or> Edge_blocked \<in> set ds")
      case True
      with run waiting None show ?thesis by (auto simp: put fresh_step_def)
    next
      case False
      with run have "plan_node inp a n = plan_ready inp n ?a" by simp
      moreover from plan_ready_step [OF inp n new'] obtain a' st where
        "plan_ready inp n ?a = Inr a'" "appends ?a n st a'" "acc_retry a' = acc_retry ?a" "acc_waits a' = acc_waits ?a"
        "if status st = WAITING then acc_enqueue a' = acc_enqueue ?a @ [node_id n]
            else status st \<in> {SKIPPED, FAILED} \<and> acc_enqueue a' = acc_enqueue ?a" by blast
      ultimately show ?thesis using waiting False None
        by (intro exI [of _ a'] exI [of _ st]) (simp add: fresh_step_def appends_def split: if_splits)
    qed
  qed
qed

end
