(* ===== verification/Workflow_Progress.thy ===== *)
theory Workflow_Progress
  imports Workflow_Execution
begin

text \<open>
  What a planning step guarantees on a validated definition: it returns a plan whatever the child
  jobs look like; the plan covers every node; only nodes whose upstream is finished are queued;
  a run that has not ended always has something to wait for or to do; retries respect the budget
  and the backoff; an aborting failure ends the run and cancels what is left.
\<close>

section \<open>The invariant of the node loop\<close>

definition child_fact :: "plan_input \<Rightarrow> acc \<Rightarrow> child_job \<Rightarrow> node_state \<Rightarrow> bool" where
  "child_fact inp a c st \<longleftrightarrow> state_job_id st = Some (child_job_id c) \<and> status st \<notin> {WAITING, SKIPPED} \<and>
     (status st = SUCCESS \<longrightarrow> child_status c = Job_success) \<and>
     (status st = RUNNING \<longrightarrow> child_status c \<in> {Job_pending, Job_running}) \<and>
     (status st = RETRY_WAIT \<longrightarrow> acc_retry a \<noteq> [] \<or> acc_waits a \<noteq> [])"

definition fresh_fact :: "workflow_spec \<Rightarrow> acc \<Rightarrow> string \<Rightarrow> node_state \<Rightarrow> bool" where
  "fresh_fact spec a x st \<longleftrightarrow> status st \<in> {WAITING, SKIPPED, FAILED} \<and>
     (status st = WAITING \<longrightarrow> x \<in> set (acc_enqueue a) \<or>
        (\<exists>m \<in> sources_of spec x. m \<in> fst ` set (acc_states a) \<and> \<not> terminal_at (acc_states a) m))"

definition node_fact :: "workflow_spec \<Rightarrow> plan_input \<Rightarrow> acc \<Rightarrow> string \<Rightarrow> node_state \<Rightarrow> bool" where
  "node_fact spec inp a x st \<longleftrightarrow> state_node_id st = x \<and>
     (case dict_get (in_children inp) x of Some c \<Rightarrow> child_fact inp a c st | None \<Rightarrow> fresh_fact spec a x st)"

definition queued_ok :: "workflow_spec \<Rightarrow> plan_input \<Rightarrow> states \<Rightarrow> string \<Rightarrow> bool" where
  "queued_ok spec inp sts x \<longleftrightarrow> dict_get (in_children inp) x = None \<and>
     (\<exists>st. dict_get sts x = Some st \<and> status st = WAITING) \<and>
     (\<forall>m \<in> sources_of spec x. terminal_at sts m)"

definition retry_ok :: "workflow_spec \<Rightarrow> plan_input \<Rightarrow> string \<Rightarrow> bool" where
  "retry_ok spec inp j \<longleftrightarrow> (\<exists>n \<in> set (nodes spec). \<exists>c. dict_get (in_children inp) (node_id n) = Some c \<and>
     child_job_id c = j \<and> retry_due (in_now inp) (in_max_retries inp) n c)"

definition plan_inv :: "workflow_spec \<Rightarrow> plan_input \<Rightarrow> workflow_node list \<Rightarrow> acc \<Rightarrow> bool" where
  "plan_inv spec inp seen a \<longleftrightarrow>
     dict_keys (acc_states a) = map node_id seen \<and>
     (\<forall>(x, st) \<in> set (acc_states a). node_fact spec inp a x st) \<and>
     (\<forall>x \<in> set (acc_enqueue a). queued_ok spec inp (acc_states a) x) \<and>
     (\<forall>j \<in> set (acc_retry a). retry_ok spec inp j) \<and>
     (\<forall>w \<in> set (acc_waits a). w > 0)"

lemma dict_get_append_old: "x \<in> fst ` set sts \<Longrightarrow> dict_get (sts @ ys) x = dict_get sts x"
  by (induction sts) auto

lemma dict_get_append_new: "x \<notin> fst ` set sts \<Longrightarrow> dict_get (sts @ [(x, v)]) x = Some v"
  by (induction sts) auto

lemma terminal_at_append:
  "m \<in> fst ` set sts \<Longrightarrow> terminal_at (sts @ ys) m = terminal_at sts m"
  by (simp add: terminal_at_def dict_get_append_old del: map_of_append)

lemma terminal_at_in: "terminal_at sts m \<Longrightarrow> m \<in> fst ` set sts"
  by (auto simp: terminal_at_def dest: dict_get_in_keys)

lemma node_fact_mono:
  assumes "node_fact spec inp a x st" and "acc_states a' = acc_states a @ ys"
    and "set (acc_enqueue a) \<subseteq> set (acc_enqueue a')"
    and "acc_retry a' = acc_retry a @ rs" and "acc_waits a' = acc_waits a @ ws"
  shows "node_fact spec inp a' x st"
proof (cases "dict_get (in_children inp) x")
  case None
  have "m \<in> fst ` set (acc_states a') \<and> \<not> terminal_at (acc_states a') m"
    if "m \<in> fst ` set (acc_states a)" "\<not> terminal_at (acc_states a) m" for m
    using that by (simp add: assms(2) terminal_at_append image_Un)
  with None assms(1,3) show ?thesis unfolding node_fact_def fresh_fact_def by auto
next
  case (Some c)
  with assms show ?thesis by (auto simp: node_fact_def child_fact_def)
qed

lemma queued_ok_mono:
  assumes "queued_ok spec inp sts x"
  shows "queued_ok spec inp (sts @ ys) x"
proof -
  have "terminal_at (sts @ ys) m" if "terminal_at sts m" for m
    using that terminal_at_in [OF that] by (simp add: terminal_at_append)
  moreover from assms obtain st where st: "dict_get sts x = Some st" "status st = WAITING"
    by (auto simp: queued_ok_def)
  moreover have "dict_get (sts @ ys) x = Some st"
    using st dict_get_append_old [OF dict_get_in_keys [OF st(1)]] by (simp only:)
  ultimately show ?thesis using assms by (simp add: queued_ok_def)
qed

lemma plan_inv_step:
  assumes inp: "input_of spec inp" and inv: "plan_inv spec inp seen a" and n: "n \<in> set (nodes spec)"
    and new: "node_id n \<notin> node_id ` set seen"
    and src: "sources_of spec (node_id n) \<subseteq> node_id ` set seen"
  shows "\<exists>a'. plan_node inp a n = Inr a' \<and> plan_inv spec inp (seen @ [n]) a'"
proof -
  have keys: "fst ` set (acc_states a) = node_id ` set seen"
    using inv by (metis list.set_map plan_inv_def)
  from plan_node_step [OF inp n, of a] new src obtain a' st where
    run: "plan_node inp a n = Inr a'" and app: "appends a n st a'"
    and step: "case dict_get (in_children inp) (node_id n) of
              Some c \<Rightarrow> child_step inp a n c st a' | None \<Rightarrow> fresh_step spec a n st a'"
    unfolding keys by blast
  have sts: "acc_states a' = acc_states a @ [(node_id n, st)]" and sid: "state_node_id st = node_id n"
    using app by (auto simp: appends_def)
  have here: "dict_get (acc_states a') (node_id n) = Some st"
    unfolding sts by (rule dict_get_append_new) (simp add: keys new)
  have enq: "acc_enqueue a' = acc_enqueue a \<or> (acc_enqueue a' = acc_enqueue a @ [node_id n] \<and> queued_ok spec inp (acc_states a') (node_id n))"
  proof (cases "dict_get (in_children inp) (node_id n)")
    case None
    have "terminal_at (acc_states a') m" if "terminal_at (acc_states a) m" for m
      using that terminal_at_in [OF that] by (simp add: sts terminal_at_append)
    with None step here show ?thesis by (auto simp: fresh_step_def queued_ok_def split: if_splits)
  qed (use step in \<open>simp add: child_step_def\<close>)
  have lists: "\<exists>rs ws. acc_retry a' = acc_retry a @ rs \<and> acc_waits a' = acc_waits a @ ws \<and>
      (\<forall>j \<in> set rs. retry_ok spec inp j) \<and> (\<forall>w \<in> set ws. w > 0)"
  proof (cases "dict_get (in_children inp) (node_id n)")
    case None
    with step show ?thesis by (simp add: fresh_step_def)
  next
    case (Some c)
    have "retry_ok spec inp (child_job_id c)" if "retry_due (in_now inp) (in_max_retries inp) n c"
      unfolding retry_ok_def using n Some that by blast
    with Some step show ?thesis by (auto simp: child_step_def split: if_splits)
  qed
  then obtain rs ws where r: "acc_retry a' = acc_retry a @ rs" "acc_waits a' = acc_waits a @ ws"
    "\<forall>j \<in> set rs. retry_ok spec inp j" "\<forall>w \<in> set ws. w > 0" by blast
  have sub: "set (acc_enqueue a) \<subseteq> set (acc_enqueue a')" using enq by auto
  have new_fact: "node_fact spec inp a' (node_id n) st"
  proof (cases "dict_get (in_children inp) (node_id n)")
    case None
    have "\<exists>m \<in> sources_of spec (node_id n). m \<in> fst ` set (acc_states a') \<and> \<not> terminal_at (acc_states a') m"
      if "\<not> (\<forall>m \<in> sources_of spec (node_id n). terminal_at (acc_states a) m)"
    proof -
      from that obtain m where m: "m \<in> sources_of spec (node_id n)" "\<not> terminal_at (acc_states a) m" by blast
      with src have "m \<in> fst ` set (acc_states a)" by (auto simp: keys)
      with m show ?thesis by (intro bexI [of _ m]) (simp_all add: sts terminal_at_append image_Un)
    qed
    with None step sid show ?thesis by (auto simp: node_fact_def fresh_fact_def fresh_step_def split: if_splits)
  next
    case (Some c)
    with step sid show ?thesis by (auto simp: node_fact_def child_fact_def child_step_def split: if_splits)
  qed
  have "node_fact spec inp a' x st'" if "(x, st') \<in> set (acc_states a')" for x st'
    using that new_fact inv node_fact_mono [OF _ sts sub r(1,2), of spec inp x st'] by (auto simp: sts plan_inv_def)
  moreover have "queued_ok spec inp (acc_states a') x" if "x \<in> set (acc_enqueue a')" for x
    using that enq inv queued_ok_mono [of spec inp "acc_states a" x] by (auto simp: sts plan_inv_def)
  ultimately have "plan_inv spec inp (seen @ [n]) a'"
    using inv r by (auto simp: plan_inv_def sts)
  with run show ?thesis by blast
qed

definition upstream_first :: "workflow_spec \<Rightarrow> workflow_node list \<Rightarrow> bool" where
  "upstream_first spec order \<longleftrightarrow> distinct (map node_id order) \<and> set order = set (nodes spec) \<and>
     (\<forall>pre n post. order = pre @ n # post \<longrightarrow> sources_of spec (node_id n) \<subseteq> node_id ` set pre)"

lemma plan_loop:
  assumes inp: "input_of spec inp" and ord: "upstream_first spec order" and "order = seen @ rest"
    and "plan_inv spec inp seen a"
  shows "\<exists>a'. fold_r (plan_node inp) a rest = Inr a' \<and> plan_inv spec inp order a'"
  using assms(3,4)
proof (induction rest arbitrary: seen a)
  case (Cons n rest)
  have n: "n \<in> set (nodes spec)" using ord Cons.prems(1) by (auto simp: upstream_first_def)
  have new: "node_id n \<notin> node_id ` set seen" using ord Cons.prems(1) by (auto simp: upstream_first_def)
  have src: "sources_of spec (node_id n) \<subseteq> node_id ` set seen"
    using ord Cons.prems(1) by (auto simp: upstream_first_def)
  from plan_inv_step [OF inp Cons.prems(2) n new src] obtain a1 where
    "plan_node inp a n = Inr a1" "plan_inv spec inp (seen @ [n]) a1" by blast
  with Cons.IH [of "seen @ [n]" a1] Cons.prems(1) show ?case by simp
qed auto

section \<open>From the order to the plan\<close>

lemma validate_spec_facts:
  assumes "validate_spec cv spec = Inr ()"
  shows "well_formed_dag spec" and "kinds_supported spec"
  using assms validate_spec_decides [of cv spec]
  by (auto simp: decides_def fields_accepted_def kinds_supported_def validate_node_kind)

lemma spec_graph:
  assumes "well_formed_dag spec"
  shows "distinct (map node_id (nodes spec))" "inner_edges (map node_id (nodes spec)) (edge_pairs spec)"
    "acyclic (set (edge_pairs spec))"
  using assms by (auto simp: well_formed_dag_def edges_ok_def inner_edges_def edge_pairs_def)

lemma topological_nodes_ok:
  assumes "well_formed_dag spec"
  shows "\<exists>order. topological_nodes spec = Inr order \<and> upstream_first spec order \<and>
     topo_order (map node_id (nodes spec)) (edge_pairs spec)
       (index_of (zip (map node_id (nodes spec)) [0..<length (nodes spec)])) (map node_id order)"
proof -
  note g = spec_graph [OF assms]
  from topological_ids_decides [OF g(1,2)] g(3) obtain ids where
    run: "topological_ids (map node_id (nodes spec)) (edge_pairs spec) = Inr ids" and d: "distinct ids"
    and set: "set ids = set (map node_id (nodes spec))"
    and topo: "topo_order (map node_id (nodes spec)) (edge_pairs spec)
       (index_of (zip (map node_id (nodes spec)) [0..<length (map node_id (nodes spec))])) ids" by auto
  define pick where "pick x = the (dict_get (nodes_by_id (nodes spec)) x)" for x
  have pick: "dict_get (nodes_by_id (nodes spec)) x = Some (pick x)" "pick x \<in> set (nodes spec)" "node_id (pick x) = x"
    if "x \<in> set ids" for x
  proof -
    from that set obtain n where "n \<in> set (nodes spec)" "node_id n = x" by auto
    then have "dict_get (nodes_by_id (nodes spec)) x = Some n" using nodes_by_id_get [OF g(1)] by simp
    with nodes_by_id_get [OF g(1), of x n] show "dict_get (nodes_by_id (nodes spec)) x = Some (pick x)"
      "pick x \<in> set (nodes spec)" "node_id (pick x) = x" by (simp_all add: pick_def)
  qed
  have ids: "map node_id (map pick ids) = ids" by (simp add: pick(3) map_idI)
  have nodes: "set (map pick ids) = set (nodes spec)"
  proof (intro set_eqI iffI)
    fix n assume n: "n \<in> set (nodes spec)"
    then have "node_id n \<in> set ids" using set by simp
    moreover have "pick (node_id n) = n" using n nodes_by_id_get [OF g(1), of "node_id n" n] by (simp add: pick_def)
    ultimately show "n \<in> set (map pick ids)" by (metis image_eqI list.set_map)
  qed (use pick(2) in auto)
  have "sources_of spec (node_id n) \<subseteq> node_id ` set pre" if split: "map pick ids = pre @ n # post" for pre n post
  proof -
    have "ids = map node_id pre @ node_id n # map node_id post" using ids split by (metis list.simps(9) map_append)
    then have "first_ready (map node_id (nodes spec)) (edge_pairs spec)
        (index_of (zip (map node_id (nodes spec)) [0..<length (map node_id (nodes spec))])) (map node_id pre) (node_id n)"
      using topo [unfolded topo_order_def, rule_format, of "length pre"]
      by (simp add: nth_append)
    then have "preds_done (edge_pairs spec) (node_id ` set pre) (node_id n)" by (simp add: first_ready_def)
    moreover have "(m, node_id n) \<in> set (edge_pairs spec)" if "m \<in> sources_of spec (node_id n)" for m
      using that by (force simp: sources_of_def edge_pairs_def)
    ultimately show ?thesis by (auto simp: preds_done_def)
  qed
  then have up: "upstream_first spec (map pick ids)" using ids d nodes by (simp add: upstream_first_def)
  have "topological_nodes spec = Inr (map pick ids)"
    using run pick(1) map_r_total [of ids "dict_at (nodes_by_id (nodes spec))" pick]
    by (simp add: topological_nodes_def dict_at_def)
  with up topo ids show ?thesis by auto
qed

lemma abort_error_total:
  assumes "\<forall>(x, st) \<in> set sts. \<exists>n. dict_get by_id x = Some n"
  shows "\<exists>r. abort_error by_id sts = Inr r \<and>
     (r = None \<longleftrightarrow> (\<forall>(x, st) \<in> set sts. status st = FAILED \<longrightarrow>
        (\<forall>n. dict_get by_id x = Some n \<longrightarrow> node_on_failure n \<noteq> Abort)))"
  using assms
proof (induction sts)
  case (Cons p sts)
  obtain x st where p: "p = (x, st)" by (cases p)
  with Cons.prems obtain n where n: "dict_get by_id x = Some n" by auto
  with Cons p show ?case by (auto simp: dict_at_def)
qed simp

text \<open>The loop and the end of the step, on a validated definition.\<close>

lemma plan_runs_full:
  assumes "validate_spec cv spec = Inr ()"
  obtains inp order a where "input_of spec inp" "in_children inp = children" "in_now inp = now"
    "in_max_retries inp = mr" "upstream_first spec order" "plan_inv spec inp order a"
    "plan_workflow_step rt spec children now mr vars = finish_plan inp a"
    "topological_nodes spec = Inr order" "fold_r (plan_node inp) empty_acc order = Inr a"
    "in_runtime inp = rt" "in_vars inp = vars"
    "\<And>k es. dict_get (in_outgoing inp) k = Some es \<Longrightarrow> set es \<subseteq> set (edges spec)"
proof -
  note wf = validate_spec_facts [OF assms]
  let ?ids = "map node_id (nodes spec)"
  have src: "edge_target e \<in> set ?ids" "edge_source e \<in> set ?ids" if "e \<in> set (edges spec)" for e
    using wf(1) that by (auto simp: well_formed_dag_def edges_ok_def)
  from group_edges_ok [of "edges spec" edge_target ?ids "\<lambda>e. e", OF src(1)] obtain inc where
    inc: "group_edges edge_target (\<lambda>e. e) ?ids (edges spec) = Inr inc"
      "\<And>k. dict_get inc k = (if k \<in> set ?ids then Some (map (\<lambda>e. e) (filter (\<lambda>e. edge_target e = k) (edges spec))) else None)"
    by blast
  from group_edges_ok [of "edges spec" edge_source ?ids "\<lambda>e. e", OF src(2)] obtain out where
    out: "group_edges edge_source (\<lambda>e. e) ?ids (edges spec) = Inr out"
      "\<And>k. dict_get out k = (if k \<in> set ?ids then Some (map (\<lambda>e. e) (filter (\<lambda>e. edge_source e = k) (edges spec))) else None)"
    by blast
  from topological_nodes_ok [OF wf(1)] obtain order where
    ord: "topological_nodes spec = Inr order" "upstream_first spec order" by blast
  let ?inp = "\<lparr>in_runtime = rt, in_vars = vars, in_children = children, in_now = now, in_max_retries = mr,
      in_by_id = nodes_by_id (nodes spec), in_incoming = inc, in_outgoing = out\<rparr>"
  have inp: "input_of spec ?inp" using wf inc(2) out(2) by (simp add: input_of_def)
  have "plan_inv spec ?inp [] empty_acc" by (simp add: plan_inv_def empty_acc_def)
  from plan_loop [OF inp ord(2) _ this, of order] obtain a where
    a: "fold_r (plan_node ?inp) empty_acc order = Inr a" "plan_inv spec ?inp order a" by auto
  have "plan_workflow_step rt spec children now mr vars = finish_plan ?inp a"
    using inc(1) out(1) ord(1) a(1) by (simp add: plan_workflow_step_def exec_graph_def Let_def)
  moreover have "\<And>k es. dict_get (in_outgoing ?inp) k = Some es \<Longrightarrow> set es \<subseteq> set (edges spec)"
    using out(2) by (auto split: if_splits)
  ultimately show ?thesis using that [OF inp _ _ _ ord(2) a(2) _ ord(1) a(1)] by simp
qed

lemma plan_runs:
  assumes "validate_spec cv spec = Inr ()"
  obtains inp order a where "input_of spec inp" "in_children inp = children" "in_now inp = now"
    "in_max_retries inp = mr" "upstream_first spec order" "plan_inv spec inp order a"
    "plan_workflow_step rt spec children now mr vars = finish_plan inp a"
    "topological_nodes spec = Inr order"
  by (rule plan_runs_full [OF assms, of children now mr rt vars]) (rule that)

lemma order_ids:
  assumes "upstream_first spec order" "plan_inv spec inp order a"
  shows "distinct (dict_keys (acc_states a))" "set (dict_keys (acc_states a)) = node_id ` set (nodes spec)"
  using assms by (auto simp: upstream_first_def plan_inv_def)

lemma finish_plan_cases:
  assumes inp: "input_of spec inp" and ord: "upstream_first spec order" and inv: "plan_inv spec inp order a"
  obtains (abort) err where
      "finish_plan inp a = Inr
         \<lparr>node_states = map (\<lambda>(n, st). (n, if status st \<in> TERMINAL_NODE_STATUSES then st else cancelled_state n st)) (acc_states a),
            enqueue_node_ids = [], retry_job_ids = [],
            cancel_job_ids = map child_job_id (filter (\<lambda>c. child_status c \<in> {Job_pending, Job_running}) (dict_values (in_children inp))),
            run_status = Some Job_failed, run_error = Some err, wait_seconds = None\<rparr>"
      "\<exists>n \<in> set (nodes spec). \<exists>st. dict_get (acc_states a) (node_id n) = Some st \<and> status st = FAILED \<and> node_on_failure n = Abort"
    | (failed) st where
      "finish_plan inp a = Inr \<lparr>node_states = acc_states a, enqueue_node_ids = [], retry_job_ids = [], cancel_job_ids = [],
                   run_status = Some Job_failed, run_error = Some (node_failure_message st), wait_seconds = None\<rparr>"
      "\<forall>(x, st) \<in> set (acc_states a). status st \<in> TERMINAL_NODE_STATUSES"
      "st \<in> set (dict_values (acc_states a))" "status st \<in> {FAILED, CANCELLED}"
      "\<forall>n \<in> set (nodes spec). \<forall>st. dict_get (acc_states a) (node_id n) = Some st \<longrightarrow> status st = FAILED \<longrightarrow> node_on_failure n \<noteq> Abort"
    | (success)
      "finish_plan inp a = Inr \<lparr>node_states = acc_states a, enqueue_node_ids = [], retry_job_ids = [], cancel_job_ids = [],
                   run_status = Some Job_success, run_error = None, wait_seconds = None\<rparr>"
      "\<forall>(x, st) \<in> set (acc_states a). status st \<in> {SUCCESS, SKIPPED}"
    | (going)
      "finish_plan inp a = Inr \<lparr>node_states = acc_states a, enqueue_node_ids = acc_enqueue a, retry_job_ids = acc_retry a,
              cancel_job_ids = [], run_status = None, run_error = None,
              wait_seconds = (if acc_waits a = [] then None else Some (Min (set (acc_waits a))))\<rparr>"
      "\<exists>(x, st) \<in> set (acc_states a). status st \<notin> TERMINAL_NODE_STATUSES"
      "\<forall>n \<in> set (nodes spec). \<forall>st. dict_get (acc_states a) (node_id n) = Some st \<longrightarrow> status st = FAILED \<longrightarrow> node_on_failure n \<noteq> Abort"
proof -
  let ?abort = "\<exists>n \<in> set (nodes spec). \<exists>st. dict_get (acc_states a) (node_id n) = Some st \<and> status st = FAILED \<and> node_on_failure n = Abort"
  note keys = order_ids [OF ord inv]
  have d: "distinct (map node_id (nodes spec))" using inp by (simp add: input_of_def well_formed_dag_def)
  have by_id: "dict_get (in_by_id inp) x = Some n \<longleftrightarrow> n \<in> set (nodes spec) \<and> node_id n = x" for x n
    using inp nodes_by_id_get [OF d] by (simp add: input_of_def)
  have mem: "(x, st) \<in> set (acc_states a) \<longleftrightarrow> dict_get (acc_states a) x = Some st" for x st
    using keys(1) by simp
  have known: "\<exists>n. dict_get (in_by_id inp) x = Some n" if "(x, st) \<in> set (acc_states a)" for x st
  proof -
    have "x \<in> set (dict_keys (acc_states a))" using that by force
    then obtain n where "n \<in> set (nodes spec)" "node_id n = x" unfolding keys(2) by (elim imageE) simp
    then show ?thesis using by_id [of x n] by simp
  qed
  then obtain r where r: "abort_error (in_by_id inp) (acc_states a) = Inr r"
    and none: "r = None \<longleftrightarrow> (\<forall>(x, st) \<in> set (acc_states a). status st = FAILED \<longrightarrow>
        (\<forall>n. dict_get (in_by_id inp) x = Some n \<longrightarrow> node_on_failure n \<noteq> Abort))"
    using abort_error_total [of "acc_states a" "in_by_id inp"] by blast
  have no_abort: "r = None \<longleftrightarrow> \<not> ?abort"
  proof
    assume "r = None"
    show "\<not> ?abort"
    proof
      assume ?abort
      then obtain n st where n: "n \<in> set (nodes spec)" "dict_get (acc_states a) (node_id n) = Some st"
        "status st = FAILED" "node_on_failure n = Abort" by blast
      from n(1) by_id have "dict_get (in_by_id inp) (node_id n) = Some n" by blast
      moreover from n(2) mem have "(node_id n, st) \<in> set (acc_states a)" by blast
      ultimately show False using \<open>r = None\<close> none n(3,4) by fastforce
    qed
  next
    assume na: "\<not> ?abort"
    show "r = None"
      unfolding none
    proof (intro ballI, clarify)
      fix x st n assume "(x, st) \<in> set (acc_states a)" "status st = FAILED"
        "dict_get (in_by_id inp) x = Some n" "node_on_failure n = Abort"
      then have "dict_get (acc_states a) (node_id n) = Some st" "n \<in> set (nodes spec)" "status st = FAILED" "node_on_failure n = Abort"
        using mem [of x st] by_id [of x n] by simp_all
      with na show False by blast
    qed
  qed
  show ?thesis
  proof (cases r)
    case (Some err)
    then have "r \<noteq> None" by simp
    with no_abort have ab: "?abort" by blast
    show ?thesis
      by (rule abort [OF _ ab]) (simp only: finish_plan_def Let_def r rbind_simps Some option.case)
  next
    case None
    with no_abort have na: "\<forall>n \<in> set (nodes spec). \<forall>st. dict_get (acc_states a) (node_id n) = Some st \<longrightarrow> status st = FAILED \<longrightarrow> node_on_failure n \<noteq> Abort"
      by blast
    show ?thesis
    proof (cases "\<forall>(x, st) \<in> set (acc_states a). status st \<in> TERMINAL_NODE_STATUSES")
      case False
      then have some: "\<exists>(x, st) \<in> set (acc_states a). status st \<notin> TERMINAL_NODE_STATUSES" by blast
      then have not_all: "\<not> list_all (\<lambda>st. status st \<in> TERMINAL_NODE_STATUSES) (dict_values (acc_states a))"
        by (force simp: list.pred_set)
      show ?thesis
        by (rule going [OF _ some na])
           (simp only: finish_plan_def Let_def r rbind_simps None option.case not_all if_False)
    next
      case True
      then have all: "list_all (\<lambda>st. status st \<in> TERMINAL_NODE_STATUSES) (dict_values (acc_states a))"
        by (auto simp: list.pred_set)
      show ?thesis
      proof (cases "filter (\<lambda>st. status st \<in> {FAILED, CANCELLED}) (dict_values (acc_states a))")
        case Nil
        have one: "status st \<in> {SUCCESS, SKIPPED}" if m: "(x, st) \<in> set (acc_states a)" for x st
        proof -
          from m True have "status st \<in> TERMINAL_NODE_STATUSES" by auto
          moreover have "st \<in> set (dict_values (acc_states a))" using m by force
          then have "status st \<notin> {FAILED, CANCELLED}" using Nil by (metis (mono_tags, lifting) filter_empty_conv)
          ultimately show ?thesis by (auto simp: TERMINAL_NODE_STATUSES_def)
        qed
        then have ok: "\<forall>(x, st) \<in> set (acc_states a). status st \<in> {SUCCESS, SKIPPED}" by blast
        have "finish_plan inp a = Inr \<lparr>node_states = acc_states a, enqueue_node_ids = [], retry_job_ids = [], cancel_job_ids = [],
                   run_status = Some Job_success, run_error = None, wait_seconds = None\<rparr>"
          unfolding finish_plan_def Let_def r rbind_simps None option.case using all Nil by (simp only: if_True list.case)
        from success [OF this ok] show ?thesis .
      next
        case (Cons st rest)
        then have "st \<in> set (filter (\<lambda>st. status st \<in> {FAILED, CANCELLED}) (dict_values (acc_states a)))" by simp
        then have m: "st \<in> set (dict_values (acc_states a))" "status st \<in> {FAILED, CANCELLED}" by auto
        have "finish_plan inp a = Inr \<lparr>node_states = acc_states a, enqueue_node_ids = [], retry_job_ids = [], cancel_job_ids = [],
                   run_status = Some Job_failed, run_error = Some (node_failure_message st), wait_seconds = None\<rparr>"
          unfolding finish_plan_def Let_def r rbind_simps None option.case using all Cons by (simp only: if_True list.case)
        from failed [OF this True m na] show ?thesis .
      qed
    qed
  qed
qed

section \<open>Progress\<close>

text \<open>With nothing queued, retried, delayed or running, every node is in a terminal state.\<close>

lemma idle_terminal:
  assumes ord: "upstream_first spec order" and inv: "plan_inv spec inp order a"
    and idle: "acc_enqueue a = []" "acc_retry a = []" "acc_waits a = []"
    and none: "\<forall>(x, st) \<in> set (acc_states a). status st \<noteq> RUNNING"
  shows "order = pre @ post \<Longrightarrow> \<forall>n \<in> set pre. terminal_at (acc_states a) (node_id n)"
proof (induction pre arbitrary: post rule: rev_induct)
  case (snoc n pre)
  have before: "\<forall>m \<in> set pre. terminal_at (acc_states a) (node_id m)" using snoc.IH [of "n # post"] snoc.prems by simp
  have "node_id n \<in> set (dict_keys (acc_states a))" using inv snoc.prems by (simp add: plan_inv_def)
  then obtain st where st: "dict_get (acc_states a) (node_id n) = Some st"
    by (metis list.set_map map_of_eq_None_iff not_Some_eq)
  then have mem: "(node_id n, st) \<in> set (acc_states a)" by (rule map_of_SomeD)
  then have fact: "node_fact spec inp a (node_id n) st" and run: "status st \<noteq> RUNNING"
    using inv none by (auto simp: plan_inv_def)
  have src: "terminal_at (acc_states a) m" if "m \<in> sources_of spec (node_id n)" for m
    using ord snoc.prems that before by (fastforce simp: upstream_first_def)
  have "status st \<in> TERMINAL_NODE_STATUSES"
  proof (cases "dict_get (in_children inp) (node_id n)")
    case None
    with fact idle src show ?thesis by (auto simp: node_fact_def fresh_fact_def TERMINAL_NODE_STATUSES_def)
  next
    case (Some c)
    with fact idle run show ?thesis
      by (cases "status st") (simp_all add: node_fact_def child_fact_def TERMINAL_NODE_STATUSES_def)
  qed
  with st before show ?case by (auto simp: terminal_at_def)
qed simp

lemma going_progress:
  assumes ord: "upstream_first spec order" and inv: "plan_inv spec inp order a"
    and some: "\<exists>(x, st) \<in> set (acc_states a). status st \<notin> TERMINAL_NODE_STATUSES"
  shows "acc_enqueue a \<noteq> [] \<or> acc_retry a \<noteq> [] \<or> acc_waits a \<noteq> [] \<or>
         (\<exists>(x, st) \<in> set (acc_states a). status st = RUNNING)"
proof (rule ccontr)
  assume c: "\<not> ?thesis"
  from idle_terminal [OF ord inv, of order "[]"] c have t: "\<forall>n \<in> set order. terminal_at (acc_states a) (node_id n)"
    by auto
  from some obtain x st where m: "(x, st) \<in> set (acc_states a)" "status st \<notin> TERMINAL_NODE_STATUSES" by auto
  then have "x \<in> set (dict_keys (acc_states a))" by force
  also have "dict_keys (acc_states a) = map node_id order" using inv by (simp add: plan_inv_def)
  finally have "terminal_at (acc_states a) x" using t by auto
  moreover have "dict_get (acc_states a) x = Some st" using order_ids(1) [OF ord inv] m(1) by simp
  ultimately show False using m(2) by (simp add: terminal_at_def)
qed

section \<open>Properties of a planning step\<close>

lemma plan_keys:
  assumes "upstream_first spec order" "plan_inv spec inp order a"
  shows "dict_keys (acc_states a) = map node_id order"
  using assms by (simp add: plan_inv_def)

text \<open>
  C5. On a validated definition a planning step always returns a plan, whatever child jobs,
  variables and clock it is given: no missing key, no missing default route and no cycle. Its
  node states cover the nodes of the definition, each once, in topological order.
\<close>

theorem plan_total:
  assumes "validate_spec croniter_is_valid spec = Inr ()"
  shows "\<exists>plan order. plan_workflow_step rt spec children now default_max_retries vars = Inr plan \<and>
           topological_nodes spec = Inr order \<and> dict_keys (node_states plan) = map node_id order \<and>
           distinct (dict_keys (node_states plan)) \<and>
           set (dict_keys (node_states plan)) = node_id ` set (nodes spec)"
proof -
  obtain inp order a where r: "input_of spec inp" "upstream_first spec order" "plan_inv spec inp order a"
    "plan_workflow_step rt spec children now default_max_retries vars = finish_plan inp a"
    "topological_nodes spec = Inr order"
    using plan_runs [OF assms] by metis
  note keys = plan_keys [OF r(2,3)] order_ids [OF r(2,3)]
  have cancel: "dict_keys (map (\<lambda>(n, st). (n, f n st)) sts) = dict_keys sts" for f and sts :: states
    by (induction sts) auto
  have "\<exists>plan. finish_plan inp a = Inr plan \<and> dict_keys (node_states plan) = dict_keys (acc_states a)"
    by (rule finish_plan_cases [OF r(1-3)]) (simp_all add: cancel del: map_map)
  with r keys show ?thesis by (metis (no_types, lifting))
qed

section \<open>A small definition\<close>

text \<open>Extract, then load; the load waits ten seconds between its two retries.\<close>

definition demo_node :: "string \<Rightarrow> retry_policy option \<Rightarrow> workflow_node" where
  "demo_node n policy = \<lparr>node_id = n, job_kind = ''sql_query'', node_payload = [(''sql'', PStr ''select 1'')],
     node_retry_policy = policy, node_timeout_seconds = 60, node_on_failure = Abort, node_when = None\<rparr>"

definition demo_spec :: workflow_spec where
  "demo_spec = \<lparr>nodes = [demo_node ''load'' (Some \<lparr>max_retries = 2, backoff_seconds = 10\<rparr>), demo_node ''extract'' None],
     edges = [\<lparr>edge_source = ''extract'', edge_target = ''load'', edge_trigger = Success_edge, edge_when = None, is_default = False\<rparr>],
     schedule = None, sensor = None, notifications = [], spec_variables = []\<rparr>"

definition demo_runtime :: runtime where
  "demo_runtime = \<lparr>rt_float_repr = (\<lambda>_. []), rt_parse = (\<lambda>_. Inl [])\<rparr>"

definition demo_child :: "string \<Rightarrow> job_status \<Rightarrow> child_job" where
  "demo_child j s = \<lparr>child_job_id = j, child_status = s, child_retry_count = 0, child_finished_at = Some 0,
     child_error = None, child_error_code = None, child_outputs = []\<rparr>"

lemma demo_valid: "validate_spec (\<lambda>_. True) demo_spec = Inr ()"
  by code_simp

theorem plan_total_witness:
  "validate_spec (\<lambda>_. True) demo_spec = Inr () \<and>
   (\<exists>plan order. plan_workflow_step demo_runtime demo_spec [] 0 0 [] = Inr plan \<and> topological_nodes demo_spec = Inr order \<and>
      dict_keys (node_states plan) = map node_id order)"
  using plan_total [OF demo_valid, of demo_runtime "[]" 0 0 "[]"] demo_valid by blast

text \<open>
  C4. A step queues only nodes that have no child job yet and whose direct predecessors are all
  in a terminal state, and it asks for a retry only of a failed or timed-out child whose retry
  budget is not used up and whose backoff has elapsed. Delays it reports are positive.
\<close>

theorem plan_queues_only_ready:
  assumes "validate_spec croniter_is_valid spec = Inr ()"
    and "plan_workflow_step rt spec children now default_max_retries vars = Inr plan"
  shows "(\<forall>x \<in> set (enqueue_node_ids plan). x \<in> node_id ` set (nodes spec) \<and> dict_get children x = None \<and>
            (\<forall>m \<in> sources_of spec x. terminal_at (node_states plan) m)) \<and>
         (\<forall>j \<in> set (retry_job_ids plan). \<exists>n \<in> set (nodes spec). \<exists>c. dict_get children (node_id n) = Some c \<and>
            child_job_id c = j \<and> retry_due now default_max_retries n c) \<and>
         (\<forall>w. wait_seconds plan = Some w \<longrightarrow> w > 0)"
proof -
  obtain inp order a where r: "input_of spec inp" "upstream_first spec order" "plan_inv spec inp order a"
    "plan_workflow_step rt spec children now default_max_retries vars = finish_plan inp a"
    and inp: "in_children inp = children" "in_now inp = now" "in_max_retries inp = default_max_retries"
    using plan_runs [OF assms(1)] by metis
  note keys = order_ids [OF r(2,3)]
  have q: "x \<in> node_id ` set (nodes spec) \<and> dict_get children x = None \<and> (\<forall>m \<in> sources_of spec x. terminal_at (acc_states a) m)"
    if "x \<in> set (acc_enqueue a)" for x
  proof -
    from that r(3) have ok: "queued_ok spec inp (acc_states a) x" by (simp add: plan_inv_def)
    then have "x \<in> set (dict_keys (acc_states a))" by (force simp: queued_ok_def dest: dict_get_in_keys)
    with ok keys(2) inp show ?thesis by (simp add: queued_ok_def)
  qed
  have j: "\<exists>n \<in> set (nodes spec). \<exists>c. dict_get children (node_id n) = Some c \<and> child_job_id c = j \<and>
      retry_due now default_max_retries n c" if "j \<in> set (acc_retry a)" for j
    using that r(3) inp by (auto simp: plan_inv_def retry_ok_def)
  have w: "Min (set (acc_waits a)) > 0" if "acc_waits a \<noteq> []"
    using that r(3) by (simp add: plan_inv_def)
  from assms(2) r(4) have fin: "finish_plan inp a = Inr plan" by simp
  show ?thesis
  proof (rule finish_plan_cases [OF r(1-3)], goal_cases)
    case 4
    with fin have "plan = \<lparr>node_states = acc_states a, enqueue_node_ids = acc_enqueue a, retry_job_ids = acc_retry a,
              cancel_job_ids = [], run_status = None, run_error = None,
              wait_seconds = (if acc_waits a = [] then None else Some (Min (set (acc_waits a))))\<rparr>" by simp
    then show ?case using q j w by simp
  qed (use fin in auto)
qed

theorem plan_queues_only_ready_witness:
  "validate_spec (\<lambda>_. True) demo_spec = Inr () \<and>
   (\<exists>plan. plan_workflow_step demo_runtime demo_spec [(''extract'', demo_child ''j1'' Job_success)] 0 0 [] = Inr plan \<and>
      enqueue_node_ids plan = [''load''] \<and> (\<forall>m \<in> sources_of demo_spec ''load''. terminal_at (node_states plan) m))"
proof -
  have run: "(case plan_workflow_step demo_runtime demo_spec [(''extract'', demo_child ''j1'' Job_success)] 0 0 [] of
     Inr p \<Rightarrow> enqueue_node_ids p = [''load''] | _ \<Rightarrow> False)" by code_simp
  then obtain plan where p: "plan_workflow_step demo_runtime demo_spec [(''extract'', demo_child ''j1'' Job_success)] 0 0 [] = Inr plan"
    "enqueue_node_ids plan = [''load'']" by (auto split: sum.splits)
  from plan_queues_only_ready [OF demo_valid p(1)] p demo_valid show ?thesis by simp
qed

text \<open>
  C2. Liveness of a run: a step that leaves the run unfinished queues a node, asks for a retry,
  reports a delay to wait for, or some child job is pending or running. No state of the child
  jobs leaves a run neither ended nor able to move.
\<close>

theorem plan_progress:
  assumes "validate_spec croniter_is_valid spec = Inr ()"
    and "plan_workflow_step rt spec children now default_max_retries vars = Inr plan"
    and "run_status plan = None"
  shows "enqueue_node_ids plan \<noteq> [] \<or> retry_job_ids plan \<noteq> [] \<or> wait_seconds plan \<noteq> None \<or>
         (\<exists>c \<in> set (dict_values children). child_status c \<in> {Job_pending, Job_running})"
proof -
  obtain inp order a where r: "input_of spec inp" "upstream_first spec order" "plan_inv spec inp order a"
    "plan_workflow_step rt spec children now default_max_retries vars = finish_plan inp a"
    and inp: "in_children inp = children"
    using plan_runs [OF assms(1)] by metis
  from assms(2) r(4) have fin: "finish_plan inp a = Inr plan" by simp
  have running: "\<exists>c \<in> set (dict_values children). child_status c \<in> {Job_pending, Job_running}"
    if "(x, st) \<in> set (acc_states a)" "status st = RUNNING" for x st
  proof -
    from that(1) r(3) have f: "node_fact spec inp a x st" by (auto simp: plan_inv_def)
    with that(2) obtain c where c: "dict_get children x = Some c" "child_status c \<in> {Job_pending, Job_running}"
      by (auto simp: node_fact_def fresh_fact_def child_fact_def inp split: option.splits)
    then have "c \<in> set (dict_values children)" by (force dest: map_of_SomeD)
    with c(2) show ?thesis by blast
  qed
  show ?thesis
  proof (rule finish_plan_cases [OF r(1-3)], goal_cases)
    case 4
    with fin have p: "plan = \<lparr>node_states = acc_states a, enqueue_node_ids = acc_enqueue a, retry_job_ids = acc_retry a,
              cancel_job_ids = [], run_status = None, run_error = None,
              wait_seconds = (if acc_waits a = [] then None else Some (Min (set (acc_waits a))))\<rparr>" by simp
    from going_progress [OF r(2,3) 4(2)] running show ?case
      unfolding p by (elim disjE) auto
  qed (use fin assms(3) in auto)
qed

theorem plan_progress_witness:
  "validate_spec (\<lambda>_. True) demo_spec = Inr () \<and>
   (\<exists>plan. plan_workflow_step demo_runtime demo_spec
        [(''extract'', demo_child ''j1'' Job_success), (''load'', demo_child ''j2'' Job_failed)] 3000000 0 [] = Inr plan \<and>
      run_status plan = None \<and> enqueue_node_ids plan = [] \<and> retry_job_ids plan = [] \<and> wait_seconds plan \<noteq> None)"
proof -
  let ?c = "[(''extract'', demo_child ''j1'' Job_success), (''load'', demo_child ''j2'' Job_failed)]"
  have run: "(case plan_workflow_step demo_runtime demo_spec ?c 3000000 0 [] of
     Inr p \<Rightarrow> run_status p = None \<and> enqueue_node_ids p = [] \<and> retry_job_ids p = [] | _ \<Rightarrow> False)" by code_simp
  then obtain plan where p: "plan_workflow_step demo_runtime demo_spec ?c 3000000 0 [] = Inr plan"
    "run_status plan = None" "enqueue_node_ids plan = []" "retry_job_ids plan = []" by (auto split: sum.splits)
  have idle: "\<not> (\<exists>c \<in> set (dict_values ?c). child_status c \<in> {Job_pending, Job_running})" by (simp add: demo_child_def)
  from plan_progress [OF demo_valid p(1,2)] p idle demo_valid show ?thesis by blast
qed

lemma dict_get_map_values:
  "dict_get (map (\<lambda>(n, st). (n, f n st)) d) x = map_option (f x) (dict_get d x)"
  by (induction d) auto

lemma all_terminal:
  assumes "set (dict_keys sts) = ids" and "distinct (dict_keys sts)"
    and "\<forall>(x, st) \<in> set sts. status st \<in> TERMINAL_NODE_STATUSES"
  shows "\<forall>x \<in> ids. terminal_at sts x"
proof
  fix x assume "x \<in> ids"
  with assms(1) obtain st where st: "(x, st) \<in> set sts" by force
  with assms(2,3) show "terminal_at sts x" by (auto simp: terminal_at_def)
qed

text \<open>The plan of an aborting step.\<close>

lemma abort_plan_facts:
  assumes keys: "distinct (dict_keys sts)" "set (dict_keys sts) = ids"
    and st: "dict_get sts x = Some st" "status st = FAILED"
  defines "sts' \<equiv> map (\<lambda>(n, st). (n, if status st \<in> TERMINAL_NODE_STATUSES then st else cancelled_state n st)) sts"
  shows "\<forall>x \<in> ids. terminal_at sts' x" and "\<not> (\<forall>(x, st) \<in> set sts'. status st \<in> {SUCCESS, SKIPPED})"
proof -
  show "\<forall>x \<in> ids. terminal_at sts' x"
  proof
    fix y assume "y \<in> ids"
    with keys obtain s where "dict_get sts y = Some s" by (metis list.set_map map_of_eq_None_iff not_Some_eq)
    then have "dict_get sts' y = Some (if status s \<in> TERMINAL_NODE_STATUSES then s else cancelled_state y s)"
      unfolding sts'_def by (subst dict_get_map_values) simp
    then show "terminal_at sts' y" by (simp add: terminal_at_def cancelled_state_def TERMINAL_NODE_STATUSES_def)
  qed
  have "dict_get sts' x = Some st"
    unfolding sts'_def by (subst dict_get_map_values) (simp add: st TERMINAL_NODE_STATUSES_def)
  then have "(x, st) \<in> set sts'" by (rule map_of_SomeD)
  with st(2) show "\<not> (\<forall>(x, st) \<in> set sts'. status st \<in> {SUCCESS, SKIPPED})" by fastforce
qed

text \<open>
  C3. How a run ends: a step that reports a run status queues and retries nothing and leaves
  every node in a terminal state; the status is success exactly when every node succeeded or was
  skipped, and otherwise it is failed with an error. A final failure of a node that asks to abort
  always ends the run as failed, and then exactly the pending and running child jobs are to be
  cancelled.
\<close>

theorem plan_outcome:
  assumes "validate_spec croniter_is_valid spec = Inr ()"
    and "plan_workflow_step rt spec children now default_max_retries vars = Inr plan"
  shows "(run_status plan \<noteq> None \<longrightarrow> enqueue_node_ids plan = [] \<and> retry_job_ids plan = [] \<and>
            (\<forall>x \<in> node_id ` set (nodes spec). terminal_at (node_states plan) x)) \<and>
         (run_status plan = Some Job_success \<longleftrightarrow> (\<forall>(x, st) \<in> set (node_states plan). status st \<in> {SUCCESS, SKIPPED})) \<and>
         (run_status plan \<in> {None, Some Job_success, Some Job_failed}) \<and>
         (run_status plan = Some Job_failed \<longleftrightarrow> run_error plan \<noteq> None) \<and>
         ((\<exists>n \<in> set (nodes spec). \<exists>st. dict_get (node_states plan) (node_id n) = Some st \<and> status st = FAILED \<and> node_on_failure n = Abort) \<longrightarrow>
            run_status plan = Some Job_failed \<and>
            cancel_job_ids plan = map child_job_id (filter (\<lambda>c. child_status c \<in> {Job_pending, Job_running}) (dict_values children)))"
proof -
  obtain inp order a where r: "input_of spec inp" "upstream_first spec order" "plan_inv spec inp order a"
    "plan_workflow_step rt spec children now default_max_retries vars = finish_plan inp a"
    and inp: "in_children inp = children"
    using plan_runs [OF assms(1)] by metis
  from assms(2) r(4) have fin: "finish_plan inp a = Inr plan" by simp
  note keys = order_ids [OF r(2,3)]
  show ?thesis
  proof (rule finish_plan_cases [OF r(1-3)], goal_cases)
    case (1 err)
    from 1(2) obtain n :: workflow_node and st where n: "dict_get (acc_states a) (node_id n) = Some st" "status st = FAILED" by blast
    from 1(1) fin inp have "plan = \<lparr>node_states = map (\<lambda>(n, st). (n, if status st \<in> TERMINAL_NODE_STATUSES then st else cancelled_state n st)) (acc_states a),
            enqueue_node_ids = [], retry_job_ids = [],
            cancel_job_ids = map child_job_id (filter (\<lambda>c. child_status c \<in> {Job_pending, Job_running}) (dict_values children)),
            run_status = Some Job_failed, run_error = Some err, wait_seconds = None\<rparr>" by simp
    with abort_plan_facts [OF keys n] show ?case by simp
  next
    case (2 st)
    from 2(1) fin have p: "plan = \<lparr>node_states = acc_states a, enqueue_node_ids = [], retry_job_ids = [], cancel_job_ids = [],
                   run_status = Some Job_failed, run_error = Some (node_failure_message st), wait_seconds = None\<rparr>" by simp
    have "\<not> (\<forall>(x, st) \<in> set (acc_states a). status st \<in> {SUCCESS, SKIPPED})" using 2(3,4) by fastforce
    with 2(5) all_terminal [OF keys(2,1) 2(2)] show ?case unfolding p by auto
  next
    case 3
    from 3(1) fin have p: "plan = \<lparr>node_states = acc_states a, enqueue_node_ids = [], retry_job_ids = [], cancel_job_ids = [],
                   run_status = Some Job_success, run_error = None, wait_seconds = None\<rparr>" by simp
    have t: "\<forall>(x, st) \<in> set (acc_states a). status st \<in> TERMINAL_NODE_STATUSES"
      using 3(2) by (fastforce simp: TERMINAL_NODE_STATUSES_def)
    have "\<not> (\<exists>n \<in> set (nodes spec). \<exists>st. dict_get (acc_states a) (node_id n) = Some st \<and> status st = FAILED \<and> node_on_failure n = Abort)"
      using 3(2) by (fastforce dest: map_of_SomeD)
    with 3(2) all_terminal [OF keys(2,1) t] show ?case unfolding p by simp
  next
    case 4
    from 4(1) fin have p: "node_states plan = acc_states a" "run_status plan = None" "run_error plan = None"
      by (auto simp: sum.inject)
    have "\<not> (\<forall>(x, st) \<in> set (acc_states a). status st \<in> {SUCCESS, SKIPPED})"
      using 4(2) by (fastforce simp: TERMINAL_NODE_STATUSES_def)
    with 4(3) show ?case unfolding p by auto
  qed
qed

theorem plan_outcome_witness:
  "validate_spec (\<lambda>_. True) demo_spec = Inr () \<and>
   (\<exists>plan. plan_workflow_step demo_runtime demo_spec
        [(''extract'', demo_child ''j1'' Job_failed), (''load'', demo_child ''j2'' Job_running)] 0 0 [] = Inr plan \<and>
      run_status plan = Some Job_failed \<and> (\<forall>x \<in> node_id ` set (nodes demo_spec). terminal_at (node_states plan) x))"
proof -
  let ?c = "[(''extract'', demo_child ''j1'' Job_failed), (''load'', demo_child ''j2'' Job_running)]"
  have run: "(case plan_workflow_step demo_runtime demo_spec ?c 0 0 [] of
     Inr p \<Rightarrow> run_status p = Some Job_failed | _ \<Rightarrow> False)" by code_simp
  then obtain plan where p: "plan_workflow_step demo_runtime demo_spec ?c 0 0 [] = Inr plan"
    "run_status plan = Some Job_failed" by (auto split: sum.splits)
  from plan_outcome [OF demo_valid p(1)] p demo_valid show ?thesis by simp
qed

end
