(* ===== verification/Job_Queue.thy ===== *)
theory Job_Queue
  imports Workflow_Execution
begin

text \<open>
  \<open>app/infrastructure/jobbackend/postgres.py\<close> (with \<open>protocol.py\<close> and \<open>app/domain/job.py\<close>): the job
  queue on a PostgreSQL table. A table is the list of its rows in insertion order; an operation is
  one transaction, given the transaction's \<open>now()\<close> in microseconds. \<open>SKIP LOCKED\<close> depends on the
  rows other transactions hold at that moment: their ids are the argument \<open>locked\<close>. Rows that tie in
  an \<open>ORDER BY\<close> come in table order.
\<close>

section \<open>Tables\<close>

record job =
  jid :: string
  kind :: string
  jstatus :: job_status
  owner_user_id :: string
  project_id :: string
  datasource_ids :: "string list"
  priority :: int
  available_at :: int
  job_timeout_seconds :: int
  resource_profile :: "(string, pval) dict"
  result_ref :: "(string, pval) dict option"
  audit_id :: string
  worker_id :: "string option"
  last_heartbeat :: "int option"
  started_at :: "int option"
  finished_at :: "int option"
  cancel_requested :: bool
  cancel_reason :: "string option"
  jerror :: "string option"
  error_code :: "string option"
  retry_count :: int
  payload :: "(string, pval) dict"
  parent_workflow_run_id :: "string option"

record job_row = job +
  created_at :: int

record job_event =
  event_job_id :: string
  event_ts :: int
  event_type :: string
  event_message :: "string option"

record db =
  jobs :: "job_row list"
  job_events :: "job_event list"

datatype queue_error = Integrity_error | Worker_id_required | Invalid_argument

record backend =
  backend_worker_id :: "string option"
  job_default_max_retries :: int

definition new_backend :: "string option \<Rightarrow> int \<Rightarrow> (queue_error, backend) result" where
  "new_backend w max_tries =
     (if max_tries < 0 then Inl Invalid_argument
      else Inr \<lparr>backend_worker_id = w, job_default_max_retries = max_tries\<rparr>)"

definition job_from_row :: "job_row \<Rightarrow> job" where
  "job_from_row r = (let j = job.truncate r in
     j\<lparr>result_ref := (case result_ref j of Some [] \<Rightarrow> None | ref \<Rightarrow> ref)\<rparr>)"

section \<open>SQL primitives\<close>

definition find_job :: "db \<Rightarrow> string \<Rightarrow> job_row option" where
  "find_job d j = find (\<lambda>r. jid r = j) (jobs d)"

text \<open>\<open>UPDATE jobs SET ... WHERE ...\<close>: the new table and the row count.\<close>

definition update_jobs :: "(job_row \<Rightarrow> bool) \<Rightarrow> (job_row \<Rightarrow> job_row) \<Rightarrow> db \<Rightarrow> db \<times> nat" where
  "update_jobs sel upd d =
     (d\<lparr>jobs := map (\<lambda>r. if sel r then upd r else r) (jobs d)\<rparr>, length (filter sel (jobs d)))"

text \<open>The insert into \<open>job_events\<close> has a foreign key on the job.\<close>

definition write_event :: "int \<Rightarrow> string \<Rightarrow> string \<Rightarrow> string option \<Rightarrow> db \<Rightarrow> (queue_error, db) result" where
  "write_event now j ty msg d =
     (if j \<in> jid ` set (jobs d)
      then Inr (d\<lparr>job_events := job_events d @ [\<lparr>event_job_id = j, event_ts = now, event_type = ty, event_message = msg\<rparr>]\<rparr>)
      else Inl Integrity_error)"

text \<open>Update one job and, when a row was changed, write the event.\<close>

definition update_one ::
    "int \<Rightarrow> string \<Rightarrow> (job_row \<Rightarrow> bool) \<Rightarrow> (job_row \<Rightarrow> job_row) \<Rightarrow> string \<Rightarrow> string option \<Rightarrow> db
     \<Rightarrow> (queue_error, db) result" where
  "update_one now j cond upd ty msg d =
     (case update_jobs (\<lambda>r. jid r = j \<and> cond r) upd d of (d', n) \<Rightarrow>
        if n \<noteq> 0 then write_event now j ty msg d' else Inr d')"

definition owned_by :: "string \<Rightarrow> job_row \<Rightarrow> bool" where
  "owned_by w r \<longleftrightarrow> worker_id r = Some w \<and> jstatus r = Job_running"

definition with_worker :: "backend \<Rightarrow> (string \<Rightarrow> (queue_error, 'a) result) \<Rightarrow> (queue_error, 'a) result" where
  "with_worker b f = (case backend_worker_id b of None \<Rightarrow> Inl Worker_id_required | Some w \<Rightarrow> f w)"

section \<open>Operations of the backend\<close>

definition queued_row :: "int \<Rightarrow> job \<Rightarrow> job_row" where
  "queued_row now j = job.extend
     (j\<lparr>jstatus := Job_pending, worker_id := None, last_heartbeat := None, started_at := None,
        finished_at := None, error_code := None\<rparr>) \<lparr>created_at = now\<rparr>"

text \<open>
  The key of the unique index \<open>uq_jobs_workflow_node_per_run\<close>: the parent run and
  \<open>payload->>'workflow_node_id'\<close>; rows without one of the two are not constrained. Arrays, objects and
  fractional numbers stand for their own text.
\<close>

definition json_text :: "pval \<Rightarrow> pval option" where
  "json_text v = (case v of
       PScalar SNone \<Rightarrow> None
     | PScalar (SInt i) \<Rightarrow> Some (PStr (int_str i))
     | PScalar (SBool b) \<Rightarrow> Some (PStr (if b then ''true'' else ''false''))
     | _ \<Rightarrow> Some v)"

definition workflow_node_key :: "'a job_scheme \<Rightarrow> (string \<times> pval) option" where
  "workflow_node_key r = (case parent_workflow_run_id r of
       None \<Rightarrow> None
     | Some p \<Rightarrow> (case dict_get (payload r) ''workflow_node_id'' of
         None \<Rightarrow> None
       | Some v \<Rightarrow> map_option (Pair p) (json_text v)))"

definition enqueue :: "int \<Rightarrow> job \<Rightarrow> db \<Rightarrow> (queue_error, db) result" where
  "enqueue now j d =
     (if jid j \<in> jid ` set (jobs d) \<or>
         (workflow_node_key j \<noteq> None \<and> workflow_node_key j \<in> workflow_node_key ` set (jobs d)) then Inl Integrity_error
      else write_event now (jid j) ''enqueued'' None (d\<lparr>jobs := jobs d @ [queued_row now j]\<rparr>))"

definition claimable :: "string set \<Rightarrow> int \<Rightarrow> job_row \<Rightarrow> bool" where
  "claimable locked now r \<longleftrightarrow> jstatus r = Job_pending \<and> available_at r \<le> now \<and> jid r \<notin> locked"

text \<open>\<open>ORDER BY priority DESC, created_at ASC\<close>: two stable sorts, the weaker key first.\<close>

definition claim_order :: "job_row list \<Rightarrow> job_row list" where
  "claim_order rs = sort_key (\<lambda>r. - priority r) (sort_key created_at rs)"

definition claim_next :: "string set \<Rightarrow> int \<Rightarrow> string \<Rightarrow> db \<Rightarrow> (queue_error, db \<times> job option) result" where
  "claim_next locked now w d =
     (case claim_order (filter (claimable locked now) (jobs d)) of
        [] \<Rightarrow> Inr (d, None)
      | r # _ \<Rightarrow>
          (let upd = (\<lambda>x. x\<lparr>jstatus := Job_running, worker_id := Some w, started_at := Some now, last_heartbeat := Some now\<rparr>);
               d' = fst (update_jobs (\<lambda>x. jid x = jid r) upd d)
           in rbind (write_event now (jid r) ''claimed'' (Some (''worker='' @ w)) d') (\<lambda>d''.
                Inr (d'', Some (job_from_row (upd r))))))"

definition complete :: "backend \<Rightarrow> int \<Rightarrow> string \<Rightarrow> (string, pval) dict \<Rightarrow> db \<Rightarrow> (queue_error, db) result" where
  "complete b now j ref d = with_worker b (\<lambda>w.
     update_one now j (owned_by w)
       (\<lambda>r. r\<lparr>jstatus := Job_success, result_ref := Some ref, finished_at := Some now, jerror := None\<rparr>) ''completed'' None d)"

definition update_result_ref :: "backend \<Rightarrow> string \<Rightarrow> (string, pval) dict \<Rightarrow> db \<Rightarrow> (queue_error, db) result" where
  "update_result_ref b j ref d = with_worker b (\<lambda>w.
     Inr (fst (update_jobs (\<lambda>r. jid r = j \<and> owned_by w r) (\<lambda>r. r\<lparr>result_ref := Some ref\<rparr>) d)))"

definition fail :: "backend \<Rightarrow> int \<Rightarrow> string \<Rightarrow> string \<Rightarrow> db \<Rightarrow> (queue_error, db) result" where
  "fail b now j err d = with_worker b (\<lambda>w.
     update_one now j (owned_by w)
       (\<lambda>r. r\<lparr>jstatus := Job_failed, jerror := Some err, finished_at := Some now\<rparr>) ''failed'' (Some err) d)"

definition request_cancel :: "int \<Rightarrow> string \<Rightarrow> db \<Rightarrow> (queue_error, db) result" where
  "request_cancel now j d =
     write_event now j ''cancel_requested'' None
       (fst (update_jobs (\<lambda>r. jid r = j) (\<lambda>r. r\<lparr>cancel_requested := True, cancel_reason := Some ''requested''\<rparr>) d))"

definition heartbeat :: "int \<Rightarrow> string \<Rightarrow> string \<Rightarrow> db \<Rightarrow> db" where
  "heartbeat now j w d =
     fst (update_jobs (\<lambda>r. jid r = j \<and> owned_by w r) (\<lambda>r. r\<lparr>last_heartbeat := Some now\<rparr>) d)"

definition cancel_row :: "int \<Rightarrow> string \<Rightarrow> job_row \<Rightarrow> job_row" where
  "cancel_row now reason r = r\<lparr>jstatus := Job_cancelled, cancel_requested := True, cancel_reason := Some reason,
     finished_at := Some now\<rparr>"

definition mark_cancelled :: "backend \<Rightarrow> int \<Rightarrow> string \<Rightarrow> string \<Rightarrow> db \<Rightarrow> (queue_error, db) result" where
  "mark_cancelled b now j reason d = with_worker b (\<lambda>w.
     update_one now j (owned_by w) (cancel_row now reason) ''cancelled'' (Some reason) d)"

definition get_job :: "string \<Rightarrow> db \<Rightarrow> job option" where
  "get_job j d = map_option job_from_row (find_job d j)"

definition is_cancel_requested :: "string \<Rightarrow> db \<Rightarrow> bool" where
  "is_cancel_requested j d = (case get_job j d of None \<Rightarrow> False | Some x \<Rightarrow> cancel_requested x)"

definition str_less_eq :: "string \<Rightarrow> string \<Rightarrow> bool" where
  "str_less_eq s t \<longleftrightarrow> s = t \<or> str_less s t"

fun insert_by_id :: "job_row \<Rightarrow> job_row list \<Rightarrow> job_row list" where
  "insert_by_id r [] = [r]"
| "insert_by_id r (x # xs) = (if str_less_eq (jid r) (jid x) then r # x # xs else x # insert_by_id r xs)"

text \<open>\<open>ORDER BY created_at ASC, id ASC\<close>.\<close>

definition list_jobs_by_parent :: "string \<Rightarrow> db \<Rightarrow> job list" where
  "list_jobs_by_parent p d =
     map job_from_row (sort_key created_at
       (foldr insert_by_id (filter (\<lambda>r. parent_workflow_run_id r = Some p) (jobs d)) []))"

definition requeue_workflow_run :: "backend \<Rightarrow> int \<Rightarrow> string \<Rightarrow> int option \<Rightarrow> db \<Rightarrow> (queue_error, db) result" where
  "requeue_workflow_run b now j next_at d = with_worker b (\<lambda>w.
     Inr (fst (update_jobs (\<lambda>r. jid r = j \<and> owned_by w r)
       (\<lambda>r. r\<lparr>jstatus := Job_pending, worker_id := None, started_at := None, last_heartbeat := None,
              available_at := (case next_at of Some t \<Rightarrow> t | None \<Rightarrow> now)\<rparr>) d)))"

definition retry_workflow_node :: "int \<Rightarrow> string \<Rightarrow> db \<Rightarrow> (queue_error, db) result" where
  "retry_workflow_node now j d =
     update_one now j (\<lambda>r. jstatus r \<in> {Job_failed, Job_timeout})
       (\<lambda>r. r\<lparr>jstatus := Job_pending, worker_id := None, started_at := None, last_heartbeat := None, finished_at := None,
              jerror := None, error_code := None, available_at := now, retry_count := retry_count r + 1\<rparr>)
       ''workflow_node_retry'' None d"

definition cancel_pending_job :: "int \<Rightarrow> string \<Rightarrow> string \<Rightarrow> db \<Rightarrow> (queue_error, db) result" where
  "cancel_pending_job now j reason d =
     update_one now j (\<lambda>r. jstatus r = Job_pending) (cancel_row now reason) ''cancelled'' (Some reason) d"

section \<open>The reaper\<close>

definition stale :: "int \<Rightarrow> int \<Rightarrow> job_row \<Rightarrow> bool" where
  "stale now timeout r \<longleftrightarrow> jstatus r = Job_running \<and>
     (case last_heartbeat r of None \<Rightarrow> False | Some h \<Rightarrow> h < now - timeout * 1000000)"

text \<open>\<open>COALESCE(payload->>'sql_write', 'false') = 'true'\<close>.\<close>

definition sql_write :: "job_row \<Rightarrow> bool" where
  "sql_write r \<longleftrightarrow> (case dict_get (payload r) ''sql_write'' of
       Some (PScalar (SBool b)) \<Rightarrow> b
     | Some (PScalar (SStr s)) \<Rightarrow> s = ''true''
     | _ \<Rightarrow> False)"

definition select_stale :: "(job_row \<Rightarrow> bool) \<Rightarrow> nat \<Rightarrow> db \<Rightarrow> string list" where
  "select_stale cond limit d =
     map jid (take limit (sort_key (\<lambda>r. case last_heartbeat r of Some h \<Rightarrow> h | None \<Rightarrow> 0) (filter cond (jobs d))))"

definition write_events :: "int \<Rightarrow> string \<Rightarrow> string list \<Rightarrow> db \<Rightarrow> (queue_error, db) result" where
  "write_events now ty js d = fold_r (\<lambda>d j. write_event now j ty None d) d js"

definition reap_statement ::
    "(job_row \<Rightarrow> bool) \<Rightarrow> (job_row \<Rightarrow> job_row) \<Rightarrow> string \<Rightarrow> string set \<Rightarrow> int \<Rightarrow> nat \<Rightarrow> db \<Rightarrow> (queue_error, db \<times> nat) result" where
  "reap_statement cond upd ty locked now limit d =
     (let js = select_stale (\<lambda>r. cond r \<and> jid r \<notin> locked) limit d;
          d' = fst (update_jobs (\<lambda>r. jid r \<in> set js) upd d)
      in rbind (write_events now ty js d') (\<lambda>d''. Inr (d'', length js)))"

definition resume_row :: "job_row \<Rightarrow> job_row" where
  "resume_row r = r\<lparr>jstatus := Job_pending, worker_id := None, started_at := None, last_heartbeat := None\<rparr>"

definition requeue_stale_workflow_runs :: "string set \<Rightarrow> int \<Rightarrow> int \<Rightarrow> nat \<Rightarrow> db \<Rightarrow> (queue_error, db \<times> nat) result" where
  "requeue_stale_workflow_runs locked now timeout limit d =
     reap_statement (\<lambda>r. stale now timeout r \<and> kind r = ''workflow_run'') resume_row
       ''workflow_run_resumed_after_stale_heartbeat'' locked now limit d"

definition retryable :: "int \<Rightarrow> job_row \<Rightarrow> bool" where
  "retryable max_tries r \<longleftrightarrow> kind r \<noteq> ''workflow_run'' \<and> retry_count r < max_tries \<and> \<not> sql_write r"

definition requeue_stale_jobs :: "string set \<Rightarrow> int \<Rightarrow> int \<Rightarrow> int \<Rightarrow> nat \<Rightarrow> db \<Rightarrow> (queue_error, db \<times> nat) result" where
  "requeue_stale_jobs locked now timeout max_tries limit d =
     reap_statement (\<lambda>r. stale now timeout r \<and> retryable max_tries r)
       (\<lambda>r. (resume_row r)\<lparr>retry_count := retry_count r + 1, jerror := None\<rparr>)
       ''requeued_after_stale_heartbeat'' locked now limit d"

definition fail_stale_jobs :: "string set \<Rightarrow> int \<Rightarrow> int \<Rightarrow> nat \<Rightarrow> db \<Rightarrow> (queue_error, db \<times> nat) result" where
  "fail_stale_jobs locked now timeout limit d =
     reap_statement (\<lambda>r. stale now timeout r \<and> kind r \<noteq> ''workflow_run'')
       (\<lambda>r. r\<lparr>jstatus := Job_failed, jerror := Some ''worker heartbeat timed out'', finished_at := Some now\<rparr>)
       ''failed_after_stale_heartbeat'' locked now limit d"

record reap_report =
  requeued :: nat
  failed_count :: nat

text \<open>Three transactions; each sees its own clock and its own set of rows locked by others.\<close>

definition reap_stale_running_jobs ::
    "backend \<Rightarrow> string set \<times> string set \<times> string set \<Rightarrow> int \<times> int \<times> int \<Rightarrow> int \<Rightarrow> int \<Rightarrow> db
     \<Rightarrow> (queue_error, db \<times> reap_report) result" where
  "reap_stale_running_jobs b lockeds nows timeout limit d =
     (case (lockeds, nows) of ((l1, l2, l3), (t1, t2, t3)) \<Rightarrow>
      if timeout \<le> 0 \<or> limit \<le> 0 then Inl Invalid_argument
      else
        rbind (requeue_stale_workflow_runs l1 t1 timeout (nat limit) d) (\<lambda>(d1, resumed).
        let left1 = nat limit - resumed in
        rbind (if job_default_max_retries b > 0 \<and> left1 > 0
               then requeue_stale_jobs l2 t2 timeout (job_default_max_retries b) left1 d1
               else Inr (d1, 0)) (\<lambda>(d2, n).
        let left2 = left1 - n in
        rbind (if left2 > 0 then fail_stale_jobs l3 t3 timeout left2 d2 else Inr (d2, 0)) (\<lambda>(d3, k).
        Inr (d3, \<lparr>requeued = resumed + n, failed_count = k\<rparr>)))))"

section \<open>Lookup laws\<close>

definition same_id :: "(job_row \<Rightarrow> job_row) \<Rightarrow> bool" where
  "same_id upd \<longleftrightarrow> (\<forall>r. jid (upd r) = jid r)"

lemma find_map_id:
  "same_id f \<Longrightarrow> find (\<lambda>r. jid r = j) (map f xs) = map_option f (find (\<lambda>r. jid r = j) xs)"
  by (induction xs) (auto simp: same_id_def)

lemma find_update_jobs:
  assumes "same_id upd"
  shows "find_job (fst (update_jobs sel upd d)) j = map_option (\<lambda>r. if sel r then upd r else r) (find_job d j)"
proof -
  have "same_id (\<lambda>r. if sel r then upd r else r)" using assms by (simp add: same_id_def)
  from find_map_id [OF this] show ?thesis by (simp add: find_job_def update_jobs_def)
qed

lemma ids_update_jobs: "same_id upd \<Longrightarrow> map jid (jobs (fst (update_jobs sel upd d))) = map jid (jobs d)"
  by (simp add: update_jobs_def same_id_def)

lemma write_event_jobs: "write_event now j ty m d = Inr d' \<Longrightarrow> jobs d' = jobs d"
  by (auto simp: write_event_def split: if_splits)

lemma find_write_event: "write_event now j ty m d = Inr d' \<Longrightarrow> find_job d' x = find_job d x"
  by (simp add: find_job_def write_event_jobs)

lemma find_job_Some: "find_job d j = Some r \<Longrightarrow> r \<in> set (jobs d) \<and> jid r = j"
  by (auto simp: find_job_def find_Some_iff)

lemma find_job_None: "find_job d j = None \<longleftrightarrow> j \<notin> jid ` set (jobs d)"
  by (auto simp: find_job_def find_None_iff)

lemma find_job_distinct:
  assumes "distinct (map jid (jobs d))"
  shows "find_job d j = Some r \<longleftrightarrow> r \<in> set (jobs d) \<and> jid r = j"
proof
  assume "r \<in> set (jobs d) \<and> jid r = j"
  then have r: "r \<in> set (jobs d)" "jid r = j" by auto
  then obtain s where s: "find_job d j = Some s" using find_job_None [of d j] by fastforce
  with find_job_Some [OF s] r assms show "find_job d j = Some r" unfolding distinct_map by (metis inj_onD)
qed (rule find_job_Some)

text \<open>A guarded update of one job: it happens to that job or not at all.\<close>

lemma update_one_cases:
  assumes "same_id upd"
  shows "\<exists>d'. update_one now j cond upd ty m d = Inr d' \<and>
           (\<forall>x. find_job d' x = map_option (\<lambda>r. if jid r = j \<and> cond r then upd r else r) (find_job d x)) \<and>
           map jid (jobs d') = map jid (jobs d) \<and>
           jobs d' = map (\<lambda>r. if jid r = j \<and> cond r then upd r else r) (jobs d)"
proof -
  let ?sel = "\<lambda>r. jid r = j \<and> cond r"
  let ?d = "fst (update_jobs ?sel upd d)"
  have ids: "jid ` set (jobs ?d) = jid ` set (jobs d)" using ids_update_jobs [OF assms] by (metis set_map)
  have jobs: "jobs ?d = map (\<lambda>r. if ?sel r then upd r else r) (jobs d)" by (simp add: update_jobs_def)
  show ?thesis
  proof (cases "filter ?sel (jobs d) = []")
    case True
    then have "update_one now j cond upd ty m d = Inr ?d" by (simp add: update_one_def update_jobs_def)
    with find_update_jobs [OF assms] ids_update_jobs [OF assms] jobs show ?thesis by blast
  next
    case False
    then have "j \<in> jid ` set (jobs d)" by (auto simp: filter_empty_conv)
    with ids obtain d' where w: "write_event now j ty m ?d = Inr d'" by (auto simp: write_event_def)
    have n: "snd (update_jobs ?sel upd d) \<noteq> 0" using False by (simp add: update_jobs_def)
    have "update_one now j cond upd ty m d = Inr d'"
      using w n unfolding update_one_def by (simp add: case_prod_unfold)
    with find_update_jobs [OF assms] ids_update_jobs [OF assms] find_write_event [OF w] write_event_jobs [OF w] jobs
    show ?thesis by metis
  qed
qed

section \<open>The invariant of the table\<close>

definition row_ok :: "job_row \<Rightarrow> bool" where
  "row_ok r \<longleftrightarrow> (case jstatus r of
       Job_pending \<Rightarrow> worker_id r = None \<and> started_at r = None \<and> last_heartbeat r = None \<and> finished_at r = None
     | Job_running \<Rightarrow> worker_id r \<noteq> None \<and> started_at r \<noteq> None \<and> last_heartbeat r \<noteq> None \<and> finished_at r = None
     | _ \<Rightarrow> finished_at r \<noteq> None)"

lemma workflow_node_key_cong:
  "parent_workflow_run_id r = parent_workflow_run_id r' \<Longrightarrow> payload r = payload r' \<Longrightarrow>
   workflow_node_key r = workflow_node_key r'"
  unfolding workflow_node_key_def by (simp only:)

definition node_keys_distinct :: "job_row list \<Rightarrow> bool" where
  "node_keys_distinct rs \<longleftrightarrow> distinct (filter (\<lambda>k. k \<noteq> None) (map workflow_node_key rs))"

lemma node_keys_distinct_Nil [simp]: "node_keys_distinct []"
  by (simp add: node_keys_distinct_def)

lemma node_keys_distinct_Cons [simp]:
  "node_keys_distinct (r # rs) \<longleftrightarrow>
     node_keys_distinct rs \<and> (workflow_node_key r = None \<or> workflow_node_key r \<notin> workflow_node_key ` set rs)"
  by (auto simp: node_keys_distinct_def)

lemma node_key_no_parent [simp]: "parent_workflow_run_id r = None \<Longrightarrow> workflow_node_key r = None"
  by (simp add: workflow_node_key_def)

lemma node_keys_distinct_append [simp]:
  "node_keys_distinct (rs @ [r]) \<longleftrightarrow>
     node_keys_distinct rs \<and> (workflow_node_key r = None \<or> workflow_node_key r \<notin> workflow_node_key ` set rs)"
  by (auto simp: node_keys_distinct_def)

definition db_inv :: "db \<Rightarrow> bool" where
  "db_inv d \<longleftrightarrow> distinct (map jid (jobs d)) \<and> node_keys_distinct (jobs d) \<and> list_all row_ok (jobs d) \<and>
     (\<forall>e \<in> set (job_events d). event_job_id e \<in> jid ` set (jobs d))"

text \<open>What no later operation changes: a succeeded or cancelled job is settled for good.\<close>

definition keeps :: "job_row \<Rightarrow> job_row \<Rightarrow> bool" where
  "keeps r r' \<longleftrightarrow> jid r' = jid r \<and> created_at r' = created_at r \<and> kind r' = kind r \<and> payload r' = payload r \<and>
     parent_workflow_run_id r' = parent_workflow_run_id r \<and>
     retry_count r \<le> retry_count r' \<and>
     (jstatus r \<in> {Job_success, Job_cancelled} \<longrightarrow>
        jstatus r' = jstatus r \<and> result_ref r' = result_ref r \<and> finished_at r' = finished_at r \<and> jerror r' = jerror r)"

definition db_keeps :: "db \<Rightarrow> db \<Rightarrow> bool" where
  "db_keeps d d' \<longleftrightarrow> (\<forall>r \<in> set (jobs d). \<exists>r' \<in> set (jobs d'). keeps r r')"

lemma keeps_refl [simp]: "keeps r r"
  by (simp add: keeps_def)

lemma keeps_trans: "keeps r s \<Longrightarrow> keeps s t \<Longrightarrow> keeps r t"
  by (auto simp: keeps_def)

lemma db_keeps_refl [simp]: "db_keeps d d"
  by (auto simp: db_keeps_def intro: keeps_refl)

lemma db_keeps_trans: "db_keeps d e \<Longrightarrow> db_keeps e f \<Longrightarrow> db_keeps d f"
  unfolding db_keeps_def by (meson keeps_trans)

text \<open>An update that respects rows respects the table.\<close>

definition good_update :: "db \<Rightarrow> (job_row \<Rightarrow> bool) \<Rightarrow> (job_row \<Rightarrow> job_row) \<Rightarrow> bool" where
  "good_update d sel upd \<longleftrightarrow> (\<forall>r \<in> set (jobs d). sel r \<longrightarrow> row_ok r \<longrightarrow> row_ok (upd r) \<and> keeps r (upd r))"

lemma update_jobs_good:
  assumes "db_inv d" and "good_update d sel upd"
  shows "db_inv (fst (update_jobs sel upd d)) \<and> db_keeps d (fst (update_jobs sel upd d))"
proof -
  define f where "f r = (if sel r then upd r else r)" for r
  have ok: "row_ok (f r)" "keeps r (f r)" if "r \<in> set (jobs d)" for r
    using assms that by (auto simp: db_inv_def list.pred_set good_update_def f_def)
  have jobs: "jobs (fst (update_jobs sel upd d)) = map f (jobs d)" and ev: "job_events (fst (update_jobs sel upd d)) = job_events d"
    by (simp_all add: update_jobs_def f_def)
  have ids: "map jid (map f (jobs d)) = map jid (jobs d)" using ok(2) by (simp add: keeps_def)
  have "workflow_node_key (f r) = workflow_node_key r" if "r \<in> set (jobs d)" for r
    using ok(2) [OF that] by (intro workflow_node_key_cong) (simp_all add: keeps_def)
  then have keys: "map workflow_node_key (map f (jobs d)) = map workflow_node_key (jobs d)" by simp
  from ids have "jid ` set (map f (jobs d)) = jid ` set (jobs d)" by (metis set_map)
  with assms(1) ids keys ok(1) have "db_inv (fst (update_jobs sel upd d))"
    unfolding db_inv_def node_keys_distinct_def jobs ev by (simp only: list.pred_set) auto
  moreover have "db_keeps d (fst (update_jobs sel upd d))"
    unfolding db_keeps_def jobs using ok(2) by auto
  ultimately show ?thesis by simp
qed

lemma write_event_good:
  assumes "db_inv d" and "write_event now j ty m d = Inr d'"
  shows "db_inv d' \<and> db_keeps d d'"
  using assms by (auto simp: write_event_def db_inv_def db_keeps_def intro: keeps_refl split: if_splits)

lemma update_one_good:
  assumes "db_inv d" and "good_update d (\<lambda>r. jid r = j \<and> cond r) upd" and "update_one now j cond upd ty m d = Inr d'"
  shows "db_inv d' \<and> db_keeps d d'"
proof -
  define e where "e = update_jobs (\<lambda>r. jid r = j \<and> cond r) upd d"
  have u: "db_inv (fst e) \<and> db_keeps d (fst e)" unfolding e_def by (rule update_jobs_good [OF assms(1,2)])
  have run: "(if snd e \<noteq> 0 then write_event now j ty m (fst e) else Inr (fst e)) = Inr d'"
    using assms(3) unfolding update_one_def e_def case_prod_unfold .
  show ?thesis
  proof (cases "snd e = 0")
    case True
    with run u show ?thesis by simp
  next
    case False
    with run have "write_event now j ty m (fst e) = Inr d'" by simp
    from write_event_good [OF _ this] u show ?thesis by (auto intro: db_keeps_trans)
  qed
qed

section \<open>Operations as steps\<close>

type_synonym result_json = "(string, pval) dict"

datatype queue_op =
    Enqueue int job
  | Claim "string set" int string
  | Complete backend int string result_json
  | Update_result_ref backend string result_json
  | Fail backend int string string
  | Request_cancel int string
  | Heartbeat int string string
  | Mark_cancelled backend int string string
  | Requeue_run backend int string "int option"
  | Retry_node int string
  | Cancel_pending int string string
  | Reap backend "string set \<times> string set \<times> string set" "int \<times> int \<times> int" int int

fun run_op :: "queue_op \<Rightarrow> db \<Rightarrow> (queue_error, db) result" where
  "run_op (Enqueue now j) d = enqueue now j d"
| "run_op (Claim locked now w) d = rbind (claim_next locked now w d) (\<lambda>(d', _). Inr d')"
| "run_op (Complete b now j ref) d = complete b now j ref d"
| "run_op (Update_result_ref b j ref) d = update_result_ref b j ref d"
| "run_op (Fail b now j err) d = fail b now j err d"
| "run_op (Request_cancel now j) d = request_cancel now j d"
| "run_op (Heartbeat now j w) d = Inr (heartbeat now j w d)"
| "run_op (Mark_cancelled b now j reason) d = mark_cancelled b now j reason d"
| "run_op (Requeue_run b now j t) d = requeue_workflow_run b now j t d"
| "run_op (Retry_node now j) d = retry_workflow_node now j d"
| "run_op (Cancel_pending now j reason) d = cancel_pending_job now j reason d"
| "run_op (Reap b ls ts timeout limit) d = rbind (reap_stale_running_jobs b ls ts timeout limit d) (\<lambda>(d', _). Inr d')"

text \<open>A failed transaction leaves the database as it was.\<close>

inductive queue_step :: "db \<Rightarrow> db \<Rightarrow> bool" where
  op_done: "run_op p d = Inr d' \<Longrightarrow> queue_step d d'"
| op_rolled_back: "run_op p d = Inl e \<Longrightarrow> queue_step d d"

inductive queue_reaches :: "db \<Rightarrow> db \<Rightarrow> bool" where
  start: "queue_reaches d d"
| further: "queue_reaches d e \<Longrightarrow> queue_step e f \<Longrightarrow> queue_reaches d f"

inductive_cases queue_stepE: "queue_step d d'"

lemmas row_simps = good_update_def row_ok_def keeps_def owned_by_def

lemma owned_updates:
  "good_update d (\<lambda>r. jid r = j \<and> owned_by w r)
     (\<lambda>r. r\<lparr>jstatus := Job_success, result_ref := Some ref, finished_at := Some now, jerror := None\<rparr>)"
  "good_update d (\<lambda>r. jid r = j \<and> owned_by w r) (\<lambda>r. r\<lparr>result_ref := Some ref\<rparr>)"
  "good_update d (\<lambda>r. jid r = j \<and> owned_by w r)
     (\<lambda>r. r\<lparr>jstatus := Job_failed, jerror := Some err, finished_at := Some now\<rparr>)"
  "good_update d (\<lambda>r. jid r = j \<and> owned_by w r) (\<lambda>r. r\<lparr>last_heartbeat := Some now\<rparr>)"
  "good_update d (\<lambda>r. jid r = j \<and> owned_by w r) (cancel_row now reason)"
  "good_update d (\<lambda>r. jid r = j \<and> owned_by w r)
     (\<lambda>r. r\<lparr>jstatus := Job_pending, worker_id := None, started_at := None, last_heartbeat := None,
              available_at := t\<rparr>)"
  by (simp_all add: row_simps cancel_row_def)

lemma free_updates:
  "good_update d (\<lambda>r. jid r = j) (\<lambda>r. r\<lparr>cancel_requested := True, cancel_reason := Some c\<rparr>)"
  "good_update d (\<lambda>r. jid r = j \<and> jstatus r = Job_pending) (cancel_row now reason)"
  "good_update d (\<lambda>r. jid r = j \<and> jstatus r \<in> {Job_failed, Job_timeout})
       (\<lambda>r. r\<lparr>jstatus := Job_pending, worker_id := None, started_at := None, last_heartbeat := None, finished_at := None,
              jerror := None, error_code := None, available_at := now, retry_count := retry_count r + 1\<rparr>)"
  by (auto simp: row_simps cancel_row_def split: job_status.splits)

lemma enqueue_good:
  assumes inv: "db_inv d" and run: "enqueue now j d = Inr d'"
  shows "db_inv d' \<and> db_keeps d d'"
proof -
  let ?d = "d\<lparr>jobs := jobs d @ [queued_row now j]\<rparr>"
  have id: "jid (queued_row now j) = jid j" by (simp add: queued_row_def job.defs)
  have ok: "row_ok (queued_row now j)" by (simp add: queued_row_def job.defs row_ok_def)
  have key: "workflow_node_key (queued_row now j) = workflow_node_key j"
    by (intro workflow_node_key_cong) (simp_all add: queued_row_def job.defs)
  from run have new: "jid j \<notin> jid ` set (jobs d)"
      "workflow_node_key j = None \<or> workflow_node_key j \<notin> workflow_node_key ` set (jobs d)"
    and w: "write_event now (jid j) ''enqueued'' None ?d = Inr d'"
    by (auto simp: enqueue_def split: if_splits)
  have "db_inv ?d" using inv new id ok key by (auto simp: db_inv_def)
  moreover have "db_keeps d ?d" by (auto simp: db_keeps_def intro: keeps_refl)
  ultimately show ?thesis using write_event_good [OF _ w] db_keeps_trans by blast
qed

lemma claim_good:
  assumes inv: "db_inv d" and run: "claim_next locked now w d = Inr (d', j)"
  shows "db_inv d' \<and> db_keeps d d'"
proof (cases "claim_order (filter (claimable locked now) (jobs d))")
  case Nil
  with run inv show ?thesis by (simp add: claim_next_def)
next
  case (Cons r rs)
  define upd where "upd = (\<lambda>x :: job_row. x\<lparr>jstatus := Job_running, worker_id := Some w, started_at := Some now, last_heartbeat := Some now\<rparr>)"
  have "r \<in> set (claim_order (filter (claimable locked now) (jobs d)))" using Cons by simp
  then have r: "r \<in> set (jobs d)" "jstatus r = Job_pending" by (auto simp: claim_order_def claimable_def)
  have only: "x = r" if "x \<in> set (jobs d)" "jid x = jid r" for x
    using that r inv unfolding db_inv_def distinct_map by (metis inj_onD)
  have one: "row_ok r \<Longrightarrow> row_ok (upd r) \<and> keeps r (upd r)" using r(2) by (simp add: row_simps upd_def)
  have g: "good_update d (\<lambda>x. jid x = jid r) upd"
    unfolding good_update_def using only one by blast
  from run Cons obtain d1 where w: "write_event now (jid r) ''claimed'' (Some (''worker='' @ w)) (fst (update_jobs (\<lambda>x. jid x = jid r) upd d)) = Inr d1"
    "d' = d1"
    by (auto simp: claim_next_def Let_def rbind_eq_Inr upd_def)
  from update_jobs_good [OF inv g] write_event_good [OF _ w(1)] w(2) show ?thesis by (auto intro: db_keeps_trans)
qed

section \<open>Statements of the reaper\<close>

lemma write_events_good:
  assumes "db_inv d" and "write_events now ty js d = Inr d'"
  shows "db_inv d' \<and> db_keeps d d' \<and> jobs d' = jobs d"
  using assms
proof (induction js arbitrary: d)
  case (Cons j js)
  from Cons.prems(2) obtain e where e: "write_event now j ty None d = Inr e" "write_events now ty js e = Inr d'"
    by (auto simp: write_events_def rbind_eq_Inr)
  from write_event_good [OF Cons.prems(1) e(1)] Cons.IH [OF _ e(2)] write_event_jobs [OF e(1)] show ?case
    by (auto intro: db_keeps_trans)
qed (simp add: write_events_def)

lemma write_events_total:
  "set js \<subseteq> jid ` set (jobs d) \<Longrightarrow> \<exists>d'. write_events now ty js d = Inr d'"
proof (induction js arbitrary: d)
  case (Cons j js)
  then obtain e where e: "write_event now j ty None d = Inr e" by (auto simp: write_event_def)
  with Cons.IH [of e] Cons.prems write_event_jobs [OF e] show ?case by (auto simp: write_events_def)
qed (simp add: write_events_def)

lemma select_stale_sub:
  "x \<in> set (select_stale cond limit d) \<Longrightarrow> \<exists>r \<in> set (jobs d). jid r = x \<and> cond r"
  by (auto simp: select_stale_def dest!: in_set_takeD)

lemma select_stale_length: "length (select_stale cond limit d) \<le> limit"
  by (simp add: select_stale_def)

lemma select_stale_all:
  assumes "length (select_stale cond limit d) < limit" and "r \<in> set (jobs d)" and "cond r"
  shows "jid r \<in> set (select_stale cond limit d)"
proof -
  have "length (filter cond (jobs d)) < limit" using assms(1) by (simp add: select_stale_def)
  with assms(2,3) show ?thesis by (simp add: select_stale_def)
qed

text \<open>The effect of one statement on the rows: the selected ones are updated, no other.\<close>

lemma reap_statement_effect:
  assumes inv: "db_inv d" and id: "same_id upd"
  obtains d' js where "reap_statement cond upd ty locked now limit d = Inr (d', length js)"
    "jobs d' = map (\<lambda>r. if jid r \<in> set js then upd r else r) (jobs d)" "length js \<le> limit"
    "\<And>r. r \<in> set (jobs d) \<Longrightarrow> jid r \<in> set js \<Longrightarrow> cond r \<and> jid r \<notin> locked"
    "\<And>r. length js < limit \<Longrightarrow> r \<in> set (jobs d) \<Longrightarrow> cond r \<Longrightarrow> jid r \<notin> locked \<Longrightarrow> jid r \<in> set js"
    "good_update d (\<lambda>r. jid r \<in> set js) upd \<Longrightarrow> db_inv d' \<and> db_keeps d d'"
proof -
  define cond' where "cond' r \<longleftrightarrow> cond r \<and> jid r \<notin> locked" for r
  define js where "js = select_stale cond' limit d"
  define e where "e = fst (update_jobs (\<lambda>r. jid r \<in> set js) upd d)"
  have jobs: "jobs e = map (\<lambda>r. if jid r \<in> set js then upd r else r) (jobs d)" by (simp add: e_def update_jobs_def)
  have ids: "jid ` set (jobs e) = jid ` set (jobs d)"
    using ids_update_jobs [OF id] unfolding e_def by (metis set_map)
  have "set js \<subseteq> jid ` set (jobs e)" unfolding ids using select_stale_sub [of _ cond' limit d] by (auto simp: js_def)
  then obtain d' where ev: "write_events now ty js e = Inr d'" using write_events_total by blast
  have run: "reap_statement cond upd ty locked now limit d = Inr (d', length js)"
    using ev unfolding reap_statement_def Let_def js_def e_def cond'_def by simp
  have same: "jobs d' = jobs e"
    using ev
  proof (induction js arbitrary: e)
    case (Cons j js)
    then obtain e1 where "write_event now j ty None e = Inr e1" "write_events now ty js e1 = Inr d'"
      by (auto simp: write_events_def rbind_eq_Inr)
    with Cons.IH write_event_jobs show ?case by metis
  qed (simp add: write_events_def)
  have sel: "cond r \<and> jid r \<notin> locked" if r: "r \<in> set (jobs d)" "jid r \<in> set js" for r
  proof -
    from r(2) obtain x where "x \<in> set (jobs d)" "jid x = jid r" "cond' x"
      using select_stale_sub [of "jid r" cond' limit d] by (auto simp: js_def)
    with r(1) inv have "x = r" unfolding db_inv_def distinct_map by (metis inj_onD)
    with \<open>cond' x\<close> show ?thesis by (simp add: cond'_def)
  qed
  have all: "jid r \<in> set js" if "length js < limit" "r \<in> set (jobs d)" "cond r" "jid r \<notin> locked" for r
    using select_stale_all [of cond' limit d r] that by (simp add: js_def cond'_def)
  have good: "db_inv d' \<and> db_keeps d d'" if g: "good_update d (\<lambda>r. jid r \<in> set js) upd"
  proof -
    from update_jobs_good [OF inv g] have e: "db_inv e" "db_keeps d e" by (simp_all add: e_def)
    from write_events_good [OF e(1) ev] e(2) show ?thesis by (auto intro: db_keeps_trans)
  qed
  show ?thesis
    by (rule that [OF run _ _ sel all good]) (simp_all add: same jobs js_def select_stale_length)
qed

definition reap_effect ::
    "(job_row \<Rightarrow> bool) \<Rightarrow> (job_row \<Rightarrow> job_row) \<Rightarrow> string set \<Rightarrow> nat \<Rightarrow> db \<Rightarrow> db \<Rightarrow> string list \<Rightarrow> bool" where
  "reap_effect cond upd locked limit d d' js \<longleftrightarrow>
     jobs d' = map (\<lambda>r. if jid r \<in> set js then upd r else r) (jobs d) \<and> length js \<le> limit \<and>
     (\<forall>r \<in> set (jobs d). jid r \<in> set js \<longrightarrow> cond r \<and> jid r \<notin> locked) \<and>
     (length js < limit \<longrightarrow> (\<forall>r \<in> set (jobs d). cond r \<longrightarrow> jid r \<notin> locked \<longrightarrow> jid r \<in> set js)) \<and>
     db_inv d' \<and> db_keeps d d'"

lemma reap_effect_none: "db_inv d \<Longrightarrow> reap_effect cond upd locked 0 d d []"
  by (simp add: reap_effect_def)

lemma reap_statement_effect':
  assumes "db_inv d" and "same_id upd" and "\<And>r. row_ok r \<Longrightarrow> cond r \<Longrightarrow> row_ok (upd r) \<and> keeps r (upd r)"
  shows "\<exists>d' js. reap_statement cond upd ty locked now limit d = Inr (d', length js) \<and>
           reap_effect cond upd locked limit d d' js"
proof -
  obtain d' js where run: "reap_statement cond upd ty locked now limit d = Inr (d', length js)"
    and jobs: "jobs d' = map (\<lambda>r. if jid r \<in> set js then upd r else r) (jobs d)" and len: "length js \<le> limit"
    and sel: "\<And>r. r \<in> set (jobs d) \<Longrightarrow> jid r \<in> set js \<Longrightarrow> cond r \<and> jid r \<notin> locked"
    and all: "\<And>r. length js < limit \<Longrightarrow> r \<in> set (jobs d) \<Longrightarrow> cond r \<Longrightarrow> jid r \<notin> locked \<Longrightarrow> jid r \<in> set js"
    and good: "good_update d (\<lambda>r. jid r \<in> set js) upd \<Longrightarrow> db_inv d' \<and> db_keeps d d'"
    using reap_statement_effect [OF assms(1,2)] by blast
  have "good_update d (\<lambda>r. jid r \<in> set js) upd" using sel assms(3) by (auto simp: good_update_def)
  with run jobs len sel all good show ?thesis unfolding reap_effect_def by blast
qed

abbreviation run_stale :: "int \<Rightarrow> int \<Rightarrow> job_row \<Rightarrow> bool" where
  "run_stale t timeout \<equiv> \<lambda>r. stale t timeout r \<and> kind r = ''workflow_run''"

abbreviation retry_stale :: "int \<Rightarrow> int \<Rightarrow> int \<Rightarrow> job_row \<Rightarrow> bool" where
  "retry_stale m t timeout \<equiv> \<lambda>r. stale t timeout r \<and> retryable m r"

abbreviation job_stale :: "int \<Rightarrow> int \<Rightarrow> job_row \<Rightarrow> bool" where
  "job_stale t timeout \<equiv> \<lambda>r. stale t timeout r \<and> kind r \<noteq> ''workflow_run''"

abbreviation retry_row :: "job_row \<Rightarrow> job_row" where
  "retry_row \<equiv> \<lambda>r. (resume_row r)\<lparr>retry_count := retry_count r + 1, jerror := None\<rparr>"

abbreviation timed_out_row :: "int \<Rightarrow> job_row \<Rightarrow> job_row" where
  "timed_out_row t \<equiv> \<lambda>r. r\<lparr>jstatus := Job_failed, jerror := Some ''worker heartbeat timed out'', finished_at := Some t\<rparr>"

lemma stale_row_ok:
  assumes "row_ok r" "stale t timeout r"
  shows "row_ok (resume_row r) \<and> keeps r (resume_row r)" "row_ok (retry_row r) \<and> keeps r (retry_row r)"
    "row_ok (timed_out_row u r) \<and> keeps r (timed_out_row u r)"
  using assms by (auto simp: row_simps resume_row_def stale_def)

lemma stale_same_id: "same_id resume_row" "same_id retry_row" "same_id (timed_out_row t)"
  by (simp_all add: same_id_def resume_row_def)

text \<open>The three statements one after the other, with what each of them selected.\<close>

lemma reap_trace:
  assumes inv: "db_inv d" and pos: "timeout > 0" "limit > 0"
  obtains d1 d2 d3 js1 js2 js3 where
    "reap_stale_running_jobs b (l1, l2, l3) (t1, t2, t3) timeout limit d =
       Inr (d3, \<lparr>requeued = length js1 + length js2, failed_count = length js3\<rparr>)"
    "reap_effect (run_stale t1 timeout) resume_row l1 (nat limit) d d1 js1"
    "reap_effect (retry_stale (job_default_max_retries b) t2 timeout) retry_row l2
       (if job_default_max_retries b > 0 then nat limit - length js1 else 0) d1 d2 js2"
    "reap_effect (job_stale t3 timeout) (timed_out_row t3) l3 (nat limit - length js1 - length js2) d2 d3 js3"
proof -
  let ?m = "job_default_max_retries b"
  obtain d1 js1 where s1: "requeue_stale_workflow_runs l1 t1 timeout (nat limit) d = Inr (d1, length js1)"
    and e1: "reap_effect (run_stale t1 timeout) resume_row l1 (nat limit) d d1 js1"
    unfolding requeue_stale_workflow_runs_def
    using reap_statement_effect' [OF inv stale_same_id(1), of "run_stale t1 timeout"] stale_row_ok(1) by meson
  let ?l1 = "if ?m > 0 then nat limit - length js1 else 0"
  have i1: "db_inv d1" using e1 by (simp add: reap_effect_def)
  obtain d2 js2 where s2: "(if ?m > 0 \<and> nat limit - length js1 > 0
      then requeue_stale_jobs l2 t2 timeout ?m (nat limit - length js1) d1 else Inr (d1, 0)) = Inr (d2, length js2)"
    and e2: "reap_effect (retry_stale ?m t2 timeout) retry_row l2 ?l1 d1 d2 js2"
  proof (cases "?m > 0 \<and> nat limit - length js1 > 0")
    case True
    from reap_statement_effect' [OF i1 stale_same_id(2), of "retry_stale ?m t2 timeout"] stale_row_ok(2)
    obtain e js where "requeue_stale_jobs l2 t2 timeout ?m (nat limit - length js1) d1 = Inr (e, length js)"
      "reap_effect (retry_stale ?m t2 timeout) retry_row l2 (nat limit - length js1) d1 e js"
      unfolding requeue_stale_jobs_def by meson
    with True that show ?thesis by simp
  next
    case False
    with that [of d1 "[]"] reap_effect_none [OF i1] show ?thesis by (auto split: if_splits)
  qed
  let ?l2 = "nat limit - length js1 - length js2"
  have i2: "db_inv d2" using e2 by (simp add: reap_effect_def)
  obtain d3 js3 where s3: "(if ?l2 > 0 then fail_stale_jobs l3 t3 timeout ?l2 d2 else Inr (d2, 0)) = Inr (d3, length js3)"
    and e3: "reap_effect (job_stale t3 timeout) (timed_out_row t3) l3 ?l2 d2 d3 js3"
  proof (cases "?l2 > 0")
    case True
    from reap_statement_effect' [OF i2 stale_same_id(3), of "job_stale t3 timeout"] stale_row_ok(3)
    obtain e js where "fail_stale_jobs l3 t3 timeout ?l2 d2 = Inr (e, length js)"
      "reap_effect (job_stale t3 timeout) (timed_out_row t3) l3 ?l2 d2 e js"
      unfolding fail_stale_jobs_def by meson
    with True that show ?thesis by simp
  next
    case False
    with that [of d2 "[]"] reap_effect_none [OF i2] show ?thesis by simp
  qed
  have "reap_stale_running_jobs b (l1, l2, l3) (t1, t2, t3) timeout limit d =
       Inr (d3, \<lparr>requeued = length js1 + length js2, failed_count = length js3\<rparr>)"
    using pos s1 s2 s3 unfolding reap_stale_running_jobs_def Let_def
    by (simp only: prod.case rbind_simps) simp
  from that [OF this e1 e2 e3] show ?thesis .
qed

section \<open>Every operation keeps the invariant\<close>

lemma with_worker_good:
  assumes "with_worker b f = Inr d'" and "\<And>w. f w = Inr d' \<Longrightarrow> P"
  shows P
  using assms by (auto simp: with_worker_def split: option.splits)

lemma reap_good:
  assumes inv: "db_inv d" and run: "reap_stale_running_jobs b ls ts timeout limit d = Inr (d', rep)"
  shows "db_inv d' \<and> db_keeps d d'"
proof -
  obtain l1 l2 l3 where ls: "ls = (l1, l2, l3)" by (cases ls)
  obtain t1 t2 t3 where ts: "ts = (t1, t2, t3)" by (cases ts)
  have "timeout > 0" "limit > 0" using run by (auto simp: reap_stale_running_jobs_def ls ts split: if_splits)
  from reap_trace [OF inv this, of b l1 l2 l3 t1 t2 t3] run show ?thesis
    unfolding ls ts reap_effect_def by (metis Inr_inject db_keeps_trans prod.inject)
qed

lemma run_op_good:
  assumes inv: "db_inv d" and run: "run_op p d = Inr d'"
  shows "db_inv d' \<and> db_keeps d d'"
proof (cases p)
  case (Enqueue now j)
  with run enqueue_good [OF inv] show ?thesis by simp
next
  case (Claim locked now w)
  with run claim_good [OF inv] show ?thesis by (auto simp: rbind_eq_Inr)
next
  case (Complete b now j ref)
  with run have "complete b now j ref d = Inr d'" by simp
  then show ?thesis unfolding complete_def
    by (rule with_worker_good) (rule update_one_good [OF inv owned_updates(1)])
next
  case (Update_result_ref b j ref)
  with run have "update_result_ref b j ref d = Inr d'" by simp
  then show ?thesis unfolding update_result_ref_def
    by (rule with_worker_good) (use update_jobs_good [OF inv owned_updates(2)] in auto)
next
  case (Fail b now j err)
  with run have "fail b now j err d = Inr d'" by simp
  then show ?thesis unfolding fail_def
    by (rule with_worker_good) (rule update_one_good [OF inv owned_updates(3)])
next
  case (Request_cancel now j)
  with run have w: "write_event now j ''cancel_requested'' None
       (fst (update_jobs (\<lambda>r. jid r = j) (\<lambda>r. r\<lparr>cancel_requested := True, cancel_reason := Some ''requested''\<rparr>) d)) = Inr d'"
    by (simp add: request_cancel_def)
  from update_jobs_good [OF inv free_updates(1)] write_event_good [OF _ w] show ?thesis by (auto intro: db_keeps_trans)
next
  case (Heartbeat now j w)
  with run update_jobs_good [OF inv owned_updates(4)] show ?thesis by (auto simp: heartbeat_def)
next
  case (Mark_cancelled b now j reason)
  with run have "mark_cancelled b now j reason d = Inr d'" by simp
  then show ?thesis unfolding mark_cancelled_def
    by (rule with_worker_good) (rule update_one_good [OF inv owned_updates(5)])
next
  case (Requeue_run b now j t)
  with run have "requeue_workflow_run b now j t d = Inr d'" by simp
  then show ?thesis unfolding requeue_workflow_run_def
    by (rule with_worker_good) (use update_jobs_good [OF inv owned_updates(6)] in auto)
next
  case (Retry_node now j)
  with run have "retry_workflow_node now j d = Inr d'" by simp
  then show ?thesis unfolding retry_workflow_node_def by (rule update_one_good [OF inv free_updates(3)])
next
  case (Cancel_pending now j reason)
  with run have "cancel_pending_job now j reason d = Inr d'" by simp
  then show ?thesis unfolding cancel_pending_job_def by (rule update_one_good [OF inv free_updates(2)])
next
  case (Reap b ls ts timeout limit)
  with run obtain rep where "reap_stale_running_jobs b ls ts timeout limit d = Inr (d', rep)"
    by (auto simp: rbind_eq_Inr)
  from reap_good [OF inv this] show ?thesis .
qed

definition empty_db :: db where
  "empty_db = \<lparr>jobs = [], job_events = []\<rparr>"

text \<open>
  C8. Whatever sequence of queue operations workers, the API and the reaper run, in whatever
  order and including failed transactions: job ids stay unique; a pending row has no worker, start
  or heartbeat; a running row has all three; only a finished row has a finish time; every event
  refers to a job. And from any point on, a job that has succeeded or was cancelled keeps its
  status, result, error and finish time for good, and no job disappears or loses retry count.
\<close>

theorem queue_invariant:
  assumes "queue_reaches empty_db d" and "queue_reaches d e"
  shows "db_inv d \<and> db_inv e \<and> db_keeps d e"
proof -
  have step: "db_inv x \<Longrightarrow> queue_step x y \<Longrightarrow> db_inv y \<and> db_keeps x y" for x y
    by (auto elim!: queue_stepE dest: run_op_good)
  have "queue_reaches x y \<Longrightarrow> db_inv x \<Longrightarrow> db_inv y \<and> db_keeps x y" for x y
    by (induction rule: queue_reaches.induct) (auto dest: step intro: db_keeps_trans)
  moreover have "db_inv empty_db" by (simp add: db_inv_def empty_db_def)
  ultimately show ?thesis using assms by blast
qed

definition demo_job :: "string \<Rightarrow> string \<Rightarrow> int \<Rightarrow> job" where
  "demo_job i k p = \<lparr>jid = i, kind = k, jstatus = Job_pending, owner_user_id = ''u'', project_id = ''p'',
     datasource_ids = [], priority = p, available_at = 0, job_timeout_seconds = 60, resource_profile = [],
     result_ref = None, audit_id = ''a'', worker_id = None, last_heartbeat = None, started_at = None,
     finished_at = None, cancel_requested = False, cancel_reason = None, jerror = None, error_code = None,
     retry_count = 0, payload = [], parent_workflow_run_id = None\<rparr>"

definition demo_backend :: backend where
  "demo_backend = \<lparr>backend_worker_id = Some ''w1'', job_default_max_retries = 1\<rparr>"

text \<open>A job is queued, claimed and completed.\<close>

definition demo_db :: "nat \<Rightarrow> db" where
  "demo_db n = foldl (\<lambda>d p. case run_op p d of Inr d' \<Rightarrow> d' | Inl _ \<Rightarrow> d) empty_db
     (take n [Enqueue 1 (demo_job ''j1'' ''sql_query'' 0), Claim {} 2 ''w1'', Complete demo_backend 3 ''j1'' []])"

lemma queue_step_total: "queue_step d (case run_op p d of Inr d' \<Rightarrow> d' | Inl _ \<Rightarrow> d)"
  by (cases "run_op p d") (auto intro: queue_step.intros)

lemma queue_reaches_foldl:
  "queue_reaches d (foldl (\<lambda>d p. case run_op p d of Inr d' \<Rightarrow> d' | Inl _ \<Rightarrow> d) d ps)"
proof (induction ps rule: rev_induct)
  case (snoc p ps)
  then show ?case by (simp add: queue_reaches.further [OF _ queue_step_total])
qed (simp add: queue_reaches.start)

theorem queue_invariant_witness:
  "queue_reaches empty_db (demo_db 3) \<and> db_inv (demo_db 3) \<and> map jstatus (jobs (demo_db 3)) = [Job_success]"
proof -
  have r: "queue_reaches empty_db (demo_db 3)" unfolding demo_db_def by (rule queue_reaches_foldl)
  have "map jstatus (jobs (demo_db 3)) = [Job_success]" by code_simp
  with queue_invariant [OF r queue_reaches.start] r show ?thesis by blast
qed

section \<open>Claiming\<close>

lemma claim_order_head:
  assumes "claim_order xs = r # rs" and "s \<in> set xs"
  shows "priority s < priority r \<or> (priority s = priority r \<and> created_at r \<le> created_at s)"
proof -
  let ?ys = "sort_key created_at xs" and ?k = "\<lambda>r :: job_row. - priority r"
  have sorted: "sorted (map ?k (r # rs))" using assms(1) by (metis claim_order_def sorted_sort_key)
  have "s \<in> set (r # rs)" using assms by (metis claim_order_def set_sort)
  then have le: "priority s \<le> priority r" using sorted by auto
  moreover have "created_at r \<le> created_at s" if eq: "priority s = priority r"
  proof -
    let ?same = "filter (\<lambda>x. ?k x = ?k r)"
    have "?same (r # rs) = ?same ?ys"
      using sort_key_stable [of ?k "?k r" ?ys] assms(1) by (simp add: claim_order_def)
    then have h: "?same ?ys = r # ?same rs" by simp
    have "sorted (map created_at (?same ?ys))" by (simp add: sorted_filter)
    moreover have "s \<in> set (?same ?ys)" using assms(2) eq by simp
    ultimately show ?thesis unfolding h by auto
  qed
  ultimately show ?thesis by linarith
qed

lemma claim_next_rows:
  assumes inv: "db_inv d"
  shows "case claim_next locked now w d of
      Inl e \<Rightarrow> False
    | Inr (d', None) \<Rightarrow> d' = d \<and> \<not> (\<exists>r \<in> set (jobs d). claimable locked now r)
    | Inr (d', Some j) \<Rightarrow>
        (\<exists>r \<in> set (jobs d). jid r = jid j \<and> claimable locked now r \<and>
           (\<forall>s \<in> set (jobs d). claimable locked now s \<longrightarrow>
              priority s < priority r \<or> (priority s = priority r \<and> created_at r \<le> created_at s)) \<and>
           (\<exists>r'. find_job d' (jid j) = Some r' \<and> owned_by w r') \<and>
           (\<forall>x. x \<noteq> jid j \<longrightarrow> find_job d' x = find_job d x))"
proof (cases "claim_order (filter (claimable locked now) (jobs d))")
  case Nil
  then have "filter (claimable locked now) (jobs d) = []" by (metis claim_order_def set_empty set_sort)
  then have "\<not> (\<exists>r \<in> set (jobs d). claimable locked now r)" by (auto simp: filter_empty_conv)
  with Nil show ?thesis by (simp add: claim_next_def)
next
  case (Cons r rs)
  define upd where "upd = (\<lambda>x :: job_row. x\<lparr>jstatus := Job_running, worker_id := Some w, started_at := Some now, last_heartbeat := Some now\<rparr>)"
  have "r \<in> set (claim_order (filter (claimable locked now) (jobs d)))" using Cons by simp
  then have r: "r \<in> set (jobs d)" "claimable locked now r" by (auto simp: claim_order_def)
  have best: "priority s < priority r \<or> (priority s = priority r \<and> created_at r \<le> created_at s)"
    if "s \<in> set (jobs d)" "claimable locked now s" for s
    using claim_order_head [OF Cons, of s] that by simp
  have id: "same_id upd" by (simp add: same_id_def upd_def)
  let ?e = "fst (update_jobs (\<lambda>x. jid x = jid r) upd d)"
  have "jid r \<in> jid ` set (jobs ?e)" using r(1) ids_update_jobs [OF id] by (metis image_eqI set_map)
  then obtain d' where w: "write_event now (jid r) ''claimed'' (Some (''worker='' @ w)) ?e = Inr d'"
    by (auto simp: write_event_def)
  have find: "find_job d' x = map_option (\<lambda>y. if jid y = jid r then upd y else y) (find_job d x)" for x
    using find_write_event [OF w] find_update_jobs [OF id] by simp
  have fr: "find_job d (jid r) = Some r" using inv r(1) find_job_distinct by (auto simp: db_inv_def)
  have other: "find_job d' x = find_job d x" if "x \<noteq> jid r" for x
    using find [of x] find_job_Some [of d x] that by (cases "find_job d x") auto
  have run: "claim_next locked now w d = Inr (d', Some (job_from_row (upd r)))"
    unfolding claim_next_def Cons list.case Let_def using w by (simp only: upd_def rbind_simps)
  have jid: "jid (job_from_row (upd r)) = jid r" by (simp add: job_from_row_def upd_def job.defs Let_def)
  have "owned_by w (upd r)" by (simp add: owned_by_def upd_def)
  with r best other find [of "jid r"] fr show ?thesis
    unfolding run sum.case prod.case option.case jid by (intro bexI [of _ r]) auto
qed

text \<open>
  C10. A claim returns nothing exactly when no unlocked pending job is due. Otherwise it returns
  a job that was pending and due, of the highest priority among those and the oldest of that
  priority; afterwards that job is running under this worker, and every other row is unchanged.
\<close>

theorem claim_next_correct:
  assumes inv: "db_inv d"
  shows "case claim_next locked now w d of
      Inl e \<Rightarrow> False
    | Inr (d', None) \<Rightarrow> d' = d \<and> \<not> (\<exists>r \<in> set (jobs d). claimable locked now r)
    | Inr (d', Some j) \<Rightarrow>
        (\<exists>r \<in> set (jobs d). jid r = jid j \<and> claimable locked now r \<and>
           (\<forall>s \<in> set (jobs d). claimable locked now s \<longrightarrow>
              priority s < priority r \<or> (priority s = priority r \<and> created_at r \<le> created_at s)) \<and>
           (\<exists>r'. find_job d' (jid j) = Some r' \<and> owned_by w r') \<and>
           (\<forall>x. x \<noteq> jid j \<longrightarrow> find_job d' x = find_job d x))"
  using assms by (rule claim_next_rows)

theorem claim_next_correct_witness:
  "db_inv (demo_db 1) \<and> (\<exists>d' j. claim_next {} 2 ''w1'' (demo_db 1) = Inr (d', Some j) \<and>
     (\<exists>r \<in> set (jobs (demo_db 1)). jid r = jid j \<and> claimable {} 2 r))"
proof -
  have inv: "db_inv (demo_db 1)"
    by (simp add: demo_db_def empty_db_def enqueue_def write_event_def db_inv_def row_ok_def queued_row_def job.defs demo_job_def)
  have run: "(case claim_next {} 2 ''w1'' (demo_db 1) of Inr (d', Some j) \<Rightarrow> True | _ \<Rightarrow> False)" by code_simp
  then obtain d' j where c: "claim_next {} 2 ''w1'' (demo_db 1) = Inr (d', Some j)"
    by (auto split: sum.splits prod.splits option.splits)
  from claim_next_correct [OF inv, of "{}" 2 "''w1''"] have
    "\<exists>r \<in> set (jobs (demo_db 1)). jid r = jid j \<and> claimable {} 2 r"
    unfolding c by auto
  with inv c show ?thesis by blast
qed

section \<open>Reaping\<close>

lemma stale_pending: "stale t timeout (resume_row r) = False" "stale t timeout (retry_row r) = False"
  by (simp_all add: stale_def resume_row_def)

text \<open>What may have become of a row.\<close>

definition reaped ::
    "int \<Rightarrow> string set \<Rightarrow> int \<times> int \<times> int \<Rightarrow> int \<Rightarrow> job_row \<Rightarrow> job_row \<Rightarrow> bool" where
  "reaped m l2 ts timeout r r' \<longleftrightarrow> (case ts of (t1, t2, t3) \<Rightarrow>
     r' = r \<or>
     (r' = resume_row r \<and> stale t1 timeout r \<and> kind r = ''workflow_run'') \<or>
     (r' = retry_row r \<and> stale t2 timeout r \<and> retryable m r) \<or>
     (r' = timed_out_row t3 r \<and> stale t3 timeout r \<and> kind r \<noteq> ''workflow_run'' \<and>
        \<not> (m > 0 \<and> stale t2 timeout r \<and> retryable m r \<and> jid r \<notin> l2)))"

lemma reap_effect_facts:
  assumes "reap_effect cond upd locked n d d' js" and "r \<in> set (jobs d)"
  shows "(if jid r \<in> set js then upd r else r) \<in> set (jobs d')"
    and "jid r \<in> set js \<Longrightarrow> cond r"
    and "length js < n \<Longrightarrow> cond r \<Longrightarrow> jid r \<notin> locked \<Longrightarrow> jid r \<in> set js"
  using assms by (auto simp: reap_effect_def)

lemma reap_effect_inv: "reap_effect cond upd locked n d d' js \<Longrightarrow> db_inv d'"
  by (simp add: reap_effect_def)

lemma reap_effect_length: "reap_effect cond upd locked n d d' js \<Longrightarrow> length js \<le> n"
  by (simp add: reap_effect_def)

lemma reap_row:
  assumes e1: "reap_effect (run_stale t1 timeout) resume_row l1 n d d1 js1"
    and e2: "reap_effect (retry_stale m t2 timeout) retry_row l2 (if m > 0 then n - length js1 else 0) d1 d2 js2"
    and e3: "reap_effect (job_stale t3 timeout) (timed_out_row t3) l3 (n - length js1 - length js2) d2 d3 js3"
    and r: "r \<in> set (jobs d)"
  shows "\<exists>r'. find_job d3 (jid r) = Some r' \<and> reaped m l2 (t1, t2, t3) timeout r r'"
proof -
  define r1 where "r1 = (if jid r \<in> set js1 then resume_row r else r)"
  define r2 where "r2 = (if jid r \<in> set js2 then retry_row r1 else r1)"
  define r3 where "r3 = (if jid r \<in> set js3 then timed_out_row t3 r2 else r2)"
  have ids: "jid r1 = jid r" "jid r2 = jid r" "jid r3 = jid r" by (simp_all add: r1_def r2_def r3_def resume_row_def)
  have m1: "r1 \<in> set (jobs d1)" using reap_effect_facts(1) [OF e1 r] by (simp only: r1_def)
  have m2: "r2 \<in> set (jobs d2)" using reap_effect_facts(1) [OF e2 m1] by (simp only: r2_def ids)
  have m3: "r3 \<in> set (jobs d3)" using reap_effect_facts(1) [OF e3 m2] by (simp only: r3_def ids)
  have c1: "stale t1 timeout r \<and> kind r = ''workflow_run''" if "jid r \<in> set js1"
    using reap_effect_facts(2) [OF e1 r that] .
  have c2: "stale t2 timeout r1 \<and> retryable m r1" if "jid r \<in> set js2"
    using reap_effect_facts(2) [OF e2 m1] that by (simp only: ids)
  have c3: "stale t3 timeout r2 \<and> kind r2 \<noteq> ''workflow_run''" if "jid r \<in> set js3"
  proof -
    from that have "jid r2 \<in> set js3" by (simp only: ids)
    from reap_effect_facts(2) [OF e3 m2 this] show ?thesis .
  qed
  have all2: "jid r \<in> set js2" if "jid r \<in> set js3" "m > 0" "stale t2 timeout r1" "retryable m r1" "jid r \<notin> l2"
  proof -
    have "length js3 > 0" using that(1) by (cases js3) auto
    moreover have "length js3 \<le> n - length js1 - length js2" using e3 by (simp add: reap_effect_def)
    ultimately have "length js2 < n - length js1" by linarith
    with reap_effect_facts(3) [OF e2 m1] that ids show ?thesis by simp
  qed
  have "find_job d3 (jid r) = Some r3"
  proof -
    have "distinct (map jid (jobs d3))" using reap_effect_inv [OF e3] by (simp add: db_inv_def)
    from find_job_distinct [OF this, of "jid r" r3] m3 ids(3) show ?thesis by blast
  qed
  moreover have "reaped m l2 (t1, t2, t3) timeout r r3"
  proof (cases "jid r \<in> set js1")
    case True
    then have "r1 = resume_row r" by (simp add: r1_def)
    then have "jid r \<notin> set js2" using c2 stale_pending by metis
    then have "r2 = resume_row r" using \<open>r1 = resume_row r\<close> by (simp add: r2_def)
    then have "r3 = resume_row r" using c3 stale_pending unfolding r3_def by metis
    with c1 [OF True] show ?thesis by (simp add: reaped_def)
  next
    case False
    then have r1: "r1 = r" by (simp add: r1_def)
    show ?thesis
    proof (cases "jid r \<in> set js2")
      case True
      then have "r2 = retry_row r" by (simp add: r2_def r1)
      then have "r3 = retry_row r" using c3 stale_pending unfolding r3_def by metis
      with c2 [OF True] r1 show ?thesis by (simp add: reaped_def)
    next
      case no2: False
      then have r2: "r2 = r" by (simp add: r2_def r1)
      show ?thesis
      proof (cases "jid r \<in> set js3")
        case True
        from all2 [OF True] no2 have "\<not> (m > 0 \<and> stale t2 timeout r \<and> retryable m r \<and> jid r \<notin> l2)" unfolding r1 by blast
        moreover have "r3 = timed_out_row t3 r" using True r2 by (simp add: r3_def)
        ultimately show ?thesis using c3 [OF True] r2 by (simp add: reaped_def)
      qed (simp add: r3_def r2 reaped_def)
    qed
  qed
  ultimately show ?thesis by blast
qed

text \<open>
  C9. The reaper with a positive timeout and limit always returns, touches at most the limit of
  rows, and leaves each row as it was or does one of three things to it: a stale workflow run goes
  back to the queue without using retry budget; a stale job with budget left that writes nothing
  goes back with its retry count raised by one; a stale job that is no workflow run is failed, and
  then it had no budget, was a write, was locked while the requeue statement ran, or was not yet
  stale at that moment. A write statement is never run again and a workflow run is never failed.
\<close>

theorem reaper_correct:
  assumes "db_inv d" and "timeout > 0" and "limit > 0"
  shows "\<exists>d' rep. reap_stale_running_jobs b (l1, l2, l3) (t1, t2, t3) timeout limit d = Inr (d', rep) \<and>
     requeued rep + failed_count rep \<le> nat limit \<and>
     (\<forall>r \<in> set (jobs d). \<exists>r'. find_job d' (jid r) = Some r' \<and>
        reaped (job_default_max_retries b) l2 (t1, t2, t3) timeout r r')"
proof -
  obtain d1 d2 d3 js1 js2 js3 where
    run: "reap_stale_running_jobs b (l1, l2, l3) (t1, t2, t3) timeout limit d =
       Inr (d3, \<lparr>requeued = length js1 + length js2, failed_count = length js3\<rparr>)"
    and e: "reap_effect (run_stale t1 timeout) resume_row l1 (nat limit) d d1 js1"
    "reap_effect (retry_stale (job_default_max_retries b) t2 timeout) retry_row l2
       (if job_default_max_retries b > 0 then nat limit - length js1 else 0) d1 d2 js2"
    "reap_effect (job_stale t3 timeout) (timed_out_row t3) l3 (nat limit - length js1 - length js2) d2 d3 js3"
    by (rule reap_trace [OF assms])
  have "length js1 \<le> nat limit" "length js2 \<le> nat limit - length js1" "length js3 \<le> nat limit - length js1 - length js2"
    using reap_effect_length [OF e(1)] reap_effect_length [OF e(2)] reap_effect_length [OF e(3)] by (simp_all split: if_splits)
  then have "length js1 + length js2 + length js3 \<le> nat limit" by linarith
  then have le: "requeued \<lparr>requeued = length js1 + length js2, failed_count = length js3\<rparr> +
      failed_count \<lparr>requeued = length js1 + length js2, failed_count = length js3\<rparr> \<le> nat limit" by simp
  show ?thesis by (intro exI conjI, rule run, rule le) (intro ballI reap_row [OF e])
qed

text \<open>A job claimed at ten seconds by a worker that then goes silent.\<close>

definition silent_db :: "string \<Rightarrow> db" where
  "silent_db k = foldl (\<lambda>d p. case run_op p d of Inr d' \<Rightarrow> d' | Inl _ \<Rightarrow> d) empty_db
     [Enqueue 1 (demo_job ''j1'' k 0), Claim {} 10000000 ''w1'']"

lemma silent_db_inv: "db_inv (silent_db k)"
proof -
  have s: "queue_reaches empty_db (silent_db k)" unfolding silent_db_def by (rule queue_reaches_foldl)
  have step: "db_inv x \<Longrightarrow> queue_step x y \<Longrightarrow> db_inv y" for x y
    by (auto elim!: queue_stepE dest: run_op_good)
  have "queue_reaches x y \<Longrightarrow> db_inv x \<Longrightarrow> db_inv y" for x y
    by (induction rule: queue_reaches.induct) (auto dest: step)
  with s show ?thesis by (simp add: db_inv_def empty_db_def)
qed

theorem reaper_correct_witness:
  "db_inv (silent_db ''sql_query'') \<and>
   (\<exists>d' rep. reap_stale_running_jobs demo_backend ({}, {}, {}) (60000000, 60000000, 60000000) 5 10 (silent_db ''sql_query'') = Inr (d', rep) \<and>
      requeued rep + failed_count rep \<le> nat 10)"
  using reaper_correct [OF silent_db_inv, of 5 10 demo_backend "{}" "{}" "{}" 60000000 60000000 60000000 "''sql_query''"]
    silent_db_inv by auto

text \<open>
  The requeue and the fail statements of the reaper run in separate transactions, each with
  its own clock, and the fail statement does not test the budget. A job whose heartbeat expires
  between the two is therefore failed although it has retry budget and writes nothing.
\<close>

theorem reaper_clock_race:
  "(case reap_stale_running_jobs demo_backend ({}, {}, {}) (15000000, 15000000, 15000001) 5 10 (silent_db ''sql_query'') of
      Inr (d', rep) \<Rightarrow> failed_count rep = 1 \<and> map jstatus (jobs d') = [Job_failed] \<and>
        list_all (retryable (job_default_max_retries demo_backend)) (jobs (silent_db ''sql_query''))
    | Inl _ \<Rightarrow> False)"
  by code_simp

section \<open>The contract of a job backend\<close>

text \<open>
  The protocol \<open>JobBackend\<close> as its clients see it: the status and owner of a job, and how claiming,
  completing, failing and a heartbeat change them. The context \<open>'c\<close> is what the environment decides:
  the clock, and for a claim the rows that others hold.
\<close>

locale job_backend =
  fixes inv :: "'db \<Rightarrow> bool"
    and state :: "'db \<Rightarrow> string \<Rightarrow> (job_status \<times> string option) option"
    and claim :: "'c \<Rightarrow> string \<Rightarrow> 'db \<Rightarrow> 'db \<times> string option"
    and succeed :: "'c \<Rightarrow> string \<Rightarrow> string \<Rightarrow> 'db \<Rightarrow> 'db"
    and give_up :: "'c \<Rightarrow> string \<Rightarrow> string \<Rightarrow> 'db \<Rightarrow> 'db"
    and beat :: "'c \<Rightarrow> string \<Rightarrow> string \<Rightarrow> 'db \<Rightarrow> 'db"
  assumes claim_inv: "inv d \<Longrightarrow> inv (fst (claim c w d))"
    and succeed_inv: "inv d \<Longrightarrow> inv (succeed c w j d)"
    and give_up_inv: "inv d \<Longrightarrow> inv (give_up c w j d)"
    and beat_inv: "inv d \<Longrightarrow> inv (beat c w j d)"
    and claim_state: "inv d \<Longrightarrow> claim c w d = (d', Some j) \<Longrightarrow>
      state d j = Some (Job_pending, None) \<and> state d' j = Some (Job_running, Some w)"
    and succeed_state: "inv d \<Longrightarrow> state (succeed c w j d) x =
      (if x = j \<and> state d j = Some (Job_running, Some w) then Some (Job_success, Some w) else state d x)"
    and give_up_state: "inv d \<Longrightarrow> state (give_up c w j d) x =
      (if x = j \<and> state d j = Some (Job_running, Some w) then Some (Job_failed, Some w) else state d x)"
    and beat_state: "inv d \<Longrightarrow> state (beat c w j d) x = state d x"
begin

lemma work_cycle:
  assumes "inv d" and "claim c w d = (d', Some j)"
  shows "state (succeed c' w j (beat c'' w j d')) j = Some (Job_success, Some w)"
proof -
  have "inv d'" using claim_inv [OF assms(1), of c w] assms(2) by simp
  with claim_state [OF assms] show ?thesis by (simp add: beat_inv beat_state succeed_state)
qed

lemma stranger_is_ignored:
  assumes "inv d" and "claim c w d = (d', Some j)" and "w' \<noteq> w"
  shows "state (succeed c' w' j d') = state d'" and "state (give_up c' w' j d') = state d'"
proof -
  have "inv d'" using claim_inv [OF assms(1), of c w] assms(2) by simp
  with claim_state [OF assms(1,2)] assms(3) show "state (succeed c' w' j d') = state d'" "state (give_up c' w' j d') = state d'"
    by (auto simp: succeed_state give_up_state fun_eq_iff)
qed

lemma claims_differ:
  assumes "inv d" and "claim c w d = (d1, Some j)" and "claim c' w' d1 = (d2, Some j')"
  shows "j' \<noteq> j"
proof -
  have "inv d1" using claim_inv [OF assms(1), of c w] assms(2) by simp
  from claim_state [OF this assms(3)] claim_state [OF assms(1,2)] show ?thesis by auto
qed

lemma settled_once:
  assumes "inv d" and "claim c w d = (d', Some j)"
  shows "state (give_up c'' v j (succeed c' w j d')) j = Some (Job_success, Some w)"
proof -
  have "inv d'" using claim_inv [OF assms(1), of c w] assms(2) by simp
  with claim_state [OF assms] show ?thesis by (simp add: succeed_inv succeed_state give_up_state)
qed

end

text \<open>The PostgreSQL backend: a failed transaction changes nothing.\<close>

definition committed :: "db \<Rightarrow> (queue_error, db) result \<Rightarrow> db" where
  "committed d r = (case r of Inl _ \<Rightarrow> d | Inr d' \<Rightarrow> d')"

definition worker_backend :: "string \<Rightarrow> backend" where
  "worker_backend w = \<lparr>backend_worker_id = Some w, job_default_max_retries = 0\<rparr>"

definition job_state :: "db \<Rightarrow> string \<Rightarrow> (job_status \<times> string option) option" where
  "job_state d j = map_option (\<lambda>r. (jstatus r, worker_id r)) (find_job d j)"

definition pg_claim :: "string set \<times> int \<Rightarrow> string \<Rightarrow> db \<Rightarrow> db \<times> string option" where
  "pg_claim c w d = (case claim_next (fst c) (snd c) w d of
     Inl _ \<Rightarrow> (d, None) | Inr (d', j) \<Rightarrow> (d', map_option jid j))"

definition pg_succeed :: "(string, pval) dict \<Rightarrow> string set \<times> int \<Rightarrow> string \<Rightarrow> string \<Rightarrow> db \<Rightarrow> db" where
  "pg_succeed ref c w j d = committed d (complete (worker_backend w) (snd c) j ref d)"

definition pg_fail :: "string \<Rightarrow> string set \<times> int \<Rightarrow> string \<Rightarrow> string \<Rightarrow> db \<Rightarrow> db" where
  "pg_fail err c w j d = committed d (fail (worker_backend w) (snd c) j err d)"

lemma owned_update_state:
  assumes "same_id upd" and "\<And>r. owned_by w r \<Longrightarrow> worker_id (upd r) = Some w \<and> jstatus (upd r) = s"
  shows "job_state (committed d (update_one now j (owned_by w) upd ty m d)) x =
     (if x = j \<and> job_state d j = Some (Job_running, Some w) then Some (s, Some w) else job_state d x)"
proof -
  obtain d' where run: "update_one now j (owned_by w) upd ty m d = Inr d'"
    and find: "\<And>x. find_job d' x = map_option (\<lambda>r. if jid r = j \<and> owned_by w r then upd r else r) (find_job d x)"
    using update_one_cases [OF assms(1)] by blast
  show ?thesis
  proof (cases "find_job d x")
    case None
    then show ?thesis by (auto simp: job_state_def committed_def run find)
  next
    case (Some r)
    with find_job_Some [OF Some] assms(2) [of r] show ?thesis
      by (auto simp: job_state_def committed_def run find owned_by_def)
  qed
qed

lemma worker_updates:
  "complete (worker_backend w) now j ref d = update_one now j (owned_by w)
     (\<lambda>r. r\<lparr>jstatus := Job_success, result_ref := Some ref, finished_at := Some now, jerror := None\<rparr>) ''completed'' None d"
  "fail (worker_backend w) now j err d = update_one now j (owned_by w)
     (\<lambda>r. r\<lparr>jstatus := Job_failed, jerror := Some err, finished_at := Some now\<rparr>) ''failed'' (Some err) d"
  by (simp_all add: complete_def fail_def with_worker_def worker_backend_def)

lemma pg_claim_state:
  assumes "db_inv d" and "pg_claim c w d = (d', Some j)"
  shows "job_state d j = Some (Job_pending, None) \<and> job_state d' j = Some (Job_running, Some w)"
proof -
  from assms(2) obtain x where run: "claim_next (fst c) (snd c) w d = Inr (d', Some x)" and j: "j = jid x"
    by (auto simp: pg_claim_def split: sum.splits prod.splits option.splits)
  from claim_next_rows [OF assms(1), of "fst c" "snd c" w] obtain r r' where r: "r \<in> set (jobs d)" "jid r = j" "jstatus r = Job_pending"
    and r': "find_job d' j = Some r'" "owned_by w r'"
    unfolding run j by (auto simp: claimable_def)
  have "row_ok r" using assms(1) r(1) by (simp add: db_inv_def list.pred_set)
  then have "worker_id r = None" using r(3) by (simp add: row_ok_def)
  moreover have "find_job d j = Some r" using find_job_distinct r assms(1) by (auto simp: db_inv_def)
  ultimately show ?thesis using r(3) r' by (simp add: job_state_def owned_by_def)
qed

interpretation pg: job_backend db_inv job_state pg_claim "pg_succeed ref" "pg_fail err" "\<lambda>c w j. heartbeat (snd c) j w"
  for ref :: "(string, pval) dict" and err :: string
proof
  fix d c w j x d'
  assume inv: "db_inv d"
  show "db_inv (fst (pg_claim c w d))"
    using inv claim_good [OF inv, of "fst c" "snd c" w] by (auto simp: pg_claim_def split: sum.splits)
  show "db_inv (pg_succeed ref c w j d)"
    using inv run_op_good [OF inv, of "Complete (worker_backend w) (snd c) j ref"]
    by (auto simp: pg_succeed_def committed_def split: sum.splits)
  show "db_inv (pg_fail err c w j d)"
    using inv run_op_good [OF inv, of "Fail (worker_backend w) (snd c) j err"]
    by (auto simp: pg_fail_def committed_def split: sum.splits)
  show "db_inv (heartbeat (snd c) j w d)"
    using run_op_good [OF inv, of "Heartbeat (snd c) j w"] by simp
  show "pg_claim c w d = (d', Some j) \<Longrightarrow> job_state d j = Some (Job_pending, None) \<and> job_state d' j = Some (Job_running, Some w)"
    by (rule pg_claim_state [OF inv])
  show "job_state (pg_succeed ref c w j d) x = (if x = j \<and> job_state d j = Some (Job_running, Some w) then Some (Job_success, Some w) else job_state d x)"
    unfolding pg_succeed_def worker_updates
    by (rule owned_update_state) (simp_all add: same_id_def owned_by_def)
  show "job_state (pg_fail err c w j d) x = (if x = j \<and> job_state d j = Some (Job_running, Some w) then Some (Job_failed, Some w) else job_state d x)"
    unfolding pg_fail_def worker_updates
    by (rule owned_update_state) (simp_all add: same_id_def owned_by_def)
  have "same_id (\<lambda>r. r\<lparr>last_heartbeat := Some (snd c)\<rparr>)" by (simp add: same_id_def)
  from find_update_jobs [OF this] show "job_state (heartbeat (snd c) j w d) x = job_state d x"
    by (cases "find_job d x") (auto simp: job_state_def heartbeat_def)
qed

text \<open>
  A claimed job belongs to its worker: while it runs, another worker's completion or failure
  changes no job's status or owner; no second claim, by anyone, returns it; its own worker can
  complete it after any heartbeat; and once completed, nobody can fail it.
\<close>

theorem claim_is_exclusive:
  assumes "db_inv d" and "pg_claim c w d = (d1, Some j)"
  shows "(\<forall>w' c'. w' \<noteq> w \<longrightarrow> job_state (pg_succeed ref c' w' j d1) = job_state d1 \<and> job_state (pg_fail err c' w' j d1) = job_state d1) \<and>
         (\<forall>w' c' d2 j'. pg_claim c' w' d1 = (d2, Some j') \<longrightarrow> j' \<noteq> j) \<and>
         (\<forall>c' t. job_state (pg_succeed ref c' w j (heartbeat t j w d1)) j = Some (Job_success, Some w)) \<and>
         (\<forall>c' c'' v. job_state (pg_fail err c'' v j (pg_succeed ref c' w j d1)) j = Some (Job_success, Some w))"
  using pg.stranger_is_ignored [OF assms] pg.claims_differ [OF assms] pg.work_cycle [OF assms, of ref _ "({}, _)"]
    pg.settled_once [OF assms] by simp

theorem claim_is_exclusive_witness:
  "db_inv (demo_db 1) \<and> (\<exists>d1. pg_claim ({}, 2) ''w1'' (demo_db 1) = (d1, Some ''j1'') \<and>
     job_state (pg_succeed [] ({}, 3) ''w2'' ''j1'' d1) = job_state d1)"
proof -
  have inv: "db_inv (demo_db 1)"
    by (simp add: demo_db_def empty_db_def enqueue_def write_event_def db_inv_def row_ok_def queued_row_def job.defs demo_job_def)
  have "snd (pg_claim ({}, 2) ''w1'' (demo_db 1)) = Some ''j1''" by code_simp
  then obtain d1 where c: "pg_claim ({}, 2) ''w1'' (demo_db 1) = (d1, Some ''j1'')" by (metis prod.collapse)
  have ne: "''w2'' \<noteq> ''w1''" by simp
  note ex = claim_is_exclusive [OF inv c, of "[]" "[]", THEN conjunct1, rule_format, OF ne, of "({}, 3)", THEN conjunct1]
  show ?thesis by (intro conjI inv exI [of _ d1] c ex)
qed

end
