(* ===== verification/Workflow_Scheduler.thy ===== *)
theory Workflow_Scheduler
  imports Workflow_Progress Job_Queue
begin

text \<open>
  \<open>app/services/workflow_scheduler.py\<close>: the cron and sensor tick of the API process. An instant is
  an integer in microseconds since the epoch. \<open>sched_env\<close> holds what the module takes from outside:
  the \<open>croniter\<close> library in the time zone of the scheduler, the calendar of an instant, and the JSON form of a definition. Random ids
  are arguments. One row is processed from the snapshot the scan read, which may be out of date:
  other API instances change the table between the scan and the transaction.
\<close>

section \<open>Data\<close>

record workflow_row =
  wf_id :: string
  wf_project_id :: string
  wf_name :: string
  wf_dag :: workflow_spec
  schedule_cron :: "string option"
  schedule_enabled :: bool
  schedule_last_fired_at :: "int option"
  wf_sensor_enabled :: bool
  sensor_last_checked_at :: "int option"
  sensor_last_triggered_at :: "int option"
  wf_enabled :: bool
  created_by :: "string option"

record sched_env =
  croniter_is_valid :: "string \<Rightarrow> bool"
  croniter_get_prev :: "string \<Rightarrow> int \<Rightarrow> int"
  calendar :: "int \<Rightarrow> datetime"
  model_dump :: "workflow_spec \<Rightarrow> pval"

record audit_entry =
  audit_workflow_id :: string
  audit_run_id :: string
  audit_fire_at :: int

record sched_state =
  workflows :: "workflow_row list"
  queue :: db
  audits :: "audit_entry list"

datatype sched_error = Invalid_spec spec_error | Queue_failed queue_error

datatype schedule_action = Schedule_skip | Schedule_seed | Schedule_fire

datatype sensor_action = Sensor_skip | Sensor_check

section \<open>Decisions\<close>

definition most_recent_fire :: "sched_env \<Rightarrow> string \<Rightarrow> int \<Rightarrow> int option" where
  "most_recent_fire env cron_expr now =
     (if \<not> croniter_is_valid env cron_expr then None else Some (croniter_get_prev env cron_expr now))"

definition evaluate_schedule ::
    "sched_env \<Rightarrow> bool \<Rightarrow> bool \<Rightarrow> string option \<Rightarrow> int \<Rightarrow> int option \<Rightarrow> schedule_action \<times> int option" where
  "evaluate_schedule env enabled sched_enabled cron_opt now last_fired =
     (case cron_opt of
        None \<Rightarrow> (Schedule_skip, None)
      | Some c \<Rightarrow>
          if \<not> enabled \<or> \<not> sched_enabled \<or> c = [] then (Schedule_skip, None)
          else (case most_recent_fire env c now of
                  None \<Rightarrow> (Schedule_skip, None)
                | Some fire_at \<Rightarrow>
                    (case last_fired of
                       None \<Rightarrow> (Schedule_seed, Some fire_at)
                     | Some l \<Rightarrow> if fire_at > l then (Schedule_fire, Some fire_at) else (Schedule_skip, None))))"

definition evaluate_sensor ::
    "bool \<Rightarrow> bool \<Rightarrow> int \<Rightarrow> int option \<Rightarrow> int \<Rightarrow> int option \<Rightarrow> int \<Rightarrow> sensor_action" where
  "evaluate_sensor enabled sens_enabled now last_checked interval last_triggered cooldown =
     (if \<not> enabled \<or> \<not> sens_enabled then Sensor_skip
      else if (case last_triggered of None \<Rightarrow> False | Some t \<Rightarrow> now - t < cooldown * 1000000) then Sensor_skip
      else if (case last_checked of None \<Rightarrow> False | Some t \<Rightarrow> now - t < interval * 1000000) then Sensor_skip
      else Sensor_check)"

section \<open>Job construction\<close>

definition variables_json :: "variables \<Rightarrow> (string, pval) dict" where
  "variables_json vars = map (\<lambda>(k, v). (k, plain_value v)) vars"

definition resource_profile_json :: "int \<Rightarrow> (string, pval) dict" where
  "resource_profile_json t = [(''memory_limit_mb'', PNone), (''timeout_seconds'', PInt t)]"

definition new_job :: "string \<times> string \<Rightarrow> int \<Rightarrow> string \<Rightarrow> string \<Rightarrow> string \<Rightarrow> string list \<Rightarrow> int \<Rightarrow> (string, pval) dict \<Rightarrow> job" where
  "new_job ids clock k owner project sources timeout body =
     \<lparr>jid = fst ids, kind = k, jstatus = Job_pending, owner_user_id = owner, project_id = project,
      datasource_ids = sources, priority = - 1, available_at = clock, job_timeout_seconds = timeout,
      resource_profile = resource_profile_json timeout, result_ref = None, audit_id = snd ids, worker_id = None,
      last_heartbeat = None, started_at = None, finished_at = None, cancel_requested = False, cancel_reason = None,
      jerror = None, error_code = None, retry_count = 0, payload = body, parent_workflow_run_id = None\<rparr>"

text \<open>\<open>{**builtin, **spec.variables, **extra}\<close>.\<close>

definition merged_variables :: "datetime \<Rightarrow> (string, pval) dict \<Rightarrow> (string, pval) dict \<Rightarrow> (string, pval) dict" where
  "merged_variables now vars extra = dict_merge (dict_merge (variables_json (builtin_when_variables now)) vars) extra"

definition build_workflow_run_job ::
    "sched_env \<Rightarrow> string \<times> string \<Rightarrow> int \<Rightarrow> string \<Rightarrow> string \<Rightarrow> string \<Rightarrow> string \<Rightarrow> workflow_spec \<Rightarrow> string \<Rightarrow> int
     \<Rightarrow> (string, pval) dict \<Rightarrow> job" where
  "build_workflow_run_job env ids clock workflow_id workflow_name project owner spec trig now extra =
     (let timeout = sum_list (map node_timeout_seconds (nodes spec)) + 600 in
      new_job ids clock ''workflow_run'' owner project [] timeout
        [(''workflow_id'', PStr workflow_id), (''workflow_name'', PStr workflow_name), (''trigger'', PStr trig),
         (''spec'', model_dump env spec),
         (''when_variables'', PDict (merged_variables (calendar env now) (spec_variables spec) extra))])"

definition build_sensor_check_job ::
    "sched_env \<Rightarrow> string \<times> string \<Rightarrow> int \<Rightarrow> string \<Rightarrow> string \<Rightarrow> string \<Rightarrow> string \<Rightarrow> string \<Rightarrow> string \<Rightarrow> int \<Rightarrow> workflow_spec \<Rightarrow> job" where
  "build_sensor_check_job env ids clock workflow_id workflow_name project owner datasource sql_text cooldown spec =
     new_job ids clock ''workflow_sensor_check'' owner project [datasource] 300
       [(''workflow_id'', PStr workflow_id), (''workflow_name'', PStr workflow_name), (''datasource_id'', PStr datasource),
        (''sensor_sql'', PStr sql_text), (''cooldown_seconds'', PInt cooldown), (''spec'', model_dump env spec)]"

section \<open>Processing a row\<close>

definition update_workflows ::
    "(workflow_row \<Rightarrow> bool) \<Rightarrow> (workflow_row \<Rightarrow> workflow_row) \<Rightarrow> workflow_row list \<Rightarrow> workflow_row list \<times> nat" where
  "update_workflows sel upd rows = (map (\<lambda>r. if sel r then upd r else r) rows, length (filter sel rows))"

definition enqueue_in_txn :: "int \<Rightarrow> job \<Rightarrow> sched_state \<Rightarrow> (sched_error, sched_state) result" where
  "enqueue_in_txn clock j s = (case enqueue clock j (queue s) of
     Inl e \<Rightarrow> Inl (Queue_failed e) | Inr q \<Rightarrow> Inr (s\<lparr>queue := q\<rparr>))"

definition locked_workflow_execution_row :: "sched_state \<Rightarrow> string \<Rightarrow> workflow_row option" where
  "locked_workflow_execution_row s w = find (\<lambda>r. wf_id r = w) (workflows s)"

definition nonempty_owner :: "workflow_row \<Rightarrow> string option" where
  "nonempty_owner r = (case created_by r of Some u \<Rightarrow> if u = [] then None else Some u | None \<Rightarrow> None)"

definition schedule_claim :: "string \<Rightarrow> int \<Rightarrow> workflow_row \<Rightarrow> bool" where
  "schedule_claim w fire_at r \<longleftrightarrow> wf_id r = w \<and> wf_enabled r \<and> schedule_enabled r \<and>
     (case schedule_last_fired_at r of None \<Rightarrow> True | Some l \<Rightarrow> l < fire_at)"

definition process_row ::
    "sched_env \<Rightarrow> string \<times> string \<Rightarrow> int \<Rightarrow> workflow_row \<Rightarrow> int \<Rightarrow> sched_state \<Rightarrow> (sched_error, sched_state) result" where
  "process_row env ids clock row now s =
     (case evaluate_schedule env (wf_enabled row) (schedule_enabled row) (schedule_cron row) now (schedule_last_fired_at row) of
        (action, None) \<Rightarrow> Inr s
      | (action, Some fire_at) \<Rightarrow>
          if action = Schedule_skip then Inr s
          else (case update_workflows (schedule_claim (wf_id row) fire_at)
                       (\<lambda>r. r\<lparr>schedule_last_fired_at := Some fire_at\<rparr>) (workflows s) of (rows, claimed) \<Rightarrow>
            let s' = s\<lparr>workflows := rows\<rparr> in
            if claimed \<noteq> 1 then Inr s'
            else if action = Schedule_seed then Inr s'
            else (case locked_workflow_execution_row s' (wf_id row) of
                    None \<Rightarrow> Inr s'
                  | Some current \<Rightarrow>
                      (case nonempty_owner current of
                         None \<Rightarrow> Inr s'
                       | Some owner \<Rightarrow>
                           (case validate_spec (croniter_is_valid env) (wf_dag current) of
                              Inl e \<Rightarrow> Inl (Invalid_spec e)
                            | Inr _ \<Rightarrow>
                                (let j = build_workflow_run_job env ids clock (wf_id row) (wf_name current)
                                           (wf_project_id current) owner (wf_dag current) ''schedule'' fire_at [] in
                                 rbind (enqueue_in_txn clock j s') (\<lambda>s''.
                                   Inr (s''\<lparr>audits := audits s'' @
                                     [\<lparr>audit_workflow_id = wf_id row, audit_run_id = jid j, audit_fire_at = fire_at\<rparr>]\<rparr>))))))))"

definition enabled_sensor :: "workflow_spec \<Rightarrow> sensor_trigger option" where
  "enabled_sensor spec = (case sensor spec of Some t \<Rightarrow> if sensor_enabled t then Some t else None | None \<Rightarrow> None)"

definition process_sensor_row ::
    "sched_env \<Rightarrow> string \<times> string \<Rightarrow> int \<Rightarrow> workflow_row \<Rightarrow> int \<Rightarrow> sched_state \<Rightarrow> (sched_error, sched_state) result" where
  "process_sensor_row env ids clock row now s =
     (case validate_spec (croniter_is_valid env) (wf_dag row) of
        Inl e \<Rightarrow> Inl (Invalid_spec e)
      | Inr _ \<Rightarrow>
          (case enabled_sensor (wf_dag row) of
             None \<Rightarrow> Inr s
           | Some t \<Rightarrow>
               if evaluate_sensor (wf_enabled row) (wf_sensor_enabled row) now (sensor_last_checked_at row)
                    (check_interval_seconds t) (sensor_last_triggered_at row) (cooldown_seconds t) = Sensor_skip
               then Inr s
               else (case update_workflows (\<lambda>r. wf_id r = wf_id row \<and> wf_enabled r \<and> wf_sensor_enabled r \<and>
                              sensor_last_checked_at r = sensor_last_checked_at row)
                            (\<lambda>r. r\<lparr>sensor_last_checked_at := Some now\<rparr>) (workflows s) of (rows, claimed) \<Rightarrow>
                 let s' = s\<lparr>workflows := rows\<rparr> in
                 if claimed \<noteq> 1 then Inr s'
                 else (case locked_workflow_execution_row s' (wf_id row) of
                         None \<Rightarrow> Inr s'
                       | Some current \<Rightarrow>
                           (case validate_spec (croniter_is_valid env) (wf_dag current) of
                              Inl e \<Rightarrow> Inl (Invalid_spec e)
                            | Inr _ \<Rightarrow>
                                (case (enabled_sensor (wf_dag current), nonempty_owner current) of
                                   (Some t', Some owner) \<Rightarrow>
                                     enqueue_in_txn clock (build_sensor_check_job env ids clock (wf_id row) (wf_name current)
                                       (wf_project_id current) owner (sensor_datasource_id t') (sensor_sql t')
                                       (cooldown_seconds t') (wf_dag current)) s'
                                 | _ \<Rightarrow> Inr s'))))))"

text \<open>
  \<open>PostgresSensorTriggerCatalog.claim_trigger_and_enqueue\<close> of \<open>app/worker.py\<close>: the other writer of the
  table. The sensor check of a worker starts a run only if the cooldown has passed.
\<close>

definition trigger_claim :: "string \<Rightarrow> int \<Rightarrow> workflow_row \<Rightarrow> bool" where
  "trigger_claim w threshold r \<longleftrightarrow> wf_id r = w \<and> wf_enabled r \<and> wf_sensor_enabled r \<and>
     (case sensor_last_triggered_at r of None \<Rightarrow> True | Some l \<Rightarrow> l < threshold)"

definition claim_trigger_and_enqueue ::
    "int \<Rightarrow> string \<Rightarrow> int \<Rightarrow> int \<Rightarrow> job \<Rightarrow> sched_state \<Rightarrow> (sched_error, bool \<times> sched_state) result" where
  "claim_trigger_and_enqueue clock w now cooldown run_job s =
     (let threshold = now - cooldown * 1000000 in
      case update_workflows (trigger_claim w threshold) (\<lambda>r. r\<lparr>sensor_last_triggered_at := Some now\<rparr>) (workflows s) of
        (rows, claimed) \<Rightarrow>
          if claimed \<noteq> 1 then Inr (False, s\<lparr>workflows := rows\<rparr>)
          else rbind (enqueue_in_txn clock run_job (s\<lparr>workflows := rows\<rparr>)) (\<lambda>s'. Inr (True, s')))"

section \<open>A tick\<close>

definition candidate_rows :: "sched_state \<Rightarrow> workflow_row list" where
  "candidate_rows s = filter (\<lambda>r. wf_enabled r \<and> schedule_enabled r \<and> schedule_cron r \<noteq> None) (workflows s)"

definition sensor_candidate_rows :: "sched_state \<Rightarrow> workflow_row list" where
  "sensor_candidate_rows s = filter (\<lambda>r. wf_enabled r \<and> wf_sensor_enabled r) (workflows s)"

text \<open>A row that fails rolls its transaction back and does not stop the tick.\<close>

definition isolate :: "(sched_error, sched_state) result \<Rightarrow> sched_state \<Rightarrow> sched_state" where
  "isolate r s = (case r of Inl _ \<Rightarrow> s | Inr s' \<Rightarrow> s')"

definition tick :: "sched_env \<Rightarrow> (nat \<Rightarrow> string \<times> string) \<Rightarrow> int \<Rightarrow> int \<Rightarrow> sched_state \<Rightarrow> sched_state" where
  "tick env fresh clock now s =
     (let cron_rows = candidate_rows s;
          s1 = foldl (\<lambda>s (i, row). isolate (process_row env (fresh i) clock row now s) s) s (enumerate 0 cron_rows);
          sensor_rows = sensor_candidate_rows s1
      in foldl (\<lambda>s (i, row). isolate (process_sensor_row env (fresh i) clock row now s) s) s1
           (enumerate (length cron_rows) sensor_rows))"

section \<open>What processing a row does\<close>

abbreviation fire_mark :: "int \<Rightarrow> workflow_row \<Rightarrow> workflow_row" where
  "fire_mark t r \<equiv> r\<lparr>schedule_last_fired_at := Some t\<rparr>"

lemma evaluate_schedule_fire:
  assumes "evaluate_schedule env e se c now prev = (act, Some t)" and "act \<noteq> Schedule_skip"
  obtains expr where "e" "se" "c = Some expr" "most_recent_fire env expr now = Some t"
    "act = Schedule_seed \<and> prev = None \<or> act = Schedule_fire \<and> (\<exists>l. prev = Some l \<and> l < t)"
  using assms by (auto simp: evaluate_schedule_def split: option.splits if_splits)

lemma enqueue_in_txn_ok:
  assumes "enqueue_in_txn clock j s = Inr s'"
  obtains q where "enqueue clock j (queue s) = Inr q" "s' = s\<lparr>queue := q\<rparr>"
  using assms by (auto simp: enqueue_in_txn_def split: sum.splits)

text \<open>
  A row is skipped, or its anchor is advanced, or its anchor is advanced by exactly one row of the
  table, a run is queued and an audit entry names the run and the fire point.
\<close>

lemma process_row_cases:
  assumes run: "process_row env ids clock row now s = Inr s'"
  obtains (skipped) "s' = s"
  | (moved) t where "s' = s\<lparr>workflows := fst (update_workflows (schedule_claim (wf_id row) t) (fire_mark t) (workflows s))\<rparr>"
  | (fired) t expr cur owner q where
      "schedule_cron row = Some expr" "most_recent_fire env expr now = Some t"
      "\<exists>l. schedule_last_fired_at row = Some l \<and> l < t"
      "snd (update_workflows (schedule_claim (wf_id row) t) (fire_mark t) (workflows s)) = 1"
      "find (\<lambda>r. wf_id r = wf_id row) (fst (update_workflows (schedule_claim (wf_id row) t) (fire_mark t) (workflows s))) = Some cur"
      "nonempty_owner cur = Some owner" "validate_spec (croniter_is_valid env) (wf_dag cur) = Inr ()"
      "enqueue clock (build_workflow_run_job env ids clock (wf_id row) (wf_name cur) (wf_project_id cur) owner
         (wf_dag cur) ''schedule'' t []) (queue s) = Inr q"
      "s' = s\<lparr>workflows := fst (update_workflows (schedule_claim (wf_id row) t) (fire_mark t) (workflows s)),
              queue := q,
              audits := audits s @ [\<lparr>audit_workflow_id = wf_id row, audit_run_id = fst ids, audit_fire_at = t\<rparr>]\<rparr>"
proof -
  obtain act t_opt where ev: "evaluate_schedule env (wf_enabled row) (schedule_enabled row) (schedule_cron row) now
      (schedule_last_fired_at row) = (act, t_opt)" by (cases "evaluate_schedule env (wf_enabled row) (schedule_enabled row) (schedule_cron row) now
      (schedule_last_fired_at row)")
  note run' = run [unfolded process_row_def ev, simplified]
  show thesis
  proof (cases "t_opt = None \<or> act = Schedule_skip")
    case True
    with run' have "s' = s" by (auto split: option.splits)
    then show thesis by (rule skipped)
  next
    case False
    then obtain t where t: "t_opt = Some t" and act: "act \<noteq> Schedule_skip" by auto
    define u where "u = update_workflows (schedule_claim (wf_id row) t) (fire_mark t) (workflows s)"
    from evaluate_schedule_fire [OF ev [unfolded t] act] obtain expr where
      c: "schedule_cron row = Some expr" "most_recent_fire env expr now = Some t"
      and how: "act = Schedule_seed \<and> schedule_last_fired_at row = None \<or>
                act = Schedule_fire \<and> (\<exists>l. schedule_last_fired_at row = Some l \<and> l < t)" by metis
    note body = run' [unfolded t, simplified act option.case, folded u_def, unfolded case_prod_unfold Let_def, simplified]
    show thesis
    proof (cases "snd u = 1 \<and> act = Schedule_fire \<and>
        (\<exists>cur. find (\<lambda>r. wf_id r = wf_id row) (fst u) = Some cur \<and> nonempty_owner cur \<noteq> None)")
      case False
      then have "s' = s\<lparr>workflows := fst u\<rparr>"
        using body how by (auto simp: locked_workflow_execution_row_def split: if_splits option.splits)
      then show thesis unfolding u_def by (rule moved)
    next
      case True
      then obtain cur owner where cur: "find (\<lambda>r. wf_id r = wf_id row) (fst u) = Some cur" "nonempty_owner cur = Some owner"
        and one: "snd u = 1" and fire: "act = Schedule_fire" by auto
      from body cur one fire obtain s2 where valid: "validate_spec (croniter_is_valid env) (wf_dag cur) = Inr ()"
        and e: "enqueue_in_txn clock (build_workflow_run_job env ids clock (wf_id row) (wf_name cur) (wf_project_id cur) owner
         (wf_dag cur) ''schedule'' t []) (s\<lparr>workflows := fst u\<rparr>) = Inr s2"
        and s': "s' = s2\<lparr>audits := audits s2 @ [\<lparr>audit_workflow_id = wf_id row, audit_run_id = fst ids, audit_fire_at = t\<rparr>]\<rparr>"
        by (auto simp: locked_workflow_execution_row_def rbind_eq_Inr build_workflow_run_job_def new_job_def Let_def
            split: sum.splits)
      from enqueue_in_txn_ok [OF e] obtain q where q: "enqueue clock (build_workflow_run_job env ids clock (wf_id row) (wf_name cur)
          (wf_project_id cur) owner (wf_dag cur) ''schedule'' t []) (queue s) = Inr q" "s2 = s\<lparr>workflows := fst u, queue := q\<rparr>" by auto
      show thesis
        by (rule fired [OF c]) (use how fire one cur valid q s' in \<open>simp_all add: u_def\<close>)
    qed
  qed
qed

text \<open>The sensor paths touch the sensor columns and the queue, never the cron anchor or the audit trail.\<close>

definition same_cron :: "workflow_row \<Rightarrow> workflow_row \<Rightarrow> bool" where
  "same_cron r r' \<longleftrightarrow> wf_id r' = wf_id r \<and> schedule_last_fired_at r' = schedule_last_fired_at r"

lemma process_sensor_row_rows:
  assumes "process_sensor_row env ids clock row now s = Inr s'"
  shows "audits s' = audits s \<and> (workflows s' = workflows s \<or>
    workflows s' = fst (update_workflows (\<lambda>r. wf_id r = wf_id row \<and> wf_enabled r \<and> wf_sensor_enabled r \<and>
      sensor_last_checked_at r = sensor_last_checked_at row) (\<lambda>r. r\<lparr>sensor_last_checked_at := Some now\<rparr>) (workflows s)))"
  using assms unfolding process_sensor_row_def case_prod_unfold Let_def
  by (auto split: sum.splits option.splits if_splits elim!: enqueue_in_txn_ok)

lemma claim_trigger_cases:
  assumes "claim_trigger_and_enqueue clock w now c j s = Inr (b, s')"
  shows "audits s' = audits s \<and>
    workflows s' = fst (update_workflows (trigger_claim w (now - c * 1000000)) (\<lambda>r. r\<lparr>sensor_last_triggered_at := Some now\<rparr>) (workflows s)) \<and>
    b = (snd (update_workflows (trigger_claim w (now - c * 1000000)) (\<lambda>r. r\<lparr>sensor_last_triggered_at := Some now\<rparr>) (workflows s)) = 1) \<and>
    (if b then enqueue clock j (queue s) = Inr (queue s') else queue s' = queue s)"
  using assms unfolding claim_trigger_and_enqueue_def case_prod_unfold Let_def
  by (auto simp: rbind_eq_Inr split: if_splits elim!: enqueue_in_txn_ok)

section \<open>The scheduler among the other writers of the table\<close>

text \<open>
  Any number of API instances run ticks from snapshots of any age, workers claim sensor triggers,
  the queue makes its own steps, and users edit definitions: an edit keeps the identity of the row
  and the anchors, which no route writes. A row that is created later is one that is disabled before.
\<close>

inductive sched_step :: "sched_env \<Rightarrow> sched_state \<Rightarrow> sched_state \<Rightarrow> bool" for env where
  cron: "process_row env ids clock row now s = Inr s' \<Longrightarrow> sched_step env s s'"
| sensor: "process_sensor_row env ids clock row now s = Inr s' \<Longrightarrow> sched_step env s s'"
| trigger: "0 \<le> c \<Longrightarrow> claim_trigger_and_enqueue clock w now c j s = Inr (b, s') \<Longrightarrow> sched_step env s s'"
| jobs_moved: "queue_step (queue s) q \<Longrightarrow> sched_step env s (s\<lparr>queue := q\<rparr>)"
| edited: "(\<And>r. same_cron r (f r) \<and> sensor_last_triggered_at (f r) = sensor_last_triggered_at r) \<Longrightarrow>
    sched_step env s (s\<lparr>workflows := map f (workflows s)\<rparr>)"

inductive sched_reaches :: "sched_env \<Rightarrow> sched_state \<Rightarrow> sched_state \<Rightarrow> bool" for env where
  sched_start: "sched_reaches env s s"
| sched_further: "sched_reaches env s t \<Longrightarrow> sched_step env t u \<Longrightarrow> sched_reaches env s u"

inductive_cases sched_stepE: "sched_step env s s'"

definition later_fire :: "audit_entry \<Rightarrow> audit_entry \<Rightarrow> bool" where
  "later_fire a b \<longleftrightarrow> (audit_workflow_id a = audit_workflow_id b \<longrightarrow> audit_fire_at a < audit_fire_at b)"

definition anchored :: "workflow_row list \<Rightarrow> audit_entry list \<Rightarrow> bool" where
  "anchored rows as \<longleftrightarrow> (\<forall>a \<in> set as. \<forall>r \<in> set rows. wf_id r = audit_workflow_id a \<longrightarrow>
     (\<exists>l. schedule_last_fired_at r = Some l \<and> audit_fire_at a \<le> l))"

definition sched_inv :: "sched_state \<Rightarrow> bool" where
  "sched_inv s \<longleftrightarrow> distinct (map wf_id (workflows s)) \<and> anchored (workflows s) (audits s) \<and> sorted_wrt later_fire (audits s)"

lemma update_workflows_one:
  assumes "distinct (map wf_id rows)" and "snd (update_workflows sel upd rows) = 1"
  obtains r where "r \<in> set rows" "sel r" "\<And>x. x \<in> set rows \<Longrightarrow> sel x \<Longrightarrow> x = r"
proof -
  from assms(2) have "length (filter sel rows) = 1" by (simp add: update_workflows_def)
  then obtain r where f: "filter sel rows = [r]" by (auto simp: length_Suc_conv)
  then have "set (filter sel rows) = {r}" by simp
  then show thesis by (intro that [of r]) auto
qed

lemma anchored_monotone:
  assumes "anchored rows as"
    and "\<And>r. r \<in> set rows \<Longrightarrow> wf_id (f r) = wf_id r \<and>
           (\<forall>l. schedule_last_fired_at r = Some l \<longrightarrow> (\<exists>l' \<ge> l. schedule_last_fired_at (f r) = Some l'))"
  shows "anchored (map f rows) as"
  unfolding anchored_def
proof (intro ballI impI)
  fix a x assume a: "a \<in> set as" and "x \<in> set (map f rows)" and id: "wf_id x = audit_workflow_id a"
  then obtain r where r: "r \<in> set rows" "x = f r" by auto
  with assms(2) [OF r(1)] id have "wf_id r = audit_workflow_id a" by simp
  with assms(1) a r(1) obtain l where "schedule_last_fired_at r = Some l" "audit_fire_at a \<le> l"
    unfolding anchored_def by blast
  with assms(2) [OF r(1)] r(2) show "\<exists>l. schedule_last_fired_at x = Some l \<and> audit_fire_at a \<le> l"
    by (meson order_trans)
qed

lemma anchored_claim:
  assumes "anchored rows as"
  shows "anchored (fst (update_workflows (schedule_claim w t) (fire_mark t) rows)) as"
  unfolding update_workflows_def fst_conv
  by (rule anchored_monotone [OF assms]) (auto simp: schedule_claim_def split: option.splits intro: less_imp_le)

lemma update_workflows_ids:
  "(\<And>r. wf_id (upd r) = wf_id r) \<Longrightarrow> map wf_id (fst (update_workflows sel upd rows)) = map wf_id rows"
  by (simp add: update_workflows_def)

lemma fired_inv:
  assumes inv: "sched_inv s"
    and one: "snd (update_workflows (schedule_claim w t) (fire_mark t) (workflows s)) = 1"
  shows "sched_inv (s\<lparr>workflows := fst (update_workflows (schedule_claim w t) (fire_mark t) (workflows s)), queue := q,
    audits := audits s @ [\<lparr>audit_workflow_id = w, audit_run_id = run, audit_fire_at = t\<rparr>]\<rparr>)"
proof -
  let ?rows = "fst (update_workflows (schedule_claim w t) (fire_mark t) (workflows s))"
  from inv have d: "distinct (map wf_id (workflows s))" and anc: "anchored (workflows s) (audits s)"
    and srt: "sorted_wrt later_fire (audits s)" by (auto simp: sched_inv_def)
  obtain r where r: "r \<in> set (workflows s)" "schedule_claim w t r" by (rule update_workflows_one [OF d one])
  then have id: "wf_id r = w" by (simp add: schedule_claim_def)
  have only: "x = r" if "x \<in> set (workflows s)" "wf_id x = w" for x
    using that r(1) id d unfolding distinct_map by (metis inj_onD)
  have early: "audit_fire_at b < t" if "b \<in> set (audits s)" "audit_workflow_id b = w" for b
    using anc that r id unfolding anchored_def schedule_claim_def by fastforce
  have new: "schedule_last_fired_at x = Some t" if "x \<in> set ?rows" "wf_id x = w" for x
    using that r only by (auto simp: update_workflows_def split: if_splits)
  from new anchored_claim [OF anc, of w t]
  have "anchored ?rows (audits s @ [\<lparr>audit_workflow_id = w, audit_run_id = run, audit_fire_at = t\<rparr>])"
    by (auto simp: anchored_def)
  moreover have "sorted_wrt later_fire (audits s @ [\<lparr>audit_workflow_id = w, audit_run_id = run, audit_fire_at = t\<rparr>])"
    using srt early by (auto simp: sorted_wrt_append later_fire_def)
  ultimately show ?thesis using d by (simp add: sched_inv_def update_workflows_ids)
qed

lemma sched_inv_map:
  assumes "sched_inv s" and "audits s' = audits s" and "workflows s' = map f (workflows s)" and "\<And>r. same_cron r (f r)"
  shows "sched_inv s'"
proof -
  have "anchored (map f (workflows s)) (audits s)"
    by (rule anchored_monotone) (use assms in \<open>auto simp: sched_inv_def same_cron_def\<close>)
  with assms show ?thesis by (auto simp: sched_inv_def same_cron_def comp_def)
qed

lemma sched_step_inv:
  assumes "sched_step env s s'" and inv: "sched_inv s"
  shows "sched_inv s'"
  using assms(1)
proof (cases rule: sched_step.cases)
  case (cron ids clock row now)
  then show ?thesis
  proof (cases rule: process_row_cases)
    case (moved t)
    with anchored_claim [of "workflows s" "audits s" "wf_id row" t] inv show ?thesis
      by (simp add: sched_inv_def update_workflows_ids)
  next
    case (fired t expr cur owner q)
    show ?thesis unfolding fired(9) by (rule fired_inv [OF inv fired(4)])
  qed (use inv in simp)
next
  case (sensor ids clock row now)
  from process_sensor_row_rows [OF this] show ?thesis
  proof (elim conjE disjE)
    assume "audits s' = audits s" "workflows s' = workflows s"
    with inv show ?thesis by (simp add: sched_inv_def)
  next
    assume a: "audits s' = audits s" and w: "workflows s' = fst (update_workflows (\<lambda>r. wf_id r = wf_id row \<and> wf_enabled r \<and> wf_sensor_enabled r \<and>
      sensor_last_checked_at r = sensor_last_checked_at row) (\<lambda>r. r\<lparr>sensor_last_checked_at := Some now\<rparr>) (workflows s))"
    show ?thesis by (rule sched_inv_map [OF inv a w [unfolded update_workflows_def fst_conv]]) (simp add: same_cron_def)
  qed
next
  case (trigger c clock w now j b)
  from claim_trigger_cases [OF trigger(2)] have a: "audits s' = audits s" and
    w: "workflows s' = fst (update_workflows (trigger_claim w (now - c * 1000000)) (\<lambda>r. r\<lparr>sensor_last_triggered_at := Some now\<rparr>) (workflows s))"
    by simp_all
  show ?thesis by (rule sched_inv_map [OF inv a w [unfolded update_workflows_def fst_conv]]) (simp add: same_cron_def)
next
  case (jobs_moved q)
  with inv show ?thesis by (simp add: sched_inv_def)
next
  case (edited f)
  show ?thesis by (rule sched_inv_map [OF inv, of _ f]) (use edited in simp_all)
qed

lemma sched_reaches_inv: "sched_reaches env s s' \<Longrightarrow> sched_inv s \<Longrightarrow> sched_inv s'"
  by (induction rule: sched_reaches.induct) (auto dest: sched_step_inv)

text \<open>
  C11. However the ticks of several API instances, their stale snapshots, worker triggers, queue steps and
  edits interleave, the fire points recorded for a workflow are strictly increasing: no fire point
  starts two runs.
\<close>

theorem cron_fires_once:
  assumes "sched_reaches env s s'" and "sched_inv s"
  shows "sched_inv s' \<and>
    (\<forall>i j. i < j \<and> j < length (audits s') \<and> audit_workflow_id (audits s' ! i) = audit_workflow_id (audits s' ! j) \<longrightarrow>
       audit_fire_at (audits s' ! i) < audit_fire_at (audits s' ! j))"
proof -
  have inv: "sched_inv s'" by (rule sched_reaches_inv [OF assms])
  then have "sorted_wrt later_fire (audits s')" by (simp add: sched_inv_def)
  then show ?thesis using inv by (auto simp: sorted_wrt_iff_nth_less later_fire_def)
qed

section \<open>The cooldown of a sensor\<close>

definition triggered_since :: "string \<Rightarrow> int \<Rightarrow> workflow_row list \<Rightarrow> bool" where
  "triggered_since w t rows \<longleftrightarrow> (\<forall>r \<in> set rows. wf_id r = w \<longrightarrow> (\<exists>l \<ge> t. sensor_last_triggered_at r = Some l))"

lemma triggered_since_map:
  assumes "triggered_since w t rows"
    and "\<And>r. wf_id (f r) = wf_id r \<and> (\<forall>l. sensor_last_triggered_at r = Some l \<longrightarrow>
           (\<exists>l' \<ge> l. sensor_last_triggered_at (f r) = Some l'))"
  shows "triggered_since w t (map f rows)"
  unfolding triggered_since_def
proof (intro ballI impI)
  fix x assume "x \<in> set (map f rows)" and id: "wf_id x = w"
  then obtain r where r: "r \<in> set rows" "x = f r" by auto
  with id assms(2) [of r] have "wf_id r = w" by simp
  with r assms(1) obtain l where "l \<ge> t" "sensor_last_triggered_at r = Some l" unfolding triggered_since_def by blast
  with assms(2) [of r] r(2) show "\<exists>l \<ge> t. sensor_last_triggered_at x = Some l" by (meson order_trans)
qed

lemma trigger_claim_map:
  assumes "triggered_since w t rows" and "0 \<le> c"
  shows "triggered_since w t (fst (update_workflows (trigger_claim v (now - c * 1000000))
           (\<lambda>r. r\<lparr>sensor_last_triggered_at := Some now\<rparr>) rows))"
  unfolding update_workflows_def fst_conv
  by (rule triggered_since_map [OF assms(1)]) (use assms(2) in \<open>auto simp: trigger_claim_def\<close>)

lemma sched_step_triggered:
  assumes "sched_step env s s'" and pre: "triggered_since w t (workflows s)"
  shows "triggered_since w t (workflows s')"
  using assms(1)
proof (cases rule: sched_step.cases)
  case (cron ids clock row now)
  have keep: "triggered_since w t (fst (update_workflows (schedule_claim (wf_id row) u) (fire_mark u) (workflows s)))" for u
    unfolding update_workflows_def fst_conv by (rule triggered_since_map [OF pre]) auto
  from cron show ?thesis by (cases rule: process_row_cases) (use pre keep in simp_all)
next
  case (sensor ids clock row now)
  have keep: "triggered_since w t (fst (update_workflows sel (\<lambda>r. r\<lparr>sensor_last_checked_at := Some now\<rparr>) (workflows s)))" for sel
    unfolding update_workflows_def fst_conv by (rule triggered_since_map [OF pre]) auto
  from process_sensor_row_rows [OF sensor] keep pre show ?thesis by auto
next
  case (trigger c clock v now j b)
  from claim_trigger_cases [OF trigger(2)] trigger_claim_map [OF pre trigger(1), of v now] show ?thesis by simp
next
  case (jobs_moved q)
  with pre show ?thesis by simp
next
  case (edited f)
  have "triggered_since w t (map f (workflows s))"
    by (rule triggered_since_map [OF pre]) (use edited(2) in \<open>auto simp: same_cron_def\<close>)
  with edited(1) show ?thesis by simp
qed

lemma sched_reaches_triggered:
  "sched_reaches env s s' \<Longrightarrow> triggered_since w t (workflows s) \<Longrightarrow> triggered_since w t (workflows s')"
  by (induction rule: sched_reaches.induct) (auto dest: sched_step_triggered)

lemma claim_trigger_won:
  assumes d: "distinct (map wf_id (workflows s))" and run: "claim_trigger_and_enqueue clock w now c j s = Inr (True, s')"
  obtains r where "r \<in> set (workflows s)" "trigger_claim w (now - c * 1000000) r" "triggered_since w now (workflows s')"
proof -
  let ?sel = "trigger_claim w (now - c * 1000000)" and ?upd = "\<lambda>r. r\<lparr>sensor_last_triggered_at := Some now\<rparr>"
  from claim_trigger_cases [OF run] have one: "snd (update_workflows ?sel ?upd (workflows s)) = 1"
    and rows: "workflows s' = fst (update_workflows ?sel ?upd (workflows s))" by simp_all
  obtain r where r: "r \<in> set (workflows s)" "?sel r" by (rule update_workflows_one [OF d one])
  then have "wf_id r = w" by (simp add: trigger_claim_def)
  then have "x = r" if "x \<in> set (workflows s)" "wf_id x = w" for x
    using that r(1) d unfolding distinct_map by (metis inj_onD)
  with r(2) have "triggered_since w now (workflows s')"
    unfolding rows triggered_since_def by (auto simp: update_workflows_def split: if_splits)
  with r show thesis by (rule that)
qed

text \<open>
  C12. Two sensor triggers of one workflow, whoever claims them and whatever happens in between, are
  further apart than the cooldown of the second one.
\<close>

theorem sensor_cooldown_respected:
  assumes "sched_inv s" and "claim_trigger_and_enqueue clock w now c j s = Inr (True, s1)" and "0 \<le> c"
    and "sched_reaches env s1 s2" and "claim_trigger_and_enqueue clock' w now' c' j' s2 = Inr (True, s3)"
  shows "now + c' * 1000000 < now'"
proof -
  have d: "distinct (map wf_id (workflows s))" using assms(1) by (simp add: sched_inv_def)
  have "sched_step env s s1" by (rule sched_step.trigger [OF assms(3,2)])
  then have "sched_inv s2" using assms(1,4) sched_step_inv sched_reaches_inv by blast
  then have d2: "distinct (map wf_id (workflows s2))" by (simp add: sched_inv_def)
  obtain r0 where "triggered_since w now (workflows s1)" by (rule claim_trigger_won [OF d assms(2)])
  then have since: "triggered_since w now (workflows s2)" by (rule sched_reaches_triggered [OF assms(4)])
  obtain r where r: "r \<in> set (workflows s2)" "trigger_claim w (now' - c' * 1000000) r"
    by (rule claim_trigger_won [OF d2 assms(5)])
  then have "wf_id r = w" by (simp add: trigger_claim_def)
  with since r(1) obtain l where "now \<le> l" "sensor_last_triggered_at r = Some l" unfolding triggered_since_def by blast
  with r(2) show ?thesis by (simp add: trigger_claim_def)
qed

section \<open>What a fire queues\<close>

lemma dict_merge_map:
  "dict_merge (map (\<lambda>(k, v). (k, f v)) a) (map (\<lambda>(k, v). (k, f v)) b) = map (\<lambda>(k, v). (k, f v)) (dict_merge a b)"
proof (induction b arbitrary: a)
  case (Cons p b)
  obtain k v where p: "p = (k, v)" by (cases p)
  have "dict_set (map (\<lambda>(k, v). (k, f v)) a) k (f v) = map (\<lambda>(k, v). (k, f v)) (dict_set a k v)"
    by (induction a) auto
  with Cons show ?case by (simp add: p)
qed simp

lemma snapshot_plain [simp]: "snapshot_value (plain_value v) = Some v"
  by (cases v) (auto simp: snapshot_value_def plain_value_def list_all_iff comp_def)

lemma snapshot_variables_json:
  "when_variables_from_payload [(k1, x1), (k2, x2), (k3, x3), (k4, x4), (''when_variables'', PDict (variables_json vars))] =
     Some vars"
  if "k1 \<noteq> ''when_variables''" "k2 \<noteq> ''when_variables''" "k3 \<noteq> ''when_variables''" "k4 \<noteq> ''when_variables''"
proof -
  have "map (\<lambda>(k, v). (k, the (snapshot_value v))) (variables_json vars) = vars"
    by (induction vars) (auto simp: variables_json_def)
  moreover have "list_all (\<lambda>(k, v). snapshot_value v \<noteq> None) (variables_json vars)"
    by (auto simp: variables_json_def list_all_iff)
  ultimately show ?thesis using that by (simp add: when_variables_from_payload_def)
qed

text \<open>
  The variables a worker reads back from a queued run are the built-in variables at the nominal
  instant, overridden by those of the definition and then by those of the trigger; validated
  variables never override a built-in one.
\<close>

theorem run_variables_roundtrip:
  assumes "validate_workflow_variables (spec_variables spec) = Inr vars" and "validate_workflow_variables extra = Inr extras"
    and "distinct (dict_keys (spec_variables spec))" and "distinct (dict_keys extra)"
  shows "when_variables_from_payload (payload (build_workflow_run_job env ids clock w n p own spec trig now extra)) =
           Some (dict_merge (dict_merge (builtin_when_variables (calendar env now)) vars) extras) \<and>
         (\<forall>b \<in> set BUILTIN_VARIABLE_NAMES.
           dict_get (dict_merge (dict_merge (builtin_when_variables (calendar env now)) vars) extras) b =
           dict_get (builtin_when_variables (calendar env now)) b)"
proof -
  note v = validate_workflow_variables_ok [OF assms(1)] and e = validate_workflow_variables_ok [OF assms(2)]
  have raw: "spec_variables spec = variables_json vars" "extra = variables_json extras"
    using v e by (simp_all only: variables_json_def)
  have "merged_variables (calendar env now) (spec_variables spec) extra =
      variables_json (dict_merge (dict_merge (builtin_when_variables (calendar env now)) vars) extras)"
    unfolding merged_variables_def raw by (simp only: variables_json_def dict_merge_map)
  then have snap: "when_variables_from_payload (payload (build_workflow_run_job env ids clock w n p own spec trig now extra)) =
      Some (dict_merge (dict_merge (builtin_when_variables (calendar env now)) vars) extras)"
    unfolding build_workflow_run_job_def new_job_def Let_def job.simps by (simp only:) (rule snapshot_variables_json; simp)
  have keys: "dict_keys (variables_json x) = dict_keys x" for x by (simp add: variables_json_def case_prod_unfold)
  have none: "dict_get vars b = None" "dict_get extras b = None" if "b \<in> set BUILTIN_VARIABLE_NAMES" for b
    using v e that by (fastforce simp: map_of_eq_None_iff)+
  have "distinct (dict_keys vars)" "distinct (dict_keys extras)" using assms(3,4) raw keys by simp_all
  with none snap show ?thesis by (simp add: dict_get_merge)
qed

lemma find_member: "find P xs = Some x \<Longrightarrow> x \<in> set xs \<and> P x"
  by (auto simp: find_Some_iff)

lemma enqueue_jobs: "enqueue now j d = Inr d' \<Longrightarrow> jobs d' = jobs d @ [queued_row now j]"
  by (auto simp: enqueue_def dest!: write_event_jobs split: if_splits)

text \<open>
  Processing a row either queues nothing, or appends exactly one run to the queue and one entry to
  the audit trail. It fires only for the most recent fire point before the tick, only when the
  snapshot had an earlier anchor (a first sight never fires), and only by moving the anchor of that one
  enabled row of the current table up to the fire point.
\<close>

theorem process_row_effect:
  assumes "process_row env ids clock row now s = Inr s'" and "sched_inv s"
  shows "(queue s' = queue s \<and> audits s' = audits s) \<or>
    (\<exists>t l expr r cur owner. schedule_cron row = Some expr \<and> most_recent_fire env expr now = Some t \<and>
       schedule_last_fired_at row = Some l \<and> l < t \<and>
       r \<in> set (workflows s) \<and> schedule_claim (wf_id row) t r \<and>
       workflows s' = map (\<lambda>x. if x = r then fire_mark t x else x) (workflows s) \<and>
       nonempty_owner cur = Some owner \<and>
       audits s' = audits s @ [\<lparr>audit_workflow_id = wf_id row, audit_run_id = fst ids, audit_fire_at = t\<rparr>] \<and>
       jobs (queue s') = jobs (queue s) @ [queued_row clock (build_workflow_run_job env ids clock (wf_id row) (wf_name cur)
         (wf_project_id cur) owner (wf_dag cur) ''schedule'' t [])] \<and> cur = fire_mark t r)"
  using assms(1)
proof (cases rule: process_row_cases)
  case (fired t expr cur owner q)
  have d: "distinct (map wf_id (workflows s))" using assms(2) by (simp add: sched_inv_def)
  obtain r where r: "r \<in> set (workflows s)" "schedule_claim (wf_id row) t r"
    and only: "\<And>x. x \<in> set (workflows s) \<Longrightarrow> schedule_claim (wf_id row) t x \<Longrightarrow> x = r"
    by (rule update_workflows_one [OF d fired(4)]) blast
  have rows: "fst (update_workflows (schedule_claim (wf_id row) t) (fire_mark t) (workflows s)) =
      map (\<lambda>x. if x = r then fire_mark t x else x) (workflows s)"
    unfolding update_workflows_def fst_conv
  proof (rule map_cong [OF refl])
    fix x assume "x \<in> set (workflows s)"
    then have "schedule_claim (wf_id row) t x = (x = r)" using r only by blast
    then show "(if schedule_claim (wf_id row) t x then fire_mark t x else x) = (if x = r then fire_mark t x else x)" by simp
  qed
  have rid: "wf_id r = wf_id row" using r(2) by (simp add: schedule_claim_def)
  from fired(5) have "cur \<in> set (map (\<lambda>x. if x = r then fire_mark t x else x) (workflows s))" "wf_id cur = wf_id row"
    unfolding rows by (auto dest: find_member simp del: set_map)
  then obtain x where x: "x \<in> set (workflows s)" "cur = (if x = r then fire_mark t x else x)" by auto
  with \<open>wf_id cur = wf_id row\<close> rid have "wf_id x = wf_id r" by (simp split: if_splits)
  with d x(1) r(1) have "x = r" unfolding distinct_map by (metis inj_onD)
  with x(2) have cur: "cur = fire_mark t r" by simp
  from fired(3) obtain l where l: "schedule_last_fired_at row = Some l" "l < t" by auto
  show ?thesis
    by (rule disjI2, rule exI [of _ t], rule exI [of _ l], rule exI [of _ expr], rule exI [of _ r], rule exI [of _ cur],
        rule exI [of _ owner]) (use fired r l cur rows enqueue_jobs [OF fired(8)] in simp)
qed simp_all

section \<open>A scheduler at work\<close>

definition demo_env :: sched_env where
  "demo_env = \<lparr>croniter_is_valid = (\<lambda>_. True), croniter_get_prev = (\<lambda>_ n. (n - 1) div 60000000 * 60000000),
     calendar = (\<lambda>_. \<lparr>year = 2026, month = 7, day = 7, hour = 0, minute = 0, second = 0, utc_offset = Some 0\<rparr>),
     model_dump = (\<lambda>_. PDict [])\<rparr>"

definition demo_row :: workflow_row where
  "demo_row = \<lparr>wf_id = ''w'', wf_project_id = ''p'', wf_name = ''nightly'', wf_dag = demo_spec,
     schedule_cron = Some ''* * * * *'', schedule_enabled = True, schedule_last_fired_at = Some 0,
     wf_sensor_enabled = True, sensor_last_checked_at = None, sensor_last_triggered_at = None, wf_enabled = True,
     created_by = Some ''u''\<rparr>"

definition demo_state :: sched_state where
  "demo_state = \<lparr>workflows = [demo_row], queue = \<lparr>jobs = [], job_events = []\<rparr>, audits = []\<rparr>"

definition demo_run :: job where
  "demo_run = build_workflow_run_job demo_env (''r'', ''a'') 0 ''w'' ''nightly'' ''p'' ''u'' demo_spec ''sensor'' 0 []"

lemma demo_state_inv: "sched_inv demo_state"
  by (simp add: demo_state_def sched_inv_def anchored_def)

definition demo_fired :: sched_state where
  "demo_fired = isolate (process_row demo_env (''r1'', ''a1'') 90000000 demo_row 90000000 demo_state) demo_state"

lemma demo_fired_run: "process_row demo_env (''r1'', ''a1'') 90000000 demo_row 90000000 demo_state = Inr demo_fired"
proof -
  have "\<not> isl (process_row demo_env (''r1'', ''a1'') 90000000 demo_row 90000000 demo_state)" by code_simp
  then show ?thesis by (auto simp: demo_fired_def isolate_def isl_def split: sum.splits)
qed

text \<open>The second instance processes the same stale snapshot a second later.\<close>

theorem cron_fires_once_witness:
  "sched_inv (isolate (process_row demo_env (''r2'', ''a2'') 91000000 demo_row 91000000 demo_fired) demo_fired) \<and>
   map audit_fire_at (audits (isolate (process_row demo_env (''r2'', ''a2'') 91000000 demo_row 91000000 demo_fired) demo_fired)) = [60000000]"
proof -
  let ?r = "process_row demo_env (''r2'', ''a2'') 91000000 demo_row 91000000 demo_fired"
  have one: "sched_reaches demo_env demo_state demo_fired"
    by (rule sched_further [OF sched_start]) (rule sched_step.cron [OF demo_fired_run])
  have "sched_reaches demo_env demo_state (isolate ?r demo_fired)"
    using one by (cases ?r) (auto simp: isolate_def intro: sched_further sched_step.cron)
  from cron_fires_once [OF this demo_state_inv]
  have "sched_inv (isolate ?r demo_fired)" by simp
  moreover have "map audit_fire_at (audits (isolate ?r demo_fired)) = [60000000]" by code_simp
  ultimately show ?thesis by simp
qed

theorem process_row_effect_witness:
  "map audit_run_id (audits demo_fired) = [''r1''] \<and> map jid (jobs (queue demo_fired)) = [''r1'']"
proof -
  have "audits demo_fired \<noteq> audits demo_state" by code_simp
  with process_row_effect [OF demo_fired_run demo_state_inv] obtain t j where
    a: "audits demo_fired = audits demo_state @ [\<lparr>audit_workflow_id = wf_id demo_row, audit_run_id = fst (''r1'', ''a1''), audit_fire_at = t\<rparr>]"
    and j: "jobs (queue demo_fired) = jobs (queue demo_state) @ [j]" and id: "jid j = ''r1''"
    by (elim disjE exE conjE) (simp_all add: queued_row_def build_workflow_run_job_def new_job_def job.defs Let_def)
  show ?thesis unfolding a j by (simp add: demo_state_def id)
qed

definition demo_triggered :: "string \<Rightarrow> int \<Rightarrow> sched_state \<Rightarrow> bool \<times> sched_state" where
  "demo_triggered j now s = (case claim_trigger_and_enqueue now ''w'' now 30 (demo_run\<lparr>jid := j\<rparr>) s of
     Inr r \<Rightarrow> r | Inl _ \<Rightarrow> (False, s))"

lemma demo_triggered_run:
  "fst (demo_triggered j now s) \<Longrightarrow>
   claim_trigger_and_enqueue now ''w'' now 30 (demo_run\<lparr>jid := j\<rparr>) s = Inr (True, snd (demo_triggered j now s))"
  by (auto simp: demo_triggered_def split: sum.splits)

theorem sensor_cooldown_respected_witness:
  "fst (demo_triggered ''r2'' 40000000 (snd (demo_triggered ''r1'' 5000000 demo_state))) \<and> (5000000 :: int) + 30 * 1000000 < 40000000"
proof -
  let ?s1 = "snd (demo_triggered ''r1'' 5000000 demo_state)"
  have a: "fst (demo_triggered ''r1'' 5000000 demo_state)" by code_simp
  have b: "fst (demo_triggered ''r2'' 40000000 ?s1)" by code_simp
  have "(5000000 :: int) + 30 * 1000000 < 40000000"
    by (rule sensor_cooldown_respected [OF demo_state_inv demo_triggered_run [OF a] _ sched_start [of demo_env] demo_triggered_run [OF b]]) simp
  with b show ?thesis by simp
qed

theorem run_variables_roundtrip_witness:
  "when_variables_from_payload (payload (build_workflow_run_job demo_env (''r'', ''a'') 0 ''w'' ''n'' ''p'' ''u''
     (demo_spec\<lparr>spec_variables := [(''d'', PStr ''x'')]\<rparr>) ''manual'' 0 [(''d'', PStr ''y'')])) =
   Some (builtin_when_variables (calendar demo_env 0) @ [(''d'', VStr ''y'')])"
proof -
  have a: "validate_workflow_variables (spec_variables (demo_spec\<lparr>spec_variables := [(''d'', PStr ''x'')]\<rparr>)) = Inr [(''d'', VStr ''x'')]"
    and b: "validate_workflow_variables [(''d'', PStr ''y'')] = Inr [(''d'', VStr ''y'')]" by code_simp+
  from run_variables_roundtrip [OF a b, of demo_env "(''r'', ''a'')" 0 "''w''" "''n''" "''p''" "''u''" "''manual''" 0]
  show ?thesis by (simp add: builtin_when_variables_def)
qed

end
