(* ===== verification/Workflow_Worker.thy ===== *)
theory Workflow_Worker
  imports Workflow_Scheduler
begin

text \<open>
  The part of \<open>app/worker.py\<close> that drives workflows: a worker claims a job, executes it and settles it in
  the queue; a claimed run advances its graph by one planning step and yields. The transactions of
  one claimed job read the same clock; what other workers do in between is covered by the steps of
  \<open>Job_Queue\<close>. Every transaction commits before the next one, so an error keeps what was written before
  it: an action is a function from the database to a result and the database it leaves.

  \<open>worker_env\<close> holds what the worker takes from outside: its configuration, the JSON reader of definitions, the texts
  of library exceptions, the read-only guard and the adapters of the user's databases, the delivery of
  notifications, and \<open>other_executor\<close> for the kinds whose work is database and file traffic.
\<close>

section \<open>Actions\<close>

datatype work_fault = Exec_fault exec_error | Queue_fault queue_error | Spec_fault "spec_error option" | Param_fault param_error

datatype work_error =
    Cancel_requested
  | Value_error string
  | Run_failed string
  | Notify_failed string
  | Compare_input string
  | Connection_test string
  | Policy_denied string
  | Unsupported_db_type string
  | Export_size_limit string
  | Row_limit string
  | Sample_unsupported_key string
  | Duplicate_key string
  | Unsupported_kind string
  | Adapter_connection string
  | Fault work_fault
  | Library_error string string

type_synonym 'a work = "sched_state \<Rightarrow> (work_error, 'a) result \<times> sched_state"

definition w_return :: "'a \<Rightarrow> 'a work" where
  "w_return x s = (Inr x, s)"

definition w_raise :: "work_error \<Rightarrow> 'a work" where
  "w_raise e s = (Inl e, s)"

definition w_bind :: "'a work \<Rightarrow> ('a \<Rightarrow> 'b work) \<Rightarrow> 'b work" where
  "w_bind m f s = (case m s of (Inl e, s') \<Rightarrow> (Inl e, s') | (Inr x, s') \<Rightarrow> f x s')"

definition w_lift :: "(work_error, 'a) result \<Rightarrow> 'a work" where
  "w_lift r s = (r, s)"

fun w_each :: "('a \<Rightarrow> unit work) \<Rightarrow> 'a list \<Rightarrow> unit work" where
  "w_each f [] = w_return ()"
| "w_each f (x # xs) = w_bind (f x) (\<lambda>_. w_each f xs)"

text \<open>One transaction of the queue.\<close>

definition w_queue :: "(db \<Rightarrow> (queue_error, db) result) \<Rightarrow> unit work" where
  "w_queue f s = (case f (queue s) of Inl e \<Rightarrow> (Inl (Fault (Queue_fault e)), s) | Inr q \<Rightarrow> (Inr (), s\<lparr>queue := q\<rparr>))"

section \<open>The worker\<close>

record outcome =
  outcome_ref :: "(string, pval) dict"
  outcome_loaded_rows :: "int option"

record worker_env =
  we_id :: string
  we_advance_interval :: rat
  we_max_retries :: int
  we_heartbeat_timeout :: int
  we_runtime :: runtime
  we_sched :: sched_env
  parse_spec :: "(string, pval) dict \<Rightarrow> workflow_spec option"
  failure_text :: "run_failure \<Rightarrow> string"
  node_error_text :: "node_error \<Rightarrow> string"
  fault_text :: "work_fault \<Rightarrow> string \<times> string"
  validate_readonly_sql :: "string \<Rightarrow> (work_error, string) result"
  allow_select :: "string \<Rightarrow> (work_error, bool) result"
  select_rows :: "string \<Rightarrow> string \<Rightarrow> (work_error, scalar list list) result"
  notify_enabled :: bool
  deliver :: "workflow_spec \<Rightarrow> string list \<Rightarrow> string option \<Rightarrow> bool list option"
  other_executor :: "job \<Rightarrow> (work_error, outcome) result"

definition worker_backend :: "worker_env \<Rightarrow> backend" where
  "worker_backend env = \<lparr>backend_worker_id = Some (we_id env), job_default_max_retries = 0\<rparr>"

section \<open>Payload fields\<close>

definition required_payload_str :: "(string, pval) dict \<Rightarrow> string \<Rightarrow> (work_error, string) result" where
  "required_payload_str body key = (case dict_get body key of
       Some (PScalar (SStr s)) \<Rightarrow> if s = [] then Inl (Value_error (''Job payload requires non-empty string field: '' @ key)) else Inr s
     | _ \<Rightarrow> Inl (Value_error (''Job payload requires non-empty string field: '' @ key)))"

definition payload_optional_str :: "(string, pval) dict \<Rightarrow> string \<Rightarrow> string option" where
  "payload_optional_str body key = (case dict_get body key of
       Some (PScalar (SStr s)) \<Rightarrow> if s = [] then None else Some s
     | _ \<Rightarrow> None)"

definition payload_non_negative_int :: "(string, pval) dict \<Rightarrow> string \<Rightarrow> (work_error, int) result" where
  "payload_non_negative_int body key = (case dict_get body key of
       None \<Rightarrow> Inr 0
     | Some (PScalar (SInt i)) \<Rightarrow> if i < 0 then Inl (Value_error (''Job payload requires non-negative int field: '' @ key)) else Inr i
     | _ \<Rightarrow> Inl (Value_error (''Job payload requires non-negative int field: '' @ key)))"

definition payload_sleep_duration_seconds :: "(string, pval) dict \<Rightarrow> (work_error, int) result" where
  "payload_sleep_duration_seconds body = (case dict_get body ''duration_seconds'' of
       Some (PScalar (SInt i)) \<Rightarrow>
         if 1 \<le> i \<and> i \<le> 86400 then Inr i else Inl (Value_error ''Job payload requires duration_seconds in range 1..86400'')
     | _ \<Rightarrow> Inl (Value_error ''Job payload requires duration_seconds in range 1..86400''))"

definition payload_datasource_id :: "job \<Rightarrow> (work_error, string) result" where
  "payload_datasource_id j = (case payload_optional_str (payload j) ''datasource_id'' of
       Some s \<Rightarrow> Inr s
     | None \<Rightarrow> (case datasource_ids j of d # _ \<Rightarrow> Inr d
                | [] \<Rightarrow> Inl (Value_error ''Job payload requires datasource_id or job.datasource_ids'')))"

definition node_datasource_ids :: "(string, pval) dict \<Rightarrow> string list" where
  "node_datasource_ids body = foldl (\<lambda>ids key. case payload_optional_str body key of
       Some s \<Rightarrow> if s \<in> set ids then ids else ids @ [s] | None \<Rightarrow> ids) []
     [''datasource_id'', ''source_id'', ''target_id'']"

section \<open>Children of a run\<close>

definition workflow_spec_from_payload :: "worker_env \<Rightarrow> (string, pval) dict \<Rightarrow> (work_error, workflow_spec) result" where
  "workflow_spec_from_payload env body = (case dict_get body ''spec'' of
       Some (PDict raw) \<Rightarrow>
         (case parse_spec env raw of
            None \<Rightarrow> Inl (Fault (Spec_fault None))
          | Some spec \<Rightarrow> (case validate_spec (croniter_is_valid (we_sched env)) spec of
              Inl e \<Rightarrow> Inl (Fault (Spec_fault (Some e))) | Inr _ \<Rightarrow> Inr spec))
     | _ \<Rightarrow> Inl (Value_error ''workflow_run payload requires spec object''))"

definition result_metadata :: "(string, pval) dict \<Rightarrow> (string, pval) dict" where
  "result_metadata ref = (case dict_get ref ''metadata'' of Some (PDict m) \<Rightarrow> m | _ \<Rightarrow> [])"

definition child_snapshot :: "job \<Rightarrow> child_job" where
  "child_snapshot child = \<lparr>child_job_id = jid child, child_status = jstatus child, child_retry_count = retry_count child,
     child_finished_at = finished_at child, child_error = jerror child, child_error_code = error_code child,
     child_outputs = map (\<lambda>(f, v). (f, PScalar v))
       (extract_workflow_node_outputs (kind child) (map_option result_metadata (result_ref child)))\<rparr>"

definition workflow_children_snapshots :: "job list \<Rightarrow> (string, child_job) dict" where
  "workflow_children_snapshots children = foldl (\<lambda>snaps child.
     case payload_optional_str (payload child) ''workflow_node_id'' of
       Some n \<Rightarrow> dict_set snaps n (child_snapshot child)
     | None \<Rightarrow> snaps) [] children"

definition JOB_KINDS :: "string list" where
  "JOB_KINDS = [''sql_query'', ''test_connection'', ''sql_explain'', ''compare_run'', ''result_export'', ''export_excel'',
     ''scenario_materialize'', ''scenario_run_all'', ''workflow_run'', ''notify'', ''sleep'', ''branch'', ''workflow_sensor_check'',
     ''ai_assist_call'', ''ai_copilot_run'', ''lineage_analyze'', ''lineage_batch'', ''metadata_sync'']"

definition COMPARE_BUCKETS :: "string list" where
  "COMPARE_BUCKETS = [''only_source'', ''only_target'', ''diff'', ''same'']"

text \<open>\<open>fresh n k\<close> is the k-th \<open>uuid4\<close> drawn for node \<open>n\<close>.\<close>

definition branch_target :: "workflow_node \<Rightarrow> node_output_map \<Rightarrow> (work_error, string) result" where
  "branch_target node outs = (case dict_get outs (node_id node) of
       None \<Rightarrow> Inl (Value_error ''branch_selected_target_missing'')
     | Some own \<Rightarrow> (case payload_optional_str own ''selected_target'' of
         None \<Rightarrow> Inl (Value_error ''branch_selected_target_missing'') | Some t \<Rightarrow> Inr t))"

definition child_payload ::
    "worker_env \<Rightarrow> (string \<Rightarrow> nat \<Rightarrow> string) \<Rightarrow> workflow_node \<Rightarrow> variables \<Rightarrow> node_output_map
     \<Rightarrow> (work_error, (string, pval) dict) result" where
  "child_payload env fresh node vars outs =
     rbind (case interpolate_payload (rt_float_repr (we_runtime env)) (node_payload node) vars outs of
              Inl e \<Rightarrow> Inl (Fault (Param_fault e)) | Inr p \<Rightarrow> Inr p) (\<lambda>p.
     let p1 = dict_set p ''workflow_node_id'' (PStr (node_id node)) in
     rbind (if job_kind node = ''branch''
            then rbind (branch_target node outs) (\<lambda>t. Inr (dict_set p1 ''selected_target'' (PStr t)))
            else Inr p1) (\<lambda>p2.
     let p3 = (if job_kind node \<in> {''sql_query'', ''sql_explain''} \<and> payload_optional_str p2 ''result_set_id'' = None
               then dict_set p2 ''result_set_id'' (PStr (fresh (node_id node) 0)) else p2)
     in Inr (if job_kind node = ''compare_run''
             then dict_set (dict_set p3 ''run_id'' (PStr (fresh (node_id node) 2))) ''bucket_result_set_ids''
                    (PDict (map (\<lambda>(k, b). (b, PStr (fresh (node_id node) k))) (enumerate 3 COMPARE_BUCKETS)))
             else p3)))"

definition build_workflow_child_job ::
    "worker_env \<Rightarrow> (string \<Rightarrow> nat \<Rightarrow> string) \<Rightarrow> job \<Rightarrow> workflow_node \<Rightarrow> variables \<Rightarrow> node_output_map \<Rightarrow> int
     \<Rightarrow> (work_error, job) result" where
  "build_workflow_child_job env fresh run_job node vars outs now =
     rbind (child_payload env fresh node vars outs) (\<lambda>body.
     rbind (if job_kind node = ''sleep''
            then rbind (payload_sleep_duration_seconds body) (\<lambda>d. Inr (now + d * 1000000)) else Inr now) (\<lambda>available.
     if job_kind node \<notin> set JOB_KINDS then Inl (Value_error ''is not a valid JobKind'')
     else Inr \<lparr>jid = fresh (node_id node) 0, kind = job_kind node, jstatus = Job_pending,
            owner_user_id = owner_user_id run_job, project_id = project_id run_job,
            datasource_ids = node_datasource_ids body, priority = priority run_job + 1, available_at = available,
            job_timeout_seconds = node_timeout_seconds node, resource_profile = resource_profile_json (node_timeout_seconds node),
            result_ref = None, audit_id = fresh (node_id node) 1, worker_id = None, last_heartbeat = None, started_at = None,
            finished_at = None, cancel_requested = False, cancel_reason = None, jerror = None, error_code = None,
            retry_count = 0, payload = body, parent_workflow_run_id = Some (jid run_job)\<rparr>))"

section \<open>A step of a run\<close>

definition check_cancel :: "string \<Rightarrow> unit work" where
  "check_cancel j s = (if is_cancel_requested j (queue s) then (Inl Cancel_requested, s) else (Inr (), s))"

text \<open>The unique index answers a second insert of a node; the worker skips it.\<close>

definition enqueue_child :: "int \<Rightarrow> job \<Rightarrow> unit work" where
  "enqueue_child now j s = (case enqueue now j (queue s) of
       Inl Integrity_error \<Rightarrow> (Inr (), s)
     | Inl e \<Rightarrow> (Inl (Fault (Queue_fault e)), s)
     | Inr q \<Rightarrow> (Inr (), s\<lparr>queue := q\<rparr>))"

definition start_child ::
    "worker_env \<Rightarrow> (string \<Rightarrow> nat \<Rightarrow> string) \<Rightarrow> int \<Rightarrow> job \<Rightarrow> workflow_spec \<Rightarrow> variables \<Rightarrow> node_output_map \<Rightarrow> string \<Rightarrow> unit work" where
  "start_child env fresh now run_job spec vars outs n =
     (case dict_get (nodes_by_id (nodes spec)) n of
        None \<Rightarrow> w_raise (Fault (Exec_fault Exec_key_error))
      | Some node \<Rightarrow>
          w_bind (w_lift (build_workflow_child_job env fresh run_job node vars outs now)) (enqueue_child now))"

definition cancel_child :: "int \<Rightarrow> string \<Rightarrow> string \<Rightarrow> unit work" where
  "cancel_child now reason j = w_bind (w_queue (request_cancel now j)) (\<lambda>_. w_queue (cancel_pending_job now j reason))"

definition next_delay :: "worker_env \<Rightarrow> step_plan \<Rightarrow> rat" where
  "next_delay env plan = (case wait_seconds plan of
       Some w \<Rightarrow> min (max w (1 / 20)) (we_advance_interval env) | None \<Rightarrow> we_advance_interval env)"

text \<open>\<open>now + timedelta(seconds=max(delay, 0.0))\<close>, to the microsecond.\<close>

definition next_available_at :: "worker_env \<Rightarrow> int \<Rightarrow> step_plan \<Rightarrow> int option" where
  "next_available_at env now plan =
     (if enqueue_node_ids plan \<noteq> [] \<or> retry_job_ids plan \<noteq> [] then None
      else Some (now + round (max (next_delay env plan) 0 * 1000000)))"

fun node_status_value :: "node_status \<Rightarrow> string" where
  "node_status_value WAITING = ''waiting''"
| "node_status_value RUNNING = ''running''"
| "node_status_value RETRY_WAIT = ''retry_wait''"
| "node_status_value SUCCESS = ''success''"
| "node_status_value FAILED = ''failed''"
| "node_status_value SKIPPED = ''skipped''"
| "node_status_value CANCELLED = ''cancelled''"

definition node_summary :: "worker_env \<Rightarrow> step_plan \<Rightarrow> pval" where
  "node_summary env plan = PDict (map (\<lambda>(n, st). (n, PDict
     [(''status'', PStr (node_status_value (status st))), (''job_id'', PScalar (opt_str (state_job_id st))),
      (''attempts'', PInt (attempts st)),
      (''error'', PScalar (opt_str (map_option (node_error_text env) (state_error st))))])) (node_states plan))"

definition run_outcome :: "worker_env \<Rightarrow> job \<Rightarrow> step_plan \<Rightarrow> outcome" where
  "run_outcome env j plan = \<lparr>outcome_ref = [(''backend'', PStr ''workflow_run''), (''uri'', PStr (''workflow/'' @ jid j)),
     (''metadata'', PDict [(''workflow_id'', PScalar (opt_str (payload_optional_str (payload j) ''workflow_id''))),
                           (''nodes'', node_summary env plan)])], outcome_loaded_rows = None\<rparr>"

text \<open>What the worker does with a plan.\<close>

definition apply_plan ::
    "worker_env \<Rightarrow> (string \<Rightarrow> nat \<Rightarrow> string) \<Rightarrow> int \<Rightarrow> job \<Rightarrow> workflow_spec \<Rightarrow> variables \<Rightarrow> step_plan \<Rightarrow> outcome option work" where
  "apply_plan env fresh now j spec vars plan =
     w_bind (w_each (start_child env fresh now j spec vars (output_context (node_states plan))) (enqueue_node_ids plan)) (\<lambda>_.
     w_bind (w_each (\<lambda>c. w_queue (retry_workflow_node now c)) (retry_job_ids plan)) (\<lambda>_.
     w_bind (w_each (cancel_child now ''workflow aborted'') (cancel_job_ids plan)) (\<lambda>_.
     case run_status plan of
       None \<Rightarrow>
         w_bind (w_queue (\<lambda>d. Inr (heartbeat now (jid j) (we_id env) d))) (\<lambda>_.
         w_bind (w_queue (requeue_workflow_run (worker_backend env) now (jid j) (next_available_at env now plan))) (\<lambda>_.
         w_return None))
     | Some Job_failed \<Rightarrow> w_raise (Run_failed (case run_error plan of Some e \<Rightarrow> failure_text env e | None \<Rightarrow> ''workflow failed''))
     | Some _ \<Rightarrow> w_return (Some (run_outcome env j plan)))))"

definition run_variables :: "worker_env \<Rightarrow> int \<Rightarrow> job \<Rightarrow> variables" where
  "run_variables env now j = (case when_variables_from_payload (payload j) of
       Some vars \<Rightarrow> vars | None \<Rightarrow> builtin_when_variables (calendar (we_sched env) now))"

definition execute_workflow_run :: "worker_env \<Rightarrow> (string \<Rightarrow> nat \<Rightarrow> string) \<Rightarrow> int \<Rightarrow> job \<Rightarrow> outcome option work" where
  "execute_workflow_run env fresh now j =
     w_bind (w_lift (workflow_spec_from_payload env (payload j))) (\<lambda>spec.
     w_bind (\<lambda>s. (Inr (list_jobs_by_parent (jid j) (queue s)), s)) (\<lambda>children.
     w_bind (check_cancel (jid j)) (\<lambda>_.
     w_bind (w_lift (case plan_workflow_step (we_runtime env) spec (workflow_children_snapshots children) now
                       (we_max_retries env) (run_variables env now j) of
                       Inl e \<Rightarrow> Inl (Fault (Exec_fault e)) | Inr plan \<Rightarrow> Inr plan)) (\<lambda>plan.
     apply_plan env fresh now j spec (run_variables env now j) plan))))"

section \<open>The other kinds a workflow node may have\<close>

definition plain_outcome :: "string \<Rightarrow> job \<Rightarrow> (string, pval) dict \<Rightarrow> outcome" where
  "plain_outcome name j meta = \<lparr>outcome_ref = [(''backend'', PStr name), (''uri'', PStr (name @ ''/'' @ jid j)),
     (''metadata'', PDict meta)], outcome_loaded_rows = None\<rparr>"

definition execute_branch :: "job \<Rightarrow> (work_error, outcome) result" where
  "execute_branch j = rbind (required_payload_str (payload j) ''selected_target'') (\<lambda>t.
     Inr (plain_outcome ''branch'' j [(''selected_target'', PStr t)]))"

definition execute_sleep :: "job \<Rightarrow> (work_error, outcome) result" where
  "execute_sleep j = rbind (payload_sleep_duration_seconds (payload j)) (\<lambda>d.
     Inr (plain_outcome ''sleep'' j [(''duration_seconds'', PInt d)]))"

text \<open>A notification is sent for the definition frozen in the parent run, never for what the job's payload says alone.\<close>

definition notify_arguments :: "workflow_spec \<Rightarrow> (string, pval) dict \<Rightarrow> (string list \<times> string option) option" where
  "notify_arguments spec body =
     (case dict_get body ''workflow_node_id'' of
        Some (PScalar (SStr n)) \<Rightarrow>
          (case find (\<lambda>node. node_id node = n) (nodes spec) of
             None \<Rightarrow> None
           | Some node \<Rightarrow>
               if strip n = [] \<or> job_kind node \<noteq> ''notify'' \<or>
                  set (dict_keys body) \<noteq> {''workflow_node_id'', ''target_ids''} \<union>
                    (if ''message'' \<in> set (dict_keys (node_payload node)) then {''message''} else {})
               then None
               else (case dict_get body ''target_ids'' of
                       Some (PList xs) \<Rightarrow>
                         if length xs < 1 \<or> 10 < length xs \<or> \<not> list_all is_nonblank_str xs \<or> \<not> distinct (string_items xs) \<or>
                            dict_get (node_payload node) ''target_ids'' \<noteq> Some (PList xs)
                         then None
                         else (case dict_get body ''message'' of
                                 None \<Rightarrow> Some (string_items xs, None)
                               | Some (PScalar SNone) \<Rightarrow> Some (string_items xs, None)
                               | Some (PScalar (SStr m)) \<Rightarrow> if length m > 512 then None else Some (string_items xs, Some m)
                               | _ \<Rightarrow> None)
                     | _ \<Rightarrow> None))
      | _ \<Rightarrow> None)"

definition execute_notify :: "worker_env \<Rightarrow> job \<Rightarrow> sched_state \<Rightarrow> (work_error, outcome) result" where
  "execute_notify env j s =
     (if \<not> notify_enabled env then Inl (Notify_failed ''notify_service_unavailable'')
      else case parent_workflow_run_id j of
        None \<Rightarrow> Inl (Notify_failed ''notify_parent_unavailable'')
      | Some p \<Rightarrow>
          (case (if p = [] then None else get_job p (queue s)) of
             None \<Rightarrow> Inl (Notify_failed ''notify_parent_unavailable'')
           | Some parent \<Rightarrow>
               if kind parent \<noteq> ''workflow_run'' then Inl (Notify_failed ''notify_parent_unavailable'')
               else (case workflow_spec_from_payload env (payload parent) of
                       Inl e \<Rightarrow> Inl (Notify_failed ''notify_delivery_failed'')
                     | Inr spec \<Rightarrow>
                         (case notify_arguments spec (payload j) of
                            None \<Rightarrow> Inl (Notify_failed ''notify_invalid_payload'')
                          | Some (targets, message) \<Rightarrow>
                              (case deliver env spec targets message of
                                 None \<Rightarrow> Inl (Notify_failed ''notify_delivery_failed'')
                               | Some oks \<Rightarrow>
                                   if list_all id oks
                                   then Inr (plain_outcome ''notify'' j [(''sent_count'', PInt (int (length (filter id oks))))])
                                   else Inl (Notify_failed ''notify_delivery_failed''))))))"

section \<open>Sensor checks\<close>

definition lower_str :: "string \<Rightarrow> string" where
  "lower_str s = map (\<lambda>c. let n = (of_char c :: nat) in if 65 \<le> n \<and> n \<le> 90 then char_of (n + 32) else c) s"

text \<open>The outer \<open>None\<close> is the marker for no row.\<close>

definition sensor_first_cell :: "scalar list list \<Rightarrow> scalar option" where
  "sensor_first_cell rows = (case rows of [] \<Rightarrow> None | r # _ \<Rightarrow> Some (case r of [] \<Rightarrow> SNone | v # _ \<Rightarrow> v))"

definition sensor_cell_truthy :: "scalar option \<Rightarrow> bool" where
  "sensor_cell_truthy cell = (case cell of
       None \<Rightarrow> False
     | Some (SStr s) \<Rightarrow> lower_str (strip s) \<notin> {'''', ''0'', ''false'', ''f'', ''no'', ''n'', ''off''}
     | Some v \<Rightarrow> truthy v)"

definition w_trigger :: "int \<Rightarrow> string \<Rightarrow> int \<Rightarrow> job \<Rightarrow> bool work" where
  "w_trigger now w cooldown run_job s = (case claim_trigger_and_enqueue now w now cooldown run_job s of
       Inl (Queue_failed e) \<Rightarrow> (Inl (Fault (Queue_fault e)), s)
     | Inl (Invalid_spec e) \<Rightarrow> (Inl (Fault (Spec_fault (Some e))), s)
     | Inr (claimed, s') \<Rightarrow> (Inr claimed, s'))"

definition sensor_outcome :: "job \<Rightarrow> string \<Rightarrow> bool \<Rightarrow> string option \<Rightarrow> outcome" where
  "sensor_outcome j w triggered run = \<lparr>outcome_ref = [(''backend'', PStr ''workflow_sensor''), (''uri'', PStr (''sensor/'' @ jid j)),
     (''metadata'', PDict [(''workflow_id'', PStr w), (''triggered'', PScalar (SBool triggered)), (''run_id'', PScalar (opt_str run))])],
     outcome_loaded_rows = None\<rparr>"

definition execute_sensor_check :: "worker_env \<Rightarrow> string \<times> string \<Rightarrow> int \<Rightarrow> job \<Rightarrow> outcome work" where
  "execute_sensor_check env ids now j =
     w_bind (w_lift (required_payload_str (payload j) ''workflow_id'')) (\<lambda>w.
     w_bind (w_lift (payload_datasource_id j)) (\<lambda>source.
     w_bind (w_lift (rbind (required_payload_str (payload j) ''sensor_sql'') (validate_readonly_sql env))) (\<lambda>sql_text.
     w_bind (w_lift (payload_non_negative_int (payload j) ''cooldown_seconds'')) (\<lambda>cooldown.
     w_bind (w_lift (rbind (allow_select env source) (\<lambda>ok.
       guard_r ok (Policy_denied ''select denied by datasource operation_policy'')))) (\<lambda>_.
     w_bind (check_cancel (jid j)) (\<lambda>_.
     w_bind (w_lift (select_rows env source sql_text)) (\<lambda>rows.
     w_bind (w_queue (\<lambda>d. Inr (heartbeat now (jid j) (we_id env) d))) (\<lambda>_.
     if \<not> sensor_cell_truthy (sensor_first_cell rows) then w_return (sensor_outcome j w False None)
     else
       w_bind (w_lift (workflow_spec_from_payload env (payload j))) (\<lambda>spec.
       let run_job = build_workflow_run_job (we_sched env) ids now w
             (case payload_optional_str (payload j) ''workflow_name'' of Some n \<Rightarrow> n | None \<Rightarrow> w)
             (project_id j) (owner_user_id j) spec ''sensor'' now [] in
       w_bind (w_trigger now w cooldown run_job) (\<lambda>claimed.
       w_return (sensor_outcome j w True (if claimed then Some (jid run_job) else None))))))))))))"

section \<open>Errors as the queue sees them\<close>

definition error_name_text :: "worker_env \<Rightarrow> work_error \<Rightarrow> string \<times> string" where
  "error_name_text env e = (case e of
       Cancel_requested \<Rightarrow> (''JobCancelled'', ''cancel requested'')
     | Value_error t \<Rightarrow> (''ValueError'', t)
     | Run_failed t \<Rightarrow> (''WorkflowRunFailedError'', t)
     | Notify_failed t \<Rightarrow> (''NotifyDeliveryError'', t)
     | Compare_input t \<Rightarrow> (''CompareResultInputError'', t)
     | Connection_test t \<Rightarrow> (''DatasourceConnectionTestError'', t)
     | Policy_denied t \<Rightarrow> (''OperationPolicyDeniedError'', t)
     | Unsupported_db_type t \<Rightarrow> (''UnsupportedDbTypeError'', t)
     | Export_size_limit t \<Rightarrow> (''ExportSizeLimitExceeded'', t)
     | Row_limit t \<Rightarrow> (''MaxRowsExceededError'', t)
     | Sample_unsupported_key t \<Rightarrow> (''CompareSampleUnsupportedKeyError'', t)
     | Duplicate_key t \<Rightarrow> (''CompareDuplicateKeyError'', t)
     | Unsupported_kind t \<Rightarrow> (''UnsupportedJobKindError'', t)
     | Adapter_connection t \<Rightarrow> (''AdapterConnectionError'', t)
     | Fault f \<Rightarrow> fault_text env f
     | Library_error n t \<Rightarrow> (n, t))"

definition is_timeout_error :: "worker_env \<Rightarrow> work_error \<Rightarrow> bool" where
  "is_timeout_error env e = (case error_name_text env e of (name, txt) \<Rightarrow>
     contains ''timeout'' (lower_str name) \<or> contains ''timed out'' (lower_str txt) \<or> contains ''timeout'' (lower_str txt))"

definition is_cancel_error :: "worker_env \<Rightarrow> work_error \<Rightarrow> bool" where
  "is_cancel_error env e \<longleftrightarrow> e = Cancel_requested \<or> contains ''cancel'' (lower_str (fst (error_name_text env e)))"

definition job_error_code :: "worker_env \<Rightarrow> work_error \<Rightarrow> string \<Rightarrow> string" where
  "job_error_code env e k = (case e of
       Run_failed _ \<Rightarrow> ''internal''
     | Policy_denied _ \<Rightarrow> ''permission_denied''
     | Unsupported_db_type _ \<Rightarrow> ''unsupported_db_type''
     | Export_size_limit _ \<Rightarrow> ''export_limit_exceeded''
     | Row_limit _ \<Rightarrow> ''compare_limit_exceeded''
     | Sample_unsupported_key _ \<Rightarrow> ''compare_sample_unsupported_key''
     | Duplicate_key _ \<Rightarrow> ''compare_duplicate_key''
     | _ \<Rightarrow>
         if is_timeout_error env e then ''timeout''
         else if is_cancel_error env e then ''cancelled''
         else if k = ''test_connection'' \<or> (\<exists>c. e = Connection_test c) then ''connection_failed''
         else if (\<exists>t. e = Adapter_connection t) then ''connection_failed''
         else if k \<in> {''sql_query'', ''sql_explain'', ''compare_run'', ''workflow_sensor_check''} then ''sql_failed''
         else if k = ''result_export'' then ''export_failed''
         else ''internal'')"

definition public_error_message :: "worker_env \<Rightarrow> work_error \<Rightarrow> string \<Rightarrow> string" where
  "public_error_message env e k = (case e of
       Compare_input c \<Rightarrow> c
     | Notify_failed c \<Rightarrow> c
     | Connection_test c \<Rightarrow> c
     | Policy_denied _ \<Rightarrow> ''permission_denied''
     | Unsupported_db_type _ \<Rightarrow> ''unsupported_db_type''
     | Export_size_limit _ \<Rightarrow> ''export_limit_exceeded''
     | Row_limit _ \<Rightarrow> ''compare_limit_exceeded''
     | Sample_unsupported_key _ \<Rightarrow> ''single_integer_pk_required''
     | Duplicate_key _ \<Rightarrow> ''duplicate_compare_key''
     | Unsupported_kind _ \<Rightarrow> ''internal''
     | Run_failed t \<Rightarrow> t
     | _ \<Rightarrow> if is_timeout_error env e then ''timeout'' else if is_cancel_error env e then ''cancelled'' else job_error_code env e k)"

definition set_error_code :: "string \<Rightarrow> string \<Rightarrow> db \<Rightarrow> db" where
  "set_error_code j code d =
     fst (update_jobs (\<lambda>r. jid r = j \<and> jstatus r = Job_failed) (\<lambda>r. r\<lparr>error_code := Some code\<rparr>) d)"

section \<open>A claimed job\<close>

definition workflow_sql_result_ref :: "job \<Rightarrow> outcome \<Rightarrow> (string, pval) dict" where
  "workflow_sql_result_ref j o1 = (case (parent_workflow_run_id j, outcome_loaded_rows o1) of
       (Some _, Some n) \<Rightarrow>
         if kind j \<in> {''sql_query'', ''sql_explain''}
         then dict_set (outcome_ref o1) ''metadata'' (PDict (dict_set (dict_set (result_metadata (outcome_ref o1))
                ''result_set_id'' (PStr (case payload_optional_str (payload j) ''result_set_id'' of Some r \<Rightarrow> r | None \<Rightarrow> jid j)))
                ''loaded_rows'' (PInt n)))
         else outcome_ref o1
     | _ \<Rightarrow> outcome_ref o1)"

definition cancel_workflow_children :: "int \<Rightarrow> string \<Rightarrow> unit work" where
  "cancel_workflow_children now run =
     w_bind (\<lambda>s. (Inr (list_jobs_by_parent run (queue s)), s)) (\<lambda>children.
     w_each (\<lambda>c. if jstatus c \<in> {Job_pending, Job_running} then cancel_child now ''workflow run cancelled'' (jid c) else w_return ()) children)"

definition EXTERNAL_KINDS :: "string list" where
  "EXTERNAL_KINDS = [''test_connection'', ''sql_query'', ''sql_explain'', ''result_export'', ''export_excel'', ''compare_run'',
     ''lineage_analyze'', ''lineage_batch'', ''metadata_sync'']"

definition execute_kind :: "worker_env \<Rightarrow> (string \<Rightarrow> nat \<Rightarrow> string) \<Rightarrow> int \<Rightarrow> job \<Rightarrow> outcome option work" where
  "execute_kind env fresh now j =
     (let wrap = (\<lambda>r. w_bind r (\<lambda>o1. w_return (Some o1))) in
      if kind j \<in> set EXTERNAL_KINDS then wrap (w_lift (other_executor env j))
      else if kind j = ''workflow_run'' then execute_workflow_run env fresh now j
      else if kind j = ''branch'' then wrap (w_lift (execute_branch j))
      else if kind j = ''sleep'' then wrap (w_lift (execute_sleep j))
      else if kind j = ''notify'' then wrap (\<lambda>s. (execute_notify env j s, s))
      else if kind j = ''workflow_sensor_check'' then wrap (execute_sensor_check env (fresh [] 0, fresh [] 1) now j)
      else w_raise (Unsupported_kind (''Unsupported job kind: '' @ kind j)))"

definition execute_claimed_job :: "worker_env \<Rightarrow> (string \<Rightarrow> nat \<Rightarrow> string) \<Rightarrow> int \<Rightarrow> job \<Rightarrow> unit work" where
  "execute_claimed_job env fresh now j s =
     (case w_bind (check_cancel (jid j)) (\<lambda>_. execute_kind env fresh now j) s of
        (Inl Cancel_requested, s1) \<Rightarrow>
          w_bind (if kind j = ''workflow_run'' then cancel_workflow_children now (jid j) else w_return ()) (\<lambda>_.
            w_queue (mark_cancelled (worker_backend env) now (jid j) ''cancel requested'')) s1
      | (Inl e, s1) \<Rightarrow>
          w_bind (w_queue (fail (worker_backend env) now (jid j) (public_error_message env e (kind j)))) (\<lambda>_.
            w_queue (\<lambda>d. Inr (set_error_code (jid j) (job_error_code env e (kind j)) d))) s1
      | (Inr None, s1) \<Rightarrow> (Inr (), s1)
      | (Inr (Some o1), s1) \<Rightarrow> w_queue (complete (worker_backend env) now (jid j) (workflow_sql_result_ref j o1)) s1)"

text \<open>One round of the worker loop: reap, claim, execute. The result tells whether there was work.\<close>

definition run_once ::
    "worker_env \<Rightarrow> backend \<Rightarrow> string set \<times> string set \<times> string set \<Rightarrow> string set \<Rightarrow> (string \<Rightarrow> nat \<Rightarrow> string) \<Rightarrow> int \<Rightarrow> int \<Rightarrow> bool work" where
  "run_once env b lockeds locked fresh limit now =
     w_bind (w_queue (\<lambda>d. rbind (reap_stale_running_jobs b lockeds (now, now, now) (we_heartbeat_timeout env) limit d) (\<lambda>(d', _). Inr d'))) (\<lambda>_.
     w_bind (\<lambda>s. case claim_next locked now (we_id env) (queue s) of
                   Inl e \<Rightarrow> (Inl (Fault (Queue_fault e)), s)
                 | Inr (d, j) \<Rightarrow> (Inr j, s\<lparr>queue := d\<rparr>)) (\<lambda>j.
     case j of None \<Rightarrow> w_return False
     | Some x \<Rightarrow> w_bind (execute_claimed_job env fresh now x) (\<lambda>_. w_return True)))"

end
