(* ===== verification/Worker_Run.thy ===== *)
theory Worker_Run
  imports Workflow_Worker
begin

text \<open>
  What a worker guarantees for the runs it advances. The planner and the builder of child jobs agree:
  every node a plan queues can be built, so a step of a valid run never stops half way. A step leaves
  the run either settled or waiting in the queue again, with every queued node present exactly once.
\<close>

section \<open>Rendering against a larger context\<close>

text \<open>A payload that renders against some outputs renders the same when more nodes have outputs.\<close>

lemma resolve_node_output_mono:
  "resolve_node_output e outs = Inr v \<Longrightarrow> resolve_node_output e (outs @ rest) = Inr v"
  by (auto simp: resolve_node_output_def map_add_Some_iff split: option.splits if_splits pval.splits)

lemma render_hole_mono:
  "render_hole fr vars outs raw = Inr v \<Longrightarrow> render_hole fr vars (outs @ rest) raw = Inr v"
  unfolding render_hole_def Let_def
  by (auto simp: resolve_node_output_mono split: option.splits if_splits sum.splits dest: resolve_node_output_mono [where rest = rest])

lemma render_piece_mono:
  "render_piece fr vars outs p = Inr v \<Longrightarrow> render_piece fr vars (outs @ rest) p = Inr v"
  by (cases p) (simp_all add: render_piece_def render_hole_mono)

lemma map_r_mono:
  assumes "\<And>x v. x \<in> set xs \<Longrightarrow> f x = Inr v \<Longrightarrow> g x = Inr v" and "map_r f xs = Inr vs"
  shows "map_r g xs = Inr vs"
  using assms by (induction xs arbitrary: vs) (auto simp: rbind_eq_Inr)

lemma interpolate_str_mono:
  assumes "interpolate_str fr vars outs txt = Inr v"
  shows "interpolate_str fr vars (outs @ rest) txt = Inr v"
proof -
  have sub: "rbind (map_r (render_piece fr vars (outs @ rest)) (pieces txt)) (\<lambda>ps. Inr (PStr (concat ps))) = Inr v"
    if "rbind (map_r (render_piece fr vars outs) (pieces txt)) (\<lambda>ps. Inr (PStr (concat ps))) = Inr v"
    using that map_r_mono [of "pieces txt" "render_piece fr vars outs" "render_piece fr vars (outs @ rest)"]
    by (auto simp: rbind_eq_Inr render_piece_mono)
  show ?thesis
  proof (cases "\<exists>raw. hole_at txt = Some (raw, []) \<and> parse_node_output_reference (strip raw) \<noteq> None")
    case True
    then obtain raw where raw: "hole_at txt = Some (raw, [])" "parse_node_output_reference (strip raw) \<noteq> None" by blast
    from assms obtain x where x: "resolve_node_output (strip raw) outs = Inr x" "v = PScalar x"
      using raw(2) by (auto simp: interpolate_str_def Let_def raw(1) split: sum.splits if_splits)
    from raw resolve_node_output_mono [OF x(1), of rest] x(2) show ?thesis by (simp add: interpolate_str_def Let_def)
  next
    case False
    then have same: "interpolate_str fr vars o1 txt = rbind (map_r (render_piece fr vars o1) (pieces txt)) (\<lambda>ps. Inr (PStr (concat ps)))" for o1
      by (auto simp: interpolate_str_def Let_def split: option.splits list.splits prod.splits)
    from assms show ?thesis unfolding same by (rule sub)
  qed
qed

lemma interpolate_value_mono:
  "interpolate_value fr vars outs x = Inr v \<Longrightarrow> interpolate_value fr vars (outs @ rest) x = Inr v"
proof (induction fr vars outs x arbitrary: v rule: interpolate_value.induct)
  case (3 fr vars outs items)
  then obtain kvs where run: "map_r (\<lambda>(k, item). rbind (interpolate_value fr vars outs item) (\<lambda>v. Inr (k, v))) items = Inr kvs"
    and v: "v = PDict kvs" by (auto simp: rbind_eq_Inr)
  have "map_r (\<lambda>(k, item). rbind (interpolate_value fr vars (outs @ rest) item) (\<lambda>v. Inr (k, v))) items = Inr kvs"
    by (rule map_r_mono [OF _ run]) (use "3.IH" in \<open>fastforce simp: rbind_eq_Inr\<close>)
  then show ?case by (simp add: v)
next
  case (4 fr vars outs items)
  then obtain vs where run: "map_r (interpolate_value fr vars outs) items = Inr vs" and v: "v = PList vs" by (auto simp: rbind_eq_Inr)
  have "map_r (interpolate_value fr vars (outs @ rest)) items = Inr vs"
    by (rule map_r_mono [OF _ run]) (use "4.IH" in auto)
  then show ?case by (simp add: v)
qed (simp_all add: interpolate_str_mono)

lemma interpolate_payload_mono:
  assumes "interpolate_payload fr body vars outs = Inr p"
  shows "interpolate_payload fr body vars (outs @ rest) = Inr p"
  unfolding interpolate_payload_def
  by (rule map_r_mono [OF _ assms [unfolded interpolate_payload_def]]) (auto simp: rbind_eq_Inr interpolate_value_mono)

section \<open>Queued nodes can be built\<close>

definition routes_ok :: "route_cache \<Rightarrow> bool" where
  "routes_ok cache \<longleftrightarrow> (\<forall>k tgt. dict_get cache k = Some (tgt, None) \<longrightarrow> (\<exists>x. tgt = Some x \<and> x \<noteq> []))"

definition targets_named :: "plan_input \<Rightarrow> bool" where
  "targets_named inp \<longleftrightarrow> (\<forall>k es. dict_get (in_outgoing inp) k = Some es \<longrightarrow> (\<forall>e \<in> set es. edge_target e \<noteq> []))"

lemma pick_route_target:
  "pick_route test x es = Inr y \<Longrightarrow> x \<noteq> [] \<Longrightarrow> \<forall>e \<in> set es. edge_target e \<noteq> [] \<Longrightarrow> y \<noteq> []"
  by (induction test x es rule: pick_route.induct) (auto simp: rbind_eq_Inr split: if_splits)

lemma selected_route_ok:
  assumes run: "selected_route rt vars n t es sts cache = Inr (cache', tgt, err)" and ok: "routes_ok cache"
    and es: "\<forall>e \<in> set es. edge_target e \<noteq> []"
  shows "routes_ok cache' \<and> (err = None \<longrightarrow> (\<exists>x. tgt = Some x \<and> x \<noteq> []))"
proof (cases "dict_get cache (n, t)")
  case (Some r)
  with run ok show ?thesis by (auto simp: selected_route_def routes_ok_def)
next
  case None
  let ?m = "filter (\<lambda>e. edge_trigger e = t) es"
  from run None obtain d where d: "find is_default ?m = Some d" by (auto simp: selected_route_def Let_def split: option.splits)
  then have "edge_target d \<noteq> []" using es by (auto dest: find_member)
  moreover have "\<forall>e \<in> set ?m. edge_target e \<noteq> []" using es by simp
  ultimately have pick: "pick_route test (edge_target d) ?m = Inr y \<Longrightarrow> y \<noteq> []" for test y
    by (rule pick_route_target [rotated])
  define test where "test e = evaluate_when (rt_float_repr rt) (rt_parse rt) (edge_when e) vars
      (if t = Success_edge \<and> dict_get (output_context sts) n = None
       then dict_set (output_context sts) n [(''status'', PStr ''success''), (''job_id'', PNone), (''error_code'', PNone),
              (''selected_target'', PNone)] else output_context sts)" for e :: workflow_edge
  from run None d have
    dec: "(tgt, err) = (case pick_route test (edge_target d) ?m of Inl e \<Rightarrow> (None, Some e) | Inr y \<Rightarrow> (Some y, None))"
    and c: "cache' = dict_set cache (n, t) (tgt, err)"
    unfolding test_def [abs_def] by (auto simp: selected_route_def Let_def)
  from dec pick [of test] have "err = None \<longrightarrow> (\<exists>x. tgt = Some x \<and> x \<noteq> [])"
    by (auto split: sum.splits)
  with c ok show ?thesis by (auto simp: routes_ok_def)
qed

lemma settle_routes:
  assumes "settle inp n st a = Inr a'" and "routes_ok (acc_routes a)" and "targets_named inp"
  shows "routes_ok (acc_routes a') \<and> acc_enqueue a' = acc_enqueue a"
proof -
  from assms(1) obtain es cache st' where es: "dict_get (in_outgoing inp) (node_id n) = Some es"
    and w: "with_failure_route_error (in_runtime inp) (in_vars inp) n st es (dict_set (acc_states a) (node_id n) st) (acc_routes a) = Inr (cache, st')"
    and a': "a' = a\<lparr>acc_states := dict_set (dict_set (acc_states a) (node_id n) st) (node_id n) st', acc_routes := cache\<rparr>"
    by (auto simp: settle_def dict_at_def rbind_eq_Inr Let_def split: option.splits)
  have named: "\<forall>e \<in> set es. edge_target e \<noteq> []" using assms(3) es by (simp add: targets_named_def)
  from w have "routes_ok cache"
    using selected_route_ok [OF _ assms(2) named] assms(2)
    by (auto simp: with_failure_route_error_def rbind_eq_Inr split: if_splits option.splits)
  with a' show ?thesis by simp
qed

lemma decide_edge_routes:
  assumes "decide_edge rt vars by_id (in_outgoing inp) sts inactive cache e = Inr (cache', d)"
    and "routes_ok cache" and "targets_named inp"
  shows "routes_ok cache'"
proof -
  have named: "\<forall>x \<in> set es. edge_target x \<noteq> []" if "dict_get (in_outgoing inp) (edge_source e) = Some es" for es
    using assms(3) that by (simp add: targets_named_def)
  from assms(1,2) selected_route_ok [OF _ assms(2) named] show ?thesis
    by (auto simp: decide_edge_def rbind_eq_Inr split: option.splits if_splits)
qed

lemma decide_edges_routes:
  assumes "decide_edges (decide_edge rt vars by_id (in_outgoing inp) sts inactive) cache es = Inr (cache', ds)"
    and "routes_ok cache" and "targets_named inp"
  shows "routes_ok cache'"
  using assms(1,2)
proof (induction es arbitrary: cache cache' ds)
  case (Cons e es)
  from Cons.prems(1) obtain c d ds' where c: "decide_edge rt vars by_id (in_outgoing inp) sts inactive cache e = Inr (c, d)"
    and rest: "decide_edges (decide_edge rt vars by_id (in_outgoing inp) sts inactive) c es = Inr (cache', ds')"
    by (auto simp: rbind_eq_Inr)
  from Cons.IH [OF rest decide_edge_routes [OF c Cons.prems(2) assms(3)]] show ?case .
qed simp

text \<open>The payload renders against the context, and a branch has chosen its target.\<close>

definition renders :: "plan_input \<Rightarrow> node_output_map \<Rightarrow> workflow_node \<Rightarrow> bool" where
  "renders inp ctx n \<longleftrightarrow>
     (\<exists>p. interpolate_payload (rt_float_repr (in_runtime inp)) (node_payload n) (in_vars inp) ctx = Inr p) \<and>
     (job_kind n = ''branch'' \<longrightarrow> (\<exists>t. t \<noteq> [] \<and> dict_get ctx (node_id n) = Some [(''selected_target'', PStr t)]))"

lemma renders_mono: "renders inp ctx n \<Longrightarrow> renders inp (ctx @ rest) n"
  by (auto simp: renders_def map_add_Some_iff dest: interpolate_payload_mono)

lemma output_context_append: "output_context (sts @ sts') = output_context sts @ output_context sts'"
  by (simp add: output_context_def)

lemma plan_ready_renders:
  assumes run: "plan_ready inp n a = Inr a'" and ok: "routes_ok (acc_routes a)" and named: "targets_named inp"
    and new: "node_id n \<notin> fst ` set (acc_states a)"
  shows "routes_ok (acc_routes a') \<and> (acc_enqueue a' = acc_enqueue a \<or>
     acc_enqueue a' = acc_enqueue a @ [node_id n] \<and> renders inp (output_context (acc_states a')) n)"
proof -
  let ?rt = "in_runtime inp" and ?ctx = "output_context (acc_states a)"
  note put = put_state_appends [OF new]
  show ?thesis
  proof (cases "evaluate_when (rt_float_repr ?rt) (rt_parse ?rt) (node_when n) (in_vars inp) ?ctx = Inr True \<and>
      \<not> isl (interpolate_payload (rt_float_repr ?rt) (node_payload n) (in_vars inp) ?ctx)")
    case False
    then have "(\<exists>err code. settle inp n (failed_state n err code) a = Inr a') \<or> a' = put_state (plain_state (node_id n) SKIPPED) a"
      using run by (auto simp: plan_ready_def Let_def split: sum.splits bool.splits)
    then show ?thesis using settle_routes [OF _ ok named] ok by (auto simp: put_state_def)
  next
    case True
    then obtain p where w: "evaluate_when (rt_float_repr ?rt) (rt_parse ?rt) (node_when n) (in_vars inp) ?ctx = Inr True"
      and p: "interpolate_payload (rt_float_repr ?rt) (node_payload n) (in_vars inp) ?ctx = Inr p"
      by (auto simp: isl_def split: sum.splits) (metis sum.exhaust)
    note run' = run [unfolded plan_ready_def Let_def w p, simplified]
    have later: "\<exists>q. interpolate_payload (rt_float_repr ?rt) (node_payload n) (in_vars inp) (?ctx @ rest) = Inr q" for rest
      using interpolate_payload_mono [OF p] by blast
    show ?thesis
    proof (cases "job_kind n = ''branch''")
      case False
      then have "a' = (put_state (plain_state (node_id n) WAITING) a)\<lparr>acc_enqueue := acc_enqueue a @ [node_id n]\<rparr>" using run' by simp
      with False ok later show ?thesis by (simp add: put plain_state_def renders_def output_context_append)
    next
      case branch: True
      from run' branch obtain es c tgt err where es: "dict_get (in_outgoing inp) (node_id n) = Some es"
        and sel: "selected_route ?rt (in_vars inp) (node_id n) Success_edge es (acc_states a) (acc_routes a) = Inr (c, tgt, err)"
        by (auto simp: dict_at_def rbind_eq_Inr split: option.splits)
      have ne: "\<forall>e \<in> set es. edge_target e \<noteq> []" using named es by (simp add: targets_named_def)
      note sok = selected_route_ok [OF sel ok ne]
      have new': "node_id n \<notin> fst ` set (acc_states (a\<lparr>acc_routes := c\<rparr>))" using new by simp
      show ?thesis
      proof (cases err)
        case (Some e)
        with run' branch es sel have "settle inp n (failed_state n (Branch_failed e) ''branch_evaluation_failed'') (a\<lparr>acc_routes := c\<rparr>) = Inr a'"
          by (simp add: dict_at_def)
        from settle_routes [OF this _ named] sok show ?thesis by simp
      next
        case None
        with sok obtain t where t: "tgt = Some t" "t \<noteq> []" by blast
        from run' branch es sel None have a': "a' = (put_state ((plain_state (node_id n) WAITING)\<lparr>state_outputs := [(''selected_target'', opt_str tgt)]\<rparr>)
            (a\<lparr>acc_routes := c\<rparr>))\<lparr>acc_enqueue := acc_enqueue a @ [node_id n]\<rparr>"
          by (simp add: dict_at_def)
        have here: "dict_get (?ctx @ [(node_id n, [(''selected_target'', PStr t)])]) (node_id n) = Some [(''selected_target'', PStr t)]"
          by (rule dict_get_append_new) (use new in \<open>simp add: output_context_def image_image case_prod_unfold\<close>)
        show ?thesis
          using sok later t here branch
          by (simp add: a' put_state_appends [OF new'] plain_state_def renders_def output_context_append opt_str_def output_context_def [of "[_]"]
              del: map_of_append)
      qed
    qed
  qed
qed

definition all_render :: "workflow_spec \<Rightarrow> plan_input \<Rightarrow> acc \<Rightarrow> bool" where
  "all_render spec inp a \<longleftrightarrow> routes_ok (acc_routes a) \<and>
     (\<forall>x \<in> set (acc_enqueue a). \<exists>n \<in> set (nodes spec). node_id n = x \<and> renders inp (output_context (acc_states a)) n)"

lemma plan_node_renders:
  assumes inp: "input_of spec inp" and n: "n \<in> set (nodes spec)" and new: "node_id n \<notin> fst ` set (acc_states a)"
    and named: "targets_named inp" and run: "plan_node inp a n = Inr a'" and ok: "routes_ok (acc_routes a)"
  shows "routes_ok (acc_routes a') \<and> (acc_enqueue a' = acc_enqueue a \<or>
     acc_enqueue a' = acc_enqueue a @ [node_id n] \<and> renders inp (output_context (acc_states a')) n)"
proof (cases "dict_get (in_children inp) (node_id n)")
  case (Some c)
  with run obtain st retry waits where "settle inp n st (a\<lparr>acc_retry := retry, acc_waits := waits\<rparr>) = Inr a'"
    by (auto simp: plan_node_def rbind_eq_Inr)
  from settle_routes [OF this _ named] ok show ?thesis by simp
next
  case None
  with run obtain es where es: "dict_get (in_incoming inp) (node_id n) = Some es"
    by (auto simp: plan_node_def dict_at_def rbind_eq_Inr split: option.splits)
  show ?thesis
  proof (cases "es = []")
    case True
    with run None es have "plan_ready inp n a = Inr a'" by (simp add: plan_node_def dict_at_def)
    from plan_ready_renders [OF this ok named new] show ?thesis .
  next
    case False
    with run None es obtain cache ds where
      d: "decide_edges (decide_edge (in_runtime inp) (in_vars inp) (in_by_id inp) (in_outgoing inp) (acc_states a)
            (acc_inactive a)) (acc_routes a) es = Inr (cache, ds)"
      and rest: "a' \<in> {put_state (plain_state (node_id n) WAITING) (a\<lparr>acc_routes := cache\<rparr>),
          (put_state (plain_state (node_id n) SKIPPED) (a\<lparr>acc_routes := cache\<rparr>))\<lparr>acc_inactive := insert (node_id n) (acc_inactive a)\<rparr>,
          put_state (plain_state (node_id n) SKIPPED) (a\<lparr>acc_routes := cache\<rparr>)} \<or> plan_ready inp n (a\<lparr>acc_routes := cache\<rparr>) = Inr a'"
      by (auto simp: plan_node_def dict_at_def rbind_eq_Inr Let_def split: if_splits)
    have "routes_ok cache" by (rule decide_edges_routes [OF d ok named])
    with rest plan_ready_renders [of inp n "a\<lparr>acc_routes := cache\<rparr>" a'] named new show ?thesis by (auto simp: put_state_def)
  qed
qed

lemma plan_loop_renders:
  assumes inp: "input_of spec inp" and ord: "upstream_first spec order" and named: "targets_named inp" and "order = seen @ rest"
    and "plan_inv spec inp seen a" and "all_render spec inp a" and "fold_r (plan_node inp) a rest = Inr a'"
  shows "all_render spec inp a'"
  using assms(4-)
proof (induction rest arbitrary: seen a)
  case (Cons n rest)
  have n: "n \<in> set (nodes spec)" and new: "node_id n \<notin> node_id ` set seen"
    and src: "sources_of spec (node_id n) \<subseteq> node_id ` set seen"
    using ord Cons.prems(1) by (auto simp: upstream_first_def)
  from plan_inv_step [OF inp Cons.prems(2) n new src] Cons.prems(4) obtain a1 where
    a1: "plan_node inp a n = Inr a1" "plan_inv spec inp (seen @ [n]) a1" "fold_r (plan_node inp) a1 rest = Inr a'" by auto
  have keys: "fst ` set (acc_states a) = node_id ` set seen" using Cons.prems(2) by (metis list.set_map plan_inv_def)
  obtain st where sts: "acc_states a1 = acc_states a @ [(node_id n, st)]"
    using plan_node_step [OF inp n, of a] new src a1(1) unfolding keys appends_def by auto
  from plan_node_renders [OF inp n _ named a1(1)] new keys Cons.prems(3)
  have step: "routes_ok (acc_routes a1)" "acc_enqueue a1 = acc_enqueue a \<or>
     acc_enqueue a1 = acc_enqueue a @ [node_id n] \<and> renders inp (output_context (acc_states a1)) n"
    by (simp_all add: all_render_def)
  have keep: "renders inp (output_context (acc_states a1)) m" if "renders inp (output_context (acc_states a)) m" for m
    unfolding sts output_context_append by (rule renders_mono [OF that])
  have "all_render spec inp a1"
    using Cons.prems(3) step n keep unfolding all_render_def by (elim disjE) (fastforce+)
  from Cons.IH [OF _ a1(2) this a1(3)] Cons.prems(1) show ?case by simp
qed simp

lemma validate_node_facts:
  assumes "validate_spec cv spec = Inr ()" and "n \<in> set (nodes spec)"
  shows "node_id n \<noteq> []" "job_kind n \<in> set SUPPORTED_WORKFLOW_NODE_KINDS_V1"
    "job_kind n = ''sleep'' \<Longrightarrow> sleep_payload_ok (node_payload n)"
proof -
  from assms have v: "validate_node n = Inr ()" by (auto simp: validate_spec_def rbind_eq_Inr each_r_ok)
  then show "node_id n \<noteq> []" by (auto simp: validate_node_def rbind_eq_Inr strip_def lstrip_def)
  show "job_kind n \<in> set SUPPORTED_WORKFLOW_NODE_KINDS_V1" using v unfolding validate_node_def rbind_eq_Inr guard_r_simps by blast
  show "sleep_payload_ok (node_payload n)" if "job_kind n = ''sleep''"
    using v that by (auto simp: validate_node_def validate_intrinsic_payload_def rbind_eq_Inr)
qed

lemma input_targets_named:
  assumes "validate_spec cv spec = Inr ()"
    and "\<And>k es. dict_get (in_outgoing inp) k = Some es \<Longrightarrow> set es \<subseteq> set (edges spec)"
  shows "targets_named inp"
proof -
  have "edge_target e \<noteq> []" if "e \<in> set (edges spec)" for e
  proof -
    have "edge_target e \<in> node_id ` set (nodes spec)"
      using validate_spec_facts(1) [OF assms(1)] that by (auto simp: well_formed_dag_def edges_ok_def)
    then obtain n where "n \<in> set (nodes spec)" "node_id n = edge_target e" by auto
    with validate_node_facts(1) [OF assms(1)] show ?thesis by metis
  qed
  with assms(2) show ?thesis unfolding targets_named_def by blast
qed

text \<open>Every node a plan queues renders against the outputs of the plan.\<close>

lemma queued_renders:
  assumes valid: "validate_spec cv spec = Inr ()" and run: "plan_workflow_step rt spec children now mr vars = Inr plan"
    and x: "x \<in> set (enqueue_node_ids plan)"
  obtains n where "n \<in> set (nodes spec)" "node_id n = x"
    "\<exists>p. interpolate_payload (rt_float_repr rt) (node_payload n) vars (output_context (node_states plan)) = Inr p"
    "job_kind n = ''branch'' \<Longrightarrow> \<exists>t. t \<noteq> [] \<and> dict_get (output_context (node_states plan)) x = Some [(''selected_target'', PStr t)]"
proof -
  obtain inp order a where r: "input_of spec inp" "upstream_first spec order" "plan_inv spec inp order a"
    and fin: "plan_workflow_step rt spec children now mr vars = finish_plan inp a"
    and loop: "fold_r (plan_node inp) empty_acc order = Inr a" and inp: "in_runtime inp = rt" "in_vars inp = vars"
    and out: "\<And>k es. dict_get (in_outgoing inp) k = Some es \<Longrightarrow> set es \<subseteq> set (edges spec)"
    by (rule plan_runs_full [OF valid]) blast
  note named = input_targets_named [OF valid out]
  have "plan_inv spec inp [] empty_acc" "all_render spec inp empty_acc"
    by (simp_all add: plan_inv_def empty_acc_def all_render_def routes_ok_def)
  from plan_loop_renders [OF r(1,2) named _ this loop] have all: "all_render spec inp a" by simp
  from finish_plan_cases [OF r] have "x \<in> set (acc_enqueue a) \<and> node_states plan = acc_states a"
    using x run fin by cases auto
  with all obtain n where "n \<in> set (nodes spec)" "node_id n = x" "renders inp (output_context (node_states plan)) n"
    by (auto simp: all_render_def)
  with inp show thesis by (intro that [of n]) (auto simp: renders_def)
qed

section \<open>The child job of a queued node\<close>

lemma interpolate_payload_int:
  assumes "interpolate_payload fr body vars outs = Inr p" and "dict_get body k = Some (PInt i)"
  shows "dict_get p k = Some (PInt i)"
proof -
  from assms(1) have "list_all2 (\<lambda>(k, v) y. rbind (interpolate_value fr vars outs v) (\<lambda>v'. Inr (k, v')) = Inr y) body p"
    by (simp add: interpolate_payload_def map_r_ok case_prod_unfold)
  then show ?thesis using assms(2)
    by (induction rule: list_all2_induct) (auto simp: rbind_eq_Inr split: if_splits)
qed

lemma supported_job_kinds: "k \<in> set SUPPORTED_WORKFLOW_NODE_KINDS_V1 \<Longrightarrow> k \<in> set JOB_KINDS"
  unfolding SUPPORTED_WORKFLOW_NODE_KINDS_V1_def JOB_KINDS_def by auto

lemma child_payload_total:
  assumes p: "interpolate_payload (rt_float_repr (we_runtime env)) (node_payload n) vars outs = Inr p"
    and branch: "job_kind n = ''branch'' \<Longrightarrow> \<exists>t. t \<noteq> [] \<and> dict_get outs (node_id n) = Some [(''selected_target'', PStr t)]"
  obtains body where "child_payload env fresh n vars outs = Inr body" "dict_get body ''workflow_node_id'' = Some (PStr (node_id n))"
    "job_kind n = ''sleep'' \<longrightarrow> dict_get body ''duration_seconds'' = dict_get p ''duration_seconds''"
proof -
  define p1 where "p1 = dict_set p ''workflow_node_id'' (PStr (node_id n))"
  obtain p2 where p2: "(if job_kind n = ''branch'' then rbind (branch_target n outs) (\<lambda>t. Inr (dict_set p1 ''selected_target'' (PStr t)))
      else Inr p1) = (Inr p2 :: (work_error, _) result)"
    and g2: "dict_get p2 ''workflow_node_id'' = Some (PStr (node_id n))"
    and s2: "job_kind n = ''sleep'' \<Longrightarrow> dict_get p2 ''duration_seconds'' = dict_get p ''duration_seconds''"
  proof (cases "job_kind n = ''branch''")
    case True
    with branch obtain t where "branch_target n outs = Inr t" by (auto simp: branch_target_def payload_optional_str_def)
    with True that show ?thesis by (simp add: p1_def)
  qed (use that in \<open>simp add: p1_def\<close>)
  define p3 where "p3 = (if job_kind n \<in> {''sql_query'', ''sql_explain''} \<and> payload_optional_str p2 ''result_set_id'' = None
      then dict_set p2 ''result_set_id'' (PStr (fresh (node_id n) 0)) else p2)"
  have g3: "dict_get p3 ''workflow_node_id'' = Some (PStr (node_id n))"
    and s3: "job_kind n = ''sleep'' \<Longrightarrow> dict_get p3 ''duration_seconds'' = dict_get p ''duration_seconds''"
    using g2 s2 by (simp_all add: p3_def)
  have "child_payload env fresh n vars outs = Inr (if job_kind n = ''compare_run''
      then dict_set (dict_set p3 ''run_id'' (PStr (fresh (node_id n) 2))) ''bucket_result_set_ids''
             (PDict (map (\<lambda>(k, b). (b, PStr (fresh (node_id n) k))) (enumerate 3 COMPARE_BUCKETS))) else p3)"
    unfolding child_payload_def p Let_def by (simp only: sum.case rbind_simps p2 [unfolded p1_def] p3_def)
  then show thesis by (rule that) (use g3 s3 in simp_all)
qed

lemma child_job_built:
  assumes valid: "validate_spec cv spec = Inr ()" and n: "n \<in> set (nodes spec)"
    and p: "interpolate_payload (rt_float_repr (we_runtime env)) (node_payload n) vars outs = Inr p"
    and branch: "job_kind n = ''branch'' \<Longrightarrow> \<exists>t. t \<noteq> [] \<and> dict_get outs (node_id n) = Some [(''selected_target'', PStr t)]"
  obtains c where "build_workflow_child_job env fresh run n vars outs now = Inr c" "jid c = fresh (node_id n) 0"
    "workflow_node_key c = Some (jid run, PStr (node_id n))" "priority c = priority run + 1" "kind c = job_kind n"
    "now \<le> available_at c" "job_kind n \<noteq> ''sleep'' \<longrightarrow> available_at c = now"
proof -
  obtain body where b: "child_payload env fresh n vars outs = Inr body" "dict_get body ''workflow_node_id'' = Some (PStr (node_id n))"
    and sl: "job_kind n = ''sleep'' \<longrightarrow> dict_get body ''duration_seconds'' = dict_get p ''duration_seconds''"
    by (rule child_payload_total [OF p branch, of fresh])
  have k: "job_kind n \<in> set JOB_KINDS" by (rule supported_job_kinds [OF validate_node_facts(2) [OF valid n]])
  obtain t where t: "(if job_kind n = ''sleep'' then rbind (payload_sleep_duration_seconds body) (\<lambda>d. Inr (now + d * 1000000)) else Inr now) =
      (Inr t :: (work_error, _) result)" "now \<le> t" "job_kind n \<noteq> ''sleep'' \<Longrightarrow> t = now"
  proof (cases "job_kind n = ''sleep''")
    case True
    with validate_node_facts(3) [OF valid n] obtain d where "dict_get (node_payload n) ''duration_seconds'' = Some (PInt d)" "1 \<le> d" "d \<le> 86400"
      by (auto simp: sleep_payload_ok_def split: option.splits pval.splits scalar.splits)
    with interpolate_payload_int [OF p] sl True have "payload_sleep_duration_seconds body = Inr d"
      by (simp add: payload_sleep_duration_seconds_def)
    with True \<open>1 \<le> d\<close> that [of "now + d * 1000000"] show ?thesis by simp
  qed (use that in simp)
  show thesis
    by (rule that [of "\<lparr>jid = fresh (node_id n) 0, kind = job_kind n, jstatus = Job_pending,
            owner_user_id = owner_user_id run, project_id = project_id run,
            datasource_ids = node_datasource_ids body, priority = priority run + 1, available_at = t,
            job_timeout_seconds = node_timeout_seconds n, resource_profile = resource_profile_json (node_timeout_seconds n),
            result_ref = None, audit_id = fresh (node_id n) 1, worker_id = None, last_heartbeat = None, started_at = None,
            finished_at = None, cancel_requested = False, cancel_reason = None, jerror = None, error_code = None,
            retry_count = 0, payload = body, parent_workflow_run_id = Some (jid run)\<rparr>"])
      (use k t b in \<open>simp_all add: build_workflow_child_job_def workflow_node_key_def json_text_def\<close>)
qed

text \<open>
  A step never fails half way: for a valid definition, every node the plan queues has a child job that
  can be built from the outputs of the plan. It belongs to the run, carries the node's key, and is
  claimed before the run because its priority is one higher.
\<close>

theorem queued_nodes_can_be_built:
  assumes "validate_spec cv spec = Inr ()"
    and "plan_workflow_step (we_runtime env) spec children now mr vars = Inr plan"
    and "x \<in> set (enqueue_node_ids plan)"
  shows "\<exists>n c. dict_get (nodes_by_id (nodes spec)) x = Some n \<and>
    build_workflow_child_job env fresh run n vars (output_context (node_states plan)) now = Inr c \<and>
    workflow_node_key c = Some (jid run, PStr x) \<and> kind c = job_kind n \<and> priority c = priority run + 1 \<and> now \<le> available_at c"
proof -
  obtain n where n: "n \<in> set (nodes spec)" "node_id n = x"
    and p: "\<exists>p. interpolate_payload (rt_float_repr (we_runtime env)) (node_payload n) vars (output_context (node_states plan)) = Inr p"
    and b: "job_kind n = ''branch'' \<Longrightarrow> \<exists>t. t \<noteq> [] \<and> dict_get (output_context (node_states plan)) x = Some [(''selected_target'', PStr t)]"
    by (rule queued_renders [OF assms]) blast
  have at: "dict_get (nodes_by_id (nodes spec)) x = Some n"
    using nodes_by_id_get [OF spec_graph(1) [OF validate_spec_facts(1) [OF assms(1)]]] n by blast
  from p obtain q where q: "interpolate_payload (rt_float_repr (we_runtime env)) (node_payload n) vars (output_context (node_states plan)) = Inr q" ..
  obtain c where "build_workflow_child_job env fresh run n vars (output_context (node_states plan)) now = Inr c"
    "workflow_node_key c = Some (jid run, PStr (node_id n))" "priority c = priority run + 1" "kind c = job_kind n" "now \<le> available_at c"
    by (rule child_job_built [OF assms(1) n(1) q b [folded n(2)]])
  with at n(2) show ?thesis by blast
qed

section \<open>Actions on the queue\<close>

definition job_ids :: "sched_state \<Rightarrow> string set" where
  "job_ids s = jid ` set (jobs (queue s))"

definition node_keys :: "sched_state \<Rightarrow> (string \<times> pval) option set" where
  "node_keys s = workflow_node_key ` set (jobs (queue s))"

definition runs_job :: "string \<Rightarrow> string \<Rightarrow> sched_state \<Rightarrow> bool" where
  "runs_job w j s \<longleftrightarrow> db_inv (queue s) \<and> (\<exists>r. find_job (queue s) j = Some r \<and> owned_by w r)"

text \<open>An action that returns, keeps the worker's hold on its own job, and forgets no job.\<close>

definition quiet_step :: "string \<Rightarrow> string \<Rightarrow> sched_state \<Rightarrow> sched_state \<Rightarrow> bool" where
  "quiet_step w j s s' \<longleftrightarrow> runs_job w j s' \<and> job_ids s \<subseteq> job_ids s' \<and> node_keys s \<subseteq> node_keys s' \<and>
     workflows s' = workflows s \<and> audits s' = audits s"

lemma quiet_refl: "runs_job w j s \<Longrightarrow> quiet_step w j s s"
  by (simp add: quiet_step_def)

lemma quiet_trans: "quiet_step w j s t \<Longrightarrow> quiet_step w j t u \<Longrightarrow> quiet_step w j s u"
  by (auto simp: quiet_step_def)

lemma quiet_runs: "quiet_step w j s s' \<Longrightarrow> runs_job w j s'"
  by (simp add: quiet_step_def)

lemma keeps_keys:
  assumes "db_keeps d d'"
  shows "jid ` set (jobs d) \<subseteq> jid ` set (jobs d')" "workflow_node_key ` set (jobs d) \<subseteq> workflow_node_key ` set (jobs d')"
proof -
  have "\<exists>r' \<in> set (jobs d'). jid r' = jid r \<and> workflow_node_key r' = workflow_node_key r" if "r \<in> set (jobs d)" for r
  proof -
    from assms that obtain r' where r': "r' \<in> set (jobs d')" "keeps r r'" by (auto simp: db_keeps_def)
    then have "workflow_node_key r' = workflow_node_key r" by (intro workflow_node_key_cong) (simp_all add: keeps_def)
    with r' show ?thesis by (auto simp: keeps_def)
  qed
  then show "jid ` set (jobs d) \<subseteq> jid ` set (jobs d')" "workflow_node_key ` set (jobs d) \<subseteq> workflow_node_key ` set (jobs d')"
    by (auto simp: image_iff) metis+
qed

lemma quiet_queue:
  assumes pre: "runs_job w j s" and run: "run_op p (queue s) = Inr q"
    and hold: "\<And>r. find_job (queue s) j = Some r \<Longrightarrow> owned_by w r \<Longrightarrow> \<exists>r'. find_job q j = Some r' \<and> owned_by w r'"
  shows "quiet_step w j s (s\<lparr>queue := q\<rparr>)"
proof -
  from pre have "db_inv (queue s)" by (simp add: runs_job_def)
  from run_op_good [OF this run] keeps_keys [of "queue s" q] pre hold show ?thesis
    by (auto simp: quiet_step_def runs_job_def job_ids_def node_keys_def)
qed

lemma update_one_hold:
  assumes "update_one now c cond upd ty m d = Inr q" and "same_id upd" and "find_job d j = Some r" "owned_by w r"
    and "\<And>x. cond x \<Longrightarrow> owned_by w x \<Longrightarrow> owned_by w (upd x)"
  shows "\<exists>r'. find_job q j = Some r' \<and> owned_by w r'"
proof -
  from update_one_cases [OF assms(2), of now c cond ty m d] assms(1)
  have "find_job q j = map_option (\<lambda>r. if jid r = c \<and> cond r then upd r else r) (find_job d j)" by auto
  with assms(3-5) show ?thesis by auto
qed

lemma update_one_total: "same_id upd \<Longrightarrow> \<exists>q. update_one now c cond upd ty m d = Inr q"
  using update_one_cases by blast

lemma queued_row_id [simp]: "jid (queued_row now c) = jid c"
  by (simp add: queued_row_def job.defs)

lemma find_appended: "find P xs = Some x \<Longrightarrow> find P (xs @ ys) = Some x"
  by (induction xs) (auto split: if_splits)

lemma enqueue_total: "enqueue now c d = Inl Integrity_error \<or> (\<exists>q. enqueue now c d = Inr q)"
  by (auto simp: enqueue_def write_event_def)

lemma find_job_enqueue:
  assumes "enqueue now c d = Inr q" and "find_job d j = Some r"
  shows "find_job q j = Some r"
  using assms by (simp add: find_job_def enqueue_jobs find_appended)

lemma enqueue_child_quiet:
  assumes pre: "runs_job w j s"
  shows "\<exists>s'. enqueue_child now c s = (Inr (), s') \<and> quiet_step w j s s' \<and> job_ids s' \<subseteq> insert (jid c) (job_ids s) \<and>
    (workflow_node_key c \<noteq> None \<longrightarrow> jid c \<notin> job_ids s \<longrightarrow> workflow_node_key c \<in> node_keys s')"
proof (cases "enqueue now c (queue s)")
  case (Inl e)
  with enqueue_total [of now c "queue s"] have e: "enqueue now c (queue s) = Inl Integrity_error" by auto
  then have "jid c \<in> job_ids s \<or> workflow_node_key c \<in> node_keys s"
    by (auto simp: enqueue_def write_event_def job_ids_def node_keys_def split: if_splits)
  with e show ?thesis by (auto simp: enqueue_child_def intro: quiet_refl [OF pre])
next
  case (Inr q)
  have "quiet_step w j s (s\<lparr>queue := q\<rparr>)"
    by (rule quiet_queue [OF pre, of "Enqueue now c"]) (use Inr find_job_enqueue [OF Inr] in auto)
  moreover have "workflow_node_key (queued_row now c) = workflow_node_key c"
    by (intro workflow_node_key_cong) (simp_all add: queued_row_def job.defs)
  then have "workflow_node_key c \<in> node_keys (s\<lparr>queue := q\<rparr>)" by (simp add: node_keys_def enqueue_jobs [OF Inr])
  moreover have "job_ids (s\<lparr>queue := q\<rparr>) \<subseteq> insert (jid c) (job_ids s)"
    by (simp add: job_ids_def enqueue_jobs [OF Inr])
  ultimately show ?thesis using Inr by (simp add: enqueue_child_def)
qed

lemma retry_quiet:
  assumes pre: "runs_job w j s"
  shows "\<exists>s'. w_queue (retry_workflow_node now c) s = (Inr (), s') \<and> quiet_step w j s s'"
proof -
  have "\<exists>q. retry_workflow_node now c (queue s) = Inr q"
    unfolding retry_workflow_node_def by (rule update_one_total) (simp add: same_id_def)
  then obtain q where q: "retry_workflow_node now c (queue s) = Inr q" ..
  have "quiet_step w j s (s\<lparr>queue := q\<rparr>)"
  proof (rule quiet_queue [OF pre, of "Retry_node now c"])
    fix r assume "find_job (queue s) j = Some r" "owned_by w r"
    then show "\<exists>r'. find_job q j = Some r' \<and> owned_by w r'"
      by (intro update_one_hold [OF q [unfolded retry_workflow_node_def]]) (auto simp: same_id_def owned_by_def)
  qed (use q in simp)
  with q show ?thesis by (auto simp: w_queue_def)
qed

lemma cancel_child_quiet:
  assumes pre: "runs_job w j s" and c: "c \<in> job_ids s"
  shows "\<exists>s'. cancel_child now reason c s = (Inr (), s') \<and> quiet_step w j s s'"
proof -
  let ?upd = "\<lambda>r. r\<lparr>cancel_requested := True, cancel_reason := Some ''requested''\<rparr> :: job_row"
  have id: "same_id ?upd" by (simp add: same_id_def)
  let ?d = "fst (update_jobs (\<lambda>r. jid r = c) ?upd (queue s))"
  have "jid ` set (jobs ?d) = job_ids s" using ids_update_jobs [OF id] by (metis job_ids_def set_map)
  with c obtain q where q: "write_event now c ''cancel_requested'' None ?d = Inr q" by (auto simp: write_event_def)
  have q1: "request_cancel now c (queue s) = Inr q" using q by (simp add: request_cancel_def)
  have s1: "quiet_step w j s (s\<lparr>queue := q\<rparr>)"
  proof (rule quiet_queue [OF pre, of "Request_cancel now c"])
    fix r assume "find_job (queue s) j = Some r" "owned_by w r"
    then show "\<exists>r'. find_job q j = Some r' \<and> owned_by w r'"
      using find_write_event [OF q, of j] find_update_jobs [OF id, of "\<lambda>r. jid r = c" "queue s" j] by (auto simp: owned_by_def)
  qed (use q1 in simp)
  have "\<exists>q'. cancel_pending_job now c reason q = Inr q'"
    unfolding cancel_pending_job_def by (rule update_one_total) (simp add: same_id_def cancel_row_def)
  then obtain q' where q2: "cancel_pending_job now c reason q = Inr q'" ..
  have "quiet_step w j (s\<lparr>queue := q\<rparr>) (s\<lparr>queue := q\<rparr>\<lparr>queue := q'\<rparr>)"
  proof (rule quiet_queue [OF quiet_runs [OF s1], of "Cancel_pending now c reason"])
    fix r assume "find_job (queue (s\<lparr>queue := q\<rparr>)) j = Some r" "owned_by w r"
    then show "\<exists>r'. find_job q' j = Some r' \<and> owned_by w r'"
      by (intro update_one_hold [OF q2 [unfolded cancel_pending_job_def]]) (auto simp: same_id_def owned_by_def cancel_row_def)
  qed (use q2 in simp)
  with q1 q2 quiet_trans [OF s1] show ?thesis by (auto simp: cancel_child_def w_bind_def w_queue_def)
qed

lemma w_each_quiet:
  assumes "\<And>s x. runs_job w j s \<Longrightarrow> x \<in> set xs \<Longrightarrow> P x s \<Longrightarrow> \<exists>s'. f x s = (Inr (), s') \<and> quiet_step w j s s'"
    and "\<And>s s' x. P x s \<Longrightarrow> quiet_step w j s s' \<Longrightarrow> P x s'"
    and "runs_job w j s" and "\<forall>x \<in> set xs. P x s"
  shows "\<exists>s'. w_each f xs s = (Inr (), s') \<and> quiet_step w j s s'"
  using assms
proof (induction xs arbitrary: s)
  case Nil
  then show ?case by (auto simp: w_return_def intro: quiet_refl)
next
  case (Cons x xs)
  from Cons.prems(1) [of s x] Cons.prems(3,4) obtain s1 where s1: "f x s = (Inr (), s1)" "quiet_step w j s s1" by auto
  have "\<exists>s'. w_each f xs s1 = (Inr (), s') \<and> quiet_step w j s1 s'"
    by (rule Cons.IH) (use Cons.prems(1,2,4) quiet_runs [OF s1(2)] s1(2) in \<open>auto 0 3\<close>)
  with s1 show ?case by (auto simp: w_bind_def intro: quiet_trans)
qed

section \<open>The children of a run\<close>

lemma set_insert_by_id: "set (insert_by_id r rs) = insert r (set rs)"
  by (induction rs) auto

lemma set_foldr_insert_by_id: "set (foldr insert_by_id rs []) = set rs"
  by (induction rs) (auto simp: set_insert_by_id)

lemma job_from_row_id: "jid (job_from_row r) = jid r"
  by (simp add: job_from_row_def job.defs Let_def split: option.splits)

lemma children_exist: "jid ` set (list_jobs_by_parent p d) \<subseteq> jid ` set (jobs d)"
  by (auto simp: list_jobs_by_parent_def set_foldr_insert_by_id job_from_row_id)

lemma dict_set_values: "snd ` set (dict_set d k v) \<subseteq> insert v (snd ` set d)"
  by (induction d) auto

lemma snapshot_ids:
  "child_job_id ` set (dict_values (workflow_children_snapshots children)) \<subseteq> jid ` set children"
proof -
  define f where "f snaps child = (case payload_optional_str (payload child) ''workflow_node_id'' of
       Some n \<Rightarrow> dict_set snaps n (child_snapshot child) | None \<Rightarrow> snaps)" for snaps and child :: job
  have step: "snd ` set (f snaps c) \<subseteq> insert (child_snapshot c) (snd ` set snaps)" for snaps c
  proof (cases "payload_optional_str (payload c) ''workflow_node_id''")
    case (Some n)
    then show ?thesis unfolding f_def by (simp only: option.case dict_set_values)
  qed (auto simp: f_def)
  have "snd ` set (foldl f snaps children) \<subseteq> snd ` set snaps \<union> child_snapshot ` set children" for snaps
  proof (induction children arbitrary: snaps)
    case (Cons c cs)
    from Cons [of "f snaps c"] step [of snaps c] have "snd ` set (foldl f (f snaps c) cs) \<subseteq>
        insert (child_snapshot c) (snd ` set snaps) \<union> child_snapshot ` set cs" by (rule order_trans [OF _ Un_mono [OF _ order_refl]])
    then show ?case by simp
  qed simp
  from this [of "[]"] show ?thesis
    unfolding workflow_children_snapshots_def f_def [abs_def, symmetric] by (auto simp: child_snapshot_def)
qed

lemma finish_plan_cancels:
  assumes "finish_plan inp a = Inr plan"
  shows "set (cancel_job_ids plan) \<subseteq> child_job_id ` set (dict_values (in_children inp))"
proof -
  from assms have "cancel_job_ids plan = [] \<or> cancel_job_ids plan =
      map child_job_id (filter (\<lambda>c. child_status c \<in> {Job_pending, Job_running}) (dict_values (in_children inp)))"
    unfolding finish_plan_def Let_def rbind_eq_Inr
    by (elim exE conjE) (auto split: option.splits list.splits if_splits)
  then show ?thesis by (elim disjE) auto
qed

lemma plan_cancels_children:
  assumes "validate_spec cv spec = Inr ()" and "plan_workflow_step rt spec children now mr vars = Inr plan"
  shows "set (cancel_job_ids plan) \<subseteq> child_job_id ` set (dict_values children)"
proof -
  obtain inp order a where r: "input_of spec inp" "upstream_first spec order" "plan_inv spec inp order a"
    and c: "in_children inp = children" and fin: "plan_workflow_step rt spec children now mr vars = finish_plan inp a"
    by (rule plan_runs [OF assms(1)])
  from finish_plan_cancels [of inp a plan] assms(2) fin c show ?thesis by simp
qed

lemma plan_exists:
  assumes "validate_spec cv spec = Inr ()"
  obtains plan where "plan_workflow_step rt spec children now mr vars = Inr plan"
    "run_status plan \<in> {None, Some Job_failed, Some Job_success}"
proof -
  obtain inp order a where r: "input_of spec inp" "upstream_first spec order" "plan_inv spec inp order a"
    and fin: "plan_workflow_step rt spec children now mr vars = finish_plan inp a"
    by (rule plan_runs [OF assms])
  from finish_plan_cases [OF r] show thesis using that fin by cases auto
qed

section \<open>A step of a run\<close>

lemma start_child_quiet:
  assumes valid: "validate_spec cv spec = Inr ()" and plan: "plan_workflow_step (we_runtime env) spec children now mr vars = Inr plan"
    and x: "x \<in> set (enqueue_node_ids plan)" and pre: "runs_job w j s"
  shows "\<exists>s'. start_child env fresh now run spec vars (output_context (node_states plan)) x s = (Inr (), s') \<and> quiet_step w j s s' \<and>
    job_ids s' \<subseteq> insert (fresh x 0) (job_ids s) \<and>
    (fresh x 0 \<notin> job_ids s \<or> Some (jid run, PStr x) \<in> node_keys s \<longrightarrow> Some (jid run, PStr x) \<in> node_keys s')"
proof -
  obtain n where n: "n \<in> set (nodes spec)" "node_id n = x"
    and p: "\<exists>p. interpolate_payload (rt_float_repr (we_runtime env)) (node_payload n) vars (output_context (node_states plan)) = Inr p"
    and b: "job_kind n = ''branch'' \<Longrightarrow> \<exists>t. t \<noteq> [] \<and> dict_get (output_context (node_states plan)) x = Some [(''selected_target'', PStr t)]"
    by (rule queued_renders [OF valid plan x]) blast
  have at: "dict_get (nodes_by_id (nodes spec)) x = Some n"
    using nodes_by_id_get [OF spec_graph(1) [OF validate_spec_facts(1) [OF valid]]] n by blast
  from p obtain q where q: "interpolate_payload (rt_float_repr (we_runtime env)) (node_payload n) vars (output_context (node_states plan)) = Inr q" ..
  obtain c where c: "build_workflow_child_job env fresh run n vars (output_context (node_states plan)) now = Inr c"
    "jid c = fresh x 0" "workflow_node_key c = Some (jid run, PStr x)"
    by (rule child_job_built [OF valid n(1) q b [folded n(2)], of fresh run now]) (simp_all add: n(2))
  have "start_child env fresh now run spec vars (output_context (node_states plan)) x s = enqueue_child now c s"
    by (simp add: start_child_def at c(1) w_bind_def w_lift_def)
  moreover from enqueue_child_quiet [OF pre, of now c] obtain s' where
    "enqueue_child now c s = (Inr (), s')" "quiet_step w j s s'" "job_ids s' \<subseteq> insert (jid c) (job_ids s)"
    "workflow_node_key c \<noteq> None \<longrightarrow> jid c \<notin> job_ids s \<longrightarrow> workflow_node_key c \<in> node_keys s'" by blast
  ultimately show ?thesis using c by (intro exI [of _ s']) (auto simp: quiet_step_def)
qed

lemma start_children:
  assumes valid: "validate_spec cv spec = Inr ()" and plan: "plan_workflow_step (we_runtime env) spec children now mr vars = Inr plan"
    and "set xs \<subseteq> set (enqueue_node_ids plan)" and "runs_job w j s"
  shows "\<exists>s'. w_each (start_child env fresh now run spec vars (output_context (node_states plan))) xs s = (Inr (), s') \<and> quiet_step w j s s' \<and>
    (inj (\<lambda>x. fresh x 0) \<and> (\<forall>x \<in> set xs. fresh x 0 \<notin> job_ids s \<or> Some (jid run, PStr x) \<in> node_keys s) \<longrightarrow>
     (\<forall>x \<in> set xs. Some (jid run, PStr x) \<in> node_keys s'))"
  using assms(3,4)
proof (induction xs arbitrary: s)
  case Nil
  then show ?case by (auto simp: w_return_def intro: quiet_refl)
next
  case (Cons x xs)
  from Cons.prems(1) have x: "x \<in> set (enqueue_node_ids plan)" by simp
  from start_child_quiet [OF valid plan x Cons.prems(2), of fresh run] obtain s1 where
    s1: "start_child env fresh now run spec vars (output_context (node_states plan)) x s = (Inr (), s1)" and q1: "quiet_step w j s s1"
    and ids: "job_ids s1 \<subseteq> insert (fresh x 0) (job_ids s)"
    and key: "fresh x 0 \<notin> job_ids s \<or> Some (jid run, PStr x) \<in> node_keys s \<Longrightarrow> Some (jid run, PStr x) \<in> node_keys s1" by blast
  from Cons.IH [OF _ quiet_runs [OF q1]] Cons.prems(1) obtain s' where
    s': "w_each (start_child env fresh now run spec vars (output_context (node_states plan))) xs s1 = (Inr (), s')" and q2: "quiet_step w j s1 s'"
    and keys: "inj (\<lambda>x. fresh x 0) \<and> (\<forall>x \<in> set xs. fresh x 0 \<notin> job_ids s1 \<or> Some (jid run, PStr x) \<in> node_keys s1) \<longrightarrow>
     (\<forall>x \<in> set xs. Some (jid run, PStr x) \<in> node_keys s')" by auto
  have sub: "node_keys s \<subseteq> node_keys s1" "node_keys s1 \<subseteq> node_keys s'" using q1 q2 by (simp_all add: quiet_step_def)
  have "\<forall>y \<in> set (x # xs). Some (jid run, PStr y) \<in> node_keys s'"
    if i: "inj (\<lambda>x. fresh x 0)" and all: "\<forall>y \<in> set (x # xs). fresh y 0 \<notin> job_ids s \<or> Some (jid run, PStr y) \<in> node_keys s"
  proof -
    from all key have kx: "Some (jid run, PStr x) \<in> node_keys s1" by simp
    have "fresh y 0 \<notin> job_ids s1 \<or> Some (jid run, PStr y) \<in> node_keys s1" if "y \<in> set xs" for y
    proof (cases "y = x")
      case False
      then have "fresh y 0 \<noteq> fresh x 0" using i by (auto dest: injD)
      with all that ids sub(1) show ?thesis by auto
    qed (use kx in simp)
    with keys i have "\<forall>y \<in> set xs. Some (jid run, PStr y) \<in> node_keys s'" by blast
    with kx sub(2) show ?thesis by auto
  qed
  with s1 s' quiet_trans [OF q1 q2] show ?case by (simp add: w_bind_def)
qed

lemma heartbeat_quiet:
  assumes pre: "runs_job w j s"
  shows "\<exists>s'. w_queue (\<lambda>d. Inr (heartbeat now i v d)) s = (Inr (), s') \<and> quiet_step w j s s'"
proof -
  have id: "same_id (\<lambda>r. r\<lparr>last_heartbeat := Some now\<rparr>)" by (simp add: same_id_def)
  have "quiet_step w j s (s\<lparr>queue := heartbeat now i v (queue s)\<rparr>)"
    by (rule quiet_queue [OF pre, of "Heartbeat now i v"])
      (auto simp: heartbeat_def find_update_jobs [OF id] owned_by_def)
  then show ?thesis by (simp add: w_queue_def)
qed

lemma requeue_run:
  assumes pre: "runs_job (we_id env) j s"
  shows "\<exists>s' r. w_queue (requeue_workflow_run (worker_backend env) now j t) s = (Inr (), s') \<and> db_inv (queue s') \<and>
    node_keys s \<subseteq> node_keys s' \<and> job_ids s \<subseteq> job_ids s' \<and>
    find_job (queue s') j = Some r \<and> jstatus r = Job_pending \<and> available_at r = (case t of Some x \<Rightarrow> x | None \<Rightarrow> now)"
proof -
  define upd where "upd = (\<lambda>r :: job_row. r\<lparr>jstatus := Job_pending, worker_id := None, started_at := None, last_heartbeat := None,
      available_at := (case t of Some x \<Rightarrow> x | None \<Rightarrow> now)\<rparr>)"
  have id: "same_id upd" by (simp add: same_id_def upd_def)
  let ?q = "fst (update_jobs (\<lambda>r. jid r = j \<and> owned_by (we_id env) r) upd (queue s))"
  have run: "requeue_workflow_run (worker_backend env) now j t (queue s) = Inr ?q"
    by (simp add: requeue_workflow_run_def with_worker_def worker_backend_def upd_def)
  from pre obtain r where r: "find_job (queue s) j = Some r" "owned_by (we_id env) r" and inv: "db_inv (queue s)"
    by (auto simp: runs_job_def)
  have "find_job ?q j = Some (upd r)" using r find_job_Some [OF r(1)] by (simp add: find_update_jobs [OF id])
  moreover have "run_op (Requeue_run (worker_backend env) now j t) (queue s) = Inr ?q" using run by simp
  note run_op_good [OF inv this]
  ultimately show ?thesis
    using run keeps_keys [of "queue s" ?q]
    by (intro exI [of _ "s\<lparr>queue := ?q\<rparr>"] exI [of _ "upd r"]) (simp add: w_queue_def node_keys_def job_ids_def upd_def)
qed

definition waits_in_queue :: "string \<Rightarrow> int \<Rightarrow> sched_state \<Rightarrow> bool" where
  "waits_in_queue j t s \<longleftrightarrow> db_inv (queue s) \<and> (\<exists>r. find_job (queue s) j = Some r \<and> jstatus r = Job_pending \<and> available_at r = t)"

lemma apply_plan_ok:
  assumes valid: "validate_spec cv spec = Inr ()" and plan: "plan_workflow_step (we_runtime env) spec children now mr vars = Inr plan"
    and kids: "child_job_id ` set (dict_values children) \<subseteq> job_ids s" and pre: "runs_job (we_id env) (jid j) s"
  shows "\<exists>res s'. apply_plan env fresh now j spec vars plan s = (res, s') \<and>
    (inj (\<lambda>x. fresh x 0) \<and> (\<forall>x. fresh x 0 \<notin> job_ids s) \<longrightarrow> (\<forall>x \<in> set (enqueue_node_ids plan). Some (jid j, PStr x) \<in> node_keys s')) \<and>
    (case run_status plan of
       None \<Rightarrow> res = Inr None \<and> waits_in_queue (jid j) (case next_available_at env now plan of Some t \<Rightarrow> t | None \<Rightarrow> now) s'
     | Some st \<Rightarrow> runs_job (we_id env) (jid j) s' \<and> (if st = Job_failed then (\<exists>t. res = Inl (Run_failed t)) else (\<exists>o1. res = Inr (Some o1))))"
proof -
  let ?w = "we_id env" and ?ctx = "output_context (node_states plan)"
  from start_children [OF valid plan order_refl pre, of fresh j] obtain s1 where
    s1: "w_each (start_child env fresh now j spec vars ?ctx) (enqueue_node_ids plan) s = (Inr (), s1)" and q1: "quiet_step ?w (jid j) s s1"
    and keys: "inj (\<lambda>x. fresh x 0) \<and> (\<forall>x. fresh x 0 \<notin> job_ids s) \<longrightarrow> (\<forall>x \<in> set (enqueue_node_ids plan). Some (jid j, PStr x) \<in> node_keys s1)"
    by blast
  have "\<exists>s2. w_each (\<lambda>c. w_queue (retry_workflow_node now c)) (retry_job_ids plan) s1 = (Inr (), s2) \<and> quiet_step ?w (jid j) s1 s2"
    by (rule w_each_quiet [where P = "\<lambda>_ _. True"]) (use retry_quiet quiet_runs [OF q1] in auto)
  then obtain s2 where s2: "w_each (\<lambda>c. w_queue (retry_workflow_node now c)) (retry_job_ids plan) s1 = (Inr (), s2)"
    and q2: "quiet_step ?w (jid j) s s2" and k2: "node_keys s1 \<subseteq> node_keys s2" using quiet_trans [OF q1] by (auto simp: quiet_step_def)
  have ids: "\<forall>c \<in> set (cancel_job_ids plan). c \<in> job_ids s2"
    using plan_cancels_children [OF valid plan] kids q2 unfolding quiet_step_def by blast
  have "\<exists>s3. w_each (cancel_child now ''workflow aborted'') (cancel_job_ids plan) s2 = (Inr (), s3) \<and> quiet_step ?w (jid j) s2 s3"
    by (rule w_each_quiet [where P = "\<lambda>c s. c \<in> job_ids s", OF _ _ quiet_runs [OF q2] ids])
      (rule cancel_child_quiet, assumption+, auto simp: quiet_step_def)
  then obtain s3 where s3: "w_each (cancel_child now ''workflow aborted'') (cancel_job_ids plan) s2 = (Inr (), s3)"
    and q3: "quiet_step ?w (jid j) s2 s3" by blast
  from k2 q3 have k3: "node_keys s1 \<subseteq> node_keys s3" by (auto simp: quiet_step_def)
  note run = apply_plan_def w_bind_def s1 s2 s3
  show ?thesis
  proof (cases "run_status plan")
    case (Some st)
    have "\<exists>res. apply_plan env fresh now j spec vars plan s = (res, s3) \<and>
        (if st = Job_failed then (\<exists>t. res = Inl (Run_failed t)) else (\<exists>o1. res = Inr (Some o1)))"
      using Some by (cases st) (simp_all add: run w_raise_def w_return_def)
    then obtain res where res: "apply_plan env fresh now j spec vars plan s = (res, s3)"
      "if st = Job_failed then (\<exists>t. res = Inl (Run_failed t)) else (\<exists>o1. res = Inr (Some o1))" by blast
    from keys k3 have "inj (\<lambda>x. fresh x 0) \<and> (\<forall>x. fresh x 0 \<notin> job_ids s) \<longrightarrow>
        (\<forall>x \<in> set (enqueue_node_ids plan). Some (jid j, PStr x) \<in> node_keys s3)" by blast
    with Some res quiet_runs [OF q3] show ?thesis by (intro exI [of _ res] exI [of _ s3] conjI) simp_all
  next
    case None
    from heartbeat_quiet [OF quiet_runs [OF q3], of now "jid j" ?w] obtain s4 where
      s4: "w_queue (\<lambda>d. Inr (heartbeat now (jid j) ?w d)) s3 = (Inr (), s4)" and q4: "quiet_step ?w (jid j) s3 s4" by blast
    from requeue_run [OF quiet_runs [OF q4], of now "next_available_at env now plan"] obtain s5 r where
      s5: "w_queue (requeue_workflow_run (worker_backend env) now (jid j) (next_available_at env now plan)) s4 = (Inr (), s5)"
      and q5: "db_inv (queue s5)" "node_keys s4 \<subseteq> node_keys s5" "find_job (queue s5) (jid j) = Some r" "jstatus r = Job_pending"
        "available_at r = (case next_available_at env now plan of Some x \<Rightarrow> x | None \<Rightarrow> now)" by blast
    have "apply_plan env fresh now j spec vars plan s = (Inr None, s5)"
      by (simp add: run None s4 s5 w_return_def)
    moreover have "node_keys s1 \<subseteq> node_keys s5" using k3 q4 q5(2) by (auto simp: quiet_step_def)
    ultimately show ?thesis using None keys q5 by (auto simp: waits_in_queue_def)
  qed
qed

lemma spec_from_payload_valid:
  "workflow_spec_from_payload env body = Inr spec \<Longrightarrow> validate_spec (croniter_is_valid (we_sched env)) spec = Inr ()"
  by (auto simp: workflow_spec_from_payload_def split: option.splits pval.splits sum.splits)

definition run_plan :: "worker_env \<Rightarrow> int \<Rightarrow> job \<Rightarrow> workflow_spec \<Rightarrow> sched_state \<Rightarrow> (exec_error, step_plan) result" where
  "run_plan env now j spec s = plan_workflow_step (we_runtime env) spec
     (workflow_children_snapshots (list_jobs_by_parent (jid j) (queue s))) now (we_max_retries env) (run_variables env now j)"

lemma run_step:
  assumes spec: "workflow_spec_from_payload env (payload j) = Inr spec" and pre: "runs_job (we_id env) (jid j) s"
    and go: "\<not> is_cancel_requested (jid j) (queue s)"
  obtains plan res s' where "run_plan env now j spec s = Inr plan" "execute_workflow_run env fresh now j s = (res, s')"
    "inj (\<lambda>x. fresh x 0) \<and> (\<forall>x. fresh x 0 \<notin> job_ids s) \<longrightarrow> (\<forall>x \<in> set (enqueue_node_ids plan). Some (jid j, PStr x) \<in> node_keys s')"
    "case run_status plan of
       None \<Rightarrow> res = Inr None \<and> waits_in_queue (jid j) (case next_available_at env now plan of Some t \<Rightarrow> t | None \<Rightarrow> now) s'
     | Some st \<Rightarrow> runs_job (we_id env) (jid j) s' \<and> (if st = Job_failed then (\<exists>t. res = Inl (Run_failed t)) else (\<exists>o1. res = Inr (Some o1)))"
proof -
  note valid = spec_from_payload_valid [OF spec]
  let ?kids = "list_jobs_by_parent (jid j) (queue s)"
  obtain plan where plan: "plan_workflow_step (we_runtime env) spec (workflow_children_snapshots ?kids) now (we_max_retries env)
      (run_variables env now j) = Inr plan" by (rule plan_exists [OF valid])
  have kids: "child_job_id ` set (dict_values (workflow_children_snapshots ?kids)) \<subseteq> job_ids s"
    using snapshot_ids [of ?kids] children_exist [of "jid j" "queue s"] unfolding job_ids_def by (rule order_trans)
  have "execute_workflow_run env fresh now j s = apply_plan env fresh now j spec (run_variables env now j) plan s"
    by (simp add: execute_workflow_run_def w_bind_def w_lift_def spec check_cancel_def go plan)
  moreover from apply_plan_ok [OF valid plan kids pre, of fresh] obtain res s' where
    r: "apply_plan env fresh now j spec (run_variables env now j) plan s = (res, s')"
    and post: "inj (\<lambda>x. fresh x 0) \<and> (\<forall>x. fresh x 0 \<notin> job_ids s) \<longrightarrow> (\<forall>x \<in> set (enqueue_node_ids plan). Some (jid j, PStr x) \<in> node_keys s')"
    "case run_status plan of
       None \<Rightarrow> res = Inr None \<and> waits_in_queue (jid j) (case next_available_at env now plan of Some t \<Rightarrow> t | None \<Rightarrow> now) s'
     | Some st \<Rightarrow> runs_job (we_id env) (jid j) s' \<and> (if st = Job_failed then (\<exists>t. res = Inl (Run_failed t)) else (\<exists>o1. res = Inr (Some o1)))"
    by blast
  ultimately show thesis using that [of plan res s'] plan by (simp add: run_plan_def)
qed


section \<open>Every claimed job is settled\<close>

definition keeps_job :: "string \<Rightarrow> string \<Rightarrow> 'a work \<Rightarrow> bool" where
  "keeps_job w j m \<longleftrightarrow> (\<forall>s. runs_job w j s \<longrightarrow> runs_job w j (snd (m s)))"

lemma keeps_job_lift: "keeps_job w j (w_lift r)" and keeps_job_return: "keeps_job w j (w_return x)"
  by (simp_all add: keeps_job_def w_lift_def w_return_def)

lemma keeps_job_bind: "keeps_job w j m \<Longrightarrow> (\<And>x. keeps_job w j (f x)) \<Longrightarrow> keeps_job w j (w_bind m f)"
  by (auto simp: keeps_job_def w_bind_def split: prod.splits sum.splits)

lemma keeps_job_check: "keeps_job w j (check_cancel i)"
  by (simp add: keeps_job_def check_cancel_def)

lemma keeps_job_heartbeat: "keeps_job w j (w_queue (\<lambda>d. Inr (heartbeat now i v d)))"
  unfolding keeps_job_def using heartbeat_quiet quiet_runs by (metis snd_conv)

lemma keeps_job_trigger: "keeps_job w j (w_trigger now v c run)"
  unfolding keeps_job_def
proof (intro allI impI)
  fix s assume pre: "runs_job w j s"
  show "runs_job w j (snd (w_trigger now v c run s))"
  proof (cases "claim_trigger_and_enqueue now v now c run s")
    case (Inl e)
    with pre show ?thesis by (cases e) (simp_all add: w_trigger_def)
  next
    case (Inr p)
    obtain b s' where p: "p = (b, s')" by (cases p)
    have "(if b then enqueue now run (queue s) = Inr (queue s') else queue s' = queue s)"
      using claim_trigger_cases [OF Inr [unfolded p]] by blast
    then have "runs_job w j s'"
    proof (cases b)
      case True
      with \<open>if b then _ else _\<close> have e: "enqueue now run (queue s) = Inr (queue s')" by simp
      from pre obtain r where r: "find_job (queue s) j = Some r" "owned_by w r" and inv: "db_inv (queue s)" by (auto simp: runs_job_def)
      from enqueue_good [OF inv e] find_job_enqueue [OF e r(1)] r(2) show ?thesis by (simp add: runs_job_def)
    qed (use pre in \<open>simp add: runs_job_def\<close>)
    with Inr p show ?thesis by (simp add: w_trigger_def)
  qed
qed

lemmas keeps_job_rules = keeps_job_bind keeps_job_lift keeps_job_return keeps_job_check keeps_job_heartbeat keeps_job_trigger

lemma keeps_job_sensor: "keeps_job w j (execute_sensor_check env ids now c)"
  unfolding execute_sensor_check_def Let_def by (intro keeps_job_rules) (auto intro!: keeps_job_rules)

lemma w_bind_some: "w_bind m (\<lambda>o1. w_return (Some o1)) s = (case m s of (Inl e, s') \<Rightarrow> (Inl e, s') | (Inr x, s') \<Rightarrow> (Inr (Some x), s'))"
  by (simp add: w_bind_def w_return_def split: prod.splits sum.splits)

definition job_outcome :: "string \<Rightarrow> job \<Rightarrow> (work_error, outcome option) result \<times> sched_state \<Rightarrow> bool" where
  "job_outcome w j r \<longleftrightarrow> (if fst r = Inr None then kind j = ''workflow_run'' \<and> (\<exists>t. waits_in_queue (jid j) t (snd r))
     else runs_job w (jid j) (snd r))"

lemma job_outcome_some:
  "keeps_job w (jid j) m \<Longrightarrow> runs_job w (jid j) s \<Longrightarrow> job_outcome w j (w_bind m (\<lambda>o1. w_return (Some o1)) s)"
  unfolding w_bind_some by (auto simp: job_outcome_def keeps_job_def split: prod.splits sum.splits)

lemma workflow_run_outcome:
  assumes k: "kind j = ''workflow_run''" and pre: "runs_job (we_id env) (jid j) s"
  shows "job_outcome (we_id env) j (execute_workflow_run env fresh now j s)"
proof (cases "workflow_spec_from_payload env (payload j)")
  case (Inl e)
  with pre show ?thesis by (simp add: execute_workflow_run_def w_bind_def w_lift_def job_outcome_def)
next
  case (Inr spec)
  show ?thesis
  proof (cases "is_cancel_requested (jid j) (queue s)")
    case True
    with pre Inr show ?thesis by (simp add: execute_workflow_run_def w_bind_def w_lift_def check_cancel_def job_outcome_def)
  next
    case False
    show ?thesis
    proof (rule run_step [OF Inr pre False, of now fresh])
      fix plan res s'
      assume run: "execute_workflow_run env fresh now j s = (res, s')"
        and post: "case run_status plan of
          None \<Rightarrow> res = Inr None \<and> waits_in_queue (jid j) (case next_available_at env now plan of Some t \<Rightarrow> t | None \<Rightarrow> now) s'
        | Some st \<Rightarrow> runs_job (we_id env) (jid j) s' \<and> (if st = Job_failed then (\<exists>t. res = Inl (Run_failed t)) else (\<exists>o1. res = Inr (Some o1)))"
      from post show ?thesis unfolding run job_outcome_def fst_conv snd_conv
        by (cases "run_status plan") (auto simp: k split: if_splits)
    qed
  qed
qed

lemma execute_kind_outcome:
  assumes pre: "runs_job (we_id env) (jid j) s"
  shows "job_outcome (we_id env) j (execute_kind env fresh now j s)"
proof -
  note some = job_outcome_some [OF _ pre]
  consider "kind j \<in> set EXTERNAL_KINDS" | "kind j \<notin> set EXTERNAL_KINDS" "kind j = ''workflow_run''"
    | "kind j \<notin> set EXTERNAL_KINDS" "kind j \<noteq> ''workflow_run''" by blast
  then show ?thesis
  proof cases
    case 1
    then show ?thesis unfolding execute_kind_def Let_def by (simp only: if_True) (intro some keeps_job_lift)
  next
    case 2
    then show ?thesis unfolding execute_kind_def Let_def
      by (simp only: if_False if_True refl) (rule workflow_run_outcome [OF 2(2) pre])
  next
    case 3
    have n: "keeps_job (we_id env) (jid j) (\<lambda>s. (execute_notify env j s, s))" by (simp add: keeps_job_def)
    from 3 show ?thesis unfolding execute_kind_def Let_def
      by (auto simp only: if_False if_True split: if_split intro!: some keeps_job_lift n keeps_job_sensor)
        (simp add: job_outcome_def w_raise_def pre)
  qed
qed

lemma owned_update_settles:
  assumes pre: "runs_job w j s" and id: "same_id upd"
    and op: "\<And>d. run_op p d = update_one now j (owned_by w) upd ty m d"
  shows "\<exists>q r. run_op p (queue s) = Inr q \<and> db_inv q \<and> find_job q j = Some (upd r)"
proof -
  from pre obtain r where r: "find_job (queue s) j = Some r" "owned_by w r" and inv: "db_inv (queue s)" by (auto simp: runs_job_def)
  from update_one_cases [OF id, of now j "owned_by w" ty m "queue s"] obtain q where
    q: "update_one now j (owned_by w) upd ty m (queue s) = Inr q"
    "find_job q j = map_option (\<lambda>r. if jid r = j \<and> owned_by w r then upd r else r) (find_job (queue s) j)" by blast
  have "run_op p (queue s) = Inr q" using q(1) by (simp only: op)
  with run_op_good [OF inv this] q(2) r find_job_Some [OF r(1)] show ?thesis by auto
qed

definition settled_as :: "string \<Rightarrow> job_status \<Rightarrow> sched_state \<Rightarrow> bool" where
  "settled_as j st s \<longleftrightarrow> db_inv (queue s) \<and> (\<exists>r. find_job (queue s) j = Some r \<and> jstatus r = st \<and> finished_at r \<noteq> None)"

lemma complete_settles:
  assumes "runs_job (we_id env) j s"
  shows "\<exists>s'. w_queue (complete (worker_backend env) now j ref) s = (Inr (), s') \<and> settled_as j Job_success s'"
  using owned_update_settles [OF assms, where p = "Complete (worker_backend env) now j ref" and now = now and ty = "''completed''" and m = None
      and upd = "\<lambda>r. r\<lparr>jstatus := Job_success, result_ref := Some ref, finished_at := Some now, jerror := None\<rparr>"]
  by (fastforce simp: complete_def with_worker_def worker_backend_def same_id_def w_queue_def settled_as_def)

lemma mark_cancelled_settles:
  assumes "runs_job (we_id env) j s"
  shows "\<exists>s'. w_queue (mark_cancelled (worker_backend env) now j reason) s = (Inr (), s') \<and> settled_as j Job_cancelled s'"
  using owned_update_settles [OF assms, where p = "Mark_cancelled (worker_backend env) now j reason" and now = now and ty = "''cancelled''"
      and m = "Some reason" and upd = "cancel_row now reason"]
  by (fastforce simp: mark_cancelled_def with_worker_def worker_backend_def same_id_def w_queue_def settled_as_def cancel_row_def)

lemma fail_settles:
  assumes "runs_job (we_id env) j s"
  shows "\<exists>s'. w_queue (fail (worker_backend env) now j err) s = (Inr (), s') \<and> settled_as j Job_failed s'"
  using owned_update_settles [OF assms, where p = "Fail (worker_backend env) now j err" and now = now and ty = "''failed''"
      and m = "Some err" and upd = "\<lambda>r. r\<lparr>jstatus := Job_failed, jerror := Some err, finished_at := Some now\<rparr>"]
  by (fastforce simp: fail_def with_worker_def worker_backend_def same_id_def w_queue_def settled_as_def)

lemma error_code_settled:
  assumes "settled_as j Job_failed s"
  shows "settled_as j Job_failed (s\<lparr>queue := set_error_code i code (queue s)\<rparr>)"
proof -
  let ?upd = "\<lambda>r. r\<lparr>error_code := Some code\<rparr> :: job_row"
  have id: "same_id ?upd" by (simp add: same_id_def)
  from assms obtain r where r: "find_job (queue s) j = Some r" "jstatus r = Job_failed" "finished_at r \<noteq> None" and inv: "db_inv (queue s)"
    by (auto simp: settled_as_def)
  have "good_update (queue s) (\<lambda>r. jid r = i \<and> jstatus r = Job_failed) ?upd" by (auto simp: row_simps split: job_status.splits)
  from update_jobs_good [OF inv this] r show ?thesis
    by (auto simp: settled_as_def set_error_code_def find_update_jobs [OF id])
qed

lemma cancel_children_quiet:
  assumes pre: "runs_job w j s"
  shows "\<exists>s'. cancel_workflow_children now run s = (Inr (), s') \<and> quiet_step w j s s'"
proof -
  let ?f = "\<lambda>c. if jstatus c \<in> {Job_pending, Job_running} then cancel_child now ''workflow run cancelled'' (jid c) else w_return ()"
  have "\<exists>s'. w_each ?f (list_jobs_by_parent run (queue s)) s = (Inr (), s') \<and> quiet_step w j s s'"
  proof (rule w_each_quiet [where P = "\<lambda>c s. jid c \<in> job_ids s", OF _ _ pre])
    fix s :: sched_state and c :: job assume "runs_job w j s" "jid c \<in> job_ids s"
    with cancel_child_quiet show "\<exists>s'. ?f c s = (Inr (), s') \<and> quiet_step w j s s'" by (auto simp: w_return_def intro: quiet_refl)
  qed (use children_exist [of run "queue s"] in \<open>auto simp: quiet_step_def job_ids_def\<close>)
  then show ?thesis by (simp add: cancel_workflow_children_def w_bind_def)
qed

text \<open>
  C7. Whatever kind a claimed job has and whatever its executor raises, the worker ends by settling
  it as succeeded, failed or cancelled; only a run that is not finished goes back to waiting. A job is
  never left running.
\<close>

theorem claimed_job_settles:
  assumes "runs_job (we_id env) (jid j) s"
  shows "\<exists>s'. execute_claimed_job env fresh now j s = (Inr (), s') \<and>
    ((\<exists>st \<in> {Job_success, Job_failed, Job_cancelled}. settled_as (jid j) st s') \<or>
     kind j = ''workflow_run'' \<and> (\<exists>t. waits_in_queue (jid j) t s'))"
proof -
  define body where "body = w_bind (check_cancel (jid j)) (\<lambda>_. execute_kind env fresh now j) s"
  obtain res s1 where b: "body = (res, s1)" by (cases body)
  have out: "job_outcome (we_id env) j (res, s1)"
    using execute_kind_outcome [OF assms, of fresh now] assms b
    by (auto simp: body_def w_bind_def check_cancel_def job_outcome_def split: if_splits)
  note run = execute_claimed_job_def body_def [symmetric] b prod.case
  show ?thesis
  proof (cases "res = Inr None")
    case True
    with out show ?thesis by (auto simp: run job_outcome_def)
  next
    case False
    with out have s1: "runs_job (we_id env) (jid j) s1" by (simp add: job_outcome_def)
    show ?thesis
    proof (cases res)
      case (Inr o1)
      with False obtain x where "res = Inr (Some x)" by (cases o1) auto
      with complete_settles [OF s1, of now "workflow_sql_result_ref j x"] show ?thesis by (auto simp: run)
    next
      case (Inl e)
      show ?thesis
      proof (cases "e = Cancel_requested")
        case True
        have "\<exists>s2. (if kind j = ''workflow_run'' then cancel_workflow_children now (jid j) else w_return ()) s1 = (Inr (), s2) \<and>
            runs_job (we_id env) (jid j) s2"
          using cancel_children_quiet [OF s1, of now "jid j"] s1 quiet_runs by (auto simp: w_return_def)
        then obtain s2 where s2: "(if kind j = ''workflow_run'' then cancel_workflow_children now (jid j) else w_return ()) s1 = (Inr (), s2)"
          "runs_job (we_id env) (jid j) s2" by blast
        have "execute_claimed_job env fresh now j s = w_bind
            (if kind j = ''workflow_run'' then cancel_workflow_children now (jid j) else w_return ())
            (\<lambda>_. w_queue (mark_cancelled (worker_backend env) now (jid j) ''cancel requested'')) s1"
          using True Inl by (simp add: run)
        also have "\<dots> = w_queue (mark_cancelled (worker_backend env) now (jid j) ''cancel requested'') s2"
          by (simp only: w_bind_def s2(1) prod.case sum.case)
        finally show ?thesis using mark_cancelled_settles [OF s2(2), of now "''cancel requested''"] by auto
      next
        case other: False
        from fail_settles [OF s1, of now "public_error_message env e (kind j)"] obtain s2 where
          s2: "w_queue (fail (worker_backend env) now (jid j) (public_error_message env e (kind j))) s1 = (Inr (), s2)"
          "settled_as (jid j) Job_failed s2" by blast
        let ?code = "\<lambda>d. set_error_code (jid j) (job_error_code env e (kind j)) d"
        have "execute_claimed_job env fresh now j s = w_bind (w_queue (fail (worker_backend env) now (jid j)
            (public_error_message env e (kind j)))) (\<lambda>_. w_queue (\<lambda>d. Inr (?code d))) s1"
          using other Inl by (cases e) (simp_all add: run)
        also have "\<dots> = (Inr (), s2\<lparr>queue := ?code (queue s2)\<rparr>)"
          by (simp only: w_bind_def s2(1) prod.case sum.case) (simp add: w_queue_def)
        finally have "execute_claimed_job env fresh now j s = (Inr (), s2\<lparr>queue := ?code (queue s2)\<rparr>)" .
        with error_code_settled [OF s2(2)] show ?thesis by auto
      qed
    qed
  qed
qed

section \<open>A worker at work\<close>

definition demo_worker :: worker_env where
  "demo_worker = \<lparr>we_id = ''w1'', we_advance_interval = 1, we_max_retries = 0, we_heartbeat_timeout = 600,
     we_runtime = demo_runtime, we_sched = demo_env, parse_spec = (\<lambda>_. Some demo_spec), failure_text = (\<lambda>_. ''node failed''),
     node_error_text = (\<lambda>_. ''error''), fault_text = (\<lambda>_. (''KeyError'', [])), validate_readonly_sql = Inr,
     allow_select = (\<lambda>_. Inr True), select_rows = (\<lambda>_ _. Inr [[SInt 1]]), notify_enabled = True,
     deliver = (\<lambda>_ ts _. Some (map (\<lambda>_. True) ts)), other_executor = (\<lambda>_. Inl (Library_error ''OperationalError'' ''lost connection''))\<rparr>"

definition demo_fresh :: "string \<Rightarrow> nat \<Rightarrow> string" where
  "demo_fresh n k = CHR ''c'' # n @ replicate k CHR ''+''"

definition demo_run_job :: job where
  "demo_run_job = (demo_run\<lparr>jid := ''run'', jstatus := Job_running, payload := [(''spec'', PDict []), (''workflow_id'', PStr ''w'')]\<rparr>)"

text \<open>A queue that holds the run and one query, both claimed by the worker.\<close>

definition claimed_row :: "job \<Rightarrow> job_row" where
  "claimed_row j = (queued_row 1 j)\<lparr>jstatus := Job_running, worker_id := Some ''w1'', started_at := Some 10, last_heartbeat := Some 10\<rparr>"

definition demo_world :: sched_state where
  "demo_world = demo_state\<lparr>queue := \<lparr>jobs = [claimed_row demo_run_job, claimed_row (demo_job ''q'' ''sql_query'' 0)], job_events = []\<rparr>\<rparr>"

lemmas demo_world_simps = demo_world_def claimed_row_def queued_row_def job.defs demo_run_job_def demo_run_def
  build_workflow_run_job_def new_job_def demo_job_def find_job_def Let_def

lemma demo_world_runs: "runs_job ''w1'' ''run'' demo_world" "runs_job ''w1'' ''q'' demo_world"
  by (simp_all add: runs_job_def demo_world_simps db_inv_def row_ok_def owned_by_def)

lemma demo_world_children: "list_jobs_by_parent ''run'' (queue demo_world) = []"
  by (simp add: list_jobs_by_parent_def demo_world_simps)

theorem queued_nodes_can_be_built_witness:
  "\<exists>plan c n. plan_workflow_step demo_runtime demo_spec [] 0 0 [] = Inr plan \<and> enqueue_node_ids plan = [''extract''] \<and>
     build_workflow_child_job demo_worker demo_fresh demo_run_job n [] (output_context (node_states plan)) 0 = Inr c \<and>
     workflow_node_key c = Some (''run'', PStr ''extract'')"
proof -
  have run: "(case plan_workflow_step demo_runtime demo_spec [] 0 0 [] of Inr p \<Rightarrow> enqueue_node_ids p = [''extract''] | _ \<Rightarrow> False)" by code_simp
  then obtain plan where p: "plan_workflow_step demo_runtime demo_spec [] 0 0 [] = Inr plan" "enqueue_node_ids plan = [''extract'']"
    by (auto split: sum.splits)
  have rt: "we_runtime demo_worker = demo_runtime" by (simp add: demo_worker_def)
  have x: "''extract'' \<in> set (enqueue_node_ids plan)" by (simp add: p(2))
  have "jid demo_run_job = ''run''" by (simp add: demo_run_job_def)
  with queued_nodes_can_be_built [OF demo_valid p(1) [folded rt] x, of demo_fresh demo_run_job] p show ?thesis by auto
qed


theorem claimed_job_settles_witness:
  "\<exists>s' r. execute_claimed_job demo_worker demo_fresh 50 (demo_job ''q'' ''sql_query'' 0) demo_world = (Inr (), s') \<and>
     find_job (queue s') ''q'' = Some r \<and> jstatus r \<in> {Job_success, Job_failed, Job_cancelled}"
proof -
  have "runs_job (we_id demo_worker) (jid (demo_job ''q'' ''sql_query'' 0)) demo_world"
    using demo_world_runs(2) by (simp add: demo_worker_def demo_job_def)
  from claimed_job_settles [OF this, of demo_fresh 50] show ?thesis by (fastforce simp: settled_as_def demo_job_def)
qed

end
