(* ===== verification/Compare_Value.thy ===== *)
theory Compare_Value
  imports Py_Value
begin

text \<open>
  The values that database drivers return to the comparison: the scalars of \<open>Py_Value\<close>, decimals, dates and times,
  and any other object, of which only its text and its truth value are used. A decimal is a sign, a
  coefficient and an exponent, as in Python's \<open>decimal\<close> module; its default context keeps 28 digits.

  The conversion of integers and decimals to binary floats and the text of a float are arguments.
  Python identifies a NaN only with the same object; the model identifies NaNs as dictionary keys.
\<close>

section \<open>Decimals\<close>

datatype decimal = Dec bool nat int | DecInf bool | DecNan bool bool string

text \<open>\<open>DecNan signal negative payload\<close>.\<close>

definition sign_str :: "bool \<Rightarrow> string" where
  "sign_str neg = (if neg then ''-'' else [])"

fun dec_num :: "decimal \<Rightarrow> xnum" where
  "dec_num (Dec neg c e) = XRat ((if neg then -1 else 1) * of_nat c * (if 0 \<le> e then 10 ^ nat e else 1 / 10 ^ nat (- e)))"
| "dec_num (DecInf neg) = (if neg then XNegInf else XInf)"
| "dec_num (DecNan _ _ _) = XNan"

text \<open>The decimal value of a text of digits.\<close>

definition digits_nat :: "string \<Rightarrow> nat" where
  "digits_nat s = foldl (\<lambda>n c. 10 * n + (of_char c - 48)) 0 s"

text \<open>\<open>s.lower()\<close> on the first 256 code points.\<close>

definition py_lower :: "string \<Rightarrow> string" where
  "py_lower s = map (\<lambda>c. let n = (of_char c :: nat) in
     if (65 \<le> n \<and> n \<le> 90) \<or> (192 \<le> n \<and> n \<le> 222 \<and> n \<noteq> 215) then char_of (n + 32) else c) s"

definition sign_split :: "string \<Rightarrow> bool \<times> string" where
  "sign_split s = (case s of c # r \<Rightarrow> if c = CHR ''-'' then (True, r) else if c = CHR ''+'' then (False, r) else (False, s)
     | [] \<Rightarrow> (False, []))"

definition parse_exponent :: "string \<Rightarrow> int option" where
  "parse_exponent s = (case sign_split s of (neg, ds) \<Rightarrow>
     if ds \<noteq> [] \<and> list_all is_digit ds then Some (if neg then - int (digits_nat ds) else int (digits_nat ds)) else None)"

definition parse_finite :: "bool \<Rightarrow> string \<Rightarrow> decimal option" where
  "parse_finite neg t =
     (let ip = takeWhile is_digit t; r = dropWhile is_digit t;
          fp = (case r of c # r' \<Rightarrow> if c = CHR ''.'' then takeWhile is_digit r' else [] | [] \<Rightarrow> []);
          r2 = (case r of c # r' \<Rightarrow> if c = CHR ''.'' then dropWhile is_digit r' else r | [] \<Rightarrow> []);
          dec = (\<lambda>e. Dec neg (digits_nat (ip @ fp)) (e - int (length fp)))
      in if ip = [] \<and> fp = [] then None
         else (case r2 of [] \<Rightarrow> Some (dec 0)
               | c # r3 \<Rightarrow> if c = CHR ''e'' \<or> c = CHR ''E'' then map_option dec (parse_exponent r3) else None))"

definition parse_nan :: "bool \<Rightarrow> string \<Rightarrow> decimal option" where
  "parse_nan neg t =
     (if starts_with ''snan'' t \<and> list_all is_digit (drop 4 t) then Some (DecNan True neg (dropWhile (\<lambda>c. c = CHR ''0'') (drop 4 t)))
      else if starts_with ''nan'' t \<and> list_all is_digit (drop 3 t) then Some (DecNan False neg (dropWhile (\<lambda>c. c = CHR ''0'') (drop 3 t)))
      else None)"

text \<open>\<open>Decimal(text)\<close>; \<open>None\<close> is \<open>InvalidOperation\<close>.\<close>

definition parse_decimal :: "string \<Rightarrow> decimal option" where
  "parse_decimal s =
     (case sign_split (filter (\<lambda>c. c \<noteq> CHR ''_'') (strip s)) of (neg, t) \<Rightarrow>
        if py_lower t = ''inf'' \<or> py_lower t = ''infinity'' then Some (DecInf neg)
        else case parse_nan neg (py_lower t) of Some d \<Rightarrow> Some d | None \<Rightarrow> parse_finite neg t)"

text \<open>\<open>str(decimal)\<close>: plain notation unless the exponent is positive or the number is very small.\<close>

definition dec_str :: "decimal \<Rightarrow> string" where
  "dec_str d = (case d of
       DecInf neg \<Rightarrow> sign_str neg @ ''Infinity''
     | DecNan sig neg p \<Rightarrow> sign_str neg @ (if sig then ''sNaN'' else ''NaN'') @ p
     | Dec neg c e \<Rightarrow>
         (let ds = nat_str c; left = int (length ds) + e;
              dot = (if e \<le> 0 \<and> left > -6 then left else 1);
              body = (if dot \<le> 0 then ''0.'' @ replicate (nat (- dot)) (CHR ''0'') @ ds
                      else if dot \<ge> int (length ds) then ds @ replicate (nat (dot - int (length ds))) (CHR ''0'')
                      else take (nat dot) ds @ ''.'' @ drop (nat dot) ds);
              exp = (if left = dot then [] else ''E'' @ (if left - dot \<ge> 0 then ''+'' else []) @ int_str (left - dot))
          in sign_str neg @ body @ exp))"

text \<open>\<open>d.quantize(Decimal(1).scaleb(-scale), rounding=ROUND_HALF_UP)\<close>, as the coefficient at that scale.\<close>

definition half_up :: "nat \<Rightarrow> nat \<Rightarrow> nat" where
  "half_up c p = c div p + (if p \<le> 2 * (c mod p) then 1 else 0)"

definition quantized :: "nat \<Rightarrow> nat \<Rightarrow> int \<Rightarrow> nat" where
  "quantized scale c e = (let shift = e + int scale in
     if 0 \<le> shift then c * 10 ^ nat shift else half_up c (10 ^ nat (- shift)))"

text \<open>\<open>f"{d:.{scale}f}"\<close> of a decimal with that exponent.\<close>

definition pad_zeros :: "nat \<Rightarrow> string \<Rightarrow> string" where
  "pad_zeros n s = replicate (n - length s) (CHR ''0'') @ s"

definition fixed_str :: "bool \<Rightarrow> nat \<Rightarrow> nat \<Rightarrow> string" where
  "fixed_str neg c scale = sign_str neg @ nat_str (c div 10 ^ scale) @
     (if scale = 0 then [] else ''.'' @ pad_zeros scale (nat_str (c mod 10 ^ scale)))"

section \<open>Driver values\<close>

datatype db_value =
    Py scalar
  | DDecimal decimal
  | DDate int nat nat
  | DTime nat nat nat nat
  | DDatetime int nat nat nat nat nat nat
  | DOther string bool

record float_env =
  int_float :: "int \<Rightarrow> pyfloat option"
  dec_float :: "decimal \<Rightarrow> pyfloat option"
  float_text :: "pyfloat \<Rightarrow> string"

definition two :: "nat \<Rightarrow> string" where
  "two n = pad_zeros 2 (nat_str n)"

definition iso_date :: "int \<Rightarrow> nat \<Rightarrow> nat \<Rightarrow> string" where
  "iso_date y m d = pad_zeros 4 (int_str y) @ ''-'' @ two m @ ''-'' @ two d"

definition hms :: "nat \<Rightarrow> nat \<Rightarrow> nat \<Rightarrow> string" where
  "hms h m s = two h @ '':'' @ two m @ '':'' @ two s"

definition micro_str :: "nat \<Rightarrow> string" where
  "micro_str us = (if us = 0 then [] else ''.'' @ pad_zeros 6 (nat_str us))"

definition value_str :: "float_env \<Rightarrow> db_value \<Rightarrow> string" where
  "value_str env v = (case v of
       Py s \<Rightarrow> scalar_str (float_text env) s
     | DDecimal d \<Rightarrow> dec_str d
     | DDate y m d \<Rightarrow> iso_date y m d
     | DTime h m s us \<Rightarrow> hms h m s @ micro_str us
     | DDatetime y mo d h m s us \<Rightarrow> iso_date y mo d @ '' '' @ hms h m s @ micro_str us
     | DOther t _ \<Rightarrow> t)"

definition value_truthy :: "db_value \<Rightarrow> bool" where
  "value_truthy v = (case v of Py s \<Rightarrow> truthy s | DDecimal d \<Rightarrow> dec_num d \<noteq> XRat 0 | DOther _ b \<Rightarrow> b | _ \<Rightarrow> True)"

definition value_num :: "db_value \<Rightarrow> xnum option" where
  "value_num v = (case v of Py s \<Rightarrow> scalar_num s | DDecimal d \<Rightarrow> Some (dec_num d) | _ \<Rightarrow> None)"

definition value_eq :: "db_value \<Rightarrow> db_value \<Rightarrow> bool" where
  "value_eq v w = (case (value_num v, value_num w) of
       (Some x, Some y) \<Rightarrow> xnum_eq x y | (None, None) \<Rightarrow> v = w | _ \<Rightarrow> False)"

text \<open>\<open>int(text)\<close>; \<open>None\<close> is \<open>ValueError\<close>. Single underscores may stand between digits.\<close>

fun digits_ok :: "bool \<Rightarrow> string \<Rightarrow> bool" where
  "digits_ok after_digit [] = after_digit"
| "digits_ok after_digit (c # cs) =
     (if is_digit c then digits_ok True cs else c = CHR ''_'' \<and> after_digit \<and> digits_ok False cs)"

definition int_of_str :: "string \<Rightarrow> int option" where
  "int_of_str s = (case sign_split (strip s) of (neg, ds) \<Rightarrow>
     if digits_ok False ds then Some ((if neg then -1 else 1) * int (digits_nat (filter is_digit ds))) else None)"

section \<open>Facts\<close>

lemma pad_zeros_length: "length (pad_zeros n s) = max n (length s)"
  by (simp add: pad_zeros_def)

lemma digits_nat_snoc: "digits_nat (s @ [c]) = 10 * digits_nat s + (of_char c - 48)"
  by (simp add: digits_nat_def)

lemma digits_nat_nat_str [simp]: "digits_nat (nat_str n) = n"
proof (induction n rule: nat_str.induct)
  case (1 n)
  show ?case
  proof (cases "n < 10")
    case True
    then show ?thesis by (simp add: nat_str.simps [of n] digits_nat_def digit_char_def)
  next
    case False
    with 1 show ?thesis by (subst nat_str.simps) (simp add: digits_nat_snoc digit_char_def)
  qed
qed

lemma digits_nat_append: "digits_nat (s @ t) = digits_nat s * 10 ^ length t + digits_nat t"
proof (induction t rule: rev_induct)
  case (snoc c t)
  have "digits_nat (s @ t @ [c]) = 10 * digits_nat (s @ t) + (of_char c - 48)"
    using digits_nat_snoc [of "s @ t" c] by simp
  with snoc show ?case by (simp add: digits_nat_snoc algebra_simps)
qed (simp add: digits_nat_def)

lemma digits_nat_zeros: "digits_nat (replicate n (CHR ''0'') @ s) = digits_nat s"
proof -
  have "digits_nat (replicate n (CHR ''0'')) = 0"
    by (induction n) (simp_all add: replicate_append_same [symmetric] digits_nat_snoc digits_nat_def [of "[]"])
  then show ?thesis by (simp add: digits_nat_append)
qed

lemma digits_nat_pad [simp]: "digits_nat (pad_zeros n s) = digits_nat s"
  by (simp add: pad_zeros_def digits_nat_zeros)

lemma half_up_bounds:
  assumes "0 < p"
  shows "2 * (half_up c p * p) \<le> 2 * c + p" "2 * c < 2 * (half_up c p * p) + p"
proof -
  have c: "c = c div p * p + c mod p" by simp
  have m: "c mod p < p" using assms by simp
  show "2 * (half_up c p * p) \<le> 2 * c + p"
  proof (cases "p \<le> 2 * (c mod p)")
    case True
    then have "half_up c p * p = c div p * p + p" by (simp add: half_up_def)
    with c True show ?thesis by linarith
  next
    case False
    then have "half_up c p * p = c div p * p" by (simp add: half_up_def)
    with c show ?thesis by linarith
  qed
  show "2 * c < 2 * (half_up c p * p) + p"
  proof (cases "p \<le> 2 * (c mod p)")
    case True
    then have "half_up c p * p = c div p * p + p" by (simp add: half_up_def)
    with c m show ?thesis by linarith
  next
    case False
    then have "half_up c p * p = c div p * p" by (simp add: half_up_def)
    with c False show ?thesis by linarith
  qed
qed

end
