(* ===== verification/Compare_Normalize.thy ===== *)
theory Compare_Normalize
  imports Compare_Value
begin

text \<open>
  \<open>app/domain/compare.py\<close>: the normal form of a row, on which rows of different databases are compared, and the
  text whose digest is the hash of a row.
\<close>

section \<open>Columns and rules\<close>

datatype column_type = STRING | INTEGER | FLOAT | DECIMAL | BOOLEAN | DATETIME | DATE | TIME | BYTES | JSON | UNKNOWN

record compare_column =
  col_name :: string
  col_type :: column_type
  driver_type :: "string option"

record compare_rules =
  key_columns :: "string list"
  ignore_columns :: "string list"
  column_mappings :: "(string, string) dict"
  trim_strings :: bool
  case_insensitive :: bool
  empty_as_null :: bool
  numeric_scale :: nat
  timestamp_precision :: nat
  null_sentinel :: string
  field_separator :: string

datatype normalize_error = Column_count_mismatch | Invalid_decimal

section \<open>Values\<close>

definition normalize_decimal :: "float_env \<Rightarrow> db_value \<Rightarrow> nat \<Rightarrow> (normalize_error, string) result" where
  "normalize_decimal env v scale =
     (case parse_decimal (value_str env v) of
        None \<Rightarrow> Inl Invalid_decimal
      | Some (Dec neg c e) \<Rightarrow>
          (let q = quantized scale c e in if 10 ^ 28 \<le> q then Inl Invalid_decimal else Inr (fixed_str neg q scale))
      | Some (DecInf neg) \<Rightarrow> Inl Invalid_decimal
      | Some (DecNan sig neg p) \<Rightarrow> if sig then Inl Invalid_decimal else Inr (dec_str (DecNan False neg p)))"

definition normalize_date :: "float_env \<Rightarrow> db_value \<Rightarrow> string" where
  "normalize_date env v = (case v of
       DDatetime y mo d _ _ _ _ \<Rightarrow> iso_date y mo d
     | DDate y mo d \<Rightarrow> iso_date y mo d
     | _ \<Rightarrow> take 10 (value_str env v))"

definition append_fraction :: "string \<Rightarrow> nat \<Rightarrow> nat \<Rightarrow> string" where
  "append_fraction base us precision =
     (if precision = 0 then base else take (length base + 1 + precision) (base @ ''.'' @ pad_zeros 6 (nat_str us)))"

text \<open>\<open>value.split(".", 1)\<close> at the first full stop; \<open>ljust\<close> fills with zeros on the right.\<close>

definition trim_fraction :: "string \<Rightarrow> nat \<Rightarrow> string" where
  "trim_fraction v precision =
     (if CHR ''.'' \<notin> set v then v
      else (let base = takeWhile (\<lambda>c. c \<noteq> CHR ''.'') v; fraction = drop (length base + 1) v
            in if precision = 0 then base
               else base @ ''.'' @ take precision fraction @ replicate (precision - length fraction) (CHR ''0'')))"

definition normalize_time :: "float_env \<Rightarrow> db_value \<Rightarrow> nat \<Rightarrow> string" where
  "normalize_time env v precision = (case v of
       DDatetime _ _ _ h m s us \<Rightarrow> append_fraction (hms h m s) us precision
     | DTime h m s us \<Rightarrow> append_fraction (hms h m s) us precision
     | _ \<Rightarrow> trim_fraction (value_str env v) precision)"

text \<open>\<open>strftime\<close> does not pad the year.\<close>

definition normalize_datetime :: "float_env \<Rightarrow> db_value \<Rightarrow> nat \<Rightarrow> string" where
  "normalize_datetime env v precision = (case v of
       DDatetime y mo d h m s us \<Rightarrow>
         append_fraction (int_str y @ ''-'' @ two mo @ ''-'' @ two d @ '' '' @ hms h m s) us precision
     | _ \<Rightarrow> trim_fraction (map (\<lambda>c. if c = CHR ''T'' then CHR '' '' else c) (value_str env v)) precision)"

definition truthy_value :: "db_value \<Rightarrow> bool" where
  "truthy_value v = (case v of
       Py (SStr s) \<Rightarrow> py_lower (strip s) \<in> {''1'', ''true'', ''t'', ''yes'', ''y''}
     | _ \<Rightarrow> value_truthy v)"

definition strip_blanks :: "string \<Rightarrow> string" where
  "strip_blanks s = rev (dropWhile (\<lambda>c. c = CHR '' '') (rev (dropWhile (\<lambda>c. c = CHR '' '') s)))"

definition normalize_value ::
    "float_env \<Rightarrow> compare_column \<Rightarrow> db_value \<Rightarrow> compare_rules \<Rightarrow> (normalize_error, string option) result" where
  "normalize_value env col v rules =
     (if v = Py SNone then Inr None
      else if col_type col \<in> {INTEGER, DECIMAL, FLOAT} then rbind (normalize_decimal env v (numeric_scale rules)) (\<lambda>t. Inr (Some t))
      else if col_type col = BOOLEAN then Inr (Some (if truthy_value v then ''1'' else ''0''))
      else if col_type col = DATE then Inr (Some (normalize_date env v))
      else if col_type col = TIME then Inr (Some (normalize_time env v (timestamp_precision rules)))
      else if col_type col = DATETIME then Inr (Some (normalize_datetime env v (timestamp_precision rules)))
      else (let t0 = value_str env v;
                t1 = (if trim_strings rules then strip_blanks t0 else t0);
                t2 = (if case_insensitive rules then py_lower t1 else t1)
            in Inr (if empty_as_null rules \<and> t2 = [] then None else Some t2)))"

section \<open>Rows\<close>

definition normalized_values ::
    "float_env \<Rightarrow> compare_column list \<Rightarrow> db_value list \<Rightarrow> compare_rules \<Rightarrow> (normalize_error, string option list) result" where
  "normalized_values env cols vs rules =
     (if length cols \<noteq> length vs then Inl Column_count_mismatch
      else map_r (\<lambda>(col, v). normalize_value env col v rules) (zip cols vs))"

definition normalized_compare_identity ::
    "float_env \<Rightarrow> compare_column list \<Rightarrow> db_value list \<Rightarrow> compare_rules \<Rightarrow> (normalize_error, (bool \<times> string) list) result" where
  "normalized_compare_identity env cols vs rules =
     rbind (normalized_values env cols vs rules) (\<lambda>normalized.
       Inr (map (\<lambda>v. case v of None \<Rightarrow> (True, null_sentinel rules) | Some t \<Rightarrow> (False, t)) normalized))"

definition identity_payload :: "string \<Rightarrow> (bool \<times> string) list \<Rightarrow> string" where
  "identity_payload sep identity =
     join_str sep (map (\<lambda>(is_null, _). if is_null then ''1'' else ''0'') identity @
                   concat (map (\<lambda>(_, v). [nat_str (length v), v]) identity))"

definition normalized_compare_payload ::
    "float_env \<Rightarrow> compare_column list \<Rightarrow> db_value list \<Rightarrow> compare_rules \<Rightarrow> (normalize_error, string) result" where
  "normalized_compare_payload env cols vs rules =
     rbind (normalized_compare_identity env cols vs rules) (\<lambda>identity. Inr (identity_payload (field_separator rules) identity))"

text \<open>\<open>digest64\<close> is the first eight bytes of the MD5 digest of the encoded text, big-endian.\<close>

definition compare_row_hash64 ::
    "float_env \<Rightarrow> (string \<Rightarrow> int) \<Rightarrow> compare_column list \<Rightarrow> db_value list \<Rightarrow> compare_rules \<Rightarrow> (normalize_error, int) result" where
  "compare_row_hash64 env digest64 cols vs rules =
     rbind (normalized_compare_payload env cols vs rules) (\<lambda>payload. Inr (digest64 payload))"

section \<open>The payload determines the row\<close>

lemma join_str_Cons: "xs \<noteq> [] \<Longrightarrow> join_str sep (x # xs) = x @ sep @ join_str sep xs"
  by (cases xs) simp_all

lemma digits_then_mark:
  assumes "list_all is_digit a" "list_all is_digit b" "\<not> is_digit c" "a @ c # x = b @ c # y"
  shows "a = b \<and> x = y"
proof -
  have "takeWhile is_digit (d @ c # z) = d" if "list_all is_digit d" for d z
    using that assms(3) by (simp add: takeWhile_append2 list_all_iff)
  from this [OF assms(1), of x] this [OF assms(2), of y] assms(4) show ?thesis by simp
qed

lemma join_bits_inject:
  assumes "length xs = length ys" "r \<noteq> []" "r' \<noteq> []"
    and "\<And>x. length (mk x) = 1"
    and "join_str sep (map mk xs @ r) = join_str sep (map mk ys @ r')"
  shows "map mk xs = map mk ys \<and> join_str sep r = join_str sep r'"
  using assms(1,5)
proof (induction xs ys rule: list_induct2)
  case (Cons x xs y ys)
  from Cons(3) have "mk x @ sep @ join_str sep (map mk xs @ r) = mk y @ sep @ join_str sep (map mk ys @ r')"
    using assms(2,3) by (simp add: join_str_Cons)
  then have "mk x = mk y" "join_str sep (map mk xs @ r) = join_str sep (map mk ys @ r')"
    using assms(4) by (simp_all add: append_eq_append_conv)
  with Cons(2) show ?case by simp
qed simp

lemma join_sized_inject:
  assumes sep: "sep = c # cs" "\<not> is_digit c" and "length vs = length ws"
    and "join_str sep (concat (map (\<lambda>v. [nat_str (length v), v]) vs)) =
         join_str sep (concat (map (\<lambda>v. [nat_str (length v), v]) ws))"
  shows "vs = ws"
  using assms(3,4)
proof (induction vs ws rule: list_induct2)
  case (Cons v vs w ws)
  let ?item = "\<lambda>v. [nat_str (length v), v]"
  have form: "\<exists>t. join_str sep (concat (map ?item (u # us))) = nat_str (length u) @ sep @ u @ t \<and>
      t = (if us = [] then [] else sep @ join_str sep (concat (map ?item us)))" for u us
    by (cases us) (simp_all add: join_str_Cons)
  obtain t where t: "join_str sep (concat (map ?item (v # vs))) = nat_str (length v) @ sep @ v @ t"
    "t = (if vs = [] then [] else sep @ join_str sep (concat (map ?item vs)))" using form by blast
  obtain t' where t': "join_str sep (concat (map ?item (w # ws))) = nat_str (length w) @ sep @ w @ t'"
    "t' = (if ws = [] then [] else sep @ join_str sep (concat (map ?item ws)))" using form by blast
  have "nat_str (length v) @ c # (cs @ v @ t) = nat_str (length w) @ c # (cs @ w @ t')"
    using Cons(3) unfolding t(1) t'(1) by (simp add: sep(1))
  from digits_then_mark [OF _ _ sep(2) this] nat_str_digits
  have n: "nat_str (length v) = nat_str (length w)" and r: "v @ t = w @ t'" by auto
  from n have "length v = length w" using digits_nat_nat_str by metis
  with r have vw: "v = w" "t = t'" by simp_all
  with Cons(1,2) t(2) t'(2) sep(1) show ?case by (cases vs; cases ws) auto
qed simp

lemma identity_payload_inject:
  assumes sep: "sep = c # cs" "\<not> is_digit c" and len: "length xs = length ys"
    and eq: "identity_payload sep xs = identity_payload sep ys"
  shows "xs = ys"
proof (cases xs)
  case Nil
  with len show ?thesis by simp
next
  case (Cons x xs')
  then have ne: "xs \<noteq> []" "ys \<noteq> []" using len by auto
  let ?bit = "\<lambda>p :: bool \<times> string. if fst p then ''1'' else ''0''"
  let ?vals = "\<lambda>zs :: (bool \<times> string) list. concat (map (\<lambda>v. [nat_str (length v), v]) (map snd zs))"
  have form: "identity_payload sep zs = join_str sep (map ?bit zs @ ?vals zs)" for zs
    by (simp add: identity_payload_def case_prod_beta' comp_def)
  have nev: "?vals xs \<noteq> []" "?vals ys \<noteq> []" using ne by (cases xs; cases ys; simp)+
  from join_bits_inject [OF len nev, of ?bit sep] eq form
  have bits: "map ?bit xs = map ?bit ys" and vals: "join_str sep (?vals xs) = join_str sep (?vals ys)" by auto
  have "map snd xs = map snd ys" by (rule join_sized_inject [OF sep _ vals]) (simp add: len)
  moreover have "map fst xs = map fst ys"
    using len bits by (induction xs ys rule: list_induct2) (auto split: if_splits)
  ultimately show ?thesis by (metis zip_map_fst_snd)
qed


section \<open>Rounding\<close>

lemma nat_str_Cons: "\<exists>d ds. nat_str n = d # ds \<and> is_digit d"
  using nat_str_digits [of n] by (cases "nat_str n") auto

lemma digit_facts:
  assumes "is_digit c"
  shows "c \<noteq> CHR ''_''" "c \<noteq> CHR ''.''" "c \<noteq> CHR ''-''" "c \<noteq> CHR ''+''" "\<not> py_is_space c" "c \<noteq> CHR ''i''" "c \<noteq> CHR ''n''" "c \<noteq> CHR ''s''"
  using assms by (auto simp: is_digit_def py_is_space_def Let_def)

lemma py_lower_digit: "is_digit c \<Longrightarrow> py_lower (c # s) = c # py_lower s"
  by (simp add: py_lower_def is_digit_def Let_def)

lemma strip_plain: "s \<noteq> [] \<Longrightarrow> \<not> py_is_space (hd s) \<Longrightarrow> \<not> py_is_space (List.last s) \<Longrightarrow> strip s = s"
proof -
  assume s: "s \<noteq> []" "\<not> py_is_space (hd s)" "\<not> py_is_space (List.last s)"
  have "dropWhile py_is_space t = t" if "t \<noteq> []" "\<not> py_is_space (hd t)" for t using that by (cases t) auto
  from this [of s] this [of "rev s"] s show ?thesis by (simp add: strip_def lstrip_def hd_rev)
qed

lemma pad_zeros_digits: "list_all is_digit s \<Longrightarrow> list_all is_digit (pad_zeros n s)"
  by (auto simp: pad_zeros_def list_all_iff is_digit_def)

lemma nat_str_length: "n < 10 ^ k \<Longrightarrow> 0 < k \<Longrightarrow> length (nat_str n) \<le> k"
proof (induction n arbitrary: k rule: nat_str.induct)
  case (1 n)
  show ?case
  proof (cases "n < 10")
    case True
    with 1(3) show ?thesis by (simp add: nat_str.simps [of n])
  next
    case False
    then have "k \<noteq> 0" "k \<noteq> 1" using 1(2,3) by auto
    then obtain k' where k: "k = Suc k'" "0 < k'" by (cases k) auto
    have "n div 10 < 10 ^ k'" using 1(2) k by (simp add: less_mult_imp_div_less mult.commute)
    from 1(1) [OF False this k(2)] False k show ?thesis by (subst nat_str.simps) simp
  qed
qed

lemma parse_finite_fixed:
  "parse_finite neg (nat_str (c div 10 ^ scale) @ (if scale = 0 then [] else ''.'' @ pad_zeros scale (nat_str (c mod 10 ^ scale)))) =
   Some (Dec neg c (- int scale))"
proof -
  let ?ip = "nat_str (c div 10 ^ scale)" and ?fp = "pad_zeros scale (nat_str (c mod 10 ^ scale))"
  have ip: "list_all is_digit ?ip" "?ip \<noteq> []" using nat_str_digits by auto
  have fp: "list_all is_digit ?fp" using nat_str_digits pad_zeros_digits by auto
  have tw: "takeWhile is_digit (a @ b) = a @ takeWhile is_digit b" "dropWhile is_digit (a @ b) = dropWhile is_digit b"
    if "list_all is_digit a" for a b using that by (simp_all add: list_all_iff takeWhile_append2 dropWhile_append2)
  show ?thesis
  proof (cases "scale = 0")
    case True
    have "takeWhile is_digit ?ip = ?ip" "dropWhile is_digit ?ip = []" using ip(1) by (auto simp: list_all_iff takeWhile_eq_all_conv)
    then show ?thesis using ip(2) True unfolding parse_finite_def Let_def by (simp del: takeWhile_eq_all_conv dropWhile_eq_Nil_conv)
  next
    case False
    have len: "length ?fp = scale" using nat_str_length [of "c mod 10 ^ scale" scale] False by (simp add: pad_zeros_length)
    have "digits_nat (?ip @ ?fp) = c div 10 ^ scale * 10 ^ scale + c mod 10 ^ scale"
      using len by (simp add: digits_nat_append)
    also have "\<dots> = c" by (rule div_mult_mod_eq)
    finally have val: "digits_nat (?ip @ ?fp) = c" .
    have dot: "\<not> is_digit (CHR ''.'')" by (simp add: is_digit_def)
    have "takeWhile is_digit ?fp = ?fp" "dropWhile is_digit ?fp = []" using fp by (auto simp: list_all_iff takeWhile_eq_all_conv)
    then show ?thesis using False tw [OF ip(1)] ip(2) dot val len unfolding parse_finite_def Let_def
      by (simp del: takeWhile_eq_all_conv dropWhile_eq_Nil_conv)
  qed
qed

lemma parse_fixed_str: "parse_decimal (fixed_str neg c scale) = Some (Dec neg c (- int scale))"
proof -
  let ?ip = "nat_str (c div 10 ^ scale)" and ?fp = "pad_zeros scale (nat_str (c mod 10 ^ scale))"
  let ?body = "?ip @ (if scale = 0 then [] else ''.'' @ ?fp)"
  obtain d ds where d: "?ip = d # ds" "is_digit d" using nat_str_Cons by blast
  have digits: "list_all is_digit ?ip" "list_all is_digit ?fp" using nat_str_digits pad_zeros_digits by auto
  have last: "\<not> py_is_space (List.last ?body)"
  proof (cases "scale = 0")
    case True
    then show ?thesis using digits(1) d digit_facts(5) by (auto simp: list_all_iff)
  next
    case False
    then have "?fp \<noteq> []" using pad_zeros_length [of scale "nat_str (c mod 10 ^ scale)"] by force
    then show ?thesis using False digits(2) digit_facts(5) by (auto simp: list_all_iff)
  qed
  have "strip (sign_str neg @ ?body) = sign_str neg @ ?body"
    by (rule strip_plain) (use d last digit_facts(5) [OF d(2)] in \<open>auto simp: sign_str_def py_is_space_def\<close>)
  moreover have "filter (\<lambda>x. x \<noteq> CHR ''_'') (sign_str neg @ ?body) = sign_str neg @ ?body"
    using digits digit_facts(1) by (auto simp: sign_str_def list_all_iff intro!: filter_True)
  moreover have "sign_split (sign_str neg @ ?body) = (neg, ?body)"
    using d digit_facts [OF d(2)] by (auto simp: sign_split_def sign_str_def)
  moreover have "py_lower ?body \<noteq> ''inf''" "py_lower ?body \<noteq> ''infinity''" "parse_nan neg (py_lower ?body) = None"
    using d digit_facts [OF d(2)] by (simp_all add: py_lower_digit parse_nan_def)
  ultimately show ?thesis
    using parse_finite_fixed [of neg c scale] by (simp add: parse_decimal_def fixed_str_def)
qed

abbreviation dec_abs :: "nat \<Rightarrow> int \<Rightarrow> rat" where
  "dec_abs c e \<equiv> of_nat c * (if 0 \<le> e then 10 ^ nat e else 1 / 10 ^ nat (- e))"

lemma half_up_ratio:
  fixes s :: rat
  assumes "0 < p" "0 < s"
  shows "of_nat (half_up c p) / s - of_nat c / (s * of_nat p) \<le> 1 / (2 * s)"
    and "of_nat c / (s * of_nat p) - of_nat (half_up c p) / s < 1 / (2 * s)"
proof -
  let ?q = "of_nat (half_up c p) :: rat" and ?c = "of_nat c :: rat" and ?p = "of_nat p :: rat"
  have "of_nat (2 * (half_up c p * p)) \<le> (of_nat (2 * c + p) :: rat)"
    by (rule of_nat_mono) (rule half_up_bounds(1) [OF assms(1)])
  then have le: "2 * (?q * ?p) - 2 * ?c \<le> ?p" by simp
  have "of_nat (2 * c) < (of_nat (2 * (half_up c p * p) + p) :: rat)"
    by (rule of_nat_less_iff [THEN iffD2]) (rule half_up_bounds(2) [OF assms(1)])
  then have less: "2 * ?c - 2 * (?q * ?p) < ?p" by simp
  have pos: "0 < ?p" "0 < 2 * s * ?p" using assms by simp_all
  have "(?q / s - ?c / (s * ?p)) * (2 * s * ?p) = 2 * (?q * ?p) - 2 * ?c" "(?c / (s * ?p) - ?q / s) * (2 * s * ?p) = 2 * ?c - 2 * (?q * ?p)"
    "1 / (2 * s) * (2 * s * ?p) = ?p"
    using assms(2) pos(1) by (simp_all add: left_diff_distrib)
  with le less have "(?q / s - ?c / (s * ?p)) * (2 * s * ?p) \<le> 1 / (2 * s) * (2 * s * ?p)"
    "(?c / (s * ?p) - ?q / s) * (2 * s * ?p) < 1 / (2 * s) * (2 * s * ?p)" by (simp_all only:)
  then show "?q / s - ?c / (s * ?p) \<le> 1 / (2 * s)" "?c / (s * ?p) - ?q / s < 1 / (2 * s)"
    using pos(2) by (simp_all only: mult_le_cancel_right_pos mult_less_cancel_right_pos)
qed

lemma quantized_bounds:
  "of_nat (quantized scale c e) / 10 ^ scale - dec_abs c e \<le> 1 / (2 * 10 ^ scale)"
  "dec_abs c e - of_nat (quantized scale c e) / 10 ^ scale < 1 / (2 * 10 ^ scale)"
proof -
  have "of_nat (quantized scale c e) / 10 ^ scale - dec_abs c e \<le> 1 / (2 * 10 ^ scale) \<and>
    dec_abs c e - of_nat (quantized scale c e) / 10 ^ scale < 1 / (2 * (10 :: rat) ^ scale)"
  proof (cases "0 \<le> e + int scale")
    case True
    have "(10 :: rat) ^ nat (e + int scale) = (if 0 \<le> e then 10 ^ nat e else 1 / 10 ^ nat (- e)) * 10 ^ scale"
    proof (cases "0 \<le> e")
      case True then show ?thesis by (simp add: nat_add_distrib power_add)
    next
      case False
      then have "scale = nat (- e) + nat (e + int scale)" using \<open>0 \<le> e + int scale\<close> by linarith
      then have "(10 :: rat) ^ scale = 10 ^ nat (- e) * 10 ^ nat (e + int scale)" by (metis power_add)
      with False show ?thesis by simp
    qed
    then have "of_nat (quantized scale c e) / 10 ^ scale = dec_abs c e"
      using True by (simp add: quantized_def)
    then show ?thesis by simp
  next
    case False
    let ?p = "10 ^ nat (- (e + int scale)) :: nat"
    have "nat (- e) = scale + nat (- (e + int scale))" using False by linarith
    then have "(10 :: rat) ^ nat (- e) = 10 ^ scale * of_nat ?p" by (simp add: power_add)
    then have "dec_abs c e = of_nat c / (10 ^ scale * of_nat ?p)" using False by simp
    moreover have "quantized scale c e = half_up c ?p" using False by (simp add: quantized_def)
    ultimately show ?thesis using half_up_ratio [of ?p "10 ^ scale" c] by simp
  qed
  then show "of_nat (quantized scale c e) / 10 ^ scale - dec_abs c e \<le> 1 / (2 * 10 ^ scale)"
    "dec_abs c e - of_nat (quantized scale c e) / 10 ^ scale < 1 / (2 * 10 ^ scale)" by blast+
qed

text \<open>
  Rounding of a number. The normalised text of a finite decimal reads back as a decimal of the same sign at
  the configured scale, its magnitude is off by at most half a unit of the last place (halves go away from
  zero), and normalising the text again changes nothing.
\<close>

theorem normalize_decimal_rounds:
  assumes "parse_decimal (value_str env v) = Some (Dec neg c e)" "normalize_decimal env v scale = Inr t"
  shows "\<exists>q. parse_decimal t = Some (Dec neg q (- int scale)) \<and>
    of_nat q / 10 ^ scale - dec_abs c e \<le> 1 / (2 * 10 ^ scale) \<and> dec_abs c e - of_nat q / 10 ^ scale < 1 / (2 * 10 ^ scale) \<and>
    normalize_decimal env (Py (SStr t)) scale = Inr t"
proof -
  let ?q = "quantized scale c e"
  from assms have t: "t = fixed_str neg ?q scale" and small: "?q < 10 ^ 28"
    by (auto simp: normalize_decimal_def Let_def split: if_splits)
  have "quantized scale ?q (- int scale) = ?q" by (simp add: quantized_def)
  then have "normalize_decimal env (Py (SStr t)) scale = Inr t"
    using small by (simp add: normalize_decimal_def value_str_def t parse_fixed_str)
  with quantized_bounds [where scale = scale and c = c and e = e] show ?thesis by (intro exI [of _ ?q]) (simp add: t parse_fixed_str)
qed

lemmas decimal_eval = parse_decimal_def strip_def lstrip_def py_is_space_def sign_split_def parse_nan_def parse_finite_def
  parse_exponent_def is_digit_def digits_nat_def py_lower_def Let_def

text \<open>
  Two values that round to the same number can have different normal forms: a negative value that rounds to
  zero keeps its sign, so a negative zero or a tiny negative number differs from zero.
\<close>

theorem negative_zero_differs:
  "normalize_decimal env (DDecimal (Dec True 1 (-7))) 6 = Inr ''-0.000000'' \<and>
   normalize_decimal env (DDecimal (Dec False 1 (-7))) 6 = Inr ''0.000000'' \<and>
   normalize_decimal env (Py (SStr ''-0.0'')) 6 = Inr ''-0.000000'' \<and> normalize_decimal env (Py (SInt 0)) 6 = Inr ''0.000000''"
proof -
  have "value_str env (DDecimal (Dec True 1 (-7))) = ''-1E-7''" "value_str env (DDecimal (Dec False 1 (-7))) = ''1E-7''"
    "value_str env (Py (SInt 0)) = ''0''" "value_str env (Py (SStr ''-0.0'')) = ''-0.0''"
    by (simp_all add: value_str_def dec_str_def nat_str.simps digit_char_def char_of_def bit_0 sign_str_def int_str_def)
  moreover have "parse_decimal ''-1E-7'' = Some (Dec True 1 (-7))" "parse_decimal ''1E-7'' = Some (Dec False 1 (-7))"
    "parse_decimal ''-0.0'' = Some (Dec True 0 (-1))" "parse_decimal ''0'' = Some (Dec False 0 0)" by (simp_all add: decimal_eval)
  moreover have "pad_zeros 6 ''0'' = ''000000''" by (simp add: pad_zeros_def eval_nat_numeral)
  then have "quantized 6 1 (-7) = 0" "quantized 6 0 (-1) = 0" "quantized 6 0 0 = 0"
    "fixed_str True 0 6 = ''-0.000000''" "fixed_str False 0 6 = ''0.000000''"
    by (simp_all add: quantized_def half_up_def fixed_str_def sign_str_def nat_str.simps digit_char_def char_of_def bit_0)
  ultimately show ?thesis by (simp add: normalize_decimal_def)
qed

section \<open>Instances\<close>

definition cmp_env :: float_env where
  "cmp_env = \<lparr>int_float = (\<lambda>_. None), dec_float = (\<lambda>_. None), float_text = (\<lambda>_. ''0.0'')\<rparr>"

definition cmp_rules :: compare_rules where
  "cmp_rules = \<lparr>key_columns = [''id''], ignore_columns = [], column_mappings = [], trim_strings = False, case_insensitive = True,
     empty_as_null = False, numeric_scale = 6, timestamp_precision = 6, null_sentinel = ''~'', field_separator = ''|''\<rparr>"

definition cmp_columns :: "compare_column list" where
  "cmp_columns = [\<lparr>col_name = ''a'', col_type = STRING, driver_type = None\<rparr>, \<lparr>col_name = ''b'', col_type = STRING, driver_type = None\<rparr>]"


theorem normalize_decimal_rounds_witness:
  "\<exists>q. parse_decimal ''3'' = Some (Dec False q 0) \<and> of_nat q - (25 :: rat) / 10 \<le> 1 / 2"
proof -
  have "parse_decimal (value_str cmp_env (Py (SStr ''2.5''))) = Some (Dec False 25 (-1))"
    by (simp add: value_str_def decimal_eval)
  moreover from this have "normalize_decimal cmp_env (Py (SStr ''2.5'')) 0 = Inr ''3''"
    by (simp add: normalize_decimal_def quantized_def half_up_def fixed_str_def sign_str_def nat_str.simps digit_char_def char_of_def bit_0)
  ultimately show ?thesis using normalize_decimal_rounds by fastforce
qed

end
