(* ===== verification/Compare_Kernel.thy ===== *)
theory Compare_Kernel
  imports Compare_Normalize "HOL-Library.Multiset"
begin

text \<open>
  \<open>app/domain/compare.py\<close>: the comparison of two tables. Rows are aligned by primary key; a large key range is
  split recursively, and segments whose row count and aggregate hash agree on both sides are skipped.

  A value of a row is a driver value or, once normalised, a pair of a null mark and a text. Python dictionaries identify
  keys that compare equal, so numbers of different types with the same value are one key.
\<close>

section \<open>Data\<close>

datatype cell = Raw db_value | Norm bool string

record compare_row =
  row_pk :: "db_value list"
  row_values :: "cell list"
  row_hash64 :: "int option"
  raw_values :: "cell list option"

datatype diff_bucket = Only_source | Only_target | Diff | Same

record diff_event =
  bucket :: diff_bucket
  event_pk :: "db_value list"
  source_values :: "cell list option"
  target_values :: "cell list option"

record segment =
  key_column :: string
  seg_start :: int
  seg_end :: int

record run_limits =
  max_rows :: "int option"
  bisection_factor :: int
  bisection_threshold :: int
  max_bisection_depth :: int
  recursive_checksum :: bool

record fingerprint =
  row_count :: int
  aggregate_hash :: int

record reader =
  segment_fingerprint :: "segment \<Rightarrow> fingerprint"
  fetch_rows :: "segment \<Rightarrow> compare_row list"

record diff_progress =
  scanned_segments :: int
  skipped_segments :: int
  skipped_rows :: int
  recursed_segments :: int
  row_mode_segments :: int
  max_depth_seen :: int

datatype side = Source_side | Target_side

datatype compare_error =
    Duplicate_keys side int int
  | Segment_end_before_start
  | Limits_out_of_range
  | No_integer_key
  | Normalize_failed normalize_error
  | Max_rows_exceeded int
  | Row_shape
  | Missing_hash_column
  | Run_cancelled

definition make_segment :: "string \<Rightarrow> int \<Rightarrow> int \<Rightarrow> (compare_error, segment) result" where
  "make_segment k s e = (if e < s then Inl Segment_end_before_start else Inr \<lparr>key_column = k, seg_start = s, seg_end = e\<rparr>)"

definition make_limits :: "int option \<Rightarrow> int \<Rightarrow> int \<Rightarrow> int \<Rightarrow> bool \<Rightarrow> (compare_error, run_limits) result" where
  "make_limits mx factor threshold depth rec_sum =
     (if (case mx of Some n \<Rightarrow> n \<le> 0 | None \<Rightarrow> False) \<or> factor < 8 \<or> 32 < factor \<or> threshold \<le> 0 \<or> depth < 0
      then Inl Limits_out_of_range
      else Inr \<lparr>max_rows = mx, bisection_factor = factor, bisection_threshold = threshold, max_bisection_depth = depth,
                recursive_checksum = rec_sum\<rparr>)"

definition default_limits :: run_limits where
  "default_limits = \<lparr>max_rows = None, bisection_factor = 16, bisection_threshold = 16000, max_bisection_depth = 8, recursive_checksum = True\<rparr>"

definition estimated_rows :: "segment \<Rightarrow> int" where
  "estimated_rows s = max 0 (seg_end s - seg_start s)"

definition new_progress :: diff_progress where
  "new_progress = \<lparr>scanned_segments = 0, skipped_segments = 0, skipped_rows = 0, recursed_segments = 0, row_mode_segments = 0,
     max_depth_seen = 0\<rparr>"

section \<open>Keys\<close>

text \<open>The identity of a key value in a dictionary.\<close>

definition key_of :: "db_value \<Rightarrow> xnum + db_value" where
  "key_of v = (case value_num v of Some x \<Rightarrow> Inl x | None \<Rightarrow> Inr v)"

type_synonym pk_key = "(xnum + db_value) list"

definition pk_key :: "compare_row \<Rightarrow> pk_key" where
  "pk_key r = map key_of (row_pk r)"

definition compare_pk_sort_key ::
    "float_env \<Rightarrow> db_value list \<Rightarrow> (nat \<times> xnum \<times> string) list" where
  "compare_pk_sort_key env pk = map (\<lambda>v.
     let as_number = (\<lambda>f. case f of Some x \<Rightarrow> (1, float_num x, value_str env v) | None \<Rightarrow> (2, XRat 0, value_str env v)) in
     case v of
       Py SNone \<Rightarrow> (0, XRat 0, [])
     | Py (SBool b) \<Rightarrow> (1, XRat (if b then 1 else 0), value_str env v)
     | Py (SInt i) \<Rightarrow> as_number (int_float env i)
     | Py (SFloat f) \<Rightarrow> (1, float_num f, value_str env v)
     | DDecimal d \<Rightarrow> as_number (dec_float env d)
     | _ \<Rightarrow> (2, XRat 0, value_str env v)) pk"

fun item_less :: "nat \<times> xnum \<times> string \<Rightarrow> nat \<times> xnum \<times> string \<Rightarrow> bool" where
  "item_less (a, x, s) (b, y, t) \<longleftrightarrow> a < b \<or> a = b \<and> (xnum_less x y \<or> xnum_eq x y \<and> str_less s t)"

fun key_less :: "(nat \<times> xnum \<times> string) list \<Rightarrow> (nat \<times> xnum \<times> string) list \<Rightarrow> bool" where
  "key_less _ [] = False"
| "key_less [] (_ # _) = True"
| "key_less (x # xs) (y # ys) = (item_less x y \<or> x = y \<and> key_less xs ys)"

fun insert_key :: "('a \<Rightarrow> (nat \<times> xnum \<times> string) list) \<Rightarrow> 'a \<Rightarrow> 'a list \<Rightarrow> 'a list" where
  "insert_key f x [] = [x]"
| "insert_key f x (y # ys) = (if key_less (f y) (f x) then y # insert_key f x ys else x # y # ys)"

text \<open>Keys that the order cannot tell apart stay in the order given.\<close>

definition sorted_compare_keys ::
    "float_env \<Rightarrow> (pk_key \<times> db_value list) list \<Rightarrow> (pk_key \<times> db_value list) list" where
  "sorted_compare_keys env keys =
     foldr (insert_key (\<lambda>(_, pk). compare_pk_sort_key env pk)) keys []"

section \<open>Row level\<close>

text \<open>The rows by key, with the number of rows and of repeated keys.\<close>

definition add_row :: "(pk_key, compare_row) dict \<times> int \<times> int \<Rightarrow> compare_row \<Rightarrow> (pk_key, compare_row) dict \<times> int \<times> int" where
  "add_row acc r = (case acc of (out, n, duplicates) \<Rightarrow>
     (dict_set out (pk_key r) r, n + 1, if dict_get out (pk_key r) = None then duplicates else duplicates + 1))"

definition row_map :: "side \<Rightarrow> compare_row list \<Rightarrow> (compare_error, (pk_key, compare_row) dict) result" where
  "row_map sd rows = (case foldl add_row ([], 0, 0) rows of (out, n, duplicates) \<Rightarrow>
     if duplicates \<noteq> 0 then Inl (Duplicate_keys sd duplicates n) else Inr out)"

definition cell_eq :: "cell \<Rightarrow> cell \<Rightarrow> bool" where
  "cell_eq a b = (case (a, b) of
       (Raw v, Raw w) \<Rightarrow> value_eq v w | (Norm m s, Norm n t) \<Rightarrow> m = n \<and> s = t | _ \<Rightarrow> False)"

definition rows_equivalent :: "compare_row \<Rightarrow> compare_row \<Rightarrow> bool" where
  "rows_equivalent s t = list_all2 cell_eq (row_values s) (row_values t)"

text \<open>\<open>row.raw_values or row.values\<close>.\<close>

definition shown_values :: "compare_row \<Rightarrow> cell list" where
  "shown_values r = (case raw_values r of Some (v # vs) \<Rightarrow> v # vs | _ \<Rightarrow> row_values r)"

definition event_for :: "db_value list \<Rightarrow> compare_row option \<Rightarrow> compare_row option \<Rightarrow> diff_event list" where
  "event_for pk s t = (case (s, t) of
       (None, Some b) \<Rightarrow> [\<lparr>bucket = Only_target, event_pk = pk, source_values = None, target_values = Some (shown_values b)\<rparr>]
     | (Some a, None) \<Rightarrow> [\<lparr>bucket = Only_source, event_pk = pk, source_values = Some (shown_values a), target_values = None\<rparr>]
     | (Some a, Some b) \<Rightarrow> [\<lparr>bucket = (if rows_equivalent a b then Same else Diff), event_pk = pk,
                            source_values = Some (shown_values a), target_values = Some (shown_values b)\<rparr>]
     | (None, None) \<Rightarrow> [])"

text \<open>\<open>source.keys() | target.keys()\<close>: a key on both sides is the source's object.\<close>

definition union_keys :: "(pk_key, compare_row) dict \<Rightarrow> (pk_key, compare_row) dict \<Rightarrow> (pk_key \<times> db_value list) list" where
  "union_keys s t = map (\<lambda>(k, r). (k, row_pk r)) s @
     map (\<lambda>(k, r). (k, row_pk r)) (filter (\<lambda>(k, r). dict_get s k = None) t)"

definition diff_rows ::
    "float_env \<Rightarrow> compare_row list \<Rightarrow> compare_row list
     \<Rightarrow> (compare_error, diff_event list) result" where
  "diff_rows env source_rows target_rows =
     rbind (row_map Source_side source_rows) (\<lambda>s.
     rbind (row_map Target_side target_rows) (\<lambda>t.
     Inr (concat (map (\<lambda>(k, pk). event_for pk (dict_get s k) (dict_get t k))
       (sorted_compare_keys env (union_keys s t))))))"

definition row_level_diff ::
    "float_env \<Rightarrow> reader \<Rightarrow> reader \<Rightarrow> segment
     \<Rightarrow> (compare_error, diff_event list) result" where
  "row_level_diff env source target seg =
     diff_rows env (fetch_rows source seg) (fetch_rows target seg)"

section \<open>Segments\<close>

function split_from :: "string \<Rightarrow> int \<Rightarrow> int \<Rightarrow> int \<Rightarrow> segment list" where
  "split_from k chunk start stop =
     (if start < stop
      then (let e = min stop (start + max 1 chunk)
            in \<lparr>key_column = k, seg_start = start, seg_end = e\<rparr> # split_from k chunk e stop)
      else [])"
  by pat_completeness auto
termination
  by (relation "measure (\<lambda>(_, _, start, stop). nat (stop - start))") (auto simp: min_def max_def)

declare split_from.simps [simp del]

definition split_segment :: "segment \<Rightarrow> int \<Rightarrow> segment list" where
  "split_segment seg factor = (let width = estimated_rows seg in
     if width = 0 then []
     else split_from (key_column seg) ((width + factor - 1) div factor) (seg_start seg) (seg_end seg))"

text \<open>
  The generator: the events yielded so far, the counters, and the error that ended it, if any. The
  top of the stack is the head of the list.
\<close>

type_synonym stream = "diff_event list \<times> diff_progress \<times> compare_error option"

abbreviation note_depth :: "int \<Rightarrow> diff_progress \<Rightarrow> diff_progress" where
  "note_depth depth p \<equiv> p\<lparr>max_depth_seen := max (max_depth_seen p) depth, scanned_segments := scanned_segments p + 1\<rparr>"

function hashdiff_loop ::
    "(segment \<Rightarrow> (compare_error, diff_event list) result) \<Rightarrow> reader \<Rightarrow> reader \<Rightarrow> run_limits \<Rightarrow> (segment \<times> int) list
     \<Rightarrow> diff_event list \<Rightarrow> diff_progress \<Rightarrow> stream" where
  "hashdiff_loop diff source target limits [] events progress = (events, progress, None)"
| "hashdiff_loop diff source target limits ((seg, depth) # stack) events progress =
     (let p = note_depth depth progress;
          fs = segment_fingerprint source seg; ft = segment_fingerprint target seg
      in if fs = ft then
           hashdiff_loop diff source target limits stack events
             (p\<lparr>skipped_segments := skipped_segments p + 1, skipped_rows := skipped_rows p + row_count fs\<rparr>)
         else if max (row_count fs) (row_count ft) > bisection_threshold limits \<and> depth < max_bisection_depth limits \<and>
                 estimated_rows seg > 1 then
           hashdiff_loop diff source target limits
             (map (\<lambda>c. (c, depth + 1)) (split_segment seg (bisection_factor limits)) @ stack) events
             (p\<lparr>recursed_segments := recursed_segments p + 1\<rparr>)
         else
           (let p' = p\<lparr>row_mode_segments := row_mode_segments p + 1\<rparr> in
            case diff seg of
              Inl e \<Rightarrow> (events, p', Some e)
            | Inr es \<Rightarrow> hashdiff_loop diff source target limits stack (events @ es) p'))"
  by pat_completeness auto

text \<open>
  Every round takes a segment off the stack and puts back only deeper ones, and depth is bounded: the
  multiset of the depths that are left decreases.
\<close>

definition depth_left :: "run_limits \<Rightarrow> (segment \<times> int) list \<Rightarrow> nat multiset" where
  "depth_left limits stack = mset (map (\<lambda>(_, depth). nat (max_bisection_depth limits - depth)) stack)"

lemma depth_left_pop: "(depth_left limits stack, depth_left limits (x # stack)) \<in> mult less_than"
  using one_step_implies_mult [of "{#nat (max_bisection_depth limits - snd x)#}" "{#}" less_than "depth_left limits stack"]
  by (simp add: depth_left_def case_prod_beta)

lemma depth_left_push:
  assumes "depth < max_bisection_depth limits"
  shows "(depth_left limits (map (\<lambda>c. (c, depth + 1)) cs @ stack), depth_left limits ((seg, depth) # stack)) \<in> mult less_than"
proof -
  let ?d = "nat (max_bisection_depth limits - depth)" and ?e = "nat (max_bisection_depth limits - (depth + 1))"
  have "(depth_left limits stack + replicate_mset (length cs) ?e, depth_left limits stack + {#?d#}) \<in> mult less_than"
    by (rule one_step_implies_mult) (use assms in auto)
  then show ?thesis by (simp add: depth_left_def comp_def map_replicate_const mset_replicate ac_simps)
qed

termination hashdiff_loop
  by (relation "inv_image (mult less_than) (\<lambda>(_, _, _, limits, stack, _, _). depth_left limits stack)")
    (auto simp: wf_mult depth_left_pop depth_left_push)

definition recursive_hashdiff_stream ::
    "float_env \<Rightarrow> reader \<Rightarrow> reader \<Rightarrow> segment \<Rightarrow> run_limits \<Rightarrow> stream" where
  "recursive_hashdiff_stream env source target root_seg limits =
     (let diff = row_level_diff env source target in
      if \<not> recursive_checksum limits \<or> estimated_rows root_seg \<le> bisection_threshold limits then
        (let p = new_progress\<lparr>row_mode_segments := 1\<rparr> in
         case diff root_seg of Inl e \<Rightarrow> ([], p, Some e) | Inr es \<Rightarrow> (es, p, None))
      else hashdiff_loop diff source target limits (map (\<lambda>s. (s, 0)) (split_segment root_seg (bisection_factor limits))) [] new_progress)"

text \<open>\<open>materialize\<close>: the error of the generator is raised.\<close>

definition recursive_hashdiff ::
    "float_env \<Rightarrow> reader \<Rightarrow> reader \<Rightarrow> segment \<Rightarrow> run_limits
     \<Rightarrow> (compare_error, diff_event list \<times> diff_progress) result" where
  "recursive_hashdiff env source target root_seg limits =
     (case recursive_hashdiff_stream env source target root_seg limits of
        (_, _, Some e) \<Rightarrow> Inl e | (es, p, None) \<Rightarrow> Inr (es, p))"

section \<open>Rows held in memory\<close>

definition int_pk :: "compare_row \<Rightarrow> int option" where
  "int_pk r = (case row_pk r of Py (SInt i) # _ \<Rightarrow> Some i | Py (SBool b) # _ \<Rightarrow> Some (if b then 1 else 0) | _ \<Rightarrow> None)"

definition in_segment :: "segment \<Rightarrow> compare_row \<Rightarrow> bool" where
  "in_segment seg r = (case int_pk r of Some i \<Rightarrow> seg_start seg \<le> i \<and> i < seg_end seg | None \<Rightarrow> False)"

text \<open>\<open>tuple_hash\<close> is \<open>_stable_tuple_hash\<close>, the first eight bytes of an MD5 digest.\<close>

definition static_row_reader :: "(cell list \<Rightarrow> int) \<Rightarrow> compare_row list \<Rightarrow> reader" where
  "static_row_reader tuple_hash rows =
     \<lparr>segment_fingerprint = (\<lambda>seg. let found = filter (in_segment seg) rows in
        \<lparr>row_count = int (length found),
         aggregate_hash = sum_list (map (\<lambda>r. case row_hash64 r of Some h \<Rightarrow> h | None \<Rightarrow> tuple_hash (row_values r)) found)\<rparr>),
      fetch_rows = (\<lambda>seg. filter (in_segment seg) rows)\<rparr>"

text \<open>\<open>_normalize_compare_rows\<close>: rows are left as they are without columns.\<close>

definition lift_normalize :: "(normalize_error, 'a) result \<Rightarrow> (compare_error, 'a) result" where
  "lift_normalize r = (case r of Inl e \<Rightarrow> Inl (Normalize_failed e) | Inr x \<Rightarrow> Inr x)"

fun cell_value :: "cell \<Rightarrow> db_value" where
  "cell_value (Raw v) = v"
| "cell_value (Norm _ t) = Py (SStr t)"

definition normalize_compare_row ::
    "float_env \<Rightarrow> (string \<Rightarrow> int) \<Rightarrow> compare_column list \<Rightarrow> compare_rules \<Rightarrow> compare_row \<Rightarrow> (compare_error, compare_row) result" where
  "normalize_compare_row env digest64 cols rules r =
     (let vs = map cell_value (row_values r) in
      rbind (lift_normalize (normalized_compare_identity env cols vs rules)) (\<lambda>identity.
      rbind (case row_hash64 r of Some h \<Rightarrow> Inr h | None \<Rightarrow> lift_normalize (compare_row_hash64 env digest64 cols vs rules)) (\<lambda>h.
      Inr (r\<lparr>row_values := map (\<lambda>(is_null, t). Norm is_null t) identity, row_hash64 := Some h, raw_values := Some (shown_values r)\<rparr>))))"

definition normalize_compare_rows ::
    "float_env \<Rightarrow> (string \<Rightarrow> int) \<Rightarrow> compare_row list \<Rightarrow> compare_column list option \<Rightarrow> compare_rules
     \<Rightarrow> (compare_error, compare_row list) result" where
  "normalize_compare_rows env digest64 rows cols rules =
     (case cols of None \<Rightarrow> Inr rows | Some cs \<Rightarrow> map_r (normalize_compare_row env digest64 cs rules) rows)"

text \<open>The range of the integer keys of both sides; \<open>min\<close> of no key raises.\<close>

definition key_range :: "string \<Rightarrow> int list \<Rightarrow> (compare_error, segment) result" where
  "key_range k ks = (case ks of [] \<Rightarrow> Inl No_integer_key
     | i # is \<Rightarrow> make_segment k (foldl min i is) (foldl max i is + 1))"

definition int_keys :: "compare_row list \<Rightarrow> int list" where
  "int_keys rows = List.map_filter int_pk rows"

definition compare_rows_without_prefilter ::
    "float_env \<Rightarrow> (string \<Rightarrow> int) \<Rightarrow> (cell list \<Rightarrow> int) \<Rightarrow> compare_row list \<Rightarrow> compare_row list \<Rightarrow> string
     \<Rightarrow> compare_column list option \<Rightarrow> compare_rules \<Rightarrow> (compare_error, diff_event list \<times> diff_progress) result" where
  "compare_rows_without_prefilter env digest64 tuple_hash source_rows target_rows k cols rules =
     rbind (normalize_compare_rows env digest64 source_rows cols rules) (\<lambda>s.
     rbind (normalize_compare_rows env digest64 target_rows cols rules) (\<lambda>t.
     rbind (if source_rows = [] \<and> target_rows = [] then make_segment k 0 0 else key_range k (int_keys (s @ t))) (\<lambda>seg.
     recursive_hashdiff env (static_row_reader tuple_hash s) (static_row_reader tuple_hash t) seg
       (default_limits\<lparr>recursive_checksum := False\<rparr>))))"

end
