(* ===== verification/Compare_Diff.thy ===== *)
theory Compare_Diff
  imports Compare_Kernel
begin

text \<open>
  The reference for the comparison: which event every key of two lists of rows has. The row-level
  comparison reports exactly these events, and the recursive one reports the events of the segments it
  does not skip.
\<close>

section \<open>The reference\<close>

definition row_with_key :: "compare_row list \<Rightarrow> pk_key \<Rightarrow> compare_row option" where
  "row_with_key rows k = find (\<lambda>r. pk_key r = k) rows"

definition source_event :: "compare_row list \<Rightarrow> compare_row \<Rightarrow> diff_event multiset" where
  "source_event T r = mset (event_for (row_pk r) (Some r) (row_with_key T (pk_key r)))"

definition target_event :: "compare_row \<Rightarrow> diff_event multiset" where
  "target_event r = mset (event_for (row_pk r) None (Some r))"

definition reference_diff :: "compare_row list \<Rightarrow> compare_row list \<Rightarrow> diff_event multiset" where
  "reference_diff S T = sum_list (map (source_event T) S) +
     sum_list (map target_event (filter (\<lambda>r. pk_key r \<notin> pk_key ` set S) T))"

definition real_differences :: "diff_event multiset \<Rightarrow> diff_event multiset" where
  "real_differences m = filter_mset (\<lambda>e. bucket e \<noteq> Same) m"

abbreviation keyed :: "compare_row list \<Rightarrow> (pk_key, compare_row) dict" where
  "keyed rows \<equiv> map (\<lambda>r. (pk_key r, r)) rows"

abbreviation unique_keys :: "compare_row list \<Rightarrow> bool" where
  "unique_keys rows \<equiv> distinct (map pk_key rows)"

section \<open>The row map\<close>

lemma row_map_fold:
  "\<exists>out. foldl add_row ([], 0, 0) rows =
     (out, int (length rows), int (length rows) - int (card (pk_key ` set rows))) \<and>
     fst ` set out = pk_key ` set rows \<and> (unique_keys rows \<longrightarrow> out = keyed rows)"
proof (induction rows rule: rev_induct)
  case (snoc r rows)
  then obtain out where out: "foldl add_row ([], 0, 0) rows =
      (out, int (length rows), int (length rows) - int (card (pk_key ` set rows)))"
    "fst ` set out = pk_key ` set rows" "unique_keys rows \<longrightarrow> out = keyed rows" by auto
  have "dict_get out (pk_key r) = None \<longleftrightarrow> pk_key r \<notin> pk_key ` set rows"
    using out(2) by (simp add: map_of_eq_None_iff)
  then have "foldl add_row ([], 0, 0) (rows @ [r]) = (dict_set out (pk_key r) r, int (length (rows @ [r])),
      int (length (rows @ [r])) - int (card (pk_key ` set (rows @ [r]))))"
    using out(1) by (simp add: add_row_def [of "(out, _)"] card_insert_if)
  moreover have "fst ` set (dict_set out (pk_key r) r) = pk_key ` set (rows @ [r])"
    using out(2) by (simp add: dict_keys_set)
  moreover have "unique_keys (rows @ [r]) \<longrightarrow> dict_set out (pk_key r) r = keyed (rows @ [r])"
    using out(2,3) dict_keys_set_new [of "pk_key r" out r] by auto
  ultimately show ?case by blast
qed simp

lemma keys_unique_iff: "card (pk_key ` set rows) = length rows \<longleftrightarrow> unique_keys rows"
  using card_distinct [of "map pk_key rows"] distinct_card [of "map pk_key rows"] by auto

lemma row_map_eq:
  "row_map sd rows = (if unique_keys rows then Inr (keyed rows)
     else Inl (Duplicate_keys sd (int (length rows) - int (card (pk_key ` set rows))) (int (length rows))))"
proof -
  obtain out where out: "foldl add_row ([], 0, 0) rows =
      (out, int (length rows), int (length rows) - int (card (pk_key ` set rows)))"
    "unique_keys rows \<longrightarrow> out = keyed rows" using row_map_fold [of rows] by blast
  show ?thesis unfolding row_map_def out(1) using out(2) keys_unique_iff [of rows] by auto
qed

lemma keyed_get: "dict_get (keyed rows) k = row_with_key rows k"
  by (induction rows) (auto simp: row_with_key_def)

lemma row_with_key_None: "row_with_key rows k = None \<longleftrightarrow> k \<notin> pk_key ` set rows"
  by (auto simp: row_with_key_def find_None_iff)

lemma row_with_key_member: "unique_keys rows \<Longrightarrow> r \<in> set rows \<Longrightarrow> row_with_key rows (pk_key r) = Some r"
  by (simp add: keyed_get [symmetric] comp_def)

lemma mset_insert_key: "mset (insert_key f x ys) = add_mset x (mset ys)"
  by (induction ys) auto

lemma sorted_compare_keys_mset: "mset (sorted_compare_keys env ks) = mset ks"
  unfolding sorted_compare_keys_def by (induction ks) (auto simp: mset_insert_key)

lemma mset_concat_sum: "mset (concat (map f xs)) = sum_list (map (\<lambda>x. mset (f x)) xs)"
  by (induction xs) auto

lemma sum_list_mset_cong: "mset xs = mset ys \<Longrightarrow> sum_list (map (f :: 'a \<Rightarrow> 'b multiset) xs) = sum_list (map f ys)"
  by (metis mset_map sum_mset_sum_list)

section \<open>Row level\<close>

lemma diff_rows_reference:
  assumes "unique_keys S" "unique_keys T"
  shows "\<exists>es. diff_rows env S T = Inr es \<and> mset es = reference_diff S T"
proof -
  let ?ev = "\<lambda>(k, pk). mset (event_for pk (row_with_key S k) (row_with_key T k))"
  let ?ks = "union_keys (keyed S) (keyed T)"
  let ?es = "concat (map (\<lambda>(k, pk). event_for pk (row_with_key S k) (row_with_key T k)) (sorted_compare_keys env ?ks))"
  have run: "diff_rows env S T = Inr ?es"
    using assms by (simp add: diff_rows_def row_map_eq keyed_get)
  have ks: "?ks = map (\<lambda>r. (pk_key r, row_pk r)) S @
      map (\<lambda>r. (pk_key r, row_pk r)) (filter (\<lambda>r. pk_key r \<notin> pk_key ` set S) T)"
    by (simp add: union_keys_def keyed_get row_with_key_None filter_map comp_def)
  have "mset ?es = sum_list (map ?ev (sorted_compare_keys env ?ks))"
    by (simp add: mset_concat_sum case_prod_beta')
  also have "\<dots> = sum_list (map ?ev ?ks)" by (rule sum_list_mset_cong) (rule sorted_compare_keys_mset)
  also have "\<dots> = sum_list (map (\<lambda>r. mset (event_for (row_pk r) (row_with_key S (pk_key r)) (row_with_key T (pk_key r)))) S) +
      sum_list (map (\<lambda>r. mset (event_for (row_pk r) (row_with_key S (pk_key r)) (row_with_key T (pk_key r))))
        (filter (\<lambda>r. pk_key r \<notin> pk_key ` set S) T))"
    unfolding ks by (simp add: comp_def)
  also have "\<dots> = reference_diff S T"
    unfolding reference_diff_def source_event_def target_event_def
    using row_with_key_member [OF assms(1)] row_with_key_member [OF assms(2)]
    by (intro arg_cong2 [of _ _ _ _ "(+)"] arg_cong [of _ _ sum_list] map_cong refl)
       (auto simp: row_with_key_None [THEN iffD2])
  finally show ?thesis using run by blast
qed

lemma diff_rows_error:
  "\<not> (unique_keys S \<and> unique_keys T) \<Longrightarrow> \<exists>sd d n. diff_rows env S T = Inl (Duplicate_keys sd d n)"
  by (auto simp: diff_rows_def row_map_eq)

section \<open>Segments partition the key range\<close>

abbreviation seg_range :: "segment \<Rightarrow> int list" where
  "seg_range seg \<equiv> [seg_start seg .. seg_end seg - 1]"

lemma split_from_ranges: "a \<le> b \<Longrightarrow> concat (map seg_range (split_from k c a b)) = [a .. b - 1]"
proof (induction k c a b rule: split_from.induct)
  case (1 k c a b)
  show ?case
  proof (cases "a < b")
    case True
    let ?e = "min b (a + max 1 c)"
    have "[a .. b - 1] = [a .. ?e - 1] @ [?e .. b - 1]"
      using True upto_split1 [of a "a + max 1 c" "b - 1"] by (cases "a + max 1 c < b") (auto simp: min_def)
    with 1 True show ?thesis by (simp add: split_from.simps [of k c a b] Let_def)
  qed (simp add: split_from.simps)
qed

lemma split_from_nonempty: "list_all (\<lambda>s. key_column s = k \<and> seg_start s < seg_end s \<and> seg_end s - seg_start s \<le> max 1 c) (split_from k c a b)"
  by (induction k c a b rule: split_from.induct) (subst split_from.simps, auto simp: Let_def)

lemma split_from_length: "a < b \<Longrightarrow> 1 \<le> c \<Longrightarrow> (int (length (split_from k c a b)) - 1) * c < b - a"
proof (induction k c a b rule: split_from.induct)
  case (1 k c a b)
  show ?case
  proof (cases "a + c < b")
    case True
    with 1 have "(int (length (split_from k c (a + c) b)) - 1) * c < b - (a + c)" by (simp add: Let_def)
    with True 1 show ?thesis by (simp add: split_from.simps [of k c a b] Let_def algebra_simps)
  qed (use 1 in \<open>simp add: split_from.simps [of k c a b] split_from.simps [of k c b b]\<close>)
qed

lemma ceil_div_bounds:
  fixes w :: int
  assumes "0 < w" "1 \<le> f"
  shows "1 \<le> (w + f - 1) div f" "w \<le> (w + f - 1) div f * f"
proof -
  have "(w + f - 1) div f * f + (w + f - 1) mod f = w + f - 1" by simp
  moreover have "(w + f - 1) mod f < f" "0 \<le> (w + f - 1) mod f" using assms by simp_all
  ultimately show *: "w \<le> (w + f - 1) div f * f" by linarith
  then show "1 \<le> (w + f - 1) div f" using assms by (smt (verit) mult_nonneg_nonneg mult_le_0_iff)
qed

lemma split_segment_ranges:
  "concat (map seg_range (split_segment seg f)) = seg_range seg"
  by (cases "seg_start seg \<le> seg_end seg") (auto simp: split_segment_def estimated_rows_def Let_def split_from_ranges)

lemma split_segment_length:
  assumes "1 \<le> f"
  shows "int (length (split_segment seg f)) \<le> f"
proof (cases "seg_start seg < seg_end seg")
  case True
  let ?w = "seg_end seg - seg_start seg" let ?c = "(?w + f - 1) div f"
  let ?n = "int (length (split_segment seg f))"
  have c: "1 \<le> ?c" "?w \<le> ?c * f" using ceil_div_bounds [of ?w f] True assms by auto
  have eq: "split_segment seg f = split_from (key_column seg) ?c (seg_start seg) (seg_end seg)"
    using True by (simp add: split_segment_def estimated_rows_def)
  have "(?n - 1) * ?c < ?w" unfolding eq by (rule split_from_length) (use True c in auto)
  then have "(?n - 1) * ?c < f * ?c" using c(2) by (simp add: mult.commute)
  then have "?n - 1 < f" using c(1) by (simp add: mult_less_cancel_right)
  then show ?thesis by simp
qed (use assms in \<open>auto simp: split_segment_def estimated_rows_def\<close>)

lemma split_segment_nonempty:
  "s \<in> set (split_segment seg f) \<Longrightarrow> key_column s = key_column seg \<and> seg_start s < seg_end s"
  using split_from_nonempty [of "key_column seg" "(estimated_rows seg + f - 1) div f" "seg_start seg" "seg_end seg"]
  by (auto simp: split_segment_def Let_def list_all_iff split: if_splits)

section \<open>The differences of a segment are those of its parts\<close>

definition segment_diff :: "compare_row list \<Rightarrow> compare_row list \<Rightarrow> segment \<Rightarrow> diff_event multiset" where
  "segment_diff S T seg = reference_diff (filter (in_segment seg) S) (filter (in_segment seg) T)"

lemma int_pk_key:
  assumes "pk_key r = pk_key q" "int_pk r = Some i" "int_pk q = Some j"
  shows "i = j"
  using assms by (auto simp: pk_key_def int_pk_def key_of_def value_num_def scalar_num_def split: list.splits db_value.splits scalar.splits if_splits)

lemma in_segment_same_key:
  assumes "pk_key r = pk_key q" "in_segment s q" "in_segment s' r" "in_segment s'' q" 
  shows "in_segment s r"
  using assms int_pk_key [OF assms(1)] by (auto simp: in_segment_def split: option.splits)

lemma reference_diff_split:
  assumes s: "mset S = mset S1 + mset S2" and t: "mset T = mset T1 + mset T2"
    and s1: "\<And>r. r \<in> set S1 \<Longrightarrow> row_with_key T (pk_key r) = row_with_key T1 (pk_key r)"
    and s2: "\<And>r. r \<in> set S2 \<Longrightarrow> row_with_key T (pk_key r) = row_with_key T2 (pk_key r)"
    and t1: "\<And>r. r \<in> set T1 \<Longrightarrow> pk_key r \<in> pk_key ` set S \<longleftrightarrow> pk_key r \<in> pk_key ` set S1"
    and t2: "\<And>r. r \<in> set T2 \<Longrightarrow> pk_key r \<in> pk_key ` set S \<longleftrightarrow> pk_key r \<in> pk_key ` set S2"
  shows "reference_diff S T = reference_diff S1 T1 + reference_diff S2 T2"
proof -
  have "sum_list (map (source_event T) S) = sum_list (map (source_event T) (S1 @ S2))"
    by (rule sum_list_mset_cong) (simp add: s)
  also have "\<dots> = sum_list (map (source_event T1) S1) + sum_list (map (source_event T2) S2)"
    using s1 s2 by (simp add: source_event_def cong: map_cong)
  finally have src: "sum_list (map (source_event T) S) = \<dots>" .
  let ?new = "\<lambda>S r. pk_key r \<notin> pk_key ` set S"
  have "sum_list (map target_event (filter (?new S) T)) = sum_list (map target_event (filter (?new S) (T1 @ T2)))"
    by (rule sum_list_mset_cong) (simp add: mset_filter t)
  also have "\<dots> = sum_list (map target_event (filter (?new S1) T1)) + sum_list (map target_event (filter (?new S2) T2))"
    using t1 t2 by (simp cong: filter_cong)
  finally show ?thesis using src by (simp add: reference_diff_def)
qed

lemma find_filter: "find P (filter Q xs) = find (\<lambda>x. Q x \<and> P x) xs"
  by (induction xs) auto

lemma find_pred_cong: "(\<And>x. x \<in> set xs \<Longrightarrow> P x = Q x) \<Longrightarrow> find P xs = find Q xs"
  by (induction xs) auto

lemma segment_diff_split:
  assumes "a \<le> b" "b \<le> c"
  shows "segment_diff S T \<lparr>key_column = k, seg_start = a, seg_end = c\<rparr> =
    segment_diff S T \<lparr>key_column = k, seg_start = a, seg_end = b\<rparr> + segment_diff S T \<lparr>key_column = k, seg_start = b, seg_end = c\<rparr>"
proof -
  let ?w = "\<lparr>key_column = k, seg_start = a, seg_end = c\<rparr>" and ?l = "\<lparr>key_column = k, seg_start = a, seg_end = b\<rparr>"
    and ?r = "\<lparr>key_column = k, seg_start = b, seg_end = c\<rparr>"
  have part: "in_segment ?w x \<longleftrightarrow> in_segment ?l x \<or> in_segment ?r x" "\<not> (in_segment ?l x \<and> in_segment ?r x)" for x
    using assms by (auto simp: in_segment_def split: option.splits)
  have sum: "mset (filter (in_segment ?w) xs) = mset (filter (in_segment ?l) xs) + mset (filter (in_segment ?r) xs)" for xs
    using part by (induction xs) auto
  have same: "p \<in> {?l, ?r} \<Longrightarrow> in_segment p x \<Longrightarrow> pk_key y = pk_key x \<Longrightarrow> in_segment ?w y \<longleftrightarrow> in_segment p y" for p x y
    using assms int_pk_key [of y x] by (auto simp: in_segment_def split: option.splits)
  have look: "p \<in> {?l, ?r} \<Longrightarrow> in_segment p x \<Longrightarrow>
      row_with_key (filter (in_segment ?w) xs) (pk_key x) = row_with_key (filter (in_segment p) xs) (pk_key x)" for p x xs
    unfolding row_with_key_def find_filter by (rule find_pred_cong) (use same in blast)
  have mem: "p \<in> {?l, ?r} \<Longrightarrow> in_segment p x \<Longrightarrow>
      pk_key x \<in> pk_key ` set (filter (in_segment ?w) xs) \<longleftrightarrow> pk_key x \<in> pk_key ` set (filter (in_segment p) xs)" for p x xs
    using look [of p x xs] row_with_key_None by metis
  show ?thesis unfolding segment_diff_def
    by (rule reference_diff_split [OF sum sum]) (use look mem in simp_all)
qed

lemma segment_diff_from: "a \<le> b \<Longrightarrow>
  sum_list (map (segment_diff S T) (split_from k c a b)) = segment_diff S T \<lparr>key_column = k, seg_start = a, seg_end = b\<rparr>"
proof (induction k c a b rule: split_from.induct)
  case (1 k c a b)
  show ?case
  proof (cases "a < b")
    case True
    with 1 segment_diff_split [of a "min b (a + max 1 c)" b S T k] show ?thesis
      by (simp add: split_from.simps [of k c a b] Let_def)
  next
    case False
    then have "\<not> in_segment \<lparr>key_column = k, seg_start = a, seg_end = b\<rparr> x" for x
      by (auto simp: in_segment_def split: option.splits)
    with False show ?thesis by (simp add: split_from.simps [of k c a b] segment_diff_def reference_diff_def)
  qed
qed

lemma segment_diff_empty: "estimated_rows seg = 0 \<Longrightarrow> segment_diff S T seg = {#}"
proof -
  assume "estimated_rows seg = 0"
  then have "\<not> in_segment seg x" for x by (auto simp: in_segment_def estimated_rows_def split: option.splits)
  then show ?thesis by (simp add: segment_diff_def reference_diff_def)
qed

lemma segment_diff_children:
  "sum_list (map (segment_diff S T) (split_segment seg f)) = segment_diff S T seg"
proof (cases "estimated_rows seg = 0")
  case False
  then have "seg_start seg \<le> seg_end seg" by (simp add: estimated_rows_def max_def split: if_splits)
  then have "sum_list (map (segment_diff S T) (split_segment seg f)) =
      segment_diff S T \<lparr>key_column = key_column seg, seg_start = seg_start seg, seg_end = seg_end seg\<rparr>"
    using False by (simp add: split_segment_def Let_def segment_diff_from)
  also have "\<lparr>key_column = key_column seg, seg_start = seg_start seg, seg_end = seg_end seg\<rparr> = seg" by simp
  finally show ?thesis .
qed (simp add: split_segment_def segment_diff_empty)

section \<open>Readers\<close>

text \<open>
  What the recursion relies on: a reader returns the rows of one table whose key lies in the segment.
  Nothing is assumed of its fingerprints.
\<close>

locale segment_reader =
  fixes rd :: reader and rows :: "compare_row list"
  assumes fetch: "fetch_rows rd seg = filter (in_segment seg) rows"

interpretation static_reader: segment_reader "static_row_reader tuple_hash rows" rows
  for tuple_hash rows
  by unfold_locales (simp add: static_row_reader_def)

definition inside :: "segment \<Rightarrow> segment \<Rightarrow> bool" where
  "inside seg outer \<longleftrightarrow> seg_start outer \<le> seg_start seg \<and> seg_end seg \<le> seg_end outer"

lemma inside_rows: "inside seg outer \<Longrightarrow> filter (in_segment seg) (filter (in_segment outer) rows) = filter (in_segment seg) rows"
  by (auto simp: inside_def in_segment_def split: option.splits intro!: filter_cong)

lemma inside_split:
  assumes "inside seg outer" "s \<in> set (split_segment seg f)"
  shows "inside s outer"
proof -
  have ne: "seg_start s \<le> seg_end s - 1" using split_segment_nonempty [OF assms(2)] by simp
  have "(\<Union>q\<in>set (split_segment seg f). {seg_start q .. seg_end q - 1}) = {seg_start seg .. seg_end seg - 1}"
    using arg_cong [OF split_segment_ranges, of set seg f] by simp
  then have "{seg_start s .. seg_end s - 1} \<subseteq> {seg_start seg .. seg_end seg - 1}" using assms(2) by blast
  then have "seg_start seg \<le> seg_start s" "seg_end s \<le> seg_end seg" using ne by auto
  with assms(1) show ?thesis by (simp add: inside_def)
qed

text \<open>A round of the loop, by its three outcomes.\<close>

definition descends :: "reader \<Rightarrow> reader \<Rightarrow> run_limits \<Rightarrow> segment \<Rightarrow> int \<Rightarrow> bool" where
  "descends source target limits seg depth \<longleftrightarrow>
     max (row_count (segment_fingerprint source seg)) (row_count (segment_fingerprint target seg)) > bisection_threshold limits \<and>
     depth < max_bisection_depth limits \<and> estimated_rows seg > 1"

abbreviation agree :: "reader \<Rightarrow> reader \<Rightarrow> segment \<Rightarrow> bool" where
  "agree source target seg \<equiv> segment_fingerprint source seg = segment_fingerprint target seg"

abbreviation children :: "run_limits \<Rightarrow> segment \<Rightarrow> int \<Rightarrow> (segment \<times> int) list" where
  "children limits seg depth \<equiv> map (\<lambda>c. (c, depth + 1)) (split_segment seg (bisection_factor limits))"

abbreviation count_skipped :: "reader \<Rightarrow> segment \<Rightarrow> diff_progress \<Rightarrow> diff_progress" where
  "count_skipped source seg p \<equiv> p\<lparr>skipped_segments := skipped_segments p + 1,
     skipped_rows := skipped_rows p + row_count (segment_fingerprint source seg)\<rparr>"

abbreviation count_recursed :: "diff_progress \<Rightarrow> diff_progress" where
  "count_recursed p \<equiv> p\<lparr>recursed_segments := recursed_segments p + 1\<rparr>"

abbreviation count_rows :: "diff_progress \<Rightarrow> diff_progress" where
  "count_rows p \<equiv> p\<lparr>row_mode_segments := row_mode_segments p + 1\<rparr>"

lemma hashdiff_loop_skip:
  "agree source target seg \<Longrightarrow> hashdiff_loop D source target limits ((seg, depth) # stack) events p =
     hashdiff_loop D source target limits stack events (count_skipped source seg (note_depth depth p))"
  by (simp add: Let_def)

lemma hashdiff_loop_descend:
  "\<not> agree source target seg \<Longrightarrow> descends source target limits seg depth \<Longrightarrow>
   hashdiff_loop D source target limits ((seg, depth) # stack) events p =
     hashdiff_loop D source target limits (children limits seg depth @ stack) events (count_recursed (note_depth depth p))"
  by (simp add: Let_def descends_def)

lemma hashdiff_loop_rows:
  "\<not> agree source target seg \<Longrightarrow> \<not> descends source target limits seg depth \<Longrightarrow>
   hashdiff_loop D source target limits ((seg, depth) # stack) events p =
     (case D seg of Inl e \<Rightarrow> (events, count_rows (note_depth depth p), Some e)
      | Inr es \<Rightarrow> hashdiff_loop D source target limits stack (events @ es) (count_rows (note_depth depth p)))"
  unfolding descends_def by (simp only: hashdiff_loop.simps(2) Let_def if_False)

lemma hashdiff_loop_rule [case_names Empty Skip Descend Rows]:
  assumes empty: "\<And>events p. P [] events p"
    and skip: "\<And>seg depth stack events p. agree source target seg \<Longrightarrow>
      P stack events (count_skipped source seg (note_depth depth p)) \<Longrightarrow> P ((seg, depth) # stack) events p"
    and descend: "\<And>seg depth stack events p. \<not> agree source target seg \<Longrightarrow> descends source target limits seg depth \<Longrightarrow>
      P (children limits seg depth @ stack) events (count_recursed (note_depth depth p)) \<Longrightarrow> P ((seg, depth) # stack) events p"
    and rows: "\<And>seg depth stack events p. \<not> agree source target seg \<Longrightarrow> \<not> descends source target limits seg depth \<Longrightarrow>
      (\<And>es. P stack (events @ es) (count_rows (note_depth depth p))) \<Longrightarrow> P ((seg, depth) # stack) events p"
  shows "P stack events p"
proof (induction "depth_left limits stack" arbitrary: stack events p rule: wf_induct_rule [OF wf_mult [OF wf_less_than]])
  case less: (1 stack events p)
  show ?case
  proof (cases stack)
    case (Cons x rest)
    obtain seg depth where x: "x = (seg, depth)" by (cases x)
    have pop: "P rest events' p'" for events' p'
      by (rule less) (simp add: Cons depth_left_pop)
    have push: "depth < max_bisection_depth limits \<Longrightarrow> P (children limits seg depth @ rest) events' p'" for events' p'
      by (rule less) (simp add: Cons x depth_left_push)
    consider "agree source target seg" | "\<not> agree source target seg" "descends source target limits seg depth"
      | "\<not> agree source target seg" "\<not> descends source target limits seg depth" by blast
    then have "P ((seg, depth) # rest) events p"
    proof cases
      case 1 then show ?thesis by (rule skip) (rule pop)
    next
      case 2 then show ?thesis by (rule descend) (rule push, use 2(2) in \<open>simp add: descends_def\<close>)
    next
      case 3 then show ?thesis by (rule rows) (rule pop)
    qed
    then show ?thesis by (simp only: Cons x)
  qed (simp add: empty)
qed

text \<open>Every event of the segments on the stack is reported or belongs to a skipped segment.\<close>

abbreviation rows_counted :: "reader \<Rightarrow> segment list \<Rightarrow> int" where
  "rows_counted source segs \<equiv> sum_list (map (\<lambda>s. row_count (segment_fingerprint source s)) segs)"

definition accounts ::
    "reader \<Rightarrow> reader \<Rightarrow> (segment \<Rightarrow> diff_event multiset) \<Rightarrow> segment \<Rightarrow> diff_event multiset \<Rightarrow> int \<Rightarrow> stream
     \<Rightarrow> bool" where
  "accounts source target F whole expected base out \<longleftrightarrow> (case out of (es, p, err) \<Rightarrow> err = None \<and>
     (\<exists>skipped. mset es + sum_list (map F skipped) = expected \<and>
        skipped_rows p = base + rows_counted source skipped \<and>
        list_all (\<lambda>s. inside s whole \<and> agree source target s) skipped))"

lemma accounts_skip:
  assumes "accounts source target F whole m (base + row_count (segment_fingerprint source seg)) out"
    "inside seg whole" "agree source target seg"
  shows "accounts source target F whole (m + F seg) base out"
proof -
  obtain es p err where out: "out = (es, p, err)" by (cases out)
  with assms(1) obtain skipped where "err = None" "mset es + sum_list (map F skipped) = m"
    "skipped_rows p = base + row_count (segment_fingerprint source seg) + rows_counted source skipped"
    "list_all (\<lambda>s. inside s whole \<and> agree source target s) skipped" by (auto simp: accounts_def)
  with assms(2,3) show ?thesis unfolding accounts_def out by (auto simp: ac_simps intro!: exI [of _ "seg # skipped"])
qed

lemma loop_accounts:
  assumes D: "\<And>seg. inside seg whole \<Longrightarrow> \<exists>es. D seg = Inr es \<and> mset es = F seg"
    and split: "\<And>seg. sum_list (map F (split_segment seg (bisection_factor limits))) = F seg"
    and "list_all (\<lambda>(s, _). inside s whole) stack"
  shows "accounts source target F whole (mset events + sum_list (map (\<lambda>(s, _). F s) stack)) (skipped_rows p)
    (hashdiff_loop D source target limits stack events p)"
  using assms(3)
proof (induction stack events p rule: hashdiff_loop_rule [of _ source target limits])
  case (Empty events p)
  show ?case by (auto simp: accounts_def intro!: exI [of _ "[]"])
next
  case (Skip seg depth stack events p)
  then have "inside seg whole" "list_all (\<lambda>(s, _). inside s whole) stack" by simp_all
  then have "accounts source target F whole (mset events + sum_list (map (\<lambda>(s, _). F s) stack))
      (skipped_rows p + row_count (segment_fingerprint source seg))
      (hashdiff_loop D source target limits stack events (count_skipped source seg (note_depth depth p)))"
    using Skip(2) by simp
  from accounts_skip [OF this _ Skip(1)] Skip(3) show ?case
    by (simp only: hashdiff_loop_skip [OF Skip(1)]) (simp add: ac_simps)
next
  case (Descend seg depth stack events p)
  then have "list_all (\<lambda>(s, _). inside s whole) (children limits seg depth @ stack)"
    using inside_split [of seg whole] by (auto simp: list_all_iff)
  from Descend(3) [OF this] show ?case
    by (simp only: hashdiff_loop_descend [OF Descend(1,2)]) (simp add: comp_def split)
next
  case (Rows seg depth stack events p)
  then have seg: "inside seg whole" and rest: "list_all (\<lambda>(s, _). inside s whole) stack" by simp_all
  obtain es where es: "D seg = Inr es" "mset es = F seg" using D [OF seg] by blast
  from Rows(3) [OF rest, of es] show ?case
    by (simp only: hashdiff_loop_rows [OF Rows(1,2)]) (simp add: es ac_simps)
qed

text \<open>The keys of the range are unique on both sides.\<close>

definition unique_in :: "compare_row list \<Rightarrow> compare_row list \<Rightarrow> segment \<Rightarrow> bool" where
  "unique_in S T whole \<longleftrightarrow> unique_keys (filter (in_segment whole) S) \<and> unique_keys (filter (in_segment whole) T)"

locale reader_pair = src: segment_reader source S + tgt: segment_reader target T
  for source S target T
begin

lemma unique_within:
  assumes "unique_in S T whole" "inside seg whole"
  shows "unique_keys (filter (in_segment seg) S)" "unique_keys (filter (in_segment seg) T)"
proof -
  note assms(1) [unfolded unique_in_def]
  then show "unique_keys (filter (in_segment seg) S)" "unique_keys (filter (in_segment seg) T)"
    using distinct_map_filter [of pk_key "filter (in_segment whole) S" "in_segment seg"]
      distinct_map_filter [of pk_key "filter (in_segment whole) T" "in_segment seg"]
    by (simp_all only: inside_rows [OF assms(2)])
qed

lemma row_level_inside:
  "unique_in S T whole \<Longrightarrow> inside seg whole \<Longrightarrow> \<exists>es. row_level_diff env source target seg = Inr es \<and> mset es = segment_diff S T seg"
  unfolding row_level_diff_def src.fetch tgt.fetch segment_diff_def by (intro diff_rows_reference unique_within [of whole])

lemma stream_accounts:
  assumes unique: "unique_in S T whole"
  shows "\<exists>es p skipped. recursive_hashdiff_stream env source target whole limits = (es, p, None) \<and>
    mset es + sum_list (map (segment_diff S T) skipped) = segment_diff S T whole \<and>
    skipped_rows p = rows_counted source skipped \<and> list_all (\<lambda>s. inside s whole \<and> segment_fingerprint source s = segment_fingerprint target s) skipped"
proof (cases "\<not> recursive_checksum limits \<or> estimated_rows whole \<le> bisection_threshold limits")
  case True
  obtain es where "row_level_diff env source target whole = Inr es" "mset es = segment_diff S T whole"
    using row_level_inside [OF unique, of whole] by (auto simp: inside_def)
  with True show ?thesis
    by (intro exI [of _ es] exI [of _ "new_progress\<lparr>row_mode_segments := 1\<rparr>"] exI [of _ "[]"])
      (simp add: recursive_hashdiff_stream_def Let_def new_progress_def)
next
  case False
  let ?stack = "map (\<lambda>s. (s, 0)) (split_segment whole (bisection_factor limits))"
  have stack: "list_all (\<lambda>(s, _). inside s whole) ?stack" using inside_split [of whole whole] by (auto simp: list_all_iff inside_def)
  have "accounts source target (segment_diff S T) whole (segment_diff S T whole) 0
      (hashdiff_loop (row_level_diff env source target) source target limits ?stack [] new_progress)"
    using loop_accounts [of whole "row_level_diff env source target" "segment_diff S T" limits ?stack source target "[]" new_progress,
        OF row_level_inside [OF unique] segment_diff_children stack]
    by (simp add: comp_def segment_diff_children new_progress_def)
  then obtain es p skipped where
    "hashdiff_loop (row_level_diff env source target) source target limits ?stack [] new_progress = (es, p, None)"
    "mset es + sum_list (map (segment_diff S T) skipped) = segment_diff S T whole"
    "skipped_rows p = rows_counted source skipped"
    "list_all (\<lambda>s. inside s whole \<and> agree source target s) skipped"
    by (auto simp: accounts_def split: prod.splits)
  with False show ?thesis
    by (intro exI [of _ es] exI [of _ p] exI [of _ skipped])
      (simp add: recursive_hashdiff_stream_def Let_def new_progress_def)
qed

lemma stream_and_rows:
  assumes unique: "unique_in S T whole"
  shows "\<exists>es p full skipped. recursive_hashdiff env source target whole limits = Inr (es, p) \<and>
    row_level_diff env source target whole = Inr full \<and>
    mset es + sum_list (map (segment_diff S T) skipped) = mset full \<and>
    list_all (\<lambda>s. inside s whole \<and> agree source target s) skipped"
proof -
  obtain full where full: "row_level_diff env source target whole = Inr full" "mset full = segment_diff S T whole"
    using row_level_inside [OF unique, of whole] by (auto simp: inside_def)
  obtain es p skipped where "recursive_hashdiff_stream env source target whole limits = (es, p, None)"
      "mset es + sum_list (map (segment_diff S T) skipped) = segment_diff S T whole"
      "list_all (\<lambda>s. inside s whole \<and> agree source target s) skipped"
    using stream_accounts [OF unique, of env limits] by blast
  with full show ?thesis by (intro exI [of _ es] exI [of _ p] exI [of _ full] exI [of _ skipped]) (simp add: recursive_hashdiff_def)
qed

end

interpretation static_pair: reader_pair "static_row_reader h rows" rows "static_row_reader h' rows'" rows'
  for h rows h' rows'
  by unfold_locales

section \<open>Effort\<close>

definition effort_inv :: "run_limits \<Rightarrow> (segment \<times> int) list \<Rightarrow> diff_progress \<Rightarrow> bool" where
  "effort_inv limits stack p \<longleftrightarrow>
     scanned_segments p = skipped_segments p + recursed_segments p + row_mode_segments p \<and>
     scanned_segments p + int (length stack) \<le> bisection_factor limits * (recursed_segments p + 1) \<and>
     max_depth_seen p \<le> max_bisection_depth limits \<and> list_all (\<lambda>(_, d). d \<le> max_bisection_depth limits) stack"

lemma loop_effort:
  assumes "1 \<le> bisection_factor limits" and "effort_inv limits stack p"
  shows "case hashdiff_loop D source target limits stack events p of (es, q, err) \<Rightarrow>
    effort_inv limits [] q \<and> (\<forall>e. err = Some e \<longrightarrow> (\<exists>seg. D seg = Inl e))"
  using assms(2)
proof (induction stack events p rule: hashdiff_loop_rule [of _ source target limits])
  case (Skip seg depth stack events p)
  from Skip(3) have "effort_inv limits stack (count_skipped source seg (note_depth depth p))" by (auto simp: effort_inv_def)
  from Skip(2) [OF this] show ?case by (simp only: hashdiff_loop_skip [OF Skip(1)])
next
  case (Descend seg depth stack events p)
  have "effort_inv limits (children limits seg depth @ stack) (count_recursed (note_depth depth p))"
    using Descend(2,4) split_segment_length [OF assms(1), of seg]
    by (auto simp: effort_inv_def descends_def list_all_iff algebra_simps)
  from Descend(3) [OF this] show ?case by (simp only: hashdiff_loop_descend [OF Descend(1,2)])
next
  case (Rows seg depth stack events p)
  have inv: "effort_inv limits stack (count_rows (note_depth depth p))"
    and fin: "effort_inv limits [] (count_rows (note_depth depth p))"
    using Rows(4) by (auto simp: effort_inv_def)
  show ?case
  proof (cases "D seg")
    case (Inl e)
    with fin show ?thesis by (auto simp: hashdiff_loop_rows [OF Rows(1,2)] simp del: hashdiff_loop.simps)
  next
    case (Inr es)
    from Rows(3) [OF inv, of es] show ?thesis by (simp only: hashdiff_loop_rows [OF Rows(1,2)] Inr sum.case)
  qed
qed simp

section \<open>Buckets by key\<close>

text \<open>The bucket of a key, from the rows of both sides.\<close>

definition key_bucket :: "compare_row option \<Rightarrow> compare_row option \<Rightarrow> diff_bucket" where
  "key_bucket s t = (case (s, t) of (None, _) \<Rightarrow> Only_target | (_, None) \<Rightarrow> Only_source
     | (Some a, Some b) \<Rightarrow> if rows_equivalent a b then Same else Diff)"

lemma reference_buckets:
  assumes "unique_keys S" "unique_keys T"
  shows "image_mset (\<lambda>e. (map key_of (event_pk e), bucket e)) (reference_diff S T) =
    image_mset (\<lambda>k. (k, key_bucket (row_with_key S k) (row_with_key T k))) (mset_set (pk_key ` (set S \<union> set T)))"
proof -
  let ?g = "\<lambda>e. (map key_of (event_pk e), bucket e)"
  let ?h = "\<lambda>k. (k, key_bucket (row_with_key S k) (row_with_key T k))"
  let ?new = "filter (\<lambda>r. pk_key r \<notin> pk_key ` set S) T"
  have src: "image_mset ?g (source_event T r) = {#?h (pk_key r)#}" if "r \<in> set S" for r
    using row_with_key_member [OF assms(1) that]
    by (auto simp: source_event_def event_for_def key_bucket_def pk_key_def split: option.split)
  have tgt: "image_mset ?g (target_event r) = {#?h (pk_key r)#}" if "r \<in> set ?new" for r
    using that row_with_key_None [THEN iffD2, of "pk_key r" S]
    by (simp add: target_event_def event_for_def key_bucket_def flip: pk_key_def)
  have sum: "(\<And>x. x \<in> set xs \<Longrightarrow> image_mset ?g (f x) = {#?h (pk_key x)#}) \<Longrightarrow>
      image_mset ?g (sum_list (map f xs)) = image_mset ?h (mset (map pk_key xs))" for f xs
    by (induction xs) auto
  have "image_mset ?g (reference_diff S T) = image_mset ?h (mset (map pk_key S @ map pk_key ?new))"
    using sum [OF src, of S] sum [OF tgt, of ?new] by (simp add: reference_diff_def)
  also have "mset (map pk_key S @ map pk_key ?new) = mset_set (set (map pk_key S @ map pk_key ?new))"
    by (rule mset_set_set [symmetric]) (use assms in \<open>auto simp: distinct_map_filter image_iff\<close>)
  also have "set (map pk_key S @ map pk_key ?new) = pk_key ` (set S \<union> set T)" by auto
  finally show ?thesis .
qed

section \<open>Correctness of the comparison\<close>

text \<open>
  Comparing two lists of rows: when a key repeats, the comparison fails and names the side, the number of
  surplus rows and the number of rows, the source being looked at first; otherwise every key of either
  side is reported exactly once, in the bucket that its rows put it in.
\<close>

theorem diff_rows_correct:
  "case diff_rows env S T of
     Inl e \<Rightarrow> e = (if \<not> unique_keys S
                   then Duplicate_keys Source_side (int (length S) - int (card (pk_key ` set S))) (int (length S))
                   else Duplicate_keys Target_side (int (length T) - int (card (pk_key ` set T))) (int (length T))) \<and>
             \<not> (unique_keys S \<and> unique_keys T)
   | Inr es \<Rightarrow> unique_keys S \<and> unique_keys T \<and>
       mset (map (\<lambda>e. (map key_of (event_pk e), bucket e)) es) =
       image_mset (\<lambda>k. (k, key_bucket (row_with_key S k) (row_with_key T k))) (mset_set (pk_key ` (set S \<union> set T)))"
proof (cases "unique_keys S \<and> unique_keys T")
  case True
  then obtain es where es: "diff_rows env S T = Inr es" "mset es = reference_diff S T"
    using diff_rows_reference by blast
  with reference_buckets [of S T, folded es(2)] True show ?thesis by simp
next
  case False
  then show ?thesis by (auto simp: diff_rows_def row_map_eq)
qed

text \<open>
  C36. The recursive comparison finds what the plain one finds. For two readers that return the rows of
  their table in a key range, keys that are unique in the range, and fingerprints that agree only where
  the rows of the segment do not differ, the recursion ends without an error, reports no
  event that the row-level comparison of the whole range does not report, and reports
  exactly its differences: only the agreeing rows of skipped segments are left out.
\<close>

theorem recursive_hashdiff_equivalent:
  assumes "\<And>seg. fetch_rows source seg = filter (in_segment seg) S"
    and "\<And>seg. fetch_rows target seg = filter (in_segment seg) T"
    and "unique_keys (filter (in_segment whole) S)" "unique_keys (filter (in_segment whole) T)"
    and no_collision: "\<And>seg. inside seg whole \<Longrightarrow> segment_fingerprint source seg = segment_fingerprint target seg \<Longrightarrow>
      real_differences (segment_diff S T seg) = {#}"
  shows "\<exists>es p full. recursive_hashdiff env source target whole limits = Inr (es, p) \<and>
    row_level_diff env source target whole = Inr full \<and>
    mset es \<subseteq># mset full \<and> real_differences (mset es) = real_differences (mset full)"
proof -
  have pair: "reader_pair source S target T" by unfold_locales (rule assms)+
  have unique: "unique_in S T whole" using assms(3,4) by (simp add: unique_in_def)
  obtain es p full skipped where run: "recursive_hashdiff env source target whole limits = Inr (es, p)"
      "row_level_diff env source target whole = Inr full"
    and sum: "mset es + sum_list (map (segment_diff S T) skipped) = mset full"
    and sk: "list_all (\<lambda>s. inside s whole \<and> agree source target s) skipped"
    using reader_pair.stream_and_rows [OF pair unique, of env limits] by blast
  have "real_differences (sum_list (map (segment_diff S T) skipped)) = {#}"
    using sk by (induction skipped) (auto simp: real_differences_def dest: no_collision [unfolded real_differences_def])
  then have "real_differences (mset es) = real_differences (mset full)"
    unfolding sum [symmetric] by (simp add: real_differences_def)
  moreover have "mset es \<subseteq># mset full" unfolding sum [symmetric] by simp
  ultimately show ?thesis using run by blast
qed

text \<open>
  Fingerprints never make the recursion invent a difference: without any assumption on them, the events it
  reports are among those of the row-level comparison, and every event it leaves out belongs to a segment
  on which the fingerprints of the two sides agree.
\<close>

theorem recursive_hashdiff_sound:
  assumes "\<And>seg. fetch_rows source seg = filter (in_segment seg) S"
    and "\<And>seg. fetch_rows target seg = filter (in_segment seg) T"
    and "unique_keys (filter (in_segment whole) S)" "unique_keys (filter (in_segment whole) T)"
  shows "\<exists>es p full. recursive_hashdiff env source target whole limits = Inr (es, p) \<and>
    row_level_diff env source target whole = Inr full \<and> mset es \<subseteq># mset full \<and>
    (\<forall>e \<in># mset full - mset es. \<exists>seg. inside seg whole \<and> segment_fingerprint source seg = segment_fingerprint target seg \<and>
       e \<in># segment_diff S T seg)"
proof -
  have pair: "reader_pair source S target T" by unfold_locales (rule assms)+
  have unique: "unique_in S T whole" using assms(3,4) by (simp add: unique_in_def)
  obtain es p full skipped where run: "recursive_hashdiff env source target whole limits = Inr (es, p)"
      "row_level_diff env source target whole = Inr full"
    and sum: "mset es + sum_list (map (segment_diff S T) skipped) = mset full"
    and sk: "list_all (\<lambda>s. inside s whole \<and> agree source target s) skipped"
    using reader_pair.stream_and_rows [OF pair unique, of env limits] by blast
  have member: "e \<in># sum_list (map (segment_diff S T) ss) \<Longrightarrow> \<exists>s \<in> set ss. e \<in># segment_diff S T s" for e ss
    by (induction ss) auto
  have "mset full - mset es = sum_list (map (segment_diff S T) skipped)" by (simp flip: sum)
  then have "\<forall>e \<in># mset full - mset es. \<exists>seg. inside seg whole \<and> agree source target seg \<and> e \<in># segment_diff S T seg"
    using sk by (auto simp: list_all_iff dest!: member)
  moreover have "mset es \<subseteq># mset full" unfolding sum [symmetric] by simp
  ultimately show ?thesis using run by blast
qed

text \<open>
  Splitting a segment: the parts are non-empty, follow each other without gap or overlap from the start
  to the end of the segment, and are no more than the bisection factor.
\<close>

theorem split_segment_partitions:
  assumes "make_limits mx factor threshold depth rec_sum = Inr limits"
  shows "concat (map (\<lambda>s. [seg_start s .. seg_end s - 1]) (split_segment seg (bisection_factor limits))) =
      [seg_start seg .. seg_end seg - 1] \<and>
    list_all (\<lambda>s. key_column s = key_column seg \<and> seg_start s < seg_end s) (split_segment seg (bisection_factor limits)) \<and>
    int (length (split_segment seg (bisection_factor limits))) \<le> factor"
proof -
  from assms have f: "bisection_factor limits = factor" "1 \<le> factor" by (auto simp: make_limits_def split: if_splits)
  then show ?thesis
    using split_segment_ranges [of seg] split_segment_length [of factor seg] split_segment_nonempty [of _ seg factor]
    by (auto simp: list_all_iff)
qed

text \<open>
  The effort of the recursion is bounded by its limits, whatever the readers return: every segment scanned is skipped,
  split or compared row by row; no more than the bisection factor of segments is scanned for
  the range and for each segment split; and no segment deeper than the limit is looked at. An error comes from
  the row-level comparison of some segment.
\<close>

theorem hashdiff_effort:
  assumes "make_limits mx factor threshold depth rec_sum = Inr limits"
    and "recursive_hashdiff_stream env source target root_seg limits = (es, p, err)"
    and "scanned_segments p > 0"
  shows "scanned_segments p = skipped_segments p + recursed_segments p + row_mode_segments p \<and>
    scanned_segments p \<le> factor * (recursed_segments p + 1) \<and> max_depth_seen p \<le> depth \<and>
    (err = None \<or> (\<exists>seg. row_level_diff env source target seg = Inl (the err)))"
proof -
  let ?stack = "map (\<lambda>s. (s, 0)) (split_segment root_seg (bisection_factor limits))"
  let ?out = "hashdiff_loop (row_level_diff env source target) source target limits ?stack [] new_progress"
  from assms(1) have lim: "bisection_factor limits = factor" "1 \<le> factor" "max_bisection_depth limits = depth" "0 \<le> depth"
    by (auto simp: make_limits_def split: if_splits)
  have out: "?out = (es, p, err)"
    using assms(2,3) by (auto simp: recursive_hashdiff_stream_def Let_def new_progress_def split: if_splits sum.splits)
  have "effort_inv limits ?stack new_progress"
    using lim split_segment_length [of factor root_seg] by (auto simp: effort_inv_def new_progress_def list_all_iff)
  from loop_effort [OF _ this, of "row_level_diff env source target" source target "[]"] lim(1,2) out
  have "effort_inv limits [] p" "\<forall>e. err = Some e \<longrightarrow> (\<exists>seg. row_level_diff env source target seg = Inl e)"
    by simp_all
  then show ?thesis using lim by (cases err) (auto simp: effort_inv_def)
qed

section \<open>Instances\<close>

text \<open>Two tables with one row that differs, read from memory.\<close>

definition demo_row :: "int \<Rightarrow> string \<Rightarrow> compare_row" where
  "demo_row k v = \<lparr>row_pk = [Py (SInt k)], row_values = [Norm False v], row_hash64 = None, raw_values = None\<rparr>"

definition demo_hash :: "cell list \<Rightarrow> int" where
  "demo_hash cs = (if cs = [Norm False ''a''] then 1 else 2)"

abbreviation demo_source :: "compare_row list" where "demo_source \<equiv> [demo_row 5 ''a'']"
abbreviation demo_target :: "compare_row list" where "demo_target \<equiv> [demo_row 5 ''b'']"

definition demo_segment :: segment where
  "demo_segment = \<lparr>key_column = ''id'', seg_start = 0, seg_end = 16\<rparr>"

definition demo_limits :: run_limits where
  "demo_limits = \<lparr>max_rows = None, bisection_factor = 8, bisection_threshold = 1, max_bisection_depth = 2, recursive_checksum = True\<rparr>"

lemmas demo_unfold = demo_row_def demo_hash_def demo_segment_def static_row_reader_def in_segment_def int_pk_def

lemma demo_no_collision:
  assumes "segment_fingerprint (static_row_reader demo_hash demo_source) seg =
    segment_fingerprint (static_row_reader demo_hash demo_target) seg"
  shows "real_differences (segment_diff demo_source demo_target seg) = {#}"
proof -
  have "\<not> in_segment seg (demo_row 5 v)" for v using assms by (auto simp: demo_unfold split: if_splits)
  then show ?thesis by (simp add: segment_diff_def reference_diff_def real_differences_def)
qed

lemma demo_unique: "unique_keys (filter P [demo_row k v])"
  by simp

theorem recursive_hashdiff_equivalent_witness:
  "\<exists>es p full. recursive_hashdiff cmp_env (static_row_reader demo_hash demo_source)
      (static_row_reader demo_hash demo_target) demo_segment demo_limits = Inr (es, p) \<and>
    row_level_diff cmp_env (static_row_reader demo_hash demo_source) (static_row_reader demo_hash demo_target)
      demo_segment = Inr full \<and>
    mset es \<subseteq># mset full \<and> real_differences (mset es) = real_differences (mset full)"
  by (rule recursive_hashdiff_equivalent [OF static_reader.fetch static_reader.fetch demo_unique demo_unique])
    (rule demo_no_collision)

theorem recursive_hashdiff_sound_witness:
  "\<exists>es p full. recursive_hashdiff cmp_env (static_row_reader demo_hash demo_source)
      (static_row_reader demo_hash demo_target) demo_segment demo_limits = Inr (es, p) \<and>
    row_level_diff cmp_env (static_row_reader demo_hash demo_source) (static_row_reader demo_hash demo_target)
      demo_segment = Inr full \<and> mset es \<subseteq># mset full"
  using recursive_hashdiff_sound [OF static_reader.fetch static_reader.fetch demo_unique demo_unique,
      of cmp_env demo_hash 5 "''a''" demo_hash 5 "''b''" demo_segment demo_limits]
  by blast

theorem split_segment_partitions_witness:
  "concat (map (\<lambda>s. [seg_start s .. seg_end s - 1]) (split_segment demo_segment (bisection_factor demo_limits))) =
     [seg_start demo_segment .. seg_end demo_segment - 1] \<and>
   int (length (split_segment demo_segment (bisection_factor demo_limits))) \<le> 8"
proof -
  have "make_limits None 8 1 2 True = Inr demo_limits" by (simp add: make_limits_def demo_limits_def)
  from split_segment_partitions [OF this, of demo_segment] show ?thesis by blast
qed

definition demo_stream :: stream where
  "demo_stream = recursive_hashdiff_stream cmp_env (static_row_reader demo_hash demo_source)
     (static_row_reader demo_hash demo_target) demo_segment demo_limits"

lemma demo_agree:
  "agree (static_row_reader demo_hash demo_source) (static_row_reader demo_hash demo_target) seg \<longleftrightarrow>
   \<not> (seg_start seg \<le> 5 \<and> 5 < seg_end seg)"
  by (simp add: demo_unfold)

lemma demo_descends:
  "\<not> descends (static_row_reader demo_hash demo_source) (static_row_reader demo_hash demo_target) demo_limits seg d"
  by (simp add: descends_def demo_unfold demo_limits_def)

lemma demo_rows:
  "\<exists>es. row_level_diff env (static_row_reader demo_hash demo_source) (static_row_reader demo_hash demo_target) seg = Inr es"
  unfolding row_level_diff_def static_reader.fetch using diff_rows_reference [OF demo_unique demo_unique] by blast

lemma demo_split:
  "split_segment demo_segment 8 = map (\<lambda>i. \<lparr>key_column = ''id'', seg_start = i, seg_end = i + 2\<rparr>) [0, 2, 4, 6, 8, 10, 12, 14]"
  by (simp add: split_segment_def estimated_rows_def demo_segment_def split_from.simps)

lemma demo_scanned: "scanned_segments (fst (snd demo_stream)) = 8"
proof -
  let ?D = "row_level_diff cmp_env (static_row_reader demo_hash demo_source) (static_row_reader demo_hash demo_target)"
  obtain es where "?D \<lparr>key_column = ''id'', seg_start = 4, seg_end = 6\<rparr> = Inr es" using demo_rows by blast
  moreover have "\<not> (\<not> recursive_checksum demo_limits \<or> estimated_rows demo_segment \<le> bisection_threshold demo_limits)"
    "bisection_factor demo_limits = 8" by (simp_all add: demo_limits_def demo_segment_def estimated_rows_def)
  ultimately show ?thesis
    by (simp add: demo_stream_def recursive_hashdiff_stream_def Let_def demo_split demo_agree demo_descends hashdiff_loop_skip
        hashdiff_loop_rows new_progress_def del: hashdiff_loop.simps(2))
qed

theorem hashdiff_effort_witness:
  "0 < scanned_segments (fst (snd demo_stream)) \<and>
   scanned_segments (fst (snd demo_stream)) \<le> 8 * (recursed_segments (fst (snd demo_stream)) + 1) \<and>
   max_depth_seen (fst (snd demo_stream)) \<le> 2"
proof -
  have lim: "make_limits None 8 1 2 True = Inr demo_limits" by (simp add: make_limits_def demo_limits_def)
  obtain es p err where out: "demo_stream = (es, p, err)" by (cases demo_stream)
  have "scanned_segments p = 8" using demo_scanned by (simp add: out)
  with hashdiff_effort [OF lim out [unfolded demo_stream_def]] show ?thesis by (simp add: out)
qed

end
