(* ===== verification/Compare_Run.thy ===== *)
theory Compare_Run
  imports Compare_Diff
begin

text \<open>
  The comparison as the worker runs it (\<open>app/worker.py\<close>) and the rows it stores (\<open>app/domain/compare_result.py\<close>): the choice
  between segments and a comparison of everything, the loop that counts and spools the events, the files and snapshots that
  are compared in memory, and the rows of an export.

  A database reader is the reader of segments with the rows a query without condition returns and the row of the \<open>MIN\<close> and \<open>MAX\<close>
  query. JSON texts go through \<open>dumps\<close> and \<open>loads\<close>, the two functions of the standard library.
\<close>

section \<open>Readers\<close>

definition FILE_COMPARE_DEFAULT_MAX_ROWS :: int where
  "FILE_COMPARE_DEFAULT_MAX_ROWS = 1000000"

record db_reader = reader +
  all_rows :: "compare_row list"
  bound_row :: "(db_value \<times> db_value) option"

definition optional_int :: "db_value \<Rightarrow> int option" where
  "optional_int v = (case v of
       Py (SBool b) \<Rightarrow> Some (if b then 1 else 0)
     | Py (SInt i) \<Rightarrow> Some i
     | Py (SStr s) \<Rightarrow> int_of_str s
     | _ \<Rightarrow> None)"

definition bounds :: "compare_column list \<Rightarrow> db_reader \<Rightarrow> int option \<times> int option" where
  "bounds keys rd = (if length keys \<noteq> 1 then (None, None)
     else case bound_row rd of None \<Rightarrow> (None, None) | Some (lo, hi) \<Rightarrow> (optional_int lo, optional_int hi))"

fun fetch_loop :: "int option \<Rightarrow> int \<Rightarrow> 'a list \<Rightarrow> (compare_error, 'a list) result" where
  "fetch_loop mx index [] = Inr []"
| "fetch_loop mx index (r # rs) =
     (case mx of
        Some m \<Rightarrow> if index \<ge> m then Inl (Max_rows_exceeded m) else rbind (fetch_loop mx (index + 1) rs) (\<lambda>out. Inr (r # out))
      | None \<Rightarrow> rbind (fetch_loop mx (index + 1) rs) (\<lambda>out. Inr (r # out)))"

definition fetch_all :: "db_reader \<Rightarrow> int option \<Rightarrow> (compare_error, compare_row list) result" where
  "fetch_all rd mx = fetch_loop mx 0 (all_rows rd)"

text \<open>The query is cut after one row more than the limit.\<close>

definition enforce_max_rows :: "db_reader \<Rightarrow> int \<Rightarrow> (compare_error, unit) result" where
  "enforce_max_rows rd m = rbind (fetch_loop (Some m) 0 (take (nat (m + 1)) (all_rows rd))) (\<lambda>_. Inr ())"

section \<open>Comparison of everything\<close>

definition index_row :: "(pk_key, compare_row) dict \<times> int \<Rightarrow> compare_row \<Rightarrow> (pk_key, compare_row) dict \<times> int" where
  "index_row acc r = (case acc of (out, duplicates) \<Rightarrow>
     (dict_set out (pk_key r) r, if dict_get out (pk_key r) = None then duplicates else duplicates + 1))"

definition index_rows_by_pk :: "side \<Rightarrow> compare_row list \<Rightarrow> (compare_error, (pk_key, compare_row) dict) result" where
  "index_rows_by_pk sd rows = (case foldl index_row ([], 0) rows of (out, duplicates) \<Rightarrow>
     if duplicates \<noteq> 0 then Inl (Duplicate_keys sd duplicates (int (length rows))) else Inr out)"

definition diff_stream_from_events :: "(compare_error, diff_event list) result \<Rightarrow> stream" where
  "diff_stream_from_events r = (case r of
       Inl e \<Rightarrow> ([], new_progress, Some e)
     | Inr es \<Rightarrow> (es, new_progress\<lparr>row_mode_segments := if es = [] then 0 else 1\<rparr>, None))"

definition diff_all_rows :: "float_env \<Rightarrow> compare_row list \<Rightarrow> compare_row list \<Rightarrow> stream" where
  "diff_all_rows env source_rows target_rows = diff_stream_from_events
     (rbind (index_rows_by_pk Source_side source_rows) (\<lambda>s.
      rbind (index_rows_by_pk Target_side target_rows) (\<lambda>t.
      Inr (concat (map (\<lambda>(k, pk). event_for pk (dict_get s k) (dict_get t k)) (sorted_compare_keys env (union_keys s t)))))))"

definition materialize_max_rows :: "run_limits \<Rightarrow> int" where
  "materialize_max_rows limits = (case max_rows limits of
     Some n \<Rightarrow> if n = 0 then FILE_COMPARE_DEFAULT_MAX_ROWS else n | None \<Rightarrow> FILE_COMPARE_DEFAULT_MAX_ROWS)"

definition run_compare_hashdiff ::
    "float_env \<Rightarrow> db_reader \<Rightarrow> db_reader \<Rightarrow> compare_column list \<Rightarrow> run_limits \<Rightarrow> (compare_error, stream) result" where
  "run_compare_hashdiff env source target keys limits =
     (if length keys \<noteq> 1 \<or> col_type (hd keys) \<noteq> INTEGER then
        rbind (fetch_all source (Some (materialize_max_rows limits))) (\<lambda>s.
        rbind (fetch_all target (Some (materialize_max_rows limits))) (\<lambda>t.
        Inr (diff_all_rows env s t)))
      else
        rbind (case max_rows limits of
                 None \<Rightarrow> Inr ()
               | Some m \<Rightarrow> rbind (enforce_max_rows source m) (\<lambda>_. enforce_max_rows target m)) (\<lambda>_.
        (case (bounds keys source, bounds keys target) of ((smin, smax), (tmin, tmax)) \<Rightarrow>
           (case List.map_filter (\<lambda>b. b) [smin, smax, tmin, tmax] of
              [] \<Rightarrow> Inr (diff_all_rows env [] [])
            | b # bs \<Rightarrow>
                rbind (make_segment (col_name (hd keys)) (foldl min b bs) (foldl max b bs + 1)) (\<lambda>seg.
                Inr (recursive_hashdiff_stream env (reader.truncate source) (reader.truncate target) seg limits))))))"

section \<open>Files and snapshots\<close>

text \<open>Rows held in memory are matched by the normal form of their key. The loops look for a cancellation every thousand rows.\<close>

type_synonym match_key = "(bool \<times> string) list"

definition match_key :: "float_env \<Rightarrow> compare_column list \<Rightarrow> compare_rules \<Rightarrow> compare_row \<Rightarrow> (compare_error, match_key) result" where
  "match_key env keys rules r = lift_normalize (normalized_compare_identity env keys (row_pk r) rules)"

fun index_materialized ::
    "(nat \<Rightarrow> bool) \<Rightarrow> (compare_row \<Rightarrow> (compare_error, match_key) result) \<Rightarrow> nat \<Rightarrow> (match_key, compare_row) dict \<Rightarrow> int
     \<Rightarrow> compare_row list \<Rightarrow> (compare_error, (match_key, compare_row) dict \<times> int) result" where
  "index_materialized cancelled key index out dups [] = Inr (out, dups)"
| "index_materialized cancelled key index out dups (r # rs) =
     (if index mod 1000 = 0 \<and> cancelled index then Inl Run_cancelled
      else rbind (key r) (\<lambda>k.
        index_materialized cancelled key (index + 1) (dict_set out k r) (if dict_get out k = None then dups else dups + 1) rs))"

definition materialized_side ::
    "(nat \<Rightarrow> bool) \<Rightarrow> (compare_row \<Rightarrow> (compare_error, match_key) result) \<Rightarrow> side \<Rightarrow> compare_row list
     \<Rightarrow> (compare_error, (match_key, compare_row) dict) result" where
  "materialized_side cancelled key sd rows =
     rbind (index_materialized cancelled key 0 [] 0 rows) (\<lambda>(out, dups).
       if dups \<noteq> 0 then Inl (Duplicate_keys sd dups (int (length rows))) else Inr out)"

fun match_less :: "match_key \<Rightarrow> match_key \<Rightarrow> bool" where
  "match_less _ [] = False"
| "match_less [] (_ # _) = True"
| "match_less ((a, s) # xs) ((b, t) # ys) =
     (if (a, s) = (b, t) then match_less xs ys else if a = b then str_less s t else \<not> a)"

fun insert_match :: "match_key \<Rightarrow> match_key list \<Rightarrow> match_key list" where
  "insert_match x [] = [x]"
| "insert_match x (y # ys) = (if match_less y x then y # insert_match x ys else x # y # ys)"

fun materialized_events ::
    "(nat \<Rightarrow> bool) \<Rightarrow> (match_key, compare_row) dict \<Rightarrow> (match_key, compare_row) dict \<Rightarrow> nat \<Rightarrow> match_key list
     \<Rightarrow> diff_event list \<times> compare_error option" where
  "materialized_events cancelled s t index [] = ([], None)"
| "materialized_events cancelled s t index (k # ks) =
     (if index mod 1000 = 0 \<and> cancelled index then ([], Some Run_cancelled)
      else (let pk = (case dict_get s k of Some a \<Rightarrow> row_pk a | None \<Rightarrow> (case dict_get t k of Some b \<Rightarrow> row_pk b | None \<Rightarrow> []))
            in case materialized_events cancelled s t (index + 1) ks of (es, err) \<Rightarrow>
                 (event_for pk (dict_get s k) (dict_get t k) @ es, err)))"

definition diff_materialized_rows ::
    "float_env \<Rightarrow> (side option \<Rightarrow> nat \<Rightarrow> bool) \<Rightarrow> compare_column list \<Rightarrow> compare_rules \<Rightarrow> compare_row list \<Rightarrow> compare_row list
     \<Rightarrow> stream" where
  "diff_materialized_rows env cancelled keys rules source_rows target_rows =
     (case rbind (materialized_side (cancelled (Some Source_side)) (match_key env keys rules) Source_side source_rows) (\<lambda>s.
           rbind (materialized_side (cancelled (Some Target_side)) (match_key env keys rules) Target_side target_rows) (\<lambda>t.
           Inr (s, t))) of
        Inl e \<Rightarrow> ([], new_progress, Some e)
      | Inr (s, t) \<Rightarrow>
          (case materialized_events (cancelled None) s t 0
                  (foldr insert_match (dict_keys s @ filter (\<lambda>k. dict_get s k = None) (dict_keys t)) []) of (es, err) \<Rightarrow>
             (es, new_progress\<lparr>row_mode_segments := if es = [] then 0 else 1\<rparr>, err)))"

section \<open>Rows from drivers and files\<close>

definition key_columns_of :: "compare_column list \<Rightarrow> compare_rules \<Rightarrow> compare_column list" where
  "key_columns_of cols rules = (let by_name = foldl (\<lambda>d c. dict_set d (col_name c) c) [] cols in
     map (\<lambda>n. case dict_get by_name n of Some c \<Rightarrow> c | None \<Rightarrow> \<lparr>col_name = n, col_type = UNKNOWN, driver_type = None\<rparr>) (key_columns rules))"

definition effective_compare_columns :: "compare_column list \<Rightarrow> compare_rules \<Rightarrow> compare_column list" where
  "effective_compare_columns cols rules = filter (\<lambda>c. col_name c \<notin> set (ignore_columns rules)) cols"

definition hash_column_slice ::
    "compare_column list \<Rightarrow> compare_column list option \<Rightarrow> (compare_error, compare_column list \<times> nat list) result" where
  "hash_column_slice value_cols hash_cols = (case hash_cols of
       None \<Rightarrow> Inr (value_cols, [0 ..< length value_cols])
     | Some hs \<Rightarrow>
         (let index_by_name = foldl (\<lambda>d (i, c). dict_set d (col_name c) i) [] (enumerate 0 value_cols) in
          rbind (map_r (\<lambda>c. case dict_get index_by_name (col_name c) of Some i \<Rightarrow> Inr i | None \<Rightarrow> Inl Missing_hash_column) hs)
            (\<lambda>indexes. Inr (hs, indexes))))"

definition compare_row_of ::
    "float_env \<Rightarrow> (string \<Rightarrow> int) \<Rightarrow> compare_column list \<Rightarrow> nat list \<Rightarrow> compare_rules \<Rightarrow> db_value list \<Rightarrow> db_value list
     \<Rightarrow> (compare_error, compare_row) result" where
  "compare_row_of env digest64 hash_cols indexes rules pk raws =
     (let hash_values = map (\<lambda>i. raws ! i) indexes in
      rbind (lift_normalize (normalized_compare_identity env hash_cols hash_values rules)) (\<lambda>identity.
      rbind (lift_normalize (compare_row_hash64 env digest64 hash_cols hash_values rules)) (\<lambda>h.
      Inr \<lparr>row_pk = pk, row_values = map (\<lambda>(is_null, t). Norm is_null t) identity, row_hash64 = Some h,
           raw_values = Some (map Raw raws)\<rparr>)))"

definition row_to_compare ::
    "float_env \<Rightarrow> (string \<Rightarrow> int) \<Rightarrow> compare_column list \<Rightarrow> compare_column list \<Rightarrow> compare_column list \<Rightarrow> nat list \<Rightarrow> compare_rules
     \<Rightarrow> db_value list \<Rightarrow> (compare_error, compare_row) result" where
  "row_to_compare env digest64 keys value_cols hash_cols indexes rules values =
     (if length values \<noteq> length keys + length value_cols then Inl Row_shape
      else compare_row_of env digest64 hash_cols indexes rules (take (length keys) values) (drop (length keys) values))"

fun file_rows ::
    "(nat \<Rightarrow> bool) \<Rightarrow> ((string, db_value) dict \<Rightarrow> (compare_error, compare_row) result) \<Rightarrow> nat \<Rightarrow> (string, db_value) dict list
     \<Rightarrow> (compare_error, compare_row list) result" where
  "file_rows cancelled conv index [] = Inr []"
| "file_rows cancelled conv index (d # ds) =
     (if index mod 1000 = 0 \<and> cancelled index then Inl Run_cancelled
      else rbind (conv d) (\<lambda>r. rbind (file_rows cancelled conv (index + 1) ds) (\<lambda>rs. Inr (r # rs))))"

definition file_fetch_all ::
    "float_env \<Rightarrow> (string \<Rightarrow> int) \<Rightarrow> (nat \<Rightarrow> bool) \<Rightarrow> compare_column list \<Rightarrow> compare_column list option \<Rightarrow> string list \<Rightarrow> string list
     \<Rightarrow> compare_rules \<Rightarrow> int option \<Rightarrow> (string, db_value) dict list \<Rightarrow> (compare_error, compare_row list) result" where
  "file_fetch_all env digest64 cancelled value_cols hash_cols key_names value_names rules mx rows =
     rbind (hash_column_slice value_cols hash_cols) (\<lambda>(hs, indexes).
       if (case mx of Some m \<Rightarrow> int (length rows) > m | None \<Rightarrow> False) then Inl (Max_rows_exceeded (the mx))
       else file_rows cancelled (\<lambda>d. let get = (\<lambda>n. case dict_get d n of Some v \<Rightarrow> v | None \<Rightarrow> Py SNone) in
              compare_row_of env digest64 hs indexes rules (map get key_names) (map get value_names)) 0 rows)"

section \<open>Result rows\<close>

text \<open>\<open>json.dumps\<close> writes values it does not know as their text.\<close>

definition value_json :: "float_env \<Rightarrow> db_value \<Rightarrow> pval" where
  "value_json env v = (case v of Py s \<Rightarrow> PScalar s | _ \<Rightarrow> PStr (value_str env v))"

definition cell_json :: "float_env \<Rightarrow> cell \<Rightarrow> pval" where
  "cell_json env c = (case c of Raw v \<Rightarrow> value_json env v | Norm is_null t \<Rightarrow> PList [PScalar (SBool is_null), PStr t])"

record result_row =
  res_pk :: pval
  res_source :: pval
  res_target :: pval
  res_cells :: pval

definition encode_compare_result_row :: "(pval \<Rightarrow> string) \<Rightarrow> result_row \<Rightarrow> pval list" where
  "encode_compare_result_row dumps r =
     [PStr (dumps (res_pk r)), PStr (dumps (res_source r)), PStr (dumps (res_target r)), PStr (dumps (res_cells r))]"

definition json_loads :: "(string \<Rightarrow> pval option) \<Rightarrow> pval \<Rightarrow> pval option" where
  "json_loads loads v = (case v of PScalar SNone \<Rightarrow> Some PNone | PScalar (SStr s) \<Rightarrow> loads s | _ \<Rightarrow> Some v)"

text \<open>Python's truth value of a JSON value, for \<open>x or default\<close>.\<close>

definition pval_truthy :: "pval \<Rightarrow> bool" where
  "pval_truthy v = (case v of PScalar s \<Rightarrow> truthy s | PList xs \<Rightarrow> xs \<noteq> [] | PDict d \<Rightarrow> d \<noteq> [])"

definition or_else :: "pval \<Rightarrow> pval \<Rightarrow> pval" where
  "or_else v d = (if pval_truthy v then v else d)"

definition decode_compare_result_row :: "(string \<Rightarrow> pval option) \<Rightarrow> pval list \<Rightarrow> result_row option" where
  "decode_compare_result_row loads values = (case values of
       [a, b, c, d] \<Rightarrow>
         (case (json_loads loads a, json_loads loads b, json_loads loads c, json_loads loads d) of
            (Some pk, Some s, Some t, Some cells) \<Rightarrow>
              Some \<lparr>res_pk = or_else pk (PDict []), res_source = s, res_target = t, res_cells = or_else cells (PList [])\<rparr>
          | _ \<Rightarrow> None)
     | _ \<Rightarrow> None)"

text \<open>A dictionary comprehension over columns; a missing value raises \<open>IndexError\<close>.\<close>

definition columns_dict :: "(string \<times> pval) list \<Rightarrow> (string \<times> pval) list" where
  "columns_dict kvs = foldl (\<lambda>d (k, v). dict_set d k v) [] kvs"

definition values_dict :: "float_env \<Rightarrow> compare_column list \<Rightarrow> cell list option \<Rightarrow> (compare_error, pval) result" where
  "values_dict env cols vs = (case vs of
       None \<Rightarrow> Inr PNone
     | Some xs \<Rightarrow> if length xs < length cols then Inl Row_shape
                  else Inr (PDict (columns_dict (zip (map col_name cols) (map (cell_json env) xs)))))"

definition cell_diffs ::
    "float_env \<Rightarrow> compare_column list \<Rightarrow> cell list \<Rightarrow> cell list \<Rightarrow> compare_rules \<Rightarrow> string set \<Rightarrow> (compare_error, pval) result" where
  "cell_diffs env cols ss ts rules names =
     rbind (lift_normalize (normalized_compare_identity env cols (map cell_value ss) rules)) (\<lambda>si.
     rbind (lift_normalize (normalized_compare_identity env cols (map cell_value ts) rules)) (\<lambda>ti.
     Inr (PList (map (\<lambda>i. PDict [(''column'', PStr (col_name (cols ! i))), (''source'', cell_json env (ss ! i)), (''target'', cell_json env (ts ! i))])
       (filter (\<lambda>i. col_name (cols ! i) \<in> names \<and> si ! i \<noteq> ti ! i) [0 ..< length cols])))))"

definition compare_event_to_spool_row ::
    "float_env \<Rightarrow> compare_column list \<Rightarrow> compare_column list \<Rightarrow> compare_rules \<Rightarrow> string set \<Rightarrow> diff_event
     \<Rightarrow> (compare_error, result_row) result" where
  "compare_event_to_spool_row env keys value_cols rules names ev =
     rbind (values_dict env value_cols (source_values ev)) (\<lambda>source.
     rbind (values_dict env value_cols (target_values ev)) (\<lambda>target.
     rbind (case (bucket ev, source_values ev, target_values ev) of
              (Diff, Some ss, Some ts) \<Rightarrow> cell_diffs env value_cols ss ts rules names
            | _ \<Rightarrow> Inr (PList [])) (\<lambda>cells.
     if length (event_pk ev) < length keys then Inl Row_shape
     else Inr \<lparr>res_pk = PDict (columns_dict (zip (map col_name keys) (map (value_json env) (event_pk ev)))),
               res_source = source, res_target = target, res_cells = cells\<rparr>)))"

section \<open>Counting and spooling\<close>

record 'r spool_state =
  counts :: "diff_bucket \<Rightarrow> int"
  batches :: "diff_bucket \<Rightarrow> 'r list"
  spools :: "diff_bucket \<Rightarrow> 'r list"
  flushes :: nat
  flushed_rows :: int

definition COMPARE_BUCKET_ORDER :: "diff_bucket list" where
  "COMPARE_BUCKET_ORDER = [Only_source, Only_target, Diff, Same]"

definition empty_spool_state :: "'r spool_state" where
  "empty_spool_state = \<lparr>counts = (\<lambda>_. 0), batches = (\<lambda>_. []), spools = (\<lambda>_. []), flushes = 0, flushed_rows = 0\<rparr>"

definition flush_batch :: "(nat \<Rightarrow> bool) \<Rightarrow> diff_bucket \<Rightarrow> 'r spool_state \<Rightarrow> (compare_error, 'r spool_state) result" where
  "flush_batch cancelled b st =
     (if cancelled (flushes st) then Inl Run_cancelled
      else Inr (st\<lparr>spools := (spools st)(b := spools st b @ batches st b), flushed_rows := flushed_rows st + int (length (batches st b)),
                   batches := (batches st)(b := []), flushes := flushes st + 1\<rparr>))"

definition spool_event ::
    "(nat \<Rightarrow> bool) \<Rightarrow> bool \<Rightarrow> nat \<Rightarrow> (diff_event \<Rightarrow> (compare_error, 'r) result) \<Rightarrow> 'r spool_state \<Rightarrow> diff_event
     \<Rightarrow> (compare_error, 'r spool_state) result" where
  "spool_event cancelled persist_same limit row st ev =
     (let b = bucket ev; st1 = st\<lparr>counts := (counts st)(b := counts st b + 1)\<rparr> in
      if b = Same \<and> \<not> persist_same then Inr st1
      else rbind (row ev) (\<lambda>r.
        let st2 = st1\<lparr>batches := (batches st1)(b := batches st1 b @ [r])\<rparr> in
        if limit \<le> length (batches st2 b) then flush_batch cancelled b st2 else Inr st2))"

definition flush_rest :: "(nat \<Rightarrow> bool) \<Rightarrow> 'r spool_state \<Rightarrow> (compare_error, 'r spool_state) result" where
  "flush_rest cancelled st =
     fold_r (\<lambda>s b. if batches s b = [] then Inr s else flush_batch cancelled b s) st COMPARE_BUCKET_ORDER"

text \<open>The error of the stream comes after its events.\<close>

definition spool_run ::
    "(nat \<Rightarrow> bool) \<Rightarrow> bool \<Rightarrow> nat \<Rightarrow> (diff_event \<Rightarrow> (compare_error, 'r) result) \<Rightarrow> stream \<Rightarrow> (compare_error, 'r spool_state) result" where
  "spool_run cancelled persist_same limit row result = (case result of (events, progress, err) \<Rightarrow>
     rbind (fold_r (spool_event cancelled persist_same limit row) empty_spool_state events) (\<lambda>st.
     rbind (case err of Some e \<Rightarrow> Inl e | None \<Rightarrow> flush_rest cancelled st) (\<lambda>st1.
     Inr (st1\<lparr>counts := (counts st1)(Same := counts st1 Same + skipped_rows progress)\<rparr>))))"

section \<open>Exports\<close>

definition dict_of :: "pval \<Rightarrow> (string \<times> pval) list" where
  "dict_of v = (case v of PDict d \<Rightarrow> d | _ \<Rightarrow> [])"

definition compare_export_schema :: "result_row \<Rightarrow> string list \<times> string list" where
  "compare_export_schema r = (dict_keys (dict_of (res_pk r)),
     dict_keys (foldl (\<lambda>d k. dict_set d k ()) [] (dict_keys (dict_of (res_source r)) @ dict_keys (dict_of (res_target r)))))"

definition compare_export_columns :: "diff_bucket \<Rightarrow> string list \<Rightarrow> string list \<Rightarrow> string list" where
  "compare_export_columns b keys vals = keys @
     (if b = Diff then concat (map (\<lambda>n. [n @ '' (source)'', n @ '' (target)'']) vals) else vals)"

definition export_scalar :: "(pval \<Rightarrow> string) \<Rightarrow> pval option \<Rightarrow> pval" where
  "export_scalar dumps v = (case v of None \<Rightarrow> PNone | Some (PScalar s) \<Rightarrow> PScalar s | Some x \<Rightarrow> PStr (dumps x))"

definition compare_export_row :: "(pval \<Rightarrow> string) \<Rightarrow> diff_bucket \<Rightarrow> result_row \<Rightarrow> string list \<Rightarrow> string list \<Rightarrow> pval list" where
  "compare_export_row dumps b r keys vals =
     (let pk = dict_of (res_pk r); source = dict_of (res_source r); target = dict_of (res_target r);
          get = (\<lambda>d n. export_scalar dumps (dict_get d n))
      in map (get pk) keys @
         (if b = Diff then concat (map (\<lambda>n. [get source n, get target n]) vals)
          else if b = Only_target then map (get target) vals
          else map (get (if source \<noteq> [] then source else target)) vals))"

section \<open>The two row-level comparisons agree\<close>

lemma index_rows_fold:
  "foldl add_row (out, n, d) rows =
     (fst (foldl index_row (out, d) rows), n + int (length rows), snd (foldl index_row (out, d) rows))"
proof (induction rows arbitrary: out n d)
  case (Cons r rows)
  let ?d = "if dict_get out (pk_key r) = None then d else d + 1"
  have "add_row (out, n, d) r = (dict_set out (pk_key r) r, n + 1, ?d)" "index_row (out, d) r = (dict_set out (pk_key r) r, ?d)"
    by (simp_all only: add_row_def index_row_def prod.case)
  with Cons show ?case by simp
qed simp

lemma index_rows_by_pk_eq: "index_rows_by_pk sd rows = row_map sd rows"
  by (simp add: index_rows_by_pk_def row_map_def index_rows_fold case_prod_beta)

lemma diff_all_rows_eq: "diff_all_rows env S T = diff_stream_from_events (diff_rows env S T)"
  by (simp add: diff_all_rows_def diff_rows_def index_rows_by_pk_eq)

text \<open>
  The comparison of all rows that the worker uses for keys that cannot be split is the row-level
  comparison of the kernel: the same events in the same order, and the same error for repeated keys.
\<close>

theorem diff_all_rows_equivalent:
  "diff_all_rows env S T = diff_stream_from_events (diff_rows env S T)"
  by (rule diff_all_rows_eq)

section \<open>Counting and spooling\<close>

definition kept_rows :: "bool \<Rightarrow> (diff_event \<Rightarrow> 'r) \<Rightarrow> diff_bucket \<Rightarrow> diff_event list \<Rightarrow> 'r list" where
  "kept_rows persist_same f b events = (if b = Same \<and> \<not> persist_same then [] else map f (filter (\<lambda>e. bucket e = b) events))"

definition spool_inv :: "bool \<Rightarrow> (diff_event \<Rightarrow> 'r) \<Rightarrow> diff_event list \<Rightarrow> 'r spool_state \<Rightarrow> bool" where
  "spool_inv persist_same f seen st \<longleftrightarrow>
     (\<forall>b. counts st b = int (length (filter (\<lambda>e. bucket e = b) seen)) \<and> spools st b @ batches st b = kept_rows persist_same f b seen)"

lemma flush_batch_ok:
  assumes "spool_inv p f seen st"
  shows "\<exists>st'. flush_batch (\<lambda>_. False) b st = Inr st' \<and> spool_inv p f seen st' \<and>
    batches st' = (batches st)(b := [])"
  using assms by (auto simp: flush_batch_def spool_inv_def)

lemma spool_event_ok:
  assumes inv: "spool_inv p f seen st" and row: "row ev = Inr (f ev)"
  shows "\<exists>st'. spool_event (\<lambda>_. False) p limit row st ev = Inr st' \<and> spool_inv p f (seen @ [ev]) st'"
proof (cases "bucket ev = Same \<and> \<not> p")
  case True
  with inv show ?thesis by (auto simp: spool_event_def spool_inv_def kept_rows_def Let_def)
next
  case False
  let ?b = "bucket ev"
  let ?st = "st\<lparr>counts := (counts st)(?b := counts st ?b + 1), batches := (batches st)(?b := batches st ?b @ [f ev])\<rparr>"
  have inv': "spool_inv p f (seen @ [ev]) ?st"
    unfolding spool_inv_def
  proof
    fix b
    have "counts st b = int (length (filter (\<lambda>e. bucket e = b) seen))" "spools st b @ batches st b = kept_rows p f b seen"
      using inv by (simp_all add: spool_inv_def)
    with False show "counts ?st b = int (length (filter (\<lambda>e. bucket e = b) (seen @ [ev]))) \<and>
        spools ?st b @ batches ?st b = kept_rows p f b (seen @ [ev])"
      by (cases "b = bucket ev") (auto simp: kept_rows_def simp flip: append_assoc)
  qed
  have "spool_event (\<lambda>_. False) p limit row st ev =
      (if limit \<le> length (batches ?st ?b) then flush_batch (\<lambda>_. False) ?b ?st else Inr ?st)"
    using False row by (auto simp: spool_event_def Let_def)
  with flush_batch_ok [OF inv', of ?b] inv' show ?thesis by auto
qed

lemma spool_events_ok:
  assumes "spool_inv p f seen st" "\<And>ev. ev \<in> set events \<Longrightarrow> row ev = Inr (f ev)"
  shows "\<exists>st'. fold_r (spool_event (\<lambda>_. False) p limit row) st events = Inr st' \<and> spool_inv p f (seen @ events) st'"
  using assms
proof (induction events arbitrary: seen st)
  case (Cons ev events)
  obtain st1 where st1: "spool_event (\<lambda>_. False) p limit row st ev = Inr st1" "spool_inv p f (seen @ [ev]) st1"
    using spool_event_ok [OF Cons(2), of row ev limit] Cons(3) by auto
  from Cons(1) [OF st1(2)] Cons(3) obtain st2 where
    "fold_r (spool_event (\<lambda>_. False) p limit row) st1 events = Inr st2" "spool_inv p f (seen @ ev # events) st2" by auto
  with st1(1) show ?case by simp
qed simp

lemma flush_one_ok:
  assumes "spool_inv p f seen st"
  shows "\<exists>st'. (if batches st b = [] then Inr st else flush_batch (\<lambda>_. False) b st) = Inr st' \<and> spool_inv p f seen st' \<and>
    batches st' = (batches st)(b := [])"
proof (cases "batches st b = []")
  case True
  then have "batches st = (batches st)(b := [])" by auto
  with True assms show ?thesis by auto
qed (use flush_batch_ok [OF assms, of b] in simp)

lemma flush_rest_ok:
  assumes "spool_inv p f seen st"
  shows "\<exists>st'. flush_rest (\<lambda>_. False) st = Inr st' \<and> spool_inv p f seen st' \<and> (\<forall>b. batches st' b = [])"
proof -
  let ?step = "\<lambda>s b. if batches s b = [] then Inr s else flush_batch (\<lambda>_. False) b s"
  have "\<exists>st'. fold_r ?step st bs = Inr st' \<and> spool_inv p f seen st' \<and> (\<forall>b. batches st' b = (if b \<in> set bs then [] else batches st b))"
    if "spool_inv p f seen st" for bs st using that
  proof (induction bs arbitrary: st)
    case (Cons b bs)
    obtain st1 where st1: "?step st b = Inr st1" "spool_inv p f seen st1" "batches st1 = (batches st)(b := [])"
      using flush_one_ok [OF Cons(2), of b] by blast
    from Cons(1) [OF st1(2)] obtain st2 where st2: "fold_r ?step st1 bs = Inr st2" "spool_inv p f seen st2"
      "\<forall>c. batches st2 c = (if c \<in> set bs then [] else batches st1 c)" by blast
    have "fold_r ?step st (b # bs) = Inr st2" using st1(1) st2(1) by simp
    moreover have "\<forall>c. batches st2 c = (if c \<in> set (b # bs) then [] else batches st c)" using st2(3) st1(3) by simp
    ultimately show ?case using st2(2) by blast
  qed simp
  moreover have "b \<in> set COMPARE_BUCKET_ORDER" for b by (cases b) (simp_all add: COMPARE_BUCKET_ORDER_def)
  moreover obtain st' where st': "fold_r ?step st COMPARE_BUCKET_ORDER = Inr st'" "spool_inv p f seen st'"
    "\<forall>b. batches st' b = (if b \<in> set COMPARE_BUCKET_ORDER then [] else batches st b)"
    using calculation(1) [OF assms, of COMPARE_BUCKET_ORDER] by blast
  ultimately have "\<forall>b. batches st' b = []" by simp
  with st' show ?thesis unfolding flush_rest_def by blast
qed

lemma spool_run_ok:
  assumes "\<And>ev. ev \<in> set events \<Longrightarrow> row ev = Inr (f ev)"
  shows "\<exists>st. spool_run (\<lambda>_. False) persist_same limit row (events, progress, None) = Inr st \<and>
    (\<forall>b. counts st b = int (length (filter (\<lambda>e. bucket e = b) events)) + (if b = Same then skipped_rows progress else 0)) \<and>
    (\<forall>b. spools st b = (if b = Same \<and> \<not> persist_same then [] else map f (filter (\<lambda>e. bucket e = b) events)))"
proof -
  have "spool_inv persist_same f [] empty_spool_state" by (simp add: spool_inv_def empty_spool_state_def kept_rows_def)
  from spool_events_ok [OF this, of events row limit] assms obtain st where
    st: "fold_r (spool_event (\<lambda>_. False) persist_same limit row) empty_spool_state events = Inr st"
    "spool_inv persist_same f events st" by auto
  from flush_rest_ok [OF st(2)] obtain st1 where st1: "flush_rest (\<lambda>_. False) st = Inr st1"
    "spool_inv persist_same f events st1" "\<forall>b. batches st1 b = []" by blast
  have "spools st1 b = kept_rows persist_same f b events" for b using st1(2,3) unfolding spool_inv_def by (metis append_Nil2)
  moreover have "counts st1 b = int (length (filter (\<lambda>e. bucket e = b) events))" for b
    using st1(2) unfolding spool_inv_def by blast
  ultimately show ?thesis
    unfolding spool_run_def by (simp add: st(1) st1(1) kept_rows_def)
qed

text \<open>
  Spooling keeps every event. When the stream ends without an error, no cancellation is requested and every event has a result row,
  the run ends, each bucket count is the number of its events (for agreeing rows, together with the rows of skipped
  segments), and each spool holds exactly the rows of its events in their order, whatever the batch size;
  agreeing rows are stored only when asked for.
\<close>

theorem spool_run_complete:
  assumes "\<And>ev. ev \<in> set events \<Longrightarrow> row ev = Inr (f ev)"
  shows "\<exists>st. spool_run (\<lambda>_. False) persist_same limit row (events, progress, None) = Inr st \<and>
    (\<forall>b. counts st b = int (length (filter (\<lambda>e. bucket e = b) events)) + (if b = Same then skipped_rows progress else 0)) \<and>
    (\<forall>b. spools st b = (if b = Same \<and> \<not> persist_same then [] else map f (filter (\<lambda>e. bucket e = b) events)))"
  using assms by (rule spool_run_ok)

section \<open>The counts of a run\<close>

lemma reference_size: "unique_keys S \<Longrightarrow> unique_keys T \<Longrightarrow> size (reference_diff S T) = card (pk_key ` (set S \<union> set T))"
  using arg_cong [OF reference_buckets, of S T size] by simp

lemma agreeing_rows:
  assumes "unique_keys S" "unique_keys T" "real_differences (reference_diff S T) = {#}"
  shows "filter_mset (\<lambda>e. bucket e = Same) (reference_diff S T) = reference_diff S T" "size (reference_diff S T) = length S"
proof -
  have same: "e \<in># reference_diff S T \<Longrightarrow> bucket e = Same" for e
    using assms(3) unfolding real_differences_def by (metis (mono_tags, lifting) empty_iff set_mset_empty filter_mset_eq_conv set_mset_filter mem_Collect_eq)
  then show "filter_mset (\<lambda>e. bucket e = Same) (reference_diff S T) = reference_diff S T" by (simp add: filter_mset_eq_conv)
  have "pk_key t \<in> pk_key ` set S" if t: "t \<in> set T" for t
  proof (rule ccontr)
    assume new: "pk_key t \<notin> pk_key ` set S"
    have "target_event t \<subseteq># sum_list (map target_event (filter (\<lambda>r. pk_key r \<notin> pk_key ` set S) T))"
      using t new by (auto simp: in_set_conv_decomp)
    then have "target_event t \<subseteq># reference_diff S T" unfolding reference_diff_def by (rule subset_mset.order_trans) simp
    then have "\<lparr>bucket = Only_target, event_pk = row_pk t, source_values = None, target_values = Some (shown_values t)\<rparr> \<in># reference_diff S T"
      by (simp add: target_event_def event_for_def)
    from same [OF this] show False by simp
  qed
  then have "pk_key ` (set S \<union> set T) = set (map pk_key S)" by auto
  then show "size (reference_diff S T) = length S"
    using reference_size [OF assms(1,2)] distinct_card [OF assms(1)] by simp
qed

lemma reader_truncate [simp]: "fetch_rows (reader.truncate rd) = fetch_rows rd"
  "segment_fingerprint (reader.truncate rd) = segment_fingerprint rd"
  by (simp_all add: reader.truncate_def)

text \<open>What a database returns of a table: the rows of a range, their number, and the smallest and largest key.\<close>

definition serves :: "db_reader \<Rightarrow> compare_row list \<Rightarrow> bool" where
  "serves rd rows \<longleftrightarrow>
     (\<forall>seg. fetch_rows rd seg = filter (in_segment seg) rows \<and>
            row_count (segment_fingerprint rd seg) = int (length (filter (in_segment seg) rows))) \<and>
     all_rows rd = rows \<and>
     bound_row rd = Some (if int_keys rows = [] then (Py SNone, Py SNone)
                          else (Py (SInt (Min (set (int_keys rows)))), Py (SInt (Max (set (int_keys rows))))))"

abbreviation integer_keys :: "compare_row list \<Rightarrow> bool" where
  "integer_keys rows \<equiv> list_all (\<lambda>r. int_pk r \<noteq> None) rows"

lemma int_keys_set: "set (int_keys rows) = {i. \<exists>r \<in> set rows. int_pk r = Some i}"
  unfolding int_keys_def List.map_filter_def by force

lemma foldl_min_le: "foldl min (b :: int) bs \<le> x \<longleftrightarrow> (\<exists>y \<in> set (b # bs). y \<le> x)"
  by (induction bs arbitrary: b) (auto simp: min_le_iff_disj)

lemma foldl_max_ge: "x \<le> foldl max (b :: int) bs \<longleftrightarrow> (\<exists>y \<in> set (b # bs). x \<le> y)"
  by (induction bs arbitrary: b) (auto simp: le_max_iff_disj)

definition key_bounds :: "db_reader \<Rightarrow> db_reader \<Rightarrow> compare_column list \<Rightarrow> int list" where
  "key_bounds source target keys = List.map_filter (\<lambda>b. b)
     [fst (bounds keys source), snd (bounds keys source), fst (bounds keys target), snd (bounds keys target)]"

lemma serves_bounds:
  assumes "serves rd rows" "length keys = 1"
  shows "bounds keys rd = (if int_keys rows = [] then (None, None)
    else (Some (Min (set (int_keys rows))), Some (Max (set (int_keys rows)))))"
  using assms by (simp add: serves_def bounds_def optional_int_def)

lemma key_bounds_cover:
  assumes "serves source S" "serves target T" "length keys = 1" "r \<in> set S \<union> set T" "int_pk r = Some i"
  shows "\<exists>lo \<in> set (key_bounds source target keys). lo \<le> i" "\<exists>hi \<in> set (key_bounds source target keys). i \<le> hi"
proof -
  have in_keys: "i \<in> set (int_keys rows)" if "r \<in> set rows" for rows using that assms(5) by (auto simp: int_keys_set)
  have "i \<in> set (int_keys S) \<or> i \<in> set (int_keys T)" using assms(4) in_keys by blast
  then show "\<exists>lo \<in> set (key_bounds source target keys). lo \<le> i" "\<exists>hi \<in> set (key_bounds source target keys). i \<le> hi"
    by (auto simp: key_bounds_def serves_bounds [OF assms(1,3)] serves_bounds [OF assms(2,3)] List.map_filter_def intro!: Min_le Max_ge)
qed

lemma run_hashdiff_bounds:
  assumes "col_type k = INTEGER" "max_rows limits = None"
  shows "run_compare_hashdiff env source target [k] limits = (case key_bounds source target [k] of
      [] \<Rightarrow> Inr (diff_all_rows env [] [])
    | b # bs \<Rightarrow> rbind (make_segment (col_name k) (foldl min b bs) (foldl max b bs + 1)) (\<lambda>seg.
        Inr (recursive_hashdiff_stream env (reader.truncate source) (reader.truncate target) seg limits)))"
  using assms by (simp add: run_compare_hashdiff_def key_bounds_def case_prod_beta split: list.split del: List.map_filter_simps)

lemma run_hashdiff_segments:
  assumes "col_type k = INTEGER" "max_rows limits = None" "key_bounds source target [k] = b # bs"
  shows "run_compare_hashdiff env source target [k] limits =
    Inr (recursive_hashdiff_stream env (reader.truncate source) (reader.truncate target)
      \<lparr>key_column = col_name k, seg_start = foldl min b bs, seg_end = foldl max b bs + 1\<rparr> limits)"
proof -
  have "foldl min b bs \<le> foldl max b bs" by (auto simp: foldl_min_le foldl_max_ge)
  then have "make_segment (col_name k) (foldl min b bs) (foldl max b bs + 1) =
      Inr \<lparr>key_column = col_name k, seg_start = foldl min b bs, seg_end = foldl max b bs + 1\<rparr>" by (simp add: make_segment_def)
  with assms show ?thesis by (simp add: run_hashdiff_bounds)
qed

lemma run_hashdiff_empty:
  assumes "col_type k = INTEGER" "max_rows limits = None" "key_bounds source target [k] = []"
  shows "run_compare_hashdiff env source target [k] limits = Inr (diff_all_rows env [] [])"
  using assms by (simp add: run_hashdiff_bounds)

lemma skipped_counts:
  assumes S: "unique_in S T whole" and skipped: "list_all (\<lambda>s. inside s whole \<and> real_differences (segment_diff S T s) = {#}) skipped"
    and pair: "reader_pair source S target T"
  shows "size (filter_mset (\<lambda>e. bucket e = b) (sum_list (map (segment_diff S T) skipped))) =
    (if b = Same then sum_list (map (\<lambda>s. length (filter (in_segment s) S)) skipped) else 0)"
  using skipped
proof (induction skipped)
  case (Cons s ss)
  then have s: "inside s whole" "real_differences (segment_diff S T s) = {#}" by simp_all
  note u = reader_pair.unique_within [OF pair S s(1)]
  note same = agreeing_rows [OF u s(2) [unfolded segment_diff_def], folded segment_diff_def]
  have "size (filter_mset (\<lambda>e. bucket e = b) (segment_diff S T s)) = (if b = Same then length (filter (in_segment s) S) else 0)"
  proof (cases "b = Same")
    case True
    with same show ?thesis by simp
  next
    case False
    have "filter_mset (\<lambda>e. bucket e = b) (filter_mset (\<lambda>e. bucket e = Same) (segment_diff S T s)) = {#}"
      using False by (simp add: filter_filter_mset conj_commute)
    with False same(1) show ?thesis by simp
  qed
  with Cons show ?case by simp
qed simp

lemma segments_cover:
  assumes "serves source S" "serves target T" "integer_keys S" "integer_keys T" "key_bounds source target [k] = b # bs"
  shows "r \<in> set S \<union> set T \<Longrightarrow> in_segment \<lparr>key_column = n, seg_start = foldl min b bs, seg_end = foldl max b bs + 1\<rparr> r"
proof -
  assume r: "r \<in> set S \<union> set T"
  then obtain i where i: "int_pk r = Some i" using assms(3,4) by (auto simp: list_all_iff)
  show ?thesis using key_bounds_cover [OF assms(1,2) _ r i, of "[k]"] i assms(5)
    by (simp add: in_segment_def foldl_min_le foldl_max_ge zle_add1_eq_le)
qed

text \<open>The stream over a segment that holds both tables.\<close>

lemma whole_stream:
  assumes S: "serves source S" and T: "serves target T" and "unique_keys S" "unique_keys T"
    and all: "filter (in_segment seg) S = S" "filter (in_segment seg) T = T"
    and no_collision: "\<And>s. segment_fingerprint source s = segment_fingerprint target s \<Longrightarrow> real_differences (segment_diff S T s) = {#}"
  shows "\<exists>es p. recursive_hashdiff_stream env (reader.truncate source) (reader.truncate target) seg limits = (es, p, None) \<and>
    (\<forall>b. int (size (filter_mset (\<lambda>e. bucket e = b) (reference_diff S T))) =
       int (length (filter (\<lambda>e. bucket e = b) es)) + (if b = Same then skipped_rows p else 0)) \<and>
    (\<forall>b. b \<noteq> Same \<longrightarrow> filter_mset (\<lambda>e. bucket e = b) (reference_diff S T) = mset (filter (\<lambda>e. bucket e = b) es))"
proof -
  have pair: "reader_pair (reader.truncate source) S (reader.truncate target) T"
    by unfold_locales (use S T in \<open>simp_all add: serves_def\<close>)
  have unique: "unique_in S T seg" using assms(3,4) all by (simp add: unique_in_def)
  obtain es p skipped where out: "recursive_hashdiff_stream env (reader.truncate source) (reader.truncate target) seg limits = (es, p, None)"
    and sum: "mset es + sum_list (map (segment_diff S T) skipped) = segment_diff S T seg"
    and rows: "skipped_rows p = rows_counted (reader.truncate source) skipped"
    and sk: "list_all (\<lambda>s. inside s seg \<and> agree (reader.truncate source) (reader.truncate target) s) skipped"
    using reader_pair.stream_accounts [OF pair unique, of env limits] by blast
  let ?num = "sum_list (map (\<lambda>s. length (filter (in_segment s) S)) skipped)"
  have num: "skipped_rows p = int ?num" unfolding rows using S by (induction skipped) (simp_all add: serves_def)
  have "list_all (\<lambda>s. inside s seg \<and> real_differences (segment_diff S T s) = {#}) skipped"
    using sk no_collision by (simp add: list_all_iff)
  note left = skipped_counts [OF unique this pair]
  have ref: "filter_mset (\<lambda>e. bucket e = b) (reference_diff S T) = mset (filter (\<lambda>e. bucket e = b) es) +
      filter_mset (\<lambda>e. bucket e = b) (sum_list (map (segment_diff S T) skipped))" for b
    using arg_cong [OF sum, of "filter_mset (\<lambda>e. bucket e = b)"] by (simp add: segment_diff_def all)
  have "\<forall>b. int (size (filter_mset (\<lambda>e. bucket e = b) (reference_diff S T))) =
       int (length (filter (\<lambda>e. bucket e = b) es)) + (if b = Same then skipped_rows p else 0)"
    by (simp add: ref left num del: mset_filter)
  moreover have "\<forall>b. b \<noteq> Same \<longrightarrow> filter_mset (\<lambda>e. bucket e = b) (reference_diff S T) = mset (filter (\<lambda>e. bucket e = b) es)"
  proof (intro allI impI)
    fix b :: diff_bucket
    assume "b \<noteq> Same"
    then have "filter_mset (\<lambda>e. bucket e = b) (sum_list (map (segment_diff S T) skipped)) = {#}"
      using left [of b] by (simp only: if_False size_eq_0_iff_empty)
    then show "filter_mset (\<lambda>e. bucket e = b) (reference_diff S T) = mset (filter (\<lambda>e. bucket e = b) es)"
      by (simp only: ref add_0_right)
  qed
  ultimately show ?thesis using out by blast
qed


section \<open>Where a run goes wrong\<close>

text \<open>
  Key bounds that a driver reports as decimals are read as absent: the run of two tables over one integer key then ends
  without looking at a single row and reports no difference, whatever the tables hold.
\<close>

theorem decimal_bounds_report_nothing:
  assumes "col_type k = INTEGER" "max_rows limits = None"
    and "bound_row source = Some (DDecimal a, DDecimal b)" "bound_row target = Some (DDecimal c, DDecimal d)"
  shows "run_compare_hashdiff env source target [k] limits = Inr ([], new_progress, None)"
proof -
  have "key_bounds source target [k] = []"
    using assms(3,4) by (simp add: key_bounds_def bounds_def optional_int_def List.map_filter_def)
  moreover have "diff_all_rows env [] [] = ([], new_progress, None)"
    by (simp add: diff_all_rows_eq diff_rows_def row_map_eq union_keys_def sorted_compare_keys_def diff_stream_from_events_def
        new_progress_def)
  ultimately show ?thesis by (simp add: run_hashdiff_empty [OF assms(1,2)])
qed

section \<open>Result rows\<close>

text \<open>
  A stored result row reads back. The row that is made for an event is decoded from its four JSON texts without change,
  provided the JSON functions read back the four values that were written.
\<close>

theorem result_row_roundtrip:
  assumes "compare_event_to_spool_row env keys value_cols rules names ev = Inr r"
    and "loads (dumps (res_pk r)) = Some (res_pk r)" "loads (dumps (res_source r)) = Some (res_source r)"
    and "loads (dumps (res_target r)) = Some (res_target r)" "loads (dumps (res_cells r)) = Some (res_cells r)"
  shows "decode_compare_result_row loads (encode_compare_result_row dumps r) = Some r"
proof -
  have pk: "\<exists>d. res_pk r = PDict d" and cells: "\<exists>xs. res_cells r = PList xs"
    using assms(1) by (auto simp: compare_event_to_spool_row_def cell_diffs_def rbind_eq_Inr split: if_splits diff_bucket.splits option.splits)
  have "or_else (PDict d) (PDict []) = PDict d" "or_else (PList xs) (PList []) = PList xs" for d xs
    by (auto simp: or_else_def pval_truthy_def)
  with pk cells have "or_else (res_pk r) (PDict []) = res_pk r" "or_else (res_cells r) (PList []) = res_cells r" by auto
  with assms(2-5) show ?thesis by (simp add: decode_compare_result_row_def encode_compare_result_row_def json_loads_def)
qed

text \<open>
  C39. Export rows fit their header: a row has one value per column, the keys come first, and in the bucket of differing rows the
  source and the target value of a column stand side by side under their two headings.
\<close>

theorem export_row_fits_header:
  "length (compare_export_row dumps b r keys vals) = length (compare_export_columns b keys vals) \<and>
   take (length keys) (zip (compare_export_columns b keys vals) (compare_export_row dumps b r keys vals)) =
     map (\<lambda>n. (n, export_scalar dumps (dict_get (dict_of (res_pk r)) n))) keys \<and>
   drop (length keys) (zip (compare_export_columns Diff keys vals) (compare_export_row dumps Diff r keys vals)) =
     concat (map (\<lambda>n. [(n @ '' (source)'', export_scalar dumps (dict_get (dict_of (res_source r)) n)),
                       (n @ '' (target)'', export_scalar dumps (dict_get (dict_of (res_target r)) n))]) vals)"
proof -
  have pairs: "length (concat (map (\<lambda>n. [f n, g n]) ns)) = 2 * length ns" for f g :: "string \<Rightarrow> 'x" and ns by (induction ns) auto
  have zips: "zip (concat (map (\<lambda>n. [f n, g n]) ns)) (concat (map (\<lambda>n. [u n, v n]) ns)) = concat (map (\<lambda>n. [(f n, u n), (g n, v n)]) ns)"
    for f g :: "string \<Rightarrow> 'x" and u v :: "string \<Rightarrow> 'y" and ns by (induction ns) auto
  have "zip ks (map f ks) = map (\<lambda>n. (n, f n)) ks" for f :: "string \<Rightarrow> pval" and ks by (induction ks) auto
  then show ?thesis by (auto simp: compare_export_row_def compare_export_columns_def Let_def pairs zips)
qed

definition ignored_columns_example :: "compare_column list" where
  "ignored_columns_example = [\<lparr>col_name = ''n'', col_type = INTEGER, driver_type = None\<rparr>, \<lparr>col_name = ''v'', col_type = STRING, driver_type = None\<rparr>]"

definition ignored_rules_example :: compare_rules where
  "ignored_rules_example = cmp_rules\<lparr>ignore_columns := [''n'']\<rparr>"

text \<open>
  A value in an ignored column can fail a run. The row hash and the comparison leave the ignored column out, but the list of
  differing cells normalises every shown column first: a row that differs in a compared column cannot be stored when an ignored
  numeric column holds a text that is no number.
\<close>

theorem ignored_column_fails_run:
  "let cols = ignored_columns_example; rules = ignored_rules_example; hashed = effective_compare_columns cols rules;
       make = (\<lambda>v. compare_row_of env digest64 hashed [1] rules [Py (SInt 1)] [Py (SStr ''N/A''), Py (SStr v)])
   in hash_column_slice cols (Some hashed) = Inr (hashed, [1]) \<and>
      (case (make ''a'', make ''b'') of
         (Inr s, Inr t) \<Rightarrow> map (compare_event_to_spool_row env [] cols rules {''v''}) (event_for (row_pk s) (Some s) (Some t)) =
                           [Inl (Normalize_failed Invalid_decimal)]
       | _ \<Rightarrow> False)"
proof -
  have na: "parse_decimal ''N/A'' = None" by (simp add: decimal_eval)
  have slice: "effective_compare_columns ignored_columns_example ignored_rules_example = [\<lparr>col_name = ''v'', col_type = STRING, driver_type = None\<rparr>]"
    by (simp add: effective_compare_columns_def ignored_columns_example_def ignored_rules_example_def)
  have bad: "normalized_compare_identity env ignored_columns_example [Py (SStr ''N/A''), Py (SStr v)] ignored_rules_example = Inl Invalid_decimal" for v
    by (simp add: normalized_compare_identity_def normalized_values_def ignored_columns_example_def normalize_value_def normalize_decimal_def
        value_str_def na)
  let ?H = "[\<lparr>col_name = ''v'', col_type = STRING, driver_type = None\<rparr>]"
  have good: "normalized_compare_identity env ?H [Py (SStr x)] ignored_rules_example = Inr [(False, py_lower x)]" for x
    by (simp add: normalized_compare_identity_def normalized_values_def normalize_value_def value_str_def Let_def
        ignored_rules_example_def cmp_rules_def)
  have made: "compare_row_of env digest64 ?H [Suc 0] ignored_rules_example [Py (SInt 1)] [Py (SStr ''N/A''), Py (SStr x)] =
      Inr \<lparr>row_pk = [Py (SInt 1)], row_values = [Norm False (py_lower x)],
           row_hash64 = Some (digest64 (identity_payload (field_separator ignored_rules_example) [(False, py_lower x)])),
           raw_values = Some [Raw (Py (SStr ''N/A'')), Raw (Py (SStr x))]\<rparr>" for x
    by (simp add: compare_row_of_def compare_row_hash64_def normalized_compare_payload_def lift_normalize_def good)
  have "py_lower ''a'' \<noteq> py_lower ''b''" by (simp add: py_lower_def)
  then show ?thesis
    by (simp add: Let_def slice made hash_column_slice_def event_for_def rows_equivalent_def cell_eq_def shown_values_def
        compare_event_to_spool_row_def values_dict_def cell_diffs_def bad lift_normalize_def)
      (simp add: ignored_columns_example_def)
qed

section \<open>Instances\<close>

definition demo_reader :: "compare_row list \<Rightarrow> db_reader" where
  "demo_reader rows = reader.extend (static_row_reader demo_hash rows)
     \<lparr>all_rows = rows, bound_row = Some (if int_keys rows = [] then (Py SNone, Py SNone)
        else (Py (SInt (Min (set (int_keys rows)))), Py (SInt (Max (set (int_keys rows))))))\<rparr>"

lemma demo_reader_serves: "serves (demo_reader rows) rows"
  by (simp add: serves_def demo_reader_def static_row_reader_def reader.defs Let_def)

definition demo_key :: compare_column where
  "demo_key = \<lparr>col_name = ''id'', col_type = INTEGER, driver_type = None\<rparr>"

theorem spool_run_complete_witness:
  "\<exists>st. spool_run (\<lambda>_. False) True 1 Inr ([\<lparr>bucket = Diff, event_pk = [], source_values = None, target_values = None\<rparr>], new_progress, None) = Inr st \<and>
    counts st Diff = 1 \<and> length (spools st Diff) = 1"
  using spool_run_complete [of "[\<lparr>bucket = Diff, event_pk = [], source_values = None, target_values = None\<rparr>]" Inr "\<lambda>e. e" True 1 new_progress]
  by fastforce


theorem decimal_bounds_report_nothing_witness:
  "run_compare_hashdiff cmp_env ((demo_reader demo_source)\<lparr>bound_row := Some (DDecimal (Dec False 5 0), DDecimal (Dec False 5 0))\<rparr>)
     ((demo_reader demo_target)\<lparr>bound_row := Some (DDecimal (Dec False 5 0), DDecimal (Dec False 5 0))\<rparr>) [demo_key] demo_limits =
   Inr ([], new_progress, None)"
  by (rule decimal_bounds_report_nothing) (simp_all add: demo_key_def demo_limits_def)

definition demo_event :: diff_event where
  "demo_event = \<lparr>bucket = Only_source, event_pk = [Py (SInt 5)], source_values = Some [], target_values = None\<rparr>"

definition demo_result :: result_row where
  "demo_result = \<lparr>res_pk = PDict [(''id'', PInt 5)], res_source = PDict [], res_target = PNone, res_cells = PList []\<rparr>"

definition demo_dumps :: "pval \<Rightarrow> string" where
  "demo_dumps v = (if v = PDict [(''id'', PInt 5)] then ''1'' else if v = PDict [] then ''2'' else if v = PNone then ''3'' else ''4'')"

definition demo_loads :: "string \<Rightarrow> pval option" where
  "demo_loads s = (if s = ''1'' then Some (PDict [(''id'', PInt 5)]) else if s = ''2'' then Some (PDict [])
     else if s = ''3'' then Some PNone else if s = ''4'' then Some (PList []) else None)"

theorem result_row_roundtrip_witness:
  "decode_compare_result_row demo_loads (encode_compare_result_row demo_dumps demo_result) = Some demo_result"
proof (rule result_row_roundtrip [of cmp_env "[demo_key]" "[]" cmp_rules "{}" demo_event])
  show "compare_event_to_spool_row cmp_env [demo_key] [] cmp_rules {} demo_event = Inr demo_result"
    by (simp add: compare_event_to_spool_row_def demo_event_def demo_result_def values_dict_def columns_dict_def demo_key_def value_json_def)
qed (simp_all add: demo_dumps_def demo_loads_def demo_result_def)

end
