(* ===== verification/Broker_State.thy ===== *)
theory Broker_State
  imports Prelude
begin

text \<open>
  Interactive sessions: the states of sessions and statements with their transition tables
  (\<open>app/broker/state.py\<close>) and the snapshots the broker keeps of both (\<open>app/domain/console_session.py\<close>). Times are integers.
\<close>

section \<open>States\<close>

datatype session_state = CONNECTING | IDLE | EXECUTING | CANCELLING | CLOSING | CLOSED | SESSION_LOST | CONNECT_FAILED

definition ACTIVE_CONSOLE_SESSION_STATES :: "session_state set" where
  "ACTIVE_CONSOLE_SESSION_STATES = {CONNECTING, IDLE, EXECUTING, CANCELLING, CLOSING}"

datatype server_cancel_state = Cancel_available | Cancel_degraded | Cancel_unknown

datatype statement_kind = SELECT | DML | DDL | PLSQL | OTHER

datatype statement_state =
  St_accepted | St_executing | St_streaming | St_succeeded | St_failed | St_cancelled | St_timeout | St_outcome_unknown | St_skipped

definition TERMINAL_STATEMENT_STATES :: "statement_state set" where
  "TERMINAL_STATEMENT_STATES = {St_succeeded, St_failed, St_cancelled, St_timeout, St_outcome_unknown, St_skipped}"

definition SESSION_TRANSITIONS :: "(session_state \<times> session_state) set" where
  "SESSION_TRANSITIONS =
    {(CONNECTING, IDLE), (CONNECTING, CONNECT_FAILED), (CONNECTING, CLOSING),
     (IDLE, EXECUTING), (IDLE, CLOSING), (IDLE, CLOSED), (IDLE, SESSION_LOST),
     (EXECUTING, IDLE), (EXECUTING, CANCELLING), (EXECUTING, CLOSING), (EXECUTING, SESSION_LOST),
     (CANCELLING, IDLE), (CANCELLING, CLOSING), (CANCELLING, SESSION_LOST),
     (CLOSING, CLOSED), (CLOSING, SESSION_LOST)}"

definition STATEMENT_TRANSITIONS :: "(statement_state \<times> statement_state) set" where
  "STATEMENT_TRANSITIONS =
    {(St_accepted, St_executing), (St_accepted, St_cancelled), (St_accepted, St_skipped), (St_accepted, St_failed),
     (St_executing, St_streaming), (St_executing, St_succeeded), (St_executing, St_failed), (St_executing, St_cancelled),
     (St_executing, St_timeout), (St_executing, St_outcome_unknown),
     (St_streaming, St_succeeded), (St_streaming, St_failed), (St_streaming, St_cancelled), (St_streaming, St_timeout),
     (St_streaming, St_outcome_unknown)}"

section \<open>Snapshots\<close>

record console_session =
  ses_id :: string
  ses_console_id :: string
  ses_datasource_id :: string
  ses_owner :: string
  ses_epoch :: int
  ses_state :: session_state
  ses_boot_id :: string
  ses_marker :: "string option"
  ses_server_cancel :: server_cancel_state
  ses_autocommit :: bool
  ses_created_at :: int
  ses_last_activity_at :: int
  ses_closed_at :: "int option"
  ses_close_reason :: "string option"
  ses_error_code :: "string option"

record console_statement =
  stm_id :: string
  stm_session_id :: string
  stm_console_id :: string
  stm_datasource_id :: string
  stm_owner :: string
  stm_epoch :: int
  stm_seq :: int
  stm_request_id :: string
  stm_sql :: string
  stm_sql_hash :: string
  stm_sql_len :: nat
  stm_kind :: statement_kind
  stm_is_write :: bool
  stm_state :: statement_state
  stm_cancel_requested :: bool
  stm_result_set_id :: "string option"
  stm_rows_affected :: "int option"
  stm_error_code :: "string option"
  stm_error_summary :: "string option"
  stm_timeout_seconds :: int
  stm_submitted_at :: int
  stm_started_at :: "int option"
  stm_finished_at :: "int option"

record statement_event =
  ev_id :: int
  ev_statement_id :: string
  ev_ts :: int
  ev_type :: string

section \<open>Errors and transitions\<close>

datatype broker_error =
    Illegal_session_transition session_state session_state
  | Illegal_statement_transition statement_state statement_state
  | Store_error string
  | Broker_error string "int option"
  | Bad_argument string
  | Runtime_failure string
  | Missing_key string
  | Result_store_failure

definition transition_session :: "session_state \<Rightarrow> session_state \<Rightarrow> (broker_error, session_state) result" where
  "transition_session a b =
     (if a = b then Inr b
      else if (a, b) \<notin> SESSION_TRANSITIONS then Inl (Illegal_session_transition a b)
      else Inr b)"

definition transition_statement :: "statement_state \<Rightarrow> statement_state \<Rightarrow> (broker_error, statement_state) result" where
  "transition_statement a b =
     (if a = b then Inr b
      else if (a, b) \<notin> STATEMENT_TRANSITIONS then Inl (Illegal_statement_transition a b)
      else Inr b)"

abbreviation active_session :: "console_session \<Rightarrow> bool" where
  "active_session s \<equiv> ses_state s \<in> ACTIVE_CONSOLE_SESSION_STATES"

abbreviation terminal_statement :: "console_statement \<Rightarrow> bool" where
  "terminal_statement s \<equiv> stm_state s \<in> TERMINAL_STATEMENT_STATES"

lemma inactive_final: "a \<notin> ACTIVE_CONSOLE_SESSION_STATES \<Longrightarrow> (a, b) \<notin> SESSION_TRANSITIONS"
  by (cases a) (auto simp: ACTIVE_CONSOLE_SESSION_STATES_def SESSION_TRANSITIONS_def)

lemma terminal_final: "a \<in> TERMINAL_STATEMENT_STATES \<Longrightarrow> (a, b) \<notin> STATEMENT_TRANSITIONS"
  by (cases a) (auto simp: TERMINAL_STATEMENT_STATES_def STATEMENT_TRANSITIONS_def)

end
