(* ===== verification/Broker_Store.thy ===== *)
theory Broker_Store
  imports Broker_State
begin

text \<open>
  \<open>app/broker/store.py\<close>: the store of sessions, statements and events behind the broker, in memory and in PostgreSQL.
  The store in memory is the stand-in of the unit tests; the tests are sound for the product only if it behaves like the tables.
\<close>

section \<open>Requests and new statements\<close>

record attach_request =
  rq_console_id :: string
  rq_datasource_id :: string
  rq_owner :: string

record sweep_report =
  sessions_lost :: nat
  read_failed :: nat
  write_outcome_unknown :: nat

definition IN_FLIGHT_STATEMENT_STATES :: "statement_state set" where
  "IN_FLIGHT_STATEMENT_STATES = {St_executing, St_streaming}"

definition connecting_session :: "attach_request \<Rightarrow> string \<Rightarrow> string \<Rightarrow> int \<Rightarrow> int \<Rightarrow> console_session" where
  "connecting_session rq sid boot epoch now =
     \<lparr>ses_id = sid, ses_console_id = rq_console_id rq, ses_datasource_id = rq_datasource_id rq, ses_owner = rq_owner rq, ses_epoch = epoch,
      ses_state = CONNECTING, ses_boot_id = boot, ses_marker = None, ses_server_cancel = Cancel_unknown, ses_autocommit = True,
      ses_created_at = now, ses_last_activity_at = now, ses_closed_at = None, ses_close_reason = None, ses_error_code = None\<rparr>"

record statement_input =
  in_statement_id :: string
  in_request_id :: string
  in_sql :: string
  in_sql_hash :: string
  in_timeout :: int
  in_is_write :: bool

definition new_statement :: "console_session \<Rightarrow> statement_input \<Rightarrow> int \<Rightarrow> int \<Rightarrow> console_statement" where
  "new_statement s inp seq now =
     \<lparr>stm_id = in_statement_id inp, stm_session_id = ses_id s, stm_console_id = ses_console_id s, stm_datasource_id = ses_datasource_id s,
      stm_owner = ses_owner s, stm_epoch = ses_epoch s, stm_seq = seq, stm_request_id = in_request_id inp, stm_sql = in_sql inp,
      stm_sql_hash = in_sql_hash inp, stm_sql_len = length (in_sql inp), stm_kind = (if in_is_write inp then OTHER else SELECT),
      stm_is_write = in_is_write inp, stm_state = St_accepted, stm_cancel_requested = False, stm_result_set_id = None,
      stm_rows_affected = None, stm_error_code = None, stm_error_summary = None, stm_timeout_seconds = in_timeout inp,
      stm_submitted_at = now, stm_started_at = None, stm_finished_at = None\<rparr>"

definition max_seq :: "console_statement list \<Rightarrow> int" where
  "max_seq xs = foldl max 0 (map stm_seq xs)"

definition lost_session :: "int \<Rightarrow> console_session \<Rightarrow> console_session" where
  "lost_session now s = s\<lparr>ses_state := SESSION_LOST, ses_closed_at := Some now, ses_close_reason := Some ''broker_restart'',
     ses_error_code := Some ''broker_restart''\<rparr>"

definition swept_statement :: "int \<Rightarrow> console_statement \<Rightarrow> console_statement" where
  "swept_statement now x = x\<lparr>stm_state := (if stm_is_write x then St_outcome_unknown else St_failed), stm_error_code := Some ''broker_restart'',
     stm_error_summary := Some ''broker restarted before statement outcome was observed'', stm_finished_at := Some now\<rparr>"

section \<open>The store in memory\<close>

record mem_store =
  m_sessions :: "(string, console_session) dict"
  m_statements :: "(string, console_statement) dict"
  m_events :: "statement_event list"
  m_epochs :: "(string, int) dict"

definition empty_mem_store :: mem_store where
  "empty_mem_store = \<lparr>m_sessions = [], m_statements = [], m_events = [], m_epochs = []\<rparr>"

text \<open>A failing call leaves the epoch counted: the dictionary is written before the session is looked up.\<close>

definition mem_attach_session ::
    "attach_request \<Rightarrow> string \<Rightarrow> string \<Rightarrow> int \<Rightarrow> string option \<Rightarrow> mem_store \<Rightarrow> (broker_error, console_session) result \<times> mem_store" where
  "mem_attach_session rq sid boot now reuse st =
     (let epoch = (case dict_get (m_epochs st) (rq_console_id rq) of Some e \<Rightarrow> e | None \<Rightarrow> 0) + 1;
          st1 = st\<lparr>m_epochs := dict_set (m_epochs st) (rq_console_id rq) epoch\<rparr>;
          put = (\<lambda>s. (Inr s, st1\<lparr>m_sessions := dict_set (m_sessions st1) (ses_id s) s\<rparr>))
      in case reuse of
           Some rid \<Rightarrow>
             (case dict_get (m_sessions st1) rid of
                None \<Rightarrow> (Inl (Store_error ''live session is missing from persistence''), st1)
              | Some existing \<Rightarrow> put (existing\<lparr>ses_epoch := epoch, ses_last_activity_at := now\<rparr>))
         | None \<Rightarrow> put (connecting_session rq sid boot epoch now))"

definition mem_update_session :: "console_session \<Rightarrow> mem_store \<Rightarrow> (broker_error, mem_store) result" where
  "mem_update_session s st =
     (if dict_get (m_sessions st) (ses_id s) = None then Inl (Store_error ''session does not exist'')
      else Inr (st\<lparr>m_sessions := dict_set (m_sessions st) (ses_id s) s\<rparr>))"

definition mem_get_session :: "string \<Rightarrow> mem_store \<Rightarrow> console_session option" where
  "mem_get_session sid st = dict_get (m_sessions st) sid"

definition mem_create_statement ::
    "console_session \<Rightarrow> statement_input \<Rightarrow> int \<Rightarrow> mem_store \<Rightarrow> (broker_error, (console_statement \<times> bool) \<times> mem_store) result" where
  "mem_create_statement s inp now st =
     (case find (\<lambda>x. stm_session_id x = ses_id s \<and> stm_request_id x = in_request_id inp) (dict_values (m_statements st)) of
        Some existing \<Rightarrow> Inr ((existing, True), st)
      | None \<Rightarrow>
          (let seq = 1 + max_seq (filter (\<lambda>x. stm_session_id x = ses_id s) (dict_values (m_statements st)));
               x = new_statement s inp seq now
           in Inr ((x, False), st\<lparr>m_statements := dict_set (m_statements st) (stm_id x) x\<rparr>)))"

definition mem_update_statement :: "console_statement \<Rightarrow> mem_store \<Rightarrow> (broker_error, mem_store) result" where
  "mem_update_statement x st =
     (if dict_get (m_statements st) (stm_id x) = None then Inl (Store_error ''statement does not exist'')
      else Inr (st\<lparr>m_statements := dict_set (m_statements st) (stm_id x) x\<rparr>))"

definition mem_get_statement :: "string \<Rightarrow> mem_store \<Rightarrow> console_statement option" where
  "mem_get_statement i st = dict_get (m_statements st) i"

definition mem_add_event :: "string \<Rightarrow> string \<Rightarrow> int \<Rightarrow> mem_store \<Rightarrow> mem_store" where
  "mem_add_event i typ now st = st\<lparr>m_events := m_events st @
     [\<lparr>ev_id = int (length (m_events st)) + 1, ev_statement_id = i, ev_ts = now, ev_type = typ\<rparr>]\<rparr>"

definition stale :: "string \<Rightarrow> console_session \<Rightarrow> bool" where
  "stale boot s \<longleftrightarrow> \<not> (ses_boot_id s = boot \<or> ses_state s \<notin> ACTIVE_CONSOLE_SESSION_STATES)"

definition mem_startup_sweep :: "string \<Rightarrow> int \<Rightarrow> mem_store \<Rightarrow> sweep_report \<times> mem_store" where
  "mem_startup_sweep boot now st =
     (let stale_ids = map fst (filter (\<lambda>(_, s). stale boot s) (m_sessions st));
          hit = (\<lambda>x. \<not> (stm_session_id x \<notin> set stale_ids \<or> stm_state x \<notin> IN_FLIGHT_STATEMENT_STATES));
          swept = filter hit (dict_values (m_statements st))
      in (\<lparr>sessions_lost = length stale_ids, read_failed = length (filter (\<lambda>x. \<not> stm_is_write x) swept),
           write_outcome_unknown = length (filter stm_is_write swept)\<rparr>,
          st\<lparr>m_sessions := map (\<lambda>(k, s). (k, if stale boot s then lost_session now s else s)) (m_sessions st),
             m_statements := map (\<lambda>(k, x). (k, if hit x then swept_statement now x else x)) (m_statements st)\<rparr>))"

section \<open>The tables\<close>

text \<open>
  The tables \<open>sql_consoles\<close>, \<open>console_sessions\<close>, \<open>console_statements\<close> and \<open>console_statement_events\<close> with the constraints
  \<open>app/db/models.py\<close> declares on them: primary keys, one active session per console, one statement per session and request, and an
  event only of a statement that exists. A call that violates one is rolled back with the error of the database.
\<close>

record console_row =
  con_id :: string
  con_datasource_id :: string
  con_owner :: string
  con_epoch :: int

record pg_store =
  p_consoles :: "console_row list"
  p_sessions :: "console_session list"
  p_statements :: "console_statement list"
  p_events :: "statement_event list"
  p_next_event :: int

definition update_where :: "('a \<Rightarrow> bool) \<Rightarrow> ('a \<Rightarrow> 'a) \<Rightarrow> 'a list \<Rightarrow> 'a list" where
  "update_where P f rows = map (\<lambda>r. if P r then f r else r) rows"

definition session_constraints :: "console_session list \<Rightarrow> bool" where
  "session_constraints rows \<longleftrightarrow> distinct (map ses_id rows) \<and>
     distinct (map ses_console_id (filter (\<lambda>s. ses_state s \<in> ACTIVE_CONSOLE_SESSION_STATES) rows))"

definition statement_constraints :: "console_statement list \<Rightarrow> bool" where
  "statement_constraints rows \<longleftrightarrow> distinct (map stm_id rows) \<and> distinct (map (\<lambda>x. (stm_session_id x, stm_request_id x)) rows)"

definition put_sessions :: "console_session list \<Rightarrow> pg_store \<Rightarrow> (broker_error, pg_store) result" where
  "put_sessions rows st = (if session_constraints rows then Inr (st\<lparr>p_sessions := rows\<rparr>) else Inl (Store_error ''duplicate key''))"

definition put_statements :: "console_statement list \<Rightarrow> pg_store \<Rightarrow> (broker_error, pg_store) result" where
  "put_statements rows st = (if statement_constraints rows then Inr (st\<lparr>p_statements := rows\<rparr>) else Inl (Store_error ''duplicate key''))"

definition pg_attach_session ::
    "attach_request \<Rightarrow> string \<Rightarrow> string \<Rightarrow> int \<Rightarrow> string option \<Rightarrow> pg_store \<Rightarrow> (broker_error, console_session \<times> pg_store) result" where
  "pg_attach_session rq sid boot now reuse st =
     (let own = (\<lambda>c. con_id c = rq_console_id rq \<and> con_datasource_id c = rq_datasource_id rq \<and> con_owner c = rq_owner rq) in
      case find own (p_consoles st) of
        None \<Rightarrow> Inl (Store_error ''console does not exist or ownership changed'')
      | Some c \<Rightarrow>
          (let epoch = con_epoch c + 1;
               st1 = st\<lparr>p_consoles := update_where own (\<lambda>c. c\<lparr>con_epoch := con_epoch c + 1\<rparr>) (p_consoles st)\<rparr>
           in case reuse of
                Some rid \<Rightarrow>
                  (let live = (\<lambda>s. ses_id s = rid \<and> ses_state s \<in> ACTIVE_CONSOLE_SESSION_STATES);
                       touch = (\<lambda>s. s\<lparr>ses_epoch := epoch, ses_last_activity_at := now\<rparr>)
                   in case find live (p_sessions st1) of
                        None \<Rightarrow> Inl (Store_error ''live session is missing from persistence'')
                      | Some s \<Rightarrow> rbind (put_sessions (update_where live touch (p_sessions st1)) st1) (\<lambda>st2. Inr (touch s, st2)))
              | None \<Rightarrow>
                  (let s = connecting_session rq sid boot epoch now in
                   rbind (put_sessions (p_sessions st1 @ [s]) st1) (\<lambda>st2. Inr (s, st2)))))"

definition pg_update_session :: "console_session \<Rightarrow> pg_store \<Rightarrow> (broker_error, pg_store) result" where
  "pg_update_session s st =
     (if length (filter (\<lambda>r. ses_id r = ses_id s) (p_sessions st)) \<noteq> 1 then Inl (Store_error ''session does not exist'')
      else put_sessions (update_where (\<lambda>r. ses_id r = ses_id s) (\<lambda>_. s) (p_sessions st)) st)"

definition pg_get_session :: "string \<Rightarrow> pg_store \<Rightarrow> console_session option" where
  "pg_get_session sid st = find (\<lambda>r. ses_id r = sid) (p_sessions st)"

definition pg_create_statement ::
    "console_session \<Rightarrow> statement_input \<Rightarrow> int \<Rightarrow> pg_store \<Rightarrow> (broker_error, (console_statement \<times> bool) \<times> pg_store) result" where
  "pg_create_statement s inp now st =
     (if pg_get_session (ses_id s) st = None then Inl (Store_error ''no row was found'')
      else case find (\<lambda>x. stm_session_id x = ses_id s \<and> stm_request_id x = in_request_id inp) (p_statements st) of
        Some existing \<Rightarrow> Inr ((existing, True), st)
      | None \<Rightarrow>
          (let seq = max_seq (filter (\<lambda>x. stm_session_id x = ses_id s) (p_statements st)) + 1;
               x = new_statement s inp seq now
           in rbind (put_statements (p_statements st @ [x]) st) (\<lambda>st1. Inr ((x, False), st1))))"

definition pg_update_statement :: "console_statement \<Rightarrow> pg_store \<Rightarrow> (broker_error, pg_store) result" where
  "pg_update_statement x st =
     (if length (filter (\<lambda>r. stm_id r = stm_id x) (p_statements st)) \<noteq> 1 then Inl (Store_error ''statement does not exist'')
      else put_statements (update_where (\<lambda>r. stm_id r = stm_id x) (\<lambda>_. x) (p_statements st)) st)"

definition pg_get_statement :: "string \<Rightarrow> pg_store \<Rightarrow> console_statement option" where
  "pg_get_statement i st = find (\<lambda>r. stm_id r = i) (p_statements st)"

definition pg_add_event :: "string \<Rightarrow> string \<Rightarrow> int \<Rightarrow> pg_store \<Rightarrow> (broker_error, pg_store) result" where
  "pg_add_event i typ now st =
     (if pg_get_statement i st = None then Inl (Store_error ''foreign key'')
      else Inr (st\<lparr>p_events := p_events st @ [\<lparr>ev_id = p_next_event st, ev_statement_id = i, ev_ts = now, ev_type = typ\<rparr>],
                  p_next_event := p_next_event st + 1\<rparr>))"

definition pg_startup_sweep :: "string \<Rightarrow> int \<Rightarrow> pg_store \<Rightarrow> sweep_report \<times> pg_store" where
  "pg_startup_sweep boot now st =
     (let stale_ids = map ses_id (filter (\<lambda>s. ses_boot_id s \<noteq> boot \<and> ses_state s \<in> ACTIVE_CONSOLE_SESSION_STATES) (p_sessions st)) in
      if stale_ids = [] then (\<lparr>sessions_lost = 0, read_failed = 0, write_outcome_unknown = 0\<rparr>, st)
      else
        (let hit = (\<lambda>x. stm_session_id x \<in> set stale_ids \<and> stm_state x \<in> IN_FLIGHT_STATEMENT_STATES);
             changed = filter hit (p_statements st);
             reads = length (filter (\<lambda>x. \<not> stm_is_write x) changed)
         in (\<lparr>sessions_lost = length stale_ids, read_failed = reads, write_outcome_unknown = length changed - reads\<rparr>,
             st\<lparr>p_sessions := update_where (\<lambda>s. ses_id s \<in> set stale_ids) (lost_session now) (p_sessions st),
                p_statements := update_where hit (swept_statement now) (p_statements st)\<rparr>)))"

end
