(* ===== verification/Broker_Store_Refine.thy ===== *)
theory Broker_Store_Refine
  imports Broker_Store
begin

text \<open>
  The store in memory against the tables: a simulation relation, one lemma per operation, and runs of any length. The interface of
  the broker's store is a locale, interpreted on both.
\<close>

section \<open>Rows keyed by their id\<close>

definition keyed :: "('a \<Rightarrow> string) \<Rightarrow> 'a list \<Rightarrow> (string, 'a) dict" where
  "keyed f xs = map (\<lambda>x. (f x, x)) xs"

lemma keyed_lookup: "dict_get (keyed f xs) k = find (\<lambda>x. f x = k) xs"
  by (induction xs) (auto simp: keyed_def)

lemma keyed_values [simp]: "dict_values (keyed f xs) = xs"
  by (simp add: keyed_def o_def)

lemma keyed_append: "f y \<notin> f ` set xs \<Longrightarrow> dict_set (keyed f xs) (f y) y = keyed f (xs @ [y])"
  by (subst dict_keys_set_new) (auto simp: keyed_def)

lemma update_where_none: "\<forall>x \<in> set xs. \<not> P x \<Longrightarrow> update_where P g xs = xs"
  by (simp add: update_where_def map_idI)

lemma map_update_where: "(\<And>x. f (g x) = f x) \<Longrightarrow> map f (update_where P g xs) = map f xs"
  by (simp add: update_where_def)

lemma keyed_replace:
  "distinct (map f xs) \<Longrightarrow> f y = k \<Longrightarrow> k \<in> f ` set xs \<Longrightarrow>
   dict_set (keyed f xs) k y = keyed f (update_where (\<lambda>r. f r = k) (\<lambda>_. y) xs)"
proof (induction xs)
  case (Cons x xs)
  show ?case
  proof (cases "f x = k")
    case True
    hence "\<forall>z \<in> set xs. f z \<noteq> k" using Cons.prems(1) by (metis distinct.simps(2) image_eqI list.simps(9) set_map)
    thus ?thesis using True Cons.prems(2) by (auto simp: keyed_def update_where_def)
  next
    case False
    thus ?thesis using Cons by (auto simp: keyed_def update_where_def)
  qed
qed simp

lemma find_update_where:
  "find P xs = Some x \<Longrightarrow> distinct (map f xs) \<Longrightarrow> (\<And>y. y \<in> set xs \<Longrightarrow> P y \<longleftrightarrow> f y = f x \<and> Q y) \<Longrightarrow>
   update_where P g xs = update_where (\<lambda>r. f r = f x) (\<lambda>_. g x) xs"
proof -
  assume f: "find P xs = Some x" and d: "distinct (map f xs)" and P: "\<And>y. y \<in> set xs \<Longrightarrow> P y \<longleftrightarrow> f y = f x \<and> Q y"
  have x: "x \<in> set xs" "P x" using f by (auto simp: find_Some_iff)
  have "(if P y then g y else y) = (if f y = f x then g x else y)" if "y \<in> set xs" for y
    using that x P d by (auto simp: distinct_map dest: inj_onD)
  thus ?thesis by (simp add: update_where_def)
qed

lemma find_distinct: "distinct (map f xs) \<Longrightarrow> x \<in> set xs \<Longrightarrow> find (\<lambda>y. f y = f x) xs = Some x"
  by (induction xs) auto

lemma filter_one_mem: "length (filter (\<lambda>r. f r = k) xs) = 1 \<Longrightarrow> k \<in> f ` set xs"
  by (induction xs) (auto split: if_splits)

section \<open>The simulation\<close>

definition same_store :: "mem_store \<Rightarrow> pg_store \<Rightarrow> bool" where
  "same_store m p \<longleftrightarrow>
     m_sessions m = keyed ses_id (p_sessions p) \<and> m_statements m = keyed stm_id (p_statements p) \<and>
     m_events m = p_events p \<and> p_next_event p = int (length (p_events p)) + 1 \<and>
     (\<forall>c \<in> set (p_consoles p). (case dict_get (m_epochs m) (con_id c) of Some e \<Rightarrow> e | None \<Rightarrow> 0) = con_epoch c) \<and>
     distinct (map con_id (p_consoles p)) \<and> session_constraints (p_sessions p) \<and> statement_constraints (p_statements p)"

lemma put_sessions_Inr: "put_sessions rows st = Inr st' \<longleftrightarrow> session_constraints rows \<and> st' = st\<lparr>p_sessions := rows\<rparr>"
  by (auto simp: put_sessions_def)

lemma put_statements_Inr: "put_statements rows st = Inr st' \<longleftrightarrow> statement_constraints rows \<and> st' = st\<lparr>p_statements := rows\<rparr>"
  by (auto simp: put_statements_def)

lemma sim_epochs:
  assumes "same_store m p" "find own (p_consoles p) = Some c" "\<And>d. own d \<Longrightarrow> con_id d = cid" "own c"
  shows "\<forall>d \<in> set (update_where own (\<lambda>c. c\<lparr>con_epoch := con_epoch c + 1\<rparr>) (p_consoles p)).
          (case dict_get (dict_set (m_epochs m) cid (con_epoch c + 1)) (con_id d) of Some e \<Rightarrow> e | None \<Rightarrow> 0) = con_epoch d"
    and "(case dict_get (m_epochs m) cid of Some e \<Rightarrow> e | None \<Rightarrow> 0) = con_epoch c"
proof -
  have c: "c \<in> set (p_consoles p)" "con_id c = cid" using assms by (auto simp: find_Some_iff)
  have e: "(case dict_get (m_epochs m) (con_id d) of Some e \<Rightarrow> e | None \<Rightarrow> 0) = con_epoch d" if "d \<in> set (p_consoles p)" for d
    using assms(1) that by (simp add: same_store_def)
  have d: "d = c" if "d \<in> set (p_consoles p)" "con_id d = cid" for d
    using assms(1) that c by (auto simp: same_store_def distinct_map dest: inj_onD)
  show "(case dict_get (m_epochs m) cid of Some e \<Rightarrow> e | None \<Rightarrow> 0) = con_epoch c" using e c by blast
  show "\<forall>d \<in> set (update_where own (\<lambda>c. c\<lparr>con_epoch := con_epoch c + 1\<rparr>) (p_consoles p)).
          (case dict_get (dict_set (m_epochs m) cid (con_epoch c + 1)) (con_id d) of Some e \<Rightarrow> e | None \<Rightarrow> 0) = con_epoch d"
  proof
    fix x assume "x \<in> set (update_where own (\<lambda>c. c\<lparr>con_epoch := con_epoch c + 1\<rparr>) (p_consoles p))"
    then obtain d where dm: "d \<in> set (p_consoles p)" and x: "x = (if own d then d\<lparr>con_epoch := con_epoch d + 1\<rparr> else d)"
      by (auto simp: update_where_def)
    show "(case dict_get (dict_set (m_epochs m) cid (con_epoch c + 1)) (con_id x) of Some e \<Rightarrow> e | None \<Rightarrow> 0) = con_epoch x"
    proof (cases "con_id d = cid")
      case True
      hence "d = c" using d dm by blast
      thus ?thesis using x assms(4) c(2) by simp
    next
      case False
      hence "\<not> own d" using assms(3) by blast
      thus ?thesis using x False e dm by simp
    qed
  qed
qed

lemma attach_simulated:
  assumes "same_store m p" "pg_attach_session rq sid boot now reuse p = Inr (s, p')"
  shows "\<exists>m'. mem_attach_session rq sid boot now reuse m = (Inr s, m') \<and> same_store m' p'"
proof -
  let ?own = "\<lambda>c. con_id c = rq_console_id rq \<and> con_datasource_id c = rq_datasource_id rq \<and> con_owner c = rq_owner rq"
  obtain c where c: "find ?own (p_consoles p) = Some c"
    using assms(2) by (auto simp: pg_attach_session_def Let_def split: option.splits)
  have own: "?own c" using c by (auto simp: find_Some_iff)
  let ?e = "con_epoch c + 1"
  let ?cs = "update_where ?own (\<lambda>c. c\<lparr>con_epoch := con_epoch c + 1\<rparr>) (p_consoles p)"
  note ep = sim_epochs [OF assms(1) c, of "rq_console_id rq", simplified own]
  have ep1: "(case dict_get (m_epochs m) (rq_console_id rq) of Some e \<Rightarrow> e | None \<Rightarrow> 0) = con_epoch c"
    using ep(2) own by blast
  have ep2: "\<forall>d \<in> set ?cs. (case dict_get (dict_set (m_epochs m) (rq_console_id rq) ?e) (con_id d) of Some e \<Rightarrow> e | None \<Rightarrow> 0) = con_epoch d"
    using ep(1) own by blast
  have dc: "distinct (map con_id ?cs)"
    using assms(1) by (subst map_update_where) (simp_all add: same_store_def)
  have ms: "m_sessions m = keyed ses_id (p_sessions p)" and ds: "distinct (map ses_id (p_sessions p))"
    using assms(1) by (auto simp: same_store_def session_constraints_def)
  show ?thesis
  proof (cases reuse)
    case None
    let ?s = "connecting_session rq sid boot ?e now"
    have s: "s = ?s" and con: "session_constraints (p_sessions p @ [?s])"
      and p': "p' = p\<lparr>p_consoles := ?cs, p_sessions := p_sessions p @ [?s]\<rparr>"
      using assms(2) None c by (auto simp: pg_attach_session_def Let_def rbind_eq_Inr put_sessions_Inr)
    have new: "dict_set (m_sessions m) (ses_id ?s) ?s = keyed ses_id (p_sessions p @ [?s])"
      unfolding ms using con by (intro keyed_append) (auto simp: session_constraints_def)
    show ?thesis
      using assms(1) None ep1 ep2 dc new con by (simp add: mem_attach_session_def Let_def s p' same_store_def)
  next
    case (Some rid)
    let ?live = "\<lambda>s. ses_id s = rid \<and> ses_state s \<in> ACTIVE_CONSOLE_SESSION_STATES"
    let ?touch = "\<lambda>s. s\<lparr>ses_epoch := ?e, ses_last_activity_at := now\<rparr>"
    obtain x where x: "find ?live (p_sessions p) = Some x" and s: "s = ?touch x"
      and con: "session_constraints (update_where ?live ?touch (p_sessions p))"
      and p': "p' = p\<lparr>p_consoles := ?cs, p_sessions := update_where ?live ?touch (p_sessions p)\<rparr>"
      using assms(2) Some c
      by (auto simp: pg_attach_session_def Let_def rbind_eq_Inr put_sessions_Inr split: option.splits)
    have xm: "x \<in> set (p_sessions p)" "ses_id x = rid" using x by (auto simp: find_Some_iff)
    have g: "dict_get (m_sessions m) rid = Some x" using find_distinct [OF ds xm(1)] xm(2) by (simp add: ms keyed_lookup)
    have u: "update_where ?live ?touch (p_sessions p) = update_where (\<lambda>r. ses_id r = ses_id x) (\<lambda>_. ?touch x) (p_sessions p)"
      by (rule find_update_where [OF x ds, where Q = "\<lambda>s. ses_state s \<in> ACTIVE_CONSOLE_SESSION_STATES"]) (simp add: xm)
    have "dict_set (m_sessions m) rid (?touch x) = keyed ses_id (update_where (\<lambda>r. ses_id r = rid) (\<lambda>_. ?touch x) (p_sessions p))"
      unfolding ms by (rule keyed_replace [OF ds]) (use xm in auto)
    hence set: "dict_set (m_sessions m) rid (?touch x) = keyed ses_id (update_where ?live ?touch (p_sessions p))"
      using u xm by simp
    show ?thesis
      using assms(1) Some ep1 ep2 dc g set con xm by (simp add: mem_attach_session_def Let_def s p' same_store_def)
  qed
qed

lemma update_session_simulated:
  assumes "same_store m p" "pg_update_session s p = Inr p'"
  shows "\<exists>m'. mem_update_session s m = Inr m' \<and> same_store m' p'"
proof -
  let ?rows = "update_where (\<lambda>r. ses_id r = ses_id s) (\<lambda>_. s) (p_sessions p)"
  have one: "ses_id s \<in> ses_id ` set (p_sessions p)" and con: "session_constraints ?rows" and p': "p' = p\<lparr>p_sessions := ?rows\<rparr>"
    using assms(2) filter_one_mem [of ses_id "ses_id s"] by (auto simp: pg_update_session_def put_sessions_Inr split: if_splits)
  have ms: "m_sessions m = keyed ses_id (p_sessions p)" and ds: "distinct (map ses_id (p_sessions p))"
    using assms(1) by (auto simp: same_store_def session_constraints_def)
  have "dict_set (m_sessions m) (ses_id s) s = keyed ses_id ?rows"
    unfolding ms by (rule keyed_replace [OF ds refl one])
  moreover have "dict_get (m_sessions m) (ses_id s) \<noteq> None"
    using one by (auto simp: ms keyed_lookup find_None_iff)
  ultimately show ?thesis using assms(1) con by (simp add: mem_update_session_def p' same_store_def)
qed

lemma update_statement_simulated:
  assumes "same_store m p" "pg_update_statement x p = Inr p'"
  shows "\<exists>m'. mem_update_statement x m = Inr m' \<and> same_store m' p'"
proof -
  let ?rows = "update_where (\<lambda>r. stm_id r = stm_id x) (\<lambda>_. x) (p_statements p)"
  have one: "stm_id x \<in> stm_id ` set (p_statements p)" and con: "statement_constraints ?rows" and p': "p' = p\<lparr>p_statements := ?rows\<rparr>"
    using assms(2) filter_one_mem [of stm_id "stm_id x"] by (auto simp: pg_update_statement_def put_statements_Inr split: if_splits)
  have ms: "m_statements m = keyed stm_id (p_statements p)" and ds: "distinct (map stm_id (p_statements p))"
    using assms(1) by (auto simp: same_store_def statement_constraints_def)
  have "dict_set (m_statements m) (stm_id x) x = keyed stm_id ?rows"
    unfolding ms by (rule keyed_replace [OF ds refl one])
  moreover have "dict_get (m_statements m) (stm_id x) \<noteq> None"
    using one by (auto simp: ms keyed_lookup find_None_iff)
  ultimately show ?thesis using assms(1) con by (simp add: mem_update_statement_def p' same_store_def)
qed

lemma create_statement_simulated:
  assumes "same_store m p" "pg_create_statement s inp now p = Inr (r, p')"
  shows "\<exists>m'. mem_create_statement s inp now m = Inr (r, m') \<and> same_store m' p'"
proof -
  let ?dup = "\<lambda>x. stm_session_id x = ses_id s \<and> stm_request_id x = in_request_id inp"
  have ms: "m_statements m = keyed stm_id (p_statements p)" using assms(1) by (simp add: same_store_def)
  show ?thesis
  proof (cases "find ?dup (p_statements p)")
    case (Some x)
    thus ?thesis using assms by (auto simp: pg_create_statement_def mem_create_statement_def ms split: if_splits)
  next
    case None
    let ?x = "new_statement s inp (max_seq (filter (\<lambda>x. stm_session_id x = ses_id s) (p_statements p)) + 1) now"
    have r: "r = (?x, False)" and con: "statement_constraints (p_statements p @ [?x])"
      and p': "p' = p\<lparr>p_statements := p_statements p @ [?x]\<rparr>"
      using assms(2) None by (auto simp: pg_create_statement_def Let_def rbind_eq_Inr put_statements_Inr split: if_splits)
    have "dict_set (m_statements m) (stm_id ?x) ?x = keyed stm_id (p_statements p @ [?x])"
      unfolding ms using con by (intro keyed_append) (auto simp: statement_constraints_def)
    thus ?thesis using assms(1) None con by (simp add: mem_create_statement_def Let_def ms r p' same_store_def add.commute)
  qed
qed

lemma add_event_simulated:
  "same_store m p \<Longrightarrow> pg_add_event i typ now p = Inr p' \<Longrightarrow> same_store (mem_add_event i typ now m) p'"
  by (auto simp: pg_add_event_def mem_add_event_def same_store_def split: if_splits)

lemma get_session_simulated: "same_store m p \<Longrightarrow> mem_get_session i m = pg_get_session i p"
  by (simp add: same_store_def mem_get_session_def pg_get_session_def keyed_lookup)

lemma get_statement_simulated: "same_store m p \<Longrightarrow> mem_get_statement i m = pg_get_statement i p"
  by (simp add: same_store_def mem_get_statement_def pg_get_statement_def keyed_lookup)

lemma filter_update_where_off:
  "(\<And>x. \<not> Q (g x)) \<Longrightarrow> filter Q (update_where P g xs) = filter (\<lambda>x. Q x \<and> \<not> P x) xs"
  by (induction xs) (auto simp: update_where_def)

lemma sweep_constraints:
  assumes "session_constraints rows"
  shows "session_constraints (update_where P (lost_session now) rows)"
proof -
  let ?act = "\<lambda>s. ses_state s \<in> ACTIVE_CONSOLE_SESSION_STATES"
  have "filter ?act (update_where P (lost_session now) rows) = filter (\<lambda>x. \<not> P x) (filter ?act rows)"
    by (subst filter_update_where_off) (auto simp: lost_session_def ACTIVE_CONSOLE_SESSION_STATES_def intro: filter_cong)
  moreover have "map ses_id (update_where P (lost_session now) rows) = map ses_id rows"
    by (rule map_update_where) (simp add: lost_session_def)
  ultimately show ?thesis
    using assms distinct_map_filter [of ses_console_id "filter ?act rows" "\<lambda>x. \<not> P x"] by (simp add: session_constraints_def)
qed

lemma sweep_statement_constraints:
  "statement_constraints rows \<Longrightarrow> statement_constraints (update_where P (swept_statement now) rows)"
  by (simp add: statement_constraints_def map_update_where swept_statement_def)

lemma keyed_update_where:
  "(\<And>x. f (g x) = f x) \<Longrightarrow> map (\<lambda>(k, x). (k, if P x then g x else x)) (keyed f xs) = keyed f (update_where P g xs)"
  by (simp add: keyed_def update_where_def)

lemma stale_ids_iff:
  assumes "distinct (map ses_id rows)" "s \<in> set rows"
  shows "ses_id s \<in> set (map ses_id (filter Q rows)) \<longleftrightarrow> Q s"
  using assms by (auto simp: distinct_map dest: inj_onD)

lemma sweep_simulated:
  assumes "same_store m p" "pg_startup_sweep boot now p = (r, p')"
  shows "\<exists>m'. mem_startup_sweep boot now m = (r, m') \<and> same_store m' p'"
proof -
  let ?st = "\<lambda>s. ses_boot_id s \<noteq> boot \<and> ses_state s \<in> ACTIVE_CONSOLE_SESSION_STATES"
  let ?ids = "map ses_id (filter ?st (p_sessions p))"
  let ?hit = "\<lambda>x. stm_session_id x \<in> set ?ids \<and> stm_state x \<in> IN_FLIGHT_STATEMENT_STATES"
  have ms: "m_sessions m = keyed ses_id (p_sessions p)" and mt: "m_statements m = keyed stm_id (p_statements p)"
    and ds: "distinct (map ses_id (p_sessions p))"
    using assms(1) by (auto simp: same_store_def session_constraints_def)
  have stale: "stale boot = ?st" by (auto simp: stale_def)
  have ids: "map fst (filter (\<lambda>(_, s). stale boot s) (m_sessions m)) = ?ids"
    by (simp add: ms keyed_def stale filter_map o_def)
  have hit: "(\<not> (stm_session_id x \<notin> set ?ids \<or> stm_state x \<notin> IN_FLIGHT_STATEMENT_STATES)) = ?hit x" for x by blast
  have ses: "map (\<lambda>(k, s). (k, if stale boot s then lost_session now s else s)) (m_sessions m)
      = keyed ses_id (update_where ?st (lost_session now) (p_sessions p))"
    unfolding ms stale by (rule keyed_update_where) (simp add: lost_session_def)
  have stm: "map (\<lambda>(k, x). (k, if ?hit x then swept_statement now x else x)) (m_statements m)
      = keyed stm_id (update_where ?hit (swept_statement now) (p_statements p))"
    unfolding mt by (rule keyed_update_where) (simp add: swept_statement_def)
  have rows: "update_where (\<lambda>s. ses_id s \<in> set ?ids) (lost_session now) (p_sessions p) = update_where ?st (lost_session now) (p_sessions p)"
    unfolding update_where_def by (rule map_cong [OF refl]) (use stale_ids_iff [OF ds, of _ ?st] in auto)
  have cnt: "length (filter ?hit (p_statements p)) - length (filter (\<lambda>x. \<not> stm_is_write x) (filter ?hit (p_statements p)))
      = length (filter stm_is_write (filter ?hit (p_statements p)))"
    using sum_length_filter_compl [of stm_is_write "filter ?hit (p_statements p)"] by linarith
  have mem: "mem_startup_sweep boot now m =
      (\<lparr>sessions_lost = length ?ids, read_failed = length (filter (\<lambda>x. \<not> stm_is_write x) (filter ?hit (p_statements p))),
        write_outcome_unknown = length (filter stm_is_write (filter ?hit (p_statements p)))\<rparr>,
       m\<lparr>m_sessions := keyed ses_id (update_where ?st (lost_session now) (p_sessions p)),
         m_statements := keyed stm_id (update_where ?hit (swept_statement now) (p_statements p))\<rparr>)"
    unfolding mem_startup_sweep_def Let_def ids hit ses stm by (simp only: mt keyed_values length_map)
  show ?thesis
  proof (cases "?ids = []")
    case True
    hence none: "filter ?st (p_sessions p) = []" by simp
    have "update_where ?st (lost_session now) (p_sessions p) = p_sessions p"
      "update_where ?hit (swept_statement now) (p_statements p) = p_statements p" "filter ?hit (p_statements p) = []"
      using none by (auto intro!: update_where_none simp: filter_empty_conv)
    hence "mem_startup_sweep boot now m = (\<lparr>sessions_lost = 0, read_failed = 0, write_outcome_unknown = 0\<rparr>, m)"
      using True none by (simp add: mem ms [symmetric] mt [symmetric])
    moreover have "r = \<lparr>sessions_lost = 0, read_failed = 0, write_outcome_unknown = 0\<rparr>" "p' = p"
      using assms(2) True by (simp_all add: pg_startup_sweep_def)
    ultimately show ?thesis using assms(1) by simp
  next
    case False
    have rp: "r = \<lparr>sessions_lost = length ?ids, read_failed = length (filter (\<lambda>x. \<not> stm_is_write x) (filter ?hit (p_statements p))),
        write_outcome_unknown = length (filter stm_is_write (filter ?hit (p_statements p)))\<rparr>"
      "p' = p\<lparr>p_sessions := update_where ?st (lost_session now) (p_sessions p),
             p_statements := update_where ?hit (swept_statement now) (p_statements p)\<rparr>"
      using assms(2) unfolding pg_startup_sweep_def Let_def if_not_P [OF False] rows cnt prod.inject by simp_all
    show ?thesis
      using assms(1) sweep_constraints sweep_statement_constraints by (simp add: mem rp same_store_def)
  qed
qed

section \<open>Sequences of calls\<close>

datatype store_call =
    Attach_session attach_request string string int "string option"
  | Update_session console_session
  | Get_session string
  | Create_statement console_session statement_input int
  | Update_statement console_statement
  | Get_statement string
  | Add_event string string int
  | Startup_sweep string int

datatype store_answer =
    Session console_session
  | Returned
  | Session_found "console_session option"
  | Statement "console_statement \<times> bool"
  | Statement_found "console_statement option"
  | Swept sweep_report
  | Raised broker_error

text \<open>A call on the tables is one transaction: it is rolled back when it raises.\<close>

definition pg_call :: "store_call \<Rightarrow> pg_store \<Rightarrow> store_answer \<times> pg_store" where
  "pg_call c st =
     (case c of
        Attach_session rq sid boot now reuse \<Rightarrow>
          (case pg_attach_session rq sid boot now reuse st of Inl e \<Rightarrow> (Raised e, st) | Inr (s, st') \<Rightarrow> (Session s, st'))
      | Update_session s \<Rightarrow> (case pg_update_session s st of Inl e \<Rightarrow> (Raised e, st) | Inr st' \<Rightarrow> (Returned, st'))
      | Get_session i \<Rightarrow> (Session_found (pg_get_session i st), st)
      | Create_statement s inp now \<Rightarrow>
          (case pg_create_statement s inp now st of Inl e \<Rightarrow> (Raised e, st) | Inr (r, st') \<Rightarrow> (Statement r, st'))
      | Update_statement x \<Rightarrow> (case pg_update_statement x st of Inl e \<Rightarrow> (Raised e, st) | Inr st' \<Rightarrow> (Returned, st'))
      | Get_statement i \<Rightarrow> (Statement_found (pg_get_statement i st), st)
      | Add_event i typ now \<Rightarrow> (case pg_add_event i typ now st of Inl e \<Rightarrow> (Raised e, st) | Inr st' \<Rightarrow> (Returned, st'))
      | Startup_sweep boot now \<Rightarrow> (case pg_startup_sweep boot now st of (r, st') \<Rightarrow> (Swept r, st')))"

definition mem_call :: "store_call \<Rightarrow> mem_store \<Rightarrow> store_answer \<times> mem_store" where
  "mem_call c st =
     (case c of
        Attach_session rq sid boot now reuse \<Rightarrow>
          (case mem_attach_session rq sid boot now reuse st of (Inl e, st') \<Rightarrow> (Raised e, st') | (Inr s, st') \<Rightarrow> (Session s, st'))
      | Update_session s \<Rightarrow> (case mem_update_session s st of Inl e \<Rightarrow> (Raised e, st) | Inr st' \<Rightarrow> (Returned, st'))
      | Get_session i \<Rightarrow> (Session_found (mem_get_session i st), st)
      | Create_statement s inp now \<Rightarrow>
          (case mem_create_statement s inp now st of Inl e \<Rightarrow> (Raised e, st) | Inr (r, st') \<Rightarrow> (Statement r, st'))
      | Update_statement x \<Rightarrow> (case mem_update_statement x st of Inl e \<Rightarrow> (Raised e, st) | Inr st' \<Rightarrow> (Returned, st'))
      | Get_statement i \<Rightarrow> (Statement_found (mem_get_statement i st), st)
      | Add_event i typ now \<Rightarrow> (Returned, mem_add_event i typ now st)
      | Startup_sweep boot now \<Rightarrow> (case mem_startup_sweep boot now st of (r, st') \<Rightarrow> (Swept r, st')))"

fun run_calls :: "('c \<Rightarrow> 's \<Rightarrow> 'a \<times> 's) \<Rightarrow> 'c list \<Rightarrow> 's \<Rightarrow> 'a list \<times> 's" where
  "run_calls f [] st = ([], st)"
| "run_calls f (c # cs) st = (let (a, st1) = f c st; (as, st2) = run_calls f cs st1 in (a # as, st2))"

fun is_raised :: "store_answer \<Rightarrow> bool" where
  "is_raised (Raised e) = True"
| "is_raised _ = False"

definition fresh_tables :: "console_row list \<Rightarrow> pg_store" where
  "fresh_tables cs = \<lparr>p_consoles = cs, p_sessions = [], p_statements = [], p_events = [], p_next_event = 1\<rparr>"

lemma fresh_same_store:
  "distinct (map con_id cs) \<Longrightarrow> (\<And>c. c \<in> set cs \<Longrightarrow> con_epoch c = 0) \<Longrightarrow> same_store empty_mem_store (fresh_tables cs)"
  by (simp add: same_store_def empty_mem_store_def fresh_tables_def keyed_def session_constraints_def statement_constraints_def)

lemma call_simulated:
  assumes "same_store m p" "pg_call c p = (a, p')" "\<not> is_raised a"
  shows "\<exists>m'. mem_call c m = (a, m') \<and> same_store m' p'"
proof (cases c)
  case (Attach_session rq sid boot now reuse)
  then obtain s where "pg_attach_session rq sid boot now reuse p = Inr (s, p')" "a = Session s"
    using assms by (auto simp: pg_call_def split: sum.splits prod.splits)
  thus ?thesis using attach_simulated [OF assms(1), of rq sid boot now reuse s p'] Attach_session by (auto simp: mem_call_def)
next
  case (Update_session s)
  then have "pg_update_session s p = Inr p'" "a = Returned" using assms by (auto simp: pg_call_def split: sum.splits)
  thus ?thesis using update_session_simulated [OF assms(1), of s p'] Update_session by (auto simp: mem_call_def)
next
  case (Get_session i)
  thus ?thesis using get_session_simulated [OF assms(1)] assms by (auto simp: pg_call_def mem_call_def)
next
  case (Create_statement s inp now)
  then obtain r where "pg_create_statement s inp now p = Inr (r, p')" "a = Statement r"
    using assms by (auto simp: pg_call_def split: sum.splits prod.splits)
  thus ?thesis using create_statement_simulated [OF assms(1), of s inp now r p'] Create_statement by (auto simp: mem_call_def)
next
  case (Update_statement x)
  then have "pg_update_statement x p = Inr p'" "a = Returned" using assms by (auto simp: pg_call_def split: sum.splits)
  thus ?thesis using update_statement_simulated [OF assms(1), of x p'] Update_statement by (auto simp: mem_call_def)
next
  case (Get_statement i)
  thus ?thesis using get_statement_simulated [OF assms(1)] assms by (auto simp: pg_call_def mem_call_def)
next
  case (Add_event i ty now)
  then have "pg_add_event i ty now p = Inr p'" "a = Returned" using assms by (auto simp: pg_call_def split: sum.splits)
  thus ?thesis using add_event_simulated [OF assms(1)] Add_event by (auto simp: mem_call_def)
next
  case (Startup_sweep boot now)
  then obtain r where "pg_startup_sweep boot now p = (r, p')" "a = Swept r"
    using assms by (auto simp: pg_call_def split: prod.splits)
  thus ?thesis using sweep_simulated [OF assms(1), of boot now r p'] Startup_sweep by (auto simp: mem_call_def)
qed

lemma calls_simulated:
  "same_store m p \<Longrightarrow> run_calls pg_call cs p = (as, p') \<Longrightarrow> list_all (\<lambda>a. \<not> is_raised a) as \<Longrightarrow>
   \<exists>m'. run_calls mem_call cs m = (as, m') \<and> same_store m' p'"
proof (induction cs arbitrary: m p as)
  case (Cons c cs)
  obtain a p1 where c: "pg_call c p = (a, p1)" by (cases "pg_call c p")
  obtain bs p2 where r: "run_calls pg_call cs p1 = (bs, p2)" by (cases "run_calls pg_call cs p1")
  have as: "as = a # bs" "p2 = p'" using Cons.prems(2) c r by auto
  obtain m1 where m1: "mem_call c m = (a, m1)" "same_store m1 p1" using call_simulated [OF Cons.prems(1) c] Cons.prems(3) as by auto
  obtain m' where "run_calls mem_call cs m1 = (bs, m')" "same_store m' p'" using Cons.IH [OF m1(2)] r as Cons.prems(3) by auto
  thus ?case using m1 as by auto
qed auto

section \<open>The interface of the store\<close>

text \<open>Updates of statements that keep the id, the session and the request of what they replace.\<close>

fun updates_with :: "(string \<Rightarrow> 's \<Rightarrow> console_statement option) \<Rightarrow> (console_statement \<Rightarrow> 's \<Rightarrow> (broker_error, 's) result) \<Rightarrow>
    console_statement list \<Rightarrow> 's \<Rightarrow> 's option" where
  "updates_with get_st update_st [] st = Some st"
| "updates_with get_st update_st (x # xs) st =
     (case get_st (stm_id x) st of
        None \<Rightarrow> None
      | Some x0 \<Rightarrow>
          if stm_session_id x = stm_session_id x0 \<and> stm_request_id x = stm_request_id x0
          then (case update_st x st of Inl _ \<Rightarrow> None | Inr st' \<Rightarrow> updates_with get_st update_st xs st') else None)"

text \<open>What the broker relies on when it creates and updates statements, whichever store is behind it.\<close>

locale broker_store =
  fixes okay :: "'s \<Rightarrow> bool"
    and create_st :: "console_session \<Rightarrow> statement_input \<Rightarrow> int \<Rightarrow> 's \<Rightarrow> (broker_error, (console_statement \<times> bool) \<times> 's) result"
    and update_st :: "console_statement \<Rightarrow> 's \<Rightarrow> (broker_error, 's) result"
    and get_st :: "string \<Rightarrow> 's \<Rightarrow> console_statement option"
    and request_of :: "string \<Rightarrow> string \<Rightarrow> 's \<Rightarrow> string option"
  assumes created: "okay st \<Longrightarrow> create_st s inp now st = Inr ((x, False), st') \<Longrightarrow>
      okay st' \<and> get_st (stm_id x) st' = Some x \<and> request_of (ses_id s) (in_request_id inp) st' = Some (stm_id x)"
    and replayed: "okay st \<Longrightarrow> request_of (ses_id s) (in_request_id inp) st = Some i \<Longrightarrow> get_st i st = Some x \<Longrightarrow>
      create_st s inp now st = Inr ((y, d), st') \<Longrightarrow> y = x \<and> d \<and> st' = st"
    and updated: "okay st \<Longrightarrow> get_st (stm_id x) st = Some x0 \<Longrightarrow> stm_session_id x = stm_session_id x0 \<Longrightarrow>
      stm_request_id x = stm_request_id x0 \<Longrightarrow> update_st x st = Inr st' \<Longrightarrow>
      okay st' \<and> (\<forall>i. get_st i st' = (if i = stm_id x then Some x else get_st i st)) \<and> (\<forall>sid q. request_of sid q st' = request_of sid q st)"
begin

lemma updates_keep:
  "okay st \<Longrightarrow> updates_with get_st update_st xs st = Some st' \<Longrightarrow> get_st i st = Some x \<Longrightarrow>
   okay st' \<and> (\<exists>y. get_st i st' = Some y \<and> y = foldl (\<lambda>b z. if stm_id z = i then z else b) x xs) \<and> (\<forall>sid q. request_of sid q st' = request_of sid q st)"
proof (induction xs arbitrary: st x)
  case (Cons z zs)
  obtain x0 st1 where x0: "get_st (stm_id z) st = Some x0" "stm_session_id z = stm_session_id x0" "stm_request_id z = stm_request_id x0"
    and u: "update_st z st = Inr st1" and r: "updates_with get_st update_st zs st1 = Some st'"
    using Cons.prems(2) by (auto split: option.splits if_splits sum.splits)
  note up = updated [OF Cons.prems(1) x0 u]
  have "get_st i st1 = Some (if stm_id z = i then z else x)" using up Cons.prems(3) by auto
  from Cons.IH [OF _ r this] show ?case using up by auto
qed auto

lemma retry_returns_current:
  assumes "okay st" "create_st s inp now st = Inr ((x, False), st1)" "updates_with get_st update_st xs st1 = Some st2"
    and "create_st s inp' now' st2 = Inr ((y, d), st3)" "in_request_id inp' = in_request_id inp"
  shows "d \<and> st3 = st2 \<and> y = foldl (\<lambda>b z. if stm_id z = stm_id x then z else b) x xs"
proof -
  note c = created [OF assms(1,2)]
  obtain z where z: "get_st (stm_id x) st2 = Some z" "z = foldl (\<lambda>b z. if stm_id z = stm_id x then z else b) x xs"
    and ok: "okay st2" and q: "request_of (ses_id s) (in_request_id inp') st2 = Some (stm_id x)"
    using updates_keep [OF _ assms(3), of "stm_id x" x] c assms(5) by auto
  show ?thesis using replayed [OF ok q z(1) assms(4)] z(2) by simp
qed

end

definition row_request :: "string \<Rightarrow> string \<Rightarrow> console_statement list \<Rightarrow> string option" where
  "row_request sid q rows = map_option stm_id (find (\<lambda>x. stm_session_id x = sid \<and> stm_request_id x = q) rows)"

lemma find_append_None: "find P xs = None \<Longrightarrow> find P (xs @ [y]) = (if P y then Some y else None)"
  by (induction xs) (auto split: if_splits)

lemma row_request_update:
  assumes "distinct (map stm_id rows)" "find (\<lambda>r. stm_id r = stm_id x) rows = Some x0" "stm_session_id x = stm_session_id x0"
    "stm_request_id x = stm_request_id x0"
  shows "row_request sid q (update_where (\<lambda>r. stm_id r = stm_id x) (\<lambda>_. x) rows) = row_request sid q rows"
proof -
  have x0: "x0 \<in> set rows" "stm_id x0 = stm_id x" using assms(2) by (auto simp: find_Some_iff)
  have same: "r = x0" if "r \<in> set rows" "stm_id r = stm_id x" for r
    using assms(1) that x0 unfolding distinct_map by (metis inj_onD)
  have "map (\<lambda>r. (stm_session_id r, stm_request_id r, stm_id r)) (update_where (\<lambda>r. stm_id r = stm_id x) (\<lambda>_. x) rows)
      = map (\<lambda>r. (stm_session_id r, stm_request_id r, stm_id r)) rows"
    using same assms(3,4) by (auto simp: update_where_def)
  moreover have "row_request sid q rs = map_option (\<lambda>t. snd (snd t))
      (find (\<lambda>t. fst t = sid \<and> fst (snd t) = q) (map (\<lambda>r. (stm_session_id r, stm_request_id r, stm_id r)) rs))" for rs
    by (induction rs) (auto simp: row_request_def)
  ultimately show ?thesis by simp
qed

lemma find_update_other:
  "i \<noteq> stm_id x \<Longrightarrow> find (\<lambda>r. stm_id r = i) (update_where (\<lambda>r. stm_id r = stm_id x) (\<lambda>_. x) rows) = find (\<lambda>r. stm_id r = i) rows"
  by (induction rows) (auto simp: update_where_def)

lemma find_update_self:
  "find (\<lambda>r. stm_id r = stm_id x) rows = Some x0 \<Longrightarrow>
   find (\<lambda>r. stm_id r = stm_id x) (update_where (\<lambda>r. stm_id r = stm_id x) (\<lambda>_. x) rows) = Some x"
  by (induction rows) (auto simp: update_where_def split: if_splits)

lemma find_update_id:
  "find (\<lambda>r. stm_id r = stm_id x) rows = Some x0 \<Longrightarrow>
   find (\<lambda>r. stm_id r = i) (update_where (\<lambda>r. stm_id r = stm_id x) (\<lambda>_. x) rows) = (if i = stm_id x then Some x else find (\<lambda>r. stm_id r = i) rows)"
  by (simp add: find_update_other find_update_self)

lemma replay_rows:
  assumes "distinct (map stm_id rows)" "row_request sid q rows = Some i" "find (\<lambda>r. stm_id r = i) rows = Some x"
  shows "find (\<lambda>x. stm_session_id x = sid \<and> stm_request_id x = q) rows = Some x"
proof -
  obtain y where y: "find (\<lambda>x. stm_session_id x = sid \<and> stm_request_id x = q) rows = Some y" "stm_id y = i"
    using assms(2) by (auto simp: row_request_def)
  moreover have "y \<in> set rows" using y(1) by (auto simp: find_Some_iff)
  ultimately show ?thesis using find_distinct [OF assms(1)] assms(3) by fastforce
qed

lemma new_statement_ids [simp]:
  "stm_id (new_statement s inp seq now) = in_statement_id inp" "stm_session_id (new_statement s inp seq now) = ses_id s"
  "stm_request_id (new_statement s inp seq now) = in_request_id inp"
  by (simp_all add: new_statement_def)

lemma created_rows:
  assumes "stm_id x \<notin> stm_id ` set rows" "x = new_statement s inp seq now"
    "find (\<lambda>x. stm_session_id x = ses_id s \<and> stm_request_id x = in_request_id inp) rows = None"
  shows "find (\<lambda>r. stm_id r = stm_id x) (rows @ [x]) = Some x"
    "row_request (ses_id s) (in_request_id inp) (rows @ [x]) = Some (stm_id x)"
proof -
  have "find (\<lambda>r. stm_id r = stm_id x) rows = None" using assms(1) unfolding find_None_iff by (metis image_eqI)
  thus "find (\<lambda>r. stm_id r = stm_id x) (rows @ [x]) = Some x" by (simp add: find_append_None)
  show "row_request (ses_id s) (in_request_id inp) (rows @ [x]) = Some (stm_id x)"
    using find_append_None [OF assms(3), of x] assms(2) by (simp add: row_request_def)
qed

interpretation pg: broker_store "\<lambda>st. statement_constraints (p_statements st)" pg_create_statement pg_update_statement pg_get_statement
  "\<lambda>sid q st. row_request sid q (p_statements st)"
proof
  fix st s inp now x st'
  assume ok: "statement_constraints (p_statements st)" and c: "pg_create_statement s inp now st = Inr ((x, False), st')"
  let ?seq = "max_seq (filter (\<lambda>x. stm_session_id x = ses_id s) (p_statements st)) + 1"
  have none: "find (\<lambda>x. stm_session_id x = ses_id s \<and> stm_request_id x = in_request_id inp) (p_statements st) = None"
    and x: "x = new_statement s inp ?seq now" and con: "statement_constraints (p_statements st @ [x])"
    and st': "st' = st\<lparr>p_statements := p_statements st @ [x]\<rparr>"
    using c by (auto simp: pg_create_statement_def Let_def rbind_eq_Inr put_statements_Inr split: if_splits option.splits)
  show "statement_constraints (p_statements st') \<and> pg_get_statement (stm_id x) st' = Some x \<and>
      row_request (ses_id s) (in_request_id inp) (p_statements st') = Some (stm_id x)"
    using con created_rows [OF _ x none] by (simp add: st' pg_get_statement_def statement_constraints_def)
next
  fix st s inp i x now y d st'
  assume "statement_constraints (p_statements st)" "row_request (ses_id s) (in_request_id inp) (p_statements st) = Some i"
    "pg_get_statement i st = Some x" and c: "pg_create_statement s inp now st = Inr ((y, d), st')"
  hence "find (\<lambda>x. stm_session_id x = ses_id s \<and> stm_request_id x = in_request_id inp) (p_statements st) = Some x"
    by (intro replay_rows) (auto simp: statement_constraints_def pg_get_statement_def)
  thus "y = x \<and> d \<and> st' = st" using c by (auto simp: pg_create_statement_def split: if_splits)
next
  fix st x x0 st'
  assume ok: "statement_constraints (p_statements st)" and g: "pg_get_statement (stm_id x) st = Some x0"
    and same: "stm_session_id x = stm_session_id x0" "stm_request_id x = stm_request_id x0" and u: "pg_update_statement x st = Inr st'"
  have d: "distinct (map stm_id (p_statements st))" using ok by (simp add: statement_constraints_def)
  have f: "find (\<lambda>r. stm_id r = stm_id x) (p_statements st) = Some x0" using g by (simp add: pg_get_statement_def)
  have st': "st' = st\<lparr>p_statements := update_where (\<lambda>r. stm_id r = stm_id x) (\<lambda>_. x) (p_statements st)\<rparr>"
    and con: "statement_constraints (p_statements st')"
    using u by (auto simp: pg_update_statement_def put_statements_Inr split: if_splits)
  show "statement_constraints (p_statements st') \<and> (\<forall>i. pg_get_statement i st' = (if i = stm_id x then Some x else pg_get_statement i st)) \<and>
      (\<forall>sid q. row_request sid q (p_statements st') = row_request sid q (p_statements st))"
    using con find_update_id [OF f] row_request_update [OF d f same] by (simp add: st' pg_get_statement_def)
qed

lemma find_update_new:
  "find P rows = None \<Longrightarrow> P y \<Longrightarrow> k \<in> f ` set rows \<Longrightarrow> find P (update_where (\<lambda>r. f r = k) (\<lambda>_. y) rows) = Some y"
  by (induction rows) (auto simp: update_where_def split: if_splits)

lemma keyed_cases:
  assumes "distinct (map stm_id rows)"
  obtains "stm_id x \<notin> stm_id ` set rows" "dict_set (keyed stm_id rows) (stm_id x) x = keyed stm_id (rows @ [x])" "distinct (map stm_id (rows @ [x]))"
  | "stm_id x \<in> stm_id ` set rows"
    "dict_set (keyed stm_id rows) (stm_id x) x = keyed stm_id (update_where (\<lambda>r. stm_id r = stm_id x) (\<lambda>_. x) rows)"
    "distinct (map stm_id (update_where (\<lambda>r. stm_id r = stm_id x) (\<lambda>_. x) rows))"
proof (cases "stm_id x \<in> stm_id ` set rows")
  case True
  have "map stm_id (update_where (\<lambda>r. stm_id r = stm_id x) (\<lambda>_. x) rows) = map stm_id rows" by (simp add: update_where_def)
  thus ?thesis using that(2) True keyed_replace [OF assms refl True] assms by metis
next
  case False
  thus ?thesis using that(1) keyed_append [OF False] assms by simp
qed

definition statements_keyed :: "mem_store \<Rightarrow> bool" where
  "statements_keyed m \<longleftrightarrow> m_statements m = keyed stm_id (dict_values (m_statements m)) \<and> distinct (map stm_id (dict_values (m_statements m)))"

lemma statements_keyedI: "m_statements m = keyed stm_id rows \<Longrightarrow> distinct (map stm_id rows) \<Longrightarrow> statements_keyed m"
  by (simp add: statements_keyed_def)

interpretation mem: broker_store statements_keyed mem_create_statement mem_update_statement mem_get_statement
  "\<lambda>sid q m. row_request sid q (dict_values (m_statements m))"
proof
  fix st s inp now x st'
  assume ok: "statements_keyed st" and c: "mem_create_statement s inp now st = Inr ((x, False), st')"
  let ?rows = "dict_values (m_statements st)"
  let ?dup = "\<lambda>x. stm_session_id x = ses_id s \<and> stm_request_id x = in_request_id inp"
  have rows: "m_statements st = keyed stm_id ?rows" and d: "distinct (map stm_id ?rows)" using ok by (simp_all add: statements_keyed_def)
  have none: "find ?dup ?rows = None"
    and x: "x = new_statement s inp (1 + max_seq (filter (\<lambda>x. stm_session_id x = ses_id s) ?rows)) now"
    and st': "st' = st\<lparr>m_statements := dict_set (m_statements st) (stm_id x) x\<rparr>"
    using c by (auto simp: mem_create_statement_def Let_def split: option.splits)
  show "statements_keyed st' \<and> mem_get_statement (stm_id x) st' = Some x \<and>
      row_request (ses_id s) (in_request_id inp) (dict_values (m_statements st')) = Some (stm_id x)"
  proof (rule keyed_cases [OF d, of x])
    assume n: "stm_id x \<notin> stm_id ` set ?rows" and e: "dict_set (keyed stm_id ?rows) (stm_id x) x = keyed stm_id (?rows @ [x])"
      and d': "distinct (map stm_id (?rows @ [x]))"
    have m: "m_statements st' = keyed stm_id (?rows @ [x])" using e rows st' by simp
    show ?thesis
      using statements_keyedI [OF m d'] created_rows [OF n x none]
      by (simp add: mem_get_statement_def m keyed_lookup del: map_append find.simps)
  next
    let ?new = "update_where (\<lambda>r. stm_id r = stm_id x) (\<lambda>_. x) ?rows"
    assume i: "stm_id x \<in> stm_id ` set ?rows" and e: "dict_set (keyed stm_id ?rows) (stm_id x) x = keyed stm_id ?new"
      and d': "distinct (map stm_id ?new)"
    have m: "m_statements st' = keyed stm_id ?new" using e rows st' by simp
    obtain x0 where x0: "find (\<lambda>r. stm_id r = stm_id x) ?rows = Some x0"
      using i by (cases "find (\<lambda>r. stm_id r = stm_id x) ?rows") (auto simp: find_None_iff)
    have "find ?dup ?new = Some x" by (rule find_update_new [OF none _ i]) (simp add: x)
    thus ?thesis
      using statements_keyedI [OF m d'] find_update_self [OF x0] by (simp add: mem_get_statement_def m keyed_lookup row_request_def)
  qed
next
  fix st s inp i x now y d st'
  assume "statements_keyed st" "row_request (ses_id s) (in_request_id inp) (dict_values (m_statements st)) = Some i"
    "mem_get_statement i st = Some x" and c: "mem_create_statement s inp now st = Inr ((y, d), st')"
  hence "find (\<lambda>x. stm_session_id x = ses_id s \<and> stm_request_id x = in_request_id inp) (dict_values (m_statements st)) = Some x"
    by (intro replay_rows) (auto simp: statements_keyed_def mem_get_statement_def keyed_lookup [symmetric])
  thus "y = x \<and> d \<and> st' = st" using c by (auto simp: mem_create_statement_def)
next
  fix st x x0 st'
  assume ok: "statements_keyed st" and g: "mem_get_statement (stm_id x) st = Some x0"
    and same: "stm_session_id x = stm_session_id x0" "stm_request_id x = stm_request_id x0" and u: "mem_update_statement x st = Inr st'"
  let ?rows = "dict_values (m_statements st)"
  let ?new = "update_where (\<lambda>r. stm_id r = stm_id x) (\<lambda>_. x) ?rows"
  have rows: "m_statements st = keyed stm_id ?rows" and d: "distinct (map stm_id ?rows)" using ok by (simp_all add: statements_keyed_def)
  have f: "find (\<lambda>r. stm_id r = stm_id x) ?rows = Some x0" using g rows by (metis keyed_lookup mem_get_statement_def)
  hence i: "stm_id x \<in> stm_id ` set ?rows" by (auto simp: find_Some_iff) (metis image_eqI nth_mem)
  have "map stm_id ?new = map stm_id ?rows" by (simp add: update_where_def)
  hence d': "distinct (map stm_id ?new)" using d by simp
  have "dict_set (m_statements st) (stm_id x) x = keyed stm_id ?new" using keyed_replace [OF d refl i] rows by simp
  hence m: "m_statements st' = keyed stm_id ?new" using u by (auto simp: mem_update_statement_def split: if_splits)
  have get: "mem_get_statement j st' = (if j = stm_id x then Some x else mem_get_statement j st)" for j
  proof -
    have "mem_get_statement j st = find (\<lambda>r. stm_id r = j) ?rows" using rows by (metis keyed_lookup mem_get_statement_def)
    thus ?thesis using find_update_id [OF f, of j] by (simp add: mem_get_statement_def m keyed_lookup)
  qed
  show "statements_keyed st' \<and> (\<forall>i. mem_get_statement i st' = (if i = stm_id x then Some x else mem_get_statement i st)) \<and>
      (\<forall>sid q. row_request sid q (dict_values (m_statements st')) = row_request sid q (dict_values (m_statements st)))"
    using statements_keyedI [OF m d'] get row_request_update [OF d f same] by (simp add: m)
qed

section \<open>Properties of the stores\<close>

text \<open>
  C20. The store in memory stands for the tables: from empty stores, a sequence of calls that the tables accept gets the same
  answers from the store in memory, call by call, and leaves the same sessions, statements, events and epochs.
\<close>

theorem memory_store_simulates_tables:
  assumes "distinct (map con_id cs)" "list_all (\<lambda>c. con_epoch c = 0) cs"
    and "run_calls pg_call calls (fresh_tables cs) = (as, p)" "list_all (\<lambda>a. \<not> is_raised a) as"
  shows "\<exists>m. run_calls mem_call calls empty_mem_store = (as, m) \<and> same_store m p"
  using calls_simulated [OF fresh_same_store assms(3,4)] assms(1,2) by (simp add: list_all_iff)

definition demo_request :: attach_request where
  "demo_request = \<lparr>rq_console_id = ''c'', rq_datasource_id = ''d'', rq_owner = ''u''\<rparr>"

definition demo_console :: console_row where
  "demo_console = \<lparr>con_id = ''c'', con_datasource_id = ''d'', con_owner = ''u'', con_epoch = 0\<rparr>"

definition demo_input :: statement_input where
  "demo_input = \<lparr>in_statement_id = ''x'', in_request_id = ''q'', in_sql = ''s'', in_sql_hash = ''h'', in_timeout = 9, in_is_write = False\<rparr>"

definition demo_calls :: "store_call list" where
  "demo_calls =
     [Attach_session demo_request ''s'' ''b'' 1 None, Attach_session demo_request ''s'' ''b'' 2 (Some ''s''),
      Create_statement (connecting_session demo_request ''s'' ''b'' 2 1) demo_input 3,
      Create_statement (connecting_session demo_request ''s'' ''b'' 2 1) demo_input 4,
      Add_event ''x'' ''submitted'' 4, Startup_sweep ''other'' 5, Get_session ''s'']"

lemmas store_simps =
  pg_call_def mem_call_def pg_attach_session_def mem_attach_session_def pg_update_session_def mem_update_session_def pg_get_session_def
  mem_get_session_def pg_create_statement_def mem_create_statement_def pg_update_statement_def mem_update_statement_def
  pg_get_statement_def mem_get_statement_def pg_add_event_def mem_add_event_def pg_startup_sweep_def mem_startup_sweep_def
  put_sessions_def put_statements_def session_constraints_def statement_constraints_def update_where_def connecting_session_def
  new_statement_def max_seq_def lost_session_def swept_statement_def stale_def ACTIVE_CONSOLE_SESSION_STATES_def
  IN_FLIGHT_STATEMENT_STATES_def fresh_tables_def empty_mem_store_def

theorem memory_store_simulates_tables_witness:
  "\<exists>m. run_calls mem_call demo_calls empty_mem_store = (fst (run_calls pg_call demo_calls (fresh_tables [demo_console])), m)
     \<and> same_store m (snd (run_calls pg_call demo_calls (fresh_tables [demo_console])))"
  by (rule memory_store_simulates_tables [of "[demo_console]"])
    (simp_all add: demo_calls_def demo_request_def demo_console_def demo_input_def store_simps Let_def)

text \<open>
  A request is created once: after a statement has been created for it and updated any number of times, a retry of the request
  changes nothing and returns the statement as the last update left it.
\<close>

theorem retried_request_returns_current:
  assumes "statement_constraints (p_statements st)" "pg_create_statement s inp now st = Inr ((x, False), st1)"
    and "updates_with pg_get_statement pg_update_statement xs st1 = Some st2"
    and "pg_create_statement s inp' now' st2 = Inr ((y, d), st3)" "in_request_id inp' = in_request_id inp"
  shows "d \<and> st3 = st2 \<and> y = foldl (\<lambda>b z. if stm_id z = stm_id x then z else b) x xs"
  by (rule pg.retry_returns_current [OF assms])

definition demo_session :: console_session where
  "demo_session = connecting_session demo_request ''s'' ''b'' 1 1"

definition demo_statement :: console_statement where
  "demo_statement = new_statement demo_session demo_input 1 3"

definition demo_tables :: pg_store where
  "demo_tables = (fresh_tables [demo_console])\<lparr>p_sessions := [demo_session]\<rparr>"

theorem retried_request_returns_current_witness:
  "\<exists>y d st3. pg_create_statement demo_session (demo_input\<lparr>in_statement_id := ''y''\<rparr>) 5
       (demo_tables\<lparr>p_statements := [demo_statement\<lparr>stm_state := St_executing\<rparr>]\<rparr>) = Inr ((y, d), st3) \<and> d \<and> stm_state y = St_executing"
proof -
  have c: "pg_create_statement demo_session demo_input 3 demo_tables = Inr ((demo_statement, False), demo_tables\<lparr>p_statements := [demo_statement]\<rparr>)"
    by (simp add: demo_tables_def demo_session_def demo_statement_def demo_request_def demo_input_def demo_console_def store_simps Let_def)
  have u: "updates_with pg_get_statement pg_update_statement [demo_statement\<lparr>stm_state := St_executing\<rparr>] (demo_tables\<lparr>p_statements := [demo_statement]\<rparr>)
      = Some (demo_tables\<lparr>p_statements := [demo_statement\<lparr>stm_state := St_executing\<rparr>]\<rparr>)"
    by (simp add: demo_tables_def demo_session_def demo_statement_def demo_request_def demo_input_def demo_console_def store_simps Let_def)
  obtain y d st3 where r: "pg_create_statement demo_session (demo_input\<lparr>in_statement_id := ''y''\<rparr>) 5
       (demo_tables\<lparr>p_statements := [demo_statement\<lparr>stm_state := St_executing\<rparr>]\<rparr>) = Inr ((y, d), st3)"
    by (simp add: demo_tables_def demo_session_def demo_statement_def demo_request_def demo_input_def demo_console_def store_simps Let_def)
  have ok: "statement_constraints (p_statements demo_tables)" by (simp add: demo_tables_def fresh_tables_def statement_constraints_def)
  have "d \<and> y = demo_statement\<lparr>stm_state := St_executing\<rparr>"
    using retried_request_returns_current [OF ok c u r] by simp
  thus ?thesis using r by auto
qed

definition lost_by_sweep :: "string \<Rightarrow> console_session list \<Rightarrow> string \<Rightarrow> bool" where
  "lost_by_sweep boot rows sid \<longleftrightarrow> list_ex (\<lambda>s. ses_id s = sid \<and> ses_boot_id s \<noteq> boot \<and> active_session s) rows"

lemma sweep_rows:
  assumes "session_constraints (p_sessions p)" "pg_startup_sweep boot now p = (r, p')"
  shows "p_sessions p' = update_where (\<lambda>s. ses_boot_id s \<noteq> boot \<and> active_session s) (lost_session now) (p_sessions p)"
    "p_statements p' = update_where (\<lambda>x. lost_by_sweep boot (p_sessions p) (stm_session_id x) \<and> stm_state x \<in> IN_FLIGHT_STATEMENT_STATES)
       (swept_statement now) (p_statements p)"
    "read_failed r + write_outcome_unknown r
       = length (filter (\<lambda>x. lost_by_sweep boot (p_sessions p) (stm_session_id x) \<and> stm_state x \<in> IN_FLIGHT_STATEMENT_STATES) (p_statements p))"
proof -
  let ?st = "\<lambda>s. ses_boot_id s \<noteq> boot \<and> active_session s"
  let ?ids = "map ses_id (filter ?st (p_sessions p))"
  let ?hit = "\<lambda>x. lost_by_sweep boot (p_sessions p) (stm_session_id x) \<and> stm_state x \<in> IN_FLIGHT_STATEMENT_STATES"
  have lost: "sid \<in> set ?ids \<longleftrightarrow> lost_by_sweep boot (p_sessions p) sid" for sid
    by (auto simp: lost_by_sweep_def list_ex_iff)
  have ids: "(ses_id s \<in> set ?ids) = ?st s" if "s \<in> set (p_sessions p)" for s
    using stale_ids_iff [of "p_sessions p" s ?st] assms(1) that by (simp add: session_constraints_def)
  have rows: "update_where (\<lambda>s. ses_id s \<in> set ?ids) (lost_session now) (p_sessions p) = update_where ?st (lost_session now) (p_sessions p)"
    unfolding update_where_def by (rule map_cong [OF refl]) (simp only: ids)
  have le: "length (filter (\<lambda>x. \<not> stm_is_write x) xs) \<le> length xs" for xs by simp
  have "p_sessions p' = update_where ?st (lost_session now) (p_sessions p) \<and> p_statements p' = update_where ?hit (swept_statement now) (p_statements p)
      \<and> read_failed r + write_outcome_unknown r = length (filter ?hit (p_statements p))"
  proof (cases "?ids = []")
    case True
    hence none: "\<not> ?st s" if "s \<in> set (p_sessions p)" for s using that by (simp add: filter_empty_conv)
    hence "\<not> lost_by_sweep boot (p_sessions p) i" for i by (auto simp: lost_by_sweep_def list_ex_iff)
    moreover have "p' = p" "r = \<lparr>sessions_lost = 0, read_failed = 0, write_outcome_unknown = 0\<rparr>"
      using assms(2) True by (auto simp: pg_startup_sweep_def)
    ultimately show ?thesis using none update_where_none [of "p_sessions p" ?st] by (simp add: update_where_none)
  next
    case False
    show ?thesis using assms(2) le [of "filter ?hit (p_statements p)"]
      unfolding pg_startup_sweep_def Let_def if_not_P [OF False] lost prod.inject using rows [unfolded lost] by auto
  qed
  thus "p_sessions p' = update_where ?st (lost_session now) (p_sessions p)" "p_statements p' = update_where ?hit (swept_statement now) (p_statements p)"
    "read_failed r + write_outcome_unknown r = length (filter ?hit (p_statements p))"
    by blast+
qed

text \<open>
  C21. A restarted broker inherits no live session: after the sweep every session in an active state belongs to the current boot, no
  statement of a lost session is in flight, each statement whose outcome was not observed has been failed when it reads and marked as
  of unknown outcome when it writes, every other statement is unchanged, and the report counts them all.
\<close>

theorem startup_sweep_settles:
  assumes "session_constraints (p_sessions p)" "pg_startup_sweep boot now p = (r, p')"
  shows "list_all (\<lambda>s. active_session s \<longrightarrow> ses_boot_id s = boot) (p_sessions p')
    \<and> list_all2 (\<lambda>x x'. if lost_by_sweep boot (p_sessions p) (stm_session_id x) \<and> stm_state x \<in> {St_executing, St_streaming}
         then (stm_state x, stm_state x') \<in> STATEMENT_TRANSITIONS \<and> stm_state x' = (if stm_is_write x then St_outcome_unknown else St_failed)
              \<and> stm_finished_at x' = Some now
         else x' = x) (p_statements p) (p_statements p')
    \<and> read_failed r + write_outcome_unknown r
        = length (filter (\<lambda>x. lost_by_sweep boot (p_sessions p) (stm_session_id x) \<and> stm_state x \<in> {St_executing, St_streaming}) (p_statements p))"
proof -
  note rows = sweep_rows [OF assms]
  have "list_all (\<lambda>s. active_session s \<longrightarrow> ses_boot_id s = boot) (p_sessions p')"
    unfolding rows(1) by (auto simp: list_all_iff update_where_def lost_session_def ACTIVE_CONSOLE_SESSION_STATES_def)
  moreover have "list_all2 (\<lambda>x x'. if lost_by_sweep boot (p_sessions p) (stm_session_id x) \<and> stm_state x \<in> {St_executing, St_streaming}
         then (stm_state x, stm_state x') \<in> STATEMENT_TRANSITIONS \<and> stm_state x' = (if stm_is_write x then St_outcome_unknown else St_failed)
              \<and> stm_finished_at x' = Some now
         else x' = x) (p_statements p) (p_statements p')"
    unfolding rows(2) update_where_def IN_FLIGHT_STATEMENT_STATES_def list_all2_map2
    by (rule list_all2_same [THEN iffD2]) (auto simp: swept_statement_def STATEMENT_TRANSITIONS_def)
  ultimately show ?thesis using rows(3) by (simp add: IN_FLIGHT_STATEMENT_STATES_def)
qed

theorem startup_sweep_settles_witness:
  "\<exists>r p'. pg_startup_sweep ''new'' 9 (demo_tables\<lparr>p_statements := [demo_statement\<lparr>stm_state := St_streaming\<rparr>]\<rparr>) = (r, p')
     \<and> read_failed r + write_outcome_unknown r = 1"
proof -
  let ?p = "demo_tables\<lparr>p_statements := [demo_statement\<lparr>stm_state := St_streaming\<rparr>]\<rparr>"
  obtain r p' where r: "pg_startup_sweep ''new'' 9 ?p = (r, p')" by (cases "pg_startup_sweep ''new'' 9 ?p")
  have "session_constraints (p_sessions ?p)" by (simp add: demo_tables_def fresh_tables_def session_constraints_def)
  from startup_sweep_settles [OF this r]
  have "read_failed r + write_outcome_unknown r
      = length (filter (\<lambda>x. lost_by_sweep ''new'' (p_sessions ?p) (stm_session_id x) \<and> stm_state x \<in> {St_executing, St_streaming}) (p_statements ?p))"
    by blast
  also have "\<dots> = 1"
    by (simp add: demo_tables_def demo_session_def demo_statement_def demo_request_def demo_input_def lost_by_sweep_def store_simps)
  finally show ?thesis using r by blast
qed

text \<open>
  A statement that was accepted and still queued when the broker stopped is not settled by the sweep: its session is lost, and it
  stays accepted, with no lane left to take it.
\<close>

theorem sweep_strands_accepted:
  assumes "session_constraints (p_sessions p)" "pg_startup_sweep boot now p = (r, p')"
    and "x \<in> set (p_statements p)" "stm_state x = St_accepted" "lost_by_sweep boot (p_sessions p) (stm_session_id x)"
  shows "x \<in> set (p_statements p') \<and> list_ex (\<lambda>s. ses_id s = stm_session_id x \<and> ses_state s = SESSION_LOST) (p_sessions p')"
proof -
  note rows = sweep_rows [OF assms(1,2)]
  have "x \<in> set (p_statements p')"
    unfolding rows(2) update_where_def set_map using assms(3,4)
    by (intro image_eqI [where x = x]) (simp_all add: IN_FLIGHT_STATEMENT_STATES_def)
  moreover obtain s where s: "s \<in> set (p_sessions p)" "ses_id s = stm_session_id x" "ses_boot_id s \<noteq> boot \<and> active_session s"
    using assms(5) by (auto simp: lost_by_sweep_def list_ex_iff)
  moreover have "lost_session now s \<in> set (p_sessions p')"
    unfolding rows(1) update_where_def set_map by (rule image_eqI [where x = s]) (use s in simp_all)
  moreover have "ses_id (lost_session now s) = ses_id s" "ses_state (lost_session now s) = SESSION_LOST" by (simp_all add: lost_session_def)
  ultimately show ?thesis unfolding list_ex_iff by metis
qed

theorem sweep_strands_accepted_witness:
  "demo_statement \<in> set (p_statements (snd (pg_startup_sweep ''new'' 9 (demo_tables\<lparr>p_statements := [demo_statement]\<rparr>))))"
  using sweep_strands_accepted [of "demo_tables\<lparr>p_statements := [demo_statement]\<rparr>" "''new''" 9 _ _ demo_statement, OF _ prod.collapse [symmetric]]
  by (simp add: demo_tables_def demo_session_def demo_statement_def demo_request_def demo_input_def lost_by_sweep_def store_simps)

text \<open>
  The two stores part when a session is reused that is no longer active: the store in memory hands it out under a new epoch, and
  the tables refuse it.
\<close>

theorem memory_reattaches_dead_session:
  assumes "same_store m p" "s \<in> set (p_sessions p)" "\<not> active_session s"
    and "c \<in> set (p_consoles p)" "con_id c = rq_console_id rq" "con_datasource_id c = rq_datasource_id rq" "con_owner c = rq_owner rq"
  shows "fst (mem_attach_session rq sid boot now (Some (ses_id s)) m) = Inr (s\<lparr>ses_epoch := con_epoch c + 1, ses_last_activity_at := now\<rparr>)
    \<and> pg_attach_session rq sid boot now (Some (ses_id s)) p = Inl (Store_error ''live session is missing from persistence'')"
proof -
  let ?own = "\<lambda>c. con_id c = rq_console_id rq \<and> con_datasource_id c = rq_datasource_id rq \<and> con_owner c = rq_owner rq"
  have ds: "distinct (map ses_id (p_sessions p))" and dc: "distinct (map con_id (p_consoles p))"
    using assms(1) by (auto simp: same_store_def session_constraints_def)
  have e: "(case dict_get (m_epochs m) (rq_console_id rq) of Some e \<Rightarrow> e | None \<Rightarrow> 0) = con_epoch c"
    using assms(1,4,5) by (auto simp: same_store_def)
  have "dict_get (m_sessions m) (ses_id s) = Some s"
    using assms(1) find_distinct [OF ds assms(2)] by (simp add: same_store_def keyed_lookup)
  hence mem: "fst (mem_attach_session rq sid boot now (Some (ses_id s)) m) = Inr (s\<lparr>ses_epoch := con_epoch c + 1, ses_last_activity_at := now\<rparr>)"
    by (simp add: mem_attach_session_def Let_def e)
  have "find (\<lambda>r. ses_id r = ses_id s \<and> active_session r) (p_sessions p) = None"
    using ds assms(2,3) unfolding find_None_iff distinct_map by (metis inj_onD)
  moreover have "find ?own (p_consoles p) \<noteq> None" using assms(4-7) by (auto simp: find_None_iff)
  ultimately show ?thesis using mem by (auto simp: pg_attach_session_def Let_def split: option.splits)
qed

theorem memory_reattaches_dead_session_witness:
  "pg_attach_session demo_request ''n'' ''b'' 9 (Some ''s'') (demo_tables\<lparr>p_sessions := [lost_session 8 demo_session]\<rparr>)
     = Inl (Store_error ''live session is missing from persistence'')"
proof -
  let ?p = "demo_tables\<lparr>p_sessions := [lost_session 8 demo_session]\<rparr>"
  let ?m = "empty_mem_store\<lparr>m_sessions := [(''s'', lost_session 8 demo_session)]\<rparr>"
  have "same_store ?m ?p"
    by (simp add: same_store_def keyed_def demo_tables_def demo_console_def demo_session_def demo_request_def store_simps)
  from memory_reattaches_dead_session [OF this, of "lost_session 8 demo_session" demo_console demo_request "''n''" "''b''" 9] show ?thesis
    by (simp add: demo_tables_def demo_console_def demo_session_def demo_request_def lost_session_def connecting_session_def
        ACTIVE_CONSOLE_SESSION_STATES_def fresh_tables_def)
qed

text \<open>
  A session row without a session behind it blocks its console: once an attach has written a new session row, every further attach that
  would write another for the same console fails on the index of active sessions, as long as the first row stays active. (The broker
  writes the row before it builds the connection and leaves it behind when that raises.)
\<close>

theorem orphaned_row_blocks_console:
  assumes "pg_attach_session rq sid boot now None p = Inr (s, p1)"
  shows "pg_attach_session rq sid' boot' now' None p1 = Inl (Store_error ''duplicate key'')"
proof -
  let ?own = "\<lambda>c. con_id c = rq_console_id rq \<and> con_datasource_id c = rq_datasource_id rq \<and> con_owner c = rq_owner rq"
  obtain c where c: "find ?own (p_consoles p) = Some c" and s: "s = connecting_session rq sid boot (con_epoch c + 1) now"
    and p1: "p_consoles p1 = update_where ?own (\<lambda>c. c\<lparr>con_epoch := con_epoch c + 1\<rparr>) (p_consoles p)" "p_sessions p1 = p_sessions p @ [s]"
    using assms by (auto simp: pg_attach_session_def Let_def put_sessions_def rbind_eq_Inr split: option.splits if_splits)
  have "c \<in> set (p_consoles p)" "?own c" using c by (auto simp: find_Some_iff)
  hence "c\<lparr>con_epoch := con_epoch c + 1\<rparr> \<in> set (p_consoles p1)" unfolding p1(1) update_where_def set_map by (intro image_eqI [where x = c]) simp_all
  moreover have "?own (c\<lparr>con_epoch := con_epoch c + 1\<rparr>)" using \<open>?own c\<close> by simp
  ultimately have "find ?own (p_consoles p1) \<noteq> None" unfolding find_None_iff by blast
  then obtain c' where c': "find ?own (p_consoles p1) = Some c'" by blast
  have "\<not> session_constraints (p_sessions p1 @ [connecting_session rq sid' boot' (con_epoch c' + 1) now'])"
    by (simp add: session_constraints_def p1(2) s connecting_session_def ACTIVE_CONSOLE_SESSION_STATES_def)
  thus ?thesis using c' by (simp add: pg_attach_session_def Let_def put_sessions_def)
qed

theorem orphaned_row_blocks_console_witness:
  "\<exists>s p1. pg_attach_session demo_request ''s'' ''b'' 1 None (fresh_tables [demo_console]) = Inr (s, p1)
     \<and> pg_attach_session demo_request ''n'' ''b'' 9 None p1 = Inl (Store_error ''duplicate key'')"
proof -
  have "case pg_attach_session demo_request ''s'' ''b'' 1 None (fresh_tables [demo_console]) of Inl _ \<Rightarrow> False | Inr _ \<Rightarrow> True" by code_simp
  then obtain s p1 where a: "pg_attach_session demo_request ''s'' ''b'' 1 None (fresh_tables [demo_console]) = Inr (s, p1)" by (auto split: sum.splits)
  from orphaned_row_blocks_console [OF this] a show ?thesis by blast
qed

end
