(* ===== verification/Broker_Core.thy ===== *)
theory Broker_Core
  imports Broker_Store
begin

text \<open>
  \<open>app/broker/core.py\<close>: the owner of the interactive sessions. Every access to shared state happens under one lock, so the model
  has one definition per critical section: the calls of the API, the sections of a session's lane thread between two blocking calls,
  the callbacks of a datasource's control lane, the timer round and the shutdown. The lane of a session carries a program counter that
  says which section its thread runs next; a lane that waits for a condition has no step until the condition holds. Times and
  durations are integers of one unit; one reading of the clock serves a section. The store is the one in memory, which \<open>Broker_Store_Refine\<close> relates to the tables.
\<close>

section \<open>Configuration\<close>

record session_limits =
  per_user :: int
  per_datasource :: int
  global_total :: int

record broker_config =
  cfg_limits :: session_limits
  cfg_mailbox_size :: int
  cfg_idle_timeout_seconds :: int
  cfg_cancel_grace_seconds :: int
  cfg_timer_poll_seconds :: int
  cfg_spool_batch_size :: int

definition check_limits :: "session_limits \<Rightarrow> (broker_error, unit) result" where
  "check_limits l = (if min (per_user l) (min (per_datasource l) (global_total l)) \<le> 0
     then Inl (Bad_argument ''session limits must be positive'') else Inr ())"

definition check_config :: "broker_config \<Rightarrow> (broker_error, unit) result" where
  "check_config c =
     (if cfg_mailbox_size c \<le> 0 then Inl (Bad_argument ''mailbox_size must be positive'')
      else if cfg_spool_batch_size c \<le> 0 then Inl (Bad_argument ''spool_batch_size must be positive'')
      else if cfg_idle_timeout_seconds c \<le> 0 then Inl (Bad_argument ''idle_timeout_seconds must be positive'')
      else if cfg_cancel_grace_seconds c < 0 then Inl (Bad_argument ''cancel_grace_seconds must not be negative'')
      else if cfg_timer_poll_seconds c \<le> 0 then Inl (Bad_argument ''timer_poll_seconds must be positive'')
      else Inr ())"

section \<open>State\<close>

datatype lane_command = Execute_cmd string | Close_cmd string

datatype control_command = Cancel_cmd string | Destroy_cmd string | Stop_cmd

record statement_spool =
  sp_result_set_id :: string
  sp_page_size :: int
  sp_max_result_rows :: int

text \<open>The next section of the lane thread.\<close>

datatype lane =
    Not_started
  | Opening
  | Waiting
  | Taken string
  | Starting string
  | Running string
  | Streaming string
  | Settling string statement_state "string option" "string option" bool
  | Drained_check
  | Close_waiting string
  | Closing_connection string
  | Ended

record runtime =
  rt_session :: console_session
  rt_mailbox :: "lane_command list"
  rt_statements :: "(string, console_statement) dict"
  rt_requests :: "(string, string) dict"
  rt_spools :: "(string, statement_spool) dict"
  rt_accepting :: bool
  rt_pending_count :: int
  rt_current :: "string option"
  rt_statement_deadline :: "int option"
  rt_idle_deadline :: "int option"
  rt_cancel_in_flight :: bool
  rt_cancel_statement_id :: "string option"
  rt_cancel_reason :: "string option"
  rt_cancel_control_done :: bool
  rt_cancel_statement_done :: bool
  rt_cancel_confirmed :: bool
  rt_cancel_grace_deadline :: "int option"
  rt_cancel_destroy_sent :: bool
  rt_close_reason_pending :: "string option"
  rt_soft_cancel :: bool
  rt_lane :: lane

record control_lane =
  ctl_queue :: "control_command list"
  ctl_busy :: "control_command option"
  ctl_stopped :: bool

record broker =
  b_store :: mem_store
  b_boot_id :: string
  b_sessions :: "(string, runtime) dict"
  b_console_sessions :: "(string, string) dict"
  b_statement_sessions :: "(string, string) dict"
  b_controls :: "(string, control_lane) dict"
  b_started :: bool
  b_shutdown :: bool
  b_sweep_report :: sweep_report

text \<open>What a section works on: the runtime of one session, the store and the control lanes.\<close>

record section_state =
  s_rt :: runtime
  s_store :: mem_store
  s_controls :: "(string, control_lane) dict"

type_synonym section_result = "(broker_error, section_state) result"

section \<open>Shared helpers\<close>

text \<open>Assign the session or a statement of the runtime and write it to the store.\<close>

definition put_session :: "console_session \<Rightarrow> section_state \<Rightarrow> section_result" where
  "put_session s sec =
     rbind (mem_update_session s (s_store sec)) (\<lambda>st. Inr (sec\<lparr>s_rt := (s_rt sec)\<lparr>rt_session := s\<rparr>, s_store := st\<rparr>))"

definition put_statement :: "console_statement \<Rightarrow> section_state \<Rightarrow> section_result" where
  "put_statement x sec =
     rbind (mem_update_statement x (s_store sec))
       (\<lambda>st. Inr (sec\<lparr>s_rt := (s_rt sec)\<lparr>rt_statements := dict_set (rt_statements (s_rt sec)) (stm_id x) x\<rparr>, s_store := st\<rparr>))"

definition get_statement :: "string \<Rightarrow> section_state \<Rightarrow> (broker_error, console_statement) result" where
  "get_statement i sec = (case dict_get (rt_statements (s_rt sec)) i of None \<Rightarrow> Inl (Missing_key i) | Some x \<Rightarrow> Inr x)"

definition record_event :: "string \<Rightarrow> string \<Rightarrow> int \<Rightarrow> section_state \<Rightarrow> section_state" where
  "record_event i ty now sec = sec\<lparr>s_store := mem_add_event i ty now (s_store sec)\<rparr>"

definition move_session :: "session_state \<Rightarrow> (console_session \<Rightarrow> console_session) \<Rightarrow> section_state \<Rightarrow> section_result" where
  "move_session target f sec =
     (let s = rt_session (s_rt sec) in
      rbind (transition_session (ses_state s) target) (\<lambda>t. put_session (f (s\<lparr>ses_state := t\<rparr>)) sec))"

definition idle_deadline :: "broker_config \<Rightarrow> int \<Rightarrow> int" where
  "idle_deadline cfg at_time = at_time + cfg_idle_timeout_seconds cfg"

definition set_statement_state ::
    "console_statement \<Rightarrow> statement_state \<Rightarrow> int \<Rightarrow> bool option \<Rightarrow> string option \<Rightarrow> string option \<Rightarrow> section_state \<Rightarrow> section_result" where
  "set_statement_state x target now cancel_requested code summary sec =
     rbind (transition_statement (stm_state x) target)
       (\<lambda>t. put_statement (x\<lparr>stm_state := t,
            stm_cancel_requested := (case cancel_requested of None \<Rightarrow> stm_cancel_requested x | Some c \<Rightarrow> c),
            stm_error_code := code, stm_error_summary := summary,
            stm_finished_at := (if target \<in> TERMINAL_STATEMENT_STATES then Some now else stm_finished_at x)\<rparr>) sec)"

definition lose_session :: "string \<Rightarrow> int \<Rightarrow> section_state \<Rightarrow> section_result" where
  "lose_session reason now sec =
     (if ses_state (rt_session (s_rt sec)) = SESSION_LOST then Inr sec
      else
        rbind (move_session SESSION_LOST
            (\<lambda>s. s\<lparr>ses_closed_at := Some now, ses_close_reason := Some reason, ses_error_code := Some reason, ses_last_activity_at := now\<rparr>)
            (sec\<lparr>s_rt := (s_rt sec)\<lparr>rt_accepting := False, rt_cancel_in_flight := False\<rparr>\<rparr>))
          (\<lambda>sec. Inr (sec\<lparr>s_rt := (s_rt sec)\<lparr>rt_idle_deadline := None\<rparr>\<rparr>)))"

section \<open>Cancellation\<close>

definition control_submit :: "control_command \<Rightarrow> control_lane \<Rightarrow> control_lane" where
  "control_submit c k = k\<lparr>ctl_queue := ctl_queue k @ [c]\<rparr>"

definition send_control :: "string \<Rightarrow> control_command \<Rightarrow> control_lane \<Rightarrow> section_state \<Rightarrow> section_state" where
  "send_control ds c k sec = sec\<lparr>s_controls := dict_set (s_controls sec) ds (control_submit c k)\<rparr>"

definition begin_cancel :: "broker_config \<Rightarrow> console_statement \<Rightarrow> string \<Rightarrow> int \<Rightarrow> section_state \<Rightarrow> section_result" where
  "begin_cancel cfg x reason now sec =
     (if rt_cancel_in_flight (s_rt sec) then Inr sec
      else
        rbind (put_statement (x\<lparr>stm_cancel_requested := True\<rparr>)
            (sec\<lparr>s_rt := (s_rt sec)\<lparr>rt_cancel_in_flight := True, rt_cancel_statement_id := Some (stm_id x), rt_cancel_reason := Some reason,
               rt_cancel_control_done := False, rt_cancel_statement_done := False, rt_cancel_confirmed := False,
               rt_cancel_destroy_sent := False, rt_cancel_grace_deadline := Some (now + cfg_cancel_grace_seconds cfg),
               rt_soft_cancel := True\<rparr>\<rparr>)) (\<lambda>sec.
        rbind (if ses_state (rt_session (s_rt sec)) = EXECUTING
               then move_session CANCELLING (\<lambda>s. s\<lparr>ses_last_activity_at := now\<rparr>) sec else Inr sec) (\<lambda>sec.
        let sec = record_event (stm_id x) ''cancel_requested'' now sec;
            ds = ses_datasource_id (rt_session (s_rt sec))
        in case dict_get (s_controls sec) ds of
             None \<Rightarrow> Inl (Runtime_failure ''control lane is missing for an active session'')
           | Some k \<Rightarrow> Inr (send_control ds (Cancel_cmd (ses_id (rt_session (s_rt sec)))) k sec))))"

definition settle_cancel_fence :: "broker_config \<Rightarrow> string \<Rightarrow> int \<Rightarrow> section_state \<Rightarrow> section_result" where
  "settle_cancel_fence cfg i now sec =
     (if \<not> rt_cancel_in_flight (s_rt sec) \<or> rt_cancel_statement_id (s_rt sec) \<noteq> Some i then Inr sec
      else rbind (get_statement i sec) (\<lambda>x.
        let fin = stm_state x \<in> TERMINAL_STATEMENT_STATES;
            sec = sec\<lparr>s_rt := (s_rt sec)\<lparr>rt_cancel_statement_done := fin\<rparr>\<rparr>
        in if \<not> rt_cancel_confirmed (s_rt sec) \<and> \<not> (rt_cancel_control_done (s_rt sec) \<and> fin) then Inr sec
           else
             let sec = sec\<lparr>s_rt := (s_rt sec)\<lparr>rt_cancel_in_flight := False, rt_cancel_statement_id := None, rt_cancel_reason := None,
                   rt_cancel_grace_deadline := None, rt_cancel_destroy_sent := False, rt_soft_cancel := False\<rparr>\<rparr>
             in if ses_state (rt_session (s_rt sec)) = CANCELLING
                then move_session IDLE (\<lambda>s. s\<lparr>ses_last_activity_at := now\<rparr>)
                       (sec\<lparr>s_rt := (s_rt sec)\<lparr>rt_idle_deadline := Some (idle_deadline cfg now)\<rparr>\<rparr>)
                else Inr sec))"

text \<open>The callbacks of the control lane; the flag says that the control operation failed.\<close>

definition on_control_cancel_done :: "broker_config \<Rightarrow> bool \<Rightarrow> int \<Rightarrow> section_state \<Rightarrow> section_result" where
  "on_control_cancel_done cfg failed now sec =
     (case rt_cancel_statement_id (s_rt sec) of
        None \<Rightarrow> Inr sec
      | Some i \<Rightarrow> rbind (get_statement i sec) (\<lambda>x.
          settle_cancel_fence cfg i now
            (record_event (stm_id x) (if failed then ''cancel_failed'' else ''cancel_dispatched'') now
              (sec\<lparr>s_rt := (s_rt sec)\<lparr>rt_cancel_control_done := True\<rparr>\<rparr>))))"

definition on_control_destroy_done :: "bool \<Rightarrow> int \<Rightarrow> section_state \<Rightarrow> section_result" where
  "on_control_destroy_done failed now sec =
     (case rt_cancel_statement_id (s_rt sec) of
        None \<Rightarrow> Inr sec
      | Some i \<Rightarrow> rbind (get_statement i sec) (\<lambda>x.
          let sec = record_event (stm_id x) (if failed then ''destroy_failed'' else ''cancel_escalated'') now sec in
          rbind (if stm_state x \<notin> TERMINAL_STATEMENT_STATES
                 then set_statement_state x (if stm_is_write x then St_outcome_unknown else St_failed) now None
                        (Some ''connection_aborted'') (Some ''cancel escalation destroyed the session'') sec
                 else Inr sec) (\<lambda>sec.
          rbind (lose_session ''cancel_escalated'' now sec) (\<lambda>sec.
          Inr (sec\<lparr>s_rt := (s_rt sec)\<lparr>rt_current := None, rt_statement_deadline := None\<rparr>\<rparr>)))))"

section \<open>Closing\<close>

definition cancel_queued :: "string \<Rightarrow> int \<Rightarrow> section_state \<Rightarrow> section_result" where
  "cancel_queued event_type now sec =
     fold_r (\<lambda>sec x. rbind (set_statement_state x St_cancelled now (Some True) None None sec)
                       (\<lambda>sec. Inr (record_event (stm_id x) event_type now sec)))
       sec (filter (\<lambda>x. stm_state x = St_accepted) (dict_values (rt_statements (s_rt sec))))"

definition mailbox_full :: "broker_config \<Rightarrow> runtime \<Rightarrow> bool" where
  "mailbox_full cfg rt \<longleftrightarrow> int (length (rt_mailbox rt)) \<ge> cfg_mailbox_size cfg"

definition queue_close :: "broker_config \<Rightarrow> string \<Rightarrow> bool \<Rightarrow> int \<Rightarrow> section_state \<Rightarrow> section_result" where
  "queue_close cfg reason cancel_current now sec =
     (if \<not> rt_accepting (s_rt sec) then Inr sec
      else
        let sec = sec\<lparr>s_rt := (s_rt sec)\<lparr>rt_accepting := False\<rparr>\<rparr> in
        rbind (case (cancel_current, rt_current (s_rt sec)) of
                 (True, Some i) \<Rightarrow> rbind (get_statement i sec) (\<lambda>x.
                    if stm_state x = St_executing \<or> stm_state x = St_streaming then begin_cancel cfg x ''close'' now sec else Inr sec)
               | _ \<Rightarrow> Inr sec) (\<lambda>sec.
        rbind (if reason = ''shutdown'' then cancel_queued ''cancelled_for_shutdown'' now sec else Inr sec) (\<lambda>sec.
        Inr (if mailbox_full cfg (s_rt sec) then sec\<lparr>s_rt := (s_rt sec)\<lparr>rt_close_reason_pending := Some reason\<rparr>\<rparr>
             else sec\<lparr>s_rt := (s_rt sec)\<lparr>rt_mailbox := rt_mailbox (s_rt sec) @ [Close_cmd reason]\<rparr>\<rparr>))))"

end
