(* ===== verification/Broker_Lane.thy ===== *)
theory Broker_Lane
  imports Broker_Core
begin

text \<open>
  The thread of a session in \<open>app/broker/core.py\<close>: opening the connection, taking commands, executing a statement in its three
  critical sections, closing; and the loop that drains the rows of a statement into its result set. What the driver does between two
  sections is an argument of the section that follows.
\<close>

section \<open>Opening and taking commands\<close>

abbreviation set_lane :: "lane \<Rightarrow> section_state \<Rightarrow> section_state" where
  "set_lane l sec \<equiv> sec\<lparr>s_rt := (s_rt sec)\<lparr>rt_lane := l\<rparr>\<rparr>"

definition lane_open_failed :: "string \<Rightarrow> int \<Rightarrow> section_state \<Rightarrow> section_result" where
  "lane_open_failed code now sec =
     rbind (move_session CONNECT_FAILED
         (\<lambda>s. s\<lparr>ses_error_code := Some code, ses_closed_at := Some now, ses_close_reason := Some ''connect_failed'', ses_last_activity_at := now\<rparr>)
         (sec\<lparr>s_rt := (s_rt sec)\<lparr>rt_accepting := False\<rparr>\<rparr>))
       (\<lambda>sec. Inr (set_lane Ended sec))"

definition lane_opened :: "broker_config \<Rightarrow> string \<Rightarrow> int \<Rightarrow> section_state \<Rightarrow> section_result" where
  "lane_opened cfg marker now sec =
     rbind (move_session IDLE (\<lambda>s. s\<lparr>ses_marker := Some marker, ses_last_activity_at := now\<rparr>)
         (sec\<lparr>s_rt := (s_rt sec)\<lparr>rt_idle_deadline := Some (idle_deadline cfg now)\<rparr>\<rparr>))
       (\<lambda>sec. Inr (set_lane Waiting sec))"

definition lane_take :: "section_state \<Rightarrow> section_state" where
  "lane_take sec =
     (case rt_mailbox (s_rt sec) of
        [] \<Rightarrow> sec
      | c # cs \<Rightarrow>
          sec\<lparr>s_rt := (s_rt sec)\<lparr>rt_mailbox := cs, rt_lane :=
            (case c of Execute_cmd i \<Rightarrow> Taken i | Close_cmd reason \<Rightarrow> Close_waiting (if reason = [] then ''user'' else reason))\<rparr>\<rparr>)"

definition lane_taken :: "string \<Rightarrow> section_state \<Rightarrow> section_state" where
  "lane_taken i sec = sec\<lparr>s_rt := (s_rt sec)\<lparr>rt_pending_count := rt_pending_count (s_rt sec) - 1, rt_lane := Starting i\<rparr>\<rparr>"

section \<open>Executing a statement\<close>

text \<open>The condition on which a lane waits before it executes or closes.\<close>

definition fence_up :: "runtime \<Rightarrow> bool" where
  "fence_up rt \<longleftrightarrow> rt_cancel_in_flight rt \<and> ses_state (rt_session rt) \<in> ACTIVE_CONSOLE_SESSION_STATES"

definition lane_start :: "string \<Rightarrow> int \<Rightarrow> section_state \<Rightarrow> section_result" where
  "lane_start i now sec =
     rbind (get_statement i sec) (\<lambda>x.
     if stm_state x \<noteq> St_accepted then Inr (set_lane Drained_check sec)
     else if \<not> rt_accepting (s_rt sec) \<and> ses_state (rt_session (s_rt sec)) \<notin> {IDLE, EXECUTING} then Inr (set_lane Drained_check sec)
     else
       let sec = sec\<lparr>s_rt := (s_rt sec)\<lparr>rt_soft_cancel := False, rt_current := Some (stm_id x),
             rt_statement_deadline := (if stm_timeout_seconds x > 0 then Some (now + stm_timeout_seconds x) else None)\<rparr>\<rparr> in
       rbind (transition_statement (stm_state x) St_executing) (\<lambda>t.
       rbind (move_session EXECUTING (\<lambda>s. s\<lparr>ses_last_activity_at := now\<rparr>) sec) (\<lambda>sec.
       rbind (put_statement (x\<lparr>stm_state := t, stm_started_at := Some now\<rparr>) sec) (\<lambda>sec.
       Inr (set_lane (Running i) (record_event (stm_id x) ''started'' now sec))))))"

definition lane_stream :: "string \<Rightarrow> section_state \<Rightarrow> section_result" where
  "lane_stream i sec =
     rbind (get_statement i sec) (\<lambda>x.
     rbind (if stm_state x = St_executing
            then rbind (transition_statement (stm_state x) St_streaming) (\<lambda>t. put_statement (x\<lparr>stm_state := t\<rparr>) sec)
            else Inr sec)
       (\<lambda>sec. Inr (set_lane (Streaming i) sec)))"

datatype error_category =
  AUTH_FAILED | HOST_UNREACHABLE | LOGIN_TIMEOUT | CANCELLED | TIMEOUT | STATEMENT_ERROR | CONNECTION_DEAD | UNKNOWN

record classified_error =
  cl_category :: error_category
  cl_driver_code :: "int option"
  cl_summary :: string
  cl_server_confirmed :: bool

text \<open>How the statement ended at the driver: all rows drained, a classified error with the answer of a ping, or any other exception.\<close>

datatype driver_outcome = Drained | Driver_error classified_error string bool | Unexpected_error

fun category_value :: "error_category \<Rightarrow> string" where
  "category_value AUTH_FAILED = ''auth_failed''"
| "category_value HOST_UNREACHABLE = ''host_unreachable''"
| "category_value LOGIN_TIMEOUT = ''login_timeout''"
| "category_value CANCELLED = ''cancelled''"
| "category_value TIMEOUT = ''timeout''"
| "category_value STATEMENT_ERROR = ''statement_error''"
| "category_value CONNECTION_DEAD = ''connection_dead''"
| "category_value UNKNOWN = ''unknown''"

definition cl_error_code :: "classified_error \<Rightarrow> string" where
  "cl_error_code e = category_value (cl_category e) @ (case cl_driver_code e of None \<Rightarrow> [] | Some c \<Rightarrow> '':'' @ int_str c)"

definition connection_aborted :: "classified_error \<Rightarrow> bool" where
  "connection_aborted e \<longleftrightarrow> cl_category e = CONNECTION_DEAD"

definition lost_outcome :: "console_statement \<Rightarrow> statement_state" where
  "lost_outcome x = (if stm_is_write x then St_outcome_unknown else St_failed)"

definition outcome_state :: "console_statement \<Rightarrow> string option \<Rightarrow> driver_outcome \<Rightarrow> statement_state \<times> string option \<times> string option \<times> bool" where
  "outcome_state x reason out =
     (case out of
        Drained \<Rightarrow> (St_succeeded, None, None, False)
      | Unexpected_error \<Rightarrow> (St_failed, Some ''broker_execution_error'', Some ''statement execution failed'', False)
      | Driver_error e message ping \<Rightarrow>
          (let code = Some (cl_error_code e); summary = Some (if cl_summary e \<noteq> [] then cl_summary e else message) in
           if connection_aborted e then (lost_outcome x, code, summary, True)
           else if cl_category e = TIMEOUT then (St_timeout, code, summary, False)
           else if cl_category e = CANCELLED then ((if reason = Some ''timeout'' then St_timeout else St_cancelled), code, summary, False)
           else if cl_category e = UNKNOWN \<and> \<not> ping then (lost_outcome x, code, summary, True)
           else (St_failed, code, summary, False)))"

fun confirms_cancel :: "driver_outcome \<Rightarrow> bool" where
  "confirms_cancel (Driver_error e _ _) = (cl_category e = CANCELLED \<and> cl_server_confirmed e)"
| "confirms_cancel _ = False"

text \<open>
  The section that looks at the reason of a cancellation. The statement read before the execution decides whether a lost connection
  leaves a write of unknown outcome; its flag never changes.
\<close>

definition lane_outcome :: "string \<Rightarrow> driver_outcome \<Rightarrow> section_state \<Rightarrow> section_result" where
  "lane_outcome i out sec =
     rbind (get_statement i sec) (\<lambda>x.
     case outcome_state x (rt_cancel_reason (s_rt sec)) out of
       (target, code, summary, lost) \<Rightarrow>
         Inr (sec\<lparr>s_rt := (s_rt sec)\<lparr>rt_cancel_confirmed := rt_cancel_confirmed (s_rt sec) \<or> confirms_cancel out,
               rt_lane := Settling i target code summary lost\<rparr>\<rparr>))"

definition lane_finish ::
    "broker_config \<Rightarrow> string \<Rightarrow> statement_state \<Rightarrow> string option \<Rightarrow> string option \<Rightarrow> bool \<Rightarrow> int \<Rightarrow> section_state \<Rightarrow> section_result" where
  "lane_finish cfg i target code summary lost now sec =
     rbind (get_statement i sec) (\<lambda>x.
     rbind (if stm_state x \<notin> TERMINAL_STATEMENT_STATES
            then rbind (set_statement_state x target now None code summary sec) (\<lambda>sec. Inr (record_event i ''terminal'' now sec))
            else Inr sec) (\<lambda>sec.
     rbind (if lost then lose_session ''connection_dead'' now sec else Inr sec) (\<lambda>sec.
     let sec = (if rt_current (s_rt sec) = Some i
                then sec\<lparr>s_rt := (s_rt sec)\<lparr>rt_current := None, rt_statement_deadline := None\<rparr>\<rparr> else sec) in
     rbind (settle_cancel_fence cfg i now sec) (\<lambda>sec.
     rbind (if \<not> rt_cancel_in_flight (s_rt sec) \<and> ses_state (rt_session (s_rt sec)) \<in> {EXECUTING, CANCELLING}
            then move_session IDLE (\<lambda>s. s\<lparr>ses_last_activity_at := now\<rparr>)
                   (sec\<lparr>s_rt := (s_rt sec)\<lparr>rt_idle_deadline := Some (idle_deadline cfg now)\<rparr>\<rparr>)
            else Inr sec) (\<lambda>sec.
     Inr (set_lane Drained_check sec))))))"

section \<open>Closing\<close>

definition lane_check_close :: "section_state \<Rightarrow> section_state" where
  "lane_check_close sec =
     (case rt_close_reason_pending (s_rt sec) of
        None \<Rightarrow> set_lane Waiting sec
      | Some reason \<Rightarrow>
          if rt_mailbox (s_rt sec) \<noteq> [] then set_lane Waiting sec
          else sec\<lparr>s_rt := (s_rt sec)\<lparr>rt_close_reason_pending := None, rt_lane := Close_waiting reason\<rparr>\<rparr>)"

definition lane_close_begin :: "string \<Rightarrow> int \<Rightarrow> section_state \<Rightarrow> section_result" where
  "lane_close_begin reason now sec =
     (let st = ses_state (rt_session (s_rt sec)) in
      if st \<in> {CLOSED, SESSION_LOST, CONNECT_FAILED} then Inr (set_lane Ended sec)
      else rbind (if st \<noteq> CLOSING then move_session CLOSING (\<lambda>s. s\<lparr>ses_last_activity_at := now\<rparr>) sec else Inr sec)
             (\<lambda>sec. Inr (set_lane (Closing_connection reason) sec)))"

definition lane_close_end :: "string \<Rightarrow> int \<Rightarrow> section_state \<Rightarrow> section_result" where
  "lane_close_end reason now sec =
     rbind (move_session CLOSED (\<lambda>s. s\<lparr>ses_closed_at := Some now, ses_close_reason := Some reason, ses_last_activity_at := now\<rparr>) sec)
       (\<lambda>sec. Inr (set_lane Ended (sec\<lparr>s_rt := (s_rt sec)\<lparr>rt_idle_deadline := None\<rparr>\<rparr>)))"

section \<open>The next section of a lane\<close>

text \<open>What the environment gives to the next section: what opening the connection returned, whether the driver call returned, how the
  statement ended. A lane has no next section while its mailbox is empty or the fence is up.\<close>

datatype lane_input =
    Opened string
  | Open_failed string
  | Proceed
  | Execute_returned
  | Ended_with driver_outcome

definition lane_section :: "broker_config \<Rightarrow> lane_input \<Rightarrow> int \<Rightarrow> section_state \<Rightarrow> section_result option" where
  "lane_section cfg inp now sec =
     (case (rt_lane (s_rt sec), inp) of
        (Opening, Opened marker) \<Rightarrow> Some (lane_opened cfg marker now sec)
      | (Opening, Open_failed code) \<Rightarrow> Some (lane_open_failed code now sec)
      | (Waiting, Proceed) \<Rightarrow> (if rt_mailbox (s_rt sec) = [] then None else Some (Inr (lane_take sec)))
      | (Taken i, Proceed) \<Rightarrow> Some (Inr (lane_taken i sec))
      | (Starting i, Proceed) \<Rightarrow> (if fence_up (s_rt sec) then None else Some (lane_start i now sec))
      | (Running i, Execute_returned) \<Rightarrow> Some (lane_stream i sec)
      | (Running i, Ended_with out) \<Rightarrow> (if out = Drained then None else Some (lane_outcome i out sec))
      | (Streaming i, Ended_with out) \<Rightarrow> Some (lane_outcome i out sec)
      | (Settling i target code summary lost, Proceed) \<Rightarrow> Some (lane_finish cfg i target code summary lost now sec)
      | (Drained_check, Proceed) \<Rightarrow> Some (Inr (lane_check_close sec))
      | (Close_waiting reason, Proceed) \<Rightarrow> (if fence_up (s_rt sec) then None else Some (lane_close_begin reason now sec))
      | (Closing_connection reason, Proceed) \<Rightarrow> Some (lane_close_end reason now sec)
      | _ \<Rightarrow> None)"

section \<open>Draining rows\<close>

definition fetch_size :: "broker_config \<Rightarrow> statement_spool option \<Rightarrow> int" where
  "fetch_size cfg sp = (case sp of None \<Rightarrow> cfg_spool_batch_size cfg | Some sp \<Rightarrow> max 1 (min (sp_page_size sp) (sp_max_result_rows sp + 1)))"

definition batch_size :: "broker_config \<Rightarrow> statement_spool option \<Rightarrow> int" where
  "batch_size cfg sp = (case sp of None \<Rightarrow> cfg_spool_batch_size cfg | Some sp \<Rightarrow> max 1 (min (cfg_spool_batch_size cfg) (sp_page_size sp)))"

record 'r drain =
  dr_rows_read :: int
  dr_rows_returned :: int
  dr_limit_applied :: bool
  dr_batch :: "'r list"
  dr_flushed :: "'r list list"

definition drain_row :: "int \<Rightarrow> 'r \<Rightarrow> 'r drain \<Rightarrow> 'r drain" where
  "drain_row bs r d =
     (let d = d\<lparr>dr_rows_returned := dr_rows_returned d + 1, dr_batch := dr_batch d @ [r]\<rparr> in
      if int (length (dr_batch d)) \<ge> bs then d\<lparr>dr_flushed := dr_flushed d @ [dr_batch d], dr_batch := []\<rparr> else d)"

text \<open>The rows come from the driver; the stream ends after the last one or with an error.\<close>

fun drain_loop :: "int \<Rightarrow> int option \<Rightarrow> 'r list \<Rightarrow> 'r drain \<Rightarrow> 'r drain" where
  "drain_loop bs limit [] d = d"
| "drain_loop bs limit (r # rs) d =
     (let d = d\<lparr>dr_rows_read := dr_rows_read d + 1\<rparr> in
      case limit of
        Some l \<Rightarrow> if dr_rows_returned d \<ge> l then d\<lparr>dr_limit_applied := True\<rparr>
                  else drain_loop bs limit rs (drain_row bs r d)
      | None \<Rightarrow> drain_loop bs limit rs (drain_row bs r d))"

definition drain_to_spool :: "broker_config \<Rightarrow> statement_spool option \<Rightarrow> 'r list \<Rightarrow> 'r drain" where
  "drain_to_spool cfg sp rows =
     (let d = drain_loop (batch_size cfg sp) (map_option sp_max_result_rows sp) rows
            \<lparr>dr_rows_read = 0, dr_rows_returned = 0, dr_limit_applied = False, dr_batch = [], dr_flushed = []\<rparr>
      in if dr_batch d \<noteq> [] then d\<lparr>dr_flushed := dr_flushed d @ [dr_batch d]\<rparr> else d)"

end
