(* ===== verification/Broker_Api.thy ===== *)
theory Broker_Api
  imports Broker_Lane
begin

text \<open>
  The calls of \<open>SessionBroker\<close> in \<open>app/broker/core.py\<close>, the control lanes, the timer round and the shutdown, and the events that
  interleave them with the sections of the lanes. A call answers with a value or an error of its contract; an error that the contract
  does not know (an illegal transition, a row missing in the store) is the left side of the result.
\<close>

section \<open>Sections on the broker\<close>

definition enter :: "broker \<Rightarrow> runtime \<Rightarrow> section_state" where
  "enter b rt = \<lparr>s_rt = rt, s_store = b_store b, s_controls = b_controls b\<rparr>"

definition leave :: "string \<Rightarrow> section_state \<Rightarrow> broker \<Rightarrow> broker" where
  "leave sid sec b = b\<lparr>b_sessions := dict_set (b_sessions b) sid (s_rt sec), b_store := s_store sec, b_controls := s_controls sec\<rparr>"

definition in_section :: "string \<Rightarrow> (section_state \<Rightarrow> section_result) \<Rightarrow> broker \<Rightarrow> (broker_error, broker) result" where
  "in_section sid f b =
     (case dict_get (b_sessions b) sid of
        None \<Rightarrow> Inl (Missing_key sid)
      | Some rt \<Rightarrow> rbind (f (enter b rt)) (\<lambda>sec. Inr (leave sid sec b)))"

datatype answer =
    Refused broker_error
  | No_answer
  | Attached console_session
  | Submitted console_statement bool
  | Cancel_answer bool statement_state

type_synonym call_result = "(broker_error, answer \<times> broker) result"

definition empty_broker :: "string \<Rightarrow> mem_store \<Rightarrow> broker" where
  "empty_broker boot st = \<lparr>b_store = st, b_boot_id = boot, b_sessions = [], b_console_sessions = [], b_statement_sessions = [],
     b_controls = [], b_started = False, b_shutdown = False,
     b_sweep_report = \<lparr>sessions_lost = 0, read_failed = 0, write_outcome_unknown = 0\<rparr>\<rparr>"

definition start_broker :: "int \<Rightarrow> broker \<Rightarrow> call_result" where
  "start_broker now b =
     (if b_started b then Inr (No_answer, b)
      else if b_shutdown b then Inr (Refused (Runtime_failure ''broker has been shut down''), b)
      else case mem_startup_sweep (b_boot_id b) now (b_store b) of
        (r, st) \<Rightarrow> Inr (No_answer, b\<lparr>b_sweep_report := r, b_store := st, b_started := True\<rparr>))"

section \<open>Attach\<close>

definition active_sessions :: "broker \<Rightarrow> console_session list" where
  "active_sessions b = filter (\<lambda>s. ses_state s \<in> ACTIVE_CONSOLE_SESSION_STATES) (map rt_session (dict_values (b_sessions b)))"

definition enforce_session_limits :: "broker_config \<Rightarrow> attach_request \<Rightarrow> broker \<Rightarrow> (broker_error, unit) result" where
  "enforce_session_limits cfg rq b =
     (let active = active_sessions b; limits = cfg_limits cfg in
      if int (length active) \<ge> global_total limits
         \<or> int (length (filter (\<lambda>s. ses_owner s = rq_owner rq) active)) \<ge> per_user limits
         \<or> int (length (filter (\<lambda>s. ses_datasource_id s = rq_datasource_id rq) active)) \<ge> per_datasource limits
      then Inl (Broker_error ''session_limit_reached'' None) else Inr ())"

definition new_runtime :: "broker_config \<Rightarrow> console_session \<Rightarrow> int \<Rightarrow> runtime" where
  "new_runtime cfg s now =
     \<lparr>rt_session = s, rt_mailbox = [], rt_statements = [], rt_requests = [], rt_spools = [], rt_accepting = True, rt_pending_count = 0,
      rt_current = None, rt_statement_deadline = None, rt_idle_deadline = Some (idle_deadline cfg now), rt_cancel_in_flight = False,
      rt_cancel_statement_id = None, rt_cancel_reason = None, rt_cancel_control_done = False, rt_cancel_statement_done = False,
      rt_cancel_confirmed = False, rt_cancel_grace_deadline = None, rt_cancel_destroy_sent = False, rt_close_reason_pending = None,
      rt_soft_cancel = False, rt_lane = Not_started\<rparr>"

text \<open>
  The first section of an attach. A live session of the console is reused under a new epoch; otherwise a session is created, under a
  fresh id. \<open>connection_factory\<close> may raise: the row of the session is then written and no runtime exists for it.
\<close>

definition attach :: "broker_config \<Rightarrow> attach_request \<Rightarrow> string \<Rightarrow> bool \<Rightarrow> int \<Rightarrow> broker \<Rightarrow> call_result" where
  "attach cfg rq fresh_id factory_ok now b =
     (if \<not> b_started b \<or> b_shutdown b then Inr (Refused (Runtime_failure ''broker is not running''), b)
      else
        let existing = (case dict_get (b_console_sessions b) (rq_console_id rq) of None \<Rightarrow> None | Some i \<Rightarrow> dict_get (b_sessions b) i) in
        case (case existing of Some rt \<Rightarrow> if ses_state (rt_session rt) \<in> ACTIVE_CONSOLE_SESSION_STATES then Some rt else None | None \<Rightarrow> None) of
          Some rt \<Rightarrow>
            (case mem_attach_session rq (ses_id (rt_session rt)) (b_boot_id b) now (Some (ses_id (rt_session rt))) (b_store b) of
               (Inl e, st) \<Rightarrow> Inl e
             | (Inr s, st) \<Rightarrow>
                 Inr (Attached s, b\<lparr>b_store := st, b_sessions := dict_set (b_sessions b) (ses_id (rt_session rt))
                   (rt\<lparr>rt_session := s, rt_idle_deadline := Some (idle_deadline cfg (ses_last_activity_at s))\<rparr>)\<rparr>))
        | None \<Rightarrow>
            (case enforce_session_limits cfg rq b of
               Inl e \<Rightarrow> Inr (Refused e, b)
             | Inr _ \<Rightarrow>
                 (case mem_attach_session rq fresh_id (b_boot_id b) now None (b_store b) of
                    (Inl e, st) \<Rightarrow> Inl e
                  | (Inr s, st) \<Rightarrow>
                      if \<not> factory_ok then Inr (Refused (Runtime_failure ''connection factory''), b\<lparr>b_store := st\<rparr>)
                      else Inr (No_answer, b\<lparr>b_store := st, b_sessions := dict_set (b_sessions b) (ses_id s) (new_runtime cfg s now),
                             b_console_sessions := dict_set (b_console_sessions b) (ses_console_id s) (ses_id s)\<rparr>))))"

text \<open>The rest of an attach: the control lane of the datasource exists from here on, its answer is noted, and the lane starts.\<close>

definition ensure_control_lane :: "string \<Rightarrow> broker \<Rightarrow> broker" where
  "ensure_control_lane ds b =
     (if dict_get (b_controls b) ds = None
      then b\<lparr>b_controls := dict_set (b_controls b) ds \<lparr>ctl_queue = [], ctl_busy = None, ctl_stopped = False\<rparr>\<rparr> else b)"

definition attach_ready :: "string \<Rightarrow> server_cancel_state \<Rightarrow> broker \<Rightarrow> call_result" where
  "attach_ready sid support b =
     (case dict_get (b_sessions b) sid of
        None \<Rightarrow> Inr (No_answer, b)
      | Some rt \<Rightarrow>
          if rt_lane rt \<noteq> Not_started then Inr (No_answer, b)
          else
            let b = ensure_control_lane (ses_datasource_id (rt_session rt)) b in
            rbind (in_section sid (\<lambda>sec.
              rbind (if ses_state (rt_session (s_rt sec)) = CONNECTING
                     then put_session ((rt_session (s_rt sec))\<lparr>ses_server_cancel := support\<rparr>) sec else Inr sec)
                (\<lambda>sec. Inr (set_lane Opening sec))) b)
              (\<lambda>b. Inr (case dict_get (b_sessions b) sid of None \<Rightarrow> No_answer | Some rt \<Rightarrow> Attached (rt_session rt), b)))"

section \<open>Submit, cancel and close\<close>

definition require_epoch :: "runtime \<Rightarrow> int \<Rightarrow> (broker_error, unit) result" where
  "require_epoch rt epoch =
     (if epoch \<noteq> ses_epoch (rt_session rt) then Inl (Broker_error ''stale_session_epoch'' (Some (ses_epoch (rt_session rt)))) else Inr ())"

record submit_request =
  sub_session_id :: string
  sub_epoch :: int
  sub_sql :: string
  sub_request_id :: string
  sub_timeout_seconds :: int
  sub_page_size :: int
  sub_max_result_rows :: int

definition check_submit :: "submit_request \<Rightarrow> (broker_error, unit) result" where
  "check_submit q =
     (if sub_request_id q = [] \<or> length (sub_request_id q) > 64 then Inl (Bad_argument ''client_request_id must contain 1..64 characters'')
      else if sub_timeout_seconds q < 0 then Inl (Bad_argument ''timeout_seconds must not be negative'')
      else if sub_page_size q \<le> 0 \<or> sub_max_result_rows q \<le> 0 then Inl (Bad_argument ''page_size and max_result_rows must be positive'')
      else Inr ())"

text \<open>
  \<open>digest\<close> is SHA-256 of the text; \<open>registered\<close> is what registering the result set returns, its id or nothing when it raises. The
  statement is queued only with a result set; without one it fails at once.
\<close>

definition submit_new ::
    "broker_config \<Rightarrow> (string \<Rightarrow> string) \<Rightarrow> submit_request \<Rightarrow> string \<Rightarrow> string option \<Rightarrow> int \<Rightarrow> runtime \<Rightarrow> broker \<Rightarrow> call_result" where
  "submit_new cfg digest q fresh_id registered now rt b =
     rbind (mem_create_statement (rt_session rt)
         \<lparr>in_statement_id = fresh_id, in_request_id = sub_request_id q, in_sql = sub_sql q, in_sql_hash = ''sha256:'' @ digest (sub_sql q),
          in_timeout = sub_timeout_seconds q, in_is_write = False\<rparr> now (b_store b))
       (\<lambda>((x, dedup), st).
     let sid = ses_id (rt_session rt);
         rt = rt\<lparr>rt_statements := dict_set (rt_statements rt) (stm_id x) x, rt_requests := dict_set (rt_requests rt) (sub_request_id q) (stm_id x)\<rparr>;
         b = b\<lparr>b_store := st, b_sessions := dict_set (b_sessions b) sid rt, b_statement_sessions := dict_set (b_statement_sessions b) (stm_id x) sid\<rparr>
     in if dedup then Inr (Submitted x True, b)
        else case registered of
          None \<Rightarrow>
            rbind (in_section sid (\<lambda>sec. rbind (set_statement_state x St_failed now None (Some ''resultstore_error'')
                (Some ''statement result set could not be created'') sec) (\<lambda>sec. Inr (record_event (stm_id x) ''terminal'' now sec))) b)
              (\<lambda>b. Inr (Refused Result_store_failure, b))
        | Some rid \<Rightarrow>
            let x = x\<lparr>stm_result_set_id := Some rid\<rparr> in
            rbind (in_section sid (\<lambda>sec.
              rbind (put_statement x (sec\<lparr>s_rt := (s_rt sec)\<lparr>rt_spools := dict_set (rt_spools (s_rt sec)) (stm_id x)
                  \<lparr>sp_result_set_id = rid, sp_page_size = sub_page_size q, sp_max_result_rows = sub_max_result_rows q\<rparr>\<rparr>\<rparr>)) (\<lambda>sec.
              if mailbox_full cfg (s_rt sec) then Inl (Runtime_failure ''broker mailbox accounting diverged'')
              else Inr (record_event (stm_id x) ''submitted'' now
                (sec\<lparr>s_rt := (s_rt sec)\<lparr>rt_mailbox := rt_mailbox (s_rt sec) @ [Execute_cmd (stm_id x)],
                   rt_pending_count := rt_pending_count (s_rt sec) + 1\<rparr>\<rparr>)))) b)
              (\<lambda>b. Inr (Submitted x False, b)))"

definition submit ::
    "broker_config \<Rightarrow> (string \<Rightarrow> string) \<Rightarrow> submit_request \<Rightarrow> string \<Rightarrow> string option \<Rightarrow> int \<Rightarrow> broker \<Rightarrow> call_result" where
  "submit cfg digest q fresh_id registered now b =
     (case check_submit q of
        Inl e \<Rightarrow> Inr (Refused e, b)
      | Inr _ \<Rightarrow>
     (case dict_get (b_sessions b) (sub_session_id q) of
        None \<Rightarrow> Inr (Refused (Broker_error ''session_lost'' None), b)
      | Some rt \<Rightarrow>
     (case require_epoch rt (sub_epoch q) of
        Inl e \<Rightarrow> Inr (Refused e, b)
      | Inr _ \<Rightarrow>
     (case dict_get (rt_requests rt) (sub_request_id q) of
        Some i \<Rightarrow> (case dict_get (rt_statements rt) i of None \<Rightarrow> Inl (Missing_key i) | Some x \<Rightarrow> Inr (Submitted x True, b))
      | None \<Rightarrow>
          if \<not> rt_accepting rt \<or> ses_state (rt_session rt) \<notin> ACTIVE_CONSOLE_SESSION_STATES
          then Inr (Refused (Broker_error ''session_not_active'' (Some (ses_epoch (rt_session rt)))), b)
          else if rt_pending_count rt \<ge> cfg_mailbox_size cfg
          then Inr (Refused (Broker_error ''session_mailbox_full'' (Some (ses_epoch (rt_session rt)))), b)
          else submit_new cfg digest q fresh_id registered now rt b))))"

definition cancel :: "broker_config \<Rightarrow> string \<Rightarrow> int \<Rightarrow> int \<Rightarrow> broker \<Rightarrow> call_result" where
  "cancel cfg i epoch now b =
     (case dict_get (b_statement_sessions b) i of
        None \<Rightarrow> Inr (Refused (Broker_error ''statement_not_cancellable'' None), b)
      | Some sid \<Rightarrow>
     (case dict_get (b_sessions b) sid of
        None \<Rightarrow> Inr (Refused (Broker_error ''session_lost'' None), b)
      | Some rt \<Rightarrow>
     (case require_epoch rt epoch of
        Inl e \<Rightarrow> Inr (Refused e, b)
      | Inr _ \<Rightarrow>
     (case dict_get (rt_statements rt) i of
        None \<Rightarrow> Inl (Missing_key i)
      | Some x \<Rightarrow>
          if stm_state x = St_accepted
          then rbind (in_section sid (\<lambda>sec. rbind (set_statement_state x St_cancelled now (Some True) None None sec)
                   (\<lambda>sec. Inr (record_event (stm_id x) ''cancel_requested'' now sec))) b)
                 (\<lambda>b. Inr (Cancel_answer True St_cancelled, b))
          else if rt_current rt = Some i \<and> (stm_state x = St_executing \<or> stm_state x = St_streaming)
          then rbind (in_section sid (begin_cancel cfg x ''user'' now) b) (\<lambda>b. Inr (Cancel_answer True (stm_state x), b))
          else if stm_state x \<in> TERMINAL_STATEMENT_STATES then Inr (Cancel_answer False (stm_state x), b)
          else Inr (Refused (Broker_error ''statement_not_cancellable'' (Some (ses_epoch (rt_session rt)))), b)))))"

definition close :: "broker_config \<Rightarrow> string \<Rightarrow> int \<Rightarrow> string \<Rightarrow> int \<Rightarrow> broker \<Rightarrow> call_result" where
  "close cfg sid epoch reason now b =
     (case dict_get (b_sessions b) sid of
        None \<Rightarrow> Inr (Refused (Broker_error ''session_lost'' None), b)
      | Some rt \<Rightarrow>
     (case require_epoch rt epoch of
        Inl e \<Rightarrow> Inr (Refused e, b)
      | Inr _ \<Rightarrow> rbind (in_section sid (queue_close cfg reason True now) b) (\<lambda>b. Inr (No_answer, b))))"

section \<open>Timers, control lanes and shutdown\<close>

text \<open>The step of a timer round that escalates a cancellation whose grace period is over.\<close>

definition escalate :: "int \<Rightarrow> section_state \<Rightarrow> section_state" where
  "escalate now sec =
     (case rt_cancel_grace_deadline (s_rt sec) of
        Some g \<Rightarrow>
          if rt_cancel_in_flight (s_rt sec) \<and> \<not> rt_cancel_destroy_sent (s_rt sec) \<and> now \<ge> g
          then
            let sec = sec\<lparr>s_rt := (s_rt sec)\<lparr>rt_cancel_destroy_sent := True\<rparr>\<rparr>; ds = ses_datasource_id (rt_session (s_rt sec)) in
            case dict_get (s_controls sec) ds of
              None \<Rightarrow> sec
            | Some k \<Rightarrow> send_control ds (Destroy_cmd (ses_id (rt_session (s_rt sec)))) k sec
          else sec
      | None \<Rightarrow> sec)"

definition timer_section :: "broker_config \<Rightarrow> int \<Rightarrow> section_state \<Rightarrow> section_result" where
  "timer_section cfg now sec =
     rbind (case (rt_current (s_rt sec), rt_statement_deadline (s_rt sec)) of
              (Some i, Some d) \<Rightarrow>
                if now \<ge> d \<and> \<not> rt_cancel_in_flight (s_rt sec)
                then rbind (get_statement i sec) (\<lambda>x. begin_cancel cfg x ''timeout'' now sec) else Inr sec
            | _ \<Rightarrow> Inr sec) (\<lambda>sec.
     let sec = escalate now sec
     in case rt_idle_deadline (s_rt sec) of
          Some d \<Rightarrow>
            if rt_accepting (s_rt sec) \<and> ses_state (rt_session (s_rt sec)) = IDLE \<and> now \<ge> d
            then queue_close cfg ''idle_timeout'' False now sec else Inr sec
        | None \<Rightarrow> Inr sec)"

definition run_timers_once :: "broker_config \<Rightarrow> int \<Rightarrow> broker \<Rightarrow> (broker_error, broker) result" where
  "run_timers_once cfg now b = fold_r (\<lambda>b sid. in_section sid (timer_section cfg now) b) b (dict_keys (b_sessions b))"

text \<open>A control lane takes a command, runs it on its connection and reports through the callback.\<close>

definition control_take :: "string \<Rightarrow> broker \<Rightarrow> broker" where
  "control_take ds b =
     (case dict_get (b_controls b) ds of
        None \<Rightarrow> b
      | Some k \<Rightarrow>
          (case (ctl_stopped k, ctl_busy k, ctl_queue k) of
             (False, None, c # cs) \<Rightarrow>
               b\<lparr>b_controls := dict_set (b_controls b) ds
                 (if c = Stop_cmd then k\<lparr>ctl_queue := cs, ctl_stopped := True\<rparr> else k\<lparr>ctl_queue := cs, ctl_busy := Some c\<rparr>)\<rparr>
           | _ \<Rightarrow> b))"

definition control_done :: "broker_config \<Rightarrow> string \<Rightarrow> bool \<Rightarrow> int \<Rightarrow> broker \<Rightarrow> (broker_error, broker) result" where
  "control_done cfg ds failed now b =
     (case dict_get (b_controls b) ds of
        None \<Rightarrow> Inr b
      | Some k \<Rightarrow>
          let b = b\<lparr>b_controls := dict_set (b_controls b) ds (k\<lparr>ctl_busy := None\<rparr>)\<rparr> in
          (case ctl_busy k of
             Some (Cancel_cmd sid) \<Rightarrow> in_section sid (on_control_cancel_done cfg failed now) b
           | Some (Destroy_cmd sid) \<Rightarrow> in_section sid (on_control_destroy_done failed now) b
           | _ \<Rightarrow> Inr b))"

text \<open>The section of a shutdown that stops the sessions; the control lanes are stopped after the lanes were given time to end.\<close>

definition shutdown :: "broker_config \<Rightarrow> int \<Rightarrow> broker \<Rightarrow> (broker_error, broker) result" where
  "shutdown cfg now b =
     (if b_shutdown b then Inr b
      else fold_r (\<lambda>b sid. in_section sid (\<lambda>sec. if ses_state (rt_session (s_rt sec)) \<in> ACTIVE_CONSOLE_SESSION_STATES
                     then queue_close cfg ''shutdown'' True now sec else Inr sec) b)
             (b\<lparr>b_shutdown := True\<rparr>) (dict_keys (b_sessions b)))"

definition stop_controls :: "broker \<Rightarrow> broker" where
  "stop_controls b = (if b_shutdown b then b\<lparr>b_controls := map (\<lambda>(ds, k). (ds, control_submit Stop_cmd k)) (b_controls b)\<rparr> else b)"

section \<open>Reading\<close>

record observation =
  ob_session :: console_session
  ob_current_statement_id :: "string option"
  ob_idle_deadline :: "int option"

definition observe :: "string \<Rightarrow> broker \<Rightarrow> (broker_error, observation) result" where
  "observe sid b =
     (case dict_get (b_sessions b) sid of
        None \<Rightarrow>
          (case mem_get_session sid (b_store b) of
             None \<Rightarrow> Inl (Broker_error ''session_lost'' None)
           | Some s \<Rightarrow> Inr \<lparr>ob_session = s, ob_current_statement_id = None, ob_idle_deadline = None\<rparr>)
      | Some rt \<Rightarrow> Inr \<lparr>ob_session = rt_session rt, ob_current_statement_id = rt_current rt, ob_idle_deadline = rt_idle_deadline rt\<rparr>)"

definition statement_of :: "string \<Rightarrow> broker \<Rightarrow> (broker_error, console_statement) result" where
  "statement_of i b =
     (case dict_get (b_statement_sessions b) i of
        Some sid \<Rightarrow>
          (case dict_get (b_sessions b) sid of
             None \<Rightarrow> Inl (Missing_key sid)
           | Some rt \<Rightarrow> (case dict_get (rt_statements rt) i of None \<Rightarrow> Inl (Missing_key i) | Some x \<Rightarrow> Inr x))
      | None \<Rightarrow>
          (case mem_get_statement i (b_store b) of
             None \<Rightarrow> Inl (Broker_error ''statement_not_found'' None)
           | Some x \<Rightarrow> Inr x))"

section \<open>Events\<close>

datatype event =
    Start int
  | Attach attach_request string bool int
  | Attach_ready string server_cancel_state
  | Submit submit_request string "string option" int
  | Cancel string int int
  | Close string int string int
  | Timers int
  | Lane_step string lane_input int
  | Control_take string
  | Control_done string bool int
  | Shutdown int
  | Stop_controls

text \<open>A lane event of a lane that is not there to take it changes nothing.\<close>

definition handle :: "broker_config \<Rightarrow> (string \<Rightarrow> string) \<Rightarrow> event \<Rightarrow> broker \<Rightarrow> call_result" where
  "handle cfg digest e b =
     (case e of
        Start now \<Rightarrow> start_broker now b
      | Attach rq fresh_id ok now \<Rightarrow> attach cfg rq fresh_id ok now b
      | Attach_ready sid support \<Rightarrow> attach_ready sid support b
      | Submit q fresh_id registered now \<Rightarrow> submit cfg digest q fresh_id registered now b
      | Cancel i epoch now \<Rightarrow> cancel cfg i epoch now b
      | Close sid epoch reason now \<Rightarrow> close cfg sid epoch reason now b
      | Timers now \<Rightarrow> rbind (run_timers_once cfg now b) (\<lambda>b. Inr (No_answer, b))
      | Lane_step sid inp now \<Rightarrow>
          (case dict_get (b_sessions b) sid of
             None \<Rightarrow> Inr (No_answer, b)
           | Some rt \<Rightarrow>
               (case lane_section cfg inp now (enter b rt) of
                  None \<Rightarrow> Inr (No_answer, b)
                | Some r \<Rightarrow> rbind r (\<lambda>sec. Inr (No_answer, leave sid sec b))))
      | Control_take ds \<Rightarrow> Inr (No_answer, control_take ds b)
      | Control_done ds failed now \<Rightarrow> rbind (control_done cfg ds failed now b) (\<lambda>b. Inr (No_answer, b))
      | Shutdown now \<Rightarrow> rbind (shutdown cfg now b) (\<lambda>b. Inr (No_answer, b))
      | Stop_controls \<Rightarrow> Inr (No_answer, stop_controls b))"

text \<open>The ids an event brings are new: \<open>uuid4\<close> returns an id that no row has.\<close>

definition fresh :: "event \<Rightarrow> broker \<Rightarrow> bool" where
  "fresh e b =
     (case e of
        Attach _ i _ _ \<Rightarrow> dict_get (m_sessions (b_store b)) i = None \<and> dict_get (b_sessions b) i = None
      | Submit _ i _ _ \<Rightarrow> dict_get (m_statements (b_store b)) i = None \<and> dict_get (b_statement_sessions b) i = None
      | _ \<Rightarrow> True)"

inductive broker_step :: "broker_config \<Rightarrow> (string \<Rightarrow> string) \<Rightarrow> broker \<Rightarrow> event \<Rightarrow> answer \<Rightarrow> broker \<Rightarrow> bool" for cfg digest where
  step: "fresh e b \<Longrightarrow> handle cfg digest e b = Inr (a, b') \<Longrightarrow> broker_step cfg digest b e a b'"

inductive broker_run :: "broker_config \<Rightarrow> (string \<Rightarrow> string) \<Rightarrow> broker \<Rightarrow> event list \<Rightarrow> broker \<Rightarrow> bool" for cfg digest where
  run_nil: "broker_run cfg digest b [] b"
| run_snoc: "broker_run cfg digest b es b1 \<Longrightarrow> broker_step cfg digest b1 e a b2 \<Longrightarrow> broker_run cfg digest b (es @ [e]) b2"

inductive_cases broker_stepE: "broker_step cfg digest b e a b'"

end
