(* ===== verification/Broker_Sound.thy ===== *)
theory Broker_Sound
  imports Broker_Api
begin

text \<open>
  How a critical section may change what the broker holds of a session: identities and epochs stay, states move along the
  tables, the rows of the store agree with the memory afterwards, and rows of other sessions are untouched.
\<close>

section \<open>Sound changes\<close>

definition mirrored :: "section_state \<Rightarrow> bool" where
  "mirrored sec \<longleftrightarrow>
     dict_get (m_sessions (s_store sec)) (ses_id (rt_session (s_rt sec))) = Some (rt_session (s_rt sec)) \<and>
     (\<forall>i x. dict_get (rt_statements (s_rt sec)) i = Some x \<longrightarrow> stm_id x = i \<and> dict_get (m_statements (s_store sec)) i = Some x)"

definition same_identity :: "console_session \<Rightarrow> console_session \<Rightarrow> bool" where
  "same_identity s s' \<longleftrightarrow> ses_id s' = ses_id s \<and> ses_console_id s' = ses_console_id s \<and> ses_datasource_id s' = ses_datasource_id s \<and>
     ses_owner s' = ses_owner s \<and> ses_epoch s' = ses_epoch s \<and> ses_boot_id s' = ses_boot_id s"

definition same_statement :: "console_statement \<Rightarrow> console_statement \<Rightarrow> bool" where
  "same_statement x x' \<longleftrightarrow> stm_id x' = stm_id x \<and> stm_session_id x' = stm_session_id x \<and> stm_seq x' = stm_seq x \<and>
     stm_request_id x' = stm_request_id x \<and> stm_sql x' = stm_sql x \<and> stm_is_write x' = stm_is_write x"

definition statement_moves :: "(string, console_statement) dict \<Rightarrow> (string, console_statement) dict \<Rightarrow> bool" where
  "statement_moves d d' \<longleftrightarrow> dict_keys d' = dict_keys d \<and>
     (\<forall>i x. dict_get d i = Some x \<longrightarrow> (\<exists>x'. dict_get d' i = Some x' \<and> same_statement x x' \<and> (stm_state x, stm_state x') \<in> STATEMENT_TRANSITIONS\<^sup>*))"

text \<open>The sessions and requests of the statements in the store.\<close>

definition request_keys :: "mem_store \<Rightarrow> (string \<times> string) set" where
  "request_keys st = (\<lambda>x. (stm_session_id x, stm_request_id x)) ` set (dict_values (m_statements st))"

definition store_frame :: "string \<Rightarrow> string set \<Rightarrow> mem_store \<Rightarrow> mem_store \<Rightarrow> bool" where
  "store_frame sid ids st st' \<longleftrightarrow> m_epochs st' = m_epochs st \<and> request_keys st' \<subseteq> request_keys st \<and>
     (\<forall>j. j \<noteq> sid \<longrightarrow> dict_get (m_sessions st') j = dict_get (m_sessions st) j) \<and>
     (\<forall>i. i \<notin> ids \<longrightarrow> dict_get (m_statements st') i = dict_get (m_statements st) i)"

definition commands :: "(string, control_lane) dict \<Rightarrow> control_command set" where
  "commands c = (\<Union>k \<in> set (dict_values c). set (ctl_queue k) \<union> set_option (ctl_busy k))"

definition controls_grow :: "string \<Rightarrow> (string, control_lane) dict \<Rightarrow> (string, control_lane) dict \<Rightarrow> bool" where
  "controls_grow sid c c' \<longleftrightarrow> (\<forall>ds. dict_get c ds \<noteq> None \<longrightarrow> dict_get c' ds \<noteq> None) \<and>
     commands c' \<subseteq> commands c \<union> {Cancel_cmd sid, Destroy_cmd sid}"

definition sound :: "section_state \<Rightarrow> section_state \<Rightarrow> bool" where
  "sound sec sec' \<longleftrightarrow> mirrored sec' \<and> same_identity (rt_session (s_rt sec)) (rt_session (s_rt sec')) \<and>
     (ses_state (rt_session (s_rt sec)), ses_state (rt_session (s_rt sec'))) \<in> SESSION_TRANSITIONS\<^sup>* \<and>
     statement_moves (rt_statements (s_rt sec)) (rt_statements (s_rt sec')) \<and> rt_requests (s_rt sec') = rt_requests (s_rt sec) \<and>
     store_frame (ses_id (rt_session (s_rt sec))) (fst ` set (rt_statements (s_rt sec))) (s_store sec) (s_store sec') \<and>
     controls_grow (ses_id (rt_session (s_rt sec))) (s_controls sec) (s_controls sec')"

lemma same_statement_refl [simp]: "same_statement x x"
  by (simp add: same_statement_def)

lemma statement_moves_refl [simp]: "statement_moves d d"
  by (simp add: statement_moves_def)

lemma statement_moves_trans: "statement_moves a b \<Longrightarrow> statement_moves b c \<Longrightarrow> statement_moves a c"
proof -
  assume ab: "statement_moves a b" and bc: "statement_moves b c"
  have "\<exists>x'. dict_get c i = Some x' \<and> same_statement x x' \<and> (stm_state x, stm_state x') \<in> STATEMENT_TRANSITIONS\<^sup>*"
    if x: "dict_get a i = Some x" for i x
  proof -
    obtain y where y: "dict_get b i = Some y" "same_statement x y" "(stm_state x, stm_state y) \<in> STATEMENT_TRANSITIONS\<^sup>*"
      using ab x unfolding statement_moves_def by blast
    obtain z where z: "dict_get c i = Some z" "same_statement y z" "(stm_state y, stm_state z) \<in> STATEMENT_TRANSITIONS\<^sup>*"
      using bc y(1) unfolding statement_moves_def by blast
    have "same_statement x z" using y(2) z(2) by (simp add: same_statement_def)
    thus ?thesis using z(1) rtrancl_trans [OF y(3) z(3)] by blast
  qed
  thus ?thesis using ab bc by (simp add: statement_moves_def)
qed

lemma controls_grow_refl [simp]: "controls_grow sid c c"
  by (auto simp: controls_grow_def)

lemma sound_refl: "mirrored sec \<Longrightarrow> sound sec sec"
  by (simp add: sound_def same_identity_def store_frame_def)

lemma dict_keys_fst: "dict_keys a = dict_keys b \<Longrightarrow> fst ` set a = fst ` set b"
  by (metis list.set_map)

lemma sound_trans [trans]: "sound a b \<Longrightarrow> sound b c \<Longrightarrow> sound a c"
proof -
  assume ab: "sound a b" and bc: "sound b c"
  have k: "fst ` set (rt_statements (s_rt b)) = fst ` set (rt_statements (s_rt a))"
    using ab by (intro dict_keys_fst) (simp add: sound_def statement_moves_def)
  have i: "ses_id (rt_session (s_rt b)) = ses_id (rt_session (s_rt a))" using ab by (simp add: sound_def same_identity_def)
  have "(ses_state (rt_session (s_rt a)), ses_state (rt_session (s_rt c))) \<in> SESSION_TRANSITIONS\<^sup>*"
    using ab bc unfolding sound_def by (meson rtrancl_trans)
  moreover have "statement_moves (rt_statements (s_rt a)) (rt_statements (s_rt c))"
    using ab bc unfolding sound_def by (meson statement_moves_trans)
  moreover have "store_frame (ses_id (rt_session (s_rt a))) (fst ` set (rt_statements (s_rt a))) (s_store a) (s_store c)"
    using ab bc unfolding sound_def store_frame_def k i by auto
  moreover have "same_identity (rt_session (s_rt a)) (rt_session (s_rt c))" using ab bc by (simp add: sound_def same_identity_def)
  moreover have "controls_grow (ses_id (rt_session (s_rt a))) (s_controls a) (s_controls c)"
    using ab bc unfolding sound_def controls_grow_def i by blast
  ultimately show ?thesis using ab bc by (simp add: sound_def)
qed

text \<open>A change of the runtime that leaves its session, statements and requests is sound.\<close>

lemma sound_local:
  "mirrored sec \<Longrightarrow> rt_session rt = rt_session (s_rt sec) \<Longrightarrow> rt_statements rt = rt_statements (s_rt sec) \<Longrightarrow> rt_requests rt = rt_requests (s_rt sec) \<Longrightarrow>
   sound sec (sec\<lparr>s_rt := rt\<rparr>)"
  by (simp add: sound_def mirrored_def same_identity_def store_frame_def)

lemma sound_event: "mirrored sec \<Longrightarrow> sound sec (record_event i ty now sec)"
  by (simp add: sound_def mirrored_def same_identity_def store_frame_def request_keys_def record_event_def mem_add_event_def)

lemma set_dict_set: "set (dict_set d k v) \<subseteq> insert (k, v) (set d)"
  by (induction d) auto

lemma request_keys_set:
  "request_keys (st\<lparr>m_statements := dict_set (m_statements st) i z\<rparr>) \<subseteq> insert (stm_session_id z, stm_request_id z) (request_keys st)"
proof -
  have "set (dict_values (dict_set (m_statements st) i z)) \<subseteq> insert z (set (dict_values (m_statements st)))"
    using set_dict_set [of i z "m_statements st"] by force
  from image_mono [OF this, of "\<lambda>x. (stm_session_id x, stm_request_id x)"]
  have sub: "(\<lambda>x. (stm_session_id x, stm_request_id x)) ` set (dict_values (dict_set (m_statements st) i z))
      \<subseteq> insert (stm_session_id z, stm_request_id z) (request_keys st)"
    unfolding request_keys_def image_insert .
  have fld: "m_statements (st\<lparr>m_statements := dict_set (m_statements st) i z\<rparr>) = dict_set (m_statements st) i z" by simp
  show ?thesis unfolding request_keys_def [of "st\<lparr>m_statements := dict_set (m_statements st) i z\<rparr>"] fld by (rule sub)
qed

lemma commands_set: "commands (dict_set c ds k) \<subseteq> commands c \<union> set (ctl_queue k) \<union> set_option (ctl_busy k)"
  using set_dict_set [of ds k c] by (fastforce simp: commands_def)

lemma commands_get: "dict_get c ds = Some k \<Longrightarrow> set (ctl_queue k) \<union> set_option (ctl_busy k) \<subseteq> commands c"
  by (force simp: commands_def dest: map_of_SomeD)

lemma sound_send:
  assumes "mirrored sec" "dict_get (s_controls sec) ds = Some k" "c \<in> {Cancel_cmd (ses_id (rt_session (s_rt sec))), Destroy_cmd (ses_id (rt_session (s_rt sec)))}"
  shows "sound sec (send_control ds c k sec)"
proof -
  have "commands (s_controls (send_control ds c k sec)) \<subseteq> commands (s_controls sec) \<union> {c}"
    using commands_set [of ds "control_submit c k" "s_controls sec"] commands_get [OF assms(2)] by (auto simp: send_control_def control_submit_def)
  thus ?thesis using assms
    by (auto simp: sound_def mirrored_def same_identity_def store_frame_def controls_grow_def send_control_def)
qed

lemma sound_mirrored: "sound a b \<Longrightarrow> mirrored b"
  by (simp add: sound_def)

section \<open>The helpers\<close>

lemma put_session_ok:
  assumes "mirrored sec" "same_identity (rt_session (s_rt sec)) s"
    "(ses_state (rt_session (s_rt sec)), ses_state s) \<in> SESSION_TRANSITIONS\<^sup>*"
  shows "\<exists>sec'. put_session s sec = Inr sec' \<and> s_rt sec' = (s_rt sec)\<lparr>rt_session := s\<rparr> \<and> s_controls sec' = s_controls sec \<and> sound sec sec'"
proof -
  have id: "ses_id s = ses_id (rt_session (s_rt sec))" using assms(2) by (simp add: same_identity_def)
  hence "dict_get (m_sessions (s_store sec)) (ses_id s) \<noteq> None" using assms(1) by (simp add: mirrored_def)
  thus ?thesis using assms id
    by (simp add: put_session_def mem_update_session_def sound_def mirrored_def store_frame_def request_keys_def)
qed

lemma put_statement_ok:
  assumes "mirrored sec" "dict_get (rt_statements (s_rt sec)) (stm_id x) = Some x0" "same_statement x0 x"
    "(stm_state x0, stm_state x) \<in> STATEMENT_TRANSITIONS\<^sup>*"
  shows "\<exists>sec'. put_statement x sec = Inr sec' \<and>
      s_rt sec' = (s_rt sec)\<lparr>rt_statements := dict_set (rt_statements (s_rt sec)) (stm_id x) x\<rparr> \<and> s_controls sec' = s_controls sec \<and> sound sec sec'"
proof -
  let ?d = "rt_statements (s_rt sec)"
  have key: "stm_id x \<in> fst ` set ?d" using assms(2) by (rule dict_get_in_keys)
  have st: "dict_get (m_statements (s_store sec)) (stm_id x) = Some x0" using assms(1,2) by (simp add: mirrored_def)
  have mv: "statement_moves ?d (dict_set ?d (stm_id x) x)"
    using assms(2-4) dict_keys_set_present [OF key] by (auto simp: statement_moves_def)
  have fr: "store_frame (ses_id (rt_session (s_rt sec))) (fst ` set ?d) (s_store sec)
      ((s_store sec)\<lparr>m_statements := dict_set (m_statements (s_store sec)) (stm_id x) x\<rparr>)"
  proof -
    have "(stm_session_id x, stm_request_id x) \<in> request_keys (s_store sec)"
    proof (unfold request_keys_def, rule image_eqI [where x = x0])
      show "(stm_session_id x, stm_request_id x) = (stm_session_id x0, stm_request_id x0)" using assms(3) by (simp add: same_statement_def)
      show "x0 \<in> set (dict_values (m_statements (s_store sec)))" using map_of_SomeD [OF st] by force
    qed
    hence "request_keys ((s_store sec)\<lparr>m_statements := dict_set (m_statements (s_store sec)) (stm_id x) x\<rparr>) \<subseteq> request_keys (s_store sec)"
      using request_keys_set [where st = "s_store sec" and i = "stm_id x" and z = x] by blast
    thus ?thesis using key by (auto simp: store_frame_def)
  qed
  show ?thesis
    using assms(1) st mv fr
    by (simp add: put_statement_def mem_update_statement_def sound_def mirrored_def same_identity_def)
qed

lemma move_session_ok:
  assumes "mirrored sec" "(ses_state (rt_session (s_rt sec)), target) \<in> SESSION_TRANSITIONS \<or> ses_state (rt_session (s_rt sec)) = target"
    "same_identity (rt_session (s_rt sec)) (f ((rt_session (s_rt sec))\<lparr>ses_state := target\<rparr>))"
    "ses_state (f ((rt_session (s_rt sec))\<lparr>ses_state := target\<rparr>)) = target"
  shows "\<exists>sec'. move_session target f sec = Inr sec' \<and> s_rt sec' = (s_rt sec)\<lparr>rt_session := f ((rt_session (s_rt sec))\<lparr>ses_state := target\<rparr>)\<rparr> \<and>
      s_controls sec' = s_controls sec \<and> sound sec sec'"
proof -
  have "transition_session (ses_state (rt_session (s_rt sec))) target = Inr target"
    using assms(2) by (auto simp: transition_session_def)
  thus ?thesis using put_session_ok [OF assms(1,3)] assms(2,4) by (auto simp: move_session_def Let_def)
qed

lemma get_statement_ok: "dict_get (rt_statements (s_rt sec)) i = Some x \<Longrightarrow> get_statement i sec = Inr x"
  by (simp add: get_statement_def)

definition moved_statement ::
    "console_statement \<Rightarrow> statement_state \<Rightarrow> int \<Rightarrow> bool option \<Rightarrow> string option \<Rightarrow> string option \<Rightarrow> console_statement" where
  "moved_statement x target now cr code summary = x\<lparr>stm_state := target,
     stm_cancel_requested := (case cr of None \<Rightarrow> stm_cancel_requested x | Some c \<Rightarrow> c), stm_error_code := code, stm_error_summary := summary,
     stm_finished_at := (if target \<in> TERMINAL_STATEMENT_STATES then Some now else stm_finished_at x)\<rparr>"

lemma moved_statement_simps [simp]:
  "stm_id (moved_statement x target now cr code summary) = stm_id x"
  "stm_state (moved_statement x target now cr code summary) = target"
  "same_statement x (moved_statement x target now cr code summary)"
  by (simp_all add: moved_statement_def same_statement_def)

lemma set_statement_state_ok:
  assumes "mirrored sec" "dict_get (rt_statements (s_rt sec)) (stm_id x) = Some x" "(stm_state x, target) \<in> STATEMENT_TRANSITIONS"
  shows "\<exists>sec'. set_statement_state x target now cr code summary sec = Inr sec' \<and>
      s_rt sec' = (s_rt sec)\<lparr>rt_statements := dict_set (rt_statements (s_rt sec)) (stm_id x) (moved_statement x target now cr code summary)\<rparr> \<and>
      s_controls sec' = s_controls sec \<and> sound sec sec'"
proof -
  have "transition_statement (stm_state x) target = Inr target" using assms(3) by (simp add: transition_statement_def)
  thus ?thesis
    using put_statement_ok [OF assms(1), of "moved_statement x target now cr code summary" x] assms(2,3)
    by (auto simp: set_statement_state_def moved_statement_def [symmetric])
qed

end
