(* ===== verification/Broker_Inv.thy ===== *)
theory Broker_Inv
  imports Broker_Sound
begin

text \<open>
  The invariant of a session's runtime and that every critical section keeps it. It ties the state of the session, the program
  counter of its lane, the cancellation flags, the states of its statements and the mailbox accounting to each other; from it no
  transition is illegal, no key is missing and the mailbox never overflows.
\<close>

section \<open>The invariant\<close>

fun lane_running :: "lane \<Rightarrow> string option" where
  "lane_running (Running i) = Some i"
| "lane_running (Streaming i) = Some i"
| "lane_running (Settling i _ _ _ _) = Some i"
| "lane_running _ = None"

fun lane_states :: "lane \<Rightarrow> session_state set" where
  "lane_states Not_started = {CONNECTING}"
| "lane_states Opening = {CONNECTING}"
| "lane_states (Running _) = {EXECUTING, CANCELLING, IDLE, SESSION_LOST}"
| "lane_states (Streaming _) = {EXECUTING, CANCELLING, IDLE, SESSION_LOST}"
| "lane_states (Settling _ _ _ _ _) = {EXECUTING, CANCELLING, IDLE, SESSION_LOST}"
| "lane_states (Closing_connection _) = {CLOSING}"
| "lane_states Ended = {CLOSED, SESSION_LOST, CONNECT_FAILED}"
| "lane_states _ = {IDLE, CANCELLING, SESSION_LOST}"

definition is_some :: "'a option \<Rightarrow> bool" where
  "is_some x \<longleftrightarrow> x \<noteq> None"

lemma is_some_simps [simp]: "is_some (Some x)" "\<not> is_some None"
  by (simp_all add: is_some_def)

definition control_inv :: "session_state \<Rightarrow> lane \<Rightarrow> bool \<Rightarrow> bool \<Rightarrow> string option \<Rightarrow> string option \<Rightarrow> bool" where
  "control_inv s l accepting in_flight cancelled current \<longleftrightarrow>
     (accepting \<longrightarrow> s \<in> {CONNECTING, IDLE, EXECUTING, CANCELLING}) \<and> s \<in> lane_states l \<and>
     (s = EXECUTING \<longrightarrow> \<not> in_flight) \<and> (s = CANCELLING \<longrightarrow> in_flight) \<and>
     (in_flight \<longrightarrow> s \<in> {IDLE, CANCELLING} \<and> is_some cancelled) \<and> (\<not> in_flight \<and> s \<noteq> SESSION_LOST \<longrightarrow> cancelled = None) \<and>
     (current = None \<or> current = lane_running l) \<and> (s = SESSION_LOST \<longrightarrow> current = None)"

abbreviation in_flight_state :: "statement_state \<Rightarrow> bool" where
  "in_flight_state t \<equiv> t = St_executing \<or> t = St_streaming"

definition state_of :: "(string, console_statement) dict \<Rightarrow> string \<Rightarrow> statement_state option" where
  "state_of d i = map_option stm_state (dict_get d i)"

definition statement_inv :: "(string \<Rightarrow> statement_state option) \<Rightarrow> lane \<Rightarrow> string option \<Rightarrow> string option \<Rightarrow> bool" where
  "statement_inv st l cancelled current \<longleftrightarrow>
     (\<forall>i. cancelled = Some i \<longrightarrow> is_some (st i) \<and> st i \<noteq> Some St_accepted) \<and>
     (\<forall>i. current = Some i \<longrightarrow> st i = Some St_executing \<or> st i = Some St_streaming) \<and>
     (\<forall>i. lane_running l = Some i \<longrightarrow> is_some (st i) \<and> st i \<noteq> Some St_accepted) \<and>
     (\<forall>i. st i = Some St_executing \<or> st i = Some St_streaming \<longrightarrow> lane_running l = Some i)"

fun execs :: "lane_command list \<Rightarrow> string list" where
  "execs [] = []"
| "execs (Execute_cmd i # cs) = i # execs cs"
| "execs (Close_cmd _ # cs) = execs cs"

fun lane_taken_ids :: "lane \<Rightarrow> string set" where
  "lane_taken_ids (Taken i) = {i}"
| "lane_taken_ids (Starting i) = {i}"
| "lane_taken_ids _ = {}"

fun lane_owes :: "lane \<Rightarrow> int" where
  "lane_owes (Taken _) = 1"
| "lane_owes _ = 0"

fun lane_target_ok :: "lane \<Rightarrow> bool" where
  "lane_target_ok (Settling _ t _ _ _) = (t \<in> {St_succeeded, St_failed, St_cancelled, St_timeout, St_outcome_unknown})"
| "lane_target_ok _ = True"

fun lane_closing :: "lane \<Rightarrow> bool" where
  "lane_closing (Close_waiting _) = True"
| "lane_closing (Closing_connection _) = True"
| "lane_closing _ = False"

definition box_inv ::
    "(string \<Rightarrow> statement_state option) \<Rightarrow> lane_command list \<Rightarrow> int \<Rightarrow> lane \<Rightarrow> bool \<Rightarrow> string option \<Rightarrow> (string, string) dict \<Rightarrow> bool" where
  "box_inv st box pending l accepting close_pending requests \<longleftrightarrow>
     pending = int (length (execs box)) + lane_owes l \<and>
     (accepting \<longrightarrow> length (execs box) = length box \<and> close_pending = None \<and> \<not> lane_closing l) \<and>
     (\<forall>i \<in> set (execs box) \<union> lane_taken_ids l. is_some (st i)) \<and> (\<forall>q i. dict_get requests q = Some i \<longrightarrow> is_some (st i)) \<and> lane_target_ok l"

abbreviation rt_state :: "runtime \<Rightarrow> session_state" where
  "rt_state rt \<equiv> ses_state (rt_session rt)"

definition rt_inv :: "runtime \<Rightarrow> bool" where
  "rt_inv rt \<longleftrightarrow> distinct (dict_keys (rt_statements rt)) \<and>
     control_inv (rt_state rt) (rt_lane rt) (rt_accepting rt) (rt_cancel_in_flight rt) (rt_cancel_statement_id rt) (rt_current rt) \<and>
     statement_inv (state_of (rt_statements rt)) (rt_lane rt) (rt_cancel_statement_id rt) (rt_current rt) \<and>
     box_inv (state_of (rt_statements rt)) (rt_mailbox rt) (rt_pending_count rt) (rt_lane rt) (rt_accepting rt)
       (rt_close_reason_pending rt) (rt_requests rt)"

definition sec_inv :: "section_state \<Rightarrow> bool" where
  "sec_inv sec \<longleftrightarrow> mirrored sec \<and> rt_inv (s_rt sec) \<and>
     (rt_lane (s_rt sec) \<noteq> Not_started \<longrightarrow> dict_get (s_controls sec) (ses_datasource_id (rt_session (s_rt sec))) \<noteq> None)"

text \<open>A section progresses: it returns, its change is sound and the invariant holds again.\<close>

definition progress :: "section_state \<Rightarrow> section_result \<Rightarrow> bool" where
  "progress sec r \<longleftrightarrow> (\<exists>sec'. r = Inr sec' \<and> sound sec sec' \<and> rt_inv (s_rt sec') \<and> (rt_lane (s_rt sec') \<noteq> Not_started \<longrightarrow> rt_lane (s_rt sec) \<noteq> Not_started))"

lemma progressI:
  "r = Inr sec' \<Longrightarrow> sound sec sec' \<Longrightarrow> rt_inv (s_rt sec') \<Longrightarrow> (rt_lane (s_rt sec') \<noteq> Not_started \<Longrightarrow> rt_lane (s_rt sec) \<noteq> Not_started) \<Longrightarrow> progress sec r"
  by (auto simp: progress_def)

lemma progress_inv: "sec_inv sec \<Longrightarrow> progress sec r \<Longrightarrow> \<exists>sec'. r = Inr sec' \<and> sound sec sec' \<and> sec_inv sec'"
  by (auto simp: progress_def sec_inv_def sound_def same_identity_def controls_grow_def)

lemma state_of_set [simp]: "state_of (dict_set d k v) = (state_of d)(k \<mapsto> stm_state v)"
  by (auto simp: state_of_def)

lemma state_ofI: "dict_get d i = Some x \<Longrightarrow> state_of d i = Some (stm_state x)"
  by (simp add: state_of_def)

lemma state_of_some: "is_some (state_of d i) \<Longrightarrow> \<exists>x. dict_get d i = Some x \<and> state_of d i = Some (stm_state x)"
  by (auto simp: state_of_def is_some_def)

lemma execs_append [simp]: "execs (a @ b) = execs a @ execs b"
  by (induction a rule: execs.induct) auto

lemma execs_length: "length (execs box) \<le> length box"
  by (induction box rule: execs.induct) auto

lemmas inv_defs = rt_inv_def control_inv_def statement_inv_def box_inv_def

lemma sec_invD:
  assumes "sec_inv sec"
  shows "mirrored sec" "rt_inv (s_rt sec)"
    "rt_lane (s_rt sec) \<noteq> Not_started \<Longrightarrow> dict_get (s_controls sec) (ses_datasource_id (rt_session (s_rt sec))) \<noteq> None"
  using assms by (auto simp: sec_inv_def)

text \<open>The statements of a dictionary are stored under their ids.\<close>

lemma mirrored_id: "mirrored sec \<Longrightarrow> dict_get (rt_statements (s_rt sec)) i = Some x \<Longrightarrow> stm_id x = i"
  by (simp add: mirrored_def)

text \<open>A change of the runtime that leaves its session, statements and requests.\<close>

definition local_change :: "runtime \<Rightarrow> runtime \<Rightarrow> bool" where
  "local_change rt rt' \<longleftrightarrow> rt_session rt' = rt_session rt \<and> rt_statements rt' = rt_statements rt \<and> rt_requests rt' = rt_requests rt"

lemma local_change_simps [simp]:
  "local_change rt (rt\<lparr>rt_lane := l\<rparr>)" "local_change rt (rt\<lparr>rt_mailbox := b\<rparr>)" "local_change rt (rt\<lparr>rt_accepting := t\<rparr>)"
  "local_change rt rt"
  by (simp_all add: local_change_def)

lemma sound_change: "sound a b \<Longrightarrow> local_change (s_rt b) rt \<Longrightarrow> sound a (b\<lparr>s_rt := rt\<rparr>)"
  by (rule sound_trans [OF _ sound_local]) (auto simp: local_change_def sound_mirrored)

lemma progress_change:
  "sound a b \<Longrightarrow> r = Inr (b\<lparr>s_rt := rt\<rparr>) \<Longrightarrow> local_change (s_rt b) rt \<Longrightarrow> rt_inv rt \<Longrightarrow> rt_lane (s_rt a) \<noteq> Not_started \<Longrightarrow> progress a r"
  by (rule progressI [OF _ sound_change]) simp_all

lemma sound_event_change: "sound a b \<Longrightarrow> sound a (record_event i ty now b)"
  by (rule sound_trans [OF _ sound_event]) (auto simp: sound_mirrored)

lemma sound_send_change:
  "sound a b \<Longrightarrow> dict_get (s_controls b) ds = Some k \<Longrightarrow> c \<in> {Cancel_cmd (ses_id (rt_session (s_rt b))), Destroy_cmd (ses_id (rt_session (s_rt b)))} \<Longrightarrow>
   sound a (send_control ds c k b)"
  by (rule sound_trans [OF _ sound_send]) (auto simp: sound_mirrored)

lemma record_event_fields [simp]:
  "s_rt (record_event i ty now sec) = s_rt sec" "s_controls (record_event i ty now sec) = s_controls sec"
  by (simp_all add: record_event_def)

lemma send_control_fields [simp]: "s_rt (send_control ds c k sec) = s_rt sec" "s_store (send_control ds c k sec) = s_store sec"
  by (simp_all add: send_control_def)

lemma section_move:
  assumes "sound a sec" "(rt_state (s_rt sec), target) \<in> SESSION_TRANSITIONS"
    "\<And>s. same_identity s (f s)" "\<And>s. ses_state (f s) = ses_state s"
  obtains sec' where "move_session target f sec = Inr sec'"
    "s_rt sec' = (s_rt sec)\<lparr>rt_session := f ((rt_session (s_rt sec))\<lparr>ses_state := target\<rparr>)\<rparr>" "s_controls sec' = s_controls sec" "sound a sec'"
proof -
  have "same_identity (rt_session (s_rt sec)) (f ((rt_session (s_rt sec))\<lparr>ses_state := target\<rparr>))"
    using assms(3) [of "(rt_session (s_rt sec))\<lparr>ses_state := target\<rparr>"] by (simp add: same_identity_def)
  from move_session_ok [where f = f, OF sound_mirrored [OF assms(1)] disjI1 [OF assms(2)] this] assms(4)
  obtain sec' where "move_session target f sec = Inr sec'"
    "s_rt sec' = (s_rt sec)\<lparr>rt_session := f ((rt_session (s_rt sec))\<lparr>ses_state := target\<rparr>)\<rparr>" "s_controls sec' = s_controls sec" "sound sec sec'"
    by auto
  thus ?thesis using that sound_trans [OF assms(1)] by blast
qed

lemma section_statement:
  assumes "sound a sec" "dict_get (rt_statements (s_rt sec)) (stm_id x) = Some x0" "same_statement x0 x"
    "stm_state x0 = stm_state x \<or> (stm_state x0, stm_state x) \<in> STATEMENT_TRANSITIONS"
  obtains sec' where "put_statement x sec = Inr sec'"
    "s_rt sec' = (s_rt sec)\<lparr>rt_statements := dict_set (rt_statements (s_rt sec)) (stm_id x) x\<rparr>" "s_controls sec' = s_controls sec" "sound a sec'"
proof -
  have "(stm_state x0, stm_state x) \<in> STATEMENT_TRANSITIONS\<^sup>*" using assms(4) by auto
  from put_statement_ok [OF sound_mirrored [OF assms(1)] assms(2,3) this] that sound_trans [OF assms(1)] show ?thesis by blast
qed

lemma section_state:
  assumes "sound a sec" "dict_get (rt_statements (s_rt sec)) (stm_id x) = Some x" "(stm_state x, target) \<in> STATEMENT_TRANSITIONS"
  obtains sec' where "set_statement_state x target now cr code summary sec = Inr sec'"
    "s_rt sec' = (s_rt sec)\<lparr>rt_statements := dict_set (rt_statements (s_rt sec)) (stm_id x) (moved_statement x target now cr code summary)\<rparr>"
    "s_controls sec' = s_controls sec" "sound a sec'"
  using set_statement_state_ok [OF sound_mirrored [OF assms(1)] assms(2,3)] that sound_trans [OF assms(1)] by blast

lemma same_identity_updates [simp]:
  "same_identity s (s\<lparr>ses_last_activity_at := n\<rparr>)" "same_identity s (s\<lparr>ses_marker := k, ses_last_activity_at := n\<rparr>)"
  "same_identity s (s\<lparr>ses_error_code := c, ses_closed_at := t, ses_close_reason := r, ses_last_activity_at := n\<rparr>)"
  "same_identity s (s\<lparr>ses_closed_at := t, ses_close_reason := r, ses_error_code := c, ses_last_activity_at := n\<rparr>)"
  "same_identity s (s\<lparr>ses_closed_at := t, ses_close_reason := r, ses_last_activity_at := n\<rparr>)"
  "same_identity s (s\<lparr>ses_server_cancel := v\<rparr>)"
  by (simp_all add: same_identity_def)

section \<open>Opening, taking, closing\<close>

lemma lane_opened_progress:
  assumes "sec_inv sec" "rt_lane (s_rt sec) = Opening"
  shows "progress sec (lane_opened cfg marker now sec)"
proof -
  have m: "mirrored sec" and i: "rt_inv (s_rt sec)" using assms(1) by (auto dest: sec_invD)
  have c: "rt_state (s_rt sec) = CONNECTING" using i assms(2) by (simp add: inv_defs)
  let ?a = "sec\<lparr>s_rt := (s_rt sec)\<lparr>rt_idle_deadline := Some (idle_deadline cfg now)\<rparr>\<rparr>"
  have "sound sec ?a" by (rule sound_change [OF sound_refl [OF m]]) (simp add: local_change_def)
  then obtain sec' where s: "move_session IDLE (\<lambda>s. s\<lparr>ses_marker := Some marker, ses_last_activity_at := now\<rparr>) ?a = Inr sec'"
    "s_rt sec' = (s_rt ?a)\<lparr>rt_session := (rt_session (s_rt sec))\<lparr>ses_state := IDLE, ses_marker := Some marker, ses_last_activity_at := now\<rparr>\<rparr>"
    "sound sec sec'"
    by (rule section_move [where target = IDLE and f = "\<lambda>s. s\<lparr>ses_marker := Some marker, ses_last_activity_at := now\<rparr>"])
      (auto simp: c SESSION_TRANSITIONS_def)
  show ?thesis
    by (rule progress_change [OF s(3), where rt = "(s_rt sec')\<lparr>rt_lane := Waiting\<rparr>"])
      (use i c assms(2) in \<open>auto simp: lane_opened_def s(1,2) inv_defs\<close>)
qed

lemma lane_open_failed_progress:
  assumes "sec_inv sec" "rt_lane (s_rt sec) = Opening"
  shows "progress sec (lane_open_failed code now sec)"
proof -
  have m: "mirrored sec" and i: "rt_inv (s_rt sec)" using assms(1) by (auto dest: sec_invD)
  have c: "rt_state (s_rt sec) = CONNECTING" using i assms(2) by (simp add: inv_defs)
  let ?a = "sec\<lparr>s_rt := (s_rt sec)\<lparr>rt_accepting := False\<rparr>\<rparr>"
  let ?f = "\<lambda>s. s\<lparr>ses_error_code := Some code, ses_closed_at := Some now, ses_close_reason := Some ''connect_failed'', ses_last_activity_at := now\<rparr>"
  have "sound sec ?a" by (rule sound_change [OF sound_refl [OF m]]) simp
  then obtain sec' where s: "move_session CONNECT_FAILED ?f ?a = Inr sec'"
    "s_rt sec' = (s_rt ?a)\<lparr>rt_session := ?f ((rt_session (s_rt sec))\<lparr>ses_state := CONNECT_FAILED\<rparr>)\<rparr>" "sound sec sec'"
    by (rule section_move [where target = CONNECT_FAILED and f = ?f]) (auto simp: c SESSION_TRANSITIONS_def)
  show ?thesis
    by (rule progress_change [OF s(3), where rt = "(s_rt sec')\<lparr>rt_lane := Ended\<rparr>"])
      (use i c assms(2) in \<open>auto simp: lane_open_failed_def s(1,2) inv_defs\<close>)
qed

lemma lane_take_progress:
  assumes "sec_inv sec" "rt_lane (s_rt sec) = Waiting" "rt_mailbox (s_rt sec) \<noteq> []"
  shows "progress sec (Inr (lane_take sec))"
proof -
  have m: "mirrored sec" and i: "rt_inv (s_rt sec)" using assms(1) by (auto dest: sec_invD)
  obtain c cs where c: "rt_mailbox (s_rt sec) = c # cs" using assms(3) by (cases "rt_mailbox (s_rt sec)") auto
  have le: "length (execs cs) \<le> length cs" by (rule execs_length)
  show ?thesis
  proof (cases c)
    case (Execute_cmd j)
    show ?thesis
      by (rule progress_change [OF sound_refl [OF m], where rt = "(s_rt sec)\<lparr>rt_mailbox := cs, rt_lane := Taken j\<rparr>"])
        (use i assms(2) c Execute_cmd in \<open>simp_all add: lane_take_def local_change_def inv_defs\<close>)
  next
    case (Close_cmd r)
    have na: "\<not> rt_accepting (s_rt sec)" using i c le Close_cmd by (auto simp: inv_defs)
    show ?thesis
      by (rule progress_change [OF sound_refl [OF m], where rt = "(s_rt sec)\<lparr>rt_mailbox := cs, rt_lane := Close_waiting (if r = [] then ''user'' else r)\<rparr>"])
        (use i assms(2) c Close_cmd na in \<open>simp_all add: lane_take_def local_change_def inv_defs\<close>)
  qed
qed

lemma lane_taken_progress:
  assumes "sec_inv sec" "rt_lane (s_rt sec) = Taken i"
  shows "progress sec (Inr (lane_taken i sec))"
  by (rule progress_change [OF sound_refl, where rt = "(s_rt sec)\<lparr>rt_pending_count := rt_pending_count (s_rt sec) - 1, rt_lane := Starting i\<rparr>"])
    (use assms in \<open>auto simp: lane_taken_def local_change_def sec_inv_def inv_defs\<close>)

lemma lane_check_close_progress:
  assumes "sec_inv sec" "rt_lane (s_rt sec) = Drained_check"
  shows "progress sec (Inr (lane_check_close sec))"
proof -
  have m: "mirrored sec" and i: "rt_inv (s_rt sec)" using assms(1) by (auto dest: sec_invD)
  consider "lane_check_close sec = set_lane Waiting sec"
    | r where "rt_close_reason_pending (s_rt sec) = Some r"
        "lane_check_close sec = sec\<lparr>s_rt := (s_rt sec)\<lparr>rt_close_reason_pending := None, rt_lane := Close_waiting r\<rparr>\<rparr>"
  proof (cases "rt_close_reason_pending (s_rt sec)")
    case None
    thus ?thesis using that(1) by (simp add: lane_check_close_def)
  next
    case (Some r)
    thus ?thesis using that(1) that(2) [OF Some] by (simp only: lane_check_close_def Some option.case) (metis (full_types))
  qed
  thus ?thesis
  proof cases
    case 1
    show ?thesis
      by (rule progress_change [OF sound_refl [OF m], where rt = "(s_rt sec)\<lparr>rt_lane := Waiting\<rparr>"])
        (use i assms(2) 1 in \<open>simp_all add: local_change_def inv_defs\<close>)
  next
    case (2 r)
    show ?thesis
      by (rule progress_change [OF sound_refl [OF m], where rt = "(s_rt sec)\<lparr>rt_close_reason_pending := None, rt_lane := Close_waiting r\<rparr>"])
        (use i assms(2) 2 in \<open>simp_all add: local_change_def inv_defs\<close>)
  qed
qed

lemma lane_close_begin_progress:
  assumes "sec_inv sec" "rt_lane (s_rt sec) = Close_waiting reason" "\<not> fence_up (s_rt sec)"
  shows "progress sec (lane_close_begin reason now sec)"
proof -
  have m: "mirrored sec" and i: "rt_inv (s_rt sec)" using assms(1) by (auto dest: sec_invD)
  have "rt_state (s_rt sec) \<in> {IDLE, CANCELLING, SESSION_LOST}" and "rt_state (s_rt sec) = CANCELLING \<longrightarrow> rt_cancel_in_flight (s_rt sec)"
    and fl: "rt_cancel_in_flight (s_rt sec) \<longrightarrow> rt_state (s_rt sec) \<in> {IDLE, CANCELLING}"
    using i assms(2) by (auto simp: inv_defs)
  then consider "rt_state (s_rt sec) = SESSION_LOST" | "rt_state (s_rt sec) = IDLE" "\<not> rt_cancel_in_flight (s_rt sec)"
    using assms(3) by (auto simp: fence_up_def ACTIVE_CONSOLE_SESSION_STATES_def)
  thus ?thesis
  proof cases
    case 1
    show ?thesis
      by (rule progress_change [OF sound_refl [OF m], where rt = "(s_rt sec)\<lparr>rt_lane := Ended\<rparr>"])
        (use i assms(2) 1 in \<open>auto simp: lane_close_begin_def inv_defs\<close>)
  next
    case 2
    obtain sec' where s: "move_session CLOSING (\<lambda>s. s\<lparr>ses_last_activity_at := now\<rparr>) sec = Inr sec'"
      "s_rt sec' = (s_rt sec)\<lparr>rt_session := (rt_session (s_rt sec))\<lparr>ses_state := CLOSING, ses_last_activity_at := now\<rparr>\<rparr>" "sound sec sec'"
      by (rule section_move [OF sound_refl [OF m], where target = CLOSING and f = "\<lambda>s. s\<lparr>ses_last_activity_at := now\<rparr>"])
        (auto simp: 2 SESSION_TRANSITIONS_def)
    show ?thesis
      by (rule progress_change [OF s(3), where rt = "(s_rt sec')\<lparr>rt_lane := Closing_connection reason\<rparr>"])
        (use i assms(2) 2 in \<open>auto simp: lane_close_begin_def s(1,2) inv_defs\<close>)
  qed
qed

lemma lane_close_end_progress:
  assumes "sec_inv sec" "rt_lane (s_rt sec) = Closing_connection reason"
  shows "progress sec (lane_close_end reason now sec)"
proof -
  have m: "mirrored sec" and i: "rt_inv (s_rt sec)" using assms(1) by (auto dest: sec_invD)
  have c: "rt_state (s_rt sec) = CLOSING" using i assms(2) by (simp add: inv_defs)
  let ?f = "\<lambda>s. s\<lparr>ses_closed_at := Some now, ses_close_reason := Some reason, ses_last_activity_at := now\<rparr>"
  obtain sec' where s: "move_session CLOSED ?f sec = Inr sec'"
    "s_rt sec' = (s_rt sec)\<lparr>rt_session := ?f ((rt_session (s_rt sec))\<lparr>ses_state := CLOSED\<rparr>)\<rparr>" "sound sec sec'"
    by (rule section_move [OF sound_refl [OF m], where target = CLOSED and f = ?f]) (auto simp: c SESSION_TRANSITIONS_def)
  show ?thesis
    by (rule progress_change [OF s(3), where rt = "(s_rt sec')\<lparr>rt_idle_deadline := None, rt_lane := Ended\<rparr>"])
      (use i c assms(2) in \<open>simp_all add: lane_close_end_def s(1,2) local_change_def inv_defs\<close>)
qed

section \<open>Executing\<close>

text \<open>The parts of the invariant under a change of one statement or of the lane.\<close>

lemma rt_invD:
  assumes "rt_inv rt"
  shows "distinct (dict_keys (rt_statements rt))"
    "control_inv (rt_state rt) (rt_lane rt) (rt_accepting rt) (rt_cancel_in_flight rt) (rt_cancel_statement_id rt) (rt_current rt)"
    "statement_inv (state_of (rt_statements rt)) (rt_lane rt) (rt_cancel_statement_id rt) (rt_current rt)"
    "box_inv (state_of (rt_statements rt)) (rt_mailbox rt) (rt_pending_count rt) (rt_lane rt) (rt_accepting rt) (rt_close_reason_pending rt) (rt_requests rt)"
  using assms by (simp_all add: rt_inv_def)

lemma statement_start:
  "statement_inv st l c cur \<Longrightarrow> lane_running l = None \<Longrightarrow> st i = Some St_accepted \<Longrightarrow> lane_running l' = Some i \<Longrightarrow>
   statement_inv (st(i \<mapsto> St_executing)) l' c (Some i)"
  by (auto simp: statement_inv_def)

lemma statement_stream:
  "statement_inv st l c cur \<Longrightarrow> lane_running l = Some i \<Longrightarrow> lane_running l' = Some i \<Longrightarrow> statement_inv (st(i \<mapsto> St_streaming)) l' c cur"
  by (auto simp: statement_inv_def)

lemma statement_lane: "statement_inv st l c cur \<Longrightarrow> lane_running l' = lane_running l \<Longrightarrow> statement_inv st l' c cur"
  by (simp add: statement_inv_def)

text \<open>The lane is done with its statement when the statement is terminal.\<close>

lemma statement_end:
  "statement_inv st l c cur \<Longrightarrow> lane_running l = Some i \<Longrightarrow> st i \<noteq> Some St_executing \<Longrightarrow> st i \<noteq> Some St_streaming \<Longrightarrow> statement_inv st l c' None \<Longrightarrow>
   lane_running l' = None \<Longrightarrow> statement_inv st l' c' None"
  by (auto simp: statement_inv_def)

lemma statement_settled:
  "statement_inv st l c cur \<Longrightarrow> t \<in> TERMINAL_STATEMENT_STATES \<Longrightarrow> statement_inv (st(i \<mapsto> t)) l c (if cur = Some i then None else cur)"
  by (auto simp: statement_inv_def TERMINAL_STATEMENT_STATES_def)

lemma statement_no_cancel: "statement_inv st l c cur \<Longrightarrow> statement_inv st l None cur"
  by (simp add: statement_inv_def)

lemma statement_no_current: "statement_inv st l c cur \<Longrightarrow> statement_inv st l c None"
  by (simp add: statement_inv_def)

lemma box_update: "box_inv st box p l acc cp rq \<Longrightarrow> box_inv (st(i \<mapsto> t)) box p l acc cp rq"
  by (auto simp: box_inv_def)

lemma box_lane:
  "box_inv st box p l acc cp rq \<Longrightarrow> lane_owes l' = lane_owes l \<Longrightarrow> lane_taken_ids l' \<subseteq> lane_taken_ids l \<Longrightarrow> (lane_closing l' \<Longrightarrow> lane_closing l) \<Longrightarrow>
   lane_target_ok l' \<Longrightarrow> box_inv st box p l' acc cp rq"
  by (auto simp: box_inv_def)

lemma box_refuse: "box_inv st box p l acc cp rq \<Longrightarrow> box_inv st box p l False cp rq"
  by (simp add: box_inv_def)

lemma start_state:
  "control_inv s (Starting i) acc fl c cur \<Longrightarrow> acc \<or> s = IDLE \<or> s = EXECUTING \<Longrightarrow> \<not> (fl \<and> s \<in> ACTIVE_CONSOLE_SESSION_STATES) \<Longrightarrow> s = IDLE \<and> \<not> fl \<and> c = None"
  by (cases s) (auto simp: control_inv_def ACTIVE_CONSOLE_SESSION_STATES_def)

lemma lane_start_progress:
  assumes "sec_inv sec" "rt_lane (s_rt sec) = Starting i" "\<not> fence_up (s_rt sec)"
  shows "progress sec (lane_start i now sec)"
proof -
  have m: "mirrored sec" and inv: "rt_inv (s_rt sec)" using assms(1) by (auto dest: sec_invD)
  obtain x where x: "dict_get (rt_statements (s_rt sec)) i = Some x" and sx: "state_of (rt_statements (s_rt sec)) i = Some (stm_state x)"
    using state_of_some [of "rt_statements (s_rt sec)" i] inv assms(2) by (auto simp: rt_inv_def box_inv_def)
  have id: "stm_id x = i" by (rule mirrored_id [OF m x])
  note g = get_statement_ok [of sec, OF x]
  have skip: "progress sec (Inr (set_lane Drained_check sec))"
    by (rule progress_change [OF sound_refl [OF m], where rt = "(s_rt sec)\<lparr>rt_lane := Drained_check\<rparr>"])
      (use inv assms(2) in \<open>simp_all add: inv_defs\<close>)
  let ?st = "rt_state (s_rt sec)"
  show ?thesis
  proof (cases "stm_state x \<noteq> St_accepted \<or> (\<not> rt_accepting (s_rt sec) \<and> ?st \<notin> {IDLE, EXECUTING})")
    case True
    hence "lane_start i now sec = Inr (set_lane Drained_check sec)" by (auto simp: lane_start_def g)
    thus ?thesis using skip by simp
  next
    case False
    have acc: "stm_state x = St_accepted" using False by simp
    have idle: "?st = IDLE" and nf: "\<not> rt_cancel_in_flight (s_rt sec)"
      using start_state [of ?st i] False rt_invD(2) [OF inv] assms(2,3) by (auto simp: fence_up_def)
    let ?a = "sec\<lparr>s_rt := (s_rt sec)\<lparr>rt_soft_cancel := False, rt_current := Some i,
       rt_statement_deadline := (if stm_timeout_seconds x > 0 then Some (now + stm_timeout_seconds x) else None)\<rparr>\<rparr>"
    let ?x = "x\<lparr>stm_state := St_executing, stm_started_at := Some now\<rparr>"
    have "sound sec ?a" by (rule sound_change [OF sound_refl [OF m]]) (simp add: local_change_def)
    then obtain s1 where s1: "move_session EXECUTING (\<lambda>s. s\<lparr>ses_last_activity_at := now\<rparr>) ?a = Inr s1"
      "s_rt s1 = (s_rt ?a)\<lparr>rt_session := (rt_session (s_rt sec))\<lparr>ses_state := EXECUTING, ses_last_activity_at := now\<rparr>\<rparr>" "sound sec s1"
      by (rule section_move [where target = EXECUTING and f = "\<lambda>s. s\<lparr>ses_last_activity_at := now\<rparr>"])
        (auto simp: idle SESSION_TRANSITIONS_def)
    obtain s2 where s2: "put_statement ?x s1 = Inr s2" "s_rt s2 = (s_rt s1)\<lparr>rt_statements := dict_set (rt_statements (s_rt s1)) i ?x\<rparr>" "sound sec s2"
      by (rule section_statement [OF s1(3), where x = ?x and x0 = x])
        (use x id acc in \<open>auto simp: s1(2) same_statement_def STATEMENT_TRANSITIONS_def\<close>)
    let ?e = "record_event i ''started'' now s2"
    have tr: "transition_statement St_accepted St_executing = Inr St_executing" by (simp add: transition_statement_def STATEMENT_TRANSITIONS_def)
    have run: "lane_start i now sec = Inr (?e\<lparr>s_rt := (s_rt ?e)\<lparr>rt_lane := Running i\<rparr>\<rparr>)"
      by (simp add: lane_start_def g acc tr id idle s1(1) s2(1) Let_def)
    show ?thesis
    proof (rule progress_change [OF sound_event_change [OF s2(3)] run])
      show "rt_inv ((s_rt ?e)\<lparr>rt_lane := Running i\<rparr>)"
        using rt_invD(2) [OF inv] idle nf assms(2) dict_distinct_set [OF rt_invD(1) [OF inv]]
          statement_start [OF rt_invD(3) [OF inv], of i "Running i"] box_update [OF box_lane [OF rt_invD(4) [OF inv], of "Running i"]] sx acc
        by (simp add: rt_inv_def s2(2) s1(2) control_inv_def)
    qed (use assms(2) in simp_all)
  qed
qed

lemma lane_stream_progress:
  assumes "sec_inv sec" "rt_lane (s_rt sec) = Running i"
  shows "progress sec (lane_stream i sec)"
proof -
  have m: "mirrored sec" and inv: "rt_inv (s_rt sec)" using assms(1) by (auto dest: sec_invD)
  obtain x where x: "dict_get (rt_statements (s_rt sec)) i = Some x" and sx: "state_of (rt_statements (s_rt sec)) i = Some (stm_state x)"
    using state_of_some [of "rt_statements (s_rt sec)" i] inv assms(2) by (auto simp: rt_inv_def statement_inv_def)
  have id: "stm_id x = i" by (rule mirrored_id [OF m x])
  note g = get_statement_ok [of sec, OF x]
  show ?thesis
  proof (cases "stm_state x = St_executing")
    case False
    show ?thesis
      by (rule progress_change [OF sound_refl [OF m], where rt = "(s_rt sec)\<lparr>rt_lane := Streaming i\<rparr>"])
        (use inv assms(2) False in \<open>simp_all add: lane_stream_def g inv_defs\<close>)
  next
    case True
    let ?x = "x\<lparr>stm_state := St_streaming\<rparr>"
    obtain s2 where s2: "put_statement ?x sec = Inr s2" "s_rt s2 = (s_rt sec)\<lparr>rt_statements := dict_set (rt_statements (s_rt sec)) i ?x\<rparr>" "sound sec s2"
      by (rule section_statement [OF sound_refl [OF m], where x = ?x and x0 = x])
        (use x id True in \<open>auto simp: same_statement_def STATEMENT_TRANSITIONS_def\<close>)
    have run: "lane_stream i sec = Inr (s2\<lparr>s_rt := (s_rt s2)\<lparr>rt_lane := Streaming i\<rparr>\<rparr>)"
      by (simp add: lane_stream_def g True s2(1) transition_statement_def STATEMENT_TRANSITIONS_def)
    show ?thesis
    proof (rule progress_change [OF s2(3) run])
      show "rt_inv ((s_rt s2)\<lparr>rt_lane := Streaming i\<rparr>)"
        using rt_invD(2) [OF inv] assms(2) dict_distinct_set [OF rt_invD(1) [OF inv]]
          statement_stream [OF rt_invD(3) [OF inv], of i "Streaming i"] box_update [OF box_lane [OF rt_invD(4) [OF inv], of "Streaming i"]]
        by (simp add: rt_inv_def s2(2) control_inv_def)
    qed (use assms(2) in simp_all)
  qed
qed

lemma outcome_state_ok: "outcome_state x reason out = (t, code, summary, lost) \<Longrightarrow> t \<in> {St_succeeded, St_failed, St_cancelled, St_timeout, St_outcome_unknown}"
  by (auto simp: outcome_state_def lost_outcome_def Let_def split: driver_outcome.splits if_splits)

lemma lane_outcome_progress:
  assumes "sec_inv sec" "rt_lane (s_rt sec) = Running i \<or> rt_lane (s_rt sec) = Streaming i"
  shows "progress sec (lane_outcome i out sec)"
proof -
  have m: "mirrored sec" and inv: "rt_inv (s_rt sec)" using assms(1) by (auto dest: sec_invD)
  have run: "lane_running (rt_lane (s_rt sec)) = Some i" "lane_states (rt_lane (s_rt sec)) = {EXECUTING, CANCELLING, IDLE, SESSION_LOST}"
    "lane_owes (rt_lane (s_rt sec)) = 0" "lane_taken_ids (rt_lane (s_rt sec)) = {}" "\<not> lane_closing (rt_lane (s_rt sec))"
    using assms(2) by auto
  obtain x where x: "dict_get (rt_statements (s_rt sec)) i = Some x"
    using state_of_some [of "rt_statements (s_rt sec)" i] inv run(1) by (auto simp: rt_inv_def statement_inv_def)
  obtain t code summary lost where o: "outcome_state x (rt_cancel_reason (s_rt sec)) out = (t, code, summary, lost)"
    by (cases "outcome_state x (rt_cancel_reason (s_rt sec)) out")
  note t = outcome_state_ok [OF o]
  show ?thesis
  proof (rule progress_change [OF sound_refl [OF m]])
    show "lane_outcome i out sec = Inr (sec\<lparr>s_rt := (s_rt sec)\<lparr>rt_cancel_confirmed := rt_cancel_confirmed (s_rt sec) \<or> confirms_cancel out,
        rt_lane := Settling i t code summary lost\<rparr>\<rparr>)"
      by (simp add: lane_outcome_def get_statement_ok [OF x] o)
    show "rt_inv ((s_rt sec)\<lparr>rt_cancel_confirmed := rt_cancel_confirmed (s_rt sec) \<or> confirms_cancel out, rt_lane := Settling i t code summary lost\<rparr>)"
      using inv run t unfolding rt_inv_def by (simp add: control_inv_def statement_inv_def box_inv_def)
  qed (use assms(2) in \<open>auto simp: local_change_def\<close>)
qed

section \<open>Losing a session and settling a cancellation\<close>

definition lost_rt :: "string \<Rightarrow> int \<Rightarrow> runtime \<Rightarrow> runtime" where
  "lost_rt reason now rt =
     (if rt_state rt = SESSION_LOST then rt
      else rt\<lparr>rt_accepting := False, rt_cancel_in_flight := False, rt_session := (rt_session rt)\<lparr>ses_state := SESSION_LOST, ses_closed_at := Some now,
        ses_close_reason := Some reason, ses_error_code := Some reason, ses_last_activity_at := now\<rparr>, rt_idle_deadline := None\<rparr>)"

lemma lose_session_ok:
  assumes "sound a sec" "rt_state (s_rt sec) \<in> {IDLE, EXECUTING, CANCELLING, SESSION_LOST}"
  obtains sec' where "lose_session reason now sec = Inr sec'" "s_rt sec' = lost_rt reason now (s_rt sec)" "s_controls sec' = s_controls sec" "sound a sec'"
proof (cases "rt_state (s_rt sec) = SESSION_LOST")
  case True
  thus ?thesis using that [of sec] assms(1) by (simp add: lose_session_def lost_rt_def)
next
  case False
  let ?a = "sec\<lparr>s_rt := (s_rt sec)\<lparr>rt_accepting := False, rt_cancel_in_flight := False\<rparr>\<rparr>"
  let ?f = "\<lambda>s. s\<lparr>ses_closed_at := Some now, ses_close_reason := Some reason, ses_error_code := Some reason, ses_last_activity_at := now\<rparr>"
  have "sound a ?a" by (rule sound_change [OF assms(1)]) (simp add: local_change_def)
  then obtain s1 where s1: "move_session SESSION_LOST ?f ?a = Inr s1"
    "s_rt s1 = (s_rt ?a)\<lparr>rt_session := ?f ((rt_session (s_rt sec))\<lparr>ses_state := SESSION_LOST\<rparr>)\<rparr>" "s_controls s1 = s_controls sec" "sound a s1"
    by (rule section_move [where target = SESSION_LOST and f = ?f]) (use assms(2) False in \<open>auto simp: SESSION_TRANSITIONS_def\<close>)
  have "sound a (s1\<lparr>s_rt := (s_rt s1)\<lparr>rt_idle_deadline := None\<rparr>\<rparr>)" by (rule sound_change [OF s1(4)]) (simp add: local_change_def)
  thus ?thesis using that [of "s1\<lparr>s_rt := (s_rt s1)\<lparr>rt_idle_deadline := None\<rparr>\<rparr>"] False by (simp add: lose_session_def s1 lost_rt_def)
qed

definition settled_rt :: "broker_config \<Rightarrow> string \<Rightarrow> bool \<Rightarrow> int \<Rightarrow> runtime \<Rightarrow> runtime" where
  "settled_rt cfg i fin now rt =
     (if \<not> rt_cancel_in_flight rt \<or> rt_cancel_statement_id rt \<noteq> Some i then rt
      else if \<not> rt_cancel_confirmed rt \<and> \<not> (rt_cancel_control_done rt \<and> fin) then rt\<lparr>rt_cancel_statement_done := fin\<rparr>
      else
        (let rt = rt\<lparr>rt_cancel_statement_done := fin, rt_cancel_in_flight := False, rt_cancel_statement_id := None, rt_cancel_reason := None,
               rt_cancel_grace_deadline := None, rt_cancel_destroy_sent := False, rt_soft_cancel := False\<rparr>
         in if rt_state rt = CANCELLING
            then rt\<lparr>rt_session := (rt_session rt)\<lparr>ses_state := IDLE, ses_last_activity_at := now\<rparr>, rt_idle_deadline := Some (idle_deadline cfg now)\<rparr>
            else rt))"

lemma settle_ok:
  assumes "sound a sec" "dict_get (rt_statements (s_rt sec)) i = Some x"
  obtains sec' where "settle_cancel_fence cfg i now sec = Inr sec'"
    "s_rt sec' = settled_rt cfg i (stm_state x \<in> TERMINAL_STATEMENT_STATES) now (s_rt sec)" "s_controls sec' = s_controls sec" "sound a sec'"
proof -
  let ?fin = "stm_state x \<in> TERMINAL_STATEMENT_STATES"
  let ?b = "(s_rt sec)\<lparr>rt_cancel_statement_done := ?fin\<rparr>"
  let ?c = "?b\<lparr>rt_cancel_in_flight := False, rt_cancel_statement_id := None, rt_cancel_reason := None,
               rt_cancel_grace_deadline := None, rt_cancel_destroy_sent := False, rt_soft_cancel := False\<rparr>"
  note g = get_statement_ok [of sec, OF assms(2)]
  have sb: "sound a (sec\<lparr>s_rt := ?b\<rparr>)" by (rule sound_change [OF assms(1)]) (simp add: local_change_def)
  have sc: "sound a (sec\<lparr>s_rt := ?c\<rparr>)" by (rule sound_change [OF assms(1)]) (simp add: local_change_def)
  let ?d = "sec\<lparr>s_rt := ?c\<lparr>rt_idle_deadline := Some (idle_deadline cfg now)\<rparr>\<rparr>"
  have sd: "sound a ?d" by (rule sound_change [OF assms(1)]) (simp add: local_change_def)
  consider "\<not> rt_cancel_in_flight (s_rt sec) \<or> rt_cancel_statement_id (s_rt sec) \<noteq> Some i"
    | "rt_cancel_in_flight (s_rt sec)" "rt_cancel_statement_id (s_rt sec) = Some i"
      "\<not> rt_cancel_confirmed (s_rt sec) \<and> \<not> (rt_cancel_control_done (s_rt sec) \<and> ?fin)"
    | "rt_cancel_in_flight (s_rt sec)" "rt_cancel_statement_id (s_rt sec) = Some i"
      "\<not> (\<not> rt_cancel_confirmed (s_rt sec) \<and> \<not> (rt_cancel_control_done (s_rt sec) \<and> ?fin))" "rt_state (s_rt sec) \<noteq> CANCELLING"
    | "rt_cancel_in_flight (s_rt sec)" "rt_cancel_statement_id (s_rt sec) = Some i"
      "\<not> (\<not> rt_cancel_confirmed (s_rt sec) \<and> \<not> (rt_cancel_control_done (s_rt sec) \<and> ?fin))" "rt_state (s_rt sec) = CANCELLING"
    by blast
  thus ?thesis
  proof cases
    case 1
    thus ?thesis using that [of sec] assms(1) by (simp add: settle_cancel_fence_def settled_rt_def)
  next
    case 2
    show ?thesis by (rule that [OF _ _ _ sb]) (simp_all add: settle_cancel_fence_def settled_rt_def g Let_def 2)
  next
    case 3
    have r: "(\<not> rt_cancel_confirmed (s_rt sec) \<and> \<not> (rt_cancel_control_done (s_rt sec) \<and> ?fin)) = False" using 3(3) by blast
    show ?thesis by (rule that [OF _ _ _ sc]) (simp_all add: settle_cancel_fence_def settled_rt_def g Let_def 3(1,2,4) r del: de_Morgan_conj)
  next
    case 4
    from sd obtain s1 where s1: "move_session IDLE (\<lambda>s. s\<lparr>ses_last_activity_at := now\<rparr>) ?d = Inr s1"
      "s_rt s1 = (s_rt ?d)\<lparr>rt_session := (rt_session (s_rt sec))\<lparr>ses_state := IDLE, ses_last_activity_at := now\<rparr>\<rparr>" "s_controls s1 = s_controls sec" "sound a s1"
      by (rule section_move [where target = IDLE and f = "\<lambda>s. s\<lparr>ses_last_activity_at := now\<rparr>"]) (auto simp: 4 SESSION_TRANSITIONS_def)
    have r: "(\<not> rt_cancel_confirmed (s_rt sec) \<and> \<not> (rt_cancel_control_done (s_rt sec) \<and> ?fin)) = False" using 4(3) by blast
    show ?thesis
      by (rule that [OF _ _ s1(3,4)]) (simp_all add: settle_cancel_fence_def settled_rt_def g Let_def 4(1,2,4) r s1(1,2) del: de_Morgan_conj)
  qed
qed

lemma settled_rt_fields [simp]:
  "rt_statements (settled_rt cfg i fin now rt) = rt_statements rt" "rt_lane (settled_rt cfg i fin now rt) = rt_lane rt"
  "rt_requests (settled_rt cfg i fin now rt) = rt_requests rt" "rt_mailbox (settled_rt cfg i fin now rt) = rt_mailbox rt"
  "rt_pending_count (settled_rt cfg i fin now rt) = rt_pending_count rt" "rt_accepting (settled_rt cfg i fin now rt) = rt_accepting rt"
  "rt_close_reason_pending (settled_rt cfg i fin now rt) = rt_close_reason_pending rt" "rt_current (settled_rt cfg i fin now rt) = rt_current rt"
  by (simp_all add: settled_rt_def Let_def)

lemma control_settle:
  "control_inv s l acc True c cur \<Longrightarrow> control_inv (if s = CANCELLING then IDLE else s) l acc False None cur"
  by (cases s; cases l) (auto simp: control_inv_def)

lemma settled_inv:
  assumes "rt_inv rt"
  shows "rt_inv (settled_rt cfg i fin now rt)"
proof -
  let ?r = "settled_rt cfg i fin now rt"
  consider "rt_state ?r = rt_state rt" "rt_cancel_in_flight ?r = rt_cancel_in_flight rt" "rt_cancel_statement_id ?r = rt_cancel_statement_id rt"
    | "rt_cancel_in_flight rt" "rt_state ?r = (if rt_state rt = CANCELLING then IDLE else rt_state rt)" "\<not> rt_cancel_in_flight ?r"
      "rt_cancel_statement_id ?r = None"
  proof (cases "\<not> rt_cancel_in_flight rt \<or> rt_cancel_statement_id rt \<noteq> Some i \<or> (\<not> rt_cancel_confirmed rt \<and> \<not> (rt_cancel_control_done rt \<and> fin))")
    case True
    thus ?thesis by (intro that(1)) (auto simp: settled_rt_def)
  next
    case False
    thus ?thesis by (intro that(2)) (auto simp: settled_rt_def Let_def)
  qed
  thus ?thesis
  proof cases
    case 1
    thus ?thesis using assms by (simp add: rt_inv_def)
  next
    case 2
    have "control_inv (rt_state rt) (rt_lane rt) (rt_accepting rt) True (rt_cancel_statement_id rt) (rt_current rt)"
      using rt_invD(2) [OF assms] 2(1) by simp
    from control_settle [OF this] statement_no_cancel [OF rt_invD(3) [OF assms]] rt_invD(1,4) [OF assms] show ?thesis
      unfolding rt_inv_def by (simp add: 2(2-4))
  qed
qed

lemma control_lose:
  "control_inv s l acc fl c None \<Longrightarrow> SESSION_LOST \<in> lane_states l \<Longrightarrow> control_inv SESSION_LOST l False False c None"
  by (simp add: control_inv_def)

lemma lost_rt_fields [simp]:
  "rt_statements (lost_rt reason now rt) = rt_statements rt" "rt_lane (lost_rt reason now rt) = rt_lane rt"
  "rt_requests (lost_rt reason now rt) = rt_requests rt" "rt_mailbox (lost_rt reason now rt) = rt_mailbox rt"
  "rt_pending_count (lost_rt reason now rt) = rt_pending_count rt" "rt_cancel_statement_id (lost_rt reason now rt) = rt_cancel_statement_id rt"
  "rt_close_reason_pending (lost_rt reason now rt) = rt_close_reason_pending rt" "rt_current (lost_rt reason now rt) = rt_current rt"
  "rt_state (lost_rt reason now rt) = SESSION_LOST"
  by (simp_all add: lost_rt_def)

lemma lost_inv:
  assumes "rt_inv (rt\<lparr>rt_current := None, rt_statement_deadline := d\<rparr>)" "SESSION_LOST \<in> lane_states (rt_lane rt)"
  shows "rt_inv ((lost_rt reason now rt)\<lparr>rt_current := None, rt_statement_deadline := d'\<rparr>)"
proof (cases "rt_state rt = SESSION_LOST")
  case True
  thus ?thesis using assms by (simp add: lost_rt_def rt_inv_def)
next
  case False
  have "rt_accepting (lost_rt reason now rt) = False" "rt_cancel_in_flight (lost_rt reason now rt) = False" using False by (simp_all add: lost_rt_def)
  thus ?thesis
    using rt_invD [OF assms(1)] control_lose [OF _ assms(2)] box_refuse unfolding rt_inv_def by auto
qed

lemma terminal_or_in_flight: "t \<noteq> St_accepted \<Longrightarrow> t \<notin> TERMINAL_STATEMENT_STATES \<Longrightarrow> t = St_executing \<or> t = St_streaming"
  by (cases t) (auto simp: TERMINAL_STATEMENT_STATES_def)

lemma end_states:
  "t \<in> {St_succeeded, St_failed, St_cancelled, St_timeout, St_outcome_unknown} \<Longrightarrow> t \<in> TERMINAL_STATEMENT_STATES"
  "t \<in> {St_succeeded, St_failed, St_cancelled, St_timeout, St_outcome_unknown} \<Longrightarrow> u = St_executing \<or> u = St_streaming \<Longrightarrow>
   (u, t) \<in> STATEMENT_TRANSITIONS"
  by (auto simp: TERMINAL_STATEMENT_STATES_def STATEMENT_TRANSITIONS_def)

text \<open>Ending the statement of a running lane, or a statement being cancelled.\<close>

lemma settle_statement:
  assumes "mirrored sec" "rt_inv (s_rt sec)" "dict_get (rt_statements (s_rt sec)) i = Some x" "stm_state x \<noteq> St_accepted"
    and "t \<in> {St_succeeded, St_failed, St_cancelled, St_timeout, St_outcome_unknown}"
  obtains s1 y where "(if stm_state x \<notin> TERMINAL_STATEMENT_STATES then set_statement_state x t now None code summary sec else Inr sec) = Inr s1"
    "s_rt s1 = (s_rt sec)\<lparr>rt_statements := rt_statements (s_rt s1)\<rparr>" "s_controls s1 = s_controls sec" "sound sec s1"
    "dict_get (rt_statements (s_rt s1)) i = Some y" "stm_state y \<in> TERMINAL_STATEMENT_STATES"
    "rt_inv ((s_rt s1)\<lparr>rt_current := (if rt_current (s_rt sec) = Some i then None else rt_current (s_rt sec))\<rparr>)"
proof (cases "stm_state x \<in> TERMINAL_STATEMENT_STATES")
  case True
  have "rt_current (s_rt sec) \<noteq> Some i"
    using rt_invD(3) [OF assms(2)] state_ofI [OF assms(3)] True by (auto simp: statement_inv_def TERMINAL_STATEMENT_STATES_def)
  moreover have "(s_rt sec)\<lparr>rt_current := rt_current (s_rt sec)\<rparr> = s_rt sec" by simp
  ultimately show ?thesis using that [of sec x] True assms(1-3) by (simp add: sound_refl)
next
  case False
  have id: "stm_id x = i" by (rule mirrored_id [OF assms(1,3)])
  have fl: "stm_state x = St_executing \<or> stm_state x = St_streaming" using terminal_or_in_flight assms(4) False by blast
  obtain s1 where s1: "set_statement_state x t now None code summary sec = Inr s1"
    "s_rt s1 = (s_rt sec)\<lparr>rt_statements := dict_set (rt_statements (s_rt sec)) i (moved_statement x t now None code summary)\<rparr>"
    "s_controls s1 = s_controls sec" "sound sec s1"
    using section_state [OF sound_refl [OF assms(1)], of x t] assms(3) id end_states(2) [OF assms(5) fl] by metis
  have inv: "rt_inv ((s_rt s1)\<lparr>rt_current := (if rt_current (s_rt sec) = Some i then None else rt_current (s_rt sec))\<rparr>)"
    using dict_distinct_set [OF rt_invD(1) [OF assms(2)]] rt_invD(2) [OF assms(2)]
      statement_settled [OF rt_invD(3) [OF assms(2)] end_states(1) [OF assms(5)]] box_update [OF rt_invD(4) [OF assms(2)]]
    by (simp add: rt_inv_def s1(2) control_inv_def)
  show ?thesis
    by (rule that [of s1 "moved_statement x t now None code summary"]) (use False s1 inv end_states(1) [OF assms(5)] in \<open>simp_all\<close>)
qed

lemma rt_inv_deadline: "rt_inv (rt\<lparr>rt_statement_deadline := d\<rparr>) = rt_inv rt"
  by (simp add: rt_inv_def)

lemma lane_finish_progress:
  assumes "sec_inv sec" "rt_lane (s_rt sec) = Settling i t code summary lost"
  shows "progress sec (lane_finish cfg i t code summary lost now sec)"
proof -
  have m: "mirrored sec" and inv: "rt_inv (s_rt sec)" using assms(1) by (auto dest: sec_invD)
  obtain x where x: "dict_get (rt_statements (s_rt sec)) i = Some x" and sx: "stm_state x \<noteq> St_accepted"
    using state_of_some [of "rt_statements (s_rt sec)" i] rt_invD(3) [OF inv] assms(2) by (auto simp: statement_inv_def)
  have t: "t \<in> {St_succeeded, St_failed, St_cancelled, St_timeout, St_outcome_unknown}" using rt_invD(4) [OF inv] assms(2) by (simp add: box_inv_def)
  have cur: "rt_current (s_rt sec) = None \<or> rt_current (s_rt sec) = Some i" using rt_invD(2) [OF inv] assms(2) by (simp add: control_inv_def)
  obtain s1 y where s1: "(if stm_state x \<notin> TERMINAL_STATEMENT_STATES then set_statement_state x t now None code summary sec else Inr sec) = Inr s1"
    and r1: "s_rt s1 = (s_rt sec)\<lparr>rt_statements := rt_statements (s_rt s1)\<rparr>" and so1: "sound sec s1"
    and y: "dict_get (rt_statements (s_rt s1)) i = Some y" "stm_state y \<in> TERMINAL_STATEMENT_STATES"
    and i1: "rt_inv ((s_rt s1)\<lparr>rt_current := (if rt_current (s_rt sec) = Some i then None else rt_current (s_rt sec))\<rparr>)"
    using settle_statement [OF m inv x sx t] by metis
  have f1: "rt_lane (s_rt s1) = rt_lane (s_rt sec)" "rt_current (s_rt s1) = rt_current (s_rt sec)" "rt_session (s_rt s1) = rt_session (s_rt sec)"
    by (subst r1, simp)+
  have i1': "rt_inv ((s_rt s1)\<lparr>rt_current := None, rt_statement_deadline := d\<rparr>)" for d
    using i1 cur by (auto simp: rt_inv_def)
  define s1' where "s1' = (if stm_state x \<notin> TERMINAL_STATEMENT_STATES then record_event i ''terminal'' now s1 else s1)"
  have s1': "s_rt s1' = s_rt s1" "sound sec s1'" by (simp_all add: s1'_def so1 sound_event_change)
  have e1: "(if stm_state x \<notin> TERMINAL_STATEMENT_STATES
      then rbind (set_statement_state x t now None code summary sec) (\<lambda>sec. Inr (record_event i ''terminal'' now sec)) else Inr sec) = Inr s1'"
    using s1 by (auto simp: s1'_def split: if_splits)
  have st: "rt_state (s_rt s1') \<in> {IDLE, EXECUTING, CANCELLING, SESSION_LOST}" using rt_invD(2) [OF inv] assms(2) by (auto simp: control_inv_def s1' f1)
  obtain s2 where s2: "(if lost then lose_session ''connection_dead'' now s1' else Inr s1') = Inr s2"
    "s_rt s2 = (if lost then lost_rt ''connection_dead'' now (s_rt s1) else s_rt s1)" "sound sec s2"
  proof (cases lost)
    case True
    show ?thesis by (rule lose_session_ok [OF s1'(2) st, of "''connection_dead''" now]) (rule that, simp_all add: True s1'(1))
  next
    case False
    show ?thesis by (rule that [of s1']) (simp_all add: False s1')
  qed
  have f2: "rt_lane (s_rt s2) = rt_lane (s_rt sec)" "rt_current (s_rt s2) = rt_current (s_rt sec)" "rt_statements (s_rt s2) = rt_statements (s_rt s1)"
    using s2(2) f1 by simp_all
  obtain d where d: "(if rt_current (s_rt s2) = Some i then s2\<lparr>s_rt := (s_rt s2)\<lparr>rt_current := None, rt_statement_deadline := None\<rparr>\<rparr> else s2)
      = s2\<lparr>s_rt := (s_rt s2)\<lparr>rt_current := None, rt_statement_deadline := d\<rparr>\<rparr>"
    using cur f2(2) that [of None] that [of "rt_statement_deadline (s_rt s2)"] by (cases "rt_current (s_rt s2)") auto
  let ?s3 = "s2\<lparr>s_rt := (s_rt s2)\<lparr>rt_current := None, rt_statement_deadline := d\<rparr>\<rparr>"
  have i3: "rt_inv (s_rt ?s3)" using s2(2) i1' lost_inv [OF i1'] f1(1) assms(2) by (cases lost) auto
  have so3: "sound sec ?s3" by (rule sound_change [OF s2(3)]) (simp add: local_change_def)
  have y3: "dict_get (rt_statements (s_rt ?s3)) i = Some y" using y(1) f2(3) by simp
  obtain s4 where s4: "settle_cancel_fence cfg i now ?s3 = Inr s4" "s_rt s4 = settled_rt cfg i True now (s_rt ?s3)" "sound sec s4"
    using settle_ok [OF so3 y3] y(2) by metis
  have i4: "rt_inv (s_rt s4)" unfolding s4(2) by (rule settled_inv [OF i3])
  have l4: "rt_lane (s_rt s4) = Settling i t code summary lost" "rt_current (s_rt s4) = None" "rt_statements (s_rt s4) = rt_statements (s_rt s1)"
    using assms(2) f2 by (simp_all add: s4(2))
  have end4: "statement_inv (state_of (rt_statements (s_rt s4))) Drained_check (rt_cancel_statement_id (s_rt s4)) None"
    by (rule statement_end [OF rt_invD(3) [OF i4], of i])
      (use l4 state_ofI [OF y(1)] y(2) rt_invD(3) [OF i4] in \<open>auto simp: TERMINAL_STATEMENT_STATES_def\<close>)
  have box4: "box_inv (state_of (rt_statements (s_rt s4))) (rt_mailbox (s_rt s4)) (rt_pending_count (s_rt s4)) Drained_check (rt_accepting (s_rt s4))
      (rt_close_reason_pending (s_rt s4)) (rt_requests (s_rt s4))"
    by (rule box_lane [OF rt_invD(4) [OF i4]]) (use l4 in simp_all)
  have run: "lane_finish cfg i t code summary lost now sec =
      rbind (if \<not> rt_cancel_in_flight (s_rt s4) \<and> rt_state (s_rt s4) \<in> {EXECUTING, CANCELLING}
            then move_session IDLE (\<lambda>s. s\<lparr>ses_last_activity_at := now\<rparr>)
                   (s4\<lparr>s_rt := (s_rt s4)\<lparr>rt_idle_deadline := Some (idle_deadline cfg now)\<rparr>\<rparr>)
            else Inr s4) (\<lambda>sec. Inr (set_lane Drained_check sec))"
    unfolding lane_finish_def get_statement_ok [OF x] rbind_simps e1 s2(1) Let_def d s4(1) ..
  show ?thesis
  proof (cases "rt_state (s_rt s4) = EXECUTING")
    case True
    have nf: "\<not> rt_cancel_in_flight (s_rt s4)" using rt_invD(2) [OF i4] True by (simp add: control_inv_def)
    let ?a = "s4\<lparr>s_rt := (s_rt s4)\<lparr>rt_idle_deadline := Some (idle_deadline cfg now)\<rparr>\<rparr>"
    have "sound sec ?a" by (rule sound_change [OF s4(3)]) (simp add: local_change_def)
    then obtain s5 where s5: "move_session IDLE (\<lambda>s. s\<lparr>ses_last_activity_at := now\<rparr>) ?a = Inr s5"
      "s_rt s5 = (s_rt ?a)\<lparr>rt_session := (rt_session (s_rt s4))\<lparr>ses_state := IDLE, ses_last_activity_at := now\<rparr>\<rparr>" "sound sec s5"
      by (rule section_move [where target = IDLE and f = "\<lambda>s. s\<lparr>ses_last_activity_at := now\<rparr>"]) (auto simp: True SESSION_TRANSITIONS_def)
    show ?thesis
      by (rule progress_change [OF s5(3), where rt = "(s_rt s5)\<lparr>rt_lane := Drained_check\<rparr>"])
        (use assms(2) True nf end4 box4 rt_invD(1,2) [OF i4] l4 in \<open>simp_all add: run s5(1,2) rt_inv_def control_inv_def\<close>)
  next
    case False
    hence no: "\<not> (\<not> rt_cancel_in_flight (s_rt s4) \<and> rt_state (s_rt s4) \<in> {EXECUTING, CANCELLING})"
      using rt_invD(2) [OF i4] by (auto simp: control_inv_def)
    have run': "lane_finish cfg i t code summary lost now sec = Inr (s4\<lparr>s_rt := (s_rt s4)\<lparr>rt_lane := Drained_check\<rparr>\<rparr>)"
      unfolding run if_not_P [OF no] rbind_simps ..
    have "control_inv (rt_state (s_rt s4)) Drained_check (rt_accepting (s_rt s4)) (rt_cancel_in_flight (s_rt s4)) (rt_cancel_statement_id (s_rt s4)) None"
      using rt_invD(2) [OF i4] False l4 by (auto simp: control_inv_def)
    thus ?thesis
      by (intro progress_change [OF s4(3) run']) (use assms(2) end4 box4 rt_invD(1) [OF i4] l4 in \<open>simp_all add: rt_inv_def\<close>)
  qed
qed

section \<open>Cancelling and closing\<close>

definition same_box :: "runtime \<Rightarrow> runtime \<Rightarrow> bool" where
  "same_box rt rt' \<longleftrightarrow> rt_mailbox rt' = rt_mailbox rt \<and> rt_pending_count rt' = rt_pending_count rt \<and> rt_accepting rt' = rt_accepting rt \<and>
     rt_close_reason_pending rt' = rt_close_reason_pending rt \<and> rt_lane rt' = rt_lane rt \<and> rt_current rt' = rt_current rt"

lemma same_box_refl [simp]: "same_box rt rt"
  by (simp add: same_box_def)

lemma same_box_trans: "same_box a b \<Longrightarrow> same_box b c \<Longrightarrow> same_box a c"
  by (simp add: same_box_def)

lemma control_cancel:
  "control_inv s l acc False c (Some i) \<Longrightarrow> control_inv (if s = EXECUTING then CANCELLING else s) l acc True (Some i) (Some i)"
  by (cases s; cases l) (auto simp: control_inv_def)

lemma statement_cancel:
  "statement_inv st l c (Some i) \<Longrightarrow> statement_inv st l (Some i) (Some i)"
  by (auto simp: statement_inv_def)

lemma begin_cancel_ok:
  assumes "sec_inv sec" "rt_current (s_rt sec) = Some i" "dict_get (rt_statements (s_rt sec)) i = Some x"
  obtains sec' where "begin_cancel cfg x reason now sec = Inr sec'" "sound sec sec'" "rt_inv (s_rt sec')" "same_box (s_rt sec) (s_rt sec')"
proof (cases "rt_cancel_in_flight (s_rt sec)")
  case True
  thus ?thesis using that [of sec] assms(1) by (simp add: begin_cancel_def sec_inv_def sound_refl)
next
  case False
  have m: "mirrored sec" and inv: "rt_inv (s_rt sec)" using assms(1) by (auto dest: sec_invD)
  have id: "stm_id x = i" by (rule mirrored_id [OF m assms(3)])
  have run: "lane_running (rt_lane (s_rt sec)) = Some i" using rt_invD(2) [OF inv] assms(2) by (simp add: control_inv_def)
  let ?a = "sec\<lparr>s_rt := (s_rt sec)\<lparr>rt_cancel_in_flight := True, rt_cancel_statement_id := Some i, rt_cancel_reason := Some reason,
     rt_cancel_control_done := False, rt_cancel_statement_done := False, rt_cancel_confirmed := False, rt_cancel_destroy_sent := False,
     rt_cancel_grace_deadline := Some (now + cfg_cancel_grace_seconds cfg), rt_soft_cancel := True\<rparr>\<rparr>"
  let ?x = "x\<lparr>stm_cancel_requested := True\<rparr>"
  have "sound sec ?a" by (rule sound_change [OF sound_refl [OF m]]) (simp add: local_change_def)
  then obtain s1 where s1: "put_statement ?x ?a = Inr s1" "s_rt s1 = (s_rt ?a)\<lparr>rt_statements := dict_set (rt_statements (s_rt sec)) i ?x\<rparr>"
    "s_controls s1 = s_controls sec" "sound sec s1"
    by (rule section_statement [where x = ?x and x0 = x]) (use assms(3) id in \<open>auto simp: same_statement_def\<close>)
  let ?f = "\<lambda>s. s\<lparr>ses_last_activity_at := now\<rparr>"
  obtain s2 where s2: "(if rt_state (s_rt s1) = EXECUTING then move_session CANCELLING ?f s1 else Inr s1) = Inr s2"
    "s_rt s2 = (if rt_state (s_rt sec) = EXECUTING then (s_rt s1)\<lparr>rt_session := ?f ((rt_session (s_rt sec))\<lparr>ses_state := CANCELLING\<rparr>)\<rparr> else s_rt s1)"
    "s_controls s2 = s_controls sec" "sound sec s2"
  proof (cases "rt_state (s_rt sec) = EXECUTING")
    case True
    show ?thesis
      by (rule section_move [OF s1(4), where target = CANCELLING and f = ?f])
        (auto intro!: that simp: s1(2,3) True SESSION_TRANSITIONS_def)
  next
    case False
    show ?thesis by (rule that [of s1]) (simp_all add: s1 False)
  qed
  have ds: "ses_datasource_id (rt_session (s_rt s2)) = ses_datasource_id (rt_session (s_rt sec))" by (simp add: s2(2) s1(2))
  obtain k where k: "dict_get (s_controls sec) (ses_datasource_id (rt_session (s_rt sec))) = Some k"
    using sec_invD(3) [OF assms(1)] run by fastforce
  have st: "(state_of (rt_statements (s_rt sec)))(i \<mapsto> stm_state x) = state_of (rt_statements (s_rt sec))"
    using state_ofI [OF assms(3)] by auto
  let ?e = "send_control (ses_datasource_id (rt_session (s_rt sec))) (Cancel_cmd (ses_id (rt_session (s_rt sec)))) k (record_event i ''cancel_requested'' now s2)"
  have "control_inv (rt_state (s_rt sec)) (rt_lane (s_rt sec)) (rt_accepting (s_rt sec)) False (rt_cancel_statement_id (s_rt sec)) (Some i)"
    using rt_invD(2) [OF inv] False assms(2) by simp
  note c = control_cancel [OF this]
  have "statement_inv (state_of (rt_statements (s_rt sec))) (rt_lane (s_rt sec)) (rt_cancel_statement_id (s_rt sec)) (Some i)"
    using rt_invD(3) [OF inv] assms(2) by simp
  note c2 = statement_cancel [OF this]
  have inv2: "rt_inv (s_rt s2)"
    unfolding rt_inv_def using c c2 assms(2) rt_invD(4) [OF inv] dict_distinct_set [OF rt_invD(1) [OF inv]]
    by (cases "rt_state (s_rt sec) = EXECUTING") (simp_all add: s2(2) s1(2) st)
  show ?thesis
  proof (rule that [of ?e])
    show "begin_cancel cfg x reason now sec = Inr ?e"
      unfolding begin_cancel_def if_not_P [OF False] id s1(1) rbind_simps s2(1) by (simp add: Let_def ds s2(3) k) (simp add: s2(2) s1(2))
    show "sound sec ?e"
      by (rule sound_send_change [OF sound_event_change [OF s2(4)]]) (simp_all add: s2(3) k, simp add: s2(2) s1(2))
    show "rt_inv (s_rt ?e)" using inv2 by simp
    show "same_box (s_rt sec) (s_rt ?e)" by (simp add: same_box_def s2(2) s1(2))
  qed
qed

lemma sec_inv_step: "sec_inv sec \<Longrightarrow> sound sec sec' \<Longrightarrow> rt_inv (s_rt sec') \<Longrightarrow> rt_lane (s_rt sec') = rt_lane (s_rt sec) \<Longrightarrow> sec_inv sec'"
  by (auto simp: sec_inv_def sound_def same_identity_def controls_grow_def)

lemma refuse_inv: "rt_inv rt \<Longrightarrow> rt_inv (rt\<lparr>rt_accepting := False\<rparr>)"
  by (auto simp: inv_defs)

text \<open>Cancelling every queued statement: each accepted statement becomes cancelled.\<close>

lemma statement_cancel_queued:
  "statement_inv st l c cur \<Longrightarrow> st i = Some St_accepted \<Longrightarrow> statement_inv (st(i \<mapsto> St_cancelled)) l c cur"
  by (auto simp: statement_inv_def)

lemma cancel_one_ok:
  assumes "sec_inv sec" "dict_get (rt_statements (s_rt sec)) (stm_id x) = Some x" "stm_state x = St_accepted"
  obtains sec' where "set_statement_state x St_cancelled now (Some True) None None sec = Inr sec'" "sound sec sec'" "rt_inv (s_rt sec')"
    "same_box (s_rt sec) (s_rt sec')" "\<And>j. j \<noteq> stm_id x \<Longrightarrow> dict_get (rt_statements (s_rt sec')) j = dict_get (rt_statements (s_rt sec)) j"
proof -
  have m: "mirrored sec" and inv: "rt_inv (s_rt sec)" using assms(1) by (auto dest: sec_invD)
  obtain s1 where s1: "set_statement_state x St_cancelled now (Some True) None None sec = Inr s1"
    "s_rt s1 = (s_rt sec)\<lparr>rt_statements := dict_set (rt_statements (s_rt sec)) (stm_id x) (moved_statement x St_cancelled now (Some True) None None)\<rparr>"
    "s_controls s1 = s_controls sec" "sound sec s1"
    by (rule section_state [OF sound_refl [OF m] assms(2), of St_cancelled]) (auto simp: assms(3) STATEMENT_TRANSITIONS_def)
  have "rt_inv (s_rt s1)"
    using rt_invD(2) [OF inv] dict_distinct_set [OF rt_invD(1) [OF inv]] statement_cancel_queued [OF rt_invD(3) [OF inv], of "stm_id x"]
      state_ofI [OF assms(2)] assms(3) box_update [OF rt_invD(4) [OF inv]]
    by (simp add: rt_inv_def s1(2))
  thus ?thesis by (rule that [OF s1(1,4)]) (simp_all add: s1(2) same_box_def)
qed

lemma cancel_list_ok:
  "sec_inv sec \<Longrightarrow> distinct (map stm_id xs) \<Longrightarrow> (\<And>x. x \<in> set xs \<Longrightarrow> dict_get (rt_statements (s_rt sec)) (stm_id x) = Some x \<and> stm_state x = St_accepted) \<Longrightarrow>
   \<exists>sec'. fold_r (\<lambda>sec x. rbind (set_statement_state x St_cancelled now (Some True) None None sec)
             (\<lambda>sec. Inr (record_event (stm_id x) event_type now sec))) sec xs = Inr sec' \<and> sound sec sec' \<and> rt_inv (s_rt sec') \<and> same_box (s_rt sec) (s_rt sec')"
proof (induction xs arbitrary: sec)
  case Nil
  thus ?case by (auto simp: sound_refl dest: sec_invD)
next
  case (Cons x xs)
  obtain s1 where s1: "set_statement_state x St_cancelled now (Some True) None None sec = Inr s1" "sound sec s1" "rt_inv (s_rt s1)"
    "same_box (s_rt sec) (s_rt s1)" "\<And>j. j \<noteq> stm_id x \<Longrightarrow> dict_get (rt_statements (s_rt s1)) j = dict_get (rt_statements (s_rt sec)) j"
    using cancel_one_ok [OF Cons.prems(1)] Cons.prems(3) [of x] by (metis list.set_intros(1))
  let ?e = "record_event (stm_id x) event_type now s1"
  have so: "sound sec ?e" by (rule sound_event_change [OF s1(2)])
  have i: "sec_inv ?e" by (rule sec_inv_step [OF Cons.prems(1) so]) (use s1(3,4) in \<open>simp_all add: same_box_def\<close>)
  have g: "dict_get (rt_statements (s_rt ?e)) (stm_id y) = Some y \<and> stm_state y = St_accepted" if "y \<in> set xs" for y
  proof -
    have "stm_id y \<noteq> stm_id x" using Cons.prems(2) that by (metis distinct.simps(2) image_eqI list.simps(9) set_map)
    thus ?thesis using s1(5) Cons.prems(3) [of y] that by simp
  qed
  obtain s2 where s2: "fold_r (\<lambda>sec x. rbind (set_statement_state x St_cancelled now (Some True) None None sec)
             (\<lambda>sec. Inr (record_event (stm_id x) event_type now sec))) ?e xs = Inr s2" "sound ?e s2" "rt_inv (s_rt s2)" "same_box (s_rt ?e) (s_rt s2)"
    using Cons.IH [OF i] Cons.prems(2) g by auto
  show ?case
    using s2 sound_trans [OF so s2(2)] same_box_trans [OF s1(4)] by (auto simp: s1(1))
qed

lemma cancel_queued_ok:
  assumes "sec_inv sec"
  obtains sec' where "cancel_queued event_type now sec = Inr sec'" "sound sec sec'" "rt_inv (s_rt sec')" "same_box (s_rt sec) (s_rt sec')"
proof -
  let ?d = "rt_statements (s_rt sec)"
  have m: "mirrored sec" and inv: "rt_inv (s_rt sec)" using assms by (auto dest: sec_invD)
  have dist: "distinct (dict_keys ?d)" by (rule rt_invD(1) [OF inv])
  have g: "dict_get ?d k = Some x" if "(k, x) \<in> set ?d" for k x using map_of_is_SomeI [OF dist that] .
  have ids: "map stm_id (dict_values ?d) = dict_keys ?d"
    using g mirrored_id [OF m] by (auto intro!: map_cong)
  let ?xs = "filter (\<lambda>x. stm_state x = St_accepted) (dict_values ?d)"
  have "distinct (map stm_id ?xs)" by (rule distinct_map_filter) (simp only: ids dist)
  moreover have "dict_get ?d (stm_id x) = Some x \<and> stm_state x = St_accepted" if "x \<in> set ?xs" for x
    using that g mirrored_id [OF m] by fastforce
  ultimately show ?thesis
    using cancel_list_ok [OF assms, of ?xs now event_type] that unfolding cancel_queued_def by blast
qed

lemma queue_close_progress:
  assumes "sec_inv sec"
  shows "progress sec (queue_close cfg reason cancel_current now sec)"
proof (cases "rt_accepting (s_rt sec)")
  case False
  thus ?thesis using assms by (auto intro!: progressI [OF _ sound_refl] simp: queue_close_def sec_inv_def)
next
  case True
  have m: "mirrored sec" and inv: "rt_inv (s_rt sec)" using assms by (auto dest: sec_invD)
  let ?a = "sec\<lparr>s_rt := (s_rt sec)\<lparr>rt_accepting := False\<rparr>\<rparr>"
  have soa: "sound sec ?a" by (rule sound_change [OF sound_refl [OF m]]) simp
  have ia: "sec_inv ?a" by (rule sec_inv_step [OF assms soa]) (simp_all add: refuse_inv [OF inv])
  obtain s1 where s1: "(case (cancel_current, rt_current (s_rt ?a)) of
                 (True, Some i) \<Rightarrow> rbind (get_statement i ?a) (\<lambda>x.
                    if stm_state x = St_executing \<or> stm_state x = St_streaming then begin_cancel cfg x ''close'' now ?a else Inr ?a)
               | _ \<Rightarrow> Inr ?a) = Inr s1" "sound ?a s1" "rt_inv (s_rt s1)" "same_box (s_rt ?a) (s_rt s1)"
  proof (cases "cancel_current \<and> rt_current (s_rt ?a) \<noteq> None")
    case False
    thus ?thesis by (intro that [of ?a]) (auto simp: sound_refl [OF sec_invD(1) [OF ia]] sec_invD(2) [OF ia, simplified] split: bool.splits option.splits)
  next
    case True
    then obtain i where i: "rt_current (s_rt ?a) = Some i" and cc: "cancel_current = True" by auto
    obtain x where x: "dict_get (rt_statements (s_rt ?a)) i = Some x"
      and fl: "stm_state x = St_executing \<or> stm_state x = St_streaming"
      using rt_invD(3) [OF sec_invD(2) [OF ia]] i by (auto simp: statement_inv_def state_of_def)
    show ?thesis
      by (rule begin_cancel_ok [OF ia i x, of cfg "''close''" now])
        (rule that, use i cc fl get_statement_ok [OF x] in \<open>simp_all\<close>)
  qed
  have i1: "sec_inv s1" by (rule sec_inv_step [OF ia s1(2,3)]) (use s1(4) in \<open>simp add: same_box_def\<close>)
  obtain s2 where s2: "(if reason = ''shutdown'' then cancel_queued ''cancelled_for_shutdown'' now s1 else Inr s1) = Inr s2" "sound s1 s2"
    "rt_inv (s_rt s2)" "same_box (s_rt s1) (s_rt s2)"
  proof (cases "reason = ''shutdown''")
    case True
    show ?thesis by (rule cancel_queued_ok [OF i1, of "''cancelled_for_shutdown''" now]) (rule that, simp_all only: True simp_thms if_True)
  next
    case False
    show ?thesis by (rule that [of s1]) (simp_all only: False if_False sound_refl [OF sec_invD(1) [OF i1]] s1(3) same_box_refl)
  qed
  have so: "sound sec s2" using soa s1(2) s2(2) by (blast intro: sound_trans)
  have box: "\<not> rt_accepting (s_rt s2)" "rt_lane (s_rt s2) = rt_lane (s_rt sec)"
    using s1(4) s2(4) by (simp_all add: same_box_def)
  have run: "queue_close cfg reason cancel_current now sec = Inr (if mailbox_full cfg (s_rt s2)
      then s2\<lparr>s_rt := (s_rt s2)\<lparr>rt_close_reason_pending := Some reason\<rparr>\<rparr>
      else s2\<lparr>s_rt := (s_rt s2)\<lparr>rt_mailbox := rt_mailbox (s_rt s2) @ [Close_cmd reason]\<rparr>\<rparr>)"
    unfolding queue_close_def if_not_P [of "\<not> rt_accepting (s_rt sec)", simplified True not_True_eq_False simp_thms, OF TrueI] Let_def s1(1) rbind_simps s2(1)
    using True by simp
  show ?thesis
  proof (cases "mailbox_full cfg (s_rt s2)")
    case True
    let ?r = "s2\<lparr>s_rt := (s_rt s2)\<lparr>rt_close_reason_pending := Some reason\<rparr>\<rparr>"
    show ?thesis
    proof (rule progressI [of _ ?r])
      show "queue_close cfg reason cancel_current now sec = Inr ?r" using run True by simp
      show "sound sec ?r" by (rule sound_change [OF so]) (simp add: local_change_def)
      show "rt_inv (s_rt ?r)" using s2(3) box(1) by (simp add: rt_inv_def box_inv_def)
      show "rt_lane (s_rt ?r) \<noteq> Not_started \<Longrightarrow> rt_lane (s_rt sec) \<noteq> Not_started" using box(2) by simp
    qed
  next
    case False
    let ?r = "s2\<lparr>s_rt := (s_rt s2)\<lparr>rt_mailbox := rt_mailbox (s_rt s2) @ [Close_cmd reason]\<rparr>\<rparr>"
    show ?thesis
    proof (rule progressI [of _ ?r])
      show "queue_close cfg reason cancel_current now sec = Inr ?r" using run False by simp
      show "sound sec ?r" by (rule sound_change [OF so]) (simp add: local_change_def)
      show "rt_inv (s_rt ?r)" using s2(3) box(1) by (simp add: rt_inv_def box_inv_def)
      show "rt_lane (s_rt ?r) \<noteq> Not_started \<Longrightarrow> rt_lane (s_rt sec) \<noteq> Not_started" using box(2) by simp
    qed
  qed
qed

lemma on_control_cancel_done_progress:
  assumes "sec_inv sec"
  shows "progress sec (on_control_cancel_done cfg failed now sec)"
proof (cases "rt_cancel_statement_id (s_rt sec)")
  case None
  thus ?thesis using assms by (auto intro!: progressI [OF _ sound_refl] simp: on_control_cancel_done_def sec_inv_def)
next
  case (Some i)
  have m: "mirrored sec" and inv: "rt_inv (s_rt sec)" using assms by (auto dest: sec_invD)
  obtain x where x: "dict_get (rt_statements (s_rt sec)) i = Some x"
    using state_of_some [of "rt_statements (s_rt sec)" i] rt_invD(3) [OF inv] Some by (auto simp: statement_inv_def)
  let ?a = "sec\<lparr>s_rt := (s_rt sec)\<lparr>rt_cancel_control_done := True\<rparr>\<rparr>"
  let ?e = "record_event (stm_id x) (if failed then ''cancel_failed'' else ''cancel_dispatched'') now ?a"
  have so: "sound sec ?e" by (intro sound_event_change sound_change [OF sound_refl [OF m]]) (simp add: local_change_def)
  have inve: "rt_inv (s_rt ?e)" using inv by (simp add: rt_inv_def)
  have xe: "dict_get (rt_statements (s_rt ?e)) i = Some x" using x by simp
  obtain s1 where s1: "settle_cancel_fence cfg i now ?e = Inr s1"
    "s_rt s1 = settled_rt cfg i (stm_state x \<in> TERMINAL_STATEMENT_STATES) now (s_rt ?e)" "sound sec s1"
    using settle_ok [OF so xe] by metis
  show ?thesis
    by (rule progressI [of _ s1]) (use s1 settled_inv [OF inve] in \<open>simp_all add: on_control_cancel_done_def Some get_statement_ok [OF x]\<close>)
qed

lemma on_control_destroy_done_progress:
  assumes "sec_inv sec"
  shows "progress sec (on_control_destroy_done failed now sec)"
proof (cases "rt_cancel_statement_id (s_rt sec)")
  case None
  thus ?thesis using assms by (auto intro!: progressI [OF _ sound_refl] simp: on_control_destroy_done_def sec_inv_def)
next
  case (Some i)
  let ?e = "record_event i (if failed then ''destroy_failed'' else ''cancel_escalated'') now sec"
  have m: "mirrored sec" and inv: "rt_inv (s_rt sec)" using assms by (auto dest: sec_invD)
  obtain x where x: "dict_get (rt_statements (s_rt sec)) i = Some x" and acc: "stm_state x \<noteq> St_accepted"
    using state_of_some [of "rt_statements (s_rt sec)" i] rt_invD(3) [OF inv] Some by (auto simp: statement_inv_def)
  have id: "stm_id x = i" by (rule mirrored_id [OF m x])
  let ?t = "if stm_is_write x then St_outcome_unknown else St_failed"
  have soe: "sound sec ?e" by (rule sound_event_change [OF sound_refl [OF m]])
  obtain s1 y where s1: "(if stm_state x \<notin> TERMINAL_STATEMENT_STATES
      then set_statement_state x ?t now None (Some ''connection_aborted'') (Some ''cancel escalation destroyed the session'') ?e else Inr ?e) = Inr s1"
    and r1: "s_rt s1 = (s_rt ?e)\<lparr>rt_statements := rt_statements (s_rt s1)\<rparr>" and so1: "sound ?e s1"
    and i1: "rt_inv ((s_rt s1)\<lparr>rt_current := (if rt_current (s_rt ?e) = Some i then None else rt_current (s_rt ?e))\<rparr>)"
    by (rule settle_statement [OF sound_mirrored [OF soe], of i x ?t now "Some ''connection_aborted''" "Some ''cancel escalation destroyed the session''"])
      (use inv x acc in simp_all)
  have f1: "rt_lane (s_rt s1) = rt_lane (s_rt sec)" "rt_session (s_rt s1) = rt_session (s_rt sec)" by (subst r1, simp)+
  have lost: "SESSION_LOST \<in> lane_states (rt_lane (s_rt sec))" "rt_state (s_rt sec) \<in> {IDLE, EXECUTING, CANCELLING, SESSION_LOST}"
    using rt_invD(2) [OF inv] Some by (cases "rt_lane (s_rt sec)"; auto simp: control_inv_def)+
  have i1': "rt_inv ((s_rt s1)\<lparr>rt_current := None, rt_statement_deadline := d\<rparr>)" for d
    using rt_invD [OF i1] statement_no_current [OF rt_invD(3) [OF i1]] by (simp add: rt_inv_def control_inv_def)
  obtain s2 where s2: "lose_session ''cancel_escalated'' now s1 = Inr s2" "s_rt s2 = lost_rt ''cancel_escalated'' now (s_rt s1)" "sound sec s2"
    by (rule lose_session_ok [OF sound_trans [OF soe so1], of "''cancel_escalated''" now]) (use lost f1 in \<open>simp_all\<close>)
  let ?r = "s2\<lparr>s_rt := (s_rt s2)\<lparr>rt_current := None, rt_statement_deadline := None\<rparr>\<rparr>"
  show ?thesis
  proof (rule progressI [of _ ?r])
    show "on_control_destroy_done failed now sec = Inr ?r"
      unfolding on_control_destroy_done_def Some option.case get_statement_ok [OF x] rbind_simps Let_def id s1 s2(1) ..
    show "sound sec ?r" by (rule sound_change [OF s2(3)]) (simp add: local_change_def)
    show "rt_inv (s_rt ?r)" using lost_inv [OF i1'] lost(1) f1(1) by (simp add: s2(2))
    show "rt_lane (s_rt ?r) \<noteq> Not_started \<Longrightarrow> rt_lane (s_rt sec) \<noteq> Not_started" by (simp add: s2(2) f1)
  qed
qed

lemma progress_refl: "sec_inv sec \<Longrightarrow> progress sec (Inr sec)"
  by (auto intro!: progressI [OF _ sound_refl] simp: sec_inv_def)

lemma progress_trans: "sound a b \<Longrightarrow> rt_lane (s_rt b) = rt_lane (s_rt a) \<Longrightarrow> progress b r \<Longrightarrow> progress a r"
  by (auto simp: progress_def intro: sound_trans)

lemma escalate_rt: "\<exists>b. s_rt (escalate now sec) = (s_rt sec)\<lparr>rt_cancel_destroy_sent := b\<rparr>"
proof -
  have eq: "(s_rt sec)\<lparr>rt_cancel_destroy_sent := rt_cancel_destroy_sent (s_rt sec)\<rparr> = s_rt sec" by simp
  have "s_rt (escalate now sec) = s_rt sec \<or> s_rt (escalate now sec) = (s_rt sec)\<lparr>rt_cancel_destroy_sent := True\<rparr>"
    by (simp add: escalate_def Let_def split: option.splits)
  thus ?thesis using eq by metis
qed

lemma escalate_sound:
  assumes "mirrored sec"
  shows "sound sec (escalate now sec)"
proof -
  have "sound sec (sec\<lparr>s_rt := (s_rt sec)\<lparr>rt_cancel_destroy_sent := True\<rparr>\<rparr>)"
    by (rule sound_change [OF sound_refl [OF assms]]) (simp add: local_change_def)
  thus ?thesis using sound_refl [OF assms] by (auto simp: escalate_def Let_def intro: sound_send_change split: option.splits)
qed

lemma timer_section_progress:
  assumes "sec_inv sec"
  shows "progress sec (timer_section cfg now sec)"
proof -
  let ?first = "case (rt_current (s_rt sec), rt_statement_deadline (s_rt sec)) of
              (Some i, Some d) \<Rightarrow>
                if now \<ge> d \<and> \<not> rt_cancel_in_flight (s_rt sec)
                then rbind (get_statement i sec) (\<lambda>x. begin_cancel cfg x ''timeout'' now sec) else Inr sec
            | _ \<Rightarrow> Inr sec"
  have m: "mirrored sec" and inv: "rt_inv (s_rt sec)" using assms by (auto dest: sec_invD)
  obtain s1 where s1: "?first = Inr s1" "sound sec s1" "rt_inv (s_rt s1)" "same_box (s_rt sec) (s_rt s1)"
  proof (cases "\<exists>i d. rt_current (s_rt sec) = Some i \<and> rt_statement_deadline (s_rt sec) = Some d \<and> now \<ge> d \<and> \<not> rt_cancel_in_flight (s_rt sec)")
    case False
    hence "?first = Inr sec" by (auto split: option.splits)
    thus ?thesis by (rule that) (simp_all add: sound_refl [OF m] inv)
  next
    case True
    then obtain i d where i: "rt_current (s_rt sec) = Some i" and d: "rt_statement_deadline (s_rt sec) = Some d" "now \<ge> d" "\<not> rt_cancel_in_flight (s_rt sec)"
      by blast
    obtain x where x: "dict_get (rt_statements (s_rt sec)) i = Some x" using rt_invD(3) [OF inv] i by (auto simp: statement_inv_def state_of_def)
    show ?thesis
      by (rule begin_cancel_ok [OF assms i x, of cfg "''timeout''" now]) (rule that, simp_all add: i d get_statement_ok [OF x])
  qed
  have i1: "sec_inv s1" by (rule sec_inv_step [OF assms s1(2,3)]) (use s1(4) in \<open>simp add: same_box_def\<close>)
  let ?s2 = "escalate now s1"
  obtain b where b: "s_rt ?s2 = (s_rt s1)\<lparr>rt_cancel_destroy_sent := b\<rparr>" using escalate_rt by blast
  have i2: "sec_inv ?s2"
    by (rule sec_inv_step [OF i1 escalate_sound [OF sec_invD(1) [OF i1]]]) (use s1(3) in \<open>simp_all add: b rt_inv_def\<close>)
  have so2: "sound sec ?s2" by (rule sound_trans [OF s1(2) escalate_sound [OF sec_invD(1) [OF i1]]])
  have l2: "rt_lane (s_rt ?s2) = rt_lane (s_rt sec)" using s1(4) by (simp add: b same_box_def)
  have "timer_section cfg now sec = (case rt_idle_deadline (s_rt ?s2) of
          Some d \<Rightarrow>
            if rt_accepting (s_rt ?s2) \<and> rt_state (s_rt ?s2) = IDLE \<and> now \<ge> d
            then queue_close cfg ''idle_timeout'' False now ?s2 else Inr ?s2
        | None \<Rightarrow> Inr ?s2)"
    unfolding timer_section_def s1(1) rbind_simps Let_def ..
  moreover have "progress ?s2 \<dots>" using queue_close_progress [OF i2] progress_refl [OF i2] by (auto split: option.splits)
  ultimately show ?thesis using progress_trans [OF so2 l2] by simp
qed

section \<open>Every section of a lane\<close>

lemma lane_section_progress:
  assumes "sec_inv sec" "lane_section cfg inp now sec = Some r"
  shows "progress sec r"
proof (cases "rt_lane (s_rt sec)")
  case Not_started
  thus ?thesis using assms(2) by (simp add: lane_section_def)
next
  case Opening
  thus ?thesis using assms lane_opened_progress [OF assms(1) Opening] lane_open_failed_progress [OF assms(1) Opening]
    by (cases inp) (auto simp: lane_section_def)
next
  case Waiting
  thus ?thesis using assms(2) lane_take_progress [OF assms(1) Waiting] by (cases inp) (auto simp: lane_section_def split: if_splits)
next
  case (Taken i)
  thus ?thesis using assms(2) lane_taken_progress [OF assms(1) Taken] by (cases inp) (auto simp: lane_section_def)
next
  case (Starting i)
  thus ?thesis using assms(2) lane_start_progress [OF assms(1) Starting] by (cases inp) (auto simp: lane_section_def split: if_splits)
next
  case (Running i)
  thus ?thesis using assms(2) lane_stream_progress [OF assms(1) Running] lane_outcome_progress [OF assms(1) disjI1 [OF Running]]
    by (cases inp) (auto simp: lane_section_def split: if_splits)
next
  case (Streaming i)
  thus ?thesis using assms(2) lane_outcome_progress [OF assms(1) disjI2 [OF Streaming]] by (cases inp) (auto simp: lane_section_def)
next
  case (Settling i t code summary lost)
  thus ?thesis using assms(2) lane_finish_progress [OF assms(1) Settling] by (cases inp) (auto simp: lane_section_def)
next
  case Drained_check
  thus ?thesis using assms(2) lane_check_close_progress [OF assms(1) Drained_check] by (cases inp) (auto simp: lane_section_def)
next
  case (Close_waiting reason)
  thus ?thesis using assms(2) lane_close_begin_progress [OF assms(1) Close_waiting] by (cases inp) (auto simp: lane_section_def split: if_splits)
next
  case (Closing_connection reason)
  thus ?thesis using assms(2) lane_close_end_progress [OF assms(1) Closing_connection] by (cases inp) (auto simp: lane_section_def)
next
  case Ended
  thus ?thesis using assms(2) by (cases inp) (simp_all add: lane_section_def)
qed

end
