(* ===== verification/Broker_Safety.thy ===== *)
theory Broker_Safety
  imports Broker_Inv
begin

text \<open>
  The invariant of the whole broker under every interleaving of calls, lanes, control lanes and timers, and what follows from it.
\<close>

section \<open>The invariant of the broker\<close>

declare map_of_eq_Some_iff [simp del] Some_eq_map_of_iff [simp del]

definition epoch_of :: "mem_store \<Rightarrow> string \<Rightarrow> int" where
  "epoch_of st cid = (case dict_get (m_epochs st) cid of Some e \<Rightarrow> e | None \<Rightarrow> 0)"

fun command_session :: "control_command \<Rightarrow> string option" where
  "command_session (Cancel_cmd sid) = Some sid"
| "command_session (Destroy_cmd sid) = Some sid"
| "command_session Stop_cmd = None"

definition runtimes_inv :: "broker \<Rightarrow> bool" where
  "runtimes_inv b \<longleftrightarrow> (\<forall>sid rt. dict_get (b_sessions b) sid = Some rt \<longrightarrow>
     ses_id (rt_session rt) = sid \<and> sec_inv (enter b rt) \<and> ses_epoch (rt_session rt) \<le> epoch_of (b_store b) (ses_console_id (rt_session rt)))"

definition index_inv :: "broker \<Rightarrow> bool" where
  "index_inv b \<longleftrightarrow> distinct (dict_keys (b_sessions b)) \<and>
     (\<forall>sid rt i. dict_get (b_sessions b) sid = Some rt \<longrightarrow> i \<in> fst ` set (rt_statements rt) \<longrightarrow> dict_get (b_statement_sessions b) i = Some sid) \<and>
     (\<forall>i sid. dict_get (b_statement_sessions b) i = Some sid \<longrightarrow> (\<exists>rt. dict_get (b_sessions b) sid = Some rt \<and> i \<in> fst ` set (rt_statements rt))) \<and>
     (\<forall>c sid. dict_get (b_console_sessions b) c = Some sid \<longrightarrow> (\<exists>rt. dict_get (b_sessions b) sid = Some rt \<and> ses_console_id (rt_session rt) = c)) \<and>
     (\<forall>cmd \<in> commands (b_controls b). \<forall>sid. command_session cmd = Some sid \<longrightarrow> dict_get (b_sessions b) sid \<noteq> None)"

lemma index_invD:
  assumes "index_inv b"
  shows "distinct (dict_keys (b_sessions b))"
    "dict_get (b_sessions b) sid = Some rt \<Longrightarrow> i \<in> fst ` set (rt_statements rt) \<Longrightarrow> dict_get (b_statement_sessions b) i = Some sid"
    "dict_get (b_statement_sessions b) i = Some sid \<Longrightarrow> \<exists>rt. dict_get (b_sessions b) sid = Some rt \<and> i \<in> fst ` set (rt_statements rt)"
    "dict_get (b_console_sessions b) c = Some sid \<Longrightarrow> \<exists>rt. dict_get (b_sessions b) sid = Some rt \<and> ses_console_id (rt_session rt) = c"
    "cmd \<in> commands (b_controls b) \<Longrightarrow> command_session cmd = Some sid \<Longrightarrow> dict_get (b_sessions b) sid \<noteq> None"
  using assms unfolding index_inv_def by blast+

definition store_inv :: "broker \<Rightarrow> bool" where
  "store_inv b \<longleftrightarrow> (\<forall>sid q. (sid, q) \<in> request_keys (b_store b) \<longrightarrow> dict_get (m_sessions (b_store b)) sid \<noteq> None \<and>
     (\<forall>rt. dict_get (b_sessions b) sid = Some rt \<longrightarrow> dict_get (rt_requests rt) q \<noteq> None))"

definition broker_inv :: "broker \<Rightarrow> bool" where
  "broker_inv b \<longleftrightarrow> runtimes_inv b \<and> index_inv b \<and> store_inv b \<and> (b_started b \<or> b_sessions b = [])"

definition runtime_evolves :: "runtime \<Rightarrow> runtime \<Rightarrow> bool" where
  "runtime_evolves rt rt' \<longleftrightarrow>
     (let s = rt_session rt; s' = rt_session rt' in
      ses_id s' = ses_id s \<and> ses_console_id s' = ses_console_id s \<and> ses_datasource_id s' = ses_datasource_id s \<and> ses_owner s' = ses_owner s \<and>
      ses_boot_id s' = ses_boot_id s \<and> ses_epoch s \<le> ses_epoch s' \<and> (ses_state s, ses_state s') \<in> SESSION_TRANSITIONS\<^sup>*) \<and>
     (\<forall>i x. dict_get (rt_statements rt) i = Some x \<longrightarrow>
        (\<exists>x'. dict_get (rt_statements rt') i = Some x' \<and> same_statement x x' \<and> (stm_state x, stm_state x') \<in> STATEMENT_TRANSITIONS\<^sup>*)) \<and>
     (\<forall>q i. dict_get (rt_requests rt) q = Some i \<longrightarrow> dict_get (rt_requests rt') q = Some i)"

definition evolves :: "broker \<Rightarrow> broker \<Rightarrow> bool" where
  "evolves b b' \<longleftrightarrow> (\<forall>sid rt. dict_get (b_sessions b) sid = Some rt \<longrightarrow> (\<exists>rt'. dict_get (b_sessions b') sid = Some rt' \<and> runtime_evolves rt rt'))"

lemma runtime_evolves_refl [simp]: "runtime_evolves rt rt"
  by (simp add: runtime_evolves_def Let_def)

lemma runtime_evolves_trans:
  assumes ab: "runtime_evolves a b" and bc: "runtime_evolves b c"
  shows "runtime_evolves a c"
proof -
  have st: "\<exists>x'. dict_get (rt_statements c) i = Some x' \<and> same_statement x x' \<and> (stm_state x, stm_state x') \<in> STATEMENT_TRANSITIONS\<^sup>*"
    if x: "dict_get (rt_statements a) i = Some x" for i x
  proof -
    obtain y where y: "dict_get (rt_statements b) i = Some y" "same_statement x y" "(stm_state x, stm_state y) \<in> STATEMENT_TRANSITIONS\<^sup>*"
      using ab x unfolding runtime_evolves_def by blast
    obtain z where z: "dict_get (rt_statements c) i = Some z" "same_statement y z" "(stm_state y, stm_state z) \<in> STATEMENT_TRANSITIONS\<^sup>*"
      using bc y(1) unfolding runtime_evolves_def by blast
    have "same_statement x z" using y(2) z(2) by (simp add: same_statement_def)
    thus ?thesis using z(1) rtrancl_trans [OF y(3) z(3)] by blast
  qed
  have "(rt_state a, rt_state c) \<in> SESSION_TRANSITIONS\<^sup>*" using ab bc unfolding runtime_evolves_def Let_def by (meson rtrancl_trans)
  thus ?thesis using ab bc st by (simp add: runtime_evolves_def Let_def)
qed

lemma evolves_refl [simp]: "evolves b b"
  by (simp add: evolves_def)

lemma evolves_trans: "evolves a b \<Longrightarrow> evolves b c \<Longrightarrow> evolves a c"
  unfolding evolves_def by (meson runtime_evolves_trans)

lemma sound_evolves: "sound sec sec' \<Longrightarrow> runtime_evolves (s_rt sec) (s_rt sec')"
  by (auto simp: sound_def runtime_evolves_def same_identity_def statement_moves_def Let_def)

lemma enter_fields [simp]: "s_rt (enter b rt) = rt" "s_store (enter b rt) = b_store b" "s_controls (enter b rt) = b_controls b"
  by (simp_all add: enter_def)

lemma leave_fields [simp]:
  "b_sessions (leave sid sec b) = dict_set (b_sessions b) sid (s_rt sec)" "b_store (leave sid sec b) = s_store sec"
  "b_controls (leave sid sec b) = s_controls sec" "b_console_sessions (leave sid sec b) = b_console_sessions b"
  "b_statement_sessions (leave sid sec b) = b_statement_sessions b" "b_started (leave sid sec b) = b_started b"
  "b_shutdown (leave sid sec b) = b_shutdown b" "b_boot_id (leave sid sec b) = b_boot_id b"
  by (simp_all add: leave_def)

lemma mirrored_congI:
  "mirrored sec \<Longrightarrow> s_rt sec' = s_rt sec \<Longrightarrow>
   dict_get (m_sessions (s_store sec')) (ses_id (rt_session (s_rt sec))) = dict_get (m_sessions (s_store sec)) (ses_id (rt_session (s_rt sec))) \<Longrightarrow>
   (\<And>i. i \<in> fst ` set (rt_statements (s_rt sec)) \<Longrightarrow> dict_get (m_statements (s_store sec')) i = dict_get (m_statements (s_store sec)) i) \<Longrightarrow> mirrored sec'"
  unfolding mirrored_def by (metis dict_get_in_keys)

definition store_change :: "string \<Rightarrow> string set \<Rightarrow> mem_store \<Rightarrow> mem_store \<Rightarrow> bool" where
  "store_change sid ids st st' \<longleftrightarrow> (\<forall>c. epoch_of st c \<le> epoch_of st' c) \<and> request_keys st' \<subseteq> request_keys st \<and>
     (\<forall>j. j \<noteq> sid \<longrightarrow> dict_get (m_sessions st') j = dict_get (m_sessions st) j) \<and>
     (\<forall>i. i \<notin> ids \<longrightarrow> dict_get (m_statements st') i = dict_get (m_statements st) i)"

lemma leave_change:
  assumes inv: "broker_inv b" and rt: "dict_get (b_sessions b) sid = Some rt" and si: "sec_inv sec'"
    and ev: "runtime_evolves rt (s_rt sec')" and kk: "dict_keys (rt_statements (s_rt sec')) = dict_keys (rt_statements rt)"
    and rq: "rt_requests (s_rt sec') = rt_requests rt"
    and fr: "store_change sid (fst ` set (rt_statements rt)) (b_store b) (s_store sec')" and gr: "controls_grow sid (b_controls b) (s_controls sec')"
    and eb: "ses_epoch (rt_session (s_rt sec')) \<le> epoch_of (s_store sec') (ses_console_id (rt_session (s_rt sec')))"
  shows "broker_inv (leave sid sec' b)" "evolves b (leave sid sec' b)"
proof -
  let ?b = "leave sid sec' b"
  have ri: "runtimes_inv b" and ii: "index_inv b" and st: "store_inv b" using inv by (auto simp: broker_inv_def)
  have sid: "ses_id (rt_session rt) = sid" using ri rt by (auto simp: runtimes_inv_def)
  have id': "ses_id (rt_session (s_rt sec')) = sid" "ses_console_id (rt_session (s_rt sec')) = ses_console_id (rt_session rt)"
    using ev sid by (simp_all add: runtime_evolves_def Let_def)
  have keys: "fst ` set (rt_statements (s_rt sec')) = fst ` set (rt_statements rt)" by (rule dict_keys_fst [OF kk])
  have self: "sec_inv (enter ?b (s_rt sec'))" using si by (simp add: sec_inv_def mirrored_def)
  have other: "sec_inv (enter ?b r)" if j: "dict_get (b_sessions b) j = Some r" "j \<noteq> sid" for j r
  proof -
    have si: "sec_inv (enter b r)" and jid: "ses_id (rt_session r) = j" using ri j by (auto simp: runtimes_inv_def)
    have "i \<notin> fst ` set (rt_statements rt)" if "i \<in> fst ` set (rt_statements r)" for i
    proof
      assume "i \<in> fst ` set (rt_statements rt)"
      hence "dict_get (b_statement_sessions b) i = Some sid" using ii rt unfolding index_inv_def by blast
      moreover have "dict_get (b_statement_sessions b) i = Some j" using ii j(1) that unfolding index_inv_def by blast
      ultimately show False using j(2) by simp
    qed
    hence stm: "dict_get (m_statements (s_store sec')) i = dict_get (m_statements (b_store b)) i" if "i \<in> fst ` set (rt_statements r)" for i
      using fr that unfolding store_change_def by blast
    have ses: "dict_get (m_sessions (s_store sec')) j = dict_get (m_sessions (b_store b)) j" using fr j(2) unfolding store_change_def by blast
    have "mirrored (enter ?b r)"
      by (rule mirrored_congI [OF sec_invD(1) [OF si]]) (simp_all add: jid ses stm)
    thus ?thesis using si gr by (simp add: sec_inv_def controls_grow_def)
  qed
  have "runtimes_inv ?b"
    unfolding runtimes_inv_def
  proof (intro allI impI)
    fix j r assume j: "dict_get (b_sessions ?b) j = Some r"
    show "ses_id (rt_session r) = j \<and> sec_inv (enter ?b r) \<and> ses_epoch (rt_session r) \<le> epoch_of (b_store ?b) (ses_console_id (rt_session r))"
    proof (cases "j = sid")
      case True
      hence r: "r = s_rt sec'" using j by simp
      show ?thesis using True self id' eb by (simp add: r)
    next
      case False
      hence j': "dict_get (b_sessions b) j = Some r" using j by simp
      have "epoch_of (b_store b) c \<le> epoch_of (s_store sec') c" for c using fr unfolding store_change_def by blast
      thus ?thesis using ri other [OF j' False] j' by (fastforce simp: runtimes_inv_def intro: order_trans)
    qed
  qed
  moreover have "index_inv ?b"
  proof -
    have "distinct (dict_keys (b_sessions ?b))" using ii by (simp add: index_invD(1) dict_distinct_set)
    moreover have "dict_get (b_statement_sessions ?b) i = Some j" if "dict_get (b_sessions ?b) j = Some r" "i \<in> fst ` set (rt_statements r)" for j r i
      using index_invD(2) [OF ii] rt that keys by (cases "j = sid") auto
    moreover have "\<exists>r. dict_get (b_sessions ?b) j = Some r \<and> i \<in> fst ` set (rt_statements r)" if "dict_get (b_statement_sessions ?b) i = Some j" for i j
      using index_invD(3) [OF ii, of i j] rt that keys by (cases "j = sid") auto
    moreover have "\<exists>r. dict_get (b_sessions ?b) j = Some r \<and> ses_console_id (rt_session r) = c" if "dict_get (b_console_sessions ?b) c = Some j" for c j
      using index_invD(4) [OF ii, of c j] rt that id' by (cases "j = sid") auto
    moreover have "dict_get (b_sessions ?b) j \<noteq> None" if c: "cmd \<in> commands (b_controls ?b)" "command_session cmd = Some j" for cmd j
    proof (cases "cmd \<in> commands (b_controls b)")
      case True
      hence "dict_get (b_sessions b) j \<noteq> None" using ii c(2) unfolding index_inv_def by blast
      thus ?thesis by simp
    next
      case False
      hence "cmd = Cancel_cmd sid \<or> cmd = Destroy_cmd sid" using gr c(1) by (auto simp: controls_grow_def)
      thus ?thesis using c(2) by auto
    qed
    ultimately show ?thesis unfolding index_inv_def by blast
  qed
  moreover have "store_inv ?b"
    unfolding store_inv_def
  proof (intro allI impI)
    fix j q assume "(j, q) \<in> request_keys (b_store ?b)"
    hence jq: "(j, q) \<in> request_keys (b_store b)" using fr by (auto simp: store_change_def)
    have "dict_get (m_sessions (s_store sec')) j \<noteq> None"
    proof (cases "j = sid")
      case True
      thus ?thesis using si id' by (simp add: sec_inv_def mirrored_def)
    next
      case False
      thus ?thesis using fr st jq by (auto simp: store_change_def store_inv_def)
    qed
    moreover have "dict_get (rt_requests r) q \<noteq> None" if "dict_get (b_sessions ?b) j = Some r" for r
      using st jq that rt rq by (cases "j = sid") (auto simp: store_inv_def)
    ultimately show "dict_get (m_sessions (b_store ?b)) j \<noteq> None \<and> (\<forall>r. dict_get (b_sessions ?b) j = Some r \<longrightarrow> dict_get (rt_requests r) q \<noteq> None)"
      by simp
  qed
  moreover have "b_started b" using inv rt by (auto simp: broker_inv_def)
  ultimately show "broker_inv ?b" by (simp add: broker_inv_def)
  show "evolves b ?b" using rt ev by (auto simp: evolves_def)
qed

lemma leave_inv:
  assumes inv: "broker_inv b" and rt: "dict_get (b_sessions b) sid = Some rt"
    and so: "sound (enter b rt) sec'" and si: "sec_inv sec'"
  shows "broker_inv (leave sid sec' b)" "evolves b (leave sid sec' b)"
proof -
  have ri: "ses_id (rt_session rt) = sid" "ses_epoch (rt_session rt) \<le> epoch_of (b_store b) (ses_console_id (rt_session rt))"
    using inv rt by (auto simp: broker_inv_def runtimes_inv_def)
  have id: "same_identity (rt_session rt) (rt_session (s_rt sec'))" using so by (simp add: sound_def)
  have fr: "store_frame sid (fst ` set (rt_statements rt)) (b_store b) (s_store sec')" using so ri by (simp add: sound_def)
  hence ep: "epoch_of (s_store sec') c = epoch_of (b_store b) c" for c by (simp add: store_frame_def epoch_of_def)
  have fr': "store_change sid (fst ` set (rt_statements rt)) (b_store b) (s_store sec')"
    using fr ep by (simp add: store_frame_def store_change_def)
  have ev: "runtime_evolves rt (s_rt sec')" using sound_evolves [OF so] by simp
  have kk: "dict_keys (rt_statements (s_rt sec')) = dict_keys (rt_statements rt)" "rt_requests (s_rt sec') = rt_requests rt"
    using so by (simp_all add: sound_def statement_moves_def)
  have gr: "controls_grow sid (b_controls b) (s_controls sec')" using so ri by (simp add: sound_def)
  have eb: "ses_epoch (rt_session (s_rt sec')) \<le> epoch_of (s_store sec') (ses_console_id (rt_session (s_rt sec')))"
    using id ri ep by (simp add: same_identity_def)
  show "broker_inv (leave sid sec' b)" "evolves b (leave sid sec' b)" by (rule leave_change [OF inv rt si ev kk fr' gr eb])+
qed

lemma broker_invD:
  assumes "broker_inv b"
  shows "runtimes_inv b" "index_inv b" "store_inv b" "b_started b \<or> b_sessions b = []"
    "dict_get (b_sessions b) sid = Some rt \<Longrightarrow> sec_inv (enter b rt)"
    "dict_get (b_sessions b) sid = Some rt \<Longrightarrow> ses_id (rt_session rt) = sid"
    "dict_get (b_sessions b) sid = Some rt \<Longrightarrow> ses_epoch (rt_session rt) \<le> epoch_of (b_store b) (ses_console_id (rt_session rt))"
  using assms by (auto simp: broker_inv_def runtimes_inv_def)

definition same_index :: "broker \<Rightarrow> broker \<Rightarrow> bool" where
  "same_index b b' \<longleftrightarrow> dict_keys (b_sessions b') = dict_keys (b_sessions b) \<and> b_console_sessions b' = b_console_sessions b \<and>
     b_statement_sessions b' = b_statement_sessions b \<and> b_started b' = b_started b \<and> b_shutdown b' = b_shutdown b \<and> b_boot_id b' = b_boot_id b"

lemma in_section_ok:
  assumes "broker_inv b" "dict_get (b_sessions b) sid = Some rt" "progress (enter b rt) (f (enter b rt))"
  obtains b' where "in_section sid f b = Inr b'" "broker_inv b'" "evolves b b'" "same_index b b'"
proof -
  obtain sec' where s: "f (enter b rt) = Inr sec'" "sound (enter b rt) sec'" "sec_inv sec'"
    using progress_inv [OF broker_invD(5) [OF assms(1,2)] assms(3)] by blast
  have "dict_keys (dict_set (b_sessions b) sid (s_rt sec')) = dict_keys (b_sessions b)"
    by (rule dict_keys_set_present [OF dict_get_in_keys [OF assms(2)]])
  thus ?thesis
    using that [of "leave sid sec' b"] leave_inv [OF assms(1,2) s(2,3)] by (simp add: in_section_def assms(2) s(1) same_index_def)
qed

text \<open>A call keeps the contract: it answers, and the invariant holds again.\<close>

definition good :: "broker \<Rightarrow> call_result \<Rightarrow> bool" where
  "good b r \<longleftrightarrow> (\<exists>a b'. r = Inr (a, b') \<and> broker_inv b' \<and> evolves b b')"

lemma good_refl: "broker_inv b \<Longrightarrow> good b (Inr (a, b))"
  by (simp add: good_def)

lemma good_section:
  assumes "broker_inv b" "dict_get (b_sessions b) sid = Some rt" "progress (enter b rt) (f (enter b rt))"
  shows "good b (rbind (in_section sid f b) (\<lambda>b. Inr (a, b)))"
  by (rule in_section_ok [where f = f, OF assms]) (simp add: good_def)

lemma controls_change:
  assumes "broker_inv b" "\<And>ds. dict_get (b_controls b) ds \<noteq> None \<Longrightarrow> dict_get c' ds \<noteq> None" "commands c' \<subseteq> commands (b_controls b) \<union> {Stop_cmd}"
  shows "broker_inv (b\<lparr>b_controls := c'\<rparr>)"
proof -
  let ?b = "b\<lparr>b_controls := c'\<rparr>"
  have "sec_inv (enter ?b rt)" if "sec_inv (enter b rt)" for rt
    using that assms(2) by (auto simp: sec_inv_def mirrored_def)
  hence "runtimes_inv ?b" using broker_invD(1) [OF assms(1)] by (simp add: runtimes_inv_def)
  moreover have "command_session cmd = None" if "cmd \<in> commands c'" "cmd \<notin> commands (b_controls b)" for cmd using assms(3) that by auto
  hence "dict_get (b_sessions b) sid \<noteq> None" if "cmd \<in> commands c'" "command_session cmd = Some sid" for cmd sid
    using index_invD(5) [OF broker_invD(2) [OF assms(1)], of cmd sid] that by fastforce
  hence "index_inv ?b" using broker_invD(2) [OF assms(1)] unfolding index_inv_def by simp
  moreover have "store_inv ?b" using broker_invD(3) [OF assms(1)] by (simp add: store_inv_def)
  ultimately show ?thesis using broker_invD(4) [OF assms(1)] by (simp add: broker_inv_def)
qed

lemma evolves_controls [simp]: "evolves b (b\<lparr>b_controls := c'\<rparr>)"
  by (simp add: evolves_def)

section \<open>Every event\<close>

lemma lane_good:
  assumes "broker_inv b"
  shows "good b (handle cfg digest (Lane_step sid inp now) b)"
proof (cases "dict_get (b_sessions b) sid")
  case None
  thus ?thesis using good_refl [OF assms] by (simp add: handle_def)
next
  case (Some rt)
  show ?thesis
  proof (cases "lane_section cfg inp now (enter b rt)")
    case None
    thus ?thesis using good_refl [OF assms] Some by (simp add: handle_def)
  next
    case (Some r)
    have "progress (enter b rt) r" by (rule lane_section_progress [OF broker_invD(5) [OF assms \<open>dict_get (b_sessions b) sid = Some rt\<close>] Some])
    from progress_inv [OF broker_invD(5) [OF assms \<open>dict_get (b_sessions b) sid = Some rt\<close>] this] obtain sec'
      where "r = Inr sec'" "sound (enter b rt) sec'" "sec_inv sec'" by blast
    thus ?thesis using leave_inv [OF assms \<open>dict_get (b_sessions b) sid = Some rt\<close>] Some \<open>dict_get (b_sessions b) sid = Some rt\<close>
      by (simp add: handle_def good_def)
  qed
qed

lemma fold_sections:
  assumes "broker_inv b" "set sids \<subseteq> fst ` set (b_sessions b)"
    and "\<And>sec. sec_inv sec \<Longrightarrow> progress sec (f sec)"
  shows "\<exists>b'. fold_r (\<lambda>b sid. in_section sid f b) b sids = Inr b' \<and> broker_inv b' \<and> evolves b b'"
  using assms(1,2)
proof (induction sids arbitrary: b)
  case (Cons sid sids)
  obtain rt where rt: "dict_get (b_sessions b) sid = Some rt"
    using Cons.prems(2) by (cases "dict_get (b_sessions b) sid") (auto simp: map_of_eq_None_iff)
  obtain b1 where b1: "in_section sid f b = Inr b1" "broker_inv b1" "evolves b b1" "same_index b b1"
    using in_section_ok [where f = f, OF Cons.prems(1) rt assms(3) [OF broker_invD(5) [OF Cons.prems(1) rt]]] by metis
  have "set sids \<subseteq> fst ` set (b_sessions b1)" using Cons.prems(2) dict_keys_fst [of "b_sessions b1" "b_sessions b"] b1(4) by (simp add: same_index_def)
  from Cons.IH [OF b1(2) this] obtain b2 where "fold_r (\<lambda>b sid. in_section sid f b) b1 sids = Inr b2" "broker_inv b2" "evolves b1 b2" by blast
  thus ?case using b1 evolves_trans by auto
qed auto

lemma timers_good:
  assumes "broker_inv b"
  shows "good b (handle cfg digest (Timers now) b)"
  using fold_sections [OF assms, of "dict_keys (b_sessions b)" "timer_section cfg now"] timer_section_progress
  by (auto simp: handle_def run_timers_once_def good_def)

lemma shutdown_good:
  assumes "broker_inv b"
  shows "good b (handle cfg digest (Shutdown now) b)"
proof (cases "b_shutdown b")
  case True
  thus ?thesis using good_refl [OF assms] by (simp add: handle_def shutdown_def)
next
  case False
  let ?b = "b\<lparr>b_shutdown := True\<rparr>"
  let ?f = "\<lambda>sec. if rt_state (s_rt sec) \<in> ACTIVE_CONSOLE_SESSION_STATES then queue_close cfg ''shutdown'' True now sec else Inr sec"
  have i: "broker_inv ?b" using assms by (simp add: broker_inv_def runtimes_inv_def index_inv_def store_inv_def enter_def)
  have "progress sec (?f sec)" if "sec_inv sec" for sec using queue_close_progress [OF that] progress_refl [OF that] by simp
  then obtain b' where b': "fold_r (\<lambda>b sid. in_section sid ?f b) ?b (dict_keys (b_sessions ?b)) = Inr b'" "broker_inv b'" "evolves ?b b'"
    using fold_sections [OF i, of "dict_keys (b_sessions ?b)" ?f] by auto
  have "evolves b b'" using b'(3) by (simp add: evolves_def)
  thus ?thesis using b'(1,2) False by (simp add: handle_def shutdown_def good_def)
qed

lemma commands_busy: "commands (dict_set c ds (k\<lparr>ctl_busy := None\<rparr>)) \<subseteq> commands c" if "dict_get c ds = Some k"
  using commands_set [of ds "k\<lparr>ctl_busy := None\<rparr>" c] commands_get [OF that] by auto

lemma control_done_good:
  assumes "broker_inv b"
  shows "good b (handle cfg digest (Control_done ds failed now) b)"
proof (cases "dict_get (b_controls b) ds")
  case None
  thus ?thesis using good_refl [OF assms] by (simp add: handle_def control_done_def)
next
  case (Some k)
  let ?b = "b\<lparr>b_controls := dict_set (b_controls b) ds (k\<lparr>ctl_busy := None\<rparr>)\<rparr>"
  have i: "broker_inv ?b" by (rule controls_change [OF assms]) (use commands_busy [OF Some] in auto)
  have sec: "good b (rbind (in_section sid f ?b) (\<lambda>b. Inr (No_answer, b)))"
    if c: "ctl_busy k = Some cmd" "command_session cmd = Some sid" and f: "\<And>sec. sec_inv sec \<Longrightarrow> progress sec (f sec)" for cmd sid f
  proof -
    have "cmd \<in> commands (b_controls b)" using commands_get [OF Some] c(1) by auto
    then obtain rt where rt: "dict_get (b_sessions ?b) sid = Some rt" using index_invD(5) [OF broker_invD(2) [OF assms]] c(2) by fastforce
    from good_section [where f = f, OF i rt f [OF broker_invD(5) [OF i rt]], of No_answer] show ?thesis
      unfolding good_def using evolves_trans [OF evolves_controls] by blast
  qed
  have run: "handle cfg digest (Control_done ds failed now) b = rbind (case ctl_busy k of
             Some (Cancel_cmd sid) \<Rightarrow> in_section sid (on_control_cancel_done cfg failed now) ?b
           | Some (Destroy_cmd sid) \<Rightarrow> in_section sid (on_control_destroy_done failed now) ?b
           | _ \<Rightarrow> Inr ?b) (\<lambda>b. Inr (No_answer, b))"
    by (simp add: handle_def control_done_def Some Let_def)
  show ?thesis
  proof (cases "ctl_busy k")
    case None
    thus ?thesis unfolding run using i evolves_controls by (simp add: good_def)
  next
    case (Some cmd)
    show ?thesis
    proof (cases cmd)
      case (Cancel_cmd sid)
      thus ?thesis unfolding run Some using sec [OF Some, of sid] on_control_cancel_done_progress by simp
    next
      case (Destroy_cmd sid)
      thus ?thesis unfolding run Some using sec [OF Some, of sid] on_control_destroy_done_progress by simp
    next
      case Stop_cmd
      thus ?thesis unfolding run Some using i evolves_controls by (simp add: good_def)
    qed
  qed
qed

lemma close_good:
  assumes "broker_inv b"
  shows "good b (handle cfg digest (Close sid epoch reason now) b)"
proof (cases "dict_get (b_sessions b) sid")
  case None
  thus ?thesis using good_refl [OF assms] by (simp add: handle_def close_def)
next
  case (Some rt)
  show ?thesis
    using good_refl [OF assms] Some
      good_section [where f = "queue_close cfg reason True now", OF assms Some queue_close_progress [OF broker_invD(5) [OF assms Some]]]
    by (simp add: handle_def close_def split: sum.splits)
qed

lemma cancel_accepted_progress:
  assumes "sec_inv sec" "dict_get (rt_statements (s_rt sec)) (stm_id x) = Some x" "stm_state x = St_accepted"
  shows "progress sec (rbind (set_statement_state x St_cancelled now (Some True) None None sec) (\<lambda>sec. Inr (record_event (stm_id x) ty now sec)))"
proof (rule cancel_one_ok [OF assms, of now])
  fix sec' assume s: "set_statement_state x St_cancelled now (Some True) None None sec = Inr sec'" "sound sec sec'" "rt_inv (s_rt sec')"
    "same_box (s_rt sec) (s_rt sec')"
  show ?thesis
    by (rule progressI [OF _ sound_event_change [OF s(2)]]) (use s in \<open>auto simp: same_box_def\<close>)
qed

lemma cancel_good:
  assumes "broker_inv b"
  shows "good b (handle cfg digest (Cancel i epoch now) b)"
proof (cases "dict_get (b_statement_sessions b) i")
  case None
  thus ?thesis using good_refl [OF assms] by (simp add: handle_def cancel_def)
next
  case (Some sid)
  obtain rt where rt: "dict_get (b_sessions b) sid = Some rt" and key: "i \<in> fst ` set (rt_statements rt)"
    using index_invD(3) [OF broker_invD(2) [OF assms] Some] by blast
  obtain x where x: "dict_get (rt_statements rt) i = Some x"
    using key by (cases "dict_get (rt_statements rt) i") (auto simp: map_of_eq_None_iff)
  note si = broker_invD(5) [OF assms rt]
  have id: "stm_id x = i" using mirrored_id [OF sec_invD(1) [OF si]] x by simp
  have run: "handle cfg digest (Cancel i epoch now) b = (case require_epoch rt epoch of Inl e \<Rightarrow> Inr (Refused e, b) | Inr _ \<Rightarrow>
          if stm_state x = St_accepted
          then rbind (in_section sid (\<lambda>sec. rbind (set_statement_state x St_cancelled now (Some True) None None sec)
                   (\<lambda>sec. Inr (record_event (stm_id x) ''cancel_requested'' now sec))) b)
                 (\<lambda>b. Inr (Cancel_answer True St_cancelled, b))
          else if rt_current rt = Some i \<and> (stm_state x = St_executing \<or> stm_state x = St_streaming)
          then rbind (in_section sid (begin_cancel cfg x ''user'' now) b) (\<lambda>b. Inr (Cancel_answer True (stm_state x), b))
          else if stm_state x \<in> TERMINAL_STATEMENT_STATES then Inr (Cancel_answer False (stm_state x), b)
          else Inr (Refused (Broker_error ''statement_not_cancellable'' (Some (ses_epoch (rt_session rt)))), b))"
    unfolding handle_def event.case cancel_def Some rt x option.case ..
  have acc: "good b (rbind (in_section sid (\<lambda>sec. rbind (set_statement_state x St_cancelled now (Some True) None None sec)
                   (\<lambda>sec. Inr (record_event (stm_id x) ''cancel_requested'' now sec))) b) (\<lambda>b. Inr (Cancel_answer True St_cancelled, b)))"
    if "stm_state x = St_accepted"
    by (rule good_section [OF assms rt], rule cancel_accepted_progress [OF si _ that]) (simp add: x id)
  have run_cancel: "good b (rbind (in_section sid (begin_cancel cfg x ''user'' now) b) (\<lambda>b. Inr (Cancel_answer True (stm_state x), b)))"
    if cur: "rt_current rt = Some i"
  proof (rule good_section [OF assms rt])
    show "progress (enter b rt) (begin_cancel cfg x ''user'' now (enter b rt))"
      by (rule begin_cancel_ok [OF si, of i x cfg "''user''" now]) (use cur x in \<open>auto intro!: progressI simp: same_box_def\<close>)
  qed
  show ?thesis unfolding run using acc run_cancel good_refl [OF assms] by (simp split: sum.splits)
qed

lemma values_map: "set (dict_values (map (\<lambda>(k, x). (k, g x)) d)) = g ` set (dict_values d)"
  by (induction d) auto

lemma keys_map: "fst ` set (map (\<lambda>(k, x). (k, g x)) d) = fst ` set d"
  by (induction d) auto

lemma sweep_request_keys: "request_keys (snd (mem_startup_sweep boot now st)) = request_keys st"
proof -
  have gen: "request_keys (st\<lparr>m_sessions := a, m_statements := map (\<lambda>(k, x). (k, if P x then swept_statement now x else x)) (m_statements st)\<rparr>) = request_keys st"
    for a P
  proof -
    have "(\<lambda>x. (stm_session_id x, stm_request_id x)) ` (\<lambda>x. if P x then swept_statement now x else x) ` X = (\<lambda>x. (stm_session_id x, stm_request_id x)) ` X" for X
      unfolding image_image by (rule image_cong) (auto simp: swept_statement_def)
    moreover have "m_statements (st\<lparr>m_sessions := a, m_statements := d\<rparr>) = d" for d by simp
    ultimately show ?thesis unfolding request_keys_def by (simp only: values_map)
  qed
  show ?thesis unfolding mem_startup_sweep_def Let_def snd_conv by (rule gen)
qed

lemma sweep_session_keys: "fst ` set (m_sessions (snd (mem_startup_sweep boot now st))) = fst ` set (m_sessions st)"
  by (simp add: mem_startup_sweep_def Let_def keys_map del: set_map)

lemma start_good:
  assumes "broker_inv b"
  shows "good b (handle cfg digest (Start now) b)"
proof (cases "b_started b \<or> b_shutdown b")
  case True
  thus ?thesis using good_refl [OF assms] by (auto simp: handle_def start_broker_def)
next
  case False
  hence none: "b_sessions b = []" using broker_invD(4) [OF assms] by simp
  obtain r st where sw: "mem_startup_sweep (b_boot_id b) now (b_store b) = (r, st)" by (cases "mem_startup_sweep (b_boot_id b) now (b_store b)")
  let ?b = "b\<lparr>b_sweep_report := r, b_store := st, b_started := True\<rparr>"
  have keys: "dict_get (m_sessions st) sid = None \<longleftrightarrow> dict_get (m_sessions (b_store b)) sid = None" for sid
    using sweep_session_keys [of "b_boot_id b" now "b_store b"] sw by (simp add: map_of_eq_None_iff)
  have rq: "request_keys st = request_keys (b_store b)"
    using sweep_request_keys [of "b_boot_id b" now "b_store b"] sw by simp
  have "broker_inv ?b"
    using broker_invD(2,3) [OF assms] none keys rq by (simp add: broker_inv_def runtimes_inv_def index_inv_def store_inv_def)
  thus ?thesis using False none by (simp add: handle_def start_broker_def sw good_def evolves_def)
qed

lemma control_take_good:
  assumes "broker_inv b"
  shows "good b (handle cfg digest (Control_take ds) b)"
proof (cases "dict_get (b_controls b) ds")
  case None
  thus ?thesis using good_refl [OF assms] by (simp add: handle_def control_take_def)
next
  case (Some k)
  have ch: "good b (Inr (No_answer, b\<lparr>b_controls := dict_set (b_controls b) ds k'\<rparr>))"
    if "set (ctl_queue k') \<union> set_option (ctl_busy k') \<subseteq> set (ctl_queue k) \<union> set_option (ctl_busy k)" for k'
  proof -
    have "broker_inv (b\<lparr>b_controls := dict_set (b_controls b) ds k'\<rparr>)"
    proof (rule controls_change [OF assms])
      show "commands (dict_set (b_controls b) ds k') \<subseteq> commands (b_controls b) \<union> {Stop_cmd}"
        using commands_set [of ds k' "b_controls b"] commands_get [OF Some] that by blast
    qed simp
    thus ?thesis by (simp add: good_def)
  qed
  show ?thesis
  proof (cases "ctl_stopped k \<or> ctl_busy k \<noteq> None \<or> ctl_queue k = []")
    case True
    hence "control_take ds b = b" by (auto simp: control_take_def Some split: bool.splits option.splits list.splits)
    thus ?thesis using good_refl [OF assms] by (simp add: handle_def)
  next
    case False
    then obtain c cs where q: "ctl_stopped k = False" "ctl_busy k = None" "ctl_queue k = c # cs" by (cases "ctl_queue k") auto
    have "control_take ds b = b\<lparr>b_controls := dict_set (b_controls b) ds
        (if c = Stop_cmd then k\<lparr>ctl_queue := cs, ctl_stopped := True\<rparr> else k\<lparr>ctl_queue := cs, ctl_busy := Some c\<rparr>)\<rparr>"
      by (simp add: control_take_def Some q)
    moreover have "good b (Inr (No_answer, b\<lparr>b_controls := dict_set (b_controls b) ds
        (if c = Stop_cmd then k\<lparr>ctl_queue := cs, ctl_stopped := True\<rparr> else k\<lparr>ctl_queue := cs, ctl_busy := Some c\<rparr>)\<rparr>))"
      by (rule ch) (auto simp: q)
    ultimately show ?thesis by (simp only: handle_def event.case)
  qed
qed

lemma stop_controls_good:
  assumes "broker_inv b"
  shows "good b (handle cfg digest Stop_controls b)"
proof (cases "b_shutdown b")
  case False
  thus ?thesis using good_refl [OF assms] by (simp add: handle_def stop_controls_def)
next
  case True
  let ?c = "map (\<lambda>(ds, k). (ds, control_submit Stop_cmd k)) (b_controls b)"
  have "broker_inv (b\<lparr>b_controls := ?c\<rparr>)"
  proof (rule controls_change [OF assms])
    show "dict_get ?c ds \<noteq> None" if "dict_get (b_controls b) ds \<noteq> None" for ds
      using that by (auto simp: map_of_eq_None_iff image_image case_prod_beta)
    show "commands ?c \<subseteq> commands (b_controls b) \<union> {Stop_cmd}" by (fastforce simp: commands_def control_submit_def)
  qed
  thus ?thesis using True by (simp add: handle_def stop_controls_def good_def)
qed

section \<open>Attaching\<close>

lemma dict_get_keys: "k \<in> fst ` set d \<longleftrightarrow> dict_get d k \<noteq> None"
  by (simp add: map_of_eq_None_iff)

lemma attach_reuse_good:
  assumes inv: "broker_inv b" and con: "dict_get (b_console_sessions b) (rq_console_id rq) = Some sid" and rt: "dict_get (b_sessions b) sid = Some rt"
    and st: "mem_attach_session rq (ses_id (rt_session rt)) boot now (Some (ses_id (rt_session rt))) (b_store b) = (r, st)"
  shows "\<exists>s. r = Inr s \<and> s = (rt_session rt)\<lparr>ses_epoch := epoch_of (b_store b) (rq_console_id rq) + 1, ses_last_activity_at := now\<rparr>
    \<and> broker_inv (b\<lparr>b_store := st, b_sessions := dict_set (b_sessions b) (ses_id (rt_session rt)) (rt\<lparr>rt_session := s, rt_idle_deadline := d\<rparr>)\<rparr>)
    \<and> evolves b (b\<lparr>b_store := st, b_sessions := dict_set (b_sessions b) (ses_id (rt_session rt)) (rt\<lparr>rt_session := s, rt_idle_deadline := d\<rparr>)\<rparr>)"
proof -
  note si = broker_invD(5) [OF inv rt]
  have sid: "ses_id (rt_session rt) = sid" by (rule broker_invD(6) [OF inv rt])
  have cid: "ses_console_id (rt_session rt) = rq_console_id rq" using index_invD(4) [OF broker_invD(2) [OF inv] con] rt by simp
  have m: "dict_get (m_sessions (b_store b)) sid = Some (rt_session rt)" using sec_invD(1) [OF si] sid by (simp add: mirrored_def)
  let ?e = "epoch_of (b_store b) (rq_console_id rq) + 1"
  let ?s = "(rt_session rt)\<lparr>ses_epoch := ?e, ses_last_activity_at := now\<rparr>"
  let ?rt = "rt\<lparr>rt_session := ?s, rt_idle_deadline := d\<rparr>"
  let ?st = "(b_store b)\<lparr>m_epochs := dict_set (m_epochs (b_store b)) (rq_console_id rq) ?e, m_sessions := dict_set (m_sessions (b_store b)) sid ?s\<rparr>"
  have res: "r = Inr ?s" "st = ?st"
    using st by (auto simp: mem_attach_session_def Let_def sid m epoch_of_def)
  let ?sec = "\<lparr>s_rt = ?rt, s_store = ?st, s_controls = b_controls b\<rparr>"
  have lv: "b\<lparr>b_store := st, b_sessions := dict_set (b_sessions b) (ses_id (rt_session rt)) ?rt\<rparr> = leave sid ?sec b"
    by (simp add: leave_def res sid)
  have inv': "rt_inv ?rt" using sec_invD(2) [OF si] by (simp add: rt_inv_def)
  have mir: "mirrored ?sec" using sec_invD(1) [OF si] sid by (simp add: mirrored_def)
  have si': "sec_inv ?sec" using inv' mir sec_invD(3) [OF si] by (simp add: sec_inv_def)
  have ev: "runtime_evolves rt ?rt" using broker_invD(7) [OF inv rt] cid by (simp add: runtime_evolves_def Let_def)
  have fr: "store_change sid (fst ` set (rt_statements rt)) (b_store b) ?st" by (simp add: store_change_def epoch_of_def request_keys_def)
  have eb: "ses_epoch ?s \<le> epoch_of ?st (ses_console_id ?s)" by (simp add: epoch_of_def cid)
  have "broker_inv (leave sid ?sec b)" "evolves b (leave sid ?sec b)"
    by (rule leave_change [OF inv rt si']; use ev fr eb in simp)+
  thus ?thesis using res(1) lv by simp
qed

lemma store_extend:
  assumes inv: "broker_inv b" and "\<And>c. epoch_of (b_store b) c \<le> epoch_of st c" "m_statements st = m_statements (b_store b)"
    and same: "\<And>j. dict_get (b_sessions b) j \<noteq> None \<Longrightarrow> dict_get (m_sessions st) j = dict_get (m_sessions (b_store b)) j"
    and grow: "\<And>j. dict_get (m_sessions (b_store b)) j \<noteq> None \<Longrightarrow> dict_get (m_sessions st) j \<noteq> None"
  shows "broker_inv (b\<lparr>b_store := st\<rparr>)" "evolves b (b\<lparr>b_store := st\<rparr>)"
proof -
  let ?b = "b\<lparr>b_store := st\<rparr>"
  have rk: "request_keys st = request_keys (b_store b)" by (simp add: request_keys_def assms(3))
  have "runtimes_inv ?b"
    unfolding runtimes_inv_def
  proof (intro allI impI)
    fix j r assume "dict_get (b_sessions ?b) j = Some r"
    hence j: "dict_get (b_sessions b) j = Some r" by simp
    have id: "ses_id (rt_session r) = j" by (rule broker_invD(6) [OF inv j])
    have "mirrored (enter ?b r)" using sec_invD(1) [OF broker_invD(5) [OF inv j]] same [of j] j id by (simp add: mirrored_def assms(3))
    hence "sec_inv (enter ?b r)" using broker_invD(5) [OF inv j] by (simp add: sec_inv_def)
    moreover have "ses_epoch (rt_session r) \<le> epoch_of st (ses_console_id (rt_session r))"
      using broker_invD(7) [OF inv j] assms(2) order_trans by blast
    ultimately show "ses_id (rt_session r) = j \<and> sec_inv (enter ?b r) \<and> ses_epoch (rt_session r) \<le> epoch_of (b_store ?b) (ses_console_id (rt_session r))"
      using id by simp
  qed
  moreover have "index_inv ?b" using broker_invD(2) [OF inv] by (simp add: index_inv_def)
  moreover have "store_inv ?b" using broker_invD(3) [OF inv] grow by (simp add: store_inv_def rk)
  ultimately show "broker_inv ?b" using broker_invD(4) [OF inv] by (simp add: broker_inv_def)
  show "evolves b ?b" by (simp add: evolves_def)
qed

lemma add_runtime:
  assumes inv: "broker_inv b" and new: "dict_get (b_sessions b) sid = None" and stt: "b_started b"
    and rt: "ses_id (rt_session rt) = sid" "rt_statements rt = []" "sec_inv (enter b rt)"
    and ep: "ses_epoch (rt_session rt) \<le> epoch_of (b_store b) (ses_console_id (rt_session rt))"
    and none: "\<And>q. (sid, q) \<notin> request_keys (b_store b)"
  shows "broker_inv (b\<lparr>b_sessions := dict_set (b_sessions b) sid rt, b_console_sessions := dict_set (b_console_sessions b) (ses_console_id (rt_session rt)) sid\<rparr>)"
    (is "broker_inv ?b")
    and "evolves b (b\<lparr>b_sessions := dict_set (b_sessions b) sid rt, b_console_sessions := dict_set (b_console_sessions b) (ses_console_id (rt_session rt)) sid\<rparr>)"
proof -
  have en: "enter ?b r = enter b r" for r by (simp add: enter_def)
  have "runtimes_inv ?b" using broker_invD(1) [OF inv] rt ep unfolding runtimes_inv_def en by simp
  moreover have "index_inv ?b"
  proof -
    note ii = broker_invD(2) [OF inv]
    have "distinct (dict_keys (b_sessions ?b))" using index_invD(1) [OF ii] by (simp add: dict_distinct_set)
    moreover have "dict_get (b_statement_sessions ?b) i = Some j" if "dict_get (b_sessions ?b) j = Some r" "i \<in> fst ` set (rt_statements r)" for j r i
      using index_invD(2) [OF ii] that rt(2) by (auto split: if_splits)
    moreover have "\<exists>r. dict_get (b_sessions ?b) j = Some r \<and> i \<in> fst ` set (rt_statements r)" if "dict_get (b_statement_sessions ?b) i = Some j" for i j
      using index_invD(3) [OF ii, of i j] that new by (cases "j = sid") auto
    moreover have "\<exists>r. dict_get (b_sessions ?b) j = Some r \<and> ses_console_id (rt_session r) = c" if "dict_get (b_console_sessions ?b) c = Some j" for c j
      using index_invD(4) [OF ii, of c j] that new by (cases "j = sid") (auto split: if_splits)
    moreover have "dict_get (b_sessions ?b) j \<noteq> None" if "cmd \<in> commands (b_controls ?b)" "command_session cmd = Some j" for cmd j
      using index_invD(5) [OF ii, of cmd j] that by auto
    ultimately show ?thesis unfolding index_inv_def by blast
  qed
  moreover have "store_inv ?b" using broker_invD(3) [OF inv] none unfolding store_inv_def by (auto split: if_splits)
  ultimately show "broker_inv ?b" using stt by (simp add: broker_inv_def)
  show "evolves b ?b" using new by (simp add: evolves_def)
qed

lemma new_runtime_inv: "rt_inv (new_runtime cfg (connecting_session rq sid boot epoch now) now')"
  by (simp add: rt_inv_def new_runtime_def connecting_session_def control_inv_def statement_inv_def box_inv_def state_of_def)

lemma attach_good:
  assumes inv: "broker_inv b" and fr: "fresh (Attach rq i ok now) b"
  shows "good b (handle cfg digest (Attach rq i ok now) b)"
proof (cases "\<not> b_started b \<or> b_shutdown b")
  case True
  thus ?thesis using good_refl [OF inv] by (auto simp: handle_def attach_def)
next
  case False
  define existing where "existing = (case (case dict_get (b_console_sessions b) (rq_console_id rq) of None \<Rightarrow> None | Some i \<Rightarrow> dict_get (b_sessions b) i) of
      Some rt \<Rightarrow> if rt_state rt \<in> ACTIVE_CONSOLE_SESSION_STATES then Some rt else None | None \<Rightarrow> None)"
  have run: "handle cfg digest (Attach rq i ok now) b = (case existing of
          Some rt \<Rightarrow>
            (case mem_attach_session rq (ses_id (rt_session rt)) (b_boot_id b) now (Some (ses_id (rt_session rt))) (b_store b) of
               (Inl e, st) \<Rightarrow> Inl e
             | (Inr s, st) \<Rightarrow>
                 Inr (Attached s, b\<lparr>b_store := st, b_sessions := dict_set (b_sessions b) (ses_id (rt_session rt))
                   (rt\<lparr>rt_session := s, rt_idle_deadline := Some (idle_deadline cfg (ses_last_activity_at s))\<rparr>)\<rparr>))
        | None \<Rightarrow>
            (case enforce_session_limits cfg rq b of
               Inl e \<Rightarrow> Inr (Refused e, b)
             | Inr _ \<Rightarrow>
                 (case mem_attach_session rq i (b_boot_id b) now None (b_store b) of
                    (Inl e, st) \<Rightarrow> Inl e
                  | (Inr s, st) \<Rightarrow>
                      if \<not> ok then Inr (Refused (Runtime_failure ''connection factory''), b\<lparr>b_store := st\<rparr>)
                      else Inr (No_answer, b\<lparr>b_store := st, b_sessions := dict_set (b_sessions b) (ses_id s) (new_runtime cfg s now),
                             b_console_sessions := dict_set (b_console_sessions b) (ses_console_id s) (ses_id s)\<rparr>))))"
    unfolding handle_def event.case attach_def if_not_P [OF False] Let_def existing_def ..
  show ?thesis
  proof (cases existing)
    case (Some rt)
    then obtain sid where sid: "dict_get (b_console_sessions b) (rq_console_id rq) = Some sid" "dict_get (b_sessions b) sid = Some rt"
      by (auto simp: existing_def split: option.splits if_splits)
    obtain r st where st: "mem_attach_session rq (ses_id (rt_session rt)) (b_boot_id b) now (Some (ses_id (rt_session rt))) (b_store b) = (r, st)"
      by (metis surj_pair)
    show ?thesis using attach_reuse_good [OF inv sid st] unfolding run Some by (auto simp: st good_def)
  next
    case None
    let ?e = "epoch_of (b_store b) (rq_console_id rq) + 1"
    let ?s = "connecting_session rq i (b_boot_id b) ?e now"
    let ?st = "(b_store b)\<lparr>m_epochs := dict_set (m_epochs (b_store b)) (rq_console_id rq) ?e, m_sessions := dict_set (m_sessions (b_store b)) i ?s\<rparr>"
    have at: "mem_attach_session rq i (b_boot_id b) now None (b_store b) = (Inr ?s, ?st)"
      by (simp add: mem_attach_session_def Let_def epoch_of_def connecting_session_def)
    have f: "dict_get (m_sessions (b_store b)) i = None" "dict_get (b_sessions b) i = None" using fr by (simp_all add: fresh_def)
    have b1: "broker_inv (b\<lparr>b_store := ?st\<rparr>)" "evolves b (b\<lparr>b_store := ?st\<rparr>)"
      by (rule store_extend [OF inv]; use f in \<open>auto simp: epoch_of_def split: if_splits\<close>)+
    let ?b1 = "b\<lparr>b_store := ?st\<rparr>"
    have fields: "ses_id ?s = i" "ses_console_id ?s = rq_console_id rq" "ses_epoch ?s = ?e" by (simp_all add: connecting_session_def)
    have si: "sec_inv (enter ?b1 (new_runtime cfg ?s now))"
      using new_runtime_inv [of cfg rq i "b_boot_id b" ?e now now] by (simp add: sec_inv_def mirrored_def new_runtime_def fields)
    have nk: "(i, q) \<notin> request_keys (b_store ?b1)" for q
    proof -
      have "request_keys (b_store ?b1) = request_keys (b_store b)" by (simp add: request_keys_def)
      thus ?thesis using broker_invD(3) [OF inv] f(1) unfolding store_inv_def by metis
    qed
    have nr: "rt_session (new_runtime cfg ?s now) = ?s" "rt_statements (new_runtime cfg ?s now) = []" by (simp_all add: new_runtime_def)
    have ep: "?e \<le> epoch_of ?st (rq_console_id rq)" by (simp add: epoch_of_def)
    have b2: "broker_inv (?b1\<lparr>b_sessions := dict_set (b_sessions b) i (new_runtime cfg ?s now), b_console_sessions := dict_set (b_console_sessions b) (rq_console_id rq) i\<rparr>)"
      "evolves ?b1 (?b1\<lparr>b_sessions := dict_set (b_sessions b) i (new_runtime cfg ?s now), b_console_sessions := dict_set (b_console_sessions b) (rq_console_id rq) i\<rparr>)"
      using add_runtime [OF b1(1), of i "new_runtime cfg ?s now", OF _ _ _ _ si _ nk] f False nr ep by (simp_all add: fields)
    show ?thesis
      unfolding run None option.case at
      using good_refl [OF inv] b1 b2 evolves_trans [OF b1(2) b2(2)] by (auto simp: good_def fields split: sum.splits)
  qed
qed

lemma ensure_control_lane_ok:
  assumes "broker_inv b"
  shows "broker_inv (ensure_control_lane ds b)" "evolves b (ensure_control_lane ds b)" "dict_get (b_controls (ensure_control_lane ds b)) ds \<noteq> None"
    "b_sessions (ensure_control_lane ds b) = b_sessions b"
proof -
  let ?k = "\<lparr>ctl_queue = [], ctl_busy = None, ctl_stopped = False\<rparr>"
  have "broker_inv (b\<lparr>b_controls := dict_set (b_controls b) ds ?k\<rparr>)"
    by (rule controls_change [OF assms]) (use commands_set [of ds ?k "b_controls b"] in auto)
  thus "broker_inv (ensure_control_lane ds b)" "evolves b (ensure_control_lane ds b)" "dict_get (b_controls (ensure_control_lane ds b)) ds \<noteq> None"
    "b_sessions (ensure_control_lane ds b) = b_sessions b"
    using assms by (simp_all add: ensure_control_lane_def)
qed

lemma attach_ready_good:
  assumes inv: "broker_inv b"
  shows "good b (handle cfg digest (Attach_ready sid support) b)"
proof (cases "\<exists>rt. dict_get (b_sessions b) sid = Some rt \<and> rt_lane rt = Not_started")
  case False
  thus ?thesis using good_refl [OF inv] by (auto simp: handle_def attach_ready_def split: option.splits)
next
  case True
  then obtain rt where rt: "dict_get (b_sessions b) sid = Some rt" and l: "rt_lane rt = Not_started" by blast
  let ?b = "ensure_control_lane (ses_datasource_id (rt_session rt)) b"
  note e = ensure_control_lane_ok [OF inv, of "ses_datasource_id (rt_session rt)"]
  have rt': "dict_get (b_sessions ?b) sid = Some rt" using rt e(4) by simp
  note si = broker_invD(5) [OF e(1) rt']
  have c: "rt_state rt = CONNECTING" using rt_invD(2) [OF sec_invD(2) [OF si]] l by (simp add: control_inv_def)
  let ?s = "(rt_session rt)\<lparr>ses_server_cancel := support\<rparr>"
  obtain s1 where s1: "put_session ?s (enter ?b rt) = Inr s1" "s_rt s1 = rt\<lparr>rt_session := ?s\<rparr>" "s_controls s1 = b_controls ?b" "sound (enter ?b rt) s1"
    using put_session_ok [OF sec_invD(1) [OF si], of ?s] by auto
  let ?s2 = "set_lane Opening s1"
  have so: "sound (enter ?b rt) ?s2" by (rule sound_change [OF s1(4)]) simp
  have "rt_inv (s_rt ?s2)" using sec_invD(2) [OF si] l by (simp add: s1(2) rt_inv_def control_inv_def statement_inv_def box_inv_def c)
  hence si2: "sec_inv ?s2" using so e(3) by (simp add: sec_inv_def sound_def s1(2,3))
  note lv = leave_inv [OF e(1) rt' so si2]
  have "handle cfg digest (Attach_ready sid support) b = Inr (Attached ?s, leave sid ?s2 ?b)"
    by (simp add: handle_def attach_ready_def rt l Let_def in_section_def rt' c s1(1)) (simp add: s1(2))
  thus ?thesis using lv(1) evolves_trans [OF e(2) lv(2)] by (simp add: good_def)
qed

section \<open>Submitting\<close>

lemma register_statement:
  assumes inv: "broker_inv b" and rt: "dict_get (b_sessions b) sid = Some rt"
    and x: "stm_session_id x = sid" "stm_state x = St_accepted" "dict_get (rt_requests rt) (stm_request_id x) = None"
    and new: "dict_get (m_statements (b_store b)) (stm_id x) = None" "dict_get (b_statement_sessions b) (stm_id x) = None"
  defines "rt1 \<equiv> rt\<lparr>rt_statements := dict_set (rt_statements rt) (stm_id x) x, rt_requests := dict_set (rt_requests rt) (stm_request_id x) (stm_id x)\<rparr>"
  defines "b1 \<equiv> b\<lparr>b_store := (b_store b)\<lparr>m_statements := dict_set (m_statements (b_store b)) (stm_id x) x\<rparr>,
     b_sessions := dict_set (b_sessions b) sid rt1, b_statement_sessions := dict_set (b_statement_sessions b) (stm_id x) sid\<rparr>"
  shows "broker_inv b1" "evolves b b1"
proof -
  note ri = broker_invD(1) [OF inv] and ii = broker_invD(2) [OF inv] and sti = broker_invD(3) [OF inv]
  have sid: "ses_id (rt_session rt) = sid" by (rule broker_invD(6) [OF inv rt])
  have nk: "stm_id x \<notin> fst ` set (rt_statements r)" if "dict_get (b_sessions b) j = Some r" for j r
    using index_invD(2) [OF ii that, of "stm_id x"] new(2) by auto
  have ng: "dict_get (rt_statements rt) (stm_id x) = None" using nk [OF rt] by (simp add: dict_get_keys)
  have ns: "state_of (rt_statements rt) (stm_id x) = None" by (simp add: state_of_def ng)
  have f1: "rt_session rt1 = rt_session rt" "rt_lane rt1 = rt_lane rt" by (simp_all add: rt1_def)
  have "rt_inv rt1"
  proof -
    note i = rt_invD [OF sec_invD(2) [OF broker_invD(5) [OF inv rt], simplified]]
    have "statement_inv ((state_of (rt_statements rt))(stm_id x \<mapsto> St_accepted)) (rt_lane rt) (rt_cancel_statement_id rt) (rt_current rt)"
      using i(3) ns by (auto simp: statement_inv_def)
    moreover have "box_inv ((state_of (rt_statements rt))(stm_id x \<mapsto> St_accepted)) (rt_mailbox rt) (rt_pending_count rt) (rt_lane rt) (rt_accepting rt)
        (rt_close_reason_pending rt) (dict_set (rt_requests rt) (stm_request_id x) (stm_id x))"
      using i(4) by (auto simp: box_inv_def)
    ultimately show ?thesis using i(1,2) dict_distinct_set by (simp add: rt_inv_def rt1_def x(2))
  qed
  moreover have mir: "mirrored (enter b1 r)" if j: "dict_get (b_sessions b) j = Some r" "j \<noteq> sid" for j r
  proof (rule mirrored_congI [OF sec_invD(1) [OF broker_invD(5) [OF inv j(1)]]])
    fix i assume "i \<in> fst ` set (rt_statements (s_rt (enter b r)))"
    hence "i \<noteq> stm_id x" using nk [OF j(1)] by (metis enter_fields(1))
    thus "dict_get (m_statements (s_store (enter b1 r))) i = dict_get (m_statements (s_store (enter b r))) i" by (simp add: b1_def)
  qed (simp_all add: b1_def)
  moreover have "mirrored (enter b1 rt1)"
    using sec_invD(1) [OF broker_invD(5) [OF inv rt]] sid by (auto simp: mirrored_def b1_def rt1_def split: if_splits)
  ultimately have sec: "sec_inv (enter b1 rt1)" "\<And>j r. dict_get (b_sessions b) j = Some r \<Longrightarrow> j \<noteq> sid \<Longrightarrow> sec_inv (enter b1 r)"
    using broker_invD(5) [OF inv] rt by (auto simp: sec_inv_def f1) (simp_all add: b1_def)
  have ep: "epoch_of (b_store b1) c = epoch_of (b_store b) c" for c by (simp add: b1_def epoch_of_def)
  have "runtimes_inv b1"
    unfolding runtimes_inv_def
  proof (intro allI impI)
    fix j r assume j: "dict_get (b_sessions b1) j = Some r"
    show "ses_id (rt_session r) = j \<and> sec_inv (enter b1 r) \<and> ses_epoch (rt_session r) \<le> epoch_of (b_store b1) (ses_console_id (rt_session r))"
    proof (cases "j = sid")
      case True
      hence r: "r = rt1" using j by (simp add: b1_def)
      show ?thesis using True sec(1) sid broker_invD(7) [OF inv rt] by (simp add: r ep f1)
    next
      case False
      hence j': "dict_get (b_sessions b) j = Some r" using j by (simp add: b1_def)
      thus ?thesis using sec(2) [OF j' False] broker_invD(6,7) [OF inv j'] by (simp add: ep)
    qed
  qed
  moreover have "index_inv b1"
  proof -
    have k1: "fst ` set (rt_statements rt1) = insert (stm_id x) (fst ` set (rt_statements rt))" by (simp add: rt1_def dict_keys_set)
    have se: "dict_get (b_sessions b1) j = (if j = sid then Some rt1 else dict_get (b_sessions b) j)"
      "dict_get (b_statement_sessions b1) i = (if i = stm_id x then Some sid else dict_get (b_statement_sessions b) i)"
      "b_console_sessions b1 = b_console_sessions b" "b_controls b1 = b_controls b" for i j by (simp_all add: b1_def)
    have "distinct (dict_keys (b_sessions b1))" using index_invD(1) [OF ii] by (simp add: b1_def dict_distinct_set)
    moreover have "dict_get (b_statement_sessions b1) i = Some j" if "dict_get (b_sessions b1) j = Some r" "i \<in> fst ` set (rt_statements r)" for j r i
    proof (cases "j = sid")
      case True
      thus ?thesis using that k1 index_invD(2) [OF ii rt, of i] by (auto simp: se)
    next
      case False
      hence "dict_get (b_sessions b) j = Some r" using that(1) by (simp add: se)
      thus ?thesis using nk index_invD(2) [OF ii] that(2) unfolding se by metis
    qed
    moreover have "\<exists>r. dict_get (b_sessions b1) j = Some r \<and> i \<in> fst ` set (rt_statements r)" if "dict_get (b_statement_sessions b1) i = Some j" for i j
      using that index_invD(3) [OF ii, of i j] k1 rt unfolding se by (auto split: if_splits)
    moreover have "\<exists>r. dict_get (b_sessions b1) j = Some r \<and> ses_console_id (rt_session r) = c" if "dict_get (b_console_sessions b1) c = Some j" for c j
      using that index_invD(4) [OF ii, of c j] rt f1(1) unfolding se by (cases "j = sid") auto
    moreover have "dict_get (b_sessions b1) j \<noteq> None" if "cmd \<in> commands (b_controls b1)" "command_session cmd = Some j" for cmd j
      using that index_invD(5) [OF ii, of cmd j] unfolding se by auto
    ultimately show ?thesis unfolding index_inv_def by blast
  qed
  moreover have "store_inv b1"
    unfolding store_inv_def
  proof (intro allI impI)
    fix j q assume "(j, q) \<in> request_keys (b_store b1)"
    hence jq: "(j, q) = (sid, stm_request_id x) \<or> (j, q) \<in> request_keys (b_store b)"
      using request_keys_set [where st = "b_store b" and i = "stm_id x" and z = x] x(1) by (auto simp: b1_def)
    have m: "dict_get (m_sessions (b_store b)) sid \<noteq> None"
      using sec_invD(1) [OF broker_invD(5) [OF inv rt]] sid by (simp add: mirrored_def)
    show "dict_get (m_sessions (b_store b1)) j \<noteq> None \<and> (\<forall>r. dict_get (b_sessions b1) j = Some r \<longrightarrow> dict_get (rt_requests r) q \<noteq> None)"
      using jq m sti rt by (auto simp: b1_def rt1_def store_inv_def split: if_splits)
  qed
  moreover have "b_started b" using broker_invD(4) [OF inv] rt by auto
  ultimately show "broker_inv b1" by (simp add: broker_inv_def) (simp add: b1_def)
  have "runtime_evolves rt rt1" using x(3) ng by (auto simp: runtime_evolves_def rt1_def Let_def)
  thus "evolves b b1" using rt by (auto simp: evolves_def b1_def)
qed

lemma fail_new_progress:
  assumes "sec_inv sec" "dict_get (rt_statements (s_rt sec)) (stm_id x) = Some x" "stm_state x = St_accepted"
  shows "progress sec (rbind (set_statement_state x St_failed now None code summary sec) (\<lambda>sec. Inr (record_event (stm_id x) ty now sec)))"
proof -
  have m: "mirrored sec" and inv: "rt_inv (s_rt sec)" using assms(1) by (auto dest: sec_invD)
  obtain s1 where s1: "set_statement_state x St_failed now None code summary sec = Inr s1"
    "s_rt s1 = (s_rt sec)\<lparr>rt_statements := dict_set (rt_statements (s_rt sec)) (stm_id x) (moved_statement x St_failed now None code summary)\<rparr>"
    "s_controls s1 = s_controls sec" "sound sec s1"
    by (rule section_state [OF sound_refl [OF m] assms(2), of St_failed]) (auto simp: assms(3) STATEMENT_TRANSITIONS_def)
  have "statement_inv ((state_of (rt_statements (s_rt sec)))(stm_id x \<mapsto> St_failed)) (rt_lane (s_rt sec)) (rt_cancel_statement_id (s_rt sec)) (rt_current (s_rt sec))"
    using rt_invD(3) [OF inv] state_ofI [OF assms(2)] assms(3) by (auto simp: statement_inv_def)
  hence "rt_inv (s_rt s1)"
    using rt_invD(2) [OF inv] dict_distinct_set [OF rt_invD(1) [OF inv]] box_update [OF rt_invD(4) [OF inv]] by (simp add: rt_inv_def s1(2))
  thus ?thesis by (intro progressI [OF _ sound_event_change [OF s1(4)]]) (simp_all add: s1(1,2))
qed

lemma queue_new_progress:
  assumes "sec_inv sec" "dict_get (rt_statements (s_rt sec)) (stm_id x) = Some x" "stm_state x = St_accepted"
    and "rt_accepting (s_rt sec)" "rt_pending_count (s_rt sec) < cfg_mailbox_size cfg"
  shows "progress sec (rbind (put_statement (x\<lparr>stm_result_set_id := Some rid\<rparr>) (sec\<lparr>s_rt := (s_rt sec)\<lparr>rt_spools := sp\<rparr>\<rparr>)) (\<lambda>sec.
     if mailbox_full cfg (s_rt sec) then Inl e
     else Inr (record_event (stm_id x) ty now
       (sec\<lparr>s_rt := (s_rt sec)\<lparr>rt_mailbox := rt_mailbox (s_rt sec) @ [Execute_cmd (stm_id x)], rt_pending_count := rt_pending_count (s_rt sec) + 1\<rparr>\<rparr>))))"
proof -
  have m: "mirrored sec" and inv: "rt_inv (s_rt sec)" using assms(1) by (auto dest: sec_invD)
  let ?a = "sec\<lparr>s_rt := (s_rt sec)\<lparr>rt_spools := sp\<rparr>\<rparr>"
  let ?x = "x\<lparr>stm_result_set_id := Some rid\<rparr>"
  have "sound sec ?a" by (rule sound_change [OF sound_refl [OF m]]) (simp add: local_change_def)
  then obtain s1 where s1: "put_statement ?x ?a = Inr s1"
    "s_rt s1 = (s_rt ?a)\<lparr>rt_statements := dict_set (rt_statements (s_rt sec)) (stm_id x) ?x\<rparr>" "s_controls s1 = s_controls sec" "sound sec s1"
    by (rule section_statement [where x = ?x and x0 = x]) (use assms(2) in \<open>auto simp: same_statement_def\<close>)
  have st: "(state_of (rt_statements (s_rt sec)))(stm_id x \<mapsto> stm_state x) = state_of (rt_statements (s_rt sec))"
    using state_ofI [OF assms(2)] by auto
  note box = rt_invD(4) [OF inv]
  have "int (length (rt_mailbox (s_rt sec))) < cfg_mailbox_size cfg"
  proof -
    have "rt_pending_count (s_rt sec) = int (length (execs (rt_mailbox (s_rt sec)))) + lane_owes (rt_lane (s_rt sec))"
      "length (execs (rt_mailbox (s_rt sec))) = length (rt_mailbox (s_rt sec))" using box assms(4) by (simp_all add: box_inv_def)
    moreover have "0 \<le> lane_owes (rt_lane (s_rt sec))" by (cases "rt_lane (s_rt sec)") simp_all
    ultimately show ?thesis using assms(5) by linarith
  qed
  hence nf: "\<not> mailbox_full cfg (s_rt s1)" by (simp add: mailbox_full_def s1(2))
  let ?r = "(s_rt s1)\<lparr>rt_mailbox := rt_mailbox (s_rt s1) @ [Execute_cmd (stm_id x)], rt_pending_count := rt_pending_count (s_rt s1) + 1\<rparr>"
  have "box_inv (state_of (rt_statements (s_rt sec))) (rt_mailbox (s_rt sec) @ [Execute_cmd (stm_id x)]) (rt_pending_count (s_rt sec) + 1)
      (rt_lane (s_rt sec)) (rt_accepting (s_rt sec)) (rt_close_reason_pending (s_rt sec)) (rt_requests (s_rt sec))"
    using box state_ofI [OF assms(2)] by (simp add: box_inv_def)
  hence inv': "rt_inv ?r"
    using rt_invD(2,3) [OF inv] dict_distinct_set [OF rt_invD(1) [OF inv]] by (simp add: rt_inv_def s1(2) st)
  have so: "sound sec (s1\<lparr>s_rt := ?r\<rparr>)" by (rule sound_change [OF s1(4)]) (simp add: local_change_def)
  show ?thesis
    by (rule progressI [OF _ sound_event_change [OF so, of "stm_id x" ty now]]) (use inv' in \<open>simp_all add: s1(1) nf\<close>, simp add: s1(2))
qed

lemma no_duplicate_request:
  assumes "broker_inv b" "dict_get (b_sessions b) sid = Some rt" "dict_get (rt_requests rt) q = None"
  shows "find (\<lambda>x. stm_session_id x = sid \<and> stm_request_id x = q) (dict_values (m_statements (b_store b))) = None"
proof -
  have "(sid, q) \<notin> request_keys (b_store b)" using broker_invD(3) [OF assms(1)] assms(2,3) unfolding store_inv_def by blast
  thus ?thesis by (force simp: find_None_iff request_keys_def)
qed

lemma submit_new_good:
  assumes inv: "broker_inv b" and rt: "dict_get (b_sessions b) sid = Some rt"
    and fr: "fresh (Submit q i registered now) b" and acc: "rt_accepting rt" and room: "rt_pending_count rt < cfg_mailbox_size cfg"
    and new: "dict_get (rt_requests rt) (sub_request_id q) = None"
  shows "good b (submit_new cfg digest q i registered now rt b)
    \<and> (\<forall>y d b'. submit_new cfg digest q i registered now rt b = Inr (Submitted y d, b') \<longrightarrow>
         stm_state y = St_accepted \<and> (\<exists>rt'. dict_get (b_sessions b') sid = Some rt' \<and> dict_get (rt_requests rt') (sub_request_id q) = Some (stm_id y)
            \<and> dict_get (rt_statements rt') (stm_id y) \<noteq> None))"
proof -
  have sid: "ses_id (rt_session rt) = sid" by (rule broker_invD(6) [OF inv rt])
  let ?inp = "\<lparr>in_statement_id = i, in_request_id = sub_request_id q, in_sql = sub_sql q, in_sql_hash = ''sha256:'' @ digest (sub_sql q),
          in_timeout = sub_timeout_seconds q, in_is_write = False\<rparr>"
  define x where "x = new_statement (rt_session rt) ?inp (1 + max_seq (filter (\<lambda>x. stm_session_id x = sid) (dict_values (m_statements (b_store b))))) now"
  have xf: "stm_id x = i" "stm_session_id x = sid" "stm_request_id x = sub_request_id q" "stm_state x = St_accepted"
    by (simp_all add: x_def new_statement_def sid)
  have cr: "mem_create_statement (rt_session rt) ?inp now (b_store b)
      = Inr ((x, False), (b_store b)\<lparr>m_statements := dict_set (m_statements (b_store b)) (stm_id x) x\<rparr>)"
    using no_duplicate_request [OF inv rt new] by (simp add: mem_create_statement_def Let_def sid x_def)
  define rt1 where "rt1 = rt\<lparr>rt_statements := dict_set (rt_statements rt) (stm_id x) x, rt_requests := dict_set (rt_requests rt) (stm_request_id x) (stm_id x)\<rparr>"
  define b1 where "b1 = b\<lparr>b_store := (b_store b)\<lparr>m_statements := dict_set (m_statements (b_store b)) (stm_id x) x\<rparr>,
     b_sessions := dict_set (b_sessions b) sid rt1, b_statement_sessions := dict_set (b_statement_sessions b) (stm_id x) sid\<rparr>"
  have f: "dict_get (m_statements (b_store b)) (stm_id x) = None" "dict_get (b_statement_sessions b) (stm_id x) = None"
    using fr by (simp_all add: fresh_def xf)
  have reg: "broker_inv b1" "evolves b b1"
    unfolding b1_def rt1_def using register_statement [OF inv rt xf(2,4) _ f] new xf(3) by simp_all
  have rt1: "dict_get (b_sessions b1) sid = Some rt1" by (simp add: b1_def)
  note si = broker_invD(5) [OF reg(1) rt1]
  have x1: "dict_get (rt_statements (s_rt (enter b1 rt1))) (stm_id x) = Some x" by (simp add: rt1_def)
  show ?thesis
  proof (cases registered)
    case None
    let ?f = "\<lambda>sec. rbind (set_statement_state x St_failed now None (Some ''resultstore_error'')
                (Some ''statement result set could not be created'') sec) (\<lambda>sec. Inr (record_event (stm_id x) ''terminal'' now sec))"
    have "submit_new cfg digest q i registered now rt b = rbind (in_section sid ?f b1) (\<lambda>b. Inr (Refused Result_store_failure, b))"
      unfolding submit_new_def cr rbind_simps prod.case Let_def sid None option.case by (simp add: b1_def rt1_def xf(3))
    moreover have "good b1 (rbind (in_section sid ?f b1) (\<lambda>b. Inr (Refused Result_store_failure, b)))"
      by (rule good_section [OF reg(1) rt1], rule fail_new_progress [OF si x1 xf(4)])
    ultimately show ?thesis using evolves_trans [OF reg(2)] by (auto simp: good_def rbind_eq_Inr)
  next
    case (Some rid)
    let ?x = "x\<lparr>stm_result_set_id := Some rid\<rparr>"
    let ?f = "\<lambda>sec. rbind (put_statement ?x (sec\<lparr>s_rt := (s_rt sec)\<lparr>rt_spools := dict_set (rt_spools (s_rt sec)) (stm_id ?x)
                  \<lparr>sp_result_set_id = rid, sp_page_size = sub_page_size q, sp_max_result_rows = sub_max_result_rows q\<rparr>\<rparr>\<rparr>)) (\<lambda>sec.
              if mailbox_full cfg (s_rt sec) then Inl (Runtime_failure ''broker mailbox accounting diverged'')
              else Inr (record_event (stm_id ?x) ''submitted'' now
                (sec\<lparr>s_rt := (s_rt sec)\<lparr>rt_mailbox := rt_mailbox (s_rt sec) @ [Execute_cmd (stm_id ?x)],
                   rt_pending_count := rt_pending_count (s_rt sec) + 1\<rparr>\<rparr>)))"
    have "submit_new cfg digest q i registered now rt b = rbind (in_section sid ?f b1) (\<lambda>b. Inr (Submitted ?x False, b))"
      unfolding submit_new_def cr rbind_simps prod.case Let_def sid Some option.case by (simp add: b1_def rt1_def xf(3))
    moreover have gd: "good b1 (rbind (in_section sid ?f b1) (\<lambda>b. Inr (Submitted ?x False, b)))"
    proof (rule good_section [OF reg(1) rt1])
      have a: "rt_accepting (s_rt (enter b1 rt1))" "rt_pending_count (s_rt (enter b1 rt1)) < cfg_mailbox_size cfg" using acc room by (simp_all add: rt1_def)
      have idx: "stm_id ?x = stm_id x" by simp
      show "progress (enter b1 rt1) (?f (enter b1 rt1))"
        unfolding idx by (rule queue_new_progress [OF si x1 xf(4) a])
    qed
    moreover have "\<exists>rt'. dict_get (b_sessions b') sid = Some rt' \<and> dict_get (rt_requests rt') (sub_request_id q) = Some (stm_id x) \<and> dict_get (rt_statements rt') (stm_id x) \<noteq> None"
      if ev: "evolves b1 b'" for b'
    proof -
      obtain rt' where rt': "dict_get (b_sessions b') sid = Some rt'" "runtime_evolves rt1 rt'" using ev rt1 unfolding evolves_def by blast
      have "dict_get (rt_requests rt1) (sub_request_id q) = Some (stm_id x)" "dict_get (rt_statements rt1) (stm_id x) = Some x"
        by (simp_all add: rt1_def xf(3))
      thus ?thesis using rt' unfolding runtime_evolves_def by blast
    qed
    moreover obtain bf where bf: "rbind (in_section sid ?f b1) (\<lambda>b. Inr (Submitted ?x False, b)) = Inr (Submitted ?x False, bf)" "broker_inv bf" "evolves b1 bf"
      using gd unfolding good_def rbind_eq_Inr by blast
    ultimately show ?thesis using evolves_trans [OF reg(2) bf(3)] bf by (simp add: good_def xf(4))
  qed
qed

lemma submit_good:
  assumes inv: "broker_inv b" and fr: "fresh (Submit q i registered now) b"
  shows "good b (handle cfg digest (Submit q i registered now) b)"
proof (cases "dict_get (b_sessions b) (sub_session_id q)")
  case None
  thus ?thesis using good_refl [OF inv] by (simp add: handle_def submit_def split: sum.splits)
next
  case (Some rt)
  show ?thesis
  proof (cases "dict_get (rt_requests rt) (sub_request_id q)")
    case None
    thus ?thesis using good_refl [OF inv] Some submit_new_good [OF inv Some fr, of cfg digest, THEN conjunct1]
      by (simp add: handle_def submit_def split: sum.splits)
  next
    case (Some j)
    have "is_some (state_of (rt_statements rt) j)"
      using rt_invD(4) [OF sec_invD(2) [OF broker_invD(5) [OF inv \<open>dict_get (b_sessions b) (sub_session_id q) = Some rt\<close>]]] Some by (auto simp: box_inv_def)
    then obtain y where "dict_get (rt_statements rt) j = Some y" using state_of_some by blast
    thus ?thesis using good_refl [OF inv] Some \<open>dict_get (b_sessions b) (sub_session_id q) = Some rt\<close>
      by (simp add: handle_def submit_def split: sum.splits)
  qed
qed

theorem handle_good:
  assumes "broker_inv b" "fresh e b"
  shows "good b (handle cfg digest e b)"
  using assms
  by (cases e) (simp_all add: start_good attach_good attach_ready_good submit_good cancel_good close_good timers_good lane_good control_take_good
      control_done_good shutdown_good stop_controls_good)

end
