(* ===== verification/Broker_Properties.thy ===== *)
theory Broker_Properties
  imports Broker_Safety
begin

text \<open>
  What the broker promises to its callers, for every state it can reach from a start with any store: the properties of
  \<open>SessionBroker\<close> in \<open>app/broker/core.py\<close>.
\<close>

section \<open>Reachable states\<close>

text \<open>The store a broker starts with: every statement belongs to a session of the store.\<close>

definition store_ok :: "mem_store \<Rightarrow> bool" where
  "store_ok st \<longleftrightarrow> list_all (\<lambda>x. dict_get (m_sessions st) (stm_session_id x) \<noteq> None) (dict_values (m_statements st))"

lemma initial_inv: "store_ok st \<Longrightarrow> broker_inv (empty_broker boot st)"
  by (auto simp: broker_inv_def runtimes_inv_def index_inv_def store_inv_def empty_broker_def store_ok_def list_all_iff commands_def request_keys_def)

lemma step_inv:
  assumes "broker_inv b" "broker_step cfg digest b e a b'"
  shows "broker_inv b'" "evolves b b'"
proof -
  have "fresh e b" "handle cfg digest e b = Inr (a, b')" using assms(2) by (auto elim: broker_stepE)
  thus "broker_inv b'" "evolves b b'" using handle_good [OF assms(1), of e cfg digest] by (auto simp: good_def)
qed

lemma run_inv:
  assumes "broker_run cfg digest b es b'" "broker_inv b"
  shows "broker_inv b' \<and> evolves b b'"
  using assms
proof (induction rule: broker_run.induct)
  case (run_snoc b es b1 e a b2)
  thus ?case using step_inv evolves_trans by blast
qed simp

lemma reachable_inv: "store_ok st \<Longrightarrow> broker_run cfg digest (empty_broker boot st) es b \<Longrightarrow> broker_inv b"
  using run_inv initial_inv by blast

text \<open>A run as a function, for evaluation.\<close>

fun run_events :: "broker_config \<Rightarrow> (string \<Rightarrow> string) \<Rightarrow> event list \<Rightarrow> broker \<Rightarrow> broker option" where
  "run_events cfg digest [] b = Some b"
| "run_events cfg digest (e # es) b =
     (if fresh e b then (case handle cfg digest e b of Inl _ \<Rightarrow> None | Inr (a, b') \<Rightarrow> run_events cfg digest es b') else None)"

lemma broker_run_append: "broker_run cfg digest b1 es2 b2 \<Longrightarrow> broker_run cfg digest b es1 b1 \<Longrightarrow> broker_run cfg digest b (es1 @ es2) b2"
proof (induction rule: broker_run.induct)
  case (run_snoc b es b1 e a b2)
  thus ?case using broker_run.run_snoc [of cfg digest _ "es1 @ es" b1 e a b2] by simp
qed simp

lemma run_events_run: "run_events cfg digest es b = Some b' \<Longrightarrow> broker_run cfg digest b es b'"
proof (induction es arbitrary: b)
  case Nil
  thus ?case by (simp add: run_nil)
next
  case (Cons e es)
  then obtain a b1 where s: "fresh e b" "handle cfg digest e b = Inr (a, b1)" "run_events cfg digest es b1 = Some b'"
    by (auto split: if_splits sum.splits prod.splits)
  have "broker_run cfg digest b [e] b1" using run_snoc [OF run_nil broker_step.step [OF s(1,2)]] by simp
  from broker_run_append [OF Cons.IH [OF s(3)] this] show ?case by simp
qed

section \<open>Properties\<close>

text \<open>A run used to apply the properties: a session is opened, one statement is running and one is queued.\<close>

definition demo_config :: broker_config where
  "demo_config = \<lparr>cfg_limits = \<lparr>per_user = 8, per_datasource = 4, global_total = 16\<rparr>, cfg_mailbox_size = 20, cfg_idle_timeout_seconds = 1800,
     cfg_cancel_grace_seconds = 5, cfg_timer_poll_seconds = 1, cfg_spool_batch_size = 1000\<rparr>"

definition demo_digest :: "string \<Rightarrow> string" where
  "demo_digest sql = []"

definition demo_attach :: attach_request where
  "demo_attach = \<lparr>rq_console_id = ''c'', rq_datasource_id = ''d'', rq_owner = ''u''\<rparr>"

definition demo_submit :: "string \<Rightarrow> submit_request" where
  "demo_submit q = \<lparr>sub_session_id = ''s'', sub_epoch = 1, sub_sql = ''x'', sub_request_id = q, sub_timeout_seconds = 9, sub_page_size = 5,
     sub_max_result_rows = 7\<rparr>"

definition open_events :: "event list" where
  "open_events = [Start 0, Attach demo_attach ''s'' True 1, Attach_ready ''s'' Cancel_available, Lane_step ''s'' (Opened ''m'') 2]"

definition proceed :: "nat \<Rightarrow> event list" where
  "proceed n = replicate n (Lane_step ''s'' Proceed 3)"

definition busy_events :: "event list" where
  "busy_events = open_events @ [Submit (demo_submit ''p'') ''x'' (Some ''r'') 3, Submit (demo_submit ''q'') ''y'' (Some ''t'') 3] @ proceed 3"

definition demo_start :: broker where
  "demo_start = empty_broker ''b'' empty_mem_store"

definition busy_broker :: broker where
  "busy_broker = the (run_events demo_config demo_digest busy_events demo_start)"

lemma demo_store: "store_ok empty_mem_store"
  by (simp add: store_ok_def empty_mem_store_def)

lemma busy_run: "broker_run demo_config demo_digest (empty_broker ''b'' empty_mem_store) busy_events busy_broker"
proof -
  have "run_events demo_config demo_digest busy_events demo_start \<noteq> None" by code_simp
  thus ?thesis unfolding busy_broker_def demo_start_def by (intro run_events_run) auto
qed



text \<open>
  C19. The store mirrors the memory between any two sections: every session the broker holds and every statement of it is persisted
  exactly as the broker would report it.
\<close>

theorem store_mirrors_memory:
  assumes "store_ok st" "broker_run cfg digest (empty_broker boot st) es b" "dict_get (b_sessions b) sid = Some rt"
  shows "mem_get_session sid (b_store b) = Some (rt_session rt)
    \<and> (\<forall>i x. dict_get (rt_statements rt) i = Some x \<longrightarrow> mem_get_statement i (b_store b) = Some x \<and> statement_of i b = Inr x)"
proof -
  note inv = reachable_inv [OF assms(1,2)]
  have m: "mirrored (enter b rt)" and sid: "ses_id (rt_session rt) = sid"
    using sec_invD(1) [OF broker_invD(5) [OF inv assms(3)]] broker_invD(6) [OF inv assms(3)] by auto
  have "dict_get (b_statement_sessions b) i = Some sid" if "dict_get (rt_statements rt) i = Some x" for i x
    using index_invD(2) [OF broker_invD(2) [OF inv] assms(3) dict_get_in_keys [OF that]] .
  thus ?thesis using m sid assms(3) by (auto simp: mirrored_def mem_get_session_def mem_get_statement_def statement_of_def)
qed

theorem store_mirrors_memory_witness:
  "\<exists>rt. dict_get (b_sessions busy_broker) ''s'' = Some rt \<and> mem_get_session ''s'' (b_store busy_broker) = Some (rt_session rt)"
proof -
  have "dict_get (b_sessions busy_broker) ''s'' \<noteq> None" by code_simp
  then obtain rt where rt: "dict_get (b_sessions busy_broker) ''s'' = Some rt" by auto
  show ?thesis using store_mirrors_memory [OF demo_store busy_run rt] rt by blast
qed

lemma terminal_closed: "(a, b) \<in> STATEMENT_TRANSITIONS\<^sup>* \<Longrightarrow> a \<in> TERMINAL_STATEMENT_STATES \<Longrightarrow> b = a"
  by (induction rule: converse_rtrancl_induct) (auto dest: terminal_final)

lemma statement_of_evolves:
  assumes "broker_inv b" "evolves b b'" "broker_inv b'" "dict_get (b_statement_sessions b) i = Some sid" "statement_of i b = Inr x"
  obtains x' where "dict_get (b_statement_sessions b') i = Some sid" "statement_of i b' = Inr x'" "same_statement x x'"
    "(stm_state x, stm_state x') \<in> STATEMENT_TRANSITIONS\<^sup>*"
proof -
  obtain rt where rt: "dict_get (b_sessions b) sid = Some rt" "dict_get (rt_statements rt) i = Some x"
    using assms(4,5) by (auto simp: statement_of_def split: option.splits)
  obtain rt' where rt': "dict_get (b_sessions b') sid = Some rt'" "runtime_evolves rt rt'" using assms(2) rt(1) by (auto simp: evolves_def)
  obtain x' where x': "dict_get (rt_statements rt') i = Some x'" "same_statement x x'" "(stm_state x, stm_state x') \<in> STATEMENT_TRANSITIONS\<^sup>*"
    using rt'(2) rt(2) unfolding runtime_evolves_def by blast
  have "dict_get (b_statement_sessions b') i = Some sid"
    by (rule index_invD(2) [OF broker_invD(2) [OF assms(3)] rt'(1) dict_get_in_keys [OF x'(1)]])
  thus ?thesis using that x' rt'(1) by (simp add: statement_of_def)
qed

text \<open>
  C14. The outcome of a statement is final: whatever happens after a broker has accepted a statement, the broker keeps answering for it
  with the same statement, whose state moved only along the documented transitions; a statement that ended keeps its end.
\<close>

theorem statement_outcome_final:
  assumes "store_ok st" "broker_run cfg digest (empty_broker boot st) es b" "broker_run cfg digest b es' b'"
    and "dict_get (b_statement_sessions b) i = Some sid" "statement_of i b = Inr x"
  shows "\<exists>x'. statement_of i b' = Inr x' \<and> stm_session_id x' = stm_session_id x \<and> stm_sql x' = stm_sql x
    \<and> (stm_state x, stm_state x') \<in> STATEMENT_TRANSITIONS\<^sup>* \<and> (terminal_statement x \<longrightarrow> stm_state x' = stm_state x)"
proof -
  note inv = reachable_inv [OF assms(1,2)]
  obtain x' where x': "statement_of i b' = Inr x'" "same_statement x x'" "(stm_state x, stm_state x') \<in> STATEMENT_TRANSITIONS\<^sup>*"
    using statement_of_evolves [OF inv _ _ assms(4,5), of b'] run_inv [OF assms(3) inv] by metis
  thus ?thesis using terminal_closed [OF x'(3)] by (auto simp: same_statement_def)
qed

definition ended_events :: "event list" where
  "ended_events = [Lane_step ''s'' Execute_returned 4, Lane_step ''s'' (Ended_with Drained) 5] @ proceed 1"

definition ended_broker :: broker where
  "ended_broker = the (run_events demo_config demo_digest ended_events busy_broker)"

lemma ended_run: "broker_run demo_config demo_digest busy_broker ended_events ended_broker"
proof -
  have "run_events demo_config demo_digest ended_events busy_broker \<noteq> None" by code_simp
  thus ?thesis unfolding ended_broker_def by (intro run_events_run) auto
qed

theorem statement_outcome_final_witness:
  "\<exists>x x'. statement_of ''x'' busy_broker = Inr x \<and> statement_of ''x'' ended_broker = Inr x' \<and> (stm_state x, stm_state x') \<in> STATEMENT_TRANSITIONS\<^sup>*"
proof -
  have "dict_get (b_statement_sessions busy_broker) ''x'' = Some ''s''" by code_simp
  moreover have "case statement_of ''x'' busy_broker of Inl _ \<Rightarrow> False | Inr _ \<Rightarrow> True" by code_simp
  then obtain x where x: "statement_of ''x'' busy_broker = Inr x" by (auto split: sum.splits)
  ultimately show ?thesis using statement_outcome_final [OF demo_store busy_run ended_run _ x] x by blast
qed

text \<open>
  C15. A session executes one statement at a time: in every reachable state at most one statement of a session is executing or
  streaming, and it is the one its lane is running.
\<close>

theorem one_statement_at_a_time:
  assumes "store_ok st" "broker_run cfg digest (empty_broker boot st) es b" "dict_get (b_sessions b) sid = Some rt"
    and "dict_get (rt_statements rt) i = Some x" "in_flight_state (stm_state x)" "dict_get (rt_statements rt) j = Some y" "in_flight_state (stm_state y)"
  shows "i = j \<and> lane_running (rt_lane rt) = Some i"
proof -
  have "rt_inv rt" using sec_invD(2) [OF broker_invD(5) [OF reachable_inv [OF assms(1,2)] assms(3)]] by simp
  from rt_invD(3) [OF this] have "in_flight_state t \<Longrightarrow> state_of (rt_statements rt) k = Some t \<Longrightarrow> lane_running (rt_lane rt) = Some k" for k t
    by (auto simp: statement_inv_def)
  from this [OF assms(5) state_ofI [OF assms(4)]] this [OF assms(7) state_ofI [OF assms(6)]] show ?thesis by simp
qed

theorem one_statement_at_a_time_witness:
  "\<exists>rt. dict_get (b_sessions busy_broker) ''s'' = Some rt \<and> lane_running (rt_lane rt) = Some ''x''"
proof -
  have c: "case dict_get (b_sessions busy_broker) ''s'' of None \<Rightarrow> False
    | Some rt \<Rightarrow> (case dict_get (rt_statements rt) ''x'' of None \<Rightarrow> False | Some x \<Rightarrow> stm_state x = St_executing)" by code_simp
  then obtain rt x where "dict_get (b_sessions busy_broker) ''s'' = Some rt" "dict_get (rt_statements rt) ''x'' = Some x" "stm_state x = St_executing"
    by (auto split: option.splits)
  thus ?thesis using one_statement_at_a_time [OF demo_store busy_run, of "''s''" rt "''x''" x "''x''" x] by blast
qed

section \<open>Epochs\<close>

lemma attach_reuse_result:
  assumes "broker_inv b" "fresh (Attach rq i ok now) b" "handle cfg digest (Attach rq i ok now) b = Inr (Attached s, b1)"
  obtains rt rt1 where "dict_get (b_sessions b) (ses_id s) = Some rt" "ses_epoch (rt_session rt) < ses_epoch s"
    "dict_get (b_sessions b1) (ses_id s) = Some rt1" "rt_session rt1 = s"
proof -
  have run: "attach cfg rq i ok now b = Inr (Attached s, b1)" using assms(3) by (simp add: handle_def)
  obtain sid rt where sid: "dict_get (b_console_sessions b) (rq_console_id rq) = Some sid" and rt: "dict_get (b_sessions b) sid = Some rt"
    and act: "rt_state rt \<in> ACTIVE_CONSOLE_SESSION_STATES"
    using run by (auto simp: attach_def Let_def split: if_splits option.splits sum.splits prod.splits)
  obtain r st where st: "mem_attach_session rq (ses_id (rt_session rt)) (b_boot_id b) now (Some (ses_id (rt_session rt))) (b_store b) = (r, st)"
    by (metis surj_pair)
  obtain s' where s': "r = Inr s'" "s' = (rt_session rt)\<lparr>ses_epoch := epoch_of (b_store b) (rq_console_id rq) + 1, ses_last_activity_at := now\<rparr>"
    using attach_reuse_good [OF assms(1) sid rt st] by blast
  have id: "ses_id (rt_session rt) = sid" by (rule broker_invD(6) [OF assms(1) rt])
  have cid: "ses_console_id (rt_session rt) = rq_console_id rq" using index_invD(4) [OF broker_invD(2) [OF assms(1)] sid] rt by simp
  have eq: "s = s'" "b1 = b\<lparr>b_store := st, b_sessions := dict_set (b_sessions b) sid (rt\<lparr>rt_session := s', rt_idle_deadline := Some (idle_deadline cfg (ses_last_activity_at s'))\<rparr>)\<rparr>"
    using run st s'(1) id by (auto simp: attach_def Let_def sid rt act split: if_splits)
  have "ses_epoch (rt_session rt) < ses_epoch s" using broker_invD(7) [OF assms(1) rt] cid by (simp add: eq(1) s'(2))
  moreover have "ses_id s = sid" by (simp add: eq(1) s'(2) id)
  ultimately show ?thesis using that rt eq by simp
qed

text \<open>
  C16. A takeover fences off the previous client: when an attach answers with a live session, its epoch is higher than the one the session
  had, and from then on every submit, close or cancel under an older epoch is refused as stale and changes nothing, whatever happens in
  between.
\<close>

theorem takeover_fences_old_epochs:
  assumes "store_ok st" "broker_run cfg digest (empty_broker boot st) es b" "fresh (Attach rq i ok now) b"
    and "handle cfg digest (Attach rq i ok now) b = Inr (Attached s, b1)" "broker_run cfg digest b1 es' b2"
    and "check_submit q = Inr ()" "sub_session_id q = ses_id s" "sub_epoch q < ses_epoch s"
  shows "(\<exists>rt. dict_get (b_sessions b) (ses_id s) = Some rt \<and> ses_epoch (rt_session rt) < ses_epoch s)
    \<and> (\<exists>e. submit cfg digest q j registered now' b2 = Inr (Refused (Broker_error ''stale_session_epoch'' (Some e)), b2)
         \<and> close cfg (ses_id s) (sub_epoch q) reason now' b2 = Inr (Refused (Broker_error ''stale_session_epoch'' (Some e)), b2)
         \<and> (dict_get (b_statement_sessions b2) k = Some (ses_id s) \<longrightarrow>
              cancel cfg k (sub_epoch q) now' b2 = Inr (Refused (Broker_error ''stale_session_epoch'' (Some e)), b2)))"
proof -
  note inv = reachable_inv [OF assms(1,2)]
  obtain rt rt1 where rt: "dict_get (b_sessions b) (ses_id s) = Some rt" "ses_epoch (rt_session rt) < ses_epoch s"
    "dict_get (b_sessions b1) (ses_id s) = Some rt1" "rt_session rt1 = s"
    using attach_reuse_result [OF inv assms(3,4)] by metis
  have inv1: "broker_inv b1" using handle_good [OF inv assms(3), of cfg digest] assms(4) by (auto simp: good_def)
  obtain rt2 where rt2: "dict_get (b_sessions b2) (ses_id s) = Some rt2" "runtime_evolves rt1 rt2"
    using run_inv [OF assms(5) inv1] rt(3) unfolding evolves_def by blast
  have "sub_epoch q < ses_epoch (rt_session rt2)" using rt2(2) rt(4) assms(8) by (simp add: runtime_evolves_def Let_def)
  thus ?thesis using rt rt2(1) assms(6,7)
    by (auto simp: submit_def close_def cancel_def require_epoch_def)
qed

theorem takeover_fences_old_epochs_witness:
  "\<exists>s b1 e. handle demo_config demo_digest (Attach demo_attach ''n'' True 9) busy_broker = Inr (Attached s, b1)
     \<and> submit demo_config demo_digest (demo_submit ''z'') ''w'' None 10 b1 = Inr (Refused (Broker_error ''stale_session_epoch'' (Some e)), b1)"
proof -
  let ?ok = "case handle demo_config demo_digest (Attach demo_attach ''n'' True 9) busy_broker of Inr (Attached s, _) \<Rightarrow> ses_id s = ''s'' \<and> 1 < ses_epoch s | _ \<Rightarrow> False"
  have "?ok" by code_simp
  then obtain s b1 where s: "handle demo_config demo_digest (Attach demo_attach ''n'' True 9) busy_broker = Inr (Attached s, b1)" "ses_id s = ''s''" "1 < ses_epoch s"
    by (auto split: sum.splits prod.splits answer.splits)
  have f: "fresh (Attach demo_attach ''n'' True 9) busy_broker" by code_simp
  have c: "check_submit (demo_submit ''z'') = Inr ()" by (simp add: check_submit_def demo_submit_def)
  from takeover_fences_old_epochs [OF demo_store busy_run f s(1) run_nil c, of "''w''" None 10 "''u''" "''k''"] s show ?thesis
    by (auto simp: demo_submit_def)
qed

section \<open>Idempotent submission\<close>

lemma submitted_request:
  assumes "broker_inv b" "fresh (Submit q i registered now) b" "handle cfg digest (Submit q i registered now) b = Inr (Submitted x d, b1)"
  obtains rt1 where "dict_get (b_sessions b1) (sub_session_id q) = Some rt1" "dict_get (rt_requests rt1) (sub_request_id q) = Some (stm_id x)"
proof -
  have run: "submit cfg digest q i registered now b = Inr (Submitted x d, b1)" using assms(3) by (simp add: handle_def)
  obtain rt where rt: "dict_get (b_sessions b) (sub_session_id q) = Some rt"
    using run by (cases "dict_get (b_sessions b) (sub_session_id q)") (auto simp: submit_def split: sum.splits)
  show ?thesis
  proof (cases "dict_get (rt_requests rt) (sub_request_id q)")
    case (Some j)
    hence x: "dict_get (rt_statements rt) j = Some x" "b1 = b" using run rt by (auto simp: submit_def split: sum.splits option.splits)
    have "stm_id x = j" using mirrored_id [OF sec_invD(1) [OF broker_invD(5) [OF assms(1) rt]]] x(1) by simp
    thus ?thesis using that rt Some x(2) by simp
  next
    case None
    have "rt_accepting rt" "rt_pending_count rt < cfg_mailbox_size cfg" "submit_new cfg digest q i registered now rt b = Inr (Submitted x d, b1)"
      using run rt None by (auto simp: submit_def split: sum.splits if_splits)
    thus ?thesis using submit_new_good [OF assms(1) rt assms(2) _ _ None, of cfg digest] that by blast
  qed
qed


definition opened_broker :: broker where
  "opened_broker = the (run_events demo_config demo_digest open_events demo_start)"

lemma opened_run: "broker_run demo_config demo_digest (empty_broker ''b'' empty_mem_store) open_events opened_broker"
proof -
  have "run_events demo_config demo_digest open_events demo_start \<noteq> None" by code_simp
  thus ?thesis unfolding opened_broker_def demo_start_def by (intro run_events_run) auto
qed


section \<open>Session limits\<close>

lemma in_section_keys: "in_section sid f b = Inr b' \<Longrightarrow> dict_keys (b_sessions b') = dict_keys (b_sessions b)"
  by (auto simp: in_section_def rbind_eq_Inr dict_keys_set_present dict_get_in_keys split: option.splits)

lemma fold_section_keys: "fold_r (\<lambda>b sid. in_section sid f b) b sids = Inr b' \<Longrightarrow> dict_keys (b_sessions b') = dict_keys (b_sessions b)"
  by (induction sids arbitrary: b) (auto simp: rbind_eq_Inr dest!: in_section_keys)

lemma submit_new_keys:
  assumes "broker_inv b" "dict_get (b_sessions b) sid = Some rt" "submit_new cfg digest q i registered now rt b = Inr (a, b')"
  shows "dict_keys (b_sessions b') = dict_keys (b_sessions b)"
proof -
  have sid: "ses_id (rt_session rt) = sid" by (rule broker_invD(6) [OF assms(1,2)])
  have k: "dict_keys (dict_set (b_sessions b) sid r) = dict_keys (b_sessions b)" for r by (rule dict_keys_set_present [OF dict_get_in_keys [OF assms(2)]])
  show ?thesis
    using assms(3) unfolding submit_new_def sid Let_def
    by (auto simp: rbind_eq_Inr k dest!: in_section_keys split: if_splits option.splits)
qed

lemma handle_keys:
  assumes "broker_inv b" "handle cfg digest e b = Inr (a, b')" "\<And>rq i ok now. e \<noteq> Attach rq i ok now"
  shows "dict_keys (b_sessions b') = dict_keys (b_sessions b)"
proof (cases e)
  case (Start now)
  thus ?thesis using assms(2) by (auto simp: handle_def start_broker_def split: if_splits prod.splits)
next
  case (Attach rq i ok now)
  thus ?thesis using assms(3) by blast
next
  case (Attach_ready sid support)
  thus ?thesis using assms(2)
    by (auto simp: handle_def attach_ready_def Let_def rbind_eq_Inr ensure_control_lane_def dest!: in_section_keys split: if_splits option.splits)
next
  case (Submit q i r now)
  have run: "submit cfg digest q i r now b = Inr (a, b')" using assms(2) Submit by (simp add: handle_def)
  show ?thesis
  proof (cases "dict_get (b_sessions b) (sub_session_id q)")
    case None
    thus ?thesis using run by (simp add: submit_def split: sum.splits)
  next
    case (Some rt)
    have "b' = b \<or> submit_new cfg digest q i r now rt b = Inr (a, b')"
      using run Some by (auto simp: submit_def split: sum.splits option.splits if_splits)
    thus ?thesis using submit_new_keys [OF assms(1) Some] by blast
  qed
next
  case (Cancel i epoch now)
  thus ?thesis using assms(2)
    by (auto simp: handle_def cancel_def rbind_eq_Inr dest!: in_section_keys split: sum.splits option.splits if_splits)
next
  case (Close sid epoch reason now)
  thus ?thesis using assms(2) by (auto simp: handle_def close_def rbind_eq_Inr dest!: in_section_keys split: sum.splits option.splits)
next
  case (Timers now)
  thus ?thesis using assms(2) by (auto simp: handle_def run_timers_once_def rbind_eq_Inr dest!: fold_section_keys)
next
  case (Lane_step sid inp now)
  thus ?thesis using assms(2)
    by (auto simp: handle_def rbind_eq_Inr dict_keys_set_present dict_get_in_keys split: option.splits)
next
  case (Control_take ds)
  thus ?thesis using assms(2) by (auto simp: handle_def control_take_def split: option.splits prod.splits bool.splits list.splits)
next
  case (Control_done ds failed now)
  thus ?thesis using assms(2)
    by (auto simp: handle_def control_done_def Let_def rbind_eq_Inr dest!: in_section_keys split: option.splits control_command.splits)
next
  case (Shutdown now)
  thus ?thesis using assms(2) by (auto simp: handle_def shutdown_def rbind_eq_Inr dest!: fold_section_keys split: if_splits)
next
  case Stop_controls
  thus ?thesis using assms(2) by (auto simp: handle_def stop_controls_def split: if_splits)
qed

definition within_limits :: "broker_config \<Rightarrow> console_session list \<Rightarrow> bool" where
  "within_limits cfg active \<longleftrightarrow> int (length active) \<le> global_total (cfg_limits cfg) \<and>
     (\<forall>u. int (length (filter (\<lambda>s. ses_owner s = u) active)) \<le> per_user (cfg_limits cfg)) \<and>
     (\<forall>d. int (length (filter (\<lambda>s. ses_datasource_id s = d) active)) \<le> per_datasource (cfg_limits cfg))"

lemma filter_mono_length: "list_all2 R xs ys \<Longrightarrow> (\<And>x y. R x y \<Longrightarrow> P y \<Longrightarrow> Q x) \<Longrightarrow> length (filter P ys) \<le> length (filter Q xs)"
  by (induction rule: list_all2_induct) auto

lemma inactive_closed: "(a, b) \<in> SESSION_TRANSITIONS\<^sup>* \<Longrightarrow> b \<in> ACTIVE_CONSOLE_SESSION_STATES \<Longrightarrow> a \<in> ACTIVE_CONSOLE_SESSION_STATES"
  by (induction rule: converse_rtrancl_induct) (assumption, metis inactive_final)

lemma evolves_values:
  assumes "evolves b b'" "dict_keys (b_sessions b') = dict_keys (b_sessions b)" "distinct (dict_keys (b_sessions b))"
  shows "list_all2 runtime_evolves (dict_values (b_sessions b)) (dict_values (b_sessions b'))"
proof (rule list_all2_all_nthI)
  show len: "length (dict_values (b_sessions b)) = length (dict_values (b_sessions b'))" using assms(2) by (metis length_map)
  fix n assume n: "n < length (dict_values (b_sessions b))"
  let ?k = "fst (b_sessions b ! n)"
  have k': "fst (b_sessions b' ! n) = ?k" using assms(2) n len by (metis length_map nth_map)
  have "dict_get (b_sessions b) ?k = Some (snd (b_sessions b ! n))" using assms(3) n by (intro map_of_is_SomeI) auto
  moreover have "dict_get (b_sessions b') ?k = Some (snd (b_sessions b' ! n))"
    using assms(2,3) n len k' by (intro map_of_is_SomeI) (metis, metis length_map nth_mem prod.collapse)
  ultimately have "runtime_evolves (snd (b_sessions b ! n)) (snd (b_sessions b' ! n))" using assms(1) unfolding evolves_def by force
  thus "runtime_evolves (dict_values (b_sessions b) ! n) (dict_values (b_sessions b') ! n)" using n len by simp
qed

lemma active_mono:
  assumes "list_all2 runtime_evolves (dict_values (b_sessions b)) (dict_values (b_sessions b'))"
    and P: "\<And>rt rt'. runtime_evolves rt rt' \<Longrightarrow> P (rt_session rt') \<Longrightarrow> P (rt_session rt)"
  shows "length (filter P (active_sessions b')) \<le> length (filter P (active_sessions b))"
proof -
  have eq: "length (filter P (active_sessions c)) = length (filter (\<lambda>rt. active_session (rt_session rt) \<and> P (rt_session rt)) (dict_values (b_sessions c)))" for c
    by (simp add: active_sessions_def filter_map o_def)
  show ?thesis unfolding eq
  proof (rule filter_mono_length [OF assms(1)])
    fix rt rt' assume ev: "runtime_evolves rt rt'" and a: "active_session (rt_session rt') \<and> P (rt_session rt')"
    have "(rt_state rt, rt_state rt') \<in> SESSION_TRANSITIONS\<^sup>*" using ev by (simp add: runtime_evolves_def Let_def)
    thus "active_session (rt_session rt) \<and> P (rt_session rt)" using a P [OF ev] inactive_closed by blast
  qed
qed

lemma limits_mono:
  assumes "within_limits cfg (active_sessions b)" "list_all2 runtime_evolves (dict_values (b_sessions b)) (dict_values (b_sessions b'))"
  shows "within_limits cfg (active_sessions b')"
proof -
  have "length (active_sessions b') \<le> length (active_sessions b)" using active_mono [OF assms(2), of "\<lambda>_. True"] by simp
  moreover have "length (filter (\<lambda>s. ses_owner s = u) (active_sessions b')) \<le> length (filter (\<lambda>s. ses_owner s = u) (active_sessions b))" for u
    by (rule active_mono [OF assms(2)]) (simp add: runtime_evolves_def Let_def)
  moreover have "length (filter (\<lambda>s. ses_datasource_id s = d) (active_sessions b')) \<le> length (filter (\<lambda>s. ses_datasource_id s = d) (active_sessions b))" for d
    by (rule active_mono [OF assms(2)]) (simp add: runtime_evolves_def Let_def)
  ultimately show ?thesis using assms(1) unfolding within_limits_def by (meson of_nat_mono order_trans)
qed

lemma attach_limits:
  assumes inv: "broker_inv b" and fr: "fresh (Attach rq i ok now) b" and run: "handle cfg digest (Attach rq i ok now) b = Inr (a, b')"
    and lim: "within_limits cfg (active_sessions b)"
  shows "within_limits cfg (active_sessions b')"
proof (cases "dict_keys (b_sessions b') = dict_keys (b_sessions b)")
  case True
  have "evolves b b'" using handle_good [OF inv fr, of cfg digest] run by (auto simp: good_def)
  thus ?thesis using limits_mono [OF lim evolves_values [OF _ True index_invD(1) [OF broker_invD(2) [OF inv]]]] by blast
next
  case False
  have at: "attach cfg rq i ok now b = Inr (a, b')" using run by (simp add: handle_def)
  have reuse_keys: "dict_keys (dict_set (b_sessions b) (ses_id (rt_session rt)) r) = dict_keys (b_sessions b)"
    if "dict_get (b_console_sessions b) c = Some sid" "dict_get (b_sessions b) sid = Some rt" for c sid rt r
    using broker_invD(6) [OF inv that(2)] dict_keys_set_present [OF dict_get_in_keys [OF that(2)]] by simp
  obtain u e where en: "enforce_session_limits cfg rq b = Inr u"
    and b': "b_sessions b' = dict_set (b_sessions b) i (new_runtime cfg (connecting_session rq i (b_boot_id b) e now) now)"
    using at False reuse_keys
    by (auto simp: attach_def mem_attach_session_def Let_def connecting_session_def split: if_splits option.splits sum.splits prod.splits)
  let ?s = "connecting_session rq i (b_boot_id b) e now"
  have new: "i \<notin> fst ` set (b_sessions b)" using fr by (simp add: fresh_def map_of_eq_None_iff)
  have act: "active_sessions b' = active_sessions b @ [?s]"
    by (simp add: active_sessions_def b' dict_keys_set_new [OF new] new_runtime_def) (simp add: connecting_session_def ACTIVE_CONSOLE_SESSION_STATES_def)
  have os: "ses_owner ?s = rq_owner rq" "ses_datasource_id ?s = rq_datasource_id rq" by (simp_all add: connecting_session_def)
  have "int (length (active_sessions b)) < global_total (cfg_limits cfg)"
    "int (length (filter (\<lambda>s. ses_owner s = rq_owner rq) (active_sessions b))) < per_user (cfg_limits cfg)"
    "int (length (filter (\<lambda>s. ses_datasource_id s = rq_datasource_id rq) (active_sessions b))) < per_datasource (cfg_limits cfg)"
    using en by (auto simp: enforce_session_limits_def Let_def split: if_splits)
  thus ?thesis using lim by (auto simp: within_limits_def act os)
qed

lemma step_limits:
  assumes "broker_inv b" "broker_step cfg digest b e a b'" "within_limits cfg (active_sessions b)"
  shows "within_limits cfg (active_sessions b')"
proof -
  have f: "fresh e b" and h: "handle cfg digest e b = Inr (a, b')" using assms(2) by (auto elim: broker_stepE)
  show ?thesis
  proof (cases "\<exists>rq i ok now. e = Attach rq i ok now")
    case True
    thus ?thesis using attach_limits [OF assms(1) _ _ assms(3)] f h by blast
  next
    case False
    hence "dict_keys (b_sessions b') = dict_keys (b_sessions b)" by (intro handle_keys [OF assms(1) h]) blast
    thus ?thesis
      using limits_mono [OF assms(3) evolves_values [OF step_inv(2) [OF assms(1,2)] _ index_invD(1) [OF broker_invD(2) [OF assms(1)]]]] by blast
  qed
qed

lemma run_limits:
  "broker_run cfg digest b es b' \<Longrightarrow> broker_inv b \<Longrightarrow> within_limits cfg (active_sessions b) \<Longrightarrow> within_limits cfg (active_sessions b')"
proof (induction rule: broker_run.induct)
  case (run_snoc b es b1 e a b2)
  thus ?case using step_limits run_inv by blast
qed simp

text \<open>
  C18. The limits on live sessions hold at every moment: in no reachable state are there more live sessions than the configured total, nor
  more of one user or on one datasource than configured for each.
\<close>

theorem session_limits_hold:
  assumes "store_ok st" "check_limits (cfg_limits cfg) = Inr ()" "broker_run cfg digest (empty_broker boot st) es b"
  shows "int (length (active_sessions b)) \<le> global_total (cfg_limits cfg)
    \<and> int (length (filter (\<lambda>s. ses_owner s = u) (active_sessions b))) \<le> per_user (cfg_limits cfg)
    \<and> int (length (filter (\<lambda>s. ses_datasource_id s = d) (active_sessions b))) \<le> per_datasource (cfg_limits cfg)"
proof -
  have "within_limits cfg (active_sessions (empty_broker boot st))"
    using assms(2) by (auto simp: within_limits_def active_sessions_def empty_broker_def check_limits_def split: if_splits)
  from run_limits [OF assms(3) initial_inv [OF assms(1)] this] show ?thesis by (simp add: within_limits_def)
qed

theorem session_limits_hold_witness: "int (length (filter (\<lambda>s. ses_owner s = ''u'') (active_sessions busy_broker))) \<le> 8"
proof -
  have "check_limits (cfg_limits demo_config) = Inr ()" by (simp add: check_limits_def demo_config_def)
  from session_limits_hold [OF demo_store this busy_run, of "''u''" "''d''"] show ?thesis by (simp add: demo_config_def)
qed

end
