(* ===== verification/Broker_Hazards.thy ===== *)
theory Broker_Hazards
  imports Broker_Properties
begin

text \<open>
  Runs of the broker in which \<open>app/broker/core.py\<close> does not do what its comments promise: statements that a lost session leaves
  queued for good, and a cancellation that outlives its statement.
\<close>

section \<open>Statements of a lost session\<close>

text \<open>The session is lost, its lane waits on an empty mailbox, and a statement is still accepted.\<close>

definition stranded :: "string \<Rightarrow> runtime \<Rightarrow> bool" where
  "stranded i rt \<longleftrightarrow> ses_state (rt_session rt) = SESSION_LOST \<and> \<not> rt_accepting rt \<and> \<not> rt_cancel_in_flight rt \<and> rt_mailbox rt = []
     \<and> rt_lane rt = Waiting \<and> rt_current rt = None \<and> state_of (rt_statements rt) i = Some St_accepted \<and> rt_cancel_statement_id rt \<noteq> Some i"

definition stranded_in :: "string \<Rightarrow> string \<Rightarrow> broker \<Rightarrow> bool" where
  "stranded_in sid i b \<longleftrightarrow> (case dict_get (b_sessions b) sid of None \<Rightarrow> False | Some rt \<Rightarrow> stranded i rt)"

lemma stranded_inE:
  assumes "stranded_in sid i b"
  obtains rt where "dict_get (b_sessions b) sid = Some rt" "stranded i rt"
  using assms by (auto simp: stranded_in_def split: option.splits)

lemma stranded_in_section:
  assumes "in_section k f b = Inr b'" "stranded_in sid i b"
    and "\<And>rt sec. k = sid \<Longrightarrow> dict_get (b_sessions b) sid = Some rt \<Longrightarrow> stranded i rt \<Longrightarrow> f (enter b rt) = Inr sec \<Longrightarrow> stranded i (s_rt sec)"
  shows "stranded_in sid i b'"
proof -
  obtain rt sec where s: "dict_get (b_sessions b) k = Some rt" "f (enter b rt) = Inr sec" "b' = leave k sec b"
    using assms(1) by (auto simp: in_section_def rbind_eq_Inr split: option.splits)
  obtain rt0 where r: "dict_get (b_sessions b) sid = Some rt0" "stranded i rt0" using assms(2) by (rule stranded_inE)
  show ?thesis
  proof (cases "k = sid")
    case True
    thus ?thesis using assms(3) [OF True r] s r by (simp add: stranded_in_def leave_def)
  next
    case False
    thus ?thesis using r s(3) by (simp add: stranded_in_def leave_def)
  qed
qed

lemma stranded_fold:
  assumes "fold_r (\<lambda>b k. in_section k f b) b ks = Inr b'" "stranded_in sid i b"
    and "\<And>sec sec'. stranded i (s_rt sec) \<Longrightarrow> f sec = Inr sec' \<Longrightarrow> stranded i (s_rt sec')"
  shows "stranded_in sid i b'"
  using assms(1,2)
proof (induction ks arbitrary: b)
  case (Cons k ks)
  then obtain b1 where b1: "in_section k f b = Inr b1" "fold_r (\<lambda>b k. in_section k f b) b1 ks = Inr b'" by (auto simp: rbind_eq_Inr)
  have "stranded_in sid i b1" by (rule stranded_in_section [OF b1(1) Cons.prems(2)]) (rule assms(3), simp_all add: enter_def)
  thus ?case by (rule Cons.IH [OF b1(2)])
qed simp

lemma stranded_timer: "stranded i (s_rt sec) \<Longrightarrow> timer_section cfg now sec = Inr sec' \<Longrightarrow> stranded i (s_rt sec')"
  by (auto simp: timer_section_def escalate_def stranded_def Let_def split: option.splits)

lemma stranded_cancel_done: "stranded i (s_rt sec) \<Longrightarrow> on_control_cancel_done cfg failed now sec = Inr sec' \<Longrightarrow> stranded i (s_rt sec')"
  by (auto simp: on_control_cancel_done_def settle_cancel_fence_def record_event_def stranded_def rbind_eq_Inr split: option.splits)

lemma stranded_set_statement:
  assumes "stranded i (s_rt sec)" "stm_id x \<noteq> i" "set_statement_state x t now c code summary sec = Inr sec'"
  shows "stranded i (s_rt sec')"
  using assms by (auto simp: set_statement_state_def put_statement_def stranded_def rbind_eq_Inr)

lemma stranded_destroy_done:
  assumes "stranded i (s_rt sec)" "mirrored sec" "on_control_destroy_done failed now sec = Inr sec'"
  shows "stranded i (s_rt sec')"
proof (cases "rt_cancel_statement_id (s_rt sec)")
  case None
  thus ?thesis using assms by (simp add: on_control_destroy_done_def)
next
  case (Some k)
  then obtain x where x: "dict_get (rt_statements (s_rt sec)) k = Some x"
    using assms(3) by (auto simp: on_control_destroy_done_def get_statement_def rbind_eq_Inr split: option.splits)
  have ki: "stm_id x \<noteq> i" using Some assms(1) mirrored_id [OF assms(2) x] by (auto simp: stranded_def)
  define sec1 where "sec1 = record_event (stm_id x) (if failed then ''destroy_failed'' else ''cancel_escalated'') now sec"
  have st1: "stranded i (s_rt sec1)" using assms(1) by (simp add: sec1_def record_event_def)
  obtain sec2 sec3 where s: "(if stm_state x \<notin> TERMINAL_STATEMENT_STATES
        then set_statement_state x (if stm_is_write x then St_outcome_unknown else St_failed) now None
               (Some ''connection_aborted'') (Some ''cancel escalation destroyed the session'') sec1
        else Inr sec1) = Inr sec2" "lose_session ''cancel_escalated'' now sec2 = Inr sec3"
      "sec' = sec3\<lparr>s_rt := (s_rt sec3)\<lparr>rt_current := None, rt_statement_deadline := None\<rparr>\<rparr>"
    using assms(3) unfolding on_control_destroy_done_def Some option.case get_statement_def x rbind_simps Let_def sec1_def [symmetric] rbind_eq_Inr
    by blast
  have "stranded i (s_rt sec2)" using s(1) st1 stranded_set_statement [OF st1 ki] by (auto split: if_splits)
  moreover from this have "sec3 = sec2" using s(2) by (simp add: lose_session_def stranded_def)
  ultimately show ?thesis using s(3) by (simp add: stranded_def)
qed

lemma stranded_lane: "stranded i (s_rt sec) \<Longrightarrow> lane_section cfg inp now sec = None"
  by (cases inp) (auto simp: lane_section_def stranded_def)

lemma stranded_attach:
  assumes "broker_inv b" "stranded_in sid i b" "fresh (Attach rq j ok now) b" "attach cfg rq j ok now b = Inr (a, b')"
  shows "stranded_in sid i b'"
proof -
  obtain rt where rt: "dict_get (b_sessions b) sid = Some rt" "stranded i rt" using assms(2) by (rule stranded_inE)
  have "dict_get (b_sessions b') sid = Some rt"
  proof -
    have ne: "j \<noteq> sid" using assms(3) rt(1) by (auto simp: fresh_def)
    have "ses_id (rt_session r) \<noteq> sid" if "dict_get (b_sessions b) k = Some r" "rt_state r \<in> ACTIVE_CONSOLE_SESSION_STATES" for k r
      using broker_invD(6) [OF assms(1) that(1)] that rt by (auto simp: stranded_def ACTIVE_CONSOLE_SESSION_STATES_def)
    thus ?thesis using assms(4) rt(1) ne
      by (auto simp: attach_def mem_attach_session_def Let_def connecting_session_def split: if_splits option.splits sum.splits prod.splits) blast+
  qed
  thus ?thesis using rt(2) by (simp add: stranded_in_def)
qed

lemma stranded_submit:
  assumes "broker_inv b" "stranded_in sid i b" "submit cfg digest q j r now b = Inr (a, b')"
  shows "stranded_in sid i b'"
proof -
  obtain rt where rt: "dict_get (b_sessions b) sid = Some rt" "stranded i rt" using assms(2) by (rule stranded_inE)
  consider "b' = b" | r' where "dict_get (b_sessions b) (sub_session_id q) = Some r'" "rt_accepting r'" "submit_new cfg digest q j r now r' b = Inr (a, b')"
    using assms(3) by (auto simp: submit_def split: sum.splits option.splits if_splits)
  thus ?thesis
  proof cases
    case 1
    thus ?thesis using assms(2) by simp
  next
    case (2 r')
    have ne: "sub_session_id q \<noteq> sid" using 2 rt by (auto simp: stranded_def)
    have id: "ses_id (rt_session r') = sub_session_id q" by (rule broker_invD(6) [OF assms(1) 2(1)])
    have "dict_get (b_sessions b') sid = Some rt"
      using 2(3) ne rt(1) unfolding submit_new_def id Let_def
      by (auto simp: rbind_eq_Inr in_section_def leave_def split: if_splits option.splits)
    thus ?thesis using rt(2) by (simp add: stranded_in_def)
  qed
qed

lemma stranded_sessions_eq: "stranded_in sid i b \<Longrightarrow> b_sessions b' = b_sessions b \<Longrightarrow> stranded_in sid i b'"
  by (simp add: stranded_in_def)

lemma stranded_ready:
  assumes "stranded_in sid i b" "attach_ready k support b = Inr (a, b')"
  shows "stranded_in sid i b'"
proof (cases "dict_get (b_sessions b) k")
  case None
  thus ?thesis using assms by (simp add: attach_ready_def)
next
  case (Some rt)
  show ?thesis
  proof (cases "rt_lane rt = Not_started")
    case True
    hence ne: "k \<noteq> sid" using assms(1) Some by (auto simp: stranded_in_def stranded_def)
    obtain b1 where "in_section k (\<lambda>sec. rbind (if ses_state (rt_session (s_rt sec)) = CONNECTING
          then put_session ((rt_session (s_rt sec))\<lparr>ses_server_cancel := support\<rparr>) sec else Inr sec) (\<lambda>sec. Inr (set_lane Opening sec)))
        (ensure_control_lane (ses_datasource_id (rt_session rt)) b) = Inr b1" "b' = b1"
      using assms(2) Some True by (auto simp: attach_ready_def Let_def rbind_eq_Inr simp del: if_split)
    moreover have "stranded_in sid i (ensure_control_lane (ses_datasource_id (rt_session rt)) b)"
      by (rule stranded_sessions_eq [OF assms(1)]) (simp add: ensure_control_lane_def)
    ultimately show ?thesis using stranded_in_section ne by blast
  next
    case False
    thus ?thesis using assms Some by (simp add: attach_ready_def)
  qed
qed

lemma stranded_cancel:
  assumes "broker_inv b" "stranded_in sid i b" "cancel cfg j epoch now b = Inr (a, b')" "j \<noteq> i"
  shows "stranded_in sid i b'"
proof -
  obtain rt where rt: "dict_get (b_sessions b) sid = Some rt" "stranded i rt" using assms(2) by (rule stranded_inE)
  consider "b' = b"
    | k r x where "dict_get (b_sessions b) k = Some r" "dict_get (rt_statements r) j = Some x"
        "in_section k (\<lambda>sec. rbind (set_statement_state x St_cancelled now (Some True) None None sec)
           (\<lambda>sec. Inr (record_event (stm_id x) ''cancel_requested'' now sec))) b = Inr b'"
    | k r x where "dict_get (b_sessions b) k = Some r" "rt_current r = Some j" "in_section k (begin_cancel cfg x ''user'' now) b = Inr b'"
    using assms(3) unfolding cancel_def by (auto simp: rbind_eq_Inr split: sum.splits option.splits if_splits)
  thus ?thesis
  proof cases
    case 1
    thus ?thesis using assms(2) by simp
  next
    case (2 k r x)
    have "stm_id x = j" using mirrored_id [OF sec_invD(1) [OF broker_invD(5) [OF assms(1) 2(1)]]] 2(2) by simp
    hence "stm_id x \<noteq> i" using assms(4) by simp
    thus ?thesis
      by (intro stranded_in_section [OF 2(3) assms(2)])
        (auto simp: rbind_eq_Inr record_event_def enter_def dest!: stranded_set_statement [rotated 2])
  next
    case (3 k r x)
    hence "k \<noteq> sid" using rt by (auto simp: stranded_def)
    thus ?thesis using stranded_in_section [OF 3(3) assms(2)] by blast
  qed
qed

lemma stranded_control:
  assumes "broker_inv b" "stranded_in sid i b" "control_done cfg ds failed now b = Inr b'"
  shows "stranded_in sid i b'"
proof (cases "dict_get (b_controls b) ds")
  case None
  thus ?thesis using assms by (simp add: control_done_def)
next
  case (Some k)
  define b1 where "b1 = b\<lparr>b_controls := dict_set (b_controls b) ds (k\<lparr>ctl_busy := None\<rparr>)\<rparr>"
  have s1: "stranded_in sid i b1" by (rule stranded_sessions_eq [OF assms(2)]) (simp add: b1_def)
  have m: "mirrored (enter b1 rt)" if "dict_get (b_sessions b1) sid = Some rt" for rt
    using sec_invD(1) [OF broker_invD(5) [OF assms(1), of sid rt]] that by (simp add: mirrored_def b1_def enter_def)
  have run: "(case ctl_busy k of Some (Cancel_cmd j) \<Rightarrow> in_section j (on_control_cancel_done cfg failed now) b1
      | Some (Destroy_cmd j) \<Rightarrow> in_section j (on_control_destroy_done failed now) b1 | _ \<Rightarrow> Inr b1) = Inr b'"
    using assms(3) unfolding control_done_def Some option.case Let_def b1_def .
  have cd: "stranded_in sid i b'" if "in_section j (on_control_cancel_done cfg failed now) b1 = Inr b'" for j
    by (rule stranded_in_section [OF that s1]) (rule stranded_cancel_done, simp_all only: enter_def section_state.select_convs)
  have dd: "stranded_in sid i b'" if "in_section j (on_control_destroy_done failed now) b1 = Inr b'" for j
    by (rule stranded_in_section [OF that s1]) (rule stranded_destroy_done [OF _ m], simp_all only: enter_def section_state.select_convs)
  show ?thesis
  proof (cases "ctl_busy k")
    case None
    thus ?thesis using run s1 by simp
  next
    case (Some c)
    thus ?thesis using run s1 cd dd by (cases c) simp_all
  qed
qed

lemma stranded_close: "stranded i (s_rt sec) \<Longrightarrow> queue_close cfg reason cur now sec = Inr sec' \<Longrightarrow> stranded i (s_rt sec')"
  by (simp add: queue_close_def stranded_def)

lemma stranded_shutdown:
  "stranded i (s_rt sec) \<Longrightarrow> (if ses_state (rt_session (s_rt sec)) \<in> ACTIVE_CONSOLE_SESSION_STATES then queue_close cfg r True now sec else Inr sec) = Inr sec'
   \<Longrightarrow> stranded i (s_rt sec')"
  by (auto dest: stranded_close split: if_splits)

lemma stranded_step:
  assumes "broker_inv b" "stranded_in sid i b" "broker_step cfg digest b e a b'" "\<And>epoch now. e \<noteq> Cancel i epoch now"
  shows "stranded_in sid i b'"
proof -
  have f: "fresh e b" and h: "handle cfg digest e b = Inr (a, b')" using assms(3) by (auto elim: broker_stepE)
  show ?thesis
  proof (cases e)
    case (Start now)
    thus ?thesis using h by (intro stranded_sessions_eq [OF assms(2)]) (auto simp: handle_def start_broker_def split: if_splits prod.splits)
  next
    case (Attach rq j ok now)
    thus ?thesis using stranded_attach [OF assms(1,2)] f h by (simp add: handle_def)
  next
    case (Attach_ready k support)
    thus ?thesis using stranded_ready [OF assms(2)] h by (simp add: handle_def)
  next
    case (Submit q j r now)
    thus ?thesis using stranded_submit [OF assms(1,2)] h by (simp add: handle_def)
  next
    case (Cancel j epoch now)
    hence "j \<noteq> i" using assms(4) by blast
    thus ?thesis using stranded_cancel [OF assms(1,2)] Cancel h by (simp add: handle_def)
  next
    case (Close k epoch reason now)
    hence "b' = b \<or> in_section k (queue_close cfg reason True now) b = Inr b'"
      using h by (auto simp: handle_def close_def rbind_eq_Inr split: option.splits sum.splits)
    moreover have "stranded_in sid i b'" if "in_section k (queue_close cfg reason True now) b = Inr b'"
      by (rule stranded_in_section [OF that assms(2)]) (rule stranded_close, simp_all only: enter_def section_state.select_convs)
    ultimately show ?thesis using assms(2) by blast
  next
    case (Timers now)
    hence "fold_r (\<lambda>b k. in_section k (timer_section cfg now) b) b (dict_keys (b_sessions b)) = Inr b'"
      using h by (auto simp: handle_def run_timers_once_def rbind_eq_Inr)
    thus ?thesis by (rule stranded_fold [OF _ assms(2)]) (rule stranded_timer)
  next
    case (Lane_step k inp now)
    show ?thesis
    proof (cases "k = sid")
      case True
      obtain rt where rt: "dict_get (b_sessions b) sid = Some rt" "stranded i rt" using assms(2) by (rule stranded_inE)
      have "lane_section cfg inp now (enter b rt) = None" by (rule stranded_lane [where i = i]) (simp add: enter_def rt(2))
      hence "b' = b" using h Lane_step True rt(1) by (simp add: handle_def)
      thus ?thesis using assms(2) by simp
    next
      case False
      thus ?thesis using h Lane_step assms(2) by (auto simp: handle_def rbind_eq_Inr leave_def stranded_in_def split: option.splits)
    qed
  next
    case (Control_take ds)
    thus ?thesis using h by (intro stranded_sessions_eq [OF assms(2)])
      (auto simp: handle_def control_take_def split: option.splits bool.splits list.splits)
  next
    case (Control_done ds failed now)
    thus ?thesis using stranded_control [OF assms(1,2)] h by (auto simp: handle_def rbind_eq_Inr)
  next
    case (Shutdown now)
    let ?b = "b\<lparr>b_shutdown := True\<rparr>"
    let ?fold = "fold_r (\<lambda>b k. in_section k (\<lambda>sec. if ses_state (rt_session (s_rt sec)) \<in> ACTIVE_CONSOLE_SESSION_STATES
        then queue_close cfg ''shutdown'' True now sec else Inr sec) b) ?b (dict_keys (b_sessions b))"
    have "b' = b \<or> ?fold = Inr b'" using h Shutdown by (auto simp: handle_def shutdown_def rbind_eq_Inr split: if_splits)
    moreover have "stranded_in sid i ?b" by (rule stranded_sessions_eq [OF assms(2)]) simp
    moreover have "stranded_in sid i b'" if "?fold = Inr b'" "stranded_in sid i ?b" by (rule stranded_fold [OF that]) (rule stranded_shutdown)
    ultimately show ?thesis using assms(2) by blast
  next
    case Stop_controls
    thus ?thesis using h by (intro stranded_sessions_eq [OF assms(2)]) (auto simp: handle_def stop_controls_def)
  qed
qed

lemma stranded_run:
  "broker_run cfg digest b es b' \<Longrightarrow> broker_inv b \<Longrightarrow> stranded_in sid i b \<Longrightarrow> (\<And>epoch now. Cancel i epoch now \<notin> set es) \<Longrightarrow> stranded_in sid i b'"
proof (induction rule: broker_run.induct)
  case (run_snoc b es b1 e a b2)
  have "broker_inv b1" using run_inv run_snoc.hyps(1) run_snoc.prems(1) by blast
  moreover have "stranded_in sid i b1" using run_snoc by auto
  ultimately show ?case using stranded_step [OF _ _ run_snoc.hyps(2)] run_snoc.prems(3) by auto
qed simp

definition dead_connection :: driver_outcome where
  "dead_connection = Driver_error \<lparr>cl_category = CONNECTION_DEAD, cl_driver_code = Some 2013, cl_summary = ''lost'', cl_server_confirmed = False\<rparr> ''failed'' False"

definition lost_events :: "event list" where
  "lost_events = Lane_step ''s'' (Ended_with dead_connection) 4 # proceed 6"

definition lost_broker :: broker where
  "lost_broker = the (run_events demo_config demo_digest lost_events busy_broker)"

lemma lost_run: "broker_run demo_config demo_digest (empty_broker ''b'' empty_mem_store) (busy_events @ lost_events) lost_broker"
proof -
  have "run_events demo_config demo_digest lost_events busy_broker \<noteq> None" by code_simp
  hence "broker_run demo_config demo_digest busy_broker lost_events lost_broker" unfolding lost_broker_def by (intro run_events_run) auto
  thus ?thesis by (rule broker_run_append [OF _ busy_run])
qed



section \<open>A cancellation that outlives its statement\<close>

definition cancelled_outcome :: "bool \<Rightarrow> driver_outcome" where
  "cancelled_outcome confirmed =
     Driver_error \<lparr>cl_category = CANCELLED, cl_driver_code = Some 1317, cl_summary = ''cancelled'', cl_server_confirmed = confirmed\<rparr> ''failed'' True"

definition leak_events :: "event list" where
  "leak_events =
     [Submit (demo_submit ''1'') ''x'' (Some ''r'') 3, Submit (demo_submit ''2'') ''y'' (Some ''t'') 3, Submit (demo_submit ''3'') ''z'' (Some ''v'') 3] @ proceed 3
     @ [Cancel ''x'' 1 4, Control_take ''d'', Lane_step ''s'' (Ended_with (cancelled_outcome True)) 5] @ proceed 5
     @ [Cancel ''y'' 1 6, Control_done ''d'' False 7, Lane_step ''s'' (Ended_with (cancelled_outcome False)) 8] @ proceed 5"

definition leak_broker :: broker where
  "leak_broker = the (run_events demo_config demo_digest leak_events opened_broker)"

definition stray_cancel :: "string \<Rightarrow> string \<Rightarrow> broker \<Rightarrow> bool" where
  "stray_cancel sid i b \<longleftrightarrow>
     (case dict_get (b_sessions b) sid of
        None \<Rightarrow> False
      | Some rt \<Rightarrow> rt_lane rt = Running i \<and> \<not> rt_cancel_in_flight rt \<and>
          (case (dict_get (rt_statements rt) i, dict_get (b_controls b) (ses_datasource_id (rt_session rt))) of
             (Some x, Some k) \<Rightarrow> \<not> stm_cancel_requested x \<and> Cancel_cmd sid \<in> set (ctl_queue k)
           | _ \<Rightarrow> False))"

text \<open>
  The fence around a cancellation leaks: the report of the cancellation of one statement that its own end overtook is counted for the
  cancellation of the next, and a third statement, which nobody asked to cancel, executes while the control lane still holds a cancellation
  of its session; the server then ends it as cancelled.
\<close>

theorem cancel_fence_leaks:
  "\<exists>es b b' x. broker_run demo_config demo_digest (empty_broker ''b'' empty_mem_store) es b \<and> stray_cancel ''s'' ''z'' b
     \<and> broker_run demo_config demo_digest b ([Control_take ''d'', Lane_step ''s'' (Ended_with (cancelled_outcome True)) 9] @ proceed 1) b'
     \<and> statement_of ''z'' b' = Inr x \<and> stm_state x = St_cancelled \<and> \<not> stm_cancel_requested x"
proof -
  let ?es = "[Control_take ''d'', Lane_step ''s'' (Ended_with (cancelled_outcome True)) 9] @ proceed 1"
  have "run_events demo_config demo_digest leak_events opened_broker \<noteq> None" by code_simp
  hence r: "broker_run demo_config demo_digest opened_broker leak_events leak_broker" unfolding leak_broker_def by (intro run_events_run) auto
  have s: "stray_cancel ''s'' ''z'' leak_broker" by code_simp
  have "case run_events demo_config demo_digest ?es leak_broker of None \<Rightarrow> False
    | Some b \<Rightarrow> (case statement_of ''z'' b of Inl _ \<Rightarrow> False | Inr x \<Rightarrow> stm_state x = St_cancelled \<and> \<not> stm_cancel_requested x)" by code_simp
  then obtain b' x where "run_events demo_config demo_digest ?es leak_broker = Some b'" "statement_of ''z'' b' = Inr x" "stm_state x = St_cancelled"
    "\<not> stm_cancel_requested x" by (auto split: option.splits sum.splits)
  thus ?thesis using broker_run_append [OF r opened_run] s run_events_run by blast
qed

end
