(* ===== verification/Result_Store.thy ===== *)
theory Result_Store
  imports Prelude
begin

text \<open>
  \<open>LocalFsResultStore\<close> of \<open>app/infrastructure/resultstore/local_fs.py\<close>: the rows of a result set in part files below a directory of
  its own, with a manifest that is rewritten on every change. The state is what lies on the disk: the directories with their times of
  modification, the manifests, and the part files, which \<open>resultsets/<id>/parts/part-<n>.parquet\<close> addresses by id and number. A
  manifest is the value its JSON text reads back as. The size of a part file is decided by the Parquet writer and is a parameter
  \<open>size_of\<close>; rows and columns are opaque. Times are seconds.
\<close>

section \<open>Data\<close>

datatype result_store_error =
    Invalid_segment
  | Sealed_spool
  | Same_snapshot_id
  | Manifest_missing string
  | Snapshot_exists
  | Part_missing "string \<times> nat"
  | Negative_offset
  | Negative_limit

record store_config =
  spool_max_rows :: int
  spool_max_bytes :: int
  result_ttl_days :: int
  sql_export_ttl_hours :: int
  upload_ttl_hours :: int

definition check_store_config :: "store_config \<Rightarrow> (string, unit) result" where
  "check_store_config c =
     (if spool_max_rows c \<le> 0 then Inl ''spool_max_rows must be positive''
      else if spool_max_bytes c \<le> 0 then Inl ''spool_max_bytes must be positive''
      else if sql_export_ttl_hours c \<le> 0 then Inl ''sql_export_ttl_hours must be positive''
      else if upload_ttl_hours c \<le> 0 then Inl ''upload_ttl_hours must be positive''
      else Inr ())"

record part_info =
  pi_path :: "string \<times> nat"
  pi_rows :: int
  pi_bytes :: int

record 'c spool_manifest =
  sm_result_set_id :: string
  sm_parts :: "part_info list"
  sm_columns :: "'c list"
  sm_loaded_rows :: int
  sm_data_bytes :: int
  sm_sealed :: bool
  sm_truncated :: bool
  sm_has_more :: bool
  sm_pagination_mode :: "string option"
  sm_pagination_reason :: "string option"
  sm_result_version :: int
  sm_first_batch_at :: "int option"
  sm_created_at :: int
  sm_updated_at :: int

definition new_manifest :: "string \<Rightarrow> int \<Rightarrow> 'c spool_manifest" where
  "new_manifest i now = \<lparr>sm_result_set_id = i, sm_parts = [], sm_columns = [], sm_loaded_rows = 0, sm_data_bytes = 0, sm_sealed = False,
     sm_truncated = False, sm_has_more = False, sm_pagination_mode = None, sm_pagination_reason = None, sm_result_version = 0,
     sm_first_batch_at = None, sm_created_at = now, sm_updated_at = now\<rparr>"

record ('c, 'r) result_store =
  rs_dirs :: "(string, int) dict"
  rs_manifests :: "(string, 'c spool_manifest) dict"
  rs_files :: "(string \<times> nat, 'r list) dict"
  rs_runs :: "(string, int) dict"
  rs_exports :: "(string, int) dict"
  rs_uploads :: "(string, int) dict"

definition empty_store :: "('c, 'r) result_store" where
  "empty_store = \<lparr>rs_dirs = [], rs_manifests = [], rs_files = [], rs_runs = [], rs_exports = [], rs_uploads = []\<rparr>"

section \<open>Directories and manifests\<close>

definition safe_segment :: "string \<Rightarrow> (result_store_error, string) result" where
  "safe_segment v = (if v = [] \<or> CHR ''/'' \<in> set v \<or> CHR 0x5C \<in> set v \<or> v = ''.'' \<or> v = ''..'' then Inl Invalid_segment else Inr v)"

definition make_dir :: "string \<Rightarrow> int \<Rightarrow> ('c, 'r) result_store \<Rightarrow> ('c, 'r) result_store" where
  "make_dir i now s = (if dict_get (rs_dirs s) i = None then s\<lparr>rs_dirs := dict_set (rs_dirs s) i now\<rparr> else s)"

definition read_spool_manifest ::
    "string \<Rightarrow> int \<Rightarrow> ('c, 'r) result_store \<Rightarrow> (result_store_error, 'c spool_manifest \<times> ('c, 'r) result_store) result" where
  "read_spool_manifest i now s =
     rbind (safe_segment i) (\<lambda>i.
       Inr (case dict_get (rs_manifests s) i of None \<Rightarrow> new_manifest i now | Some m \<Rightarrow> m, make_dir i now s))"

text \<open>The version is counted up, and the dictionary form marks every truncated spool as having more rows.\<close>

definition stored :: "'c spool_manifest \<Rightarrow> 'c spool_manifest" where
  "stored m = m\<lparr>sm_result_version := sm_result_version m + 1, sm_has_more := sm_has_more m \<or> sm_truncated m\<rparr>"

definition write_spool_manifest :: "'c spool_manifest \<Rightarrow> int \<Rightarrow> ('c, 'r) result_store \<Rightarrow> ('c, 'r) result_store" where
  "write_spool_manifest m now s =
     s\<lparr>rs_manifests := dict_set (rs_manifests s) (sm_result_set_id m) (stored m), rs_dirs := dict_set (rs_dirs s) (sm_result_set_id m) now\<rparr>"

definition get_spool_manifest ::
    "string \<Rightarrow> int \<Rightarrow> ('c, 'r) result_store \<Rightarrow> (result_store_error, 'c spool_manifest \<times> ('c, 'r) result_store) result" where
  "get_spool_manifest i now s =
     rbind (read_spool_manifest i now s) (\<lambda>(m, s). Inr (m\<lparr>sm_has_more := sm_has_more m \<or> sm_truncated m\<rparr>, s))"

definition spool_exists :: "string \<Rightarrow> ('c, 'r) result_store \<Rightarrow> (result_store_error, bool) result" where
  "spool_exists i s = rbind (safe_segment i) (\<lambda>i. Inr (dict_get (rs_manifests s) i \<noteq> None))"

section \<open>Appending\<close>

text \<open>The search for the longest prefix that fits: the loop of \<open>_fit_rows_to_remaining_bytes\<close>.\<close>

function fit_loop :: "('r list \<Rightarrow> int) \<Rightarrow> 'r list \<Rightarrow> int \<Rightarrow> int \<Rightarrow> int \<Rightarrow> int \<Rightarrow> int" where
  "fit_loop size_of rows room low high best =
     (if low > high then best
      else let mid = (low + high) div 2 in
        if mid = 0 then fit_loop size_of rows room 1 high best
        else if size_of (take (nat mid) rows) \<le> room then fit_loop size_of rows room (mid + 1) high mid
        else fit_loop size_of rows room low (mid - 1) best)"
  by pat_completeness auto
termination
  by (relation "measure (\<lambda>(_, _, _, low, high, _). nat (high - low + 1))") auto

declare fit_loop.simps [simp del]

definition fit_rows :: "('r list \<Rightarrow> int) \<Rightarrow> 'r list \<Rightarrow> int \<Rightarrow> 'r list" where
  "fit_rows size_of rows room =
     (if size_of rows \<le> room then rows else take (nat (fit_loop size_of rows room 0 (int (length rows)) 0)) rows)"

definition append_part :: "store_config \<Rightarrow> ('r list \<Rightarrow> int) \<Rightarrow> 'r list \<Rightarrow> 'r list \<Rightarrow> int \<Rightarrow> 'c spool_manifest \<Rightarrow> 'c spool_manifest" where
  "append_part cfg size_of candidate written now m =
     (let m1 = m\<lparr>sm_truncated := sm_truncated m \<or> length written < length candidate,
            sm_parts := sm_parts m @ [\<lparr>pi_path = (sm_result_set_id m, length (sm_parts m) + 1), pi_rows = int (length written), pi_bytes = size_of written\<rparr>],
            sm_loaded_rows := sm_loaded_rows m + int (length written), sm_data_bytes := sm_data_bytes m + size_of written, sm_updated_at := now,
            sm_first_batch_at := (if sm_loaded_rows m = 0 then Some now else sm_first_batch_at m)\<rparr>
      in if sm_loaded_rows m1 \<ge> spool_max_rows cfg \<or> sm_data_bytes m1 \<ge> spool_max_bytes cfg then m1\<lparr>sm_truncated := True\<rparr> else m1)"

definition append_spool ::
    "store_config \<Rightarrow> ('r list \<Rightarrow> int) \<Rightarrow> string \<Rightarrow> 'r list \<Rightarrow> int \<Rightarrow> ('c, 'r) result_store \<Rightarrow> (result_store_error, ('c, 'r) result_store) result" where
  "append_spool cfg size_of i rows now s =
     (if rows = [] then Inr s
      else rbind (read_spool_manifest i now s) (\<lambda>(m, s).
        if sm_sealed m then Inl Sealed_spool
        else if sm_truncated m then Inr s
        else
          let remaining_rows = spool_max_rows cfg - sm_loaded_rows m;
              remaining_bytes = spool_max_bytes cfg - sm_data_bytes m;
              candidate = take (nat remaining_rows) rows;
              written = fit_rows size_of candidate remaining_bytes;
              m1 = m\<lparr>sm_truncated := length candidate < length rows\<rparr>
          in if remaining_rows \<le> 0 \<or> remaining_bytes \<le> 0 \<or> written = []
             then Inr (write_spool_manifest (m\<lparr>sm_truncated := True\<rparr>) now s)
             else Inr (write_spool_manifest (append_part cfg size_of candidate written now m1) now
                    (s\<lparr>rs_files := dict_set (rs_files s) (i, length (sm_parts m) + 1) written\<rparr>))))"

section \<open>Marks, columns and pages\<close>

definition change_manifest ::
    "string \<Rightarrow> int \<Rightarrow> ('c spool_manifest \<Rightarrow> 'c spool_manifest) \<Rightarrow> ('c, 'r) result_store \<Rightarrow> (result_store_error, ('c, 'r) result_store) result" where
  "change_manifest i now f s =
     rbind (read_spool_manifest i now s) (\<lambda>(m, s).
       if sm_sealed m then Inl Sealed_spool else Inr (write_spool_manifest ((f m)\<lparr>sm_updated_at := now\<rparr>) now s))"

definition mark_spool_truncated :: "string \<Rightarrow> int \<Rightarrow> ('c, 'r) result_store \<Rightarrow> (result_store_error, ('c, 'r) result_store) result" where
  "mark_spool_truncated i now s =
     rbind (read_spool_manifest i now s) (\<lambda>(m, s1).
       if sm_sealed m then Inl Sealed_spool
       else if sm_truncated m \<and> sm_has_more m then Inr s1
       else change_manifest i now (\<lambda>m. m\<lparr>sm_truncated := True, sm_has_more := True\<rparr>) s)"

definition set_spool_pagination ::
    "string \<Rightarrow> bool \<Rightarrow> string \<Rightarrow> string option \<Rightarrow> int \<Rightarrow> ('c, 'r) result_store \<Rightarrow> (result_store_error, ('c, 'r) result_store) result" where
  "set_spool_pagination i has_more mode reason now =
     change_manifest i now (\<lambda>m. m\<lparr>sm_has_more := has_more \<or> sm_truncated m, sm_pagination_mode := Some mode, sm_pagination_reason := reason\<rparr>)"

definition set_spool_columns :: "string \<Rightarrow> 'c list \<Rightarrow> int \<Rightarrow> ('c, 'r) result_store \<Rightarrow> (result_store_error, ('c, 'r) result_store) result" where
  "set_spool_columns i columns now = change_manifest i now (\<lambda>m. m\<lparr>sm_columns := columns\<rparr>)"

definition read_part_rows :: "(string \<times> nat, 'r list) dict \<Rightarrow> string \<times> nat \<Rightarrow> int \<Rightarrow> int \<Rightarrow> (result_store_error, 'r list) result" where
  "read_part_rows files path offset limit =
     (case dict_get files path of None \<Rightarrow> Inl (Part_missing path) | Some rows \<Rightarrow> Inr (take (nat limit) (drop (nat offset) rows)))"

fun fetch_loop :: "(string \<times> nat, 'r list) dict \<Rightarrow> int \<Rightarrow> int \<Rightarrow> int \<Rightarrow> part_info list \<Rightarrow> int \<Rightarrow> 'r list \<Rightarrow> (result_store_error, 'r list) result" where
  "fetch_loop files wanted_start wanted_end limit [] current_start out = Inr out"
| "fetch_loop files wanted_start wanted_end limit (p # ps) current_start out =
     (let current_end = current_start + pi_rows p in
      if current_end \<le> wanted_start then fetch_loop files wanted_start wanted_end limit ps current_end out
      else if current_start \<ge> wanted_end then Inr out
      else
        let local_start = max (wanted_start - current_start) 0;
            local_end = min (wanted_end - current_start) (pi_rows p)
        in rbind (read_part_rows files (pi_path p) local_start (local_end - local_start)) (\<lambda>rows.
             if int (length (out @ rows)) \<ge> limit then Inr (out @ rows)
             else fetch_loop files wanted_start wanted_end limit ps current_end (out @ rows)))"

definition fetch_range ::
    "string \<Rightarrow> int \<Rightarrow> int \<Rightarrow> int \<Rightarrow> ('c, 'r) result_store \<Rightarrow> (result_store_error, 'r list \<times> ('c, 'r) result_store) result" where
  "fetch_range i offset limit now s =
     (if offset < 0 then Inl Negative_offset
      else if limit < 0 then Inl Negative_limit
      else if limit = 0 then Inr ([], s)
      else rbind (read_spool_manifest i now s) (\<lambda>(m, s).
        rbind (fetch_loop (rs_files s) offset (offset + limit) limit (sm_parts m) 0 []) (\<lambda>out. Inr (take (nat limit) out, s))))"

section \<open>Snapshots and removal\<close>

record 'c spool_snapshot =
  sn_result_set_id :: string
  sn_columns :: "'c list"
  sn_loaded_rows :: int
  sn_data_bytes :: int
  sn_truncated :: bool
  sn_has_more :: bool

definition snapshot_part ::
    "('r list \<Rightarrow> int) \<Rightarrow> (string \<times> nat, 'r list) dict \<Rightarrow> string \<Rightarrow> part_info \<Rightarrow> (result_store_error, part_info \<times> 'r list) result" where
  "snapshot_part size_of files target p =
     (case dict_get files (pi_path p) of
        None \<Rightarrow> Inl (Part_missing (pi_path p))
      | Some rows \<Rightarrow> Inr (\<lparr>pi_path = (target, snd (pi_path p)), pi_rows = pi_rows p, pi_bytes = size_of rows\<rparr>, rows))"

definition snapshot_manifest :: "string \<Rightarrow> part_info list \<Rightarrow> int \<Rightarrow> 'c spool_manifest \<Rightarrow> 'c spool_manifest" where
  "snapshot_manifest target parts now m =
     m\<lparr>sm_result_set_id := target, sm_parts := parts, sm_data_bytes := sum_list (map pi_bytes parts), sm_sealed := True, sm_result_version := 0,
       sm_created_at := now, sm_updated_at := now\<rparr>"

text \<open>
  The parts are linked or copied into a temporary directory, which is renamed at the end; a part that is missing leaves nothing behind.
\<close>

definition snapshot_spool ::
    "('r list \<Rightarrow> int) \<Rightarrow> string \<Rightarrow> string \<Rightarrow> int \<Rightarrow> ('c, 'r) result_store \<Rightarrow> (result_store_error, 'c spool_snapshot \<times> ('c, 'r) result_store) result" where
  "snapshot_spool size_of source target now s =
     rbind (safe_segment source) (\<lambda>_.
     rbind (safe_segment target) (\<lambda>_.
     if source = target then Inl Same_snapshot_id
     else case dict_get (rs_manifests s) source of
        None \<Rightarrow> Inl (Manifest_missing source)
      | Some m \<Rightarrow>
          if dict_get (rs_dirs s) target \<noteq> None then Inl Snapshot_exists
          else rbind (map_r (snapshot_part size_of (rs_files s) target) (sm_parts m)) (\<lambda>copies.
            let m1 = snapshot_manifest target (map fst copies) now m in
            Inr (\<lparr>sn_result_set_id = target, sn_columns = sm_columns m1, sn_loaded_rows = sm_loaded_rows m1, sn_data_bytes = sm_data_bytes m1,
                   sn_truncated = sm_truncated m1, sn_has_more = sm_has_more m1 \<or> sm_truncated m1\<rparr>,
                 write_spool_manifest m1 now
                   (s\<lparr>rs_files := fold (\<lambda>c files. dict_set files (pi_path (fst c)) (snd c)) copies (rs_files s)\<rparr>)))))"

definition remove_dirs :: "(string \<Rightarrow> bool) \<Rightarrow> ('c, 'r) result_store \<Rightarrow> ('c, 'r) result_store" where
  "remove_dirs gone s = s\<lparr>rs_dirs := filter (\<lambda>(i, _). \<not> gone i) (rs_dirs s), rs_manifests := filter (\<lambda>(i, _). \<not> gone i) (rs_manifests s),
     rs_files := filter (\<lambda>((i, _), _). \<not> gone i) (rs_files s)\<rparr>"

definition delete_spool :: "string \<Rightarrow> ('c, 'r) result_store \<Rightarrow> (result_store_error, bool \<times> ('c, 'r) result_store) result" where
  "delete_spool i s =
     rbind (safe_segment i) (\<lambda>_. if dict_get (rs_dirs s) i = None then Inr (False, s) else Inr (True, remove_dirs (\<lambda>j. j = i) s))"

text \<open>The children of a directory that a collection removes: modified before the cutoff and not kept.\<close>

definition expired :: "int \<Rightarrow> string list \<Rightarrow> (string, int) dict \<Rightarrow> string list" where
  "expired cutoff keep children = map fst (filter (\<lambda>(i, mtime). i \<notin> set keep \<and> mtime < cutoff) children)"

definition drop_children :: "string list \<Rightarrow> (string, int) dict \<Rightarrow> (string, int) dict" where
  "drop_children gone children = filter (\<lambda>(i, _). i \<notin> set gone) children"

definition gc_expired :: "store_config \<Rightarrow> string list \<Rightarrow> int \<Rightarrow> ('c, 'r) result_store \<Rightarrow> (result_store_error, nat \<times> ('c, 'r) result_store) result" where
  "gc_expired cfg keep now s =
     rbind (map_r safe_segment keep) (\<lambda>keep.
       let cutoff = now - result_ttl_days cfg * 24 * 60 * 60;
           runs = (if result_ttl_days cfg \<ge> 0 then expired cutoff [] (rs_runs s) else []);
           sets = (if result_ttl_days cfg \<ge> 0 then expired cutoff keep (rs_dirs s) else []);
           exports = expired (now - sql_export_ttl_hours cfg * 60 * 60) [] (rs_exports s);
           uploads = expired (now - upload_ttl_hours cfg * 60 * 60) [] (rs_uploads s);
           s = remove_dirs (\<lambda>i. i \<in> set sets) s
       in Inr (length runs + length sets + length exports + length uploads,
            s\<lparr>rs_runs := drop_children runs (rs_runs s), rs_exports := drop_children exports (rs_exports s),
              rs_uploads := drop_children uploads (rs_uploads s)\<rparr>))"

section \<open>Sequences of operations\<close>

datatype ('c, 'r) store_op =
    Append string "'r list"
  | Mark_truncated string
  | Set_pagination string bool string "string option"
  | Set_columns string "'c list"
  | Read string
  | Fetch string int int
  | Snapshot string string
  | Delete string
  | Collect "string list"

definition store_apply ::
    "store_config \<Rightarrow> ('r list \<Rightarrow> int) \<Rightarrow> int \<Rightarrow> ('c, 'r) store_op \<Rightarrow> ('c, 'r) result_store \<Rightarrow> (result_store_error, ('c, 'r) result_store) result" where
  "store_apply cfg size_of now op s =
     (case op of
        Append i rows \<Rightarrow> append_spool cfg size_of i rows now s
      | Mark_truncated i \<Rightarrow> mark_spool_truncated i now s
      | Set_pagination i has_more mode reason \<Rightarrow> set_spool_pagination i has_more mode reason now s
      | Set_columns i columns \<Rightarrow> set_spool_columns i columns now s
      | Read i \<Rightarrow> rbind (get_spool_manifest i now s) (\<lambda>(_, s). Inr s)
      | Fetch i offset limit \<Rightarrow> rbind (fetch_range i offset limit now s) (\<lambda>(_, s). Inr s)
      | Snapshot i j \<Rightarrow> rbind (snapshot_spool size_of i j now s) (\<lambda>(_, s). Inr s)
      | Delete i \<Rightarrow> rbind (delete_spool i s) (\<lambda>(_, s). Inr s)
      | Collect keep \<Rightarrow> rbind (gc_expired cfg keep now s) (\<lambda>(_, s). Inr s))"

text \<open>An operation that fails leaves the store as it was.\<close>

fun store_run :: "store_config \<Rightarrow> ('r list \<Rightarrow> int) \<Rightarrow> (int \<times> ('c, 'r) store_op) list \<Rightarrow> ('c, 'r) result_store \<Rightarrow> ('c, 'r) result_store" where
  "store_run cfg size_of [] s = s"
| "store_run cfg size_of ((now, op) # ops) s =
     store_run cfg size_of ops (case store_apply cfg size_of now op s of Inl _ \<Rightarrow> s | Inr s' \<Rightarrow> s')"

end
