(* ===== verification/Result_Spool.thy ===== *)
theory Result_Spool
  imports Result_Store
begin

text \<open>
  What the spools of \<open>Result_Store\<close> hold and promise: an invariant of the files and manifests, the rows of a spool as a list, and the effect
  of appending, reading, copying and removing on that list.
\<close>

section \<open>Invariant and contents\<close>

definition part_ok :: "('r list \<Rightarrow> int) \<Rightarrow> (string \<times> nat, 'r list) dict \<Rightarrow> part_info \<Rightarrow> bool" where
  "part_ok size_of files p \<longleftrightarrow> (case dict_get files (pi_path p) of None \<Rightarrow> False
     | Some rows \<Rightarrow> rows \<noteq> [] \<and> pi_rows p = int (length rows) \<and> pi_bytes p = size_of rows)"

text \<open>The parts of a spool are numbered from one.\<close>

fun part_paths :: "string \<Rightarrow> nat \<Rightarrow> (string \<times> nat) list" where
  "part_paths i 0 = []"
| "part_paths i (Suc n) = part_paths i n @ [(i, Suc n)]"

lemma set_part_paths: "p \<in> set (part_paths i n) \<longleftrightarrow> fst p = i \<and> 1 \<le> snd p \<and> snd p \<le> n"
  by (induction n) (auto simp: prod_eq_iff)

definition manifest_ok :: "store_config \<Rightarrow> ('r list \<Rightarrow> int) \<Rightarrow> (string \<times> nat, 'r list) dict \<Rightarrow> string \<Rightarrow> 'c spool_manifest \<Rightarrow> bool" where
  "manifest_ok cfg size_of files i m \<longleftrightarrow> sm_result_set_id m = i
     \<and> map pi_path (sm_parts m) = part_paths i (length (sm_parts m))
     \<and> list_all (part_ok size_of files) (sm_parts m)
     \<and> sm_loaded_rows m = sum_list (map pi_rows (sm_parts m)) \<and> sm_data_bytes m = sum_list (map pi_bytes (sm_parts m))
     \<and> sm_loaded_rows m \<le> spool_max_rows cfg \<and> sm_data_bytes m \<le> spool_max_bytes cfg"

definition version_ok :: "'c spool_manifest \<Rightarrow> bool" where
  "version_ok m \<longleftrightarrow> 0 < sm_result_version m \<and> (sm_truncated m \<longrightarrow> sm_has_more m)"

definition spool_inv :: "store_config \<Rightarrow> ('r list \<Rightarrow> int) \<Rightarrow> ('c, 'r) result_store \<Rightarrow> bool" where
  "spool_inv cfg size_of s \<longleftrightarrow> 0 < spool_max_rows cfg \<and> 0 < spool_max_bytes cfg
     \<and> (\<forall>i m. dict_get (rs_manifests s) i = Some m \<longrightarrow> manifest_ok cfg size_of (rs_files s) i m \<and> version_ok m \<and> i \<in> set (dict_keys (rs_dirs s)))"

definition file_rows :: "(string \<times> nat, 'r list) dict \<Rightarrow> part_info \<Rightarrow> 'r list" where
  "file_rows files p = (case dict_get files (pi_path p) of None \<Rightarrow> [] | Some rows \<Rightarrow> rows)"

definition manifest_rows :: "(string \<times> nat, 'r list) dict \<Rightarrow> 'c spool_manifest \<Rightarrow> 'r list" where
  "manifest_rows files m = concat (map (file_rows files) (sm_parts m))"

definition spool_rows :: "('c, 'r) result_store \<Rightarrow> string \<Rightarrow> 'r list" where
  "spool_rows s i = (case dict_get (rs_manifests s) i of None \<Rightarrow> [] | Some m \<Rightarrow> manifest_rows (rs_files s) m)"

definition spool_truncated :: "('c, 'r) result_store \<Rightarrow> string \<Rightarrow> bool" where
  "spool_truncated s i \<longleftrightarrow> (case dict_get (rs_manifests s) i of None \<Rightarrow> False | Some m \<Rightarrow> sm_truncated m)"

definition spool_sealed :: "('c, 'r) result_store \<Rightarrow> string \<Rightarrow> bool" where
  "spool_sealed s i \<longleftrightarrow> (case dict_get (rs_manifests s) i of None \<Rightarrow> False | Some m \<Rightarrow> sm_sealed m)"

definition safe_id :: "string \<Rightarrow> bool" where
  "safe_id i \<longleftrightarrow> i \<noteq> [] \<and> CHR ''/'' \<notin> set i \<and> CHR 0x5C \<notin> set i \<and> i \<noteq> ''.'' \<and> i \<noteq> ''..''"

lemma safe_segment_Inr [simp]: "safe_segment i = Inr j \<longleftrightarrow> safe_id i \<and> j = i"
  by (auto simp: safe_segment_def safe_id_def)

lemma safe_id_segment [simp]: "safe_id i \<Longrightarrow> safe_segment i = Inr i"
  by simp

lemma part_ok_rows: "part_ok size_of files p \<Longrightarrow> pi_rows p = int (length (file_rows files p)) \<and> pi_bytes p = size_of (file_rows files p) \<and> file_rows files p \<noteq> []"
  by (auto simp: part_ok_def file_rows_def split: option.splits)

lemma sum_rows: "list_all (part_ok size_of files) ps \<Longrightarrow> sum_list (map pi_rows ps) = int (length (concat (map (file_rows files) ps)))"
  by (induction ps) (auto dest: part_ok_rows)

lemma manifest_ok_length: "manifest_ok cfg size_of files i m \<Longrightarrow> sm_loaded_rows m = int (length (manifest_rows files m))"
  unfolding manifest_ok_def manifest_rows_def by (metis sum_rows)

lemma manifest_ok_path: "manifest_ok cfg size_of files i m \<Longrightarrow> p \<in> set (sm_parts m) \<Longrightarrow> \<exists>k. pi_path p = (i, k) \<and> 1 \<le> k \<and> k \<le> length (sm_parts m)"
proof -
  assume "manifest_ok cfg size_of files i m" "p \<in> set (sm_parts m)"
  hence "pi_path p \<in> set (part_paths i (length (sm_parts m)))" unfolding manifest_ok_def by (metis image_eqI set_map)
  thus ?thesis unfolding set_part_paths by (metis prod.collapse)
qed

text \<open>A spool is as it was when its own files are.\<close>

lemma part_ok_cong: "dict_get files (pi_path p) = dict_get files' (pi_path p) \<Longrightarrow> part_ok size_of files p = part_ok size_of files' p \<and> file_rows files p = file_rows files' p"
  by (simp add: part_ok_def file_rows_def)

lemma manifest_ok_cong:
  assumes "manifest_ok cfg size_of files i m" "\<And>k. dict_get files' (i, k) = dict_get files (i, k)"
  shows "manifest_ok cfg size_of files' i m \<and> manifest_rows files' m = manifest_rows files m"
proof -
  have "part_ok size_of files' p = part_ok size_of files p \<and> file_rows files' p = file_rows files p" if "p \<in> set (sm_parts m)" for p
    using manifest_ok_path [OF assms(1) that] assms(2) by (intro part_ok_cong) auto
  thus ?thesis using assms(1) unfolding manifest_ok_def manifest_rows_def list_all_iff by (auto intro!: arg_cong [where f = concat])
qed

lemma spool_invD: "spool_inv cfg size_of s \<Longrightarrow> dict_get (rs_manifests s) i = Some m \<Longrightarrow> manifest_ok cfg size_of (rs_files s) i m \<and> version_ok m \<and> i \<in> set (dict_keys (rs_dirs s))"
  by (simp add: spool_inv_def)

lemma make_dir_simps [simp]: "rs_manifests (make_dir i now s) = rs_manifests s" "rs_files (make_dir i now s) = rs_files s"
  "fst ` set (rs_dirs (make_dir i now s)) = insert i (fst ` set (rs_dirs s))"
  by (auto simp: make_dir_def dict_keys_set dest!: dict_get_in_keys)

lemma make_dir_files: "(make_dir i now s)\<lparr>rs_files := files\<rparr> = make_dir i now (s\<lparr>rs_files := files\<rparr>)"
  by (cases s) (simp add: make_dir_def)

lemma make_dir_inv: "spool_inv cfg size_of s \<Longrightarrow> spool_inv cfg size_of (make_dir i now s)"
  by (auto simp: spool_inv_def)

lemma new_manifest_ok: "spool_inv cfg size_of s \<Longrightarrow> manifest_ok cfg size_of files i (new_manifest i now)"
  by (simp add: spool_inv_def manifest_ok_def new_manifest_def)

lemma read_manifest:
  assumes "spool_inv cfg size_of s" "read_spool_manifest i now s = Inr (m, s')"
  shows "safe_id i" "s' = make_dir i now s" "manifest_ok cfg size_of (rs_files s) i m" "spool_rows s i = manifest_rows (rs_files s) m"
    "spool_truncated s i = sm_truncated m" "spool_sealed s i = sm_sealed m" "0 \<le> sm_result_version m"
proof -
  have r: "safe_id i" "s' = make_dir i now s" "m = (case dict_get (rs_manifests s) i of None \<Rightarrow> new_manifest i now | Some m \<Rightarrow> m)"
    using assms(2) by (auto simp: read_spool_manifest_def rbind_eq_Inr)
  thus "safe_id i" "s' = make_dir i now s" by auto
  show "manifest_ok cfg size_of (rs_files s) i m" using spool_invD [OF assms(1)] new_manifest_ok [OF assms(1)] r(3) by (auto split: option.splits)
  show "0 \<le> sm_result_version m" using spool_invD [OF assms(1), of i m] r(3) by (auto simp: version_ok_def new_manifest_def split: option.splits)
  show "spool_rows s i = manifest_rows (rs_files s) m" "spool_truncated s i = sm_truncated m" "spool_sealed s i = sm_sealed m"
    using r(3) by (auto simp: spool_rows_def spool_truncated_def spool_sealed_def new_manifest_def manifest_rows_def split: option.splits)
qed

text \<open>Writing a manifest that fits the files keeps the invariant.\<close>

lemma stored_simps [simp]: "manifest_ok cfg size_of files i (stored m) = manifest_ok cfg size_of files i m"
  "manifest_rows files (stored m) = manifest_rows files m" "sm_truncated (stored m) = sm_truncated m" "sm_sealed (stored m) = sm_sealed m"
  "0 \<le> sm_result_version m \<Longrightarrow> version_ok (stored m)" "sm_result_version (stored m) = sm_result_version m + 1"
  by (auto simp: stored_def manifest_ok_def manifest_rows_def version_ok_def)

lemma write_manifest_inv:
  assumes "spool_inv cfg size_of s" "manifest_ok cfg size_of files i m" "0 \<le> sm_result_version m"
    and "\<And>j k. j \<noteq> i \<Longrightarrow> dict_get files (j, k) = dict_get (rs_files s) (j, k)"
  shows "spool_inv cfg size_of (write_spool_manifest m now (make_dir i now (s\<lparr>rs_files := files\<rparr>)))"
proof -
  have id: "sm_result_set_id m = i" using assms(2) by (simp add: manifest_ok_def)
  have "manifest_ok cfg size_of files j m'" if "dict_get (rs_manifests s) j = Some m'" "j \<noteq> i" for j m'
    using manifest_ok_cong [OF conjunct1 [OF spool_invD [OF assms(1) that(1)]]] assms(4) that(2) by blast
  thus ?thesis using assms by (auto simp: spool_inv_def write_spool_manifest_def id dict_keys_set)
qed

lemma write_manifest_effect:
  assumes "sm_result_set_id m = i"
  shows "spool_rows (write_spool_manifest m now s) i = manifest_rows (rs_files s) m"
    "spool_truncated (write_spool_manifest m now s) i = sm_truncated m" "spool_sealed (write_spool_manifest m now s) i = sm_sealed m"
  using assms by (simp_all add: spool_rows_def spool_truncated_def spool_sealed_def write_spool_manifest_def)

section \<open>Fitting rows into the remaining bytes\<close>

lemma fit_loop_fits:
  assumes "0 \<le> low" "high \<le> int (length rows)" "0 \<le> best \<and> best \<le> int (length rows) \<and> (best = 0 \<or> size_of (take (nat best) rows) \<le> room)"
  shows "let k = fit_loop size_of rows room low high best in 0 \<le> k \<and> k \<le> int (length rows) \<and> (k = 0 \<or> size_of (take (nat k) rows) \<le> room)"
  using assms
proof (induction size_of rows room low high best rule: fit_loop.induct)
  case (1 size_of rows room low high best)
  let ?mid = "(low + high) div 2"
  show ?case
  proof (cases "low > high")
    case False
    have m: "0 \<le> ?mid" "?mid \<le> int (length rows)" using 1(4,5) False by auto
    consider "?mid = 0" | "?mid \<noteq> 0" "size_of (take (nat ?mid) rows) \<le> room" | "?mid \<noteq> 0" "\<not> size_of (take (nat ?mid) rows) \<le> room" by blast
    thus ?thesis
    proof cases
      case 1
      thus ?thesis using "1.IH"(1) [OF False refl] "1.prems" False by (subst fit_loop.simps) (simp add: Let_def)
    next
      case 2
      thus ?thesis using "1.IH"(2) [OF False refl] "1.prems" m False by (subst fit_loop.simps) (simp add: Let_def)
    next
      case 3
      thus ?thesis using "1.IH"(3) [OF False refl] "1.prems" m False by (subst fit_loop.simps) (simp add: Let_def)
    qed
  qed (use "1.prems" in \<open>subst fit_loop.simps, simp add: Let_def\<close>)
qed

lemma fit_loop_stops:
  assumes "0 \<le> low" "low \<le> high + 1" "0 \<le> high" "low = 0 \<and> best = 0 \<or> 1 \<le> low \<and> best = low - 1" "room < size_of (take (nat (high + 1)) rows)"
  shows "room < size_of (take (nat (fit_loop size_of rows room low high best + 1)) rows)"
  using assms
proof (induction size_of rows room low high best rule: fit_loop.induct)
  case (1 size_of rows room low high best)
  let ?mid = "(low + high) div 2"
  show ?case
  proof (cases "low > high")
    case True
    hence "best = high" "low = high + 1" using "1.prems" by auto
    thus ?thesis using "1.prems" True by (subst fit_loop.simps) simp
  next
    case False
    consider "?mid = 0" | "?mid \<noteq> 0" "size_of (take (nat ?mid) rows) \<le> room" | "?mid \<noteq> 0" "\<not> size_of (take (nat ?mid) rows) \<le> room" by blast
    thus ?thesis
    proof cases
      case 1
      hence "low = 0 \<and> best = 0" using "1.prems" False by auto
      thus ?thesis using "1.IH"(1) [OF False refl 1] "1.prems" False 1 by (subst fit_loop.simps) (simp add: Let_def)
    next
      case 2
      thus ?thesis using "1.IH"(2) [OF False refl] "1.prems" False by (subst fit_loop.simps) (simp add: Let_def)
    next
      case 3
      have "low \<le> ?mid" "0 \<le> ?mid - 1" using False "1.prems" 3(1) by auto
      thus ?thesis using "1.IH"(3) [OF False refl] "1.prems" False 3 by (subst fit_loop.simps) (simp add: Let_def)
    qed
  qed
qed

lemma fit_rows_prefix: "\<exists>k \<le> length rows. fit_rows size_of rows room = take k rows"
proof (cases "size_of rows \<le> room")
  case True
  thus ?thesis by (intro exI [where x = "length rows"]) (simp add: fit_rows_def)
next
  case False
  have "let k = fit_loop size_of rows room 0 (int (length rows)) 0 in 0 \<le> k \<and> k \<le> int (length rows)" using fit_loop_fits [of 0 "int (length rows)" rows 0 size_of room] by (simp add: Let_def)
  thus ?thesis using False by (intro exI [where x = "nat (fit_loop size_of rows room 0 (int (length rows)) 0)"]) (simp add: fit_rows_def Let_def nat_le_iff)
qed

lemma fit_rows_fits: "fit_rows size_of rows room \<noteq> [] \<Longrightarrow> size_of (fit_rows size_of rows room) \<le> room"
  using fit_loop_fits [of 0 "int (length rows)" rows 0 size_of room] by (auto simp: fit_rows_def Let_def split: if_splits)

text \<open>
  The search for the rows that still fit returns a prefix that fits, and a prefix that is one row longer does not: nothing is cut off
  without need, whatever sizes the writer produces.
\<close>

theorem fit_rows_longest:
  "\<exists>k \<le> length rows. fit_rows size_of rows room = take k rows \<and> (k = 0 \<or> size_of (take k rows) \<le> room)
     \<and> (k = length rows \<or> room < size_of (take (k + 1) rows))"
proof (cases "size_of rows \<le> room")
  case True
  thus ?thesis by (intro exI [where x = "length rows"]) (simp add: fit_rows_def)
next
  case False
  let ?k = "fit_loop size_of rows room 0 (int (length rows)) 0"
  have f: "0 \<le> ?k \<and> ?k \<le> int (length rows) \<and> (?k = 0 \<or> size_of (take (nat ?k) rows) \<le> room)"
    using fit_loop_fits [of 0 "int (length rows)" rows 0 size_of room] by (simp add: Let_def)
  have "room < size_of (take (nat (?k + 1)) rows)" by (rule fit_loop_stops) (use False in simp_all)
  thus ?thesis using f False by (intro exI [where x = "nat ?k"]) (auto simp: fit_rows_def nat_add_distrib nat_le_iff)
qed

section \<open>Appending\<close>

definition same_spool :: "string \<Rightarrow> ('c, 'r) result_store \<Rightarrow> ('c, 'r) result_store \<Rightarrow> bool" where
  "same_spool i s s' \<longleftrightarrow> dict_get (rs_manifests s') i = dict_get (rs_manifests s) i \<and> (\<forall>k. dict_get (rs_files s') (i, k) = dict_get (rs_files s) (i, k))"

lemma same_spool_refl [simp]: "same_spool i s s" "same_spool i s (make_dir j now s)"
  by (simp_all add: same_spool_def)

lemma same_spool_trans: "same_spool i a b \<Longrightarrow> same_spool i b c \<Longrightarrow> same_spool i a c"
  by (simp add: same_spool_def)

lemma same_spoolD:
  assumes "same_spool i s s'" "spool_inv cfg size_of s"
  shows "spool_rows s' i = spool_rows s i" "spool_truncated s' i = spool_truncated s i" "spool_sealed s' i = spool_sealed s i"
proof -
  have m: "dict_get (rs_manifests s') i = dict_get (rs_manifests s) i" using assms(1) unfolding same_spool_def by (rule conjunct1)
  show "spool_truncated s' i = spool_truncated s i" "spool_sealed s' i = spool_sealed s i" unfolding spool_truncated_def spool_sealed_def m by (rule refl)+
  show "spool_rows s' i = spool_rows s i"
  proof (cases "dict_get (rs_manifests s) i")
    case None
    thus ?thesis by (simp only: spool_rows_def m option.case)
  next
    case (Some mf)
    have "manifest_rows (rs_files s') mf = manifest_rows (rs_files s) mf"
      using manifest_ok_cong [OF conjunct1 [OF spool_invD [OF assms(2) Some]]] assms(1) unfolding same_spool_def by blast
    thus ?thesis by (simp only: spool_rows_def m Some option.case)
  qed
qed

lemma append_part_ok:
  assumes "manifest_ok cfg size_of files i m" "written \<noteq> []"
    and "sm_loaded_rows m + int (length written) \<le> spool_max_rows cfg" "sm_data_bytes m + size_of written \<le> spool_max_bytes cfg"
  shows "let files' = dict_set files (i, length (sm_parts m) + 1) written; m' = append_part cfg size_of candidate written now (m\<lparr>sm_truncated := t\<rparr>)
    in manifest_ok cfg size_of files' i m' \<and> manifest_rows files' m' = manifest_rows files m @ written"
proof -
  let ?n = "length (sm_parts m)"
  define files' where "files' = dict_set files (i, ?n + 1) written"
  define m' where "m' = append_part cfg size_of candidate written now (m\<lparr>sm_truncated := t\<rparr>)"
  let ?p = "\<lparr>pi_path = (i, ?n + 1), pi_rows = int (length written), pi_bytes = size_of written\<rparr>"
  have id: "sm_result_set_id m = i" using assms(1) by (simp add: manifest_ok_def)
  have m': "sm_result_set_id m' = i" "sm_parts m' = sm_parts m @ [?p]" "sm_loaded_rows m' = sm_loaded_rows m + int (length written)"
    "sm_data_bytes m' = sm_data_bytes m + size_of written" by (auto simp: m'_def append_part_def Let_def id)
  have old: "part_ok size_of files' q = part_ok size_of files q \<and> file_rows files' q = file_rows files q" if "q \<in> set (sm_parts m)" for q
    using manifest_ok_path [OF assms(1) that] by (intro part_ok_cong) (auto simp: files'_def)
  have new: "part_ok size_of files' ?p" "file_rows files' ?p = written" using assms(2) by (simp_all add: part_ok_def file_rows_def files'_def)
  have "list_all (part_ok size_of files') (sm_parts m)" using assms(1) old by (simp add: manifest_ok_def list_all_iff)
  moreover have "concat (map (file_rows files') (sm_parts m)) = concat (map (file_rows files) (sm_parts m))"
    by (rule arg_cong [where f = concat], rule map_cong) (simp_all add: old)
  ultimately have "manifest_ok cfg size_of files' i m'" "manifest_rows files' m' = manifest_rows files m @ written"
    using assms new m' by (simp_all add: manifest_ok_def manifest_rows_def)
  thus ?thesis by (simp add: files'_def m'_def)
qed

lemma append_part_flags:
  "sm_sealed (append_part cfg size_of candidate written now m) = sm_sealed m" "sm_result_version (append_part cfg size_of candidate written now m) = sm_result_version m"
  "sm_truncated m \<or> length written < length candidate \<Longrightarrow> sm_truncated (append_part cfg size_of candidate written now m)"
  "sm_result_set_id (append_part cfg size_of candidate written now m) = sm_result_set_id m"
  by (auto simp: append_part_def Let_def)

text \<open>What appending to a spool does to the store, for every outcome but an error.\<close>

definition appended :: "string \<Rightarrow> 'r list \<Rightarrow> ('c, 'r) result_store \<Rightarrow> ('c, 'r) result_store \<Rightarrow> bool" where
  "appended i rows s s' \<longleftrightarrow> (\<exists>k \<le> length rows. spool_rows s' i = spool_rows s i @ take k rows \<and> (k < length rows \<longrightarrow> spool_truncated s' i))
     \<and> (spool_truncated s i \<longrightarrow> spool_truncated s' i \<and> spool_rows s' i = spool_rows s i) \<and> spool_sealed s' i = spool_sealed s i
     \<and> (\<forall>j. j \<noteq> i \<longrightarrow> same_spool j s s')"

lemma append_truncates:
  assumes "spool_inv cfg size_of s" "manifest_ok cfg size_of (rs_files s) i m" "spool_rows s i = manifest_rows (rs_files s) m"
    "spool_sealed s i = sm_sealed m" "0 \<le> sm_result_version m" "\<not> spool_truncated s i"
  shows "spool_inv cfg size_of (write_spool_manifest (m\<lparr>sm_truncated := True\<rparr>) now (make_dir i now s))
    \<and> appended i rows s (write_spool_manifest (m\<lparr>sm_truncated := True\<rparr>) now (make_dir i now s))"
proof -
  have ok: "manifest_ok cfg size_of (rs_files s) i (m\<lparr>sm_truncated := True\<rparr>)" "sm_result_set_id (m\<lparr>sm_truncated := True\<rparr>) = i"
    using assms(2) by (simp_all add: manifest_ok_def)
  have "spool_inv cfg size_of (write_spool_manifest (m\<lparr>sm_truncated := True\<rparr>) now (make_dir i now s))"
    using write_manifest_inv [OF assms(1) ok(1)] assms(5) by simp
  moreover have "appended i rows s (write_spool_manifest (m\<lparr>sm_truncated := True\<rparr>) now (make_dir i now s))"
  proof -
    note eff = write_manifest_effect [OF ok(2), of now "make_dir i now s"]
    have "spool_rows (write_spool_manifest (m\<lparr>sm_truncated := True\<rparr>) now (make_dir i now s)) i = spool_rows s i @ take 0 rows"
      using eff(1) assms(3) by (simp add: manifest_rows_def)
    moreover have "same_spool j s (write_spool_manifest (m\<lparr>sm_truncated := True\<rparr>) now (make_dir i now s))" if "j \<noteq> i" for j
      using that ok(2) by (simp add: same_spool_def write_spool_manifest_def)
    moreover have "spool_truncated (write_spool_manifest (m\<lparr>sm_truncated := True\<rparr>) now (make_dir i now s)) i" unfolding eff(2) by simp
    moreover have "spool_sealed (write_spool_manifest (m\<lparr>sm_truncated := True\<rparr>) now (make_dir i now s)) i = spool_sealed s i" unfolding eff(3) assms(4) by simp
    ultimately show ?thesis using assms(6) le0 unfolding appended_def by blast
  qed
  ultimately show ?thesis by blast
qed

lemma append_writes:
  fixes now :: int
  assumes "spool_inv cfg size_of s" "manifest_ok cfg size_of (rs_files s) i m" "spool_rows s i = manifest_rows (rs_files s) m"
    "spool_sealed s i = sm_sealed m" "0 \<le> sm_result_version m" "\<not> spool_truncated s i"
    and "written = take k rows" "written \<noteq> []" "k < length rows \<Longrightarrow> t \<or> length written < length candidate" "k \<le> length rows"
    and "sm_loaded_rows m + int (length written) \<le> spool_max_rows cfg" "sm_data_bytes m + size_of written \<le> spool_max_bytes cfg"
  defines "m' \<equiv> append_part cfg size_of candidate written now (m\<lparr>sm_truncated := t\<rparr>)"
  defines "s' \<equiv> write_spool_manifest m' now ((make_dir i now s)\<lparr>rs_files := dict_set (rs_files s) (i, length (sm_parts m) + 1) written\<rparr>)"
  shows "spool_inv cfg size_of s' \<and> appended i rows s s'"
proof -
  let ?files = "dict_set (rs_files s) (i, length (sm_parts m) + 1) written"
  have ok: "manifest_ok cfg size_of ?files i m'" "manifest_rows ?files m' = manifest_rows (rs_files s) m @ written"
    using append_part_ok [OF assms(2,8,11,12), of candidate now t] by (simp_all add: m'_def Let_def)
  have s': "s' = write_spool_manifest m' now (make_dir i now (s\<lparr>rs_files := ?files\<rparr>))" by (simp add: s'_def make_dir_files)
  have id: "sm_result_set_id m' = i" using ok(1) by (simp add: manifest_ok_def)
  have "spool_inv cfg size_of s'" unfolding s' by (rule write_manifest_inv [OF assms(1) ok(1)]) (simp_all add: m'_def append_part_flags assms(5))
  moreover have "spool_rows s' i = spool_rows s i @ take k rows" unfolding s' write_manifest_effect(1) [OF id] using ok(2) assms(3,7) by simp
  moreover have "spool_truncated s' i" if "k < length rows"
    unfolding s' write_manifest_effect(2) [OF id] using assms(9) [OF that] by (auto simp: m'_def append_part_flags)
  moreover have "spool_sealed s' i = spool_sealed s i" unfolding s' write_manifest_effect(3) [OF id] by (simp add: m'_def append_part_flags assms(4))
  moreover have "same_spool j s s'" if "j \<noteq> i" for j using that by (simp add: s' same_spool_def write_spool_manifest_def id)
  ultimately show ?thesis using assms(6,10) unfolding appended_def by blast
qed

lemma append_spool_effect:
  assumes "spool_inv cfg size_of s" "append_spool cfg size_of i rows now s = Inr s'"
  shows "spool_inv cfg size_of s' \<and> appended i rows s s'"
proof (cases "rows = []")
  case True
  thus ?thesis using assms by (simp add: append_spool_def appended_def)
next
  case False
  then obtain m s1 where r: "read_spool_manifest i now s = Inr (m, s1)" using assms(2) by (auto simp: append_spool_def rbind_eq_Inr)
  note rm = read_manifest [OF assms(1) r]
  let ?rr = "spool_max_rows cfg - sm_loaded_rows m" and ?rb = "spool_max_bytes cfg - sm_data_bytes m"
  let ?cand = "take (nat ?rr) rows"
  let ?written = "fit_rows size_of ?cand ?rb"
  have run: "(if sm_sealed m then Inl Sealed_spool else if sm_truncated m then Inr (make_dir i now s)
      else if ?rr \<le> 0 \<or> ?rb \<le> 0 \<or> ?written = [] then Inr (write_spool_manifest (m\<lparr>sm_truncated := True\<rparr>) now (make_dir i now s))
      else Inr (write_spool_manifest (append_part cfg size_of ?cand ?written now (m\<lparr>sm_truncated := length ?cand < length rows\<rparr>)) now
             ((make_dir i now s)\<lparr>rs_files := dict_set (rs_files (make_dir i now s)) (i, length (sm_parts m) + 1) ?written\<rparr>))) = Inr s'"
    using assms(2) unfolding append_spool_def r rbind_simps prod.case rm(2) Let_def if_not_P [OF False] .
  consider (full) "sm_truncated m" "s' = make_dir i now s"
    | (cut) "\<not> sm_truncated m" "s' = write_spool_manifest (m\<lparr>sm_truncated := True\<rparr>) now (make_dir i now s)"
    | (part) "\<not> sm_truncated m" "0 < ?rr" "?written \<noteq> []"
        "s' = write_spool_manifest (append_part cfg size_of ?cand ?written now (m\<lparr>sm_truncated := length ?cand < length rows\<rparr>)) now
             ((make_dir i now s)\<lparr>rs_files := dict_set (rs_files s) (i, length (sm_parts m) + 1) ?written\<rparr>)"
    using run by (fastforce split: if_splits)
  thus ?thesis
  proof cases
    case full
    have "appended i rows s (make_dir i now s)"
      unfolding appended_def using full(1) rm(5) same_spoolD [OF same_spool_refl(2) assms(1)] by (auto intro!: exI [where x = 0])
    thus ?thesis using full make_dir_inv [OF assms(1)] by simp
  next
    case cut
    thus ?thesis using append_truncates [OF assms(1) rm(3,4,6,7)] rm(5) by simp
  next
    case part
    obtain k where k: "k \<le> length ?cand" "?written = take k ?cand" using fit_rows_prefix by blast
    have "min k (nat ?rr) = k" using k(1) by simp
    hence "?written = take k rows" unfolding k(2) take_take by (rule arg_cong)
    moreover have "length ?cand < length rows \<or> length ?written < length ?cand" if "k < length rows" using that k by auto
    moreover have "int (length ?written) \<le> ?rr" using part(2) k by (simp add: nat_le_iff [symmetric] le_nat_iff)
    moreover have "size_of ?written \<le> ?rb" by (rule fit_rows_fits [OF part(3)])
    ultimately show ?thesis unfolding part(4) using rm(5) part(1,3) k(1)
      by (intro append_writes [OF assms(1) rm(3,4,6,7), where k = k]) auto
  qed
qed

section \<open>Other operations\<close>

text \<open>A change of a manifest that leaves the parts alone.\<close>

lemma change_manifest_effect:
  assumes "spool_inv cfg size_of s" "change_manifest i now f s = Inr s'"
    and f: "\<And>m. sm_result_set_id (f m) = sm_result_set_id m \<and> sm_parts (f m) = sm_parts m \<and> sm_loaded_rows (f m) = sm_loaded_rows m
      \<and> sm_data_bytes (f m) = sm_data_bytes m \<and> sm_result_version (f m) = sm_result_version m \<and> sm_sealed (f m) = sm_sealed m \<and> (sm_truncated m \<longrightarrow> sm_truncated (f m))"
  shows "spool_inv cfg size_of s' \<and> spool_rows s' i = spool_rows s i \<and> (spool_truncated s i \<longrightarrow> spool_truncated s' i) \<and> spool_sealed s' i = spool_sealed s i
    \<and> \<not> spool_sealed s i \<and> safe_id i \<and> (\<forall>j. j \<noteq> i \<longrightarrow> same_spool j s s')"
proof -
  obtain m s1 where r: "read_spool_manifest i now s = Inr (m, s1)" using assms(2) by (auto simp: change_manifest_def rbind_eq_Inr)
  note rm = read_manifest [OF assms(1) r]
  let ?m = "(f m)\<lparr>sm_updated_at := now\<rparr>"
  have s': "\<not> sm_sealed m" "s' = write_spool_manifest ?m now (make_dir i now s)"
    using assms(2) r rm(2) by (auto simp: change_manifest_def split: if_splits)
  have id: "sm_result_set_id ?m = i" using f [of m] rm(3) by (simp add: manifest_ok_def)
  have ok: "manifest_ok cfg size_of (rs_files s) i ?m" using rm(3) f [of m] by (simp add: manifest_ok_def)
  have "spool_inv cfg size_of s'" using write_manifest_inv [OF assms(1) ok] rm(7) f [of m] by (simp add: s'(2))
  moreover have "spool_rows s' i = spool_rows s i" unfolding s'(2) write_manifest_effect(1) [OF id] using rm(4) f [of m] by (simp add: manifest_rows_def)
  moreover have "spool_truncated s i \<longrightarrow> spool_truncated s' i" unfolding s'(2) write_manifest_effect(2) [OF id] using rm(5) f [of m] by simp
  moreover have "spool_sealed s' i = spool_sealed s i" unfolding s'(2) write_manifest_effect(3) [OF id] using rm(6) f [of m] by simp
  moreover have "same_spool j s s'" if "j \<noteq> i" for j using that by (simp add: s'(2) same_spool_def write_spool_manifest_def id)
  ultimately show ?thesis using rm(1,6) s'(1) by blast
qed

lemma mark_effect:
  assumes "spool_inv cfg size_of s" "mark_spool_truncated i now s = Inr s'"
  shows "spool_inv cfg size_of s' \<and> spool_rows s' i = spool_rows s i \<and> spool_truncated s' i \<and> spool_sealed s' i = spool_sealed s i
    \<and> (\<forall>j. j \<noteq> i \<longrightarrow> same_spool j s s')"
proof -
  obtain m s1 where r: "read_spool_manifest i now s = Inr (m, s1)" using assms(2) by (auto simp: mark_spool_truncated_def rbind_eq_Inr)
  note rm = read_manifest [OF assms(1) r]
  let ?f = "\<lambda>m. m\<lparr>sm_truncated := True, sm_has_more := True\<rparr>"
  have run: "(if sm_sealed m then Inl Sealed_spool else if sm_truncated m \<and> sm_has_more m then Inr (make_dir i now s) else change_manifest i now ?f s) = Inr s'"
    using assms(2) unfolding mark_spool_truncated_def r rbind_simps prod.case rm(2) .
  have ns: "\<not> sm_sealed m"
  proof
    assume "sm_sealed m"
    with run show False unfolding if_P [OF \<open>sm_sealed m\<close>] by simp
  qed
  show ?thesis
  proof (cases "sm_truncated m \<and> sm_has_more m")
    case True
    hence 1: "sm_truncated m" "s' = make_dir i now s" using run unfolding if_not_P [OF ns] if_P [OF True] by simp_all
    have "same_spool j s s'" for j by (simp add: 1(2))
    thus ?thesis using same_spoolD [OF _ assms(1), of i s'] make_dir_inv [OF assms(1)] 1 rm(5) by simp
  next
    case False
    have 2: "change_manifest i now ?f s = Inr s'" using run unfolding if_not_P [OF ns] if_not_P [OF False] .
    have e: "spool_inv cfg size_of s' \<and> spool_rows s' i = spool_rows s i \<and> (spool_truncated s i \<longrightarrow> spool_truncated s' i) \<and> spool_sealed s' i = spool_sealed s i
        \<and> \<not> spool_sealed s i \<and> safe_id i \<and> (\<forall>j. j \<noteq> i \<longrightarrow> same_spool j s s')"
      by (rule change_manifest_effect [OF assms(1) 2]) simp
    have id: "sm_result_set_id ((?f m)\<lparr>sm_updated_at := now\<rparr>) = i" using rm(3) by (simp add: manifest_ok_def)
    have "s' = write_spool_manifest ((?f m)\<lparr>sm_updated_at := now\<rparr>) now (make_dir i now s)"
      using 2 r rm(2) by (auto simp: change_manifest_def split: if_splits)
    hence "spool_truncated s' i" using write_manifest_effect(2) [OF id, of now "make_dir i now s"] by simp
    thus ?thesis using e by blast
  qed
qed

section \<open>Reading pages\<close>

lemma take_prefix_eq: "prefix xs ys \<Longrightarrow> n \<le> length xs \<Longrightarrow> take n xs = take n ys"
  by (auto simp: prefix_def)

lemma read_part_ok:
  assumes "part_ok size_of files p"
  shows "read_part_rows files (pi_path p) offset limit = Inr (take (nat limit) (drop (nat offset) (file_rows files p)))"
  using assms by (auto simp: part_ok_def read_part_rows_def file_rows_def split: option.splits)

lemma fetch_loop_correct:
  assumes "list_all (part_ok size_of files) ps" "0 \<le> ws" "0 < limit" "0 \<le> cur" "int (length out) = max 0 (cur - ws)"
  shows "\<exists>out'. fetch_loop files ws (ws + limit) limit ps cur out = Inr out'
    \<and> take (nat limit) out' = take (nat limit) (out @ drop (nat (ws - cur)) (concat (map (file_rows files) ps)))"
  using assms
proof (induction ps arbitrary: cur out)
  case (Cons p ps)
  let ?r = "file_rows files p" and ?rest = "concat (map (file_rows files) ps)"
  have p: "part_ok size_of files p" and n: "pi_rows p = int (length ?r)" using Cons.prems(1) part_ok_rows [of size_of files p] by auto
  let ?n = "int (length ?r)" and ?ls = "max (ws - cur) 0" and ?le = "min (ws + limit - cur) (int (length ?r))"
  define rows where "rows = take (nat (?le - ?ls)) (drop (nat ?ls) ?r)"
  have nat_ls: "nat ?ls = nat (ws - cur)" by simp
  consider (before) "cur + ?n \<le> ws" | (after) "cur + ?n > ws" "cur \<ge> ws + limit" | (inside) "cur + ?n > ws" "cur < ws + limit" by linarith
  thus ?case
  proof cases
    case before
    have "nat (ws - (cur + ?n)) = nat (ws - cur) - length ?r" "length ?r \<le> nat (ws - cur)" using before by linarith+
    hence "drop (nat (ws - cur)) (?r @ ?rest) = drop (nat (ws - (cur + ?n))) ?rest" by simp
    moreover have "int (length out) = max 0 (cur + ?n - ws)" using Cons.prems(5) before by simp
    ultimately show ?thesis using Cons.IH [of "cur + ?n" out] Cons.prems before by (simp add: n)
  next
    case after
    hence "nat limit \<le> length out" using Cons.prems(5) by simp
    thus ?thesis using after by (simp add: n)
  next
    case inside
    have ls: "?ls \<le> ?n" "0 \<le> ?ls" using inside Cons.prems(2-4) by auto
    have d: "drop (nat (ws - cur)) (?r @ ?rest) = drop (nat ?ls) ?r @ ?rest" using ls by (simp add: nat_ls nat_le_iff)
    have run: "fetch_loop files ws (ws + limit) limit (p # ps) cur out =
        (if int (length (out @ rows)) \<ge> limit then Inr (out @ rows) else fetch_loop files ws (ws + limit) limit ps (cur + ?n) (out @ rows))"
      using inside read_part_ok [OF p] by (simp add: n rows_def Let_def)
    show ?thesis
    proof (cases "int (length (out @ rows)) \<ge> limit")
      case True
      have "prefix (out @ rows) (out @ drop (nat (ws - cur)) (?r @ ?rest))" unfolding d rows_def by (simp add: take_is_prefix prefix_prefix)
      from take_prefix_eq [OF this, of "nat limit"] True show ?thesis unfolding run by simp
    next
      case False
      have b: "?ls \<le> ?le" "?le \<le> ?n" using inside Cons.prems(2-4) by auto
      hence "nat (?le - ?ls) \<le> length ?r - nat ?ls" using ls(2) by linarith
      hence "length rows = nat (?le - ?ls)" unfolding rows_def by (simp add: min_absorb1 min_absorb2)
      hence lr: "int (length rows) = ?le - ?ls" using b by simp
      have le: "?le = ?n" using False lr Cons.prems(5) by (auto simp: min_def max_def split: if_splits)
      have rows: "rows = drop (nat ?ls) ?r" unfolding rows_def le using ls by (simp add: nat_diff_distrib')
      have "int (length (out @ rows)) = max 0 (cur + ?n - ws)" using lr le Cons.prems(5) inside by auto
      then obtain out' where "fetch_loop files ws (ws + limit) limit ps (cur + ?n) (out @ rows) = Inr out'"
        "take (nat limit) out' = take (nat limit) ((out @ rows) @ drop (nat (ws - (cur + ?n))) ?rest)"
        using Cons.IH [of "cur + ?n" "out @ rows"] Cons.prems by auto
      thus ?thesis using False d rows inside unfolding run by auto
    qed
  qed
qed simp

text \<open>
  C31. Reading a page returns exactly the rows of the spool from the offset on, as many as asked for, across the boundaries of its part
  files; reading changes no spool, and only a negative offset or limit is refused.
\<close>

theorem fetch_range_correct:
  assumes "spool_inv cfg size_of s" "safe_id i" "0 \<le> offset" "0 \<le> limit"
  shows "\<exists>s'. fetch_range i offset limit now s = Inr (take (nat limit) (drop (nat offset) (spool_rows s i)), s')
    \<and> spool_inv cfg size_of s' \<and> (\<forall>j. same_spool j s s')"
proof (cases "limit = 0")
  case True
  thus ?thesis using assms by (simp add: fetch_range_def)
next
  case False
  obtain m where r: "read_spool_manifest i now s = Inr (m, make_dir i now s)" using assms(2) by (simp add: read_spool_manifest_def)
  note rm = read_manifest [OF assms(1) r]
  obtain out where "fetch_loop (rs_files s) offset (offset + limit) limit (sm_parts m) 0 [] = Inr out"
    "take (nat limit) out = take (nat limit) (drop (nat offset) (spool_rows s i))"
    using fetch_loop_correct [of size_of "rs_files s" "sm_parts m" offset limit 0 "[]"] rm(3,4) assms False by (auto simp: manifest_ok_def manifest_rows_def)
  thus ?thesis using assms False r make_dir_inv [OF assms(1)] by (auto simp: fetch_range_def)
qed

section \<open>Snapshots and removal\<close>

lemma snapshot_part_Inr:
  "snapshot_part size_of files t p = Inr c \<longleftrightarrow> (\<exists>rows. dict_get files (pi_path p) = Some rows
     \<and> c = (\<lparr>pi_path = (t, snd (pi_path p)), pi_rows = pi_rows p, pi_bytes = size_of rows\<rparr>, rows))"
  by (auto simp: snapshot_part_def split: option.splits)

lemma part_paths_map: "map (\<lambda>q. (t, snd q)) (part_paths i n) = part_paths t n"
  by (induction n) auto

lemma part_paths_copy: "map pi_path ps = part_paths i n \<Longrightarrow> map (\<lambda>p. (t, snd (pi_path p))) ps = part_paths t n"
  using part_paths_map [of t i n] by (metis (no_types, lifting) list.map_comp comp_apply map_eq_conv)

lemma distinct_part_paths: "distinct (part_paths i n)"
  by (induction n) (auto simp: set_part_paths)

lemma fold_files_other:
  "(\<And>c. c \<in> set cs \<Longrightarrow> pi_path (fst c) \<noteq> q) \<Longrightarrow> dict_get (fold (\<lambda>c files. dict_set files (pi_path (fst c)) (snd c)) cs files) q = dict_get files q"
proof (induction cs arbitrary: files)
  case (Cons c cs)
  have "q \<noteq> pi_path (fst c)" using Cons.prems [of c] by simp
  thus ?case using Cons.IH [of "dict_set files (pi_path (fst c)) (snd c)"] Cons.prems by simp
qed simp

lemma fold_files_own:
  "distinct (map (\<lambda>c. pi_path (fst c)) cs) \<Longrightarrow> c \<in> set cs
   \<Longrightarrow> dict_get (fold (\<lambda>c files. dict_set files (pi_path (fst c)) (snd c)) cs files) (pi_path (fst c)) = Some (snd c)"
proof (induction cs arbitrary: files)
  case (Cons a cs)
  show ?case
  proof (cases "c = a")
    case True
    have "dict_get (fold (\<lambda>c files. dict_set files (pi_path (fst c)) (snd c)) cs (dict_set files (pi_path (fst a)) (snd a))) (pi_path (fst a))
        = dict_get (dict_set files (pi_path (fst a)) (snd a)) (pi_path (fst a))"
    proof (rule fold_files_other)
      fix c assume "c \<in> set cs"
      moreover have "pi_path (fst a) \<notin> (\<lambda>c. pi_path (fst c)) ` set cs" using Cons.prems(1) by simp
      ultimately show "pi_path (fst c) \<noteq> pi_path (fst a)" by (metis image_eqI)
    qed
    thus ?thesis using True by simp
  next
    case False
    thus ?thesis using Cons by simp
  qed
qed simp

lemma snapshot_effect:
  assumes inv: "spool_inv cfg size_of s" and run: "snapshot_spool size_of i t now s = Inr (sn, s')"
  shows "spool_inv cfg size_of s'" "spool_rows s' t = spool_rows s i" "spool_sealed s' t" "j \<noteq> t \<Longrightarrow> same_spool j s s'"
    "sn_loaded_rows sn = int (length (spool_rows s i))" "safe_id t"
proof -
  obtain m cs where m: "dict_get (rs_manifests s) i = Some m" and cs: "map_r (snapshot_part size_of (rs_files s) t) (sm_parts m) = Inr cs"
    and tn: "dict_get (rs_dirs s) t = None" and ids: "safe_id t" "i \<noteq> t"
    and s': "s' = write_spool_manifest (snapshot_manifest t (map fst cs) now m) now
        (s\<lparr>rs_files := fold (\<lambda>c files. dict_set files (pi_path (fst c)) (snd c)) cs (rs_files s)\<rparr>)"
    and sn: "sn_loaded_rows sn = sm_loaded_rows m"
    using run unfolding snapshot_spool_def
    by (auto simp: rbind_eq_Inr Let_def snapshot_manifest_def split: if_splits option.splits)
  define files where "files = fold (\<lambda>c files. dict_set files (pi_path (fst c)) (snd c)) cs (rs_files s)"
  define m' where "m' = snapshot_manifest t (map fst cs) now m"
  note mo = conjunct1 [OF spool_invD [OF inv m]]
  have l2: "list_all2 (\<lambda>p c. \<exists>rows. dict_get (rs_files s) (pi_path p) = Some rows
      \<and> c = (\<lparr>pi_path = (t, snd (pi_path p)), pi_rows = pi_rows p, pi_bytes = size_of rows\<rparr>, rows)) (sm_parts m) cs"
    using cs unfolding map_r_ok snapshot_part_Inr .
  have copy: "map (\<lambda>c. pi_path (fst c)) cs = map (\<lambda>p. (t, snd (pi_path p))) (sm_parts m) \<and> map snd cs = map (file_rows (rs_files s)) (sm_parts m)
      \<and> map (\<lambda>c. pi_rows (fst c)) cs = map pi_rows (sm_parts m) \<and> map (\<lambda>c. pi_bytes (fst c)) cs = map (\<lambda>p. size_of (file_rows (rs_files s) p)) (sm_parts m)"
    using l2 by (induction rule: list_all2_induct) (auto simp: file_rows_def)
  have paths: "map (\<lambda>c. pi_path (fst c)) cs = part_paths t (length cs)"
    using copy part_paths_copy [of "sm_parts m" i "length (sm_parts m)" t] mo list_all2_lengthD [OF l2] by (simp add: manifest_ok_def)
  hence d: "distinct (map (\<lambda>c. pi_path (fst c)) cs)" by (simp add: distinct_part_paths)
  have own: "dict_get files (pi_path (fst c)) = Some (snd c)" if "c \<in> set cs" for c unfolding files_def by (rule fold_files_own [OF d that])
  have other: "dict_get files (k, n) = dict_get (rs_files s) (k, n)" if "k \<noteq> t" for k n
    unfolding files_def
  proof (rule fold_files_other)
    fix c assume "c \<in> set cs"
    hence "pi_path (fst c) \<in> set (part_paths t (length cs))" unfolding paths [symmetric] by simp
    thus "pi_path (fst c) \<noteq> (k, n)" using that unfolding set_part_paths by auto
  qed
  have bytes: "map (\<lambda>p. size_of (file_rows (rs_files s) p)) (sm_parts m) = map pi_bytes (sm_parts m)"
  proof (intro map_cong refl)
    fix p assume "p \<in> set (sm_parts m)"
    hence "part_ok size_of (rs_files s) p" using mo unfolding manifest_ok_def list_all_iff by blast
    thus "size_of (file_rows (rs_files s) p) = pi_bytes p" by (simp add: part_ok_rows)
  qed
  have cok: "part_ok size_of files (fst c) \<and> file_rows files (fst c) = snd c" if c: "c \<in> set cs" for c
  proof -
    obtain p where p: "p \<in> set (sm_parts m)" "dict_get (rs_files s) (pi_path p) = Some (snd c)" "fst c = \<lparr>pi_path = (t, snd (pi_path p)), pi_rows = pi_rows p, pi_bytes = size_of (snd c)\<rparr>"
      using l2 c unfolding list_all2_conv_all_nth in_set_conv_nth by fastforce
    have "part_ok size_of (rs_files s) p" using mo p(1) by (simp add: manifest_ok_def list_all_iff)
    thus ?thesis using p own [OF c] by (simp add: part_ok_def file_rows_def)
  qed
  have rows: "manifest_rows files m' = manifest_rows (rs_files s) m"
  proof -
    have "map (file_rows files) (map fst cs) = map snd cs" using cok by simp
    thus ?thesis using copy by (simp add: manifest_rows_def m'_def snapshot_manifest_def)
  qed
  have m'f: "sm_result_set_id m' = t" "sm_parts m' = map fst cs" "sm_loaded_rows m' = sm_loaded_rows m" "sm_data_bytes m' = sum_list (map pi_bytes (map fst cs))"
    "sm_result_version m' = 0" "sm_sealed m'" by (simp_all add: m'_def snapshot_manifest_def)
  have fc: "map pi_path (map fst cs) = part_paths t (length cs)" "map pi_rows (map fst cs) = map pi_rows (sm_parts m)" "map pi_bytes (map fst cs) = map pi_bytes (sm_parts m)"
    using paths copy bytes by (simp_all add: o_def)
  have ok: "manifest_ok cfg size_of files t m'"
    unfolding manifest_ok_def m'f fc using mo cok by (auto simp: manifest_ok_def list_all_iff)
  have s2: "s' = write_spool_manifest m' now (s\<lparr>rs_files := files\<rparr>)" by (simp add: s' m'_def files_def)
  have "spool_inv cfg size_of s'"
  proof -
    have "manifest_ok cfg size_of files k mk" if "dict_get (rs_manifests s) k = Some mk" "k \<noteq> t" for k mk
      using manifest_ok_cong [OF conjunct1 [OF spool_invD [OF inv that(1)]]] other [OF that(2)] by blast
    thus ?thesis using inv ok m'f(5) by (auto simp: s2 spool_inv_def write_spool_manifest_def m'f(1) dict_keys_set)
  qed
  thus "spool_inv cfg size_of s'" .
  show "spool_rows s' t = spool_rows s i" unfolding s2 write_manifest_effect(1) [OF m'f(1)] using rows m by (simp add: spool_rows_def)
  show "spool_sealed s' t" unfolding s2 write_manifest_effect(3) [OF m'f(1)] by (rule m'f(6))
  show "same_spool j s s'" if "j \<noteq> t" using that other by (simp add: s2 same_spool_def write_spool_manifest_def m'f(1))
  show "sn_loaded_rows sn = int (length (spool_rows s i))" using sn manifest_ok_length [OF mo] m by (simp add: spool_rows_def)
  show "safe_id t" by (rule ids(1))
qed

lemma dict_get_remove: "dict_get (filter (\<lambda>(i, _). \<not> gone i) d) j = (if gone j then None else dict_get d j)"
  by (induction d) auto

lemma dict_get_remove_files: "dict_get (filter (\<lambda>((i, _), _). \<not> gone i) d) (j, k) = (if gone j then None else dict_get d (j, k))"
  by (induction d) auto

lemma remove_effect:
  assumes "spool_inv cfg size_of s"
  shows "spool_inv cfg size_of (remove_dirs gone s)" "\<not> gone j \<Longrightarrow> same_spool j s (remove_dirs gone s)"
proof -
  show "same_spool j s (remove_dirs gone s)" if "\<not> gone j" for j
    using that by (simp add: same_spool_def remove_dirs_def dict_get_remove dict_get_remove_files)
  have "manifest_ok cfg size_of (rs_files (remove_dirs gone s)) i m \<and> version_ok m \<and> i \<in> set (dict_keys (rs_dirs (remove_dirs gone s)))"
    if "dict_get (rs_manifests (remove_dirs gone s)) i = Some m" for i m
  proof -
    have g: "\<not> gone i" "dict_get (rs_manifests s) i = Some m" using that by (simp_all add: remove_dirs_def dict_get_remove split: if_splits)
    note ok = spool_invD [OF assms g(2)]
    have "manifest_ok cfg size_of (rs_files (remove_dirs gone s)) i m"
      using manifest_ok_cong [OF conjunct1 [OF ok], of "rs_files (remove_dirs gone s)"] g(1) by (simp add: remove_dirs_def dict_get_remove_files)
    moreover have "i \<in> set (dict_keys (rs_dirs (remove_dirs gone s)))" using ok g(1) by (auto simp: remove_dirs_def intro!: rev_image_eqI)
    ultimately show ?thesis using ok by blast
  qed
  thus "spool_inv cfg size_of (remove_dirs gone s)" using assms unfolding spool_inv_def by blast
qed

lemma delete_effect:
  assumes "spool_inv cfg size_of s" "delete_spool i s = Inr (b, s')"
  shows "spool_inv cfg size_of s'" "j \<noteq> i \<Longrightarrow> same_spool j s s'" "dict_get (rs_manifests s') i = None"
proof -
  have "s' = s \<and> dict_get (rs_dirs s) i = None \<or> s' = remove_dirs (\<lambda>j. j = i) s" using assms(2) by (auto simp: delete_spool_def rbind_eq_Inr split: if_splits)
  moreover have "dict_get (rs_manifests s) i = None" if "dict_get (rs_dirs s) i = None"
    using spool_invD [OF assms(1), of i] that by (cases "dict_get (rs_manifests s) i") (auto simp: map_of_eq_None_iff)
  ultimately show "spool_inv cfg size_of s'" "j \<noteq> i \<Longrightarrow> same_spool j s s'" "dict_get (rs_manifests s') i = None"
    using remove_effect [OF assms(1)] assms(1) by (auto simp: remove_dirs_def dict_get_remove)
qed

lemma map_r_safe: "map_r safe_segment keep = Inr ks \<Longrightarrow> ks = keep"
  by (induction keep arbitrary: ks) (auto simp: rbind_eq_Inr)

lemma collect_effect:
  assumes "spool_inv cfg size_of s" "gc_expired cfg keep now s = Inr (n, s')"
  shows "spool_inv cfg size_of s'" "j \<in> set keep \<Longrightarrow> same_spool j s s'"
proof -
  define gone where "gone = (if result_ttl_days cfg \<ge> 0 then expired (now - result_ttl_days cfg * 24 * 60 * 60) keep (rs_dirs s) else [])"
  have g: "rs_dirs s' = rs_dirs (remove_dirs (\<lambda>i. i \<in> set gone) s)" "rs_manifests s' = rs_manifests (remove_dirs (\<lambda>i. i \<in> set gone) s)"
    "rs_files s' = rs_files (remove_dirs (\<lambda>i. i \<in> set gone) s)" "set gone \<inter> set keep = {}"
    using assms(2) unfolding gc_expired_def gone_def by (auto simp: rbind_eq_Inr Let_def dest!: map_r_safe) (auto simp: expired_def)
  show "spool_inv cfg size_of s'" using remove_effect(1) [OF assms(1), of "\<lambda>i. i \<in> set gone"] unfolding spool_inv_def g .
  show "same_spool j s s'" if "j \<in> set keep"
  proof -
    have "j \<notin> set gone" using that g(4) by blast
    from remove_effect(2) [OF assms(1), of "\<lambda>i. i \<in> set gone" j, OF this] show ?thesis unfolding same_spool_def g(2,3) .
  qed
qed

lemma get_manifest_effect:
  assumes "spool_inv cfg size_of s" "get_spool_manifest i now s = Inr (m, s')"
  shows "spool_inv cfg size_of s'" "same_spool j s s'" "sm_loaded_rows m = int (length (spool_rows s i))" "sm_truncated m = spool_truncated s i"
proof -
  obtain m0 where r: "read_spool_manifest i now s = Inr (m0, s')" "m = m0\<lparr>sm_has_more := sm_has_more m0 \<or> sm_truncated m0\<rparr>"
    using assms(2) by (auto simp: get_spool_manifest_def rbind_eq_Inr)
  note rm = read_manifest [OF assms(1) r(1)]
  show "spool_inv cfg size_of s'" "same_spool j s s'" using make_dir_inv [OF assms(1)] by (simp_all add: rm(2))
  show "sm_loaded_rows m = int (length (spool_rows s i))" "sm_truncated m = spool_truncated s i"
    using manifest_ok_length [OF rm(3)] by (simp_all add: r(2) rm(4,5))
qed

section \<open>Sequences of operations\<close>

lemma pagination_effect:
  assumes "spool_inv cfg size_of s" "set_spool_pagination i has_more mode reason now s = Inr s'"
  shows "spool_inv cfg size_of s'" "spool_rows s' j = spool_rows s j" "spool_sealed s' j = spool_sealed s j"
proof -
  have e: "spool_inv cfg size_of s' \<and> spool_rows s' i = spool_rows s i \<and> (spool_truncated s i \<longrightarrow> spool_truncated s' i) \<and> spool_sealed s' i = spool_sealed s i
      \<and> \<not> spool_sealed s i \<and> safe_id i \<and> (\<forall>j. j \<noteq> i \<longrightarrow> same_spool j s s')"
    using assms(2) unfolding set_spool_pagination_def by (rule change_manifest_effect [OF assms(1)]) simp
  thus "spool_inv cfg size_of s'" "spool_rows s' j = spool_rows s j" "spool_sealed s' j = spool_sealed s j"
    using same_spoolD [OF _ assms(1), of j s'] by (metis, metis, metis)
qed

lemma columns_effect:
  assumes "spool_inv cfg size_of s" "set_spool_columns i columns now s = Inr s'"
  shows "spool_inv cfg size_of s'" "spool_rows s' j = spool_rows s j" "spool_sealed s' j = spool_sealed s j" "spool_truncated s' j = spool_truncated s j"
proof -
  have e: "spool_inv cfg size_of s' \<and> spool_rows s' i = spool_rows s i \<and> (spool_truncated s i \<longrightarrow> spool_truncated s' i) \<and> spool_sealed s' i = spool_sealed s i
      \<and> \<not> spool_sealed s i \<and> safe_id i \<and> (\<forall>j. j \<noteq> i \<longrightarrow> same_spool j s s')"
    using assms(2) unfolding set_spool_columns_def by (rule change_manifest_effect [OF assms(1)]) simp
  thus "spool_inv cfg size_of s'" "spool_rows s' j = spool_rows s j" "spool_sealed s' j = spool_sealed s j"
    using same_spoolD [OF _ assms(1), of j s'] by (metis, metis, metis)
  have "spool_truncated s' i = spool_truncated s i"
    using assms(2) by (auto simp: set_spool_columns_def change_manifest_def read_spool_manifest_def rbind_eq_Inr spool_truncated_def write_spool_manifest_def
        new_manifest_def split: if_splits option.splits)
  thus "spool_truncated s' j = spool_truncated s j" using e same_spoolD [OF _ assms(1), of j s'] by metis
qed

lemma store_apply_inv:
  assumes "spool_inv cfg size_of s" "store_apply cfg size_of now op s = Inr s'"
  shows "spool_inv cfg size_of s'"
proof (cases op)
  case (Append i rows)
  thus ?thesis using append_spool_effect [OF assms(1)] assms(2) by (simp add: store_apply_def)
next
  case (Mark_truncated i)
  thus ?thesis using mark_effect [OF assms(1)] assms(2) by (simp add: store_apply_def)
next
  case (Set_pagination i has_more mode reason)
  thus ?thesis using pagination_effect(1) [OF assms(1)] assms(2) by (simp add: store_apply_def)
next
  case (Set_columns i columns)
  thus ?thesis using columns_effect(1) [OF assms(1)] assms(2) by (simp add: store_apply_def)
next
  case (Read i)
  thus ?thesis using get_manifest_effect(1) [OF assms(1)] assms(2) by (auto simp: store_apply_def rbind_eq_Inr)
next
  case (Fetch i offset limit)
  hence "s' = s \<or> s' = make_dir i now s"
    using assms(2) by (auto simp: store_apply_def fetch_range_def read_spool_manifest_def rbind_eq_Inr split: if_splits)
  thus ?thesis using assms(1) make_dir_inv [OF assms(1)] by blast
next
  case (Snapshot i t)
  thus ?thesis using snapshot_effect(1) [OF assms(1)] assms(2) by (auto simp: store_apply_def rbind_eq_Inr)
next
  case (Delete i)
  thus ?thesis using delete_effect(1) [OF assms(1)] assms(2) by (auto simp: store_apply_def rbind_eq_Inr)
next
  case (Collect keep)
  thus ?thesis using collect_effect(1) [OF assms(1)] assms(2) by (auto simp: store_apply_def rbind_eq_Inr)
qed

lemma store_run_inv: "spool_inv cfg size_of s \<Longrightarrow> spool_inv cfg size_of (store_run cfg size_of ops s)"
  by (induction cfg size_of ops s rule: store_run.induct) (auto split: sum.splits dest: store_apply_inv)

lemma empty_store_inv: "check_store_config cfg = Inr () \<Longrightarrow> spool_inv cfg size_of empty_store"
  by (simp add: spool_inv_def empty_store_def check_store_config_def split: if_splits)

text \<open>
  C32. Whatever is appended, marked, read, copied or removed in any order, the manifest of every spool agrees with its files: it counts
  the rows that reading returns, and neither the rows nor the bytes exceed the configured maximum.
\<close>

theorem spool_limits_hold:
  assumes "check_store_config cfg = Inr ()" "dict_get (rs_manifests (store_run cfg size_of ops empty_store)) i = Some m"
  shows "sm_loaded_rows m = int (length (spool_rows (store_run cfg size_of ops empty_store) i))
    \<and> sm_loaded_rows m \<le> spool_max_rows cfg \<and> sm_data_bytes m = sum_list (map pi_bytes (sm_parts m)) \<and> sm_data_bytes m \<le> spool_max_bytes cfg"
proof -
  note ok = conjunct1 [OF spool_invD [OF store_run_inv [OF empty_store_inv [OF assms(1)]] assms(2)]]
  show ?thesis using manifest_ok_length [OF ok] ok assms(2) by (simp add: manifest_ok_def spool_rows_def)
qed

text \<open>A store with room for five rows of size two, to apply the properties.\<close>

definition demo_store_config :: store_config where
  "demo_store_config = \<lparr>spool_max_rows = 5, spool_max_bytes = 9, result_ttl_days = 7, sql_export_ttl_hours = 24, upload_ttl_hours = 72\<rparr>"

definition demo_size :: "nat list \<Rightarrow> int" where
  "demo_size rows = 2 * int (length rows)"

definition demo_ops :: "(int \<times> (string, nat) store_op) list" where
  "demo_ops = [(1, Append ''r'' [10, 11]), (2, Set_columns ''r'' [''c'']), (3, Append ''r'' [12])]"

definition demo_spools :: "(string, nat) result_store" where
  "demo_spools = store_run demo_store_config demo_size demo_ops empty_store"

lemma demo_config_ok: "check_store_config demo_store_config = Inr ()"
  by (simp add: check_store_config_def demo_store_config_def)

lemma demo_spools_inv: "spool_inv demo_store_config demo_size demo_spools"
  unfolding demo_spools_def by (rule store_run_inv [OF empty_store_inv [OF demo_config_ok]])

theorem spool_limits_hold_witness:
  "\<exists>m. dict_get (rs_manifests demo_spools) ''r'' = Some m \<and> sm_loaded_rows m = int (length (spool_rows demo_spools ''r''))"
proof -
  have "dict_get (rs_manifests demo_spools) ''r'' \<noteq> None" by code_simp
  then obtain m where m: "dict_get (rs_manifests demo_spools) ''r'' = Some m" by blast
  show ?thesis using spool_limits_hold [OF demo_config_ok m [unfolded demo_spools_def]] m by (simp add: demo_spools_def)
qed

theorem fetch_range_correct_witness: "\<exists>s. fetch_range ''r'' 1 2 9 demo_spools = Inr ([11, 12], s)"
proof -
  have "safe_id ''r''" by (simp add: safe_id_def)
  moreover have "spool_rows demo_spools ''r'' = [10, 11, 12]" by code_simp
  ultimately show ?thesis using fetch_range_correct [OF demo_spools_inv, of "''r''" 1 2 9] by auto
qed

text \<open>
  Appending keeps the rows already in the spool and adds a prefix of the new ones; the prefix is all of them unless the spool is
  marked as truncated, a truncated spool takes nothing more, and no other spool changes.
\<close>

theorem append_spool_correct:
  assumes "spool_inv cfg size_of s" "append_spool cfg size_of i rows now s = Inr s'"
  shows "spool_inv cfg size_of s'
    \<and> (\<exists>k \<le> length rows. spool_rows s' i = spool_rows s i @ take k rows \<and> (k = length rows \<or> spool_truncated s' i))
    \<and> (\<not> spool_truncated s i \<or> spool_rows s' i = spool_rows s i) \<and> (j = i \<or> spool_rows s' j = spool_rows s j)"
proof -
  have e: "spool_inv cfg size_of s'" "appended i rows s s'" using append_spool_effect [OF assms] by auto
  have "spool_rows s' j = spool_rows s j" if "j \<noteq> i" using same_spoolD(1) [OF _ assms(1)] e(2) that unfolding appended_def by blast
  thus ?thesis using e unfolding appended_def by (metis le_neq_implies_less)
qed

theorem append_spool_correct_witness:
  "\<exists>s k. append_spool demo_store_config demo_size ''r'' [13, 14, 15] 9 demo_spools = Inr s \<and> spool_rows s ''r'' = [10, 11, 12] @ take k [13, 14, 15]"
proof -
  have "case append_spool demo_store_config demo_size ''r'' [13, 14, 15] 9 demo_spools of Inl _ \<Rightarrow> False | Inr _ \<Rightarrow> True" by code_simp
  then obtain s where s: "append_spool demo_store_config demo_size ''r'' [13, 14, 15] 9 demo_spools = Inr s" by (auto split: sum.splits)
  moreover have "spool_rows demo_spools ''r'' = [10, 11, 12]" by code_simp
  ultimately show ?thesis using append_spool_correct [OF demo_spools_inv s] by metis
qed

section \<open>The interface of a spool for its writer\<close>

text \<open>
  A writer hands over batches one after the other. The sink promises to keep what it took, to take a prefix of each batch, and to be marked
  as cut once it left anything out.
\<close>

locale row_sink =
  fixes ready :: "'s \<Rightarrow> bool" and rows_in :: "'s \<Rightarrow> 'r list" and cut :: "'s \<Rightarrow> bool" and put :: "'s \<Rightarrow> 'r list \<Rightarrow> ('e, 's) result"
  assumes put_ready: "ready s \<Longrightarrow> \<exists>s'. put s b = Inr s' \<and> ready s'"
    and put_rows: "ready s \<Longrightarrow> put s b = Inr s' \<Longrightarrow> \<exists>k \<le> length b. rows_in s' = rows_in s @ take k b \<and> (k < length b \<longrightarrow> cut s')"
    and put_cut: "ready s \<Longrightarrow> put s b = Inr s' \<Longrightarrow> cut s \<Longrightarrow> cut s' \<and> rows_in s' = rows_in s"
begin

lemma put_all:
  assumes "ready s"
  shows "\<exists>s'. fold_r put s bs = Inr s' \<and> ready s' \<and> prefix (rows_in s') (rows_in s @ concat bs)
    \<and> (\<not> cut s' \<longrightarrow> rows_in s' = rows_in s @ concat bs) \<and> (cut s \<longrightarrow> cut s' \<and> rows_in s' = rows_in s)"
  using assms
proof (induction bs arbitrary: s)
  case (Cons b bs)
  obtain s1 where s1: "put s b = Inr s1" "ready s1" using put_ready [OF Cons.prems] by blast
  obtain k where k: "k \<le> length b" "rows_in s1 = rows_in s @ take k b" "k < length b \<longrightarrow> cut s1" using put_rows [OF Cons.prems s1(1)] by blast
  obtain s' where s': "fold_r put s1 bs = Inr s'" "ready s'" "prefix (rows_in s') (rows_in s1 @ concat bs)"
    "\<not> cut s' \<longrightarrow> rows_in s' = rows_in s1 @ concat bs" "cut s1 \<longrightarrow> cut s' \<and> rows_in s' = rows_in s1"
    using Cons.IH [OF s1(2)] by blast
  have "prefix (rows_in s') (rows_in s @ b @ concat bs) \<and> (\<not> cut s' \<longrightarrow> rows_in s' = rows_in s @ b @ concat bs)"
  proof (cases "k < length b")
    case True
    hence "cut s'" "rows_in s' = rows_in s @ take k b" using k s'(5) by auto
    thus ?thesis by (auto simp: take_is_prefix prefix_prefix)
  next
    case False
    thus ?thesis using k s'(3,4) by auto
  qed
  moreover have "cut s \<longrightarrow> cut s' \<and> rows_in s' = rows_in s" using put_cut [OF Cons.prems s1(1)] s'(5) by auto
  ultimately show ?case using s1(1) s'(1,2) by auto
qed simp

end

definition spool_ready :: "store_config \<Rightarrow> ('r list \<Rightarrow> int) \<Rightarrow> string \<Rightarrow> ('c, 'r) result_store \<Rightarrow> bool" where
  "spool_ready cfg size_of i s \<longleftrightarrow> spool_inv cfg size_of s \<and> safe_id i \<and> \<not> spool_sealed s i"

lemma append_total: "spool_ready cfg size_of i s \<Longrightarrow> \<exists>s'. append_spool cfg size_of i rows now s = Inr s'"
  by (auto simp: spool_ready_def append_spool_def read_spool_manifest_def spool_sealed_def new_manifest_def Let_def split: option.splits)

interpretation spool: row_sink "spool_ready cfg size_of i" "\<lambda>s. spool_rows s i" "\<lambda>s. spool_truncated s i" "\<lambda>s rows. append_spool cfg size_of i rows now s"
  for cfg size_of i now
proof unfold_locales
  fix s s' b
  assume r: "spool_ready cfg size_of i s"
  hence inv: "spool_inv cfg size_of s" by (simp add: spool_ready_def)
  note e = append_spool_effect [OF inv]
  show "\<exists>s'. append_spool cfg size_of i b now s = Inr s' \<and> spool_ready cfg size_of i s'"
    using append_total [OF r, of b now] e r by (fastforce simp: spool_ready_def appended_def)
  assume run: "append_spool cfg size_of i b now s = Inr s'"
  show "\<exists>k \<le> length b. spool_rows s' i = spool_rows s i @ take k b \<and> (k < length b \<longrightarrow> spool_truncated s' i)"
    using e [OF run] by (simp add: appended_def)
  show "spool_truncated s i \<Longrightarrow> spool_truncated s' i \<and> spool_rows s' i = spool_rows s i" using e [OF run] by (simp add: appended_def)
qed

section \<open>Snapshots stay as they are\<close>

definition spares :: "string \<Rightarrow> ('c, 'r) store_op \<Rightarrow> bool" where
  "spares t op = (case op of Delete i \<Rightarrow> i \<noteq> t | Collect keep \<Rightarrow> t \<in> set keep | _ \<Rightarrow> True)"

lemma sealed_append:
  assumes "spool_inv cfg size_of s" "append_spool cfg size_of i rows now s = Inr s'" "spool_sealed s t"
  shows "same_spool t s s'"
proof (cases "i = t \<and> rows \<noteq> []")
  case True
  obtain m s1 where r: "read_spool_manifest i now s = Inr (m, s1)" using assms(2) True by (auto simp: append_spool_def rbind_eq_Inr)
  have "sm_sealed m" using read_manifest(6) [OF assms(1) r] assms(3) True by simp
  thus ?thesis using assms(2) True r by (simp add: append_spool_def)
next
  case False
  thus ?thesis using append_spool_effect [OF assms(1,2)] assms(2) by (cases "rows = []") (auto simp: appended_def append_spool_def)
qed

lemma sealed_step:
  assumes "spool_inv cfg size_of s" "store_apply cfg size_of now op s = Inr s'" "spool_sealed s t" "spares t op"
  shows "spool_rows s' t = spool_rows s t \<and> spool_sealed s' t"
proof -
  have keep: "same_spool t s s' \<Longrightarrow> ?thesis" using same_spoolD [OF _ assms(1)] assms(3) by blast
  show ?thesis
  proof (cases op)
    case (Append i rows)
    thus ?thesis using keep sealed_append [OF assms(1) _ assms(3)] assms(2) by (simp add: store_apply_def)
  next
    case (Mark_truncated i)
    hence e: "mark_spool_truncated i now s = Inr s'" using assms(2) by (simp add: store_apply_def)
    show ?thesis using mark_effect [OF assms(1) e] keep assms(3) by (cases "i = t") auto
  next
    case (Set_pagination i has_more mode reason)
    thus ?thesis using pagination_effect(2,3) [OF assms(1)] assms(2,3) by (simp add: store_apply_def)
  next
    case (Set_columns i columns)
    thus ?thesis using columns_effect(2,3) [OF assms(1)] assms(2,3) by (simp add: store_apply_def)
  next
    case (Read i)
    thus ?thesis using keep get_manifest_effect(2) [OF assms(1)] assms(2) by (auto simp: store_apply_def rbind_eq_Inr)
  next
    case (Fetch i offset limit)
    hence "s' = s \<or> s' = make_dir i now s"
      using assms(2) by (auto simp: store_apply_def fetch_range_def read_spool_manifest_def rbind_eq_Inr split: if_splits)
    thus ?thesis using keep by auto
  next
    case (Snapshot i t')
    then obtain sn where e: "snapshot_spool size_of i t' now s = Inr (sn, s')" using assms(2) by (auto simp: store_apply_def rbind_eq_Inr)
    obtain m where "dict_get (rs_manifests s) t = Some m" using assms(3) by (auto simp: spool_sealed_def split: option.splits)
    hence "t \<in> fst ` set (rs_dirs s)" using spool_invD [OF assms(1)] by auto
    moreover have "dict_get (rs_dirs s) t' = None" using e unfolding snapshot_spool_def by (auto simp: rbind_eq_Inr split: if_splits option.splits)
    ultimately have "t \<noteq> t'" by (auto simp: map_of_eq_None_iff)
    thus ?thesis using keep snapshot_effect(4) [OF assms(1) e] by blast
  next
    case (Delete i)
    thus ?thesis using keep delete_effect(2) [OF assms(1), of i _ s' t] assms(2,4) by (auto simp: store_apply_def spares_def rbind_eq_Inr)
  next
    case (Collect ks)
    thus ?thesis using keep collect_effect(2) [OF assms(1), of ks now _ s' t] assms(2,4) by (auto simp: store_apply_def spares_def rbind_eq_Inr)
  qed
qed

lemma sealed_run:
  "spool_inv cfg size_of s \<Longrightarrow> spool_sealed s t \<Longrightarrow> list_all (\<lambda>(_, op). spares t op) ops
   \<Longrightarrow> spool_rows (store_run cfg size_of ops s) t = spool_rows s t \<and> spool_sealed (store_run cfg size_of ops s) t"
proof (induction cfg size_of ops s rule: store_run.induct)
  case (2 cfg size_of now op ops s)
  let ?s = "case store_apply cfg size_of now op s of Inl _ \<Rightarrow> s | Inr s' \<Rightarrow> s'"
  have "spool_rows ?s t = spool_rows s t \<and> spool_sealed ?s t"
    using sealed_step [OF 2(2) _ 2(3), of now op] 2(3,4) by (auto split: sum.splits)
  moreover have "spool_inv cfg size_of ?s" using store_apply_inv [OF 2(2)] 2(2) by (auto split: sum.splits)
  ultimately show ?case using 2 by simp
qed simp

text \<open>
  C33. A snapshot holds the rows its source had when it was taken and keeps them, sealed, under every later sequence of operations: appends
  and deletions of the source, appends to the snapshot itself (which are refused), other snapshots, and collections that are told to keep it.
\<close>

theorem snapshot_is_fixed:
  assumes "spool_inv cfg size_of s" "snapshot_spool size_of i t now s = Inr (sn, s1)" "list_all (\<lambda>(_, op). spares t op) ops"
  shows "spool_rows (store_run cfg size_of ops s1) t = spool_rows s i \<and> spool_sealed (store_run cfg size_of ops s1) t
    \<and> sn_loaded_rows sn = int (length (spool_rows s i))"
  using sealed_run [OF snapshot_effect(1) [OF assms(1,2)] snapshot_effect(3) [OF assms(1,2)] assms(3)] snapshot_effect(2,5) [OF assms(1,2)] by simp

theorem snapshot_is_fixed_witness:
  "\<exists>sn s. snapshot_spool demo_size ''r'' ''t'' 5 demo_spools = Inr (sn, s)
     \<and> spool_rows (store_run demo_store_config demo_size [(6, Append ''r'' [20]), (7, Delete ''r''), (8, Append ''t'' [30])] s) ''t'' = [10, 11, 12]"
proof -
  have "case snapshot_spool demo_size ''r'' ''t'' 5 demo_spools of Inl _ \<Rightarrow> False | Inr _ \<Rightarrow> True" by code_simp
  then obtain sn s where s: "snapshot_spool demo_size ''r'' ''t'' 5 demo_spools = Inr (sn, s)" by (auto split: sum.splits)
  moreover have "spool_rows demo_spools ''r'' = [10, 11, 12]" by code_simp
  ultimately show ?thesis
    using snapshot_is_fixed [OF demo_spools_inv s, of "[(6, Append ''r'' [20]), (7, Delete ''r''), (8, Append ''t'' [30])]"] by (auto simp: spares_def)
qed

end
