(* ===== verification/Broker_Results.thy ===== *)
theory Broker_Results
  imports Result_Spool Broker_Lane "HOL-Library.Product_Lexorder"
begin

text \<open>
  \<open>app/broker/results.py\<close>: the result sets of statements, as rows of the table \<open>result_sets\<close> and spools of the result store, and the
  way a lane fills them (\<open>_drain_to_spool\<close>, \<open>_flush_batch\<close> and the sealing in \<open>_execute_statement\<close> of \<open>app/broker/core.py\<close>). Timings in the
  metadata are left out. Rows of the table with equal times come back in the order of the table.
\<close>

section \<open>Data\<close>

datatype result_set_state = Rs_streaming | Rs_complete | Rs_failed | Rs_closed

record result_metadata =
  md_rows_read :: int
  md_rows_returned :: int
  md_max_rows :: int
  md_page_size :: int
  md_output_limit_applied :: bool

definition to_metadata :: "'r drain \<Rightarrow> statement_spool \<Rightarrow> result_metadata" where
  "to_metadata d sp = \<lparr>md_rows_read = dr_rows_read d, md_rows_returned = dr_rows_returned d, md_max_rows = sp_max_result_rows sp,
     md_page_size = sp_page_size sp, md_output_limit_applied = dr_limit_applied d\<rparr>"

record 'c catalog_row =
  rr_id :: string
  rr_execution_id :: string
  rr_console_id :: string
  rr_metadata :: "result_metadata option"
  rr_columns :: "'c list"
  rr_loaded_rows :: int
  rr_total_rows :: "int option"
  rr_state :: result_set_state
  rr_created_at :: int
  rr_updated_at :: int

record ('c, 'r) results =
  res_rows :: "'c catalog_row list"
  res_store :: "('c, 'r) result_store"

definition update_row :: "string \<Rightarrow> ('c catalog_row \<Rightarrow> 'c catalog_row) \<Rightarrow> 'c catalog_row list \<Rightarrow> 'c catalog_row list" where
  "update_row i f rows = map (\<lambda>r. if rr_id r = i then f r else r) rows"

section \<open>Registering and evicting\<close>

definition stale_console_resultsets :: "int \<Rightarrow> string \<Rightarrow> 'c catalog_row list \<Rightarrow> string list" where
  "stale_console_resultsets max_active console rows =
     drop (nat (max 1 max_active)) (map rr_id (sort_key (\<lambda>r. (- rr_updated_at r, - rr_created_at r))
       (filter (\<lambda>r. rr_console_id r = console \<and> rr_state r \<noteq> Rs_closed) rows)))"

text \<open>A directory that cannot be removed is left to the collection.\<close>

definition delete_quietly :: "('c, 'r) result_store \<Rightarrow> string \<Rightarrow> ('c, 'r) result_store" where
  "delete_quietly s i = (case delete_spool i s of Inl _ \<Rightarrow> s | Inr (_, s') \<Rightarrow> s')"

definition evict_console_resultsets :: "int \<Rightarrow> string \<Rightarrow> int \<Rightarrow> ('c, 'r) results \<Rightarrow> ('c, 'r) results" where
  "evict_console_resultsets max_active console now c =
     (let stale = stale_console_resultsets max_active console (res_rows c) in
      \<lparr>res_rows = map (\<lambda>r. if rr_id r \<in> set stale then r\<lparr>rr_state := Rs_closed, rr_updated_at := now\<rparr> else r) (res_rows c),
       res_store = foldl delete_quietly (res_store c) stale\<rparr>)"

definition register ::
    "int \<Rightarrow> console_statement \<Rightarrow> string \<Rightarrow> int \<Rightarrow> int \<Rightarrow> int \<Rightarrow> ('c, 'r) results \<Rightarrow> (result_store_error, statement_spool \<times> ('c, 'r) results) result" where
  "register max_active x i page_size max_result_rows now c =
     rbind (safe_segment i) (\<lambda>_.
       Inr (\<lparr>sp_result_set_id = i, sp_page_size = page_size, sp_max_result_rows = max_result_rows\<rparr>,
         evict_console_resultsets max_active (stm_console_id x) now
           (c\<lparr>res_rows := res_rows c @ [\<lparr>rr_id = i, rr_execution_id = stm_id x, rr_console_id = stm_console_id x, rr_metadata = None, rr_columns = [],
                rr_loaded_rows = 0, rr_total_rows = None, rr_state = Rs_streaming, rr_created_at = now, rr_updated_at = now\<rparr>],
              res_store := make_dir i now (res_store c)\<rparr>)))"

section \<open>Writing\<close>

definition set_columns :: "statement_spool \<Rightarrow> 'c list \<Rightarrow> int \<Rightarrow> ('c, 'r) results \<Rightarrow> (result_store_error, ('c, 'r) results) result" where
  "set_columns sp columns now c =
     rbind (set_spool_columns (sp_result_set_id sp) columns now (res_store c)) (\<lambda>s. Inr (c\<lparr>res_store := s\<rparr>))"

definition append_rows ::
    "store_config \<Rightarrow> ('r list \<Rightarrow> int) \<Rightarrow> statement_spool \<Rightarrow> 'r list \<Rightarrow> int \<Rightarrow> ('c, 'r) results \<Rightarrow> (result_store_error, ('c, 'r) results) result" where
  "append_rows cfg size_of sp rows now c =
     rbind (append_spool cfg size_of (sp_result_set_id sp) rows now (res_store c)) (\<lambda>s. Inr (c\<lparr>res_store := s\<rparr>))"

definition mark_truncated :: "statement_spool \<Rightarrow> int \<Rightarrow> ('c, 'r) results \<Rightarrow> (result_store_error, ('c, 'r) results) result" where
  "mark_truncated sp now c =
     rbind (mark_spool_truncated (sp_result_set_id sp) now (res_store c)) (\<lambda>s. Inr (c\<lparr>res_store := s\<rparr>))"

definition manifest_int :: "int \<Rightarrow> int" where
  "manifest_int v = (if v \<ge> 0 then v else 0)"

definition write_catalog ::
    "statement_spool \<Rightarrow> console_statement \<Rightarrow> 'c list \<Rightarrow> result_set_state \<Rightarrow> int \<Rightarrow> int option \<Rightarrow> result_metadata option \<Rightarrow> int
     \<Rightarrow> ('c, 'r) results \<Rightarrow> (result_store_error, ('c, 'r) results) result" where
  "write_catalog sp x columns state loaded total_rows metadata now c =
     rbind (safe_segment (sp_result_set_id sp)) (\<lambda>i.
       Inr \<lparr>res_rows = update_row i (\<lambda>r. r\<lparr>rr_execution_id := stm_id x, rr_console_id := stm_console_id x, rr_metadata := metadata,
               rr_columns := columns, rr_loaded_rows := loaded, rr_total_rows := total_rows, rr_state := state, rr_updated_at := now\<rparr>) (res_rows c),
            res_store = make_dir i now (res_store c)\<rparr>)"

definition publish_streaming ::
    "statement_spool \<Rightarrow> console_statement \<Rightarrow> 'c list \<Rightarrow> int \<Rightarrow> ('c, 'r) results \<Rightarrow> (result_store_error, ('c, 'r) results) result" where
  "publish_streaming sp x columns now c =
     rbind (get_spool_manifest (sp_result_set_id sp) now (res_store c)) (\<lambda>(m, s).
       write_catalog sp x columns Rs_streaming (manifest_int (sm_loaded_rows m)) None None now (c\<lparr>res_store := s\<rparr>))"

definition finalize ::
    "statement_spool \<Rightarrow> console_statement \<Rightarrow> 'c list \<Rightarrow> 'r drain \<Rightarrow> int \<Rightarrow> ('c, 'r) results \<Rightarrow> (result_store_error, ('c, 'r) results) result" where
  "finalize sp x columns d now c =
     rbind (get_spool_manifest (sp_result_set_id sp) now (res_store c)) (\<lambda>(m, s).
       let loaded = manifest_int (sm_loaded_rows m) in
       write_catalog sp x columns Rs_complete loaded (if sm_truncated m \<or> dr_limit_applied d then None else Some loaded)
         (Some (to_metadata d sp)) now (c\<lparr>res_store := s\<rparr>))"

definition flush_batch ::
    "store_config \<Rightarrow> ('r list \<Rightarrow> int) \<Rightarrow> statement_spool \<Rightarrow> console_statement \<Rightarrow> 'c list \<Rightarrow> int \<Rightarrow> ('c, 'r) results \<Rightarrow> 'r list
     \<Rightarrow> (result_store_error, ('c, 'r) results) result" where
  "flush_batch cfg size_of sp x columns now c batch =
     rbind (append_rows cfg size_of sp batch now c) (\<lambda>c. publish_streaming sp x columns now c)"

text \<open>The rows of a statement from the driver to the sealed result set: the batches of the lane in order, the mark, the seal.\<close>

definition spool_statement ::
    "store_config \<Rightarrow> ('r list \<Rightarrow> int) \<Rightarrow> statement_spool \<Rightarrow> console_statement \<Rightarrow> 'c list \<Rightarrow> 'r drain \<Rightarrow> int \<Rightarrow> ('c, 'r) results
     \<Rightarrow> (result_store_error, ('c, 'r) results) result" where
  "spool_statement cfg size_of sp x columns d now c =
     rbind (fold_r (flush_batch cfg size_of sp x columns now) c (dr_flushed d)) (\<lambda>c.
     rbind (if dr_limit_applied d then mark_truncated sp now c else Inr c) (\<lambda>c.
     finalize sp x columns d now c))"

section \<open>Draining\<close>

lemma drain_row_all: "concat (dr_flushed (drain_row bs r d)) @ dr_batch (drain_row bs r d) = (concat (dr_flushed d) @ dr_batch d) @ [r]"
  by (simp add: drain_row_def Let_def)

lemma drain_row_fields [simp]: "dr_rows_returned (drain_row bs r d) = dr_rows_returned d + 1" "dr_limit_applied (drain_row bs r d) = dr_limit_applied d"
  "dr_rows_read (drain_row bs r d) = dr_rows_read d"
  by (simp_all add: drain_row_def Let_def)

definition batches_ok :: "int \<Rightarrow> 'r drain \<Rightarrow> bool" where
  "batches_ok bs d \<longleftrightarrow> list_all (\<lambda>b. b \<noteq> [] \<and> int (length b) \<le> bs) (dr_flushed d) \<and> int (length (dr_batch d)) < bs"

lemma drain_row_batches: "batches_ok bs d \<Longrightarrow> batches_ok bs (drain_row bs r d)"
  by (auto simp: batches_ok_def drain_row_def Let_def)

lemma drain_loop_limited:
  assumes "0 \<le> dr_rows_returned d" "batches_ok bs d" "\<not> dr_limit_applied d" "dr_rows_returned d \<le> l"
  shows "let d' = drain_loop bs (Some l) rows d; k = nat (l - dr_rows_returned d) in
    concat (dr_flushed d') @ dr_batch d' = (concat (dr_flushed d) @ dr_batch d) @ take k rows \<and> dr_rows_returned d' = dr_rows_returned d + int (length (take k rows))
    \<and> (dr_limit_applied d' \<longleftrightarrow> k < length rows) \<and> batches_ok bs d'"
  using assms
proof (induction rows arbitrary: d)
  case (Cons r rs)
  let ?d = "d\<lparr>dr_rows_read := dr_rows_read d + 1\<rparr>"
  have b: "batches_ok bs ?d" using Cons.prems(2) by (simp add: batches_ok_def)
  show ?case
  proof (cases "dr_rows_returned d \<ge> l")
    case True
    thus ?thesis using Cons.prems b by (simp add: Let_def batches_ok_def)
  next
    case False
    let ?e = "drain_row bs r ?d"
    have k: "nat (l - dr_rows_returned d) = Suc (nat (l - (dr_rows_returned d + 1)))" using False by simp
    have "let d' = drain_loop bs (Some l) rs ?e; k = nat (l - dr_rows_returned ?e) in
        concat (dr_flushed d') @ dr_batch d' = (concat (dr_flushed ?e) @ dr_batch ?e) @ take k rs \<and> dr_rows_returned d' = dr_rows_returned ?e + int (length (take k rs))
        \<and> (dr_limit_applied d' \<longleftrightarrow> k < length rs) \<and> batches_ok bs d'"
      using Cons.prems False by (intro Cons.IH drain_row_batches b) auto
    thus ?thesis using False drain_row_all [of bs r ?d] by (simp add: Let_def k)
  qed
qed (simp add: Let_def)

lemma drain_concat:
  assumes "0 \<le> sp_max_result_rows sp"
  shows "concat (dr_flushed (drain_to_spool cfg (Some sp) rows)) = take (nat (sp_max_result_rows sp)) rows"
    "dr_rows_returned (drain_to_spool cfg (Some sp) rows) = int (length (take (nat (sp_max_result_rows sp)) rows))"
    "dr_limit_applied (drain_to_spool cfg (Some sp) rows) \<longleftrightarrow> nat (sp_max_result_rows sp) < length rows"
    "list_all (\<lambda>b. b \<noteq> [] \<and> int (length b) \<le> batch_size cfg (Some sp)) (dr_flushed (drain_to_spool cfg (Some sp) rows))"
proof -
  let ?d0 = "\<lparr>dr_rows_read = 0, dr_rows_returned = 0, dr_limit_applied = False, dr_batch = [], dr_flushed = []\<rparr>"
  have "batches_ok (batch_size cfg (Some sp)) ?d0" by (simp add: batches_ok_def batch_size_def)
  note l = drain_loop_limited [of ?d0, OF _ this, of "sp_max_result_rows sp" rows]
  show "concat (dr_flushed (drain_to_spool cfg (Some sp) rows)) = take (nat (sp_max_result_rows sp)) rows"
    "dr_rows_returned (drain_to_spool cfg (Some sp) rows) = int (length (take (nat (sp_max_result_rows sp)) rows))"
    "dr_limit_applied (drain_to_spool cfg (Some sp) rows) \<longleftrightarrow> nat (sp_max_result_rows sp) < length rows"
    "list_all (\<lambda>b. b \<noteq> [] \<and> int (length b) \<le> batch_size cfg (Some sp)) (dr_flushed (drain_to_spool cfg (Some sp) rows))"
    using l assms by (auto simp: drain_to_spool_def Let_def batches_ok_def)
qed

text \<open>
  Draining a statement hands over exactly the first rows up to the limit, in order, in non-empty batches no larger than the batch size;
  it counts them, and notes that the limit cut the result exactly when the driver had another row.
\<close>

theorem drain_to_spool_correct:
  assumes "0 \<le> sp_max_result_rows sp"
  shows "let d = drain_to_spool cfg (Some sp) rows; l = nat (sp_max_result_rows sp) in
    concat (dr_flushed d) = take l rows \<and> dr_rows_returned d = int (length (take l rows)) \<and> (dr_limit_applied d \<longleftrightarrow> l < length rows)
    \<and> list_all (\<lambda>b. b \<noteq> [] \<and> int (length b) \<le> batch_size cfg (Some sp)) (dr_flushed d)"
  using drain_concat [OF assms, of cfg rows] by (simp add: Let_def)

section \<open>From the driver to the sealed result set\<close>

definition results_ready :: "store_config \<Rightarrow> ('r list \<Rightarrow> int) \<Rightarrow> string \<Rightarrow> ('c, 'r) results \<Rightarrow> bool" where
  "results_ready cfg size_of i c \<longleftrightarrow> spool_ready cfg size_of i (res_store c) \<and> list_ex (\<lambda>r. rr_id r = i) (res_rows c)"

lemma spool_ready_same: "spool_ready cfg size_of i s \<Longrightarrow> spool_inv cfg size_of s' \<Longrightarrow> same_spool i s s' \<Longrightarrow> spool_ready cfg size_of i s'"
  using same_spoolD(3) unfolding spool_ready_def by blast

lemma update_row_ex [simp]: "(\<And>r. rr_id (f r) = rr_id r) \<Longrightarrow> list_ex (\<lambda>r. rr_id r = j) (update_row i f rows) = list_ex (\<lambda>r. rr_id r = j) rows"
  by (induction rows) (auto simp: update_row_def)

lemma get_manifest_total: "safe_id i \<Longrightarrow> \<exists>m s'. get_spool_manifest i now s = Inr (m, s')"
  by (simp add: get_spool_manifest_def read_spool_manifest_def)

lemma update_row_hit: "list_ex (\<lambda>r. rr_id r = i) rows \<Longrightarrow> (\<And>r. rr_id r = i \<Longrightarrow> P (f r)) \<Longrightarrow> list_ex P (update_row i f rows)"
  by (induction rows) (auto simp: update_row_def)

text \<open>Writing the catalogue leaves the spools alone.\<close>

lemma write_catalog_effect:
  assumes "results_ready cfg size_of (sp_result_set_id sp) c"
  shows "\<exists>c'. write_catalog sp x columns state loaded total_rows md now c = Inr c' \<and> results_ready cfg size_of (sp_result_set_id sp) c'
    \<and> same_spool j (res_store c) (res_store c')
    \<and> list_ex (\<lambda>r. rr_id r = sp_result_set_id sp \<and> rr_state r = state \<and> rr_loaded_rows r = loaded \<and> rr_total_rows r = total_rows) (res_rows c')"
proof -
  let ?i = "sp_result_set_id sp"
  have r: "spool_ready cfg size_of ?i (res_store c)" "list_ex (\<lambda>r. rr_id r = ?i) (res_rows c)" using assms by (simp_all add: results_ready_def)
  hence id: "safe_id ?i" and inv: "spool_inv cfg size_of (res_store c)" by (simp_all add: spool_ready_def)
  have "spool_ready cfg size_of ?i (make_dir ?i now (res_store c))" by (rule spool_ready_same [OF r(1) make_dir_inv [OF inv]]) simp
  thus ?thesis using id r(2) by (simp add: write_catalog_def results_ready_def) (rule update_row_hit, simp_all)
qed

lemma publish_effect:
  assumes "results_ready cfg size_of (sp_result_set_id sp) c"
  shows "\<exists>c'. publish_streaming sp x columns now c = Inr c' \<and> results_ready cfg size_of (sp_result_set_id sp) c' \<and> same_spool j (res_store c) (res_store c')"
proof -
  let ?i = "sp_result_set_id sp"
  have r: "spool_ready cfg size_of ?i (res_store c)" using assms by (simp add: results_ready_def)
  hence id: "safe_id ?i" and inv: "spool_inv cfg size_of (res_store c)" by (simp_all add: spool_ready_def)
  obtain m s where g: "get_spool_manifest ?i now (res_store c) = Inr (m, s)" using get_manifest_total [OF id] by blast
  note e = get_manifest_effect [OF inv g]
  have "results_ready cfg size_of ?i (c\<lparr>res_store := s\<rparr>)" using assms spool_ready_same [OF r e(1,2)] by (simp add: results_ready_def)
  from write_catalog_effect [OF this, where j = j] show ?thesis using e(2) [of j] by (fastforce simp: publish_streaming_def g intro: same_spool_trans)
qed

lemma flush_effect:
  assumes "results_ready cfg size_of (sp_result_set_id sp) c"
  shows "\<exists>c' s. flush_batch cfg size_of sp x columns now c b = Inr c' \<and> results_ready cfg size_of (sp_result_set_id sp) c'
    \<and> append_spool cfg size_of (sp_result_set_id sp) b now (res_store c) = Inr s \<and> spool_inv cfg size_of s \<and> same_spool (sp_result_set_id sp) s (res_store c')"
proof -
  let ?i = "sp_result_set_id sp"
  have r: "spool_ready cfg size_of ?i (res_store c)" using assms by (simp add: results_ready_def)
  obtain s where s: "append_spool cfg size_of ?i b now (res_store c) = Inr s" "spool_ready cfg size_of ?i s" using spool.put_ready [OF r] by blast
  have "results_ready cfg size_of ?i (c\<lparr>res_store := s\<rparr>)" using assms s(2) by (simp add: results_ready_def)
  from publish_effect [OF this] show ?thesis using s by (auto simp: flush_batch_def append_rows_def spool_ready_def)
qed

interpretation sink: row_sink "results_ready cfg size_of (sp_result_set_id sp)" "\<lambda>c. spool_rows (res_store c) (sp_result_set_id sp)"
    "\<lambda>c. spool_truncated (res_store c) (sp_result_set_id sp)" "flush_batch cfg size_of sp x columns now"
  for cfg and size_of :: "'r list \<Rightarrow> int" and sp x and columns :: "'c list" and now
proof unfold_locales
  fix c c' :: "('c, 'r) results" and b
  let ?i = "sp_result_set_id sp"
  assume r: "results_ready cfg size_of ?i c"
  hence r0: "spool_ready cfg size_of ?i (res_store c)" by (simp add: results_ready_def)
  note e = flush_effect [OF r, of x columns now b]
  show "\<exists>c'. flush_batch cfg size_of sp x columns now c b = Inr c' \<and> results_ready cfg size_of ?i c'" using e by blast
  assume "flush_batch cfg size_of sp x columns now c b = Inr c'"
  then obtain s where s: "append_spool cfg size_of ?i b now (res_store c) = Inr s" "spool_inv cfg size_of s" "same_spool ?i s (res_store c')" using e by auto
  note same = same_spoolD [OF s(3,2)]
  show "\<exists>k \<le> length b. spool_rows (res_store c') ?i = spool_rows (res_store c) ?i @ take k b \<and> (k < length b \<longrightarrow> spool_truncated (res_store c') ?i)"
    using spool.put_rows [OF r0 s(1)] same by simp
  show "spool_truncated (res_store c) ?i \<Longrightarrow> spool_truncated (res_store c') ?i \<and> spool_rows (res_store c') ?i = spool_rows (res_store c) ?i"
    using spool.put_cut [OF r0 s(1)] same by simp
qed

lemma mark_spool_total:
  assumes "spool_ready cfg size_of i s"
  shows "\<exists>s'. mark_spool_truncated i now s = Inr s'"
proof -
  have a: "spool_inv cfg size_of s" "safe_id i" "\<not> spool_sealed s i" using assms by (simp_all add: spool_ready_def)
  obtain m where r: "read_spool_manifest i now s = Inr (m, make_dir i now s)" using a(2) by (simp add: read_spool_manifest_def)
  have "\<not> sm_sealed m" using read_manifest(6) [OF a(1) r] a(3) by simp
  hence "\<exists>s'. change_manifest i now f s = Inr s'" for f by (simp add: change_manifest_def r)
  thus ?thesis using \<open>\<not> sm_sealed m\<close> by (cases "sm_truncated m \<and> sm_has_more m") (simp_all add: mark_spool_truncated_def r)
qed

lemma mark_total:
  assumes "results_ready cfg size_of (sp_result_set_id sp) c"
  shows "\<exists>c'. mark_truncated sp now c = Inr c' \<and> results_ready cfg size_of (sp_result_set_id sp) c' \<and> spool_truncated (res_store c') (sp_result_set_id sp)
    \<and> spool_rows (res_store c') (sp_result_set_id sp) = spool_rows (res_store c) (sp_result_set_id sp)"
proof -
  let ?i = "sp_result_set_id sp"
  have r: "spool_inv cfg size_of (res_store c)" "safe_id ?i" "\<not> spool_sealed (res_store c) ?i" using assms by (simp_all add: results_ready_def spool_ready_def)
  obtain s where s: "mark_spool_truncated ?i now (res_store c) = Inr s"
    using mark_spool_total [of cfg size_of ?i "res_store c" now] assms unfolding results_ready_def by blast
  from mark_effect [OF r(1) s] show ?thesis using assms r by (auto simp: mark_truncated_def s results_ready_def spool_ready_def)
qed

lemma finalize_effect:
  assumes "results_ready cfg size_of (sp_result_set_id sp) c"
  shows "\<exists>c'. finalize sp x columns d now c = Inr c' \<and> same_spool j (res_store c) (res_store c')
    \<and> (let n = int (length (spool_rows (res_store c) (sp_result_set_id sp))) in
       list_ex (\<lambda>r. rr_id r = sp_result_set_id sp \<and> rr_state r = Rs_complete \<and> rr_loaded_rows r = n
         \<and> rr_total_rows r = (if spool_truncated (res_store c) (sp_result_set_id sp) \<or> dr_limit_applied d then None else Some n)) (res_rows c'))"
proof -
  let ?i = "sp_result_set_id sp"
  have r: "spool_ready cfg size_of ?i (res_store c)" using assms by (simp add: results_ready_def)
  hence id: "safe_id ?i" and inv: "spool_inv cfg size_of (res_store c)" by (simp_all add: spool_ready_def)
  obtain m s where g: "get_spool_manifest ?i now (res_store c) = Inr (m, s)" using get_manifest_total [OF id] by blast
  note e = get_manifest_effect [OF inv g]
  have "results_ready cfg size_of ?i (c\<lparr>res_store := s\<rparr>)" using assms spool_ready_same [OF r e(1,2)] by (simp add: results_ready_def)
  from write_catalog_effect [OF this, where j = j] show ?thesis
    using e(2) [of j] e(3,4) by (fastforce simp: finalize_def g manifest_int_def Let_def intro: same_spool_trans)
qed


text \<open>A catalogue to apply the properties: one registered statement of console c.\<close>

definition shown_statement :: "string \<Rightarrow> console_statement" where
  "shown_statement i = new_statement (connecting_session \<lparr>rq_console_id = ''c'', rq_datasource_id = ''d'', rq_owner = ''u''\<rparr> ''s'' ''b'' 1 0)
     \<lparr>in_statement_id = i, in_request_id = i, in_sql = ''x'', in_sql_hash = [], in_timeout = 0, in_is_write = False\<rparr> 1 0"

definition no_results :: "(string, nat) results" where
  "no_results = \<lparr>res_rows = [], res_store = empty_store\<rparr>"

definition lane_config :: broker_config where
  "lane_config = \<lparr>cfg_limits = \<lparr>per_user = 8, per_datasource = 4, global_total = 16\<rparr>, cfg_mailbox_size = 20, cfg_idle_timeout_seconds = 1800,
     cfg_cancel_grace_seconds = 5, cfg_timer_poll_seconds = 1, cfg_spool_batch_size = 2\<rparr>"

definition shown_spool :: statement_spool where
  "shown_spool = \<lparr>sp_result_set_id = ''r'', sp_page_size = 2, sp_max_result_rows = 4\<rparr>"

definition shown_results :: "(string, nat) results" where
  "shown_results = (case register 3 (shown_statement ''x'') ''r'' 2 4 1 no_results of Inl _ \<Rightarrow> no_results | Inr (_, c) \<Rightarrow> c)"

lemma shown_ready: "results_ready demo_store_config demo_size (sp_result_set_id shown_spool) shown_results"
proof -
  have "safe_id ''r''" "\<not> spool_sealed (res_store shown_results) ''r''" "list_ex (\<lambda>r. rr_id r = ''r'') (res_rows shown_results)" by code_simp+
  moreover have "rs_manifests (res_store shown_results) = []" by code_simp
  hence "spool_inv demo_store_config demo_size (res_store shown_results)" by (simp add: spool_inv_def demo_store_config_def)
  ultimately show ?thesis by (simp add: results_ready_def spool_ready_def shown_spool_def)
qed

theorem drain_to_spool_correct_witness: "concat (dr_flushed (drain_to_spool lane_config (Some shown_spool) [1, 2, 3, 4, 5::nat])) = [1, 2, 3, 4]"
  using drain_to_spool_correct [of shown_spool lane_config "[1, 2, 3, 4, 5::nat]"] by (simp add: Let_def shown_spool_def)


section \<open>Eviction\<close>

definition open_rows :: "string \<Rightarrow> 'c catalog_row list \<Rightarrow> 'c catalog_row list" where
  "open_rows console rows = filter (\<lambda>r. rr_console_id r = console \<and> rr_state r \<noteq> Rs_closed) rows"

lemma evict_open_rows:
  "length (open_rows console (res_rows (evict_console_resultsets n console now c))) \<le> nat (max 1 n)"
proof -
  let ?st = "stale_console_resultsets n console (res_rows c)" and ?k = "nat (max 1 n)"
  let ?xs = "sort_key (\<lambda>r. (- rr_updated_at r, - rr_created_at r)) (open_rows console (res_rows c))"
  let ?P = "\<lambda>r. rr_id r \<notin> set ?st"
  have st: "set ?st = rr_id ` set (drop ?k ?xs)" by (simp add: stale_console_resultsets_def open_rows_def drop_map)
  have "length (open_rows console (map (\<lambda>r. if rr_id r \<in> S then r\<lparr>rr_state := Rs_closed, rr_updated_at := now\<rparr> else r) rows)) = length (filter (\<lambda>r. rr_id r \<notin> S) (open_rows console rows))"
    for S and rows :: "'a catalog_row list"
    by (induction rows) (auto simp: open_rows_def)
  hence "length (open_rows console (res_rows (evict_console_resultsets n console now c))) = length (filter ?P (open_rows console (res_rows c)))"
    by (simp add: evict_console_resultsets_def Let_def)
  also have "\<dots> = length (filter ?P ?xs)" by (simp add: filter_sort)
  also have "\<dots> = length (filter ?P (take ?k ?xs)) + length (filter ?P (drop ?k ?xs))" by (metis append_take_drop_id filter_append length_append)
  also have "filter ?P (drop ?k ?xs) = []" unfolding st by (auto simp: filter_empty_conv)
  finally have "length (open_rows console (res_rows (evict_console_resultsets n console now c))) = length (filter ?P (take ?k ?xs))" by simp
  thus ?thesis using length_filter_le [of ?P "take ?k ?xs"] by simp
qed

lemma hd_sort_key:
  assumes "a \<in> set xs" "\<And>y. y \<in> set xs \<Longrightarrow> f y \<le> f a \<Longrightarrow> y = a"
  shows "\<exists>zs. sort_key f xs = a # zs"
proof -
  have s: "sorted (map f (sort_key f xs))" "set (sort_key f xs) = set xs" by simp_all
  obtain h zs where z: "sort_key f xs = h # zs" using assms(1) s(2) by (metis list.exhaust list.set(1) empty_iff)
  have "h \<in> set xs" using s(2) z by (metis list.set_intros(1))
  moreover have "f h \<le> f a" using s z assms(1) by (auto simp: z)
  ultimately show ?thesis using assms(2) z by metis
qed

text \<open>
  Registering a result set leaves at most the configured number of result sets open in its console, and the one just registered is among
  them when it is the latest.
\<close>

theorem register_keeps_newest:
  assumes "register n x i page_size max_rows now c = Inr (sp, c')" "distinct (map rr_id (res_rows c))" "i \<notin> rr_id ` set (res_rows c)"
    and "list_all (\<lambda>r. rr_updated_at r < now) (res_rows c)"
  shows "length (open_rows (stm_console_id x) (res_rows c')) \<le> nat (max 1 n) \<and> list_ex (\<lambda>r. rr_id r = i \<and> rr_state r = Rs_streaming) (res_rows c')"
proof -
  let ?new = "\<lparr>rr_id = i, rr_execution_id = stm_id x, rr_console_id = stm_console_id x, rr_metadata = None, rr_columns = [],
      rr_loaded_rows = 0, rr_total_rows = None, rr_state = Rs_streaming, rr_created_at = now, rr_updated_at = now\<rparr>"
  let ?f = "\<lambda>r. (- rr_updated_at r, - rr_created_at r)" and ?rows = "res_rows c @ [?new]" and ?k = "nat (max 1 n)"
  define e where "e = c\<lparr>res_rows := ?rows, res_store := make_dir i now (res_store c)\<rparr>"
  have c': "c' = evict_console_resultsets n (stm_console_id x) now e" using assms(1) by (auto simp: register_def rbind_eq_Inr e_def)
  let ?xs = "open_rows (stm_console_id x) ?rows"
  have new: "?new \<in> set ?xs" by (simp add: open_rows_def)
  have "y = ?new" if "y \<in> set ?xs" "?f y \<le> ?f ?new" for y
  proof (rule ccontr)
    assume "y \<noteq> ?new"
    hence "rr_updated_at y < now" using that(1) assms(4) by (auto simp: open_rows_def list_all_iff)
    thus False using that(2) by simp
  qed
  then obtain zs where zs: "sort_key ?f ?xs = ?new # zs" using hd_sort_key [OF new, of ?f] by blast
  have "distinct (map rr_id ?xs)" unfolding open_rows_def using assms(2,3) by (auto simp: distinct_map_filter)
  hence "distinct (map rr_id (sort_key ?f ?xs))" by (simp add: distinct_map)
  hence ni: "i \<notin> rr_id ` set zs" unfolding zs by simp
  have st: "stale_console_resultsets n (stm_console_id x) ?rows = map rr_id (drop ?k (?new # zs))"
    unfolding stale_console_resultsets_def zs [symmetric] open_rows_def by (simp add: drop_map)
  have "?k = Suc (?k - 1)" by simp
  hence "drop ?k (?new # zs) = drop (?k - 1) zs" by (metis drop_Suc_Cons)
  hence "i \<notin> set (stale_console_resultsets n (stm_console_id x) ?rows)" unfolding st using ni by (auto dest: in_set_dropD)
  hence "list_ex (\<lambda>r. rr_id r = i \<and> rr_state r = Rs_streaming) (res_rows c')" by (simp add: c' evict_console_resultsets_def e_def Let_def)
  thus ?thesis using evict_open_rows [of "stm_console_id x" n now e] by (simp add: c')
qed

theorem register_keeps_newest_witness:
  "\<exists>sp c. register 3 (shown_statement ''y'') ''t'' 2 4 2 shown_results = Inr (sp, c) \<and> list_ex (\<lambda>r. rr_id r = ''t'' \<and> rr_state r = Rs_streaming) (res_rows c)"
proof -
  have "case register 3 (shown_statement ''y'') ''t'' 2 4 2 shown_results of Inl _ \<Rightarrow> False | Inr _ \<Rightarrow> True" by code_simp
  then obtain sp c where r: "register 3 (shown_statement ''y'') ''t'' 2 4 2 shown_results = Inr (sp, c)" by (auto split: sum.splits)
  have "distinct (map rr_id (res_rows shown_results))" "''t'' \<notin> rr_id ` set (res_rows shown_results)" "list_all (\<lambda>r. rr_updated_at r < 2) (res_rows shown_results)"
    by code_simp+
  from register_keeps_newest [OF r this] r show ?thesis by blast
qed

text \<open>A statement has stored two rows when three more are submitted in its console; it then stores a third row and ends.\<close>

definition registered :: "string \<Rightarrow> string \<Rightarrow> int \<Rightarrow> (string, nat) results \<Rightarrow> (string, nat) results" where
  "registered x i now c = (case register 3 (shown_statement x) i 2 4 now c of Inl _ \<Rightarrow> c | Inr (_, c') \<Rightarrow> c')"

definition flushed :: "nat list \<Rightarrow> int \<Rightarrow> (string, nat) results \<Rightarrow> (string, nat) results" where
  "flushed rows now c = (case flush_batch demo_store_config demo_size shown_spool (shown_statement ''x'') [''a''] now c rows of Inl _ \<Rightarrow> c | Inr c' \<Rightarrow> c')"

definition evicted_results :: "(string, nat) results" where
  "evicted_results = registered ''w'' ''q'' 5 (registered ''z'' ''v'' 4 (registered ''y'' ''t'' 3 (flushed [1, 2] 2 shown_results)))"

definition refilled_results :: "(string, nat) results" where
  "refilled_results = flushed [3] 6 evicted_results"

text \<open>
  Submitting further statements evicts the result set of a statement that is still running: its rows are deleted and its row in the
  catalogue is closed. The running statement reopens it and seals it as complete with a total that counts only the rows stored after the
  eviction, although the statement returned more.
\<close>

theorem eviction_loses_rows:
  "list_ex (\<lambda>r. rr_id r = ''r'' \<and> rr_state r = Rs_closed) (res_rows evicted_results) \<and> spool_rows (res_store evicted_results) ''r'' = []
   \<and> (case finalize shown_spool (shown_statement ''x'') [''a''] (drain_to_spool lane_config (Some shown_spool) [1, 2, 3]) 7 refilled_results of
        Inl _ \<Rightarrow> False
      | Inr c \<Rightarrow> list_ex (\<lambda>r. rr_id r = ''r'' \<and> rr_state r = Rs_complete \<and> rr_total_rows r = Some 1 \<and> map_option md_rows_returned (rr_metadata r) = Some 3) (res_rows c)
          \<and> spool_rows (res_store c) ''r'' = [3])"
proof (intro conjI)
  show "list_ex (\<lambda>r. rr_id r = ''r'' \<and> rr_state r = Rs_closed) (res_rows evicted_results)" by code_simp
  show "spool_rows (res_store evicted_results) ''r'' = []" by code_simp
  show "case finalize shown_spool (shown_statement ''x'') [''a''] (drain_to_spool lane_config (Some shown_spool) [1, 2, 3]) 7 refilled_results of
      Inl _ \<Rightarrow> False
    | Inr c \<Rightarrow> list_ex (\<lambda>r. rr_id r = ''r'' \<and> rr_state r = Rs_complete \<and> rr_total_rows r = Some 1 \<and> map_option md_rows_returned (rr_metadata r) = Some 3) (res_rows c)
        \<and> spool_rows (res_store c) ''r'' = [3]" by code_simp
qed

end
