(* ===== verification/Interactive_Errors.thy ===== *)
theory Interactive_Errors
  imports Broker_Lane
begin

text \<open>
  The classification of driver exceptions (\<open>app/dbclients/interactive/errors.py\<close>): the code tables of the two dialects, the search for a numeric
  code along the chain of causes, the fallback on exception types, and the summary that is shown to a user with its passwords removed.

  Exceptions are objects of a heap: \<open>__cause__\<close> and \<open>__context__\<close> refer to other objects and may form a cycle. What a driver puts into the
  arguments of an exception is data of the model. A numeric text stays below the limit of digits of the interpreter.
\<close>

section \<open>Exceptions\<close>

text \<open>An argument that is neither a number nor a text is an object; the code reads its attributes \<open>code\<close> and \<open>message\<close>, and only when they are an
  integer and a text.\<close>

datatype exn_arg = Arg_bool bool | Arg_int int | Arg_str string | Arg_obj "int option" "string option"

datatype exn_class = ConnectionError_class | BrokenPipeError_class | TimeoutError_class | EOFError_class | Other_class string

record exn_obj =
  ex_name :: string
  ex_mro :: "exn_class list"
  ex_errno :: "exn_arg option"
  ex_args :: "exn_arg list"
  ex_text :: string
  ex_cause :: "nat option"
  ex_context :: "nat option"

type_synonym exn_heap = "nat \<Rightarrow> exn_obj"

definition MAX_CAUSE_DEPTH :: nat where
  "MAX_CAUSE_DEPTH = 5"

definition MAX_ERROR_SUMMARY_LENGTH :: nat where
  "MAX_ERROR_SUMMARY_LENGTH = 240"

definition next_exn :: "exn_obj \<Rightarrow> nat option" where
  "next_exn x = (case ex_cause x of Some i \<Rightarrow> Some i | None \<Rightarrow> ex_context x)"

function cause_loop :: "exn_heap \<Rightarrow> nat list \<Rightarrow> nat option \<Rightarrow> nat list" where
  "cause_loop h chain current =
     (case current of
        None \<Rightarrow> chain
      | Some i \<Rightarrow>
          if length chain \<ge> MAX_CAUSE_DEPTH then chain
          else if i \<in> set chain then chain
          else cause_loop h (chain @ [i]) (next_exn (h i)))"
  by pat_completeness auto
termination
  by (relation "measure (\<lambda>(h, chain, current). MAX_CAUSE_DEPTH - length chain)") (auto simp: MAX_CAUSE_DEPTH_def)

declare cause_loop.simps [simp del]

definition cause_chain :: "exn_heap \<Rightarrow> nat \<Rightarrow> nat list" where
  "cause_chain h e = cause_loop h [] (Some e)"

section \<open>Codes\<close>

text \<open>The value of a decimal numeral, as \<open>int(text)\<close> reads it.\<close>

definition digits_value :: "string \<Rightarrow> int" where
  "digits_value s = foldl (\<lambda>n c. n * 10 + (of_char c - 48)) 0 s"

definition all_digits :: "string \<Rightarrow> bool" where
  "all_digits s \<longleftrightarrow> s \<noteq> [] \<and> list_all is_digit s"

definition code_of_text :: "string \<Rightarrow> int option" where
  "code_of_text s =
     (let t = strip s in
      case t of
        [] \<Rightarrow> None
      | c # cs \<Rightarrow>
          if c = CHR ''-'' then (if all_digits cs then Some (- digits_value cs) else None)
          else if all_digits t then Some (digits_value t) else None)"

fun code_of_arg :: "exn_arg \<Rightarrow> int option" where
  "code_of_arg (Arg_bool b) = None"
| "code_of_arg (Arg_int n) = Some n"
| "code_of_arg (Arg_str s) = code_of_text s"
| "code_of_arg (Arg_obj code message) = code"

fun first_code :: "exn_arg list \<Rightarrow> int option" where
  "first_code [] = None"
| "first_code (a # as) = (case code_of_arg a of Some c \<Rightarrow> Some c | None \<Rightarrow> first_code as)"

definition code_of :: "exn_obj \<Rightarrow> int option" where
  "code_of x = (case ex_errno x of Some (Arg_int n) \<Rightarrow> Some n | _ \<Rightarrow> first_code (ex_args x))"

fun first_coded :: "exn_heap \<Rightarrow> nat list \<Rightarrow> nat option" where
  "first_coded h [] = None"
| "first_coded h (i # is) = (if code_of (h i) \<noteq> None then Some i else first_coded h is)"

definition driver_error_code :: "exn_heap \<Rightarrow> nat \<Rightarrow> int option" where
  "driver_error_code h e = (case first_coded h (cause_chain h e) of None \<Rightarrow> None | Some i \<Rightarrow> code_of (h i))"

definition root_driver_exception :: "exn_heap \<Rightarrow> nat \<Rightarrow> nat" where
  "root_driver_exception h e = (case first_coded h (cause_chain h e) of None \<Rightarrow> e | Some i \<Rightarrow> i)"

definition DM_ERROR_CODES :: "(int, error_category) dict" where
  "DM_ERROR_CODES =
     [(-2501, AUTH_FAILED), (-70028, HOST_UNREACHABLE), (-6515, CANCELLED), (-2104, STATEMENT_ERROR), (-2106, STATEMENT_ERROR)]"

definition MYSQL_ERROR_CODES :: "(int, error_category) dict" where
  "MYSQL_ERROR_CODES =
     [(1045, AUTH_FAILED), (2003, HOST_UNREACHABLE), (2005, HOST_UNREACHABLE), (1317, CANCELLED), (3024, TIMEOUT),
      (1054, STATEMENT_ERROR), (1064, STATEMENT_ERROR), (1146, STATEMENT_ERROR), (2006, CONNECTION_DEAD), (2013, CONNECTION_DEAD)]"

definition SERVER_CONFIRMED_CATEGORIES :: "error_category set" where
  "SERVER_CONFIRMED_CATEGORIES = {CANCELLED, TIMEOUT}"

definition connection_dead_type :: "exn_obj \<Rightarrow> bool" where
  "connection_dead_type x \<longleftrightarrow>
     list_ex (\<lambda>c. c \<in> {ConnectionError_class, BrokenPipeError_class, TimeoutError_class, EOFError_class}) (ex_mro x)"

definition category_from_type :: "exn_heap \<Rightarrow> nat \<Rightarrow> error_category" where
  "category_from_type h e = (if list_ex (\<lambda>i. connection_dead_type (h i)) (cause_chain h e) then CONNECTION_DEAD else UNKNOWN)"

section \<open>Summaries\<close>

text \<open>
  \<open>pattern.sub\<close> for a pattern that begins with \<open>\\b\<close> and a letter: the flag tells whether the character before is a word character, and
  \<open>m\<close> matches at the current position, with the replacement and the number of characters after the first one.
\<close>

fun re_sub :: "(string \<Rightarrow> (string \<times> nat) option) \<Rightarrow> bool \<Rightarrow> string \<Rightarrow> string" where
  "re_sub m w [] = []"
| "re_sub m w (c # cs) =
     (case (if w then None else m (c # cs)) of
        None \<Rightarrow> c # re_sub m (is_word c) cs
      | Some (r, n) \<Rightarrow> r @ re_sub m (is_word ((c # cs) ! n)) (drop n cs))"

definition is_quote :: "char \<Rightarrow> bool" where
  "is_quote c \<longleftrightarrow> c = CHR 39 \<or> c = CHR 34"

definition value_char :: "char \<Rightarrow> bool" where
  "value_char c \<longleftrightarrow> \<not> (is_quote c \<or> c = CHR '','' \<or> py_is_space c \<or> c = CHR '')'')"

fun drop_quote :: "string \<Rightarrow> string" where
  "drop_quote [] = []"
| "drop_quote (c # s) = (if is_quote c then s else c # s)"

definition keyword_at :: "string \<Rightarrow> nat option" where
  "keyword_at s = map_option length (find (\<lambda>k. map lower_char (take (length k) s) = k) [''password'', ''passwd'', ''pwd''])"

text \<open>What follows the keyword, up to the value: white space, a colon or an equals sign, white space, a quote.\<close>

definition after_keyword :: "string \<Rightarrow> string option" where
  "after_keyword s =
     (case dropWhile py_is_space s of
        [] \<Rightarrow> None
      | c # s \<Rightarrow> if c = CHR '':'' \<or> c = CHR ''='' then Some (drop_quote (dropWhile py_is_space s)) else None)"

definition match_password :: "string \<Rightarrow> (string \<times> nat) option" where
  "match_password s =
     (case keyword_at s of
        None \<Rightarrow> None
      | Some k \<Rightarrow>
          (case after_keyword (drop k s) of
             None \<Rightarrow> None
           | Some u \<Rightarrow>
               if takeWhile value_char u = [] then None
               else Some (take k s @ ''=***REDACTED***'', length s - length (drop_quote (dropWhile value_char u)) - 1)))"

definition scheme_char :: "char \<Rightarrow> bool" where
  "scheme_char c \<longleftrightarrow> is_letter c \<or> is_digit c \<or> c = CHR ''+'' \<or> c = CHR ''.'' \<or> c = CHR ''-''"

definition url_char :: "char \<Rightarrow> bool" where
  "url_char c \<longleftrightarrow> \<not> (py_is_space c \<or> is_quote c \<or> c = CHR '')'')"

definition match_url :: "string \<Rightarrow> (string \<times> nat) option" where
  "match_url s =
     (case s of
        [] \<Rightarrow> None
      | c # cs \<Rightarrow>
          let t = dropWhile scheme_char cs in
          if is_letter c \<and> starts_with ''://'' t \<and> takeWhile url_char (drop 3 t) \<noteq> []
          then Some (''<redacted-url>'', length s - length (dropWhile url_char (drop 3 t)) - 1)
          else None)"

definition sanitize_error_text :: "string \<Rightarrow> string" where
  "sanitize_error_text s =
     (let s = join_str '' '' (split_ws (re_sub match_url False (re_sub match_password False s))) in
      if length s > MAX_ERROR_SUMMARY_LENGTH then take MAX_ERROR_SUMMARY_LENGTH s @ ''...'' else s)"

fun first_message :: "exn_arg list \<Rightarrow> string option" where
  "first_message [] = None"
| "first_message (a # as) = (case a of Arg_obj code (Some (c # m)) \<Rightarrow> Some (c # m) | _ \<Rightarrow> first_message as)"

definition message_of :: "exn_obj \<Rightarrow> string" where
  "message_of x = (case first_message (ex_args x) of Some m \<Rightarrow> m | None \<Rightarrow> ex_text x)"

definition error_summary :: "exn_heap \<Rightarrow> nat \<Rightarrow> int option \<Rightarrow> string" where
  "error_summary h e code =
     (let root = h (root_driver_exception h e);
          code = (case code of None \<Rightarrow> driver_error_code h e | Some c \<Rightarrow> Some c);
          message = sanitize_error_text (message_of root) in
      join_str '' '' ([ex_name root]
        @ (case code of None \<Rightarrow> [] | Some c \<Rightarrow> [''code='' @ int_str c])
        @ (if message \<noteq> [] then [''message='' @ message] else [])))"

section \<open>The classifier\<close>

definition classify :: "(int, error_category) dict \<Rightarrow> exn_heap \<Rightarrow> nat \<Rightarrow> classified_error" where
  "classify codes h e =
     (let code = driver_error_code h e;
          category = (case code of
              None \<Rightarrow> category_from_type h e
            | Some c \<Rightarrow> (case dict_get codes c of Some k \<Rightarrow> k | None \<Rightarrow> category_from_type h e)) in
      \<lparr>cl_category = category, cl_driver_code = code, cl_summary = error_summary h e code,
       cl_server_confirmed = (category \<in> SERVER_CONFIRMED_CATEGORIES)\<rparr>)"

definition DMErrorClassifier :: "exn_heap \<Rightarrow> nat \<Rightarrow> classified_error" where
  "DMErrorClassifier = classify DM_ERROR_CODES"

definition MySQLErrorClassifier :: "exn_heap \<Rightarrow> nat \<Rightarrow> classified_error" where
  "MySQLErrorClassifier = classify MYSQL_ERROR_CODES"

section \<open>The chain of causes\<close>

text \<open>A path in the heap along the references that the loop follows.\<close>

primrec cause_path :: "exn_heap \<Rightarrow> nat option \<Rightarrow> nat list \<Rightarrow> nat option \<Rightarrow> bool" where
  "cause_path h x [] y \<longleftrightarrow> x = y"
| "cause_path h x (i # is) y \<longleftrightarrow> x = Some i \<and> cause_path h (next_exn (h i)) is y"

lemma cause_path_append [simp]: "cause_path h x (is @ js) z \<longleftrightarrow> (\<exists>y. cause_path h x is y \<and> cause_path h y js z)"
  by (induction "is" arbitrary: x) auto

text \<open>The loop ends where there is no further object, at the depth limit, or at an object it has seen.\<close>

definition chain_ends :: "nat list \<Rightarrow> nat option \<Rightarrow> bool" where
  "chain_ends chain y \<longleftrightarrow> y = None \<or> length chain = MAX_CAUSE_DEPTH \<or> y \<in> Some ` set chain"

lemma cause_loop_path:
  assumes "cause_path h x chain current" and "distinct chain" and "length chain \<le> MAX_CAUSE_DEPTH"
  shows "\<exists>y. cause_path h x (cause_loop h chain current) y \<and> chain_ends (cause_loop h chain current) y"
    and "distinct (cause_loop h chain current)"
    and "length (cause_loop h chain current) \<le> MAX_CAUSE_DEPTH"
    and "prefix chain (cause_loop h chain current)"
  using assms
proof (induction h chain current rule: cause_loop.induct)
  case (1 h chain current)
  case 1
  then show ?case
    using "1.IH"(1) by (subst (1 2) cause_loop.simps) (auto simp: chain_ends_def split: option.splits)
next
  case (1 h chain current)
  case 2
  then show ?case
    using "1.IH"(2) by (subst cause_loop.simps) (auto split: option.splits)
next
  case (1 h chain current)
  case 3
  then show ?case
    using "1.IH"(3) by (subst cause_loop.simps) (auto split: option.splits)
next
  case (1 h chain current)
  case 4
  then show ?case
    using "1.IH"(4) by (subst cause_loop.simps) (auto split: option.splits dest: append_prefixD)
qed

lemma cause_chain_path: "\<exists>y. cause_path h (Some e) (cause_chain h e) y \<and> chain_ends (cause_chain h e) y"
  unfolding cause_chain_def by (rule cause_loop_path) simp_all

lemma cause_chain_head: "\<exists>is. cause_chain h e = e # is"
proof -
  have "cause_chain h e = cause_loop h [e] (next_exn (h e))"
    unfolding cause_chain_def by (subst cause_loop.simps) (simp add: MAX_CAUSE_DEPTH_def)
  moreover have "prefix [e] (cause_loop h [e] (next_exn (h e)))"
    by (rule cause_loop_path(4) [where x = "Some e"]) (simp_all add: MAX_CAUSE_DEPTH_def)
  ultimately show ?thesis
    by (auto simp: prefix_def)
qed

text \<open>
  The walk over the causes of an exception returns on every heap, a cycle of causes included: it starts with the exception, follows
  the explicit cause or else the context of each object, visits no object twice and at most five, and leaves off only where there is nothing
  more, at the fifth object or before an object it has visited.
\<close>

theorem cause_chain_correct:
  "\<exists>is y. cause_chain h e = e # is \<and> cause_path h (Some e) (cause_chain h e) y \<and> distinct (cause_chain h e) \<and> length (cause_chain h e) \<le> 5
     \<and> (y = None \<or> length (cause_chain h e) = 5 \<or> y \<in> Some ` set (cause_chain h e))"
proof -
  have "distinct (cause_chain h e)" "length (cause_chain h e) \<le> MAX_CAUSE_DEPTH"
    unfolding cause_chain_def by (rule cause_loop_path [where x = "Some e"]; simp)+
  then show ?thesis
    using cause_chain_head [of h e] cause_chain_path [of h e] by (auto simp: chain_ends_def MAX_CAUSE_DEPTH_def)
qed

section \<open>Codes decide, texts do not\<close>

text \<open>Two exceptions agree when they have the same types, the same references and the same numbers; their messages may differ.\<close>

definition same_codes :: "exn_obj \<Rightarrow> exn_obj \<Rightarrow> bool" where
  "same_codes x y \<longleftrightarrow> ex_mro x = ex_mro y \<and> ex_cause x = ex_cause y \<and> ex_context x = ex_context y \<and> ex_errno x = ex_errno y
     \<and> map code_of_arg (ex_args x) = map code_of_arg (ex_args y)"

definition same_codes_heap :: "exn_heap \<Rightarrow> exn_heap \<Rightarrow> bool" where
  "same_codes_heap h h' \<longleftrightarrow> (\<forall>i. same_codes (h i) (h' i))"

text \<open>The part of a classification that decides.\<close>

definition verdict :: "classified_error \<Rightarrow> error_category \<times> int option \<times> bool" where
  "verdict e = (cl_category e, cl_driver_code e, cl_server_confirmed e)"

text \<open>The contract of \<open>ErrorClassifier\<close> in \<open>app/dbclients/interactive/protocol.py\<close>, and what the lane of a session gets from it.\<close>

locale error_classifier =
  fixes classify_error :: "exn_heap \<Rightarrow> nat \<Rightarrow> classified_error"
  assumes reads_codes: "same_codes_heap h h' \<Longrightarrow> verdict (classify_error h e) = verdict (classify_error h' e)"
    and confirmed: "cl_server_confirmed (classify_error h e) \<longleftrightarrow> cl_category (classify_error h e) \<in> {CANCELLED, TIMEOUT}"
begin

lemma error_code_ignores_text:
  "same_codes_heap h h' \<Longrightarrow> cl_error_code (classify_error h e) = cl_error_code (classify_error h' e)"
  using reads_codes [of h h' e] by (simp add: cl_error_code_def verdict_def)

lemma outcome_ignores_text:
  assumes "same_codes_heap h h'"
    and "outcome_state x reason (Driver_error (classify_error h e) message ping) = (target, code, summary, lost)"
    and "outcome_state x reason (Driver_error (classify_error h' e) message' ping) = (target', code', summary', lost')"
  shows "target = target' \<and> code = code' \<and> lost = lost'"
  using assms reads_codes [OF assms(1), of e] error_code_ignores_text [OF assms(1), of e]
  by (auto simp: outcome_state_def verdict_def Let_def connection_aborted_def split: if_splits)

lemma confirmed_settles:
  assumes "cl_server_confirmed (classify_error h e)"
    and "outcome_state x reason (Driver_error (classify_error h e) message ping) = (target, code, summary, lost)"
  shows "target \<in> {St_cancelled, St_timeout} \<and> \<not> lost"
  using assms confirmed [of h e] by (auto simp: outcome_state_def Let_def connection_aborted_def split: if_splits)

end

lemma first_code_cong: "map code_of_arg as = map code_of_arg bs \<Longrightarrow> first_code as = first_code bs"
proof (induction as arbitrary: bs)
  case (Cons a as)
  then obtain b bs' where "bs = b # bs'" "code_of_arg a = code_of_arg b" "map code_of_arg as = map code_of_arg bs'"
    by (cases bs) auto
  then show ?case
    using Cons.IH by (simp split: option.split)
qed simp

lemma same_codes_heapD:
  assumes "same_codes_heap h h'"
  shows "next_exn (h i) = next_exn (h' i)" "code_of (h i) = code_of (h' i)" "connection_dead_type (h i) = connection_dead_type (h' i)"
proof -
  have *: "same_codes (h i) (h' i)"
    using assms by (simp add: same_codes_heap_def)
  then have "first_code (ex_args (h i)) = first_code (ex_args (h' i))"
    by (intro first_code_cong) (simp add: same_codes_def)
  with * show "next_exn (h i) = next_exn (h' i)" "code_of (h i) = code_of (h' i)" "connection_dead_type (h i) = connection_dead_type (h' i)"
    by (auto simp: same_codes_def next_exn_def code_of_def connection_dead_type_def split: option.split exn_arg.split)
qed

lemma cause_loop_cong:
  "same_codes_heap h h' \<Longrightarrow> cause_loop h chain current = cause_loop h' chain current"
proof (induction h chain current rule: cause_loop.induct)
  case (1 h chain current)
  note eq = same_codes_heapD(1) [OF 1(2)]
  show ?case
    using 1 by (subst (1 2) cause_loop.simps) (auto simp: eq split: option.split)
qed

lemma cause_chain_cong: "same_codes_heap h h' \<Longrightarrow> cause_chain h e = cause_chain h' e"
  unfolding cause_chain_def by (rule cause_loop_cong)

lemma first_coded_cong:
  assumes "same_codes_heap h h'"
  shows "first_coded h is = first_coded h' is"
  by (induction "is") (simp_all add: same_codes_heapD(2) [OF assms])

lemma classify_verdict_cong:
  assumes "same_codes_heap h h'"
  shows "verdict (classify codes h e) = verdict (classify codes h' e)"
proof -
  have "driver_error_code h e = driver_error_code h' e"
    by (simp add: driver_error_code_def cause_chain_cong [OF assms] first_coded_cong [OF assms] same_codes_heapD(2) [OF assms]
        split: option.split)
  moreover have "category_from_type h e = category_from_type h' e"
    by (simp add: category_from_type_def cause_chain_cong [OF assms] same_codes_heapD(3) [OF assms])
  ultimately show ?thesis
    by (simp add: verdict_def classify_def Let_def split: option.split)
qed

lemma classify_confirmed:
  "cl_server_confirmed (classify codes h e) \<longleftrightarrow> cl_category (classify codes h e) \<in> {CANCELLED, TIMEOUT}"
  by (simp add: classify_def Let_def SERVER_CONFIRMED_CATEGORIES_def)

interpretation dm: error_classifier DMErrorClassifier
  by unfold_locales (simp_all add: DMErrorClassifier_def classify_verdict_cong classify_confirmed del: insert_iff)

interpretation mysql: error_classifier MySQLErrorClassifier
  by unfold_locales (simp_all add: MySQLErrorClassifier_def classify_verdict_cong classify_confirmed del: insert_iff)

text \<open>Exactly the codes of the tables are confirmed by the server.\<close>

lemma dm_confirmed: "cl_server_confirmed (DMErrorClassifier h e) \<longleftrightarrow> driver_error_code h e = Some (-6515)"
  by (auto simp: DMErrorClassifier_def classify_def Let_def DM_ERROR_CODES_def SERVER_CONFIRMED_CATEGORIES_def category_from_type_def
      split: option.splits if_splits)

lemma mysql_confirmed: "cl_server_confirmed (MySQLErrorClassifier h e) \<longleftrightarrow> driver_error_code h e \<in> {Some 1317, Some 3024}"
  by (auto simp: MySQLErrorClassifier_def classify_def Let_def MYSQL_ERROR_CODES_def SERVER_CONFIRMED_CATEGORIES_def category_from_type_def
      split: option.splits if_splits)

text \<open>
  C25. What a failing statement comes to depends on the types and the numbers of the exceptions only, never on their messages: with the classifier
  of either dialect the state of the statement, its error code and the loss of its session are the same for two exceptions that
  differ in texts. A cancellation or timeout counts as confirmed by the server exactly for the numbers -6515 (DM), 1317 and 3024
  (MySQL), and then the statement ends as cancelled or timed out and the session goes on.
\<close>

theorem classification_reads_codes:
  assumes "classifier = DMErrorClassifier \<and> codes = {-6515} \<or> classifier = MySQLErrorClassifier \<and> codes = {1317, 3024}"
    and "same_codes_heap h h'"
    and "outcome_state x reason (Driver_error (classifier h e) message ping) = (target, code, summary, lost)"
    and "outcome_state x reason (Driver_error (classifier h' e) message' ping) = (target', code', summary', lost')"
  shows "target = target' \<and> code = code' \<and> lost = lost'
     \<and> (cl_server_confirmed (classifier h e) \<longleftrightarrow> driver_error_code h e \<in> Some ` codes)
     \<and> (cl_server_confirmed (classifier h e) \<longrightarrow> target \<in> {St_cancelled, St_timeout} \<and> \<not> lost)"
  using assms(1)
proof (elim disjE conjE)
  assume c: "classifier = DMErrorClassifier" "codes = {-6515}"
  then show ?thesis
    using dm.outcome_ignores_text [OF assms(2) assms(3) [unfolded c(1)] assms(4) [unfolded c(1)]]
      dm.confirmed_settles [OF _ assms(3) [unfolded c(1)]] dm_confirmed [of h e] by auto
next
  assume c: "classifier = MySQLErrorClassifier" "codes = {1317, 3024}"
  then show ?thesis
    using mysql.outcome_ignores_text [OF assms(2) assms(3) [unfolded c(1)] assms(4) [unfolded c(1)]]
      mysql.confirmed_settles [OF _ assms(3) [unfolded c(1)]] mysql_confirmed [of h e] by auto
qed

text \<open>An interrupted query, reported in two languages.\<close>

definition interrupted :: "string \<Rightarrow> exn_obj" where
  "interrupted text = \<lparr>ex_name = ''OperationalError'', ex_mro = [Other_class ''OperationalError''], ex_errno = None,
     ex_args = [Arg_int 1317, Arg_str text], ex_text = text, ex_cause = None, ex_context = None\<rparr>"

lemma interrupted_classified:
  "driver_error_code (\<lambda>i. interrupted text) 0 = Some 1317"
  "cl_category (MySQLErrorClassifier (\<lambda>i. interrupted text) 0) = CANCELLED"
proof -
  have chain: "cause_chain (\<lambda>i. interrupted text) 0 = [0]"
    by (simp add: cause_chain_def cause_loop.simps MAX_CAUSE_DEPTH_def next_exn_def interrupted_def)
  show code: "driver_error_code (\<lambda>i. interrupted text) 0 = Some 1317"
    unfolding driver_error_code_def chain by (simp add: code_of_def interrupted_def)
  then show "cl_category (MySQLErrorClassifier (\<lambda>i. interrupted text) 0) = CANCELLED"
    by (simp add: MySQLErrorClassifier_def classify_def Let_def MYSQL_ERROR_CODES_def)
qed

lemma interrupted_same_codes: "same_codes_heap (\<lambda>i. interrupted ''Query execution was interrupted'') (\<lambda>i. interrupted ''Abfrage abgebrochen'')"
  by (simp add: same_codes_heap_def same_codes_def interrupted_def code_of_text_def) code_simp

theorem classification_reads_codes_witness:
  "\<forall>x. fst (outcome_state x None (Driver_error (MySQLErrorClassifier (\<lambda>i. interrupted ''Query execution was interrupted'') 0) [] True))
       = fst (outcome_state x None (Driver_error (MySQLErrorClassifier (\<lambda>i. interrupted ''Abfrage abgebrochen'') 0) [] True))
     \<and> cl_server_confirmed (MySQLErrorClassifier (\<lambda>i. interrupted ''Query execution was interrupted'') 0)
     \<and> \<not> snd (snd (snd (outcome_state x None
           (Driver_error (MySQLErrorClassifier (\<lambda>i. interrupted ''Query execution was interrupted'') 0) [] True))))"
  (is "\<forall>x. ?P x")
proof
  fix x
  obtain target code summary lost where en:
    "outcome_state x None (Driver_error (MySQLErrorClassifier (\<lambda>i. interrupted ''Query execution was interrupted'') 0) [] True)
     = (target, code, summary, lost)"
    by (rule prod_cases4)
  obtain target' code' summary' lost' where de:
    "outcome_state x None (Driver_error (MySQLErrorClassifier (\<lambda>i. interrupted ''Abfrage abgebrochen'') 0) [] True)
     = (target', code', summary', lost')"
    by (rule prod_cases4)
  have "MySQLErrorClassifier = DMErrorClassifier \<and> {1317, 3024} = {-6515 :: int} \<or> MySQLErrorClassifier = MySQLErrorClassifier \<and> {1317, 3024} = {1317, 3024 :: int}"
    by simp
  from classification_reads_codes [OF this interrupted_same_codes en de] show "?P x"
    unfolding en de interrupted_classified(1) by auto
qed

section \<open>Passwords stay out of summaries\<close>

lemma letter_classes:
  assumes "is_letter c"
  shows "\<not> py_is_space c" "\<not> is_quote c" "value_char c" "is_word c" "c \<noteq> CHR '':''" "c \<noteq> CHR ''=''"
proof -
  show sp: "\<not> py_is_space c" and q: "\<not> is_quote c" and "is_word c" "c \<noteq> CHR '':''" "c \<noteq> CHR ''=''"
    using assms by (auto simp: is_letter_def py_is_space_def is_quote_def is_word_def Let_def)
  have "c \<noteq> CHR '',''" "c \<noteq> CHR '')''"
    using assms by (auto simp: is_letter_def Let_def)
  with sp q show "value_char c"
    by (simp add: value_char_def)
qed

lemma separator_value_char: "value_char (CHR '':'')" "value_char (CHR ''='')"
  by (code_simp, code_simp)

lemma quote_not_word: "is_quote c \<Longrightarrow> \<not> is_word c"
  unfolding is_quote_def by (elim disjE; hypsubst) (code_simp, code_simp)

lemma keyword_letters: "k \<in> {''password'', ''passwd'', ''pwd''} \<Longrightarrow> k \<noteq> [] \<and> list_all is_letter k"
  by (elim insertE emptyE; hypsubst) (code_simp, code_simp, code_simp)

lemma find_SomeD: "find P xs = Some x \<Longrightarrow> P x \<and> x \<in> set xs"
  by (induction xs) (auto split: if_splits)

lemma keyword_at_Some:
  assumes "keyword_at s = Some n"
  obtains k where "k \<in> {''password'', ''passwd'', ''pwd''}" "n = length k" "map lower_char (take n s) = k"
proof -
  obtain k where k: "find (\<lambda>k. map lower_char (take (length k) s) = k) [''password'', ''passwd'', ''pwd''] = Some k" "n = length k"
    using assms unfolding keyword_at_def map_option_eq_Some by blast
  show ?thesis
  proof (rule that)
    show "k \<in> {''password'', ''passwd'', ''pwd''}"
      using find_SomeD [OF k(1)] by (simp only: list.set)
    show "map lower_char (take n s) = k"
      using find_SomeD [OF k(1)] unfolding k(2) by (rule conjunct1)
  qed (rule k(2))
qed

lemma keyword_at_bounds:
  assumes "keyword_at s = Some n"
  shows "0 < n \<and> n \<le> length s \<and> list_all is_letter (take n s)"
proof -
  obtain k where k: "k \<in> {''password'', ''passwd'', ''pwd''}" "n = length k" "map lower_char (take n s) = k"
    using assms by (rule keyword_at_Some)
  have "length k = min (length s) n"
    unfolding k(3) [symmetric] by simp
  moreover have "list_all is_letter (map lower_char (take n s))" "k \<noteq> []"
    using keyword_letters [OF k(1)] k(3) by auto
  ultimately show ?thesis
    using k(2) is_letter_lower by (auto simp: list_all_iff)
qed

lemma match_password_letter: "match_password (c # cs) = Some r \<Longrightarrow> is_letter c"
  using keyword_at_bounds [of "c # cs"] by (cases "keyword_at (c # cs)") (auto simp: match_password_def take_Cons')

lemma re_sub_flag_irrelevant:
  assumes "\<not> is_letter c"
  shows "re_sub match_password w (c # cs) = c # re_sub match_password (is_word c) cs"
proof -
  have "match_password (c # cs) = None"
    using match_password_letter [of c cs] assms by (cases "match_password (c # cs)") auto
  then show ?thesis
    by simp
qed

text \<open>A keyword that starts in \<open>pre\<close> ends there when \<open>pre\<close> ends at a word boundary.\<close>

lemma keyword_at_append:
  assumes "pre \<noteq> []" and "\<not> is_word (last pre)"
  shows "keyword_at (pre @ y) = keyword_at pre"
proof -
  have "(map lower_char (take (length k) (pre @ y)) = k) = (map lower_char (take (length k) pre) = k)"
    if k: "k \<in> set [''password'', ''passwd'', ''pwd'']" for k
  proof (cases "length k \<le> length pre")
    case False
    define j where "j = length pre - 1"
    have j: "j < length k" "j < length pre" "pre ! j = last pre"
      using assms(1) False by (auto simp: j_def last_conv_nth)
    have "map lower_char (take (length k) (pre @ y)) \<noteq> k"
    proof
      assume eq: "map lower_char (take (length k) (pre @ y)) = k"
      have "k ! j = lower_char (last pre)"
        by (subst eq [symmetric]) (use j in \<open>simp add: nth_append\<close>)
      moreover have "is_letter (k ! j)"
        using keyword_letters [of k] k j(1) by (simp only: list.set list_all_length)
      ultimately have "is_word (last pre)"
        using is_letter_lower letter_classes(4) by metis
      with assms(2) show False ..
    qed
    moreover have "map lower_char (take (length k) pre) \<noteq> k"
      using False by (metis length_map length_take min.cobounded1)
    ultimately show ?thesis
      by simp
  qed simp
  then show ?thesis
    unfolding keyword_at_def by (intro arg_cong [where f = "map_option length"] find_cong) (simp_all only:)
qed

lemma dropWhile_append_stop: "y \<noteq> [] \<Longrightarrow> \<not> P (hd y) \<Longrightarrow> dropWhile P (x @ y) = dropWhile P x @ y"
  by (induction x) (auto simp: neq_Nil_conv)

lemma drop_quote_append: "y \<noteq> [] \<Longrightarrow> \<not> is_quote (hd y) \<Longrightarrow> drop_quote (x @ y) = drop_quote x @ y"
  by (cases x) (auto simp: neq_Nil_conv)

lemma after_keyword_append:
  assumes "y \<noteq> []" and "is_letter (hd y)"
  shows "after_keyword (x @ y) = map_option (\<lambda>u. u @ y) (after_keyword x)"
proof -
  note stop = letter_classes [OF assms(2)]
  have none: "after_keyword y = None"
    using assms(1) stop by (cases y) (auto simp: after_keyword_def)
  have space: "dropWhile py_is_space (t @ y) = dropWhile py_is_space t @ y" for t
    by (rule dropWhile_append_stop) (simp_all add: assms(1) stop)
  have quote: "drop_quote (t @ y) = drop_quote t @ y" for t
    by (rule drop_quote_append) (simp_all add: assms(1) stop)
  show ?thesis
  proof (cases "dropWhile py_is_space x")
    case Nil
    then have "after_keyword (x @ y) = after_keyword y" "after_keyword x = None"
      using space [of x] space [of "[]"] unfolding after_keyword_def by (simp_all only: append_Nil dropWhile.simps list.case)
    with none show ?thesis
      by simp
  next
    case (Cons c t)
    then show ?thesis
      using space [of x] space [of t] by (simp add: after_keyword_def quote)
  qed
qed

text \<open>A text that a value takes up to \<open>suf\<close>.\<close>

definition runs_to :: "string \<Rightarrow> string \<Rightarrow> bool" where
  "runs_to suf y \<longleftrightarrow> (\<exists>z. y = z @ suf \<and> z \<noteq> [] \<and> is_letter (hd z) \<and> list_all value_char z)"

definition value_stops :: "string \<Rightarrow> bool" where
  "value_stops suf \<longleftrightarrow> suf = [] \<or> \<not> value_char (hd suf)"

lemma runs_toD:
  assumes "runs_to suf y" and "value_stops suf"
  shows "y \<noteq> []" "is_letter (hd y)" "dropWhile value_char y = suf" "takeWhile value_char y \<noteq> []" "length suf < length y"
proof -
  obtain z where z: "y = z @ suf" "z \<noteq> []" "is_letter (hd z)" "list_all value_char z"
    using assms(1) by (auto simp: runs_to_def)
  show "y \<noteq> []" "is_letter (hd y)" "length suf < length y"
    using z by auto
  show "dropWhile value_char y = suf"
    using z assms(2) by (cases suf) (auto simp: dropWhile_append list_all_iff value_stops_def)
  show "takeWhile value_char y \<noteq> []"
    using z letter_classes(3) [OF z(3)] by (cases z) auto
qed

text \<open>A match that starts in front of a word boundary either ends there or takes all the text up to the end of the value that follows.\<close>

lemma match_password_append:
  assumes pre: "pre \<noteq> []" "\<not> is_word (last pre)" and suf: "value_stops suf"
  shows "(\<forall>y. runs_to suf y \<longrightarrow> match_password (pre @ y) = None)
     \<or> (\<exists>r. \<forall>y. runs_to suf y \<longrightarrow> match_password (pre @ y) = Some (r, length (pre @ y) - length (drop_quote suf) - 1))
     \<or> (\<exists>r n. n < length pre \<and> (\<forall>y. runs_to suf y \<longrightarrow> match_password (pre @ y) = Some (r, n)))"
proof (cases "keyword_at pre")
  case None
  then show ?thesis
    by (simp add: match_password_def keyword_at_append [OF pre])
next
  case (Some k)
  note k = keyword_at_bounds [OF Some]
  have step: "match_password (pre @ y) =
      (case after_keyword (drop k pre) of
         None \<Rightarrow> None
       | Some u \<Rightarrow> if takeWhile value_char (u @ y) = [] then None
           else Some (take k pre @ ''=***REDACTED***'', length (pre @ y) - length (drop_quote (dropWhile value_char (u @ y))) - 1))"
    if "runs_to suf y" for y
    using Some k after_keyword_append [of y "drop k pre"] runs_toD [OF that suf]
    by (simp add: match_password_def keyword_at_append [OF pre] split: option.split)
  show ?thesis
  proof (cases "after_keyword (drop k pre)")
    case None
    then show ?thesis
      using step by simp
  next
    case u: (Some u)
    show ?thesis
    proof (cases "list_all value_char u")
      case True
      then have "dropWhile value_char (u @ y) = suf \<and> takeWhile value_char (u @ y) \<noteq> []" if "runs_to suf y" for y
        using runs_toD [OF that suf] by (auto simp: list_all_iff dropWhile_append takeWhile_append)
      then show ?thesis
        using step u by simp
    next
      case False
      then obtain d p where d: "dropWhile value_char u = d # p"
        by (cases "dropWhile value_char u") (auto simp: list_all_iff)
      have inside: "drop_quote (dropWhile value_char (u @ y)) = drop_quote (d # p) @ y" "takeWhile value_char (u @ y) = takeWhile value_char u" for y
        using False d by (auto simp: list_all_iff dropWhile_append takeWhile_append)
      show ?thesis
      proof (cases "takeWhile value_char u = []")
        case True
        then show ?thesis
          using step unfolding u option.case inside(2) by simp
      next
        case False
        have "match_password (pre @ y) = Some (take k pre @ ''=***REDACTED***'', length pre - length (drop_quote (d # p)) - 1)"
          if "runs_to suf y" for y
          using step [OF that] False unfolding u option.case inside by simp
        moreover have "length pre - length (drop_quote (d # p)) - 1 < length pre"
          using pre(1) by (cases pre) auto
        ultimately show ?thesis
          by blast
      qed
    qed
  qed
qed

lemma re_sub_after_value:
  assumes "value_stops suf" and "length suf < length t" and "suffix suf t"
  shows "re_sub match_password (is_word (t ! (length t - length (drop_quote suf) - 1))) (drop_quote suf)
     = re_sub match_password False (drop_quote suf)"
proof (cases suf)
  case (Cons d p)
  then obtain z where t: "t = z @ d # p"
    using assms(3) by (auto simp: suffix_def)
  show ?thesis
  proof (cases "is_quote d")
    case True
    then show ?thesis
      using Cons t quote_not_word [OF True] by simp
  next
    case False
    have "\<not> is_letter d"
      using assms(1) Cons letter_classes(3) [of d] by (auto simp: value_stops_def)
    then show ?thesis
      using Cons False by (simp del: re_sub.simps add: re_sub_flag_irrelevant)
  qed
qed simp

lemma runs_to_suffix: "runs_to suf y \<Longrightarrow> suffix suf (x @ y)"
  by (auto simp: runs_to_def suffix_def)

lemma re_sub_taken:
  assumes suf: "value_stops suf" and x: "runs_to suf x" "match_password (pre @ x) = Some (r, length (pre @ x) - length (drop_quote suf) - 1)"
  shows "re_sub match_password False (pre @ x) = r @ re_sub match_password False (drop_quote suf)"
proof -
  define n where "n = length (pre @ x) - length (drop_quote suf) - 1"
  have long: "length suf < length (pre @ x)"
    using runs_toD(5) [OF x(1) suf] by simp
  obtain z where z: "pre @ x = z @ suf"
    using runs_to_suffix [OF x(1), of pre] by (auto simp: suffix_def)
  have "drop (Suc n) (pre @ x) = drop_quote suf"
    using long unfolding n_def z by (cases suf) (auto simp: Suc_diff_Suc)
  moreover obtain c cs where c: "pre @ x = c # cs"
    using long by (cases "pre @ x") auto
  ultimately show ?thesis
    using re_sub_after_value [OF suf long runs_to_suffix [OF x(1)]] x(2) unfolding n_def [symmetric] unfolding c by simp
qed

text \<open>Substitution does not depend on which value follows a word boundary, if the value itself is matched alike.\<close>

lemma re_sub_value_irrelevant:
  assumes suf: "value_stops suf" and y: "runs_to suf y" "runs_to suf y'"
    and here: "match_password y = Some (r, length y - length (drop_quote suf) - 1)"
      "match_password y' = Some (r, length y' - length (drop_quote suf) - 1)"
    and boundary: "if pre = [] then \<not> w else \<not> is_word (last pre)"
  shows "re_sub match_password w (pre @ y) = re_sub match_password w (pre @ y')"
  using boundary
proof (induction "length pre" arbitrary: pre w rule: less_induct)
  case less
  show ?case
  proof (cases "pre = []")
    case True
    then show ?thesis
      using less.prems re_sub_taken [OF suf y(1), of "[]" r] re_sub_taken [OF suf y(2), of "[]" r] here by simp
  next
    case False
    then obtain c cs where c: "pre = c # cs"
      by (cases pre) auto
    have rest: "re_sub match_password v (drop n cs @ y) = re_sub match_password v (drop n cs @ y')"
      if "n \<le> length cs" "n = length cs \<longrightarrow> \<not> v" for n v
      using less.hyps [of "drop n cs" v] less.prems c that by (auto simp: last_drop split: if_splits)
    have copy: "c # re_sub match_password (is_word c) (cs @ y) = c # re_sub match_password (is_word c) (cs @ y')"
      using rest [of 0 "is_word c"] less.prems c by (cases cs) auto
    consider "w" | "\<not> w" "match_password (pre @ y) = None" "match_password (pre @ y') = None"
      | q where "\<not> w" "match_password (pre @ y) = Some (q, length (pre @ y) - length (drop_quote suf) - 1)"
          "match_password (pre @ y') = Some (q, length (pre @ y') - length (drop_quote suf) - 1)"
      | q n where "\<not> w" "n < length pre" "match_password (pre @ y) = Some (q, n)" "match_password (pre @ y') = Some (q, n)"
      using match_password_append [OF False _ suf] less.prems False y by (cases w) (auto split: if_splits)
    then show ?thesis
    proof cases
      case 3
      then show ?thesis
        using re_sub_taken [OF suf y(1), of pre q] re_sub_taken [OF suf y(2), of pre q] by simp
    next
      case 4
      have "is_word (pre ! n) = is_word ((c # cs @ y) ! n)" "is_word (pre ! n) = is_word ((c # cs @ y') ! n)"
        using 4(2) c by (simp_all add: nth_append flip: append_Cons)
      moreover have "n = length cs \<longrightarrow> \<not> is_word (pre ! n)"
        using less.prems c by (auto simp: last_conv_nth split: if_splits)
      ultimately show ?thesis
        using 4 c rest [of n "is_word (pre ! n)"] by simp
    qed (use c copy in simp_all)
  qed
qed

lemma keyword_at_here:
  assumes "map lower_char kw \<in> {''password'', ''passwd'', ''pwd''}"
  shows "keyword_at (kw @ t) = Some (length kw)"
proof -
  have "length kw = length (map lower_char kw)"
    by simp
  with assms consider "map lower_char kw = ''password''" "length kw = 8" | "map lower_char kw = ''passwd''" "length kw = 6"
    | "map lower_char kw = ''pwd''" "length kw = 3"
    by (elim insertE emptyE) simp_all
  then show ?thesis
  proof cases
    case 1
    then show ?thesis
      by (simp add: keyword_at_def)
  next
    case 2
    then show ?thesis
      by (simp add: keyword_at_def)
  next
    case 3
    then show ?thesis
      by (simp add: keyword_at_def)
  qed
qed

lemma password_matched:
  assumes kw: "map lower_char kw \<in> {''password'', ''passwd'', ''pwd''}" and sep: "sep = CHR '':'' \<or> sep = CHR ''=''"
    and secret: "secret \<noteq> []" "list_all value_char secret" and suf: "value_stops suf"
  shows "runs_to suf (kw @ sep # secret @ suf)"
    and "match_password (kw @ sep # secret @ suf)
       = Some (kw @ ''=***REDACTED***'', length (kw @ sep # secret @ suf) - length (drop_quote suf) - 1)"
proof -
  have letters: "kw \<noteq> []" "list_all is_letter kw"
    using keyword_letters [OF kw] is_letter_lower by (auto simp: list_all_iff)
  have "is_letter (hd kw)" "list_all value_char kw"
    using letters letter_classes(3) by (auto simp: list_all_iff)
  moreover have "value_char sep"
    using sep separator_value_char by auto
  ultimately have "list_all value_char (kw @ sep # secret)" "is_letter (hd (kw @ sep # secret))"
    using letters secret by auto
  then show "runs_to suf (kw @ sep # secret @ suf)"
    unfolding runs_to_def by (intro exI [of _ "kw @ sep # secret"]) simp
  obtain v vs where v: "secret = v # vs"
    using secret by (cases secret) auto
  have "\<not> py_is_space sep" "\<not> py_is_space v" "\<not> is_quote v"
    using \<open>value_char sep\<close> secret(2) v by (auto simp: value_char_def)
  then have after: "after_keyword (sep # secret @ suf) = Some (secret @ suf)"
    using sep v by (auto simp: after_keyword_def)
  have "dropWhile value_char (secret @ suf) = suf" "takeWhile value_char (secret @ suf) \<noteq> []"
    using secret suf v by (cases suf; auto simp: dropWhile_append list_all_iff value_stops_def)+
  with after show "match_password (kw @ sep # secret @ suf)
       = Some (kw @ ''=***REDACTED***'', length (kw @ sep # secret @ suf) - length (drop_quote suf) - 1)"
    by (simp add: match_password_def keyword_at_here [OF kw])
qed

lemma sanitize_length: "length (sanitize_error_text s) \<le> 243"
  by (simp add: sanitize_error_text_def MAX_ERROR_SUMMARY_LENGTH_def Let_def)

text \<open>
  C26. The text that reaches a summary does not depend on a password: if a message has, at a word boundary, one of the keywords in any case,
  directly followed by a colon or an equals sign and a value without quotes, commas, closing parentheses and white space, then the sanitized
  message is the same for every such value, whatever precedes and follows it; and it has at most 243 characters.
\<close>

theorem sanitize_hides_password:
  assumes "pre = [] \<or> \<not> is_word (last pre)"
    and kw: "map lower_char kw \<in> {''password'', ''passwd'', ''pwd''}" and sep: "sep = CHR '':'' \<or> sep = CHR ''=''"
    and secret: "secret \<noteq> []" "list_all value_char secret" and secret': "secret' \<noteq> []" "list_all value_char secret'"
    and suf: "suf = [] \<or> \<not> value_char (hd suf)"
  shows "sanitize_error_text (pre @ kw @ sep # secret @ suf) = sanitize_error_text (pre @ kw @ sep # secret' @ suf)
     \<and> length (sanitize_error_text (pre @ kw @ sep # secret @ suf)) \<le> 243"
proof -
  have suf: "value_stops suf"
    using suf by (simp add: value_stops_def)
  have "re_sub match_password False (pre @ kw @ sep # secret @ suf) = re_sub match_password False (pre @ kw @ sep # secret' @ suf)"
    by (rule re_sub_value_irrelevant [OF suf password_matched(1) password_matched(1) password_matched(2) password_matched(2)])
      (use assms suf in auto)
  then show ?thesis
    using sanitize_length by (simp add: sanitize_error_text_def)
qed

text \<open>Applied to the message of a driver that repeats its connection arguments.\<close>

theorem sanitize_hides_password_witness:
  "sanitize_error_text (''login failed (user=u, '' @ ''Password'' @ CHR ''='' # ''hunter2'' @ '')'')
     = sanitize_error_text (''login failed (user=u, '' @ ''Password'' @ CHR ''='' # ''x'' @ '')'')
   \<and> length (sanitize_error_text (''login failed (user=u, '' @ ''Password'' @ CHR ''='' # ''hunter2'' @ '')'')) \<le> 243"
  by (rule sanitize_hides_password) (code_simp, code_simp, code_simp, code_simp, code_simp, code_simp, code_simp, code_simp)

text \<open>What the pattern does not cover: a value in quotes with a blank inside, a keyword behind an underscore, and a quoted keyword.\<close>

lemma quoted_password_leaks:
  "sanitize_error_text (''password='' @ [CHR 39] @ ''my secret'' @ [CHR 39]) = ''password=***REDACTED*** secret'' @ [CHR 39]"
  "sanitize_error_text ''db_password=hunter2'' = ''db_password=hunter2''"
  by (code_simp, code_simp)

end
