(* ===== verification/Sql_Build.thy ===== *)
theory Sql_Build
  imports Prelude
begin

text \<open>
  Fragments of SQL for every dialect (\<open>app/dbclients/sql_build.py\<close>, with the table of dialects of \<open>app/domain/dialect.py\<close>): quoted identifiers
  and aliases, row limits, and the literals of generated statements.
\<close>

section \<open>Dialects\<close>

datatype db_type = DbType_MYSQL | DbType_ORACLE | DbType_DM | DbType_DB2 | DbType_POSTGRESQL | DbType_OCEANBASE_ORACLE

datatype identifier_style = BACKTICK | DOUBLE_QUOTE_UPPER

datatype limit_style = Limit | Fetch_first

record dialect_traits =
  dt_identifier_style :: identifier_style
  dt_limit_style :: limit_style
  dt_sqlglot_dialect :: "string option"
  dt_row_limit_dialect :: string

fun traits :: "db_type \<Rightarrow> dialect_traits" where
  "traits DbType_MYSQL = \<lparr>dt_identifier_style = BACKTICK, dt_limit_style = Limit, dt_sqlglot_dialect = Some ''mysql'', dt_row_limit_dialect = ''mysql''\<rparr>"
| "traits DbType_ORACLE = \<lparr>dt_identifier_style = DOUBLE_QUOTE_UPPER, dt_limit_style = Fetch_first, dt_sqlglot_dialect = Some ''oracle'', dt_row_limit_dialect = ''oracle''\<rparr>"
| "traits DbType_DM = \<lparr>dt_identifier_style = DOUBLE_QUOTE_UPPER, dt_limit_style = Fetch_first, dt_sqlglot_dialect = Some ''oracle'', dt_row_limit_dialect = ''oracle''\<rparr>"
| "traits DbType_DB2 = \<lparr>dt_identifier_style = DOUBLE_QUOTE_UPPER, dt_limit_style = Fetch_first, dt_sqlglot_dialect = None, dt_row_limit_dialect = ''oracle''\<rparr>"
| "traits DbType_POSTGRESQL = \<lparr>dt_identifier_style = DOUBLE_QUOTE_UPPER, dt_limit_style = Fetch_first, dt_sqlglot_dialect = Some ''postgres'', dt_row_limit_dialect = ''postgres''\<rparr>"
| "traits DbType_OCEANBASE_ORACLE = \<lparr>dt_identifier_style = DOUBLE_QUOTE_UPPER, dt_limit_style = Fetch_first, dt_sqlglot_dialect = Some ''oracle'', dt_row_limit_dialect = ''oracle''\<rparr>"

section \<open>Fragments\<close>

datatype build_error = Invalid_identifier | Limit_not_positive

definition identifier_char :: "char \<Rightarrow> bool" where
  "identifier_char c \<longleftrightarrow> is_letter c \<or> is_digit c \<or> c \<in> set ''_.$-''"

definition identifier_ok :: "string \<Rightarrow> bool" where
  "identifier_ok s \<longleftrightarrow> s \<noteq> [] \<and> list_all identifier_char s"

text \<open>\<open>text.replace(q, q + q)\<close> for a single character.\<close>

fun double_char :: "char \<Rightarrow> string \<Rightarrow> string" where
  "double_char q [] = []"
| "double_char q (c # s) = (if c = q then q # q # double_char q s else c # double_char q s)"

definition upper_char :: "char \<Rightarrow> char" where
  "upper_char c = (let n = (of_char c :: nat) in if 97 \<le> n \<and> n \<le> 122 then char_of (n - 32) else c)"

text \<open>\<open>s.split(c)\<close>.\<close>

fun split_char :: "char \<Rightarrow> string \<Rightarrow> string list" where
  "split_char d [] = [[]]"
| "split_char d (c # s) =
     (if c = d then [] # split_char d s else (case split_char d s of [] \<Rightarrow> [[c]] | p # ps \<Rightarrow> (c # p) # ps))"

definition quoted :: "char \<Rightarrow> string \<Rightarrow> string" where
  "quoted q s = q # s @ [q]"

definition quote_part :: "identifier_style \<Rightarrow> string \<Rightarrow> string" where
  "quote_part style part =
     (case style of
        BACKTICK \<Rightarrow> quoted (CHR 96) (double_char (CHR 96) part)
      | DOUBLE_QUOTE_UPPER \<Rightarrow> quoted (CHR 34) (map upper_char (double_char (CHR 34) part)))"

definition quote_identifier :: "db_type \<Rightarrow> string \<Rightarrow> build_error + string" where
  "quote_identifier db identifier =
     (if \<not> identifier_ok identifier then Inl Invalid_identifier
      else Inr (join_str ''.'' (map (quote_part (dt_identifier_style (traits db))) (split_char (CHR ''.'') identifier))))"

definition quote_alias :: "db_type \<Rightarrow> string \<Rightarrow> build_error + string" where
  "quote_alias db alias =
     (if \<not> identifier_ok alias then Inl Invalid_identifier
      else case dt_identifier_style (traits db) of
             BACKTICK \<Rightarrow> Inr (quoted (CHR 96) (double_char (CHR 96) alias))
           | DOUBLE_QUOTE_UPPER \<Rightarrow> Inr (quoted (CHR 34) (double_char (CHR 34) alias)))"

definition limit_clause :: "db_type \<Rightarrow> int option \<Rightarrow> build_error + string" where
  "limit_clause db limit =
     (case limit of
        None \<Rightarrow> Inr []
      | Some n \<Rightarrow>
          if n \<le> 0 then Inl Limit_not_positive
          else Inr (case dt_limit_style (traits db) of Limit \<Rightarrow> '' LIMIT '' @ int_str n | Fetch_first \<Rightarrow> '' FETCH FIRST '' @ int_str n @ '' ROWS ONLY''))"

text \<open>A key value: the text of a finite float and of any other object is what Python prints.\<close>

datatype key_value = Key_none | Key_bool bool | Key_int int | Key_float "string option" | Key_text string

fun sql_literal :: "key_value \<Rightarrow> string" where
  "sql_literal Key_none = ''NULL''"
| "sql_literal (Key_bool b) = (if b then ''1'' else ''0'')"
| "sql_literal (Key_int n) = int_str n"
| "sql_literal (Key_float None) = ''NULL''"
| "sql_literal (Key_float (Some r)) = r"
| "sql_literal (Key_text s) = quoted (CHR 39) (double_char (CHR 39) s)"

section \<open>Quotes read back\<close>

text \<open>How SQL reads a quoted token, after the opening quote: a doubled quote stands for one, any other ends the token.\<close>

fun read_quoted :: "char \<Rightarrow> string \<Rightarrow> (string \<times> string) option" where
  "read_quoted q [] = None"
| "read_quoted q (c # s) =
     (if c \<noteq> q then map_option (\<lambda>(t, r). (c # t, r)) (read_quoted q s)
      else case s of d # s' \<Rightarrow> if d = q then map_option (\<lambda>(t, r). (q # t, r)) (read_quoted q s') else Some ([], s) | [] \<Rightarrow> Some ([], []))"

definition read_token :: "char \<Rightarrow> string \<Rightarrow> (string \<times> string) option" where
  "read_token q s = (case s of c # s \<Rightarrow> if c = q then read_quoted q s else None | [] \<Rightarrow> None)"

lemma read_double_char: "rest = [] \<or> hd rest \<noteq> q \<Longrightarrow> read_quoted q (double_char q s @ q # rest) = Some (s, rest)"
  by (induction s) (auto split: list.split)

lemma read_token_quoted: "rest = [] \<or> hd rest \<noteq> q \<Longrightarrow> read_token q (quoted q (double_char q s) @ rest) = Some (s, rest)"
  by (simp add: read_token_def quoted_def read_double_char)

lemma double_char_absent: "q \<notin> set s \<Longrightarrow> double_char q s = s"
  by (induction s) auto

lemma identifier_no_quote:
  assumes "identifier_ok s"
  shows "CHR 96 \<notin> set s" "CHR 34 \<notin> set s"
  using assms by (auto simp: identifier_ok_def list_all_iff identifier_char_def is_letter_def is_digit_def dest!: bspec)

lemma split_char_parts: "p \<in> set (split_char d s) \<Longrightarrow> c \<in> set p \<Longrightarrow> c \<in> set s"
proof (induction s arbitrary: p)
  case (Cons b s)
  then show ?case
    by (cases "split_char d s") (fastforce split: if_splits)+
qed auto

lemma split_char_nonempty: "split_char d s \<noteq> []"
  by (induction s) (auto split: list.split)

lemma upper_char_quote: "upper_char c = CHR 34 \<longleftrightarrow> c = CHR 34"
proof (cases "97 \<le> (of_char c :: nat) \<and> (of_char c :: nat) \<le> 122")
  case True
  then have "(of_char c - 32 :: nat) < 256"
    by linarith
  with True have "of_char (upper_char c) = (of_char c - 32 :: nat)"
    by (simp add: upper_char_def Let_def mod_less)
  then have "upper_char c \<noteq> CHR 34" "c \<noteq> CHR 34"
    using True by auto
  then show ?thesis
    by simp
next
  case False
  then show ?thesis
    by (auto simp: upper_char_def Let_def)
qed

text \<open>How SQL reads a dotted name of quoted tokens.\<close>

lemma read_quoted_shorter: "read_quoted q s = Some (t, r) \<Longrightarrow> length r < length s"
  by (induction q s arbitrary: t r rule: read_quoted.induct) (auto split: if_splits list.splits simp: less_SucI)

lemma read_token_shorter: "read_token q s = Some (t, r) \<Longrightarrow> length r < length s"
  by (auto simp: read_token_def less_SucI split: list.splits if_splits dest!: read_quoted_shorter)

function read_dotted :: "char \<Rightarrow> string \<Rightarrow> string list option" where
  "read_dotted q s =
     (case read_token q s of
        None \<Rightarrow> None
      | Some (t, r) \<Rightarrow> (case r of [] \<Rightarrow> Some [t] | c # r' \<Rightarrow> if c = CHR ''.'' then map_option ((#) t) (read_dotted q r') else None))"
  by pat_completeness auto
termination
  by (relation "measure (\<lambda>(q, s). length s)") (auto dest!: read_token_shorter)

declare read_dotted.simps [simp del]

lemma read_dotted_join:
  assumes "q \<noteq> CHR ''.''" and "parts \<noteq> []" and "\<And>p. p \<in> set parts \<Longrightarrow> q \<notin> set p"
  shows "read_dotted q (join_str ''.'' (map (quoted q) parts)) = Some parts"
  using assms(2,3)
proof (induction parts)
  case (Cons p parts)
  have p: "double_char q p = p"
    using Cons.prems(2) by (simp add: double_char_absent)
  show ?case
  proof (cases parts)
    case Nil
    then show ?thesis
      using read_token_quoted [of "[]" q p] p by (subst read_dotted.simps) simp
  next
    case (Cons p' parts')
    then have "read_dotted q (join_str ''.'' (map (quoted q) parts)) = Some parts"
      using Cons.IH Cons.prems(2) by simp
    then show ?thesis
      using read_token_quoted [of "CHR ''.'' # join_str ''.'' (map (quoted q) parts)" q p] p assms(1) Cons
      by (subst read_dotted.simps) simp
  qed
qed simp

abbreviation quote_char :: "db_type \<Rightarrow> char" where
  "quote_char db \<equiv> (if dt_identifier_style (traits db) = BACKTICK then CHR 96 else CHR 34)"

lemma quote_identifier_reads_back:
  assumes "quote_identifier db s = Inr t"
  shows "read_dotted (quote_char db) t
     = Some (if dt_identifier_style (traits db) = BACKTICK then split_char (CHR ''.'') s else map (map upper_char) (split_char (CHR ''.'') s))"
proof -
  have ok: "identifier_ok s" and t: "t = join_str ''.'' (map (quote_part (dt_identifier_style (traits db))) (split_char (CHR ''.'') s))"
    using assms by (auto simp: quote_identifier_def split: if_splits)
  have clean: "CHR 96 \<notin> set p" "CHR 34 \<notin> set p" if "p \<in> set (split_char (CHR ''.'') s)" for p
    using identifier_no_quote [OF ok] split_char_parts [OF that] by blast+
  show ?thesis
  proof (cases "dt_identifier_style (traits db)")
    case BACKTICK
    have "map (quote_part BACKTICK) (split_char (CHR ''.'') s) = map (quoted (CHR 96)) (split_char (CHR ''.'') s)"
      using clean by (simp add: quote_part_def double_char_absent)
    then show ?thesis
      unfolding t BACKTICK using read_dotted_join [of "CHR 96" "split_char (CHR ''.'') s"] clean(1) split_char_nonempty by (simp del: map_eq_conv)
  next
    case DOUBLE_QUOTE_UPPER
    have "map (quote_part DOUBLE_QUOTE_UPPER) (split_char (CHR ''.'') s) = map (quoted (CHR 34)) (map (map upper_char) (split_char (CHR ''.'') s))"
      using clean by (simp add: quote_part_def double_char_absent)
    moreover have "CHR 34 \<notin> set p" if p: "p \<in> set (map (map upper_char) (split_char (CHR ''.'') s))" for p
    proof
      assume "CHR 34 \<in> set p"
      then obtain x c where "x \<in> set (split_char (CHR ''.'') s)" "c \<in> set x" "upper_char c = CHR 34"
        using p by auto
      then show False
        using clean(2) [of x] upper_char_quote [of c] by simp
    qed
    ultimately show ?thesis
      unfolding t DOUBLE_QUOTE_UPPER using read_dotted_join [of "CHR 34" "map (map upper_char) (split_char (CHR ''.'') s)"] split_char_nonempty by (simp del: map_eq_conv)
  qed
qed



end
