(* ===== verification/Interactive_Driver.thy ===== *)
theory Interactive_Driver
  imports Interactive_Errors Sql_Build
begin

text \<open>
  The connections behind a session (\<open>app/dbclients/interactive/base.py\<close>, \<open>mysql.py\<close>, \<open>dm.py\<close>): the connection of a session with its
  cancellation flag, its marker and the statement timeout of the server, and the control connection that cancels and destroys sessions.

  A driver is a parameter: a record of functions on a state of the world, with a heap for the exceptions it raises. A call returns the
  exception or the value, and the new world. Operations pass a state with the world inside and return an exception or a value with the new
  state, also when they raise. The import of the driver module and exceptions that no handler of the code catches by type are left out.
\<close>

section \<open>Drivers\<close>

datatype 'v kwarg = Kw_str string | Kw_int int | Kw_val 'v

datatype 'v sql_params = No_params | Int_params "int list" | Seq_params "'v list" | Map_params "(string, 'v) dict"

text \<open>A row as a driver returns it: \<open>None\<close>, a dictionary, a sequence, or anything else. A cell is \<open>None\<close> or a value.\<close>

datatype 'v raw_row = None_row | Dict_row "(string, 'v option) dict" | Seq_row "'v option list" | Scalar_row 'v

record ('w, 'v) driver =
  dr_exns :: exn_heap
  dr_str :: "'v \<Rightarrow> string"
  dr_clock :: "'w \<Rightarrow> int"
  dr_reveal :: "'w \<Rightarrow> (nat + string) \<times> 'w"
  dr_connect :: "(string, 'v kwarg) dict \<Rightarrow> 'w \<Rightarrow> (nat + nat) \<times> 'w"
  dr_cursor :: "nat \<Rightarrow> bool \<Rightarrow> 'w \<Rightarrow> (nat + nat) \<times> 'w"
  dr_execute :: "nat \<Rightarrow> string \<Rightarrow> 'v sql_params \<Rightarrow> 'w \<Rightarrow> (nat + unit) \<times> 'w"
  dr_fetchone :: "nat \<Rightarrow> 'w \<Rightarrow> (nat + 'v raw_row) \<times> 'w"
  dr_fetchmany :: "nat \<Rightarrow> int \<Rightarrow> 'w \<Rightarrow> (nat + 'v raw_row list) \<times> 'w"
  dr_close_cursor :: "nat \<Rightarrow> 'w \<Rightarrow> 'w"
  dr_close_conn :: "nat \<Rightarrow> 'w \<Rightarrow> 'w"

fun first_cell :: "'v raw_row \<Rightarrow> 'v option" where
  "first_cell None_row = None"
| "first_cell (Dict_row kvs) = (case kvs of [] \<Rightarrow> None | (k, v) # _ \<Rightarrow> v)"
| "first_cell (Seq_row vs) = (case vs of [] \<Rightarrow> None | v # _ \<Rightarrow> v)"
| "first_cell (Scalar_row v) = Some v"

fun to_row :: "'v raw_row \<Rightarrow> 'v option list" where
  "to_row None_row = [None]"
| "to_row (Dict_row kvs) = map snd kvs"
| "to_row (Seq_row vs) = vs"
| "to_row (Scalar_row v) = [Some v]"

section \<open>Exceptions of the connections\<close>

datatype interactive_exn =
    Driver_exn nat
  | Connect_error string classified_error
  | Execute_error string classified_error
  | Soft_cancelled string classified_error
  | Not_open string
  | Channel_error string classified_error
  | Value_error string

definition unclassified :: "string \<Rightarrow> classified_error" where
  "unclassified summary = \<lparr>cl_category = UNKNOWN, cl_driver_code = None, cl_summary = summary, cl_server_confirmed = False\<rparr>"

definition SOFT_CANCEL :: classified_error where
  "SOFT_CANCEL = \<lparr>cl_category = CANCELLED, cl_driver_code = None, cl_summary = ''soft cancel requested'', cl_server_confirmed = False\<rparr>"

text \<open>The exceptions of the module are classified like any other: by their class and their only argument.\<close>

definition own_exn :: "string \<Rightarrow> string \<Rightarrow> exn_obj" where
  "own_exn name message = \<lparr>ex_name = name, ex_mro = [Other_class name], ex_errno = None, ex_args = [Arg_str message], ex_text = message,
     ex_cause = None, ex_context = None\<rparr>"

fun classify_exn :: "(int, error_category) dict \<Rightarrow> exn_heap \<Rightarrow> interactive_exn \<Rightarrow> classified_error" where
  "classify_exn codes h (Driver_exn i) = classify codes h i"
| "classify_exn codes h (Connect_error m c) = classify codes (\<lambda>_. own_exn ''InteractiveConnectError'' m) 0"
| "classify_exn codes h (Execute_error m c) = classify codes (\<lambda>_. own_exn ''InteractiveExecuteError'' m) 0"
| "classify_exn codes h (Soft_cancelled m c) = classify codes (\<lambda>_. own_exn ''SoftCancelledError'' m) 0"
| "classify_exn codes h (Not_open m) = classify codes (\<lambda>_. own_exn ''SessionNotOpenError'' m) 0"
| "classify_exn codes h (Channel_error m c) = classify codes (\<lambda>_. own_exn ''CancelChannelError'' m) 0"
| "classify_exn codes h (Value_error m) = classify codes (\<lambda>_. own_exn ''ValueError'' m) 0"

definition validate_session_marker :: "string \<Rightarrow> interactive_exn + string" where
  "validate_session_marker s =
     (let t = strip s in
      if all_digits t \<and> length t \<le> 63 then Inr t else Inl (Channel_error ''invalid session marker'' (unclassified [])))"

section \<open>Dialects\<close>

record 'v conn_info =
  ci_host :: string
  ci_port :: int
  ci_username :: string
  ci_database :: "string option"
  ci_password_kind :: string
  ci_db_type :: db_type
  ci_extra :: "(string, 'v option) dict"

datatype dialect = MySQL | DM

fun dialect_db_type :: "dialect \<Rightarrow> db_type" where
  "dialect_db_type MySQL = DbType_MYSQL"
| "dialect_db_type DM = DbType_DM"

fun error_codes :: "dialect \<Rightarrow> (int, error_category) dict" where
  "error_codes MySQL = MYSQL_ERROR_CODES"
| "error_codes DM = DM_ERROR_CODES"

fun ping_sql :: "dialect \<Rightarrow> string" where
  "ping_sql MySQL = ''SELECT 1''"
| "ping_sql DM = ''SELECT 1 FROM dual''"

fun session_marker_sql :: "dialect \<Rightarrow> string" where
  "session_marker_sql MySQL = ''SELECT CONNECTION_ID()''"
| "session_marker_sql DM = ''SELECT SESSID()''"

definition MYSQL_STATEMENT_TIMEOUT_SQL :: string where
  "MYSQL_STATEMENT_TIMEOUT_SQL = ''SET SESSION MAX_EXECUTION_TIME = %s''"

definition MYSQL_SAFETY_BELT_MARGIN_SECONDS :: int where
  "MYSQL_SAFETY_BELT_MARGIN_SECONDS = 30"

fun cancel_command :: "dialect \<Rightarrow> string \<Rightarrow> string \<times> 'v sql_params" where
  "cancel_command MySQL marker = (''KILL QUERY %s'', Int_params [digits_value marker])"
| "cancel_command DM marker = (''CALL SP_CANCEL_SESSION_OPERATION(?)'', Int_params [digits_value marker])"

fun destroy_command :: "dialect \<Rightarrow> string \<Rightarrow> string \<times> 'v sql_params" where
  "destroy_command MySQL marker = (''KILL CONNECTION %s'', Int_params [digits_value marker])"
| "destroy_command DM marker = (''CALL SP_CLOSE_SESSION(?)'', Int_params [digits_value marker])"

text \<open>\<open>round(ms / 1000)\<close>: to the nearest second, halves to the even one.\<close>

definition round_seconds :: "int \<Rightarrow> int" where
  "round_seconds ms =
     (let q = ms div 1000; r = ms mod 1000 in
      if r < 500 then q else if r > 500 then q + 1 else if even q then q else q + 1)"

definition mysql_kwargs :: "('v \<Rightarrow> string) \<Rightarrow> 'v conn_info \<Rightarrow> string \<Rightarrow> int \<Rightarrow> (string, 'v kwarg) dict" where
  "mysql_kwargs str info password login_timeout_ms =
     [(''host'', Kw_str (ci_host info)), (''port'', Kw_int (ci_port info)), (''user'', Kw_str (ci_username info)), (''password'', Kw_str password)]
     @ (case ci_database info of None \<Rightarrow> [] | Some db \<Rightarrow> [(''database'', Kw_str db)])
     @ [(''charset'', Kw_str (case dict_get (ci_extra info) ''charset'' of None \<Rightarrow> ''utf8mb4'' | Some None \<Rightarrow> ''None'' | Some (Some v) \<Rightarrow> str v))]
     @ (if login_timeout_ms > 0 then [(''connect_timeout'', Kw_int (max 1 (round_seconds login_timeout_ms)))] else [])
     @ (case dict_get (ci_extra info) ''ssl'' of Some (Some v) \<Rightarrow> [(''ssl'', Kw_val v)] | _ \<Rightarrow> [])"

definition dm_kwargs :: "'v conn_info \<Rightarrow> string \<Rightarrow> int \<Rightarrow> (string, 'v kwarg) dict" where
  "dm_kwargs info password login_timeout_ms =
     [(''user'', Kw_str (ci_username info)), (''password'', Kw_str password), (''server'', Kw_str (ci_host info)), (''port'', Kw_int (ci_port info))]
     @ (case ci_database info of None \<Rightarrow> [] | Some db \<Rightarrow> if db \<noteq> [] then [(''schema'', Kw_str db)] else [])
     @ (if login_timeout_ms > 0 then [(''login_timeout'', Kw_int login_timeout_ms)] else [])"

section \<open>Calls of the driver\<close>

text \<open>Every state of this theory holds the world of the driver.\<close>

record 'w holder =
  world :: 'w

type_synonym ('s, 'a) op = "'s \<Rightarrow> (interactive_exn + 'a) \<times> 's"

definition driver_call :: "('w \<Rightarrow> (nat + 'a) \<times> 'w) \<Rightarrow> (('w, 'm) holder_scheme, 'a) op" where
  "driver_call f s =
     (case f (world s) of
        (Inl i, w) \<Rightarrow> (Inl (Driver_exn i), s\<lparr>world := w\<rparr>)
      | (Inr a, w) \<Rightarrow> (Inr a, s\<lparr>world := w\<rparr>))"

definition op_bind :: "('s, 'a) op \<Rightarrow> ('a \<Rightarrow> ('s, 'b) op) \<Rightarrow> ('s, 'b) op" where
  "op_bind m f s = (case m s of (Inl e, s) \<Rightarrow> (Inl e, s) | (Inr a, s) \<Rightarrow> f a s)"

abbreviation close_cursor :: "('w, 'v) driver \<Rightarrow> nat \<Rightarrow> ('w, 'm) holder_scheme \<Rightarrow> ('w, 'm) holder_scheme" where
  "close_cursor d k s \<equiv> s\<lparr>world := dr_close_cursor d k (world s)\<rparr>"

abbreviation close_conn :: "('w, 'v) driver \<Rightarrow> nat \<Rightarrow> ('w, 'm) holder_scheme \<Rightarrow> ('w, 'm) holder_scheme" where
  "close_conn d c s \<equiv> s\<lparr>world := dr_close_conn d c (world s)\<rparr>"

text \<open>A cursor that is closed in any case.\<close>

definition with_cursor :: "('w, 'v) driver \<Rightarrow> nat \<Rightarrow> (nat \<Rightarrow> (('w, 'm) holder_scheme, 'a) op) \<Rightarrow> (('w, 'm) holder_scheme, 'a) op" where
  "with_cursor d c body =
     op_bind (driver_call (dr_cursor d c False)) (\<lambda>k s. case body k s of (r, s) \<Rightarrow> (r, close_cursor d k s))"

definition fetch_first :: "('w, 'v) driver \<Rightarrow> string \<Rightarrow> nat \<Rightarrow> (('w, 'm) holder_scheme, 'v raw_row) op" where
  "fetch_first d sql k = op_bind (driver_call (dr_execute d k sql No_params)) (\<lambda>_. driver_call (dr_fetchone d k))"

definition driver_connect :: "('w, 'v) driver \<Rightarrow> dialect \<Rightarrow> 'v conn_info \<Rightarrow> int \<Rightarrow> (('w, 'm) holder_scheme, nat) op" where
  "driver_connect d di info login_timeout_ms =
     op_bind (driver_call (dr_reveal d)) (\<lambda>password.
     driver_call (dr_connect d (case di of MySQL \<Rightarrow> mysql_kwargs (dr_str d) info password login_timeout_ms
                                         | DM \<Rightarrow> dm_kwargs info password login_timeout_ms)))"

section \<open>The connection of a session\<close>

record ('w, 'v) connection = "'w holder" +
  cn_dialect :: dialect
  cn_info :: "'v conn_info"
  cn_login_timeout_ms :: int
  cn_default_timeout_seconds :: int
  cn_conn :: "nat option"
  cn_marker :: "string option"
  cn_alive :: bool
  cn_cancel_flag :: bool
  cn_belt_seconds :: "int option"
  cn_belt_supported :: bool

definition new_connection :: "dialect \<Rightarrow> 'v conn_info \<Rightarrow> int \<Rightarrow> int \<Rightarrow> 'w \<Rightarrow> interactive_exn + ('w, 'v) connection" where
  "new_connection di info login_timeout_ms default_timeout_seconds w =
     (if ci_db_type info \<noteq> dialect_db_type di then Inl (Value_error (case di of MySQL \<Rightarrow> ''requires DbType.MYSQL'' | DM \<Rightarrow> ''requires DbType.DM''))
      else if ci_password_kind info \<noteq> ''datasource_password'' then Inl (Value_error ''password_ref.kind must be DATASOURCE_PASSWORD'')
      else if login_timeout_ms < 0 then Inl (Value_error ''login_timeout_ms must not be negative'')
      else Inr \<lparr>world = w, cn_dialect = di, cn_info = info, cn_login_timeout_ms = login_timeout_ms,
        cn_default_timeout_seconds = max 0 default_timeout_seconds, cn_conn = None, cn_marker = None, cn_alive = False,
        cn_cancel_flag = False, cn_belt_seconds = None, cn_belt_supported = True\<rparr>)"

definition is_open :: "('w, 'v) connection \<Rightarrow> bool" where
  "is_open s \<longleftrightarrow> cn_conn s \<noteq> None \<and> cn_alive s"

definition request_soft_cancel :: "('w, 'v) connection \<Rightarrow> ('w, 'v) connection" where
  "request_soft_cancel s = s\<lparr>cn_cancel_flag := True\<rparr>"

definition clear_soft_cancel :: "('w, 'v) connection \<Rightarrow> ('w, 'v) connection" where
  "clear_soft_cancel s = s\<lparr>cn_cancel_flag := False\<rparr>"

definition belt_seconds :: "int \<Rightarrow> int" where
  "belt_seconds timeout_seconds = (if timeout_seconds \<le> 0 then 0 else timeout_seconds + MYSQL_SAFETY_BELT_MARGIN_SECONDS)"

definition sync_server_statement_timeout :: "('w, 'v) driver \<Rightarrow> nat \<Rightarrow> int \<Rightarrow> ('w, 'v) connection \<Rightarrow> ('w, 'v) connection" where
  "sync_server_statement_timeout d c timeout_seconds s =
     (case cn_dialect s of
        DM \<Rightarrow> s
      | MySQL \<Rightarrow>
          if \<not> cn_belt_supported s then s
          else if cn_belt_seconds s = Some (belt_seconds timeout_seconds) then s
          else
            (case with_cursor d c
                (\<lambda>k. driver_call (dr_execute d k MYSQL_STATEMENT_TIMEOUT_SQL (Int_params [belt_seconds timeout_seconds * 1000]))) s of
               (Inl e, s) \<Rightarrow> s\<lparr>cn_belt_supported := False, cn_belt_seconds := None\<rparr>
             | (Inr _, s) \<Rightarrow> s\<lparr>cn_belt_seconds := Some (belt_seconds timeout_seconds)\<rparr>))"

definition after_connect :: "('w, 'v) driver \<Rightarrow> nat \<Rightarrow> ('w, 'v) connection \<Rightarrow> ('w, 'v) connection" where
  "after_connect d c s =
     (case cn_dialect s of MySQL \<Rightarrow> sync_server_statement_timeout d c (cn_default_timeout_seconds s) s | DM \<Rightarrow> s)"

definition read_session_marker :: "('w, 'v) driver \<Rightarrow> nat \<Rightarrow> (('w, 'v) connection, string) op" where
  "read_session_marker d c s =
     (case with_cursor d c (fetch_first d (session_marker_sql (cn_dialect s))) s of
        (Inl e, s) \<Rightarrow> (Inl e, s)
      | (Inr row, s) \<Rightarrow>
          (case first_cell row of
             None \<Rightarrow> (Inl (Connect_error ''session marker query returned no value'' (unclassified ''empty session marker'')), s)
           | Some v \<Rightarrow> (validate_session_marker (dr_str d v), s)))"

definition close_connection :: "('w, 'v) driver \<Rightarrow> ('w, 'v) connection \<Rightarrow> ('w, 'v) connection" where
  "close_connection d s =
     (case cn_conn s of
        None \<Rightarrow> s\<lparr>cn_alive := False\<rparr>
      | Some c \<Rightarrow> close_conn d c (s\<lparr>cn_conn := None, cn_alive := False\<rparr>))"

text \<open>The clock counts microseconds; a login that used its budget and has no other explanation timed out.\<close>

definition classify_connect_failure :: "('w, 'v) driver \<Rightarrow> interactive_exn \<Rightarrow> int \<Rightarrow> ('w, 'v) connection \<Rightarrow> classified_error" where
  "classify_connect_failure d e started_at s =
     (let c = classify_exn (error_codes (cn_dialect s)) (dr_exns d) e in
      if cl_category c \<noteq> UNKNOWN \<or> cn_login_timeout_ms s \<le> 0 then c
      else if dr_clock d (world s) - started_at < cn_login_timeout_ms s * 1000 then c
      else \<lparr>cl_category = LOGIN_TIMEOUT, cl_driver_code = cl_driver_code c, cl_summary = cl_summary c, cl_server_confirmed = False\<rparr>)"

definition open_connection :: "('w, 'v) driver \<Rightarrow> (('w, 'v) connection, string) op" where
  "open_connection d s =
     (if cn_conn s \<noteq> None then (Inl (Not_open ''connection already open''), s)
      else
        let started_at = dr_clock d (world s) in
        case driver_connect d (cn_dialect s) (cn_info s) (cn_login_timeout_ms s) s of
          (Inl e, s) \<Rightarrow> (Inl (Connect_error ''interactive connect failed'' (classify_connect_failure d e started_at s)), s)
        | (Inr c, s) \<Rightarrow>
            (case read_session_marker d c (after_connect d c (s\<lparr>cn_conn := Some c, cn_alive := True\<rparr>)) of
               (Inl e, s) \<Rightarrow>
                 (Inl (Connect_error ''interactive session marker capture failed'' (classify_exn (error_codes (cn_dialect s)) (dr_exns d) e)),
                  close_connection d s)
             | (Inr marker, s) \<Rightarrow> (Inr marker, s\<lparr>cn_marker := Some marker\<rparr>)))"

definition ping_connection :: "('w, 'v) driver \<Rightarrow> ('w, 'v) connection \<Rightarrow> bool \<times> ('w, 'v) connection" where
  "ping_connection d s =
     (case cn_conn s of
        None \<Rightarrow> (False, s)
      | Some c \<Rightarrow>
          (case with_cursor d c (fetch_first d (ping_sql (cn_dialect s))) s of
             (Inl e, s) \<Rightarrow> (False, s\<lparr>cn_alive := False\<rparr>)
           | (Inr _, s) \<Rightarrow> (True, s)))"

section \<open>Executing a statement\<close>

text \<open>The sink for the description of the columns is code of the caller: a call that may raise.\<close>

record ('w, 'v) request =
  rq_sql :: string
  rq_params :: "'v sql_params"
  rq_fetch_size :: int
  rq_timeout_seconds :: int
  rq_column_sink :: "(nat \<Rightarrow> 'w \<Rightarrow> (nat + unit) \<times> 'w) option"

fun driver_params :: "'v sql_params \<Rightarrow> 'v sql_params" where
  "driver_params (Seq_params []) = No_params"
| "driver_params (Map_params []) = No_params"
| "driver_params (Int_params []) = No_params"
| "driver_params p = p"

definition run_call :: "('w, 'v) driver \<Rightarrow> ('w \<Rightarrow> (nat + 'a) \<times> 'w) \<Rightarrow> (('w, 'v) connection, 'a) op" where
  "run_call d f s =
     (case driver_call f s of
        (Inr a, s) \<Rightarrow> (Inr a, s)
      | (Inl e, s) \<Rightarrow>
          (let c = classify_exn (error_codes (cn_dialect s)) (dr_exns d) e in
           (Inl (Execute_error ''interactive statement failed'' c), if connection_aborted c then s\<lparr>cn_alive := False\<rparr> else s)))"

definition check_soft_cancel :: "('w, 'v) connection \<Rightarrow> interactive_exn + unit" where
  "check_soft_cancel s = (if cn_cancel_flag s then Inl (Soft_cancelled ''statement soft cancelled'' SOFT_CANCEL) else Inr ())"

definition emit_columns :: "('w, 'v) request \<Rightarrow> nat \<Rightarrow> (('w, 'v) connection, unit) op" where
  "emit_columns rq k = (case rq_column_sink rq of None \<Rightarrow> (\<lambda>s. (Inr (), s)) | Some f \<Rightarrow> driver_call (f k))"

definition execute_statement :: "('w, 'v) driver \<Rightarrow> ('w, 'v) request \<Rightarrow> (('w, 'v) connection, nat) op" where
  "execute_statement d rq s =
     (if rq_fetch_size rq \<le> 0 then (Inl (Value_error ''fetch_size must be positive''), s)
      else case cn_conn s of
        None \<Rightarrow> (Inl (Not_open ''interactive connection is not open''), s)
      | Some c \<Rightarrow>
          if \<not> cn_alive s then (Inl (Not_open ''interactive connection is not open''), s)
          else
            (case check_soft_cancel s of
               Inl e \<Rightarrow> (Inl e, s)
             | Inr _ \<Rightarrow>
                 op_bind (driver_call (dr_cursor d c (cn_dialect s = MySQL)))
                   (\<lambda>k s. case op_bind (run_call d (dr_execute d k (rq_sql rq) (driver_params (rq_params rq)))) (\<lambda>_. emit_columns rq k) s of
                      (Inl e, s) \<Rightarrow> (Inl e, close_cursor d k s)
                    | (Inr _, s) \<Rightarrow> (Inr k, s))
                   (sync_server_statement_timeout d c (rq_timeout_seconds rq) s)))"

text \<open>
  The generator of rows. Before each round another thread may have set the flag: \<open>env\<close> has one entry per round and tells whether it
  did. With no entry left the consumer has not asked for more.
\<close>

datatype stream_end = Exhausted | Raised interactive_exn | Suspended

fun stream_rows :: "('w, 'v) driver \<Rightarrow> nat \<Rightarrow> int \<Rightarrow> bool list \<Rightarrow> ('w, 'v) connection \<Rightarrow> 'v option list list \<times> stream_end \<times> ('w, 'v) connection" where
  "stream_rows d k n [] s = ([], Suspended, s)"
| "stream_rows d k n (b # env) s =
     (let s = (if b then request_soft_cancel s else s) in
      case check_soft_cancel s of
        Inl e \<Rightarrow> ([], Raised e, close_cursor d k s)
      | Inr _ \<Rightarrow>
          (case run_call d (dr_fetchmany d k n) s of
             (Inl e, s) \<Rightarrow> ([], Raised e, close_cursor d k s)
           | (Inr batch, s) \<Rightarrow>
               if batch = [] then ([], Exhausted, close_cursor d k s)
               else (case stream_rows d k n env s of (rows, e, s) \<Rightarrow> (map to_row batch @ rows, e, s))))"

text \<open>What the lane of a session makes of an exception: it reads the classification of execution errors and takes all others as unexpected.\<close>

fun lane_driver_outcome :: "interactive_exn \<Rightarrow> bool \<Rightarrow> driver_outcome" where
  "lane_driver_outcome (Execute_error m c) ping = Driver_error c m ping"
| "lane_driver_outcome (Soft_cancelled m c) ping = Driver_error c m ping"
| "lane_driver_outcome _ ping = Unexpected_error"

section \<open>The control connection\<close>

datatype cancel_support = Cancel_available | Cancel_degraded | Cancel_unknown

record ('w, 'v) channel = "'w holder" +
  ch_dialect :: dialect
  ch_info :: "'v conn_info"
  ch_login_timeout_ms :: int
  ch_conn :: "nat option"
  ch_own_marker :: "string option"
  ch_support :: cancel_support

definition new_channel :: "dialect \<Rightarrow> 'v conn_info \<Rightarrow> int \<Rightarrow> 'w \<Rightarrow> interactive_exn + ('w, 'v) channel" where
  "new_channel di info login_timeout_ms w =
     (if ci_db_type info \<noteq> dialect_db_type di then Inl (Value_error (case di of MySQL \<Rightarrow> ''requires DbType.MYSQL'' | DM \<Rightarrow> ''requires DbType.DM''))
      else if ci_password_kind info \<noteq> ''datasource_password'' then Inl (Value_error ''password_ref.kind must be DATASOURCE_PASSWORD'')
      else Inr \<lparr>world = w, ch_dialect = di, ch_info = info, ch_login_timeout_ms = login_timeout_ms, ch_conn = None, ch_own_marker = None,
        ch_support = Cancel_unknown\<rparr>)"

abbreviation channel_error :: "('w, 'v) driver \<Rightarrow> string \<Rightarrow> interactive_exn \<Rightarrow> ('w, 'v) channel \<Rightarrow> interactive_exn" where
  "channel_error d message e s \<equiv> Channel_error message (classify_exn (error_codes (ch_dialect s)) (dr_exns d) e)"

definition close_channel :: "('w, 'v) driver \<Rightarrow> ('w, 'v) channel \<Rightarrow> ('w, 'v) channel" where
  "close_channel d s = (case ch_conn s of None \<Rightarrow> s | Some c \<Rightarrow> close_conn d c (s\<lparr>ch_conn := None\<rparr>))"

text \<open>The new connection replaces the old one before its marker is validated.\<close>

definition connect_channel :: "('w, 'v) driver \<Rightarrow> (('w, 'v) channel, unit) op" where
  "connect_channel d s =
     (case driver_connect d (ch_dialect s) (ch_info s) (ch_login_timeout_ms s) s of
        (Inl e, s) \<Rightarrow> (Inl e, s)
      | (Inr c, s) \<Rightarrow>
          (case driver_call (dr_cursor d c False) s of
             (Inl e, s) \<Rightarrow> (Inl e, close_conn d c s)
           | (Inr k, s) \<Rightarrow>
               (case fetch_first d (session_marker_sql (ch_dialect s)) k s of
                  (Inl e, s) \<Rightarrow> (Inl e, close_cursor d k (close_conn d c s))
                | (Inr row, s) \<Rightarrow>
                    (let s = (close_cursor d k s)\<lparr>ch_conn := Some c\<rparr> in
                     case first_cell row of
                       None \<Rightarrow> (Inr (), s\<lparr>ch_own_marker := None\<rparr>)
                     | Some v \<Rightarrow>
                         (case validate_session_marker (dr_str d v) of
                            Inl e \<Rightarrow> (Inl e, s)
                          | Inr m \<Rightarrow> (Inr (), s\<lparr>ch_own_marker := Some m\<rparr>))))))"

definition ping_channel :: "('w, 'v) driver \<Rightarrow> ('w, 'v) channel \<Rightarrow> bool \<times> ('w, 'v) channel" where
  "ping_channel d s =
     (case ch_conn s of
        None \<Rightarrow> (False, s)
      | Some c \<Rightarrow>
          (case with_cursor d c (fetch_first d (ping_sql (ch_dialect s))) s of
             (Inl e, s) \<Rightarrow> (False, s)
           | (Inr _, s) \<Rightarrow> (True, s)))"

definition execute_control :: "('w, 'v) driver \<Rightarrow> string \<times> 'v sql_params \<Rightarrow> (('w, 'v) channel, unit) op" where
  "execute_control d command s =
     (case ch_conn s of
        None \<Rightarrow> (Inl (Channel_error ''control connection is not open'' (unclassified [])), s)
      | Some c \<Rightarrow> with_cursor d c (\<lambda>k. driver_call (dr_execute d k (fst command) (snd command))) s)"

text \<open>The second half of the probe: the connection must answer, or be replaced.\<close>

definition probe_alive :: "('w, 'v) driver \<Rightarrow> ('w, 'v) channel \<Rightarrow> cancel_support \<times> ('w, 'v) channel" where
  "probe_alive d s =
     (case ping_channel d s of
        (True, s) \<Rightarrow> (Cancel_available, s)
      | (False, s) \<Rightarrow> (case connect_channel d s of (Inl e, s) \<Rightarrow> (Cancel_degraded, s) | (Inr _, s) \<Rightarrow> (Cancel_available, s)))"

definition probe :: "('w, 'v) driver \<Rightarrow> ('w, 'v) channel \<Rightarrow> cancel_support \<times> ('w, 'v) channel" where
  "probe d s =
     (case ch_own_marker s of
        None \<Rightarrow> (Cancel_degraded, s)
      | Some m \<Rightarrow>
          (case execute_control d (cancel_command (ch_dialect s) m) s of
             (Inr _, s) \<Rightarrow> probe_alive d s
           | (Inl e, s) \<Rightarrow>
               if \<not> cl_server_confirmed (classify_exn (error_codes (ch_dialect s)) (dr_exns d) e) then (Cancel_degraded, s)
               else probe_alive d s))"

definition open_channel :: "('w, 'v) driver \<Rightarrow> (('w, 'v) channel, cancel_support) op" where
  "open_channel d s =
     (case connect_channel d s of
        (Inl e, s) \<Rightarrow> (Inl (channel_error d ''control connection failed'' e s), close_channel d s)
      | (Inr _, s) \<Rightarrow> (case probe d s of (support, s) \<Rightarrow> (Inr support, s\<lparr>ch_support := support\<rparr>)))"

definition reconnect_channel :: "('w, 'v) driver \<Rightarrow> (('w, 'v) channel, unit) op" where
  "reconnect_channel d s =
     (case connect_channel d (close_channel d s) of
        (Inl e, s) \<Rightarrow> (Inl (channel_error d ''control connection unavailable'' e s), s)
      | (Inr _, s) \<Rightarrow> (Inr (), s))"

definition ensure_ready :: "('w, 'v) driver \<Rightarrow> (('w, 'v) channel, unit) op" where
  "ensure_ready d s =
     (if ch_conn s \<noteq> None then (case ping_channel d s of (True, s) \<Rightarrow> (Inr (), s) | (False, s) \<Rightarrow> reconnect_channel d s)
      else reconnect_channel d s)"

definition control :: "('w, 'v) driver \<Rightarrow> string \<times> 'v sql_params \<Rightarrow> (('w, 'v) channel, unit) op" where
  "control d command =
     op_bind (ensure_ready d) (\<lambda>_ s.
       case execute_control d command s of
         (Inl e, s) \<Rightarrow> (Inl (channel_error d ''control command failed'' e s), s)
       | (Inr _, s) \<Rightarrow> (Inr (), s))"

definition cancel_session :: "('w, 'v) driver \<Rightarrow> string \<Rightarrow> (('w, 'v) channel, unit) op" where
  "cancel_session d marker s =
     (case validate_session_marker marker of Inl e \<Rightarrow> (Inl e, s) | Inr m \<Rightarrow> control d (cancel_command (ch_dialect s) m) s)"

definition destroy_session :: "('w, 'v) driver \<Rightarrow> string \<Rightarrow> (('w, 'v) channel, unit) op" where
  "destroy_session d marker s =
     (case validate_session_marker marker of Inl e \<Rightarrow> (Inl e, s) | Inr m \<Rightarrow> control d (destroy_command (ch_dialect s) m) s)"

section \<open>What calls of the driver keep\<close>

lemma driver_call_frame: "driver_call f s = (r, s') \<Longrightarrow> \<exists>w. s' = s\<lparr>world := w\<rparr>"
  by (auto simp: driver_call_def split: prod.splits sum.splits)

lemma op_bind_frame:
  assumes "op_bind m f s = (r, s')"
    and "\<And>r s'. m s = (r, s') \<Longrightarrow> \<exists>w. s' = s\<lparr>world := w\<rparr>"
    and "\<And>a s s' r. f a s = (r, s') \<Longrightarrow> \<exists>w. s' = s\<lparr>world := w\<rparr>"
  shows "\<exists>w. s' = s\<lparr>world := w\<rparr>"
proof -
  obtain r1 s1 where 1: "m s = (r1, s1)"
    by fastforce
  then obtain w1 where w1: "s1 = s\<lparr>world := w1\<rparr>"
    using assms(2) by blast
  show ?thesis
  proof (cases r1)
    case (Inl e)
    then show ?thesis
      using assms(1) 1 w1 by (auto simp: op_bind_def)
  next
    case (Inr a)
    then have "f a s1 = (r, s')"
      using assms(1) 1 by (simp add: op_bind_def)
    then show ?thesis
      using assms(3) w1 by fastforce
  qed
qed

lemma fetch_first_frame: "fetch_first d sql k s = (r, s') \<Longrightarrow> \<exists>w. s' = s\<lparr>world := w\<rparr>"
  unfolding fetch_first_def by (erule op_bind_frame) (rule driver_call_frame, assumption)+

lemma with_cursor_frame:
  assumes "with_cursor d c body s = (r, s')" and "\<And>k s s' r. body k s = (r, s') \<Longrightarrow> \<exists>w. s' = s\<lparr>world := w\<rparr>"
  shows "\<exists>w. s' = s\<lparr>world := w\<rparr>"
  using assms(1) unfolding with_cursor_def
proof (rule op_bind_frame)
  fix k s s' r
  assume "(case body k s of (r, s) \<Rightarrow> (r, close_cursor d k s)) = (r, s')"
  moreover obtain r1 s1 where 1: "body k s = (r1, s1)"
    by fastforce
  ultimately show "\<exists>w. s' = s\<lparr>world := w\<rparr>"
    using assms(2) [OF 1] by auto
qed (rule driver_call_frame)

lemma driver_connect_frame: "driver_connect d di info t s = (r, s') \<Longrightarrow> \<exists>w. s' = s\<lparr>world := w\<rparr>"
  unfolding driver_connect_def by (erule op_bind_frame) (rule driver_call_frame, assumption)+

lemma with_cursor_fetch_frame:
  "with_cursor d c (fetch_first d' sql) s = (r, s') \<Longrightarrow> \<exists>w. s' = s\<lparr>world := w\<rparr>"
  by (erule with_cursor_frame) (rule fetch_first_frame)

lemma with_cursor_execute_frame:
  "with_cursor d c (\<lambda>k. driver_call (f k)) s = (r, s') \<Longrightarrow> \<exists>w. s' = s\<lparr>world := w\<rparr>"
  by (erule with_cursor_frame) (rule driver_call_frame)

section \<open>Streaming\<close>

text \<open>What a driver documents of \<open>fetchmany\<close>: the next rows of the result, as many as asked for or as are left.\<close>

definition cursor_serves :: "('w, 'v) driver \<Rightarrow> nat \<Rightarrow> nat \<Rightarrow> ('w \<Rightarrow> 'v raw_row list) \<Rightarrow> bool" where
  "cursor_serves d k n left \<longleftrightarrow>
     (\<forall>w. \<exists>w'. dr_fetchmany d k (int n) w = (Inr (take n (left w)), w') \<and> left w' = drop n (left w))"

lemma run_call_ok: "f (world s) = (Inr a, w) \<Longrightarrow> run_call d f s = (Inr a, s\<lparr>world := w\<rparr>)"
  by (simp add: run_call_def driver_call_def)

lemma stream_rows_served:
  fixes env :: "bool list"
  assumes serves: "cursor_serves d k n left" and n: "0 < n" and flag: "\<not> cn_cancel_flag s"
  defines "j \<equiv> length (takeWhile Not env)"
  shows "\<exists>s'. stream_rows d k (int n) env s =
     (map to_row (take (j * n) (left (world s))),
      (if length (left (world s)) + n \<le> j * n then Exhausted
       else if j < length env then Raised (Soft_cancelled ''statement soft cancelled'' SOFT_CANCEL) else Suspended), s')"
  unfolding j_def using flag
proof (induction env arbitrary: s)
  case Nil
  then show ?case
    using n by simp
next
  case (Cons b env)
  define rows where "rows = left (world s)"
  obtain w where w: "dr_fetchmany d k (int n) (world s) = (Inr (take n rows), w)" "left w = drop n rows"
    using serves unfolding cursor_serves_def rows_def by blast
  show ?case
  proof (cases b)
    case True
    then show ?thesis
      using n by (simp add: request_soft_cancel_def check_soft_cancel_def)
  next
    case False
    let ?s = "s\<lparr>world := w\<rparr>"
    have run: "run_call d (dr_fetchmany d k (int n)) s = (Inr (take n rows), ?s)"
      using w(1) by (rule run_call_ok)
    define i where "i = length (takeWhile Not env)"
    obtain s' where IH: "stream_rows d k (int n) env ?s =
       (map to_row (take (i * n) (drop n rows)),
        (if length (drop n rows) + n \<le> i * n then Exhausted
         else if i < length env then Raised (Soft_cancelled ''statement soft cancelled'' SOFT_CANCEL) else Suspended), s')"
      using Cons.IH [of ?s] Cons.prems w(2) unfolding i_def by auto
    show ?thesis
    proof (cases "rows = []")
      case True
      then show ?thesis
        using Cons.prems \<open>\<not> b\<close> run by (simp add: check_soft_cancel_def flip: rows_def)
    next
      case nonempty: False
      have "length (drop n rows) + n \<le> i * n \<longleftrightarrow> length rows + n \<le> Suc i * n"
        using nonempty n by (cases i) auto
      moreover have "take (Suc i * n) rows = take n rows @ take (i * n) (drop n rows)"
        by (simp add: take_add)
      ultimately show ?thesis
        using Cons.prems \<open>\<not> b\<close> run IH nonempty n by (simp add: check_soft_cancel_def flip: rows_def i_def)
    qed
  qed
qed

text \<open>
  C23. The rows of a statement reach the caller complete and in order: with a driver that serves the result in batches, a stream
  that no one cancels returns after at most one round more than there are batches, having delivered every row. If the flag is set
  before round \<open>j\<close>, the rows of the first \<open>j\<close> batches have been delivered and the stream ends with an error from which the lane makes a cancelled
  or, when the cancellation came from the timer, a timed out statement; the session is kept, and the server never counts as having confirmed.
\<close>

theorem stream_delivers:
  assumes "cursor_serves d k n left" and "0 < n" and "\<not> cn_cancel_flag s"
  shows "(\<forall>m. length (left (world s)) + n \<le> m * n \<longrightarrow>
        (\<exists>s'. stream_rows d k (int n) (replicate m False) s = (map to_row (left (world s)), Exhausted, s')))
     \<and> (\<forall>j env. j * n < length (left (world s)) + n \<longrightarrow>
        (\<exists>s' e code summary. stream_rows d k (int n) (replicate j False @ True # env) s
             = (map to_row (take (j * n) (left (world s))), Raised e, s')
           \<and> outcome_state x reason (lane_driver_outcome e ping)
             = (if reason = Some ''timeout'' then St_timeout else St_cancelled, code, summary, False)
           \<and> \<not> confirms_cancel (lane_driver_outcome e ping)))"
proof (intro conjI allI impI)
  fix m
  assume "length (left (world s)) + n \<le> m * n"
  then show "\<exists>s'. stream_rows d k (int n) (replicate m False) s = (map to_row (left (world s)), Exhausted, s')"
    using stream_rows_served [OF assms, of "replicate m False"] by auto
next
  fix j env
  assume "j * n < length (left (world s)) + n"
  moreover have "length (takeWhile Not (replicate j False @ True # env)) = j"
    by (simp add: takeWhile_append)
  ultimately show "\<exists>s' e code summary. stream_rows d k (int n) (replicate j False @ True # env) s
       = (map to_row (take (j * n) (left (world s))), Raised e, s')
     \<and> outcome_state x reason (lane_driver_outcome e ping) = (if reason = Some ''timeout'' then St_timeout else St_cancelled, code, summary, False)
     \<and> \<not> confirms_cancel (lane_driver_outcome e ping)"
    using stream_rows_served [OF assms, of "replicate j False @ True # env"] by (auto simp: SOFT_CANCEL_def outcome_state_def connection_aborted_def)
qed

section \<open>A driver for examples\<close>

text \<open>It numbers its connections, takes the number of a connection as that of its cursors, and records what is executed on which connection.\<close>

record log_world =
  lw_next :: nat
  lw_log :: "(nat \<times> string) list"
  lw_rows :: "int raw_row list"

definition log_driver :: "(log_world, int) driver" where
  "log_driver = \<lparr>dr_exns = (\<lambda>_. interrupted ''interrupted''), dr_str = int_str, dr_clock = (\<lambda>w. 0), dr_reveal = (\<lambda>w. (Inr ''secret'', w)),
     dr_connect = (\<lambda>kw w. (Inr (lw_next w), w\<lparr>lw_next := Suc (lw_next w)\<rparr>)), dr_cursor = (\<lambda>c stream w. (Inr c, w)),
     dr_execute = (\<lambda>k sql p w. (Inr (), w\<lparr>lw_log := lw_log w @ [(k, sql)]\<rparr>)), dr_fetchone = (\<lambda>k w. (Inr (Seq_row [Some 7]), w)),
     dr_fetchmany = (\<lambda>k n w. (Inr (take (nat n) (lw_rows w)), w\<lparr>lw_rows := drop (nat n) (lw_rows w)\<rparr>)),
     dr_close_cursor = (\<lambda>k w. w), dr_close_conn = (\<lambda>c w. w)\<rparr>"

definition log_info :: "int conn_info" where
  "log_info = \<lparr>ci_host = ''db'', ci_port = 3306, ci_username = ''u'', ci_database = None, ci_password_kind = ''datasource_password'',
     ci_db_type = DbType_MYSQL, ci_extra = []\<rparr>"

definition log_connection :: "int raw_row list \<Rightarrow> (log_world, int) connection" where
  "log_connection rows = \<lparr>world = \<lparr>lw_next = 1, lw_log = [], lw_rows = rows\<rparr>, cn_dialect = MySQL, cn_info = log_info, cn_login_timeout_ms = 10000,
     cn_default_timeout_seconds = 600, cn_conn = None, cn_marker = None, cn_alive = False, cn_cancel_flag = False, cn_belt_seconds = None,
     cn_belt_supported = True\<rparr>"

lemma log_connection_new: "new_connection MySQL log_info 10000 600 \<lparr>lw_next = 1, lw_log = [], lw_rows = rows\<rparr> = Inr (log_connection rows)"
  by (simp add: new_connection_def log_connection_def log_info_def)

lemma log_driver_serves: "cursor_serves log_driver k n lw_rows"
  by (simp add: cursor_serves_def log_driver_def)

text \<open>Three rows in batches of two.\<close>

theorem stream_delivers_witness:
  "\<exists>s'. stream_rows log_driver 1 (int 2) (replicate 3 False) (log_connection [Scalar_row 1, Seq_row [Some 2, None], None_row])
     = ([[Some 1], [Some 2, None], [None]], Exhausted, s')"
proof -
  let ?rows = "[Scalar_row 1, Seq_row [Some 2, None], None_row] :: int raw_row list"
  have rows: "lw_rows (world (log_connection ?rows)) = ?rows" "\<not> cn_cancel_flag (log_connection ?rows)"
    by (simp_all add: log_connection_def)
  show ?thesis
    using stream_delivers [OF log_driver_serves _ rows(2), of 2 1, THEN conjunct1, rule_format, of 3] unfolding rows(1) by simp
qed

section \<open>The invariant of a connection\<close>

text \<open>The calls of a lane and of other threads. An abandoned generator closes its cursor.\<close>

datatype ('w, 'v) conn_op = Op_open | Op_ping | Op_close | Op_execute "('w, 'v) request" "bool list" | Op_request_cancel | Op_clear_cancel

definition execute_and_stream :: "('w, 'v) driver \<Rightarrow> ('w, 'v) request \<Rightarrow> bool list \<Rightarrow> ('w, 'v) connection \<Rightarrow> ('w, 'v) connection" where
  "execute_and_stream d rq env s =
     (case execute_statement d rq s of
        (Inl e, s) \<Rightarrow> s
      | (Inr k, s) \<Rightarrow>
          (case stream_rows d k (rq_fetch_size rq) env s of (rows, e, s) \<Rightarrow> if e = Suspended then close_cursor d k s else s))"

fun conn_apply :: "('w, 'v) driver \<Rightarrow> ('w, 'v) conn_op \<Rightarrow> ('w, 'v) connection \<Rightarrow> ('w, 'v) connection" where
  "conn_apply d Op_open s = snd (open_connection d s)"
| "conn_apply d Op_ping s = snd (ping_connection d s)"
| "conn_apply d Op_close s = close_connection d s"
| "conn_apply d (Op_execute rq env) s = execute_and_stream d rq env s"
| "conn_apply d Op_request_cancel s = request_soft_cancel s"
| "conn_apply d Op_clear_cancel s = clear_soft_cancel s"

definition valid_marker :: "string \<Rightarrow> bool" where
  "valid_marker m \<longleftrightarrow> all_digits m \<and> length m \<le> 63"

definition belt_inv :: "('w, 'v) connection \<Rightarrow> bool" where
  "belt_inv s \<longleftrightarrow> (case cn_belt_seconds s of None \<Rightarrow> True
     | Some b \<Rightarrow> cn_dialect s = MySQL \<and> cn_belt_supported s \<and> (b = 0 \<or> MYSQL_SAFETY_BELT_MARGIN_SECONDS < b))"

definition conn_inv :: "('w, 'v) connection \<Rightarrow> bool" where
  "conn_inv s \<longleftrightarrow> belt_inv s \<and> (cn_alive s \<longrightarrow> cn_conn s \<noteq> None)
     \<and> (cn_conn s \<noteq> None \<longrightarrow> (\<exists>m. cn_marker s = Some m \<and> valid_marker m))"

lemma inv_simps [simp]:
  "conn_inv (s\<lparr>world := w\<rparr>) = conn_inv s" "conn_inv (s\<lparr>cn_cancel_flag := b\<rparr>) = conn_inv s"
  "belt_inv (s\<lparr>world := w\<rparr>) = belt_inv s" "belt_inv (s\<lparr>cn_conn := c\<rparr>) = belt_inv s" "belt_inv (s\<lparr>cn_alive := b\<rparr>) = belt_inv s"
  "belt_inv (s\<lparr>cn_marker := m\<rparr>) = belt_inv s"
  by (simp_all add: conn_inv_def belt_inv_def split: option.split)

lemma conn_inv_belt: "conn_inv s \<Longrightarrow> belt_inv s"
  by (simp add: conn_inv_def)

lemma conn_inv_dead: "conn_inv s \<Longrightarrow> conn_inv (s\<lparr>cn_alive := False\<rparr>)"
  by (simp add: conn_inv_def)

lemma validate_session_marker_ok: "validate_session_marker s = Inr m \<longleftrightarrow> m = strip s \<and> valid_marker m"
  by (auto simp: validate_session_marker_def valid_marker_def Let_def)

text \<open>Synchronising the timeout does nothing, gives up, or sets the value.\<close>

lemma sync_cases:
  obtains "sync_server_statement_timeout d c t s = s"
  | w where "cn_dialect s = MySQL" "sync_server_statement_timeout d c t s = s\<lparr>world := w, cn_belt_supported := False, cn_belt_seconds := None\<rparr>"
  | w where "cn_dialect s = MySQL" "cn_belt_supported s"
      "sync_server_statement_timeout d c t s = s\<lparr>world := w, cn_belt_seconds := Some (belt_seconds t)\<rparr>"
proof (cases "cn_dialect s = DM \<or> \<not> cn_belt_supported s \<or> cn_belt_seconds s = Some (belt_seconds t)")
  case True
  then have "sync_server_statement_timeout d c t s = s"
    by (auto simp: sync_server_statement_timeout_def split: dialect.split)
  with that(1) show ?thesis .
next
  case False
  then have di: "cn_dialect s = MySQL" "cn_belt_supported s" "cn_belt_seconds s \<noteq> Some (belt_seconds t)"
    by (cases "cn_dialect s"; simp)+
  obtain r s' where r: "with_cursor d c (\<lambda>k. driver_call (dr_execute d k MYSQL_STATEMENT_TIMEOUT_SQL (Int_params [belt_seconds t * 1000]))) s = (r, s')"
    by fastforce
  obtain w where w: "s' = s\<lparr>world := w\<rparr>"
    using with_cursor_execute_frame [OF r] by blast
  show ?thesis
  proof (cases r)
    case (Inl e)
    then have "sync_server_statement_timeout d c t s = s\<lparr>world := w, cn_belt_supported := False, cn_belt_seconds := None\<rparr>"
      using di r w by (simp add: sync_server_statement_timeout_def)
    with di(1) show ?thesis
      by (rule that(2))
  next
    case (Inr u)
    then have "sync_server_statement_timeout d c t s = s\<lparr>world := w, cn_belt_seconds := Some (belt_seconds t)\<rparr>"
      using di r w by (simp add: sync_server_statement_timeout_def)
    with di(1,2) show ?thesis
      by (rule that(3))
  qed
qed

lemma sync_keeps:
  shows "belt_inv s \<Longrightarrow> belt_inv (sync_server_statement_timeout d c t s)"
    and "conn_inv s \<Longrightarrow> conn_inv (sync_server_statement_timeout d c t s)"
    and "cn_conn (sync_server_statement_timeout d c t s) = cn_conn s" "cn_alive (sync_server_statement_timeout d c t s) = cn_alive s"
  by (rule sync_cases [of d c t s]; simp add: conn_inv_def belt_inv_def belt_seconds_def)+

lemma after_connect_keeps:
  shows "belt_inv s \<Longrightarrow> belt_inv (after_connect d c s)"
    and "cn_conn (after_connect d c s) = cn_conn s" "cn_alive (after_connect d c s) = cn_alive s"
  by (simp_all add: after_connect_def sync_keeps split: dialect.split)

lemma close_keeps: "belt_inv s \<Longrightarrow> conn_inv (close_connection d s)"
  by (auto simp: close_connection_def conn_inv_def belt_inv_def split: option.split)

lemma read_session_marker_result:
  assumes "read_session_marker d c s = (r, s')"
  obtains w where "s' = s\<lparr>world := w\<rparr>" "\<And>m. r = Inr m \<Longrightarrow> valid_marker m"
proof -
  obtain r1 s1 where 1: "with_cursor d c (fetch_first d (session_marker_sql (cn_dialect s))) s = (r1, s1)"
    by fastforce
  obtain w where "s1 = s\<lparr>world := w\<rparr>"
    using with_cursor_fetch_frame [OF 1] by blast
  then show ?thesis
    using assms 1 that [of w]
    by (auto simp: read_session_marker_def validate_session_marker_ok split: sum.splits option.splits)
qed

lemma open_keeps:
  assumes "conn_inv s"
  shows "conn_inv (snd (open_connection d s))"
proof (cases "cn_conn s")
  case (Some c)
  then show ?thesis
    using assms by (simp add: open_connection_def)
next
  case None
  obtain r s1 where 1: "driver_connect d (cn_dialect s) (cn_info s) (cn_login_timeout_ms s) s = (r, s1)"
    by fastforce
  obtain w1 where s1: "s1 = s\<lparr>world := w1\<rparr>"
    using driver_connect_frame [OF 1] by blast
  show ?thesis
  proof (cases r)
    case (Inl e)
    then show ?thesis
      using assms None 1 s1 by (simp add: open_connection_def Let_def)
  next
    case (Inr c)
    define t where "t = after_connect d c (s1\<lparr>cn_conn := Some c, cn_alive := True\<rparr>)"
    have t: "belt_inv t" "cn_conn t = Some c"
      using assms s1 by (simp_all add: t_def after_connect_keeps conn_inv_def)
    obtain r2 s2 where 2: "read_session_marker d c t = (r2, s2)"
      by fastforce
    then obtain w2 where s2: "s2 = t\<lparr>world := w2\<rparr>" "\<And>m. r2 = Inr m \<Longrightarrow> valid_marker m"
      by (rule read_session_marker_result) blast
    show ?thesis
      using None Inr 1 2 s2 t close_keeps [of s2 d]
      by (cases r2) (simp_all add: open_connection_def Let_def flip: t_def, simp add: conn_inv_def)
  qed
qed

lemma run_call_result:
  assumes "run_call d f s = (r, s')" and "conn_inv s"
  shows "conn_inv s'"
proof -
  obtain r1 s1 where 1: "driver_call f s = (r1, s1)"
    by fastforce
  obtain w where "s1 = s\<lparr>world := w\<rparr>"
    using driver_call_frame [OF 1] by blast
  with assms 1 show ?thesis
    by (cases r1) (auto simp: run_call_def Let_def conn_inv_dead split: if_splits)
qed

lemma stream_keeps: "conn_inv s \<Longrightarrow> conn_inv (snd (snd (stream_rows d k n env s)))"
proof (induction env arbitrary: s)
  case (Cons b env)
  define s0 where "s0 = (if b then request_soft_cancel s else s)"
  have s0: "conn_inv s0"
    using Cons.prems by (simp add: s0_def request_soft_cancel_def)
  obtain r s1 where 1: "run_call d (dr_fetchmany d k n) s0 = (r, s1)"
    by fastforce
  note s1 = run_call_result [OF 1 s0]
  show ?case
    using s0 s1 1 Cons.IH [OF s1] by (auto simp: Let_def s0_def [symmetric] split: sum.split prod.split)
qed simp

lemma execute_keeps:
  assumes "conn_inv s" and "execute_statement d rq s = (r, s')"
  shows "conn_inv s'"
proof (cases "rq_fetch_size rq \<le> 0 \<or> cn_conn s = None \<or> \<not> cn_alive s \<or> cn_cancel_flag s")
  case True
  then show ?thesis
    using assms by (auto simp: execute_statement_def check_soft_cancel_def split: option.splits if_splits)
next
  case False
  then obtain c where c: "cn_conn s = Some c"
    by auto
  define t where "t = sync_server_statement_timeout d c (rq_timeout_seconds rq) s"
  have t: "conn_inv t"
    using assms(1) by (simp add: t_def sync_keeps(2))
  obtain r1 s1 where 1: "driver_call (dr_cursor d c (cn_dialect s = MySQL)) t = (r1, s1)"
    by fastforce
  have s1: "conn_inv s1"
    using driver_call_frame [OF 1] t by auto
  show ?thesis
  proof (cases r1)
    case (Inl e)
    then show ?thesis
      using assms(2) False c 1 s1 by (simp add: execute_statement_def check_soft_cancel_def op_bind_def flip: t_def)
  next
    case (Inr k)
    obtain r2 s2 where 2: "run_call d (dr_execute d k (rq_sql rq) (driver_params (rq_params rq))) s1 = (r2, s2)"
      by fastforce
    note s2 = run_call_result [OF 2 s1]
    obtain r3 s3 where 3: "emit_columns rq k s2 = (r3, s3)"
      by fastforce
    have "\<exists>w. s3 = s2\<lparr>world := w\<rparr>"
      using 3 driver_call_frame [of _ s2 r3 s3] by (auto simp: emit_columns_def intro: exI [of _ "world s2"] split: option.splits)
    with s2 have s3: "conn_inv s3"
      by auto
    show ?thesis
      using assms(2) False c 1 Inr 2 3 s2 s3
      by (cases r2; cases r3) (auto simp: execute_statement_def check_soft_cancel_def op_bind_def simp flip: t_def)
  qed
qed

lemma conn_apply_keeps:
  assumes "conn_inv s"
  shows "conn_inv (conn_apply d p s)"
proof (cases p)
  case Op_ping
  show ?thesis
  proof (cases "cn_conn s")
    case (Some c)
    obtain r s1 where 1: "with_cursor d c (fetch_first d (ping_sql (cn_dialect s))) s = (r, s1)"
      by fastforce
    have "conn_inv s1"
      using with_cursor_fetch_frame [OF 1] assms by auto
    then show ?thesis
      using Op_ping Some 1 by (cases r) (simp_all add: ping_connection_def conn_inv_dead)
  qed (use Op_ping assms in \<open>simp add: ping_connection_def\<close>)
next
  case (Op_execute rq env)
  obtain r s1 where 1: "execute_statement d rq s = (r, s1)"
    by fastforce
  note s1 = execute_keeps [OF assms 1]
  show ?thesis
  proof (cases r)
    case (Inl e)
    then show ?thesis
      using Op_execute 1 s1 by (simp add: execute_and_stream_def)
  next
    case (Inr k)
    obtain rows e s2 where 2: "stream_rows d k (rq_fetch_size rq) env s1 = (rows, e, s2)"
      by (rule prod_cases3)
    have "conn_inv s2"
      using stream_keeps [OF s1, of d k "rq_fetch_size rq" env] unfolding 2 by simp
    then show ?thesis
      using Op_execute 1 2 Inr by (simp add: execute_and_stream_def)
  qed
qed (use assms in \<open>simp_all add: open_keeps close_keeps conn_inv_belt request_soft_cancel_def clear_soft_cancel_def\<close>)

text \<open>
  Whatever a driver does and in whatever order the operations of a connection are called, a connection that counts as open has a handle and a
  marker of one to 63 digits, and the statement timeout that it reports is one that the code can have set on a MySQL server: none, zero, or
  more than the margin.
\<close>

theorem connection_invariant:
  assumes "new_connection di info login_timeout_ms default_timeout_seconds w = Inr s"
  shows "conn_inv (fold (conn_apply d) ops s)"
proof -
  have "conn_inv s"
    using assms by (auto simp: new_connection_def conn_inv_def belt_inv_def split: if_splits)
  then show ?thesis
    by (induction ops arbitrary: s) (simp_all add: conn_apply_keeps)
qed

theorem connection_invariant_witness:
  "conn_inv (fold (conn_apply log_driver) [Op_open, Op_close, Op_open, Op_request_cancel] (log_connection []))"
  by (rule connection_invariant [OF log_connection_new])

section \<open>Control commands\<close>

text \<open>A marker that is no number reaches no driver.\<close>

lemma cancel_rejects_marker:
  "\<not> valid_marker (strip marker) \<Longrightarrow> cancel_session d marker s = (Inl (Channel_error ''invalid session marker'' (unclassified [])), s)"
  "\<not> valid_marker (strip marker) \<Longrightarrow> destroy_session d marker s = (Inl (Channel_error ''invalid session marker'' (unclassified [])), s)"
  by (auto simp: cancel_session_def destroy_session_def validate_session_marker_def valid_marker_def Let_def)

lemma connect_channel_ok:
  assumes "connect_channel d s = (Inr u, s')"
  shows "ch_conn s' \<noteq> None \<and> (\<forall>m. ch_own_marker s' = Some m \<longrightarrow> valid_marker m)"
  using assms
  by (auto simp: connect_channel_def Let_def validate_session_marker_ok split: prod.splits sum.splits option.splits)

lemma probe_alive_available:
  assumes "probe_alive d s = (Cancel_available, s')"
  shows "ch_conn s' \<noteq> None"
proof -
  obtain b s1 where 1: "ping_channel d s = (b, s1)"
    by fastforce
  show ?thesis
  proof (cases b)
    case True
    then obtain c r where c: "ch_conn s = Some c" "with_cursor d c (fetch_first d (ping_sql (ch_dialect s))) s = (r, s1)"
      using 1 by (auto simp: ping_channel_def split: option.splits prod.splits sum.splits)
    show ?thesis
      using with_cursor_fetch_frame [OF c(2)] c(1) assms 1 True by (auto simp: probe_alive_def)
  next
    case False
    then obtain u where "connect_channel d s1 = (Inr u, s')"
      using assms 1 by (auto simp: probe_alive_def split: prod.splits sum.splits)
    then show ?thesis
      using connect_channel_ok by blast
  qed
qed

text \<open>
  C24. A control connection says that cancelling works only if it has tried: when opening it returns \<open>available\<close>, the connection has a marker of
  digits only, the command to cancel this marker has been executed and either returned or was answered with a code by which the server
  confirms a cancellation, and there is a connection for the commands to come. When opening fails, no connection is kept.
\<close>

theorem cancel_support_is_tried:
  assumes "open_channel d s = (r, s')"
  shows "(r = Inr Cancel_available \<longrightarrow> ch_conn s' \<noteq> None \<and> ch_support s' = Cancel_available
       \<and> (\<exists>s1 m r2 s2. connect_channel d s = (Inr (), s1) \<and> ch_own_marker s1 = Some m \<and> valid_marker m
            \<and> execute_control d (cancel_command (ch_dialect s1) m) s1 = (r2, s2)
            \<and> (case r2 of Inr _ \<Rightarrow> True | Inl e \<Rightarrow> cl_server_confirmed (classify_exn (error_codes (ch_dialect s2)) (dr_exns d) e))))
     \<and> (\<forall>e. r = Inl e \<longrightarrow> ch_conn s' = None)"
proof -
  obtain r1 s1 where 1: "connect_channel d s = (r1, s1)"
    by fastforce
  show ?thesis
  proof (cases r1)
    case (Inl e)
    then show ?thesis
      using assms 1 by (auto simp: open_channel_def close_channel_def split: option.splits)
  next
    case (Inr u)
    obtain support s3 where p: "probe d s1 = (support, s3)"
      by fastforce
    have r: "r = Inr support" "s' = s3\<lparr>ch_support := support\<rparr>"
      using assms 1 Inr p by (simp_all add: open_channel_def)
    show ?thesis
    proof (cases "support = Cancel_available")
      case True
      then obtain m r2 s2 where m: "ch_own_marker s1 = Some m" "execute_control d (cancel_command (ch_dialect s1) m) s1 = (r2, s2)"
        "probe_alive d s2 = (Cancel_available, s3)"
        "case r2 of Inr _ \<Rightarrow> True | Inl e \<Rightarrow> cl_server_confirmed (classify_exn (error_codes (ch_dialect s2)) (dr_exns d) e)"
        using p by (auto simp: probe_def split: option.splits prod.splits sum.splits if_splits)
      have "valid_marker m"
        using connect_channel_ok [of d s u s1] 1 Inr m(1) by simp
      then show ?thesis
        using r True 1 Inr m probe_alive_available [OF m(3)] by auto
    qed (use r in auto)
  qed
qed

definition log_channel :: "(log_world, int) channel" where
  "log_channel = \<lparr>world = \<lparr>lw_next = 1, lw_log = [], lw_rows = []\<rparr>, ch_dialect = MySQL, ch_info = log_info, ch_login_timeout_ms = 10000,
     ch_conn = None, ch_own_marker = None, ch_support = Cancel_unknown\<rparr>"

lemma int_str_7: "validate_session_marker (int_str 7) = Inr ''7''"
  by code_simp

lemma log_channel_open: "\<exists>s. open_channel log_driver log_channel = (Inr Cancel_available, s)"
  by (simp add: open_channel_def connect_channel_def log_channel_def log_driver_def driver_connect_def op_bind_def driver_call_def fetch_first_def
      Let_def int_str_7 probe_def execute_control_def with_cursor_def probe_alive_def ping_channel_def)

theorem cancel_support_is_tried_witness:
  "\<exists>s' m s1. open_channel log_driver log_channel = (Inr Cancel_available, s') \<and> ch_conn s' \<noteq> None
     \<and> connect_channel log_driver log_channel = (Inr (), s1) \<and> ch_own_marker s1 = Some m \<and> valid_marker m"
proof -
  obtain s' where s': "open_channel log_driver log_channel = (Inr Cancel_available, s')"
    using log_channel_open by blast
  from cancel_support_is_tried [OF this] show ?thesis
    using s' by auto
qed

text \<open>
  The code opens the cursor of a statement outside the handler that classifies driver errors: if the driver raises there, for instance because the
  connection is gone, the raw exception leaves the connection, which still counts as open.
\<close>

lemma cursor_failure_unclassified:
  assumes "is_open s" "cn_conn s = Some c" "cn_dialect s = DM" "\<not> cn_cancel_flag s" "0 < rq_fetch_size rq"
    and "dr_cursor d c False (world s) = (Inl i, w)"
  shows "execute_statement d rq s = (Inl (Driver_exn i), s\<lparr>world := w\<rparr>) \<and> is_open (s\<lparr>world := w\<rparr>)"
  using assms
  by (simp add: execute_statement_def is_open_def check_soft_cancel_def sync_server_statement_timeout_def op_bind_def driver_call_def)

text \<open>A control connection whose marker is rejected stays in place although connecting failed.\<close>

lemma half_open_channel:
  assumes "driver_connect d (ch_dialect s) (ch_info s) (ch_login_timeout_ms s) s = (Inr c, s1)"
    and "driver_call (dr_cursor d c False) s1 = (Inr k, s2)" and "fetch_first d (session_marker_sql (ch_dialect s2)) k s2 = (Inr row, s3)"
    and "first_cell row = Some v" and "\<not> valid_marker (strip (dr_str d v))"
  shows "connect_channel d s = (Inl (Channel_error ''invalid session marker'' (unclassified [])), (close_cursor d k s3)\<lparr>ch_conn := Some c\<rparr>)"
  using assms by (auto simp: connect_channel_def Let_def validate_session_marker_def valid_marker_def)

section \<open>Reopening a connection\<close>

definition first_open :: "(log_world, int) connection" where
  "first_open = snd (open_connection log_driver (log_connection []))"

definition second_open :: "(log_world, int) connection" where
  "second_open = snd (open_connection log_driver (close_connection log_driver first_open))"

lemmas log_eval = open_connection_def log_connection_def Let_def driver_connect_def op_bind_def driver_call_def log_driver_def
  after_connect_def sync_server_statement_timeout_def with_cursor_def read_session_marker_def fetch_first_def belt_seconds_def
  validate_session_marker_def close_connection_def MYSQL_SAFETY_BELT_MARGIN_SECONDS_def MYSQL_STATEMENT_TIMEOUT_SQL_def

lemma first_open_eval:
  "first_open = (log_connection [])\<lparr>world := \<lparr>lw_next = 2, lw_log = [(1, MYSQL_STATEMENT_TIMEOUT_SQL), (1, ''SELECT CONNECTION_ID()'')], lw_rows = []\<rparr>,
     cn_conn := Some 1, cn_marker := Some ''7'', cn_alive := True, cn_belt_seconds := Some 630\<rparr>"
  by (simp add: first_open_def log_eval int_str_7 [unfolded validate_session_marker_def Let_def])

lemma second_open_eval:
  "second_open = first_open\<lparr>world := (world first_open)\<lparr>lw_next := 3, lw_log := lw_log (world first_open) @ [(2, ''SELECT CONNECTION_ID()'')]\<rparr>,
     cn_conn := Some 2\<rparr>"
  unfolding second_open_def first_open_eval by (simp add: log_eval int_str_7 [unfolded validate_session_marker_def Let_def])

text \<open>
  A connection object that is closed and opened again loses the statement timeout of the server without noticing: the new connection gets no
  \<open>SET SESSION MAX_EXECUTION_TIME\<close>, because the object still holds the value that it set on the old one and reports it as active.
\<close>

theorem reopened_connection_without_belt:
  "(1, MYSQL_STATEMENT_TIMEOUT_SQL) \<in> set (lw_log (world first_open)) \<and> cn_conn first_open = Some 1
   \<and> is_open second_open \<and> cn_conn second_open = Some 2 \<and> cn_belt_supported second_open \<and> cn_belt_seconds second_open = Some 630
   \<and> (2, MYSQL_STATEMENT_TIMEOUT_SQL) \<notin> set (lw_log (world second_open))"
  unfolding second_open_eval first_open_eval by (simp add: is_open_def log_connection_def MYSQL_STATEMENT_TIMEOUT_SQL_def)

end
