(* ===== verification/Sql_Guard.thy ===== *)
theory Sql_Guard
  imports Prelude
begin

text \<open>
  The guard in front of every SQL text that a user runs (\<open>app/dbclients/sql_guard.py\<close>): removing leading comments, the read-only check, the
  classification of writes, the scanner that splits at semicolons and the one that blanks literals and comments. It works on characters; there
  is no parser. The last section is the transaction around a write (\<open>app/dbclients/sql_write.py\<close>).
\<close>

section \<open>Characters and words\<close>

datatype guard_error =
    Sql_empty
  | Only_select_with
  | Only_allowed_verbs
  | Multiple_statements
  | For_update
  | Forbidden_tokens
  | Unclosed_block_comment

definition ident_start :: "char \<Rightarrow> bool" where
  "ident_start c \<longleftrightarrow> is_letter c \<or> c = CHR ''_''"

definition ident_char :: "char \<Rightarrow> bool" where
  "ident_char c \<longleftrightarrow> is_letter c \<or> is_digit c \<or> c = CHR ''_''"

definition lower :: "string \<Rightarrow> string" where
  "lower s = map lower_char s"

text \<open>The match of \<open>_FIRST_TOKEN_RE\<close> at the beginning of a text, and all matches of \<open>_TOKEN_RE\<close>.\<close>

definition first_token :: "string \<Rightarrow> string option" where
  "first_token s = (case s of [] \<Rightarrow> None | c # cs \<Rightarrow> if ident_start c then Some (c # takeWhile ident_char cs) else None)"

function tokens :: "string \<Rightarrow> string list" where
  "tokens [] = []"
| "tokens (c # s) = (if ident_start c then (c # takeWhile ident_char s) # tokens (dropWhile ident_char s) else tokens s)"
  by pat_completeness auto
termination
  by (relation "measure length") (auto simp: le_imp_less_Suc length_dropWhile_le)

definition FORBIDDEN_TOKENS :: "string set" where
  "FORBIDDEN_TOKENS = {''alter'', ''call'', ''create'', ''delete'', ''drop'', ''execute'', ''grant'', ''insert'', ''lock'', ''merge'', ''replace'',
     ''revoke'', ''truncate'', ''update''}"

text \<open>\<open>search\<close> for a pattern that begins with \<open>\\b\<close> and a letter; \<open>m\<close> matches at the current position.\<close>

fun re_search :: "(string \<Rightarrow> bool) \<Rightarrow> bool \<Rightarrow> string \<Rightarrow> bool" where
  "re_search m w [] = False"
| "re_search m w (c # s) = ((\<not> w \<and> m (c # s)) \<or> re_search m (is_word c) s)"

definition word_ends :: "string \<Rightarrow> bool" where
  "word_ends s \<longleftrightarrow> s = [] \<or> \<not> is_word (hd s)"

definition for_update_here :: "string \<Rightarrow> bool" where
  "for_update_here s \<longleftrightarrow>
     (let r = dropWhile py_is_space (drop 3 s) in
      lower (take 3 s) = ''for'' \<and> r \<noteq> drop 3 s \<and> lower (take 6 r) = ''update'' \<and> word_ends (drop 6 r))"

definition where_here :: "string \<Rightarrow> bool" where
  "where_here s \<longleftrightarrow> lower (take 5 s) = ''where'' \<and> word_ends (drop 5 s)"

section \<open>Comments and statements\<close>

text \<open>The text behind the first \<open>*/\<close>.\<close>

fun after_close :: "string \<Rightarrow> string option" where
  "after_close (c # d # s) = (if c = CHR ''*'' \<and> d = CHR ''/'' then Some s else after_close (d # s))"
| "after_close s = None"

lemma after_close_shorter: "after_close s = Some r \<Longrightarrow> length r < length s"
  by (induction s arbitrary: r rule: after_close.induct) (auto split: if_splits simp: less_SucI)

abbreviation newline :: char where
  "newline \<equiv> CHR 10"

function strip_comments_loop :: "string \<Rightarrow> guard_error + string" where
  "strip_comments_loop s =
     (if starts_with ''--'' s
      then if newline \<notin> set s then Inr []
           else strip_comments_loop (lstrip (tl (dropWhile (\<lambda>c. c \<noteq> newline) s)))
      else if starts_with ''/*'' s
      then (case after_close s of None \<Rightarrow> Inl Unclosed_block_comment | Some r \<Rightarrow> strip_comments_loop (lstrip r))
      else Inr s)"
  by pat_completeness auto
termination
proof (relation "measure length")
  fix s :: string
  assume "\<not> newline \<notin> set s"
  then have "dropWhile (\<lambda>c. c \<noteq> newline) s \<noteq> []"
    by (auto simp: dropWhile_eq_Nil_conv)
  then have "length (tl (dropWhile (\<lambda>c. c \<noteq> newline) s)) < length s"
    using length_dropWhile_le [of "\<lambda>c. c \<noteq> newline" s] by (cases "dropWhile (\<lambda>c. c \<noteq> newline) s") auto
  then show "(lstrip (tl (dropWhile (\<lambda>c. c \<noteq> newline) s)), s) \<in> measure length"
    using length_dropWhile_le [of py_is_space "tl (dropWhile (\<lambda>c. c \<noteq> newline) s)"] by (simp add: lstrip_def)
next
  fix s r :: string
  assume "after_close s = Some r"
  then show "(lstrip r, s) \<in> measure length"
    using after_close_shorter [of s r] length_dropWhile_le [of py_is_space r] by (simp add: lstrip_def)
qed simp

declare strip_comments_loop.simps [simp del]

definition strip_leading_comments :: "string \<Rightarrow> guard_error + string" where
  "strip_leading_comments sql = strip_comments_loop (lstrip sql)"

text \<open>Whether an odd number of backslashes stands before a position; the argument is the text before it, reversed.\<close>

definition is_escaped :: "string \<Rightarrow> bool" where
  "is_escaped before = odd (length (takeWhile (\<lambda>c. c = CHR 92) before))"

text \<open>At most one of the five flags of the scanner is set at a time.\<close>

datatype scan_mode = Plain | In_single | In_double | In_backtick | In_line_comment | In_block_comment

definition add_statement :: "string \<Rightarrow> string list \<Rightarrow> string list" where
  "add_statement part sts = (if strip part = [] then sts else strip part # sts)"

text \<open>\<open>before\<close> is the text read so far and \<open>part\<close> that since the last semicolon, both reversed.\<close>

definition toggle_quote :: "scan_mode \<Rightarrow> string \<Rightarrow> char \<Rightarrow> scan_mode" where
  "toggle_quote mode before c =
     (if c = CHR 39 \<and> mode \<in> {Plain, In_single} then (if is_escaped before then mode else if mode = Plain then In_single else Plain)
      else if c = CHR 34 \<and> mode \<in> {Plain, In_double} then (if is_escaped before then mode else if mode = Plain then In_double else Plain)
      else if c = CHR 96 \<and> mode \<in> {Plain, In_backtick} then (if mode = Plain then In_backtick else Plain)
      else mode)"

fun split_loop :: "scan_mode \<Rightarrow> string \<Rightarrow> string \<Rightarrow> string \<Rightarrow> string list" where
  "split_loop mode before part [] = add_statement (rev part) []"
| "split_loop mode before part (c # s) =
     (let nxt = (case s of [] \<Rightarrow> None | d # _ \<Rightarrow> Some d) in
      if mode = In_line_comment then split_loop (if c = newline then Plain else mode) (c # before) (c # part) s
      else if mode = In_block_comment then
        (if c = CHR ''*'' \<and> nxt = Some (CHR ''/'') then split_loop Plain (hd s # c # before) (hd s # c # part) (tl s)
         else split_loop mode (c # before) (c # part) s)
      else if mode = Plain \<and> c = CHR ''-'' \<and> nxt = Some (CHR ''-'') then split_loop In_line_comment (hd s # c # before) (hd s # c # part) (tl s)
      else if mode = Plain \<and> c = CHR ''/'' \<and> nxt = Some (CHR ''*'') then split_loop In_block_comment (hd s # c # before) (hd s # c # part) (tl s)
      else if mode = Plain \<and> c = CHR '';'' then add_statement (rev part) (split_loop Plain (c # before) [] s)
      else split_loop (toggle_quote mode before c) (c # before) (c # part) s)"

definition split_semicolon_statements :: "string \<Rightarrow> string list" where
  "split_semicolon_statements sql = split_loop Plain [] [] sql"

text \<open>The scanner that keeps the skeleton of a statement.\<close>

function blank_loop :: "char option \<Rightarrow> string \<Rightarrow> string \<Rightarrow> string" where
  "blank_loop quote before [] = []"
| "blank_loop quote before (c # s) =
     (case quote of
        Some q \<Rightarrow> CHR '' '' # blank_loop (if c = q \<and> \<not> (q \<noteq> CHR 96 \<and> is_escaped before) then None else quote) (c # before) s
      | None \<Rightarrow>
          if c = CHR ''-'' \<and> starts_with ''-'' s then
            (let line = takeWhile (\<lambda>d. d \<noteq> newline) (c # s) in
             replicate (length line) (CHR '' '') @ blank_loop None (rev line @ before) (dropWhile (\<lambda>d. d \<noteq> newline) (c # s)))
          else if c = CHR ''/'' \<and> starts_with ''*'' s then
            (let rest = (case after_close (tl s) of None \<Rightarrow> [] | Some r \<Rightarrow> r); n = length (c # s) - length rest in
             replicate n (CHR '' '') @ blank_loop None (rev (take n (c # s)) @ before) rest)
          else if c \<in> {CHR 39, CHR 34, CHR 96} then CHR '' '' # blank_loop (Some c) (c # before) s
          else c # blank_loop None (c # before) s)"
  by pat_completeness auto
termination
proof (relation "measure (\<lambda>(quote, before, s). length s)")
  fix quote :: "char option" and before :: string and c and s :: string and line
  assume "c = CHR ''-'' \<and> starts_with ''-'' s"
  then have "length (dropWhile (\<lambda>d. d \<noteq> newline) (c # s)) \<le> length s"
    using length_dropWhile_le [of "\<lambda>d. d \<noteq> newline" s] by simp
  then show "((None, rev line @ before, dropWhile (\<lambda>d. d \<noteq> newline) (c # s)), quote, before, c # s) \<in> measure (\<lambda>(quote, before, s). length s)"
    by simp
next
  fix quote :: "char option" and before :: string and c and s :: string and x y
  assume "x = (case after_close (tl s) of None \<Rightarrow> [] | Some r \<Rightarrow> r)"
  then show "((None, rev (take y (c # s)) @ before, x), quote, before, c # s) \<in> measure (\<lambda>(quote, before, s). length s)"
    using after_close_shorter [of "tl s"] by (auto split: option.splits)
qed simp_all

definition blank_literals_and_comments :: "string \<Rightarrow> string" where
  "blank_literals_and_comments sql = blank_loop None [] sql"

section \<open>The guard\<close>

definition validate_readonly_sql :: "string \<Rightarrow> guard_error + string" where
  "validate_readonly_sql sql =
     rbind (strip_leading_comments sql) (\<lambda>s.
     let stripped = strip s in
     if stripped = [] then Inl Sql_empty
     else if (case first_token stripped of None \<Rightarrow> True | Some t \<Rightarrow> lower t \<notin> {''select'', ''with''}) then Inl Only_select_with
     else if length (split_semicolon_statements stripped) > 1 then Inl Multiple_statements
     else if re_search for_update_here False stripped then Inl For_update
     else if set (map lower (tokens stripped)) \<inter> FORBIDDEN_TOKENS \<noteq> {} then Inl Forbidden_tokens
     else Inr stripped)"

datatype sql_statement_kind = QUERY | DML | DDL

definition DML_VERBS :: "string set" where
  "DML_VERBS = {''insert'', ''update'', ''delete'', ''merge''}"

definition DDL_VERBS :: "string set" where
  "DDL_VERBS = {''create'', ''alter'', ''drop'', ''truncate''}"

record classified_sql =
  cs_sql :: string
  cs_kind :: sql_statement_kind
  cs_verb :: string
  cs_missing_where :: bool

definition cs_is_write :: "classified_sql \<Rightarrow> bool" where
  "cs_is_write c \<longleftrightarrow> cs_kind c \<noteq> QUERY"

definition classify_executable_sql :: "string \<Rightarrow> guard_error + classified_sql" where
  "classify_executable_sql sql =
     rbind (strip_leading_comments sql) (\<lambda>s.
     let stripped = strip s;
         verb = (case first_token stripped of None \<Rightarrow> [] | Some t \<Rightarrow> lower t) in
     if stripped = [] then Inl Sql_empty
     else if verb \<in> {''select'', ''with''} then
       rbind (validate_readonly_sql sql) (\<lambda>q. Inr \<lparr>cs_sql = q, cs_kind = QUERY, cs_verb = verb, cs_missing_where = False\<rparr>)
     else if verb \<notin> DML_VERBS \<and> verb \<notin> DDL_VERBS then Inl Only_allowed_verbs
     else
       (case split_semicolon_statements stripped of
          [statement] \<Rightarrow>
            Inr \<lparr>cs_sql = statement, cs_kind = (if verb \<in> DML_VERBS then DML else DDL), cs_verb = verb,
              cs_missing_where = (verb \<in> {''update'', ''delete''} \<and> \<not> re_search where_here False (blank_literals_and_comments statement))\<rparr>
        | _ \<Rightarrow> Inl Multiple_statements))"

section \<open>Words and tokens\<close>

text \<open>A word occurs when a part of the text reads so in any case and no identifier character stands next to it.\<close>

definition occurs_word :: "string \<Rightarrow> string \<Rightarrow> bool" where
  "occurs_word w s \<longleftrightarrow>
     (\<exists>a t b. s = a @ t @ b \<and> lower t = w \<and> (a = [] \<or> \<not> ident_char (last a)) \<and> (b = [] \<or> \<not> ident_char (hd b)))"

lemma ident_start_char: "ident_start c \<Longrightarrow> ident_char c"
  by (auto simp: ident_start_def ident_char_def)

lemma token_at:
  assumes "list_all ident_char t" and "b = [] \<or> \<not> ident_char (hd b)"
  shows "takeWhile ident_char (t @ b) = t" "dropWhile ident_char (t @ b) = b"
  using assms by (cases b; auto simp: list_all_iff takeWhile_append dropWhile_append)+

lemma last_dropWhile: "dropWhile P xs \<noteq> [] \<Longrightarrow> last (dropWhile P xs) = last xs"
  by (induction xs) auto

lemma tokens_complete:
  assumes "t \<noteq> []" "ident_start (hd t)" "list_all ident_char t" "a = [] \<or> \<not> ident_char (last a)" "b = [] \<or> \<not> ident_char (hd b)"
  shows "t \<in> set (tokens (a @ t @ b))"
  using assms(4)
proof (induction "length a" arbitrary: a rule: less_induct)
  case less
  show ?case
  proof (cases a)
    case Nil
    obtain c t' where t: "t = c # t'"
      using assms(1) by (cases t) auto
    then show ?thesis
      using Nil assms(2,3) token_at(1) [of t' b] assms(5) by simp
  next
    case (Cons c a')
    show ?thesis
    proof (cases "ident_start c")
      case False
      then show ?thesis
        using less.hyps [of a'] less.prems Cons by (auto split: if_splits)
    next
      case True
      have last: "\<not> ident_char (last a')" "a' \<noteq> []"
        using less.prems Cons ident_start_char [OF True] by (auto split: if_splits)
      then obtain d where "d \<in> set a'" "\<not> ident_char d"
        using last_in_set by blast
      then have drop: "dropWhile ident_char (a' @ t @ b) = dropWhile ident_char a' @ t @ b"
        by (rule dropWhile_append1)
      have "dropWhile ident_char a' = [] \<or> \<not> ident_char (last (dropWhile ident_char a'))"
        using last(1) last_dropWhile [of ident_char a'] by metis
      moreover have "length (dropWhile ident_char a') < length a"
        using length_dropWhile_le [of ident_char a'] Cons by simp
      ultimately have "t \<in> set (tokens (dropWhile ident_char a' @ t @ b))"
        using less.hyps by blast
      then show ?thesis
        using Cons True drop by simp
    qed
  qed
qed

lemma forbidden_letters: "w \<in> FORBIDDEN_TOKENS \<Longrightarrow> w \<noteq> [] \<and> list_all is_letter w"
  unfolding FORBIDDEN_TOKENS_def by (elim insertE emptyE; hypsubst) code_simp+

lemma lower_letters: "list_all is_letter (lower t) \<Longrightarrow> list_all is_letter t"
  by (auto simp: lower_def list_all_iff is_letter_lower)

lemma occurs_word_token:
  assumes "occurs_word w s" and "w \<in> FORBIDDEN_TOKENS"
  shows "w \<in> set (map lower (tokens s))"
proof -
  obtain a t b where s: "s = a @ t @ b" "lower t = w" "a = [] \<or> \<not> ident_char (last a)" "b = [] \<or> \<not> ident_char (hd b)"
    using assms(1) by (auto simp: occurs_word_def)
  have w: "w \<noteq> []" "list_all is_letter w"
    using forbidden_letters [OF assms(2)] by simp_all
  then have t: "t \<noteq> []" "list_all is_letter t"
    using s(2) lower_letters by (auto simp: lower_def)
  then have "ident_start (hd t)" "list_all ident_char t"
    by (auto simp: list_all_iff ident_start_def ident_char_def)
  then have "t \<in> set (tokens s)"
    unfolding s(1) by (rule tokens_complete [OF t(1) _ _ s(3,4)])
  then show ?thesis
    using s(2) by auto
qed

section \<open>What the guard lets through\<close>

lemma strip_trimmed: "strip s = [] \<or> (\<not> py_is_space (hd (strip s)) \<and> \<not> py_is_space (last (strip s)))"
proof (cases "lstrip s = []")
  case False
  then have hd: "\<not> py_is_space (hd (lstrip s))"
    unfolding lstrip_def by (rule hd_dropWhile)
  define u where "u = dropWhile py_is_space (rev (lstrip s))"
  have "u \<noteq> []"
    using False hd unfolding u_def by (auto simp: dropWhile_eq_Nil_conv intro: hd_in_set)
  moreover have "last u = hd (lstrip s)"
    using last_dropWhile [OF \<open>u \<noteq> []\<close> [unfolded u_def]] False unfolding u_def by (simp add: last_rev)
  moreover have "\<not> py_is_space (hd u)"
    using \<open>u \<noteq> []\<close> unfolding u_def by (rule hd_dropWhile)
  ultimately show ?thesis
    using hd by (simp add: strip_def lstrip_def u_def [unfolded lstrip_def, symmetric] hd_rev last_rev)
qed (simp add: strip_def lstrip_def [of "[]"])

lemma strip_trimmed_id:
  assumes "s = [] \<or> (\<not> py_is_space (hd s) \<and> \<not> py_is_space (last s))"
  shows "lstrip s = s" "strip s = s"
proof -
  have id: "dropWhile py_is_space t = t" if "t = [] \<or> \<not> py_is_space (hd t)" for t
    using that by (cases t) auto
  show "lstrip s = s" "strip s = s"
    using assms id [of s] id [of "rev s"] by (auto simp: lstrip_def strip_def hd_rev)
qed

lemma no_leading_comment:
  assumes "first_token q = Some t"
  shows "strip_comments_loop q = Inr q"
proof -
  obtain c cs where q: "q = c # cs" "ident_start c"
    using assms by (auto simp: first_token_def split: list.splits if_splits)
  then have "c \<noteq> CHR ''-''" "c \<noteq> CHR ''/''"
    by (auto simp: ident_start_def is_letter_def Let_def)
  then show ?thesis
    using q by (subst strip_comments_loop.simps) simp
qed

text \<open>
  C27. The read-only guard accepts a text only if it begins with SELECT or WITH, is a single statement, and none of the words that write or
  lock (INSERT, UPDATE, DELETE, DROP and so on) occurs in it in any case, not even in a literal or a comment. What it returns passes the guard unchanged
  when it is checked again.
\<close>

theorem readonly_guard_correct:
  assumes "validate_readonly_sql sql = Inr q"
  shows "(\<exists>t. first_token q = Some t \<and> lower t \<in> {''select'', ''with''})
     \<and> length (split_semicolon_statements q) \<le> 1
     \<and> (\<forall>w \<in> FORBIDDEN_TOKENS. \<not> occurs_word w q)
     \<and> validate_readonly_sql q = Inr q"
proof -
  obtain s where s: "strip_leading_comments sql = Inr s" "q = strip s" "q \<noteq> []"
      "case first_token q of None \<Rightarrow> False | Some t \<Rightarrow> lower t \<in> {''select'', ''with''}"
      "\<not> 1 < length (split_semicolon_statements q)" "\<not> re_search for_update_here False q"
      "set (map lower (tokens q)) \<inter> FORBIDDEN_TOKENS = {}"
    using assms by (auto simp: validate_readonly_sql_def rbind_eq_Inr Let_def split: if_splits option.splits)
  then obtain t where t: "first_token q = Some t" "lower t \<in> {''select'', ''with''}"
    by (cases "first_token q") auto
  have "\<not> occurs_word w q" if "w \<in> FORBIDDEN_TOKENS" for w
    using occurs_word_token [OF _ that, of q] s(7) that by blast
  moreover have "lstrip q = q" "strip q = q"
    using strip_trimmed_id strip_trimmed [of s] s(2) by auto
  then have "validate_readonly_sql q = Inr q"
    using s t no_leading_comment [OF t(1)] by (simp add: validate_readonly_sql_def strip_leading_comments_def)
  ultimately show ?thesis
    using t s(5) by auto
qed

lemma readonly_example: "validate_readonly_sql ''/* all */ Select * from t; '' = Inr ''Select * from t;''"
  by code_simp

theorem readonly_guard_correct_witness:
  "validate_readonly_sql ''/* all */ Select * from t; '' = Inr ''Select * from t;'' \<and> \<not> occurs_word ''drop'' ''Select * from t;''"
proof -
  have "''drop'' \<in> FORBIDDEN_TOKENS"
    by (simp add: FORBIDDEN_TOKENS_def)
  then show ?thesis
    using readonly_guard_correct [OF readonly_example] readonly_example by blast
qed

section \<open>The two scanners agree\<close>

text \<open>The text cut where a skeleton of the same length has a semicolon.\<close>

fun cut_at :: "string \<Rightarrow> string \<Rightarrow> string \<Rightarrow> string list" where
  "cut_at part (c # s) (b # bs) = (if b = CHR '';'' then add_statement (rev part) (cut_at [] s bs) else cut_at (c # part) s bs)"
| "cut_at part _ _ = add_statement (rev part) []"

lemma cut_blank: "cut_at part (x @ s) (replicate (length x) (CHR '' '') @ bs) = cut_at (rev x @ part) s bs"
  by (induction x arbitrary: part) auto

lemma not_escaped: "CHR 92 \<notin> set before \<Longrightarrow> \<not> is_escaped before"
  by (cases before) (auto simp: is_escaped_def)

text \<open>A comment is a jump.\<close>

lemma split_line_comment:
  "split_loop In_line_comment before part s =
     (let line = takeWhile (\<lambda>c. c \<noteq> newline) s in
      split_loop Plain (rev line @ before) (rev line @ part) (dropWhile (\<lambda>c. c \<noteq> newline) s))"
proof (induction s arbitrary: before part)
  case (Cons c s)
  then show ?case
    by (simp add: Let_def toggle_quote_def split: list.split)
qed simp

lemma after_close_suffix: "after_close s = Some r \<Longrightarrow> \<exists>x. s = x @ r"
proof (induction s rule: after_close.induct)
  case (1 c d s)
  then show ?case
    by (auto split: if_splits)
qed auto

lemma split_block_comment:
  "split_loop In_block_comment before part s =
     (case after_close s of
        None \<Rightarrow> add_statement (rev part @ s) []
      | Some r \<Rightarrow> (let x = take (length s - length r) s in split_loop Plain (rev x @ before) (rev x @ part) r))"
proof (induction s arbitrary: before part rule: after_close.induct)
  case (1 c d s)
  show ?case
  proof (cases "c = CHR ''*'' \<and> d = CHR ''/''")
    case True
    then show ?thesis
      by (simp add: Let_def)
  next
    case False
    have "split_loop In_block_comment before part (c # d # s) = split_loop In_block_comment (c # before) (c # part) (d # s)"
      using False by (subst split_loop.simps) (auto simp: Let_def)
    also have "\<dots> = (case after_close (d # s) of
        None \<Rightarrow> add_statement (rev (c # part) @ d # s) []
      | Some r \<Rightarrow> (let x = take (length (d # s) - length r) (d # s) in split_loop Plain (rev x @ c # before) (rev x @ c # part) r))"
      by (rule 1) (use False in auto)
    also have "\<dots> = (case after_close (c # d # s) of
        None \<Rightarrow> add_statement (rev part @ c # d # s) []
      | Some r \<Rightarrow> (let x = take (length (c # d # s) - length r) (c # d # s) in split_loop Plain (rev x @ before) (rev x @ part) r))"
      using False after_close_shorter [of "d # s"] by (auto simp: Let_def Suc_diff_le split: option.split)
    finally show ?thesis .
  qed
qed (simp_all add: Let_def)

text \<open>The quote of the second scanner for a mode of the first.\<close>

fun quote_of :: "scan_mode \<Rightarrow> char option" where
  "quote_of In_single = Some (CHR 39)"
| "quote_of In_double = Some (CHR 34)"
| "quote_of In_backtick = Some (CHR 96)"
| "quote_of _ = None"

lemma split_quoted:
  assumes "mode \<in> {In_single, In_double, In_backtick}" and "\<not> is_escaped before"
  shows "split_loop mode before part (c # s) = split_loop (if quote_of mode = Some c then Plain else mode) (c # before) (c # part) s"
  using assms by (auto simp: toggle_quote_def)

lemma blank_quoted:
  assumes "mode \<in> {In_single, In_double, In_backtick}" and "\<not> is_escaped before"
  shows "blank_loop (quote_of mode) before (c # s) = CHR '' '' # blank_loop (quote_of (if quote_of mode = Some c then Plain else mode)) (c # before) s"
  using assms by auto

definition opened :: "char \<Rightarrow> scan_mode" where
  "opened c = (if c = CHR 39 then In_single else if c = CHR 34 then In_double else if c = CHR 96 then In_backtick else Plain)"

lemma opened_modes: "opened c \<in> {Plain, In_single, In_double, In_backtick}" "opened (CHR '';'') = Plain"
  by (simp_all add: opened_def)

lemma split_plain:
  assumes "\<not> is_escaped before" and "\<not> (c = CHR ''-'' \<and> starts_with ''-'' s)" and "\<not> (c = CHR ''/'' \<and> starts_with ''*'' s)"
  shows "split_loop Plain before part (c # s) =
     (if c = CHR '';'' then add_statement (rev part) (split_loop Plain (c # before) [] s) else split_loop (opened c) (c # before) (c # part) s)"
  using assms by (cases s) (auto simp: toggle_quote_def opened_def)

lemma blank_plain:
  assumes "\<not> (c = CHR ''-'' \<and> starts_with ''-'' s)" and "\<not> (c = CHR ''/'' \<and> starts_with ''*'' s)"
  shows "blank_loop None before (c # s) = (if opened c = Plain then c else CHR '' '') # blank_loop (quote_of (opened c)) (c # before) s"
  using assms by (auto simp: opened_def)

lemma blank_block:
  "blank_loop None before (CHR ''/'' # CHR ''*'' # u) =
     (let rest = (case after_close u of None \<Rightarrow> [] | Some r \<Rightarrow> r); n = length (CHR ''/'' # CHR ''*'' # u) - length rest in
      replicate n (CHR '' '') @ blank_loop None (rev (take n (CHR ''/'' # CHR ''*'' # u)) @ before) rest)"
  by (subst blank_loop.simps(2)) (simp del: blank_loop.simps add: Let_def)

text \<open>Both scanners take the same comment in one step.\<close>

definition jumps :: "string \<Rightarrow> string \<Rightarrow> string \<Rightarrow> string \<Rightarrow> bool" where
  "jumps before s x r \<longleftrightarrow> s = x @ r \<and> x \<noteq> []
     \<and> (\<forall>part. split_loop Plain before part s = split_loop Plain (rev x @ before) (rev x @ part) r)
     \<and> blank_loop None before s = replicate (length x) (CHR '' '') @ blank_loop None (rev x @ before) r"

lemma line_jumps: "\<exists>x r. jumps before (CHR ''-'' # CHR ''-'' # u) x r"
proof -
  define x where "x = CHR ''-'' # CHR ''-'' # takeWhile (\<lambda>d. d \<noteq> newline) u"
  define r where "r = dropWhile (\<lambda>d. d \<noteq> newline) u"
  have "split_loop Plain before part (CHR ''-'' # CHR ''-'' # u) = split_loop Plain (rev x @ before) (rev x @ part) r" for part
    by (subst split_loop.simps) (simp add: split_line_comment x_def r_def Let_def)
  moreover have "blank_loop None before (CHR ''-'' # CHR ''-'' # u) = replicate (length x) (CHR '' '') @ blank_loop None (rev x @ before) r"
    by (subst blank_loop.simps(2)) (simp add: x_def r_def Let_def)
  ultimately have "jumps before (CHR ''-'' # CHR ''-'' # u) x r"
    unfolding jumps_def by (simp add: x_def r_def del: split_loop.simps blank_loop.simps)
  then show ?thesis
    by blast
qed

lemma block_jumps: "\<exists>x r. jumps before (CHR ''/'' # CHR ''*'' # u) x r"
proof -
  define r where "r = (case after_close u of None \<Rightarrow> [] | Some r \<Rightarrow> r)"
  obtain y where y: "u = y @ r"
    using after_close_suffix [of u] unfolding r_def by (cases "after_close u") auto
  define x where "x = CHR ''/'' # CHR ''*'' # y"
  have "split_loop Plain before part (CHR ''/'' # CHR ''*'' # u) = split_loop Plain (rev x @ before) (rev x @ part) r" for part
    using y unfolding x_def r_def
    by (subst split_loop.simps) (auto simp: split_block_comment Let_def split: option.splits)
  moreover have n: "length (CHR ''/'' # CHR ''*'' # u) - length r = length x" "take (length x) (CHR ''/'' # CHR ''*'' # u) = x"
    by (simp_all add: x_def y)
  have "blank_loop None before (CHR ''/'' # CHR ''*'' # u) = replicate (length x) (CHR '' '') @ blank_loop None (rev x @ before) r"
    using blank_block [of before u] unfolding Let_def r_def [symmetric] n .
  ultimately have "jumps before (CHR ''/'' # CHR ''*'' # u) x r"
    unfolding jumps_def by (simp add: x_def y del: split_loop.simps blank_loop.simps)
  then show ?thesis
    by blast
qed

lemma scanners_agree_loop:
  assumes "CHR 92 \<notin> set before" and "CHR 92 \<notin> set s" and "mode \<in> {Plain, In_single, In_double, In_backtick}"
  shows "split_loop mode before part s = cut_at part s (blank_loop (quote_of mode) before s)"
  using assms
proof (induction "length s" arbitrary: mode before part s rule: less_induct)
  case less
  show ?case
  proof (cases s)
    case (Cons c t)
    have esc: "\<not> is_escaped before"
      using less.prems(1) by (rule not_escaped)
    have step: "split_loop m (c # before) p t = cut_at p t (blank_loop (quote_of m) (c # before) t)"
      if "m \<in> {Plain, In_single, In_double, In_backtick}" for m p
      using less.hyps [of t "c # before" m p] less.prems Cons that by auto
    consider (quoted) "mode \<in> {In_single, In_double, In_backtick}"
      | (comment) x r where "mode = Plain" "jumps before s x r"
      | (plain) "mode = Plain" "\<not> (c = CHR ''-'' \<and> starts_with ''-'' t)" "\<not> (c = CHR ''/'' \<and> starts_with ''*'' t)"
      using less.prems(3) line_jumps [of before "tl t"] block_jumps [of before "tl t"] Cons by (cases t) auto
    then show ?thesis
    proof cases
      case quoted
      then show ?thesis
        unfolding Cons split_quoted [OF quoted esc] blank_quoted [OF quoted esc] by (simp add: step)
    next
      case comment
      then have j: "s = x @ r" "x \<noteq> []" "split_loop Plain before part s = split_loop Plain (rev x @ before) (rev x @ part) r"
          "blank_loop None before s = replicate (length x) (CHR '' '') @ blank_loop None (rev x @ before) r"
        unfolding jumps_def by blast+
      have "length r < length s" "CHR 92 \<notin> set (rev x @ before)" "CHR 92 \<notin> set r"
        using less.prems j by auto
      then have "split_loop Plain (rev x @ before) (rev x @ part) r = cut_at (rev x @ part) r (blank_loop (quote_of Plain) (rev x @ before) r)"
        by (rule less.hyps) simp
      then show ?thesis
        unfolding comment(1) quote_of.simps j(3,4) unfolding j(1) cut_blank .
    next
      case plain
      note eqs = split_plain [OF esc plain(2,3), of part] blank_plain [OF plain(2,3), of before]
      show ?thesis
      proof (cases "c = CHR '';''")
        case True
        show ?thesis
          unfolding Cons plain(1) quote_of.simps eqs unfolding True opened_modes(2) using step [of Plain "[]"]
          by (simp del: split_loop.simps blank_loop.simps add: True)
      next
        case False
        then show ?thesis
          unfolding Cons plain(1) quote_of.simps eqs step [OF opened_modes(1)] by (simp del: split_loop.simps blank_loop.simps)
      qed
    qed
  qed (cases "quote_of mode"; simp)
qed

lemma blank_loop_length: "length (blank_loop quote before s) = length s"
proof (induction "length s" arbitrary: quote before s rule: less_induct)
  case less
  show ?case
  proof (cases s)
    case (Cons c t)
    have step: "length (blank_loop m (c # before) t) = length t" for m
      using less.hyps [of t] Cons by simp
    consider (quoted) q where "quote = Some q"
      | (comment) x r where "quote = None" "jumps before s x r"
      | (plain) "quote = None" "\<not> (c = CHR ''-'' \<and> starts_with ''-'' t)" "\<not> (c = CHR ''/'' \<and> starts_with ''*'' t)"
      using line_jumps [of before "tl t"] block_jumps [of before "tl t"] Cons by (cases quote; cases t) auto
    then show ?thesis
    proof cases
      case quoted
      then show ?thesis
        unfolding Cons by (subst blank_loop.simps(2)) (simp add: step del: blank_loop.simps)
    next
      case comment
      then have "blank_loop quote before s = replicate (length x) (CHR '' '') @ blank_loop None (rev x @ before) r" and x: "s = x @ r" "x \<noteq> []"
        unfolding jumps_def by blast+
      moreover have "length r < length s"
        using x by simp
      ultimately show ?thesis
        using less.hyps [of r None "rev x @ before"] by simp
    next
      case plain
      then show ?thesis
        unfolding Cons plain(1) blank_plain [OF plain(2,3)] by (simp add: step del: blank_loop.simps)
    qed
  qed (cases quote; simp)
qed

text \<open>
  C28. The two scanners of the guard, one that walks over the text and keeps flags and one that jumps over comments and blanks what it skips, agree on
  every text without a backslash about what is a literal or a comment: the statements are the trimmed, non-empty parts of the text between
  the semicolons that are left in the skeleton, which is as long as the text.
\<close>

theorem scanners_agree:
  assumes "CHR 92 \<notin> set sql"
  shows "split_semicolon_statements sql = cut_at [] sql (blank_literals_and_comments sql)
     \<and> length (blank_literals_and_comments sql) = length sql"
  unfolding split_semicolon_statements_def blank_literals_and_comments_def
  using scanners_agree_loop [of "[]" sql Plain "[]"] assms blank_loop_length [of None "[]" sql] by simp

theorem scanners_agree_witness:
  "split_semicolon_statements ''select 1 /* ; */; select 2 -- ;'' = cut_at [] ''select 1 /* ; */; select 2 -- ;'' (blank_literals_and_comments ''select 1 /* ; */; select 2 -- ;'')
   \<and> split_semicolon_statements ''select 1 /* ; */; select 2 -- ;'' = [''select 1 /* ; */'', ''select 2 -- ;'']"
  by (rule conjI, rule scanners_agree [THEN conjunct1], code_simp, code_simp)

section \<open>What the workbench executes\<close>

lemma first_token_verbs:
  "verb = (case first_token s of None \<Rightarrow> [] | Some t \<Rightarrow> lower t) \<Longrightarrow> verb \<noteq> [] \<Longrightarrow> \<exists>t. first_token s = Some t \<and> lower t = verb"
  by (cases "first_token s") auto


lemma update_example:
  "classify_executable_sql ''/* x */ Update t set a = 1 -- where;'' =
     Inr \<lparr>cs_sql = ''Update t set a = 1 -- where;'', cs_kind = DML, cs_verb = ''update'', cs_missing_where = True\<rparr>"
  by code_simp


section \<open>What the guard does not see\<close>

text \<open>A query may still write through SELECT INTO; a query keeps its final semicolon; and a quote behind a backslash, which is an ordinary character in
  the literals of standard SQL, hides a second statement from the check for several statements.\<close>

lemma select_into_passes: "validate_readonly_sql ''select * into t2 from t1'' = Inr ''select * into t2 from t1''"
  by code_simp

lemma query_keeps_semicolon:
  "classify_executable_sql ''select 1;'' = Inr \<lparr>cs_sql = ''select 1;'', cs_kind = QUERY, cs_verb = ''select'', cs_missing_where = False\<rparr>"
  by code_simp

lemma backslash_hides_statement:
  "classify_executable_sql (''update t set a = '' @ [CHR 39, CHR 92, CHR 39] @ ''; drop table t; --'' @ [CHR 39]) =
     Inr \<lparr>cs_sql = ''update t set a = '' @ [CHR 39, CHR 92, CHR 39] @ ''; drop table t; --'' @ [CHR 39], cs_kind = DML, cs_verb = ''update'',
       cs_missing_where = True\<rparr>"
  by code_simp

section \<open>The transaction of a write\<close>

text \<open>What the driver does is given: an exception or none for each call, and the row count it reports. The result comes with the calls made.\<close>

datatype write_call = Cursor_opened | Statement_executed | Committed | Rolled_back | Cursor_closed

datatype row_count = Rc_int int | Rc_other

record 'e write_env =
  we_cursor :: "'e option"
  we_execute :: "'e option"
  we_rowcount :: row_count
  we_cancel :: "'e option"
  we_commit :: "'e option"

fun affected_rows :: "row_count \<Rightarrow> int option" where
  "affected_rows (Rc_int n) = (if n < 0 then None else Some n)"
| "affected_rows Rc_other = None"

definition run_write_statement :: "'e write_env \<Rightarrow> ('e + int option) \<times> write_call list" where
  "run_write_statement env =
     (case we_cursor env of
        Some e \<Rightarrow> (Inl e, [Rolled_back])
      | None \<Rightarrow>
          (case we_execute env of
             Some e \<Rightarrow> (Inl e, [Cursor_opened, Rolled_back, Cursor_closed])
           | None \<Rightarrow>
               (case we_cancel env of
                  Some e \<Rightarrow> (Inl e, [Cursor_opened, Statement_executed, Rolled_back, Cursor_closed])
                | None \<Rightarrow>
                    (case we_commit env of
                       Some e \<Rightarrow> (Inl e, [Cursor_opened, Statement_executed, Rolled_back, Cursor_closed])
                     | None \<Rightarrow> (Inr (affected_rows (we_rowcount env)), [Cursor_opened, Statement_executed, Committed, Cursor_closed])))))"

text \<open>A write is committed or rolled back, never both; it returns exactly when it is committed, and it is not committed when it was cancelled.\<close>

lemma write_commits_or_rolls_back:
  assumes "run_write_statement env = (r, calls)"
  shows "(Committed \<in> set calls) \<noteq> (Rolled_back \<in> set calls)"
    and "(\<exists>n. r = Inr n) \<longleftrightarrow> Committed \<in> set calls"
    and "Committed \<in> set calls \<longleftrightarrow> we_cursor env = None \<and> we_execute env = None \<and> we_cancel env = None \<and> we_commit env = None"
    and "Cursor_opened \<in> set calls \<longleftrightarrow> last calls = Cursor_closed"
  using assms by (auto simp: run_write_statement_def split: option.splits)

end
