(* ===== verification/Spec2Isabelle.thy ===== *)
theory Spec2Isabelle
  imports Worker_Run Compare_Run Broker_Store_Refine Broker_Hazards Broker_Results Interactive_Driver Sql_Guard
begin

text \<open>
  DataOps Studio runs data jobs for its users: SQL queries, comparisons of tables, exports, and workflows of such jobs. API
  requests and the scheduler put jobs into a table of PostgreSQL; worker processes claim them, run them and
  report their outcome. Interactive consoles bypass the queue: a broker in the API process holds their database sessions. This development
  models the parts that decide what runs, when, what a comparison reports, and what a console gets back.

  \<^bold>\<open>Parts and theories.\<close>

  \<^item> \<open>Prelude\<close>: Python dictionaries as ordered association lists, results as sums (\<open>Inl\<close> is the exception), strings, number texts.
    \<open>Py_Value\<close>: the values of JSON payloads, their texts, truth values and comparison.
  \<^item> \<open>Workflow_Spec\<close> with \<open>Workflow_Dag\<close> (\<open>app/domain/workflow.py\<close>, \<open>notify.py\<close>): a workflow definition and everything its constructor
    checks; the depth-first search for a cycle keeps the colours and the explicit key errors of the code, and the recursion limit.
  \<^item> \<open>Workflow_Outputs\<close>, \<open>Workflow_Interpolate\<close>, \<open>Workflow_When\<close> (\<open>workflow_outputs.py\<close>, \<open>workflow_interpolate.py\<close>, \<open>workflow_when.py\<close>): the
    outputs of a node that others may use, placeholders in payloads and the conditions on nodes, from text to value.
  \<^item> \<open>Workflow_Execution\<close> with \<open>Workflow_Topo\<close> (\<open>workflow_execution.py\<close>): the planner, a function from a definition and the child jobs of a run
    to node states, nodes to start, jobs to retry or cancel and the outcome. \<open>Workflow_Progress\<close> holds its theorems.
  \<^item> \<open>Job_Queue\<close> (\<open>infrastructure/jobbackend/postgres.py\<close>, \<open>db/models.py\<close>): the table of jobs, one definition per statement, with the rows that other
    transactions have locked, the clock of the transaction and the unique key of workflow nodes.
  \<^item> \<open>Workflow_Scheduler\<close> (\<open>services/workflow_scheduler.py\<close>, and the sensor catalogue of \<open>app/worker.py\<close>): cron and sensor triggers. \<open>sched_step\<close>
    is the step relation of ticks with stale snapshots, triggers, queue operations and edits in any order.
  \<^item> \<open>Workflow_Worker\<close> (\<open>app/worker.py\<close>): one claimed job from claim to settlement, as a state and error monad over queue, cancellations and
    messages; workflow runs with their child jobs. \<open>Worker_Run\<close> composes it with the planner and the queue.
  \<^item> \<open>Compare_Value\<close>, \<open>Compare_Normalize\<close>, \<open>Compare_Kernel\<close> (\<open>app/domain/compare.py\<close>): driver values, normal forms and hashes of rows, and the
    recursive comparison over key segments. \<open>Compare_Diff\<close> holds the reference (the bucket of every key of two tables) and the theorems.
  \<^item> \<open>Compare_Run\<close> (\<open>app/worker.py\<close>, \<open>app/domain/compare_result.py\<close>): the comparison as a job: readers, key bounds, the choice of method, files in
    memory, counting and spooling, result and export rows.
  \<^item> \<open>Broker_State\<close>, \<open>Broker_Store\<close> (\<open>app/domain/console_session.py\<close>, \<open>app/broker/state.py\<close>, \<open>store.py\<close>, \<open>app/db/models.py\<close>): sessions, statements, their
    transitions, and the two stores, in memory and in tables with their constraints. \<open>Broker_Store_Refine\<close> relates the two.
  \<^item> \<open>Broker_Core\<close>, \<open>Broker_Lane\<close>, \<open>Broker_Api\<close> (\<open>app/broker/core.py\<close>): the session broker, one definition per critical section. A session has a lane
    thread with a program counter, a datasource a control lane; \<open>handle\<close> runs one event, and \<open>broker_step\<close>, \<open>broker_run\<close> interleave calls, lanes,
    control lanes, timers and shutdown in any order. \<open>Broker_Sound\<close>, \<open>Broker_Inv\<close>, \<open>Broker_Safety\<close> prove the invariant section by section,
    \<open>Broker_Properties\<close> the promises to callers, \<open>Broker_Hazards\<close> two runs that break a promise.
  \<^item> \<open>Result_Store\<close>, \<open>Result_Spool\<close> (\<open>infrastructure/resultstore/local_fs.py\<close>): the spools of result sets on disk and what they hold.
    \<open>Broker_Results\<close> (\<open>app/broker/results.py\<close>): the catalogue of result sets and the way from the driver to a sealed result.
  \<^item> \<open>Interactive_Errors\<close>, \<open>Interactive_Driver\<close> (\<open>app/dbclients/interactive\<close>): the classification of driver exceptions on a heap of exception objects
    with their causes, the summaries with passwords removed, and the connections of a session and of a control lane over a driver that is
    a record of functions.
  \<^item> \<open>Sql_Guard\<close>, \<open>Sql_Build\<close> (\<open>app/dbclients/sql_guard.py\<close>, \<open>sql_write.py\<close>, \<open>sql_build.py\<close>, \<open>app/domain/dialect.py\<close>): the guard in front of every SQL text that a
    user runs, character by character; the transaction of a write; quoted identifiers and literals.

  \<^bold>\<open>How the parts interact.\<close> The scheduler validates a definition (\<open>validate_spec\<close>) and queues a run (\<open>enqueue\<close>); the worker claims it (\<open>claim_next\<close>),
  reads its child jobs, asks the planner for a step (\<open>plan_workflow_step\<close>), builds child jobs by interpolation, and requeues the
  run or completes it. A compare job reads both tables through readers and spools the events of the comparison. A console attaches to
  the broker, which writes every change of a session or statement through to its store; \<open>submit\<close> registers a result set and queues the
  statement, the lane executes it and drains its rows into the spool, and \<open>cancel\<close> goes through the control lane of the datasource.

  \<^bold>\<open>What the theorems show.\<close>

  \<^item> Definitions: validation accepts exactly the well-formed definitions; cycles are found exactly when there are any; the topological order
    is the deterministic one; accepted variables cannot shadow built-ins or break out of a text.
  \<^item> Conditions and payloads: values stay literals, the whitelist is what the interpreter handles, rendered lists read back, errors do not
    depend on values.
  \<^item> Planner: a step never raises on a valid definition, starts only ready nodes, never leaves a run without anything to wait for, and
    ends a run with the right outcome.
  \<^item> Queue: an invariant of the table under every sequence of operations, claims by priority and age, exclusive ownership, the reaper.
  \<^item> Scheduler: no fire point starts two runs under any interleaving, sensor triggers respect their cooldown, variables of a run read back.
  \<^item> Worker: every claimed job is settled; a run's step starts every planned child and is requeued or finished.
  \<^item> Comparison: the row-level comparison reports every key once in its bucket; the recursion over segments is equivalent to it up to
    hash collisions, never invents a difference and is bounded in effort; a run's counts are those of the reference; the hashed text
    determines the row; rounding is within half a unit; batching loses nothing; result rows read back.
  \<^item> Broker: under every interleaving no critical section fails, the store mirrors the memory, one statement runs at a time, outcomes are
    final, a takeover fences off older epochs, repeated requests are deduplicated, and the session limits hold; the store in memory simulates the
    tables. Two hazards are proved as well: queued statements of a lost session are never settled, and the cancellation fence leaks.
  \<^item> Results: manifests agree with the files and respect the limits under every sequence of operations, pages are the rows they claim to be,
    snapshots never change, a reported total is complete; an eviction during a run breaks that, as a run shows.
  \<^item> Drivers: numbers and types of exceptions decide, texts never do; a password does not reach a summary; a stream delivers every row unless it
    is cancelled; cancelling counts as available only when it was tried; a connection keeps its invariant under every sequence of calls, but
    loses the timeout of the server when it is reopened.
  \<^item> Guards: what passes as read-only is one SELECT or WITH statement without a word that writes, and passes again; the two scanners agree; only
    white-listed verbs are executable; what the builders quote is read back. The guard has gaps, which are proved as well.

  Interfaces are locales, interpreted on the definitions of the model: a store of jobs and its laws in \<open>Job_Queue\<close>, and the readers of a
  comparison (\<open>segment_reader\<close>, \<open>reader_pair\<close>) in \<open>Compare_Diff\<close>, the store of the broker (\<open>broker_store\<close>, for the tables and for the memory) in
  \<open>Broker_Store_Refine\<close>, the sink for batches of rows (\<open>row_sink\<close>, for a spool and for the lane that fills a result set) in \<open>Result_Spool\<close>, and the
  classifier of driver errors (\<open>error_classifier\<close>, for both dialects) in \<open>Interactive_Errors\<close>.

  \<^bold>\<open>Termination and bounds.\<close> Loops are recursive functions with a measure: the cycle search by uncoloured nodes, the topological sort by the nodes left, the
  comparison by the multiset of depths still allowed on its stack, the search for the rows that fit by the width of its interval, the walk over the
  causes of an exception by the depth left. No fuel is used except the recursion limit of Python in the cycle search, which the
  validator of the code bounds by the number of nodes a definition may have.

  \<^bold>\<open>Parameters.\<close> Code that is not in the repository is an argument: the parser of Python expressions, croniter, the shortest text and the
  conversions of floats, the MD5 and SHA-256 digests, JSON texts, the size of a Parquet file, the functions of database drivers, and the executors of SQL, import, lineage and export jobs (any result or exception). Strings are lists of
  the first 256 code points. A hash collision between two segments is excluded by a named hypothesis of the theorems that need it.

  \<^bold>\<open>Not modelled, and why.\<close> The statistics and the sampling mode of a comparison do not decide its result; artifacts and exports are plain file
  copies and writers. Lineage and SQL rewriting (row limits) work on the trees of a third-party parser; adapters of jobs, notifications, AI services, secrets
  and licences are calls of drivers and services; API routes, migrations, packaging and the user interface are glue around the parts above. Durations in the
  metrics of a statement are left out.
\<close>

end
